(* ===== verification/Prelude.thy ===== *)
theory Prelude
  imports "HOL-Library.Word"
begin

text \<open>
  Shared vocabulary of the development: bytes and C strings, the outcome of a C function
  that may fault or block, byte buffers written at an offset, the string functions of the
  C library the sources call, and the generic list lemmas on which the component proofs rest.

  A C \<open>char\<close> (signed or unsigned) is a \<open>byte\<close>, a C string is the list of its bytes without
  the terminating NUL, and a block of memory is a byte list: its length is the size of the
  allocation, so an access past its end is visible in the model.
\<close>

unbundle bit_operations_syntax

named_theorems outcome_simps \<open>equations that run a C function's outcome\<close>
named_theorems buffer_simps \<open>facts about byte buffers written at an offset\<close>

section \<open>Bytes and strings\<close>

type_synonym byte = "8 word"
type_synonym cstring = "byte list"

text \<open>A string literal of the source.\<close>

definition lit :: "string \<Rightarrow> cstring" where
  "lit s = map of_char s"

lemma lit_Nil [simp]: "lit [] = []"
  by (simp add: lit_def)

lemma lit_Cons [simp]: "lit (c # s) = of_char c # lit s"
  by (simp add: lit_def)

abbreviation NUL :: byte where "NUL \<equiv> 0"
abbreviation EQUALS :: byte where "EQUALS \<equiv> 0x3D"
abbreviation SEMI :: byte where "SEMI \<equiv> 0x3B"
abbreviation NEWLINE :: byte where "NEWLINE \<equiv> 0x0A"
abbreviation HASH :: byte where "HASH \<equiv> 0x23"

section \<open>Outcomes\<close>

text \<open>
  A C function returns a value, touches memory it must not touch (\<open>Fault\<close>: a NULL or
  out-of-range access, undefined behaviour in C and an oops in the kernel), or waits for a
  semaphore nobody will release (\<open>Blocked\<close>).
\<close>

datatype 'a outcome = Ret 'a | Fault | Blocked

primrec obind :: "'a outcome \<Rightarrow> ('a \<Rightarrow> 'b outcome) \<Rightarrow> 'b outcome" where
  "obind (Ret x) f = f x"
| "obind Fault f = Fault"
| "obind Blocked f = Blocked"

lemma obind_Ret_conv [outcome_simps]:
  "(obind m f = Ret y) = (\<exists>x. m = Ret x \<and> f x = Ret y)"
  by (cases m) auto

lemma obind_Blocked_conv [outcome_simps]:
  "(obind m f = Blocked) = (m = Blocked \<or> (\<exists>x. m = Ret x \<and> f x = Blocked))"
  by (cases m) auto

lemma obind_Fault_conv [outcome_simps]:
  "(obind m f = Fault) = (m = Fault \<or> (\<exists>x. m = Ret x \<and> f x = Fault))"
  by (cases m) auto

lemma obind_assoc: "obind (obind m f) g = obind m (\<lambda>x. obind (f x) g)"
  by (cases m) auto

section \<open>Buffers\<close>

text \<open>\<open>patch mem off data\<close>: \<open>memcpy(mem + off, data, length data)\<close>.\<close>

definition patch :: "'a list \<Rightarrow> nat \<Rightarrow> 'a list \<Rightarrow> 'a list" where
  "patch mem off data = take off mem @ data @ drop (off + length data) mem"

text \<open>\<open>window mem off len\<close>: the \<open>len\<close> bytes at \<open>off\<close>.\<close>

definition window :: "'a list \<Rightarrow> nat \<Rightarrow> nat \<Rightarrow> 'a list" where
  "window mem off len = take len (drop off mem)"

lemma length_patch [simp, buffer_simps]:
  "off + length data \<le> length mem \<Longrightarrow> length (patch mem off data) = length mem"
  by (simp add: patch_def)

lemma length_window [simp, buffer_simps]:
  "off + len \<le> length mem \<Longrightarrow> length (window mem off len) = len"
  by (simp add: window_def)

lemma patch_Nil [simp]: "patch mem off [] = mem"
  by (simp add: patch_def)

lemma window_patch_same [buffer_simps]:
  "off + length data \<le> length mem \<Longrightarrow> window (patch mem off data) off (length data) = data"
  by (simp add: window_def patch_def)

lemma nth_patch:
  "off + length data \<le> length mem \<Longrightarrow> i < length mem \<Longrightarrow>
   patch mem off data ! i =
     (if off \<le> i \<and> i < off + length data then data ! (i - off) else mem ! i)"
  by (auto simp: patch_def nth_append min_def)

lemma nth_window: "off + len \<le> length mem \<Longrightarrow> i < len \<Longrightarrow> window mem off len ! i = mem ! (off + i)"
  by (simp add: window_def)

lemma window_patch_disjoint [buffer_simps]:
  assumes "off + length data \<le> length mem" and "off' + len \<le> length mem"
    and "off' + len \<le> off \<or> off + length data \<le> off'"
  shows "window (patch mem off data) off' len = window mem off' len"
  by (rule nth_equalityI) (use assms in \<open>auto simp: nth_window nth_patch\<close>)

lemma patch_patch_adjacent [buffer_simps]:
  assumes "off + length a + length b \<le> length mem"
  shows "patch (patch mem off a) (off + length a) b = patch mem off (a @ b)"
  by (rule nth_equalityI) (use assms in \<open>auto simp: nth_patch nth_append\<close>)

lemma patch_whole [simp]: "length data = length mem \<Longrightarrow> patch mem 0 data = data"
  by (simp add: patch_def)

lemma window_whole [simp]: "window mem 0 (length mem) = mem"
  by (simp add: window_def)

section \<open>String functions of the C library\<close>

text \<open>
  \<open>strchr\<close> on the bytes from the pointer to the end of the allocation: \<open>None\<close> if the scan
  runs off the end (no NUL in the block), \<open>Some None\<close> for a NULL result, \<open>Some (Some i)\<close> for
  a hit at offset \<open>i\<close>. The terminator itself can be searched for.
\<close>

fun strchr :: "byte \<Rightarrow> byte list \<Rightarrow> nat option option" where
  "strchr c [] = None"
| "strchr c (x # xs) =
     (if x = c then Some (Some 0)
      else if x = NUL then Some None
      else map_option (map_option Suc) (strchr c xs))"

text \<open>A C string has no NUL inside.\<close>

definition is_cstring :: "byte list \<Rightarrow> bool" where
  "is_cstring s = (NUL \<notin> set s)"

lemma is_cstring_simps [simp]:
  "is_cstring []" "is_cstring (x # xs) = (x \<noteq> NUL \<and> is_cstring xs)"
  "is_cstring (xs @ ys) = (is_cstring xs \<and> is_cstring ys)"
  by (auto simp: is_cstring_def)

lemma strchr_hit:
  "is_cstring xs \<Longrightarrow> c \<notin> set xs \<Longrightarrow> strchr c (xs @ c # ys) = Some (Some (length xs))"
  by (induction xs) auto

lemma strchr_miss:
  "is_cstring xs \<Longrightarrow> c \<notin> set xs \<Longrightarrow> c \<noteq> NUL \<Longrightarrow> strchr c (xs @ NUL # ys) = Some None"
  by (induction xs) auto

lemma strchr_NUL: "is_cstring xs \<Longrightarrow> strchr NUL (xs @ NUL # ys) = Some (Some (length xs))"
  by (rule strchr_hit) (auto simp: is_cstring_def)

lemma strchr_Some_Some:
  "strchr c xs = Some (Some i) \<Longrightarrow>
   i < length xs \<and> xs ! i = c \<and> c \<notin> set (take i xs) \<and> NUL \<notin> set (take i xs)"
proof (induction c xs arbitrary: i rule: strchr.induct)
  case (2 c x xs)
  then show ?case
    by (cases i) (auto split: if_splits)
qed simp

text \<open>The string a \<open>char *\<close> denotes: the bytes up to the first NUL.\<close>

definition cstr :: "byte list \<Rightarrow> cstring" where
  "cstr xs = takeWhile (\<lambda>x. x \<noteq> NUL) xs"

lemma cstr_NUL [simp]: "is_cstring xs \<Longrightarrow> cstr (xs @ NUL # ys) = xs"
  by (induction xs) (auto simp: cstr_def)

lemma is_cstring_cstr [simp]: "is_cstring (cstr xs)"
  by (auto simp: is_cstring_def cstr_def dest: set_takeWhileD)

section \<open>Interleaved lists\<close>

fun evens :: "'a list \<Rightarrow> 'a list" where
  "evens (x # y # xs) = x # evens xs"
| "evens xs = xs"

fun odds :: "'a list \<Rightarrow> 'a list" where
  "odds (x # y # xs) = y # odds xs"
| "odds xs = []"

lemma nth_evens: "2 * i < length xs \<Longrightarrow> evens xs ! i = xs ! (2 * i)"
  by (induction xs arbitrary: i rule: evens.induct) (auto simp: nth_Cons split: nat.splits)

lemma nth_odds: "2 * i + 1 < length xs \<Longrightarrow> odds xs ! i = xs ! (2 * i + 1)"
  by (induction xs arbitrary: i rule: odds.induct) (auto simp: nth_Cons split: nat.splits)

lemma length_evens: "length (evens xs) = (length xs + 1) div 2"
  by (induction xs rule: evens.induct) auto

lemma length_odds: "length (odds xs) = length xs div 2"
  by (induction xs rule: odds.induct) auto

end
