(* ===== verification/CrcCore.thy ===== *)
theory CrcCore
  imports Prelude
begin

text \<open>
  The theory of reflected CRCs shared by the CRC-32 of the NVRAM blocks and the CRC-16 of
  the device key: the shift register that the comment of \<open>make_crc_table\<close>
  (lib/libnvram/crc32.c) describes, one bit at a time, for any register width and polynomial.
  Everything a client needs (a table is right, what a CRC detects) is proved once in the
  locale \<open>reflected_crc\<close>.
\<close>

section \<open>The shift register\<close>

definition crc_bit :: "'a::len word \<Rightarrow> 'a word \<Rightarrow> 'a word" where
  "crc_bit poly c = (if bit c 0 then poly XOR drop_bit 1 c else drop_bit 1 c)"

definition crc_byte :: "'a::len word \<Rightarrow> 'a word \<Rightarrow> 'a word" where
  "crc_byte poly c = (crc_bit poly ^^ 8) c"

fun crc_spec :: "'a::len word \<Rightarrow> 'a word \<Rightarrow> byte list \<Rightarrow> 'a word" where
  "crc_spec poly c [] = c"
| "crc_spec poly c (b # bs) = crc_spec poly (crc_byte poly (c XOR ucast b)) bs"

text \<open>The bytes of a message as one little-endian word.\<close>

fun le_word :: "byte list \<Rightarrow> 'a::len word" where
  "le_word [] = 0"
| "le_word (b # bs) = ucast b XOR push_bit 8 (le_word bs)"

lemma xor_left_cancel: "(a XOR b = a XOR c) = (b = c)" for a b c :: "'a::len word"
  by (metis xor.left_neutral xor_self_eq xor.assoc)

lemma half_double: "2 * m < 2 ^ LENGTH('a) \<Longrightarrow> drop_bit 1 (of_nat (2 * m)) = (of_nat m :: 'a::len word)"
  by (rule word_unat_eq_iff [THEN iffD2], subst unat_drop_bit_eq)
    (simp add: drop_bit_eq_div unat_of_nat del: of_nat_mult of_nat_Suc)

lemma crc_bit_xor: "crc_bit poly (a XOR b) = crc_bit poly a XOR crc_bit poly b"
  by (rule bit_word_eqI) (auto simp: crc_bit_def bit_simps)

lemma crc_pow_xor: "(crc_bit poly ^^ n) (a XOR b) = (crc_bit poly ^^ n) a XOR (crc_bit poly ^^ n) b"
  by (induction n) (simp_all add: crc_bit_xor)

lemma crc_pow_0 [simp]: "(crc_bit poly ^^ n) 0 = 0"
  by (induction n) (simp_all add: crc_bit_def)

lemma crc_byte_xor: "crc_byte poly (a XOR b) = crc_byte poly a XOR crc_byte poly b"
  by (simp add: crc_byte_def crc_pow_xor)

lemma crc_pow_low_zero:
  "(\<And>i. i < n \<Longrightarrow> \<not> bit c i) \<Longrightarrow> (crc_bit poly ^^ n) c = drop_bit n c"
proof (induction n)
  case (Suc n)
  then have "(crc_bit poly ^^ n) c = drop_bit n c" by simp
  moreover have "\<not> bit (drop_bit n c) 0" using Suc.prems [of n] by (simp add: bit_drop_bit_eq)
  ultimately show ?case by (simp add: crc_bit_def [of poly "drop_bit n c"])
qed simp

lemma crc_byte_split: "crc_byte poly c = crc_byte poly (c AND 0xFF) XOR drop_bit 8 c"
proof -
  have mask: "(0xFF :: 'a word) = mask 8" by (simp add: mask_eq_exp_minus_1)
  have split: "c = (c AND 0xFF) XOR (c AND NOT (mask 8))"
    unfolding mask by (rule bit_word_eqI) (auto simp: bit_simps)
  have "(crc_bit poly ^^ 8) (c AND NOT (mask 8)) = drop_bit 8 (c AND NOT (mask 8))"
    by (rule crc_pow_low_zero) (simp add: bit_simps)
  also have "\<dots> = drop_bit 8 c"
    by (rule bit_word_eqI) (auto simp: bit_simps dest: bit_imp_le_length)
  finally show ?thesis by (subst split) (simp add: crc_byte_def crc_pow_xor)
qed

lemma crc_spec_append: "crc_spec poly c (xs @ ys) = crc_spec poly (crc_spec poly c xs) ys"
  by (induction xs arbitrary: c) auto

lemma bit_le_word_high: "8 * length xs \<le> i \<Longrightarrow> \<not> bit (le_word xs :: 'a::len word) i"
proof (induction xs arbitrary: i)
  case (Cons b xs)
  then have "\<not> bit (le_word xs :: 'a word) (i - 8)" by simp
  with Cons.prems show ?case by (auto simp: bit_simps dest: bit_imp_le_length)
qed simp

lemma le_word_inj:
  assumes "length u = length v" and "8 * length u \<le> LENGTH('a::len)"
    and "(le_word u :: 'a word) = le_word v"
  shows "u = v"
  using assms
proof (induction u arbitrary: v)
  case (Cons b u)
  then obtain b' v' where v: "v = b' # v'" by (cases v) auto
  from Cons.prems have len: "8 * length u + 8 \<le> LENGTH('a)" by simp
  have bits: "bit (ucast b XOR push_bit 8 (le_word u) :: 'a word) i
      = bit (ucast b' XOR push_bit 8 (le_word v') :: 'a word) i" for i
    using Cons.prems(3) by (simp add: v)
  have "b = b'"
  proof (rule bit_word_eqI)
    fix n assume "n < LENGTH(8)"
    then show "bit b n = bit b' n" using bits [of n] len by (simp add: bit_simps)
  qed
  moreover have "(le_word u :: 'a word) = le_word v'"
  proof (rule bit_word_eqI)
    fix n assume "n < LENGTH('a)"
    show "bit (le_word u :: 'a word) n = bit (le_word v' :: 'a word) n"
    proof (cases "n + 8 < LENGTH('a)")
      case True
      then show ?thesis using bits [of "n + 8"] \<open>b = b'\<close> by (simp add: bit_simps) blast
    next
      case False
      then have "8 * length u \<le> n" using len by linarith
      moreover have "8 * length v' \<le> n" using calculation Cons.prems(1) by (simp add: v)
      ultimately show ?thesis by (simp add: bit_le_word_high)
    qed
  qed
  ultimately show ?case using Cons.IH [of v'] Cons.prems v by simp
qed simp

section \<open>What a polynomial with its top coefficient gives\<close>

locale reflected_crc =
  fixes poly :: "'a::len word"
  assumes poly_top: "bit poly (LENGTH('a) - 1)"
    and len8: "8 < LENGTH('a)"
begin

lemma crc_bit_top: "bit (crc_bit poly c) (LENGTH('a) - 1) = bit c 0"
  using poly_top by (simp add: crc_bit_def bit_simps)

lemma crc_bit_inj: "crc_bit poly a = crc_bit poly b \<Longrightarrow> a = b"
proof -
  assume eq: "crc_bit poly a = crc_bit poly b"
  then have low: "bit a 0 = bit b 0" using crc_bit_top by metis
  with eq have dr: "drop_bit 1 a = drop_bit 1 b"
    by (auto simp: crc_bit_def xor_left_cancel split: if_splits)
  show "a = b"
  proof (rule bit_word_eqI)
    fix n assume "n < LENGTH('a)"
    show "bit a n = bit b n"
    proof (cases n)
      case (Suc m)
      then show ?thesis using dr by (metis bit_drop_bit_eq comp_apply plus_1_eq_Suc)
    qed (simp add: low)
  qed
qed

lemma crc_pow_inj: "(crc_bit poly ^^ n) a = (crc_bit poly ^^ n) b \<Longrightarrow> a = b"
  by (induction n) (auto dest: crc_bit_inj)

lemma crc_byte_inj: "crc_byte poly a = crc_byte poly b \<Longrightarrow> a = b"
  by (simp add: crc_byte_def crc_pow_inj)

lemma crc_spec_inj: "crc_spec poly a xs = crc_spec poly b xs \<Longrightarrow> a = b"
proof (induction xs arbitrary: a b)
  case (Cons x xs)
  then have "crc_byte poly (a XOR ucast x) = crc_byte poly (b XOR ucast x)" by simp
  then have "(a XOR ucast x) XOR ucast x = (b XOR ucast x) XOR ucast x"
    using crc_byte_inj by metis
  then show ?case by (simp add: xor.assoc)
qed simp

text \<open>
  A table of 256 entries is the table of \<open>crc_byte\<close> if halving an index undoes one shift
  and the odd entries differ from the even ones by the entry of 1.
\<close>

lemma table_entry:
  assumes len: "length tab = 256" and zero: "tab ! 0 = 0"
    and ev: "map (crc_bit poly) (evens tab) = take 128 tab"
    and od: "odds tab = map (\<lambda>x. x XOR crc_byte poly 1) (evens tab)"
    and n: "n < 256"
  shows "tab ! n = crc_byte poly (of_nat n)"
  using n
proof (induction n rule: less_induct)
  case (less n)
  have evn: "tab ! (2 * m) = crc_byte poly (of_nat (2 * m))" if m: "2 * m < 256" "2 * m \<le> n" for m
  proof (cases "m = 0")
    case True
    then show ?thesis using zero by (simp add: crc_byte_def)
  next
    case False
    have "crc_bit poly (tab ! (2 * m)) = (map (crc_bit poly) (evens tab)) ! m"
      using m len by (simp add: nth_evens length_evens)
    also have "\<dots> = tab ! m" using m ev by simp
    also have "\<dots> = crc_byte poly (of_nat m)" using less.IH [of m] m False by simp
    also have "(of_nat m :: 'a word) = crc_bit poly (of_nat (2 * m))"
    proof -
      have "(2::nat) ^ 9 \<le> 2 ^ LENGTH('a)" using len8 by (intro power_increasing) auto
      then have "2 * m < 2 ^ LENGTH('a)" using m by simp
      then show ?thesis using half_double [of m, where ?'a = 'a]
        by (simp add: crc_bit_def bit_0)
    qed
    finally have "crc_bit poly (tab ! (2 * m)) = crc_bit poly (crc_byte poly (of_nat (2 * m)))"
      by (simp add: crc_byte_def funpow_swap1)
    then show ?thesis by (rule crc_bit_inj)
  qed
  show ?case
  proof (cases "even n")
    case True
    then show ?thesis using evn [of "n div 2"] less.prems by simp
  next
    case False
    then obtain m where m: "n = 2 * m + 1" by (auto elim: oddE)
    have "tab ! n = odds tab ! m" using m less.prems len by (simp add: nth_odds)
    also have "\<dots> = tab ! (2 * m) XOR crc_byte poly 1"
      using m less.prems len od by (simp add: nth_evens length_evens)
    also have "\<dots> = crc_byte poly (of_nat (2 * m) XOR 1)"
      using evn [of m] m less.prems by (simp add: crc_byte_xor)
    also have "(of_nat (2 * m) XOR 1 :: 'a word) = of_nat n"
      by (simp add: m xor_one_eq)
    finally show ?thesis .
  qed
qed

text \<open>The register after a message that fits in it depends on the message as on one word.\<close>

lemma crc_spec_word:
  "8 * length u \<le> LENGTH('a) \<Longrightarrow>
   crc_spec poly c u = (crc_bit poly ^^ (8 * length u)) (c XOR le_word u)"
proof (induction u arbitrary: c)
  case (Cons b u)
  have "(crc_bit poly ^^ 8) (push_bit 8 (le_word u)) = drop_bit 8 (push_bit 8 (le_word u :: 'a word))"
    by (rule crc_pow_low_zero) (simp add: bit_simps)
  also have "\<dots> = le_word u"
  proof (rule bit_word_eqI)
    fix n assume "n < LENGTH('a)"
    show "bit (drop_bit 8 (push_bit 8 (le_word u :: 'a word))) n = bit (le_word u :: 'a word) n"
      using Cons.prems bit_le_word_high [of u n]
      by (cases "n + 8 < LENGTH('a)") (auto simp: bit_simps)
  qed
  finally have undo: "(crc_bit poly ^^ 8) (push_bit 8 (le_word u)) = (le_word u :: 'a word)" .
  have "crc_spec poly c (b # u) =
      (crc_bit poly ^^ (8 * length u)) ((crc_bit poly ^^ 8) (c XOR ucast b) XOR le_word u)"
    using Cons by (simp add: crc_byte_def)
  also have "(crc_bit poly ^^ 8) (c XOR ucast b) XOR le_word u
      = (crc_bit poly ^^ 8) (c XOR le_word (b # u))"
    by (simp only: le_word.simps crc_pow_xor undo xor.assoc)
  also have "(crc_bit poly ^^ (8 * length u)) ((crc_bit poly ^^ 8) (c XOR le_word (b # u)))
      = (crc_bit poly ^^ (8 * length u + 8)) (c XOR le_word (b # u))"
    by (simp only: funpow_add comp_apply)
  finally have "crc_spec poly c (b # u) = (crc_bit poly ^^ (8 * length u + 8)) (c XOR le_word (b # u))" .
  moreover have "8 * length (b # u) = 8 * length u + 8" by simp
  ultimately show ?case by (simp only:)
qed simp

text \<open>Two messages of the same length that differ only in a window as wide as the register
  have different CRCs.\<close>

lemma burst_detected:
  assumes "length u = length v" and "8 * length u \<le> LENGTH('a)" and "u \<noteq> v"
  shows "crc_spec poly c (pre @ u @ post) \<noteq> crc_spec poly c (pre @ v @ post)"
proof
  let ?c = "crc_spec poly c pre"
  assume "crc_spec poly c (pre @ u @ post) = crc_spec poly c (pre @ v @ post)"
  then have "crc_spec poly ?c u = crc_spec poly ?c v"
    by (auto simp: crc_spec_append dest: crc_spec_inj)
  then have "?c XOR le_word u = ?c XOR (le_word v :: 'a word)"
    using assms(1,2) crc_spec_word by (metis crc_pow_inj)
  then have "?c XOR (?c XOR le_word u) = ?c XOR (?c XOR (le_word v :: 'a word))" by simp
  then have "(le_word u :: 'a word) = le_word v" by (simp flip: xor.assoc)
  with assms show False using le_word_inj by blast
qed

end

end
