(* ===== verification/Crc32.thy ===== *)
theory Crc32
  imports CrcCore
begin

text \<open>
  CRC-32 as the two halves of the NVRAM stack compute it: \<open>crc32\<close> of the user-space library
  (lib/libnvram/crc32.c) and \<open>nv_crc32\<close> of the kernel module (arch/mips/rt2880/nvram.c),
  both with a table in the source and an inner loop unrolled eight times by macros.
  Main facts: both tables are the one \<open>make_crc_table\<close> generates, both functions compute the
  CRC of the shift register of \<open>CrcCore\<close>, and any change confined to four consecutive bytes
  is detected.
\<close>

type_synonym u32 = "32 word"

section \<open>lib/libnvram/crc32.c\<close>

text \<open>\<open>make_crc_table\<close>: the polynomial from its exponents, then eight shifts per entry.\<close>

definition crc_poly_terms :: "nat list" where
  "crc_poly_terms = [0, 1, 2, 4, 5, 7, 8, 10, 11, 12, 16, 22, 23, 26]"

definition make_crc_poly :: u32 where
  "make_crc_poly = foldl (\<lambda>poly p. poly OR push_bit (31 - p) 1) 0 crc_poly_terms"

definition make_crc_table :: "u32 list" where
  "make_crc_table =
     map (\<lambda>n. ((\<lambda>c. if c AND 1 \<noteq> 0 then make_crc_poly XOR drop_bit 1 c else drop_bit 1 c) ^^ 8)
                (of_nat n)) [0..<256]"

definition crc_table :: "u32 list" where
  "crc_table =
    [0x00000000, 0x77073096, 0xee0e612c, 0x990951ba, 0x076dc419, 0x706af48f,
     0xe963a535, 0x9e6495a3, 0x0edb8832, 0x79dcb8a4, 0xe0d5e91e, 0x97d2d988,
     0x09b64c2b, 0x7eb17cbd, 0xe7b82d07, 0x90bf1d91, 0x1db71064, 0x6ab020f2,
     0xf3b97148, 0x84be41de, 0x1adad47d, 0x6ddde4eb, 0xf4d4b551, 0x83d385c7,
     0x136c9856, 0x646ba8c0, 0xfd62f97a, 0x8a65c9ec, 0x14015c4f, 0x63066cd9,
     0xfa0f3d63, 0x8d080df5, 0x3b6e20c8, 0x4c69105e, 0xd56041e4, 0xa2677172,
     0x3c03e4d1, 0x4b04d447, 0xd20d85fd, 0xa50ab56b, 0x35b5a8fa, 0x42b2986c,
     0xdbbbc9d6, 0xacbcf940, 0x32d86ce3, 0x45df5c75, 0xdcd60dcf, 0xabd13d59,
     0x26d930ac, 0x51de003a, 0xc8d75180, 0xbfd06116, 0x21b4f4b5, 0x56b3c423,
     0xcfba9599, 0xb8bda50f, 0x2802b89e, 0x5f058808, 0xc60cd9b2, 0xb10be924,
     0x2f6f7c87, 0x58684c11, 0xc1611dab, 0xb6662d3d, 0x76dc4190, 0x01db7106,
     0x98d220bc, 0xefd5102a, 0x71b18589, 0x06b6b51f, 0x9fbfe4a5, 0xe8b8d433,
     0x7807c9a2, 0x0f00f934, 0x9609a88e, 0xe10e9818, 0x7f6a0dbb, 0x086d3d2d,
     0x91646c97, 0xe6635c01, 0x6b6b51f4, 0x1c6c6162, 0x856530d8, 0xf262004e,
     0x6c0695ed, 0x1b01a57b, 0x8208f4c1, 0xf50fc457, 0x65b0d9c6, 0x12b7e950,
     0x8bbeb8ea, 0xfcb9887c, 0x62dd1ddf, 0x15da2d49, 0x8cd37cf3, 0xfbd44c65,
     0x4db26158, 0x3ab551ce, 0xa3bc0074, 0xd4bb30e2, 0x4adfa541, 0x3dd895d7,
     0xa4d1c46d, 0xd3d6f4fb, 0x4369e96a, 0x346ed9fc, 0xad678846, 0xda60b8d0,
     0x44042d73, 0x33031de5, 0xaa0a4c5f, 0xdd0d7cc9, 0x5005713c, 0x270241aa,
     0xbe0b1010, 0xc90c2086, 0x5768b525, 0x206f85b3, 0xb966d409, 0xce61e49f,
     0x5edef90e, 0x29d9c998, 0xb0d09822, 0xc7d7a8b4, 0x59b33d17, 0x2eb40d81,
     0xb7bd5c3b, 0xc0ba6cad, 0xedb88320, 0x9abfb3b6, 0x03b6e20c, 0x74b1d29a,
     0xead54739, 0x9dd277af, 0x04db2615, 0x73dc1683, 0xe3630b12, 0x94643b84,
     0x0d6d6a3e, 0x7a6a5aa8, 0xe40ecf0b, 0x9309ff9d, 0x0a00ae27, 0x7d079eb1,
     0xf00f9344, 0x8708a3d2, 0x1e01f268, 0x6906c2fe, 0xf762575d, 0x806567cb,
     0x196c3671, 0x6e6b06e7, 0xfed41b76, 0x89d32be0, 0x10da7a5a, 0x67dd4acc,
     0xf9b9df6f, 0x8ebeeff9, 0x17b7be43, 0x60b08ed5, 0xd6d6a3e8, 0xa1d1937e,
     0x38d8c2c4, 0x4fdff252, 0xd1bb67f1, 0xa6bc5767, 0x3fb506dd, 0x48b2364b,
     0xd80d2bda, 0xaf0a1b4c, 0x36034af6, 0x41047a60, 0xdf60efc3, 0xa867df55,
     0x316e8eef, 0x4669be79, 0xcb61b38c, 0xbc66831a, 0x256fd2a0, 0x5268e236,
     0xcc0c7795, 0xbb0b4703, 0x220216b9, 0x5505262f, 0xc5ba3bbe, 0xb2bd0b28,
     0x2bb45a92, 0x5cb36a04, 0xc2d7ffa7, 0xb5d0cf31, 0x2cd99e8b, 0x5bdeae1d,
     0x9b64c2b0, 0xec63f226, 0x756aa39c, 0x026d930a, 0x9c0906a9, 0xeb0e363f,
     0x72076785, 0x05005713, 0x95bf4a82, 0xe2b87a14, 0x7bb12bae, 0x0cb61b38,
     0x92d28e9b, 0xe5d5be0d, 0x7cdcefb7, 0x0bdbdf21, 0x86d3d2d4, 0xf1d4e242,
     0x68ddb3f8, 0x1fda836e, 0x81be16cd, 0xf6b9265b, 0x6fb077e1, 0x18b74777,
     0x88085ae6, 0xff0f6a70, 0x66063bca, 0x11010b5c, 0x8f659eff, 0xf862ae69,
     0x616bffd3, 0x166ccf45, 0xa00ae278, 0xd70dd2ee, 0x4e048354, 0x3903b3c2,
     0xa7672661, 0xd06016f7, 0x4969474d, 0x3e6e77db, 0xaed16a4a, 0xd9d65adc,
     0x40df0b66, 0x37d83bf0, 0xa9bcae53, 0xdebb9ec5, 0x47b2cf7f, 0x30b5ffe9,
     0xbdbdf21c, 0xcabac28a, 0x53b39330, 0x24b4a3a6, 0xbad03605, 0xcdd70693,
     0x54de5729, 0x23d967bf, 0xb3667a2e, 0xc4614ab8, 0x5d681b02, 0x2a6f2b94,
     0xb40bbe37, 0xc30c8ea1, 0x5a05df1b, 0x2d02ef8d]"

text \<open>The macros \<open>DO1\<close>, \<open>DO2\<close>, \<open>DO4\<close>, \<open>DO8\<close> on the register and the advancing buffer pointer,
  for a given table; reading past the end of the buffer faults.\<close>

fun DO1 :: "u32 list \<Rightarrow> u32 \<times> byte list \<Rightarrow> (u32 \<times> byte list) outcome" where
  "DO1 tab (crc, []) = Fault"
| "DO1 tab (crc, b # buf) = Ret (tab ! unat ((crc XOR ucast b) AND 0xFF) XOR drop_bit 8 crc, buf)"

definition DO2 :: "u32 list \<Rightarrow> u32 \<times> byte list \<Rightarrow> (u32 \<times> byte list) outcome" where
  "DO2 tab st = obind (DO1 tab st) (DO1 tab)"

definition DO4 :: "u32 list \<Rightarrow> u32 \<times> byte list \<Rightarrow> (u32 \<times> byte list) outcome" where
  "DO4 tab st = obind (DO2 tab st) (DO2 tab)"

definition DO8 :: "u32 list \<Rightarrow> u32 \<times> byte list \<Rightarrow> (u32 \<times> byte list) outcome" where
  "DO8 tab st = obind (DO4 tab st) (DO4 tab)"

text \<open>\<open>while (len >= 8) { DO8(buf); len -= 8; }\<close>\<close>

fun crc_while8 :: "u32 list \<Rightarrow> u32 \<times> byte list \<Rightarrow> nat \<Rightarrow> ((u32 \<times> byte list) \<times> nat) outcome" where
  "crc_while8 tab st len =
     (if 8 \<le> len then obind (DO8 tab st) (\<lambda>st'. crc_while8 tab st' (len - 8))
      else Ret (st, len))"

declare crc_while8.simps [simp del]

text \<open>\<open>if (len) do { DO1(buf); } while (--len);\<close>\<close>

fun crc_tail :: "u32 list \<Rightarrow> u32 \<times> byte list \<Rightarrow> nat \<Rightarrow> (u32 \<times> byte list) outcome" where
  "crc_tail tab st 0 = Ret st"
| "crc_tail tab st (Suc len) = obind (DO1 tab st) (\<lambda>st'. crc_tail tab st' len)"

definition crc32 :: "u32 \<Rightarrow> byte list \<Rightarrow> nat \<Rightarrow> u32 outcome" where
  "crc32 crc buf len =
     obind (crc_while8 crc_table (crc XOR 0xffffffff, buf) len) (\<lambda>(st, len').
     obind (crc_tail crc_table st len') (\<lambda>(crc', _).
     Ret (crc' XOR 0xffffffff)))"

section \<open>arch/mips/rt2880/nvram.c\<close>

definition nv_crc_table :: "u32 list" where
  "nv_crc_table =
    [0x00000000, 0x77073096, 0xee0e612c, 0x990951ba, 0x076dc419, 0x706af48f,
     0xe963a535, 0x9e6495a3, 0x0edb8832, 0x79dcb8a4, 0xe0d5e91e, 0x97d2d988,
     0x09b64c2b, 0x7eb17cbd, 0xe7b82d07, 0x90bf1d91, 0x1db71064, 0x6ab020f2,
     0xf3b97148, 0x84be41de, 0x1adad47d, 0x6ddde4eb, 0xf4d4b551, 0x83d385c7,
     0x136c9856, 0x646ba8c0, 0xfd62f97a, 0x8a65c9ec, 0x14015c4f, 0x63066cd9,
     0xfa0f3d63, 0x8d080df5, 0x3b6e20c8, 0x4c69105e, 0xd56041e4, 0xa2677172,
     0x3c03e4d1, 0x4b04d447, 0xd20d85fd, 0xa50ab56b, 0x35b5a8fa, 0x42b2986c,
     0xdbbbc9d6, 0xacbcf940, 0x32d86ce3, 0x45df5c75, 0xdcd60dcf, 0xabd13d59,
     0x26d930ac, 0x51de003a, 0xc8d75180, 0xbfd06116, 0x21b4f4b5, 0x56b3c423,
     0xcfba9599, 0xb8bda50f, 0x2802b89e, 0x5f058808, 0xc60cd9b2, 0xb10be924,
     0x2f6f7c87, 0x58684c11, 0xc1611dab, 0xb6662d3d, 0x76dc4190, 0x01db7106,
     0x98d220bc, 0xefd5102a, 0x71b18589, 0x06b6b51f, 0x9fbfe4a5, 0xe8b8d433,
     0x7807c9a2, 0x0f00f934, 0x9609a88e, 0xe10e9818, 0x7f6a0dbb, 0x086d3d2d,
     0x91646c97, 0xe6635c01, 0x6b6b51f4, 0x1c6c6162, 0x856530d8, 0xf262004e,
     0x6c0695ed, 0x1b01a57b, 0x8208f4c1, 0xf50fc457, 0x65b0d9c6, 0x12b7e950,
     0x8bbeb8ea, 0xfcb9887c, 0x62dd1ddf, 0x15da2d49, 0x8cd37cf3, 0xfbd44c65,
     0x4db26158, 0x3ab551ce, 0xa3bc0074, 0xd4bb30e2, 0x4adfa541, 0x3dd895d7,
     0xa4d1c46d, 0xd3d6f4fb, 0x4369e96a, 0x346ed9fc, 0xad678846, 0xda60b8d0,
     0x44042d73, 0x33031de5, 0xaa0a4c5f, 0xdd0d7cc9, 0x5005713c, 0x270241aa,
     0xbe0b1010, 0xc90c2086, 0x5768b525, 0x206f85b3, 0xb966d409, 0xce61e49f,
     0x5edef90e, 0x29d9c998, 0xb0d09822, 0xc7d7a8b4, 0x59b33d17, 0x2eb40d81,
     0xb7bd5c3b, 0xc0ba6cad, 0xedb88320, 0x9abfb3b6, 0x03b6e20c, 0x74b1d29a,
     0xead54739, 0x9dd277af, 0x04db2615, 0x73dc1683, 0xe3630b12, 0x94643b84,
     0x0d6d6a3e, 0x7a6a5aa8, 0xe40ecf0b, 0x9309ff9d, 0x0a00ae27, 0x7d079eb1,
     0xf00f9344, 0x8708a3d2, 0x1e01f268, 0x6906c2fe, 0xf762575d, 0x806567cb,
     0x196c3671, 0x6e6b06e7, 0xfed41b76, 0x89d32be0, 0x10da7a5a, 0x67dd4acc,
     0xf9b9df6f, 0x8ebeeff9, 0x17b7be43, 0x60b08ed5, 0xd6d6a3e8, 0xa1d1937e,
     0x38d8c2c4, 0x4fdff252, 0xd1bb67f1, 0xa6bc5767, 0x3fb506dd, 0x48b2364b,
     0xd80d2bda, 0xaf0a1b4c, 0x36034af6, 0x41047a60, 0xdf60efc3, 0xa867df55,
     0x316e8eef, 0x4669be79, 0xcb61b38c, 0xbc66831a, 0x256fd2a0, 0x5268e236,
     0xcc0c7795, 0xbb0b4703, 0x220216b9, 0x5505262f, 0xc5ba3bbe, 0xb2bd0b28,
     0x2bb45a92, 0x5cb36a04, 0xc2d7ffa7, 0xb5d0cf31, 0x2cd99e8b, 0x5bdeae1d,
     0x9b64c2b0, 0xec63f226, 0x756aa39c, 0x026d930a, 0x9c0906a9, 0xeb0e363f,
     0x72076785, 0x05005713, 0x95bf4a82, 0xe2b87a14, 0x7bb12bae, 0x0cb61b38,
     0x92d28e9b, 0xe5d5be0d, 0x7cdcefb7, 0x0bdbdf21, 0x86d3d2d4, 0xf1d4e242,
     0x68ddb3f8, 0x1fda836e, 0x81be16cd, 0xf6b9265b, 0x6fb077e1, 0x18b74777,
     0x88085ae6, 0xff0f6a70, 0x66063bca, 0x11010b5c, 0x8f659eff, 0xf862ae69,
     0x616bffd3, 0x166ccf45, 0xa00ae278, 0xd70dd2ee, 0x4e048354, 0x3903b3c2,
     0xa7672661, 0xd06016f7, 0x4969474d, 0x3e6e77db, 0xaed16a4a, 0xd9d65adc,
     0x40df0b66, 0x37d83bf0, 0xa9bcae53, 0xdebb9ec5, 0x47b2cf7f, 0x30b5ffe9,
     0xbdbdf21c, 0xcabac28a, 0x53b39330, 0x24b4a3a6, 0xbad03605, 0xcdd70693,
     0x54de5729, 0x23d967bf, 0xb3667a2e, 0xc4614ab8, 0x5d681b02, 0x2a6f2b94,
     0xb40bbe37, 0xc30c8ea1, 0x5a05df1b, 0x2d02ef8d]"

text \<open>\<open>nv_crc32\<close>: the same loops over the kernel's own table, and 0 for a NULL buffer.\<close>

definition nv_crc32 :: "u32 \<Rightarrow> byte list option \<Rightarrow> nat \<Rightarrow> u32 outcome" where
  "nv_crc32 crc bufp len =
     (case bufp of
        None \<Rightarrow> Ret 0
      | Some buf \<Rightarrow>
          obind (crc_while8 nv_crc_table (crc XOR 0xffffffff, buf) len) (\<lambda>(st, len').
          obind (crc_tail nv_crc_table st len') (\<lambda>(crc', _).
          Ret (crc' XOR 0xffffffff))))"

section \<open>The tables\<close>

abbreviation poly32 :: u32 where "poly32 \<equiv> 0xedb88320"

interpretation c32: reflected_crc poly32
  by unfold_locales simp_all

lemma make_crc_poly_eq: "make_crc_poly = poly32"
  by (simp add: make_crc_poly_def crc_poly_terms_def push_bit_eq_mult)

lemma crc_byte_one: "crc_byte poly32 1 = 0x77073096"
  by code_simp

lemma length_crc_table [simp]: "length crc_table = 256"
  by (simp add: crc_table_def)

lemma crc_table_halving: "map (crc_bit poly32) (evens crc_table) = take 128 crc_table"
  by (simp add: crc_table_def crc_bit_def)

lemma crc_table_odds: "odds crc_table = map (\<lambda>x. x XOR 0x77073096) (evens crc_table)"
  by (simp add: crc_table_def)

lemma crc_table_nth: "n < 256 \<Longrightarrow> crc_table ! n = crc_byte poly32 (of_nat n)"
  by (rule c32.table_entry)
    (simp_all add: crc_table_halving crc_table_odds crc_byte_one, simp add: crc_table_def)

lemma nv_crc_table_eq: "nv_crc_table = crc_table"
  by (simp only: nv_crc_table_def crc_table_def)

lemma make_crc_table_eq: "make_crc_table = crc_table"
proof (rule nth_equalityI)
  fix n assume "n < length make_crc_table"
  then have n: "n < 256" by (simp add: make_crc_table_def)
  have "(\<lambda>c. if c AND 1 \<noteq> 0 then make_crc_poly XOR drop_bit 1 c else drop_bit 1 c) = crc_bit poly32"
    by (rule ext) (simp add: crc_bit_def make_crc_poly_eq and_one_eq bit_0 odd_iff_mod_2_eq_one)
  then show "make_crc_table ! n = crc_table ! n"
    using n by (simp add: make_crc_table_def crc_table_nth crc_byte_def)
qed (simp add: make_crc_table_def)

section \<open>The loops compute the CRC\<close>

definition crc_reg :: "u32 \<times> byte list \<Rightarrow> nat \<Rightarrow> u32 \<times> byte list" where
  "crc_reg st n = (crc_spec poly32 (fst st) (take n (snd st)), drop n (snd st))"

lemma DO1_crc_table:
  "DO1 crc_table (crc, b # buf) = Ret (crc_byte poly32 (crc XOR ucast b), buf)"
proof -
  let ?x = "crc XOR ucast b"
  have "unat (?x AND 0xFF) \<le> unat (0xFF :: u32)"
    by (rule word_le_nat_alt [THEN iffD1, OF word_and_le1])
  then have "crc_table ! unat (?x AND 0xFF) = crc_byte poly32 (?x AND 0xFF)"
    by (simp add: crc_table_nth)
  moreover have "drop_bit 8 crc = drop_bit 8 ?x"
    by (rule bit_word_eqI) (auto simp: bit_simps dest: bit_imp_le_length)
  ultimately show ?thesis using crc_byte_split [of poly32 ?x] by simp
qed

declare DO1.simps(2) [simp del]

lemma DO1_reg: "0 < length (snd st) \<Longrightarrow> DO1 crc_table st = Ret (crc_reg st (Suc 0))"
  by (cases st; cases "snd st") (auto simp: crc_reg_def DO1_crc_table)

lemma crc_reg_add: "crc_reg (crc_reg st m) n = crc_reg st (m + n)"
  by (simp add: crc_reg_def take_add crc_spec_append add.commute [of n m])

lemma length_crc_reg [simp]: "length (snd (crc_reg st n)) = length (snd st) - n"
  by (simp add: crc_reg_def)

lemma DO2_reg: "2 \<le> length (snd st) \<Longrightarrow> DO2 crc_table st = Ret (crc_reg st 2)"
proof -
  assume len: "2 \<le> length (snd st)"
  then have "DO1 crc_table st = Ret (crc_reg st (Suc 0))"
    and "DO1 crc_table (crc_reg st (Suc 0)) = Ret (crc_reg st 2)"
    by (simp_all add: DO1_reg crc_reg_add numeral_2_eq_2 flip: length_greater_0_conv)
  then show ?thesis by (simp add: DO2_def)
qed

lemma DO4_reg: "4 \<le> length (snd st) \<Longrightarrow> DO4 crc_table st = Ret (crc_reg st 4)"
  by (simp add: DO4_def DO2_reg crc_reg_add)

lemma DO8_reg: "8 \<le> length (snd st) \<Longrightarrow> DO8 crc_table st = Ret (crc_reg st 8)"
  by (simp add: DO8_def DO4_reg crc_reg_add)

lemma crc_while8_reg:
  "len \<le> length (snd st) \<Longrightarrow>
   crc_while8 crc_table st len = Ret (crc_reg st (len - len mod 8), len mod 8)"
proof (induction len arbitrary: st rule: less_induct)
  case (less len)
  show ?case
  proof (cases "8 \<le> len")
    case True
    then have "len mod 8 \<le> len - 8" by (metis le_mod_geq mod_less_eq_dividend)
    with True have arith: "8 + (len - 8 - len mod 8) = len - len mod 8" "(len - 8) mod 8 = len mod 8"
      by (simp_all add: le_mod_geq)
    have "crc_while8 crc_table (crc_reg st 8) (len - 8)
        = Ret (crc_reg (crc_reg st 8) (len - 8 - (len - 8) mod 8), (len - 8) mod 8)"
      using less.IH [of "len - 8" "crc_reg st 8"] less.prems True by simp
    then have "crc_while8 crc_table (crc_reg st 8) (len - 8) = Ret (crc_reg st (len - len mod 8), len mod 8)"
      by (simp only: crc_reg_add arith)
    then show ?thesis
      using True less.prems by (subst crc_while8.simps) (simp add: DO8_reg)
  next
    case False
    then show ?thesis by (subst crc_while8.simps) (simp add: crc_reg_def)
  qed
qed

lemma crc_tail_reg: "len \<le> length (snd st) \<Longrightarrow> crc_tail crc_table st len = Ret (crc_reg st len)"
proof (induction len arbitrary: st)
  case (Suc len)
  then have "0 < length (snd st)" by linarith
  then show ?case using Suc by (simp add: DO1_reg crc_reg_add)
qed (simp add: crc_reg_def)

definition crc32_spec :: "byte list \<Rightarrow> u32" where
  "crc32_spec msg = crc_spec poly32 0xffffffff msg XOR 0xffffffff"

lemma crc32_general:
  "len \<le> length buf \<Longrightarrow>
   crc32 crc buf len = Ret (crc_spec poly32 (crc XOR 0xffffffff) (take len buf) XOR 0xffffffff)"
  by (simp add: crc32_def crc_while8_reg crc_tail_reg crc_reg_add)
    (simp add: crc_reg_def)

lemma nv_crc32_crc32: "nv_crc32 crc (Some buf) len = crc32 crc buf len"
  by (simp add: nv_crc32_def crc32_def nv_crc_table_eq)

lemma nv_crc32_data [outcome_simps]:
  "len = length buf \<Longrightarrow> nv_crc32 0 (Some buf) len = Ret (crc32_spec buf)"
  by (simp add: nv_crc32_crc32 crc32_general crc32_spec_def)

lemma crc32_data [outcome_simps]: "len = length buf \<Longrightarrow> crc32 0 buf len = Ret (crc32_spec buf)"
  by (simp add: crc32_general crc32_spec_def)

lemma crc32_spec_burst:
  assumes "length u = length v" and "length u \<le> 4" and "u \<noteq> v"
  shows "crc32_spec (pre @ u @ post) \<noteq> crc32_spec (pre @ v @ post)"
proof
  assume "crc32_spec (pre @ u @ post) = crc32_spec (pre @ v @ post)"
  then have "0xffffffff XOR crc_spec poly32 0xffffffff (pre @ u @ post)
      = 0xffffffff XOR crc_spec poly32 0xffffffff (pre @ v @ post)"
    by (simp add: crc32_spec_def xor.commute)
  then have "crc_spec poly32 0xffffffff (pre @ u @ post) = crc_spec poly32 0xffffffff (pre @ v @ post)"
    by (simp only: xor_left_cancel)
  with c32.burst_detected [of u v] assms show False by simp
qed

section \<open>Properties\<close>

text \<open>The CRC table spelled out in the sources, 256 literals in the library and again in the
  kernel module, is in both places the table that \<open>make_crc_table\<close> would generate.\<close>

theorem crc_tables_generated: "make_crc_table = crc_table \<and> nv_crc_table = make_crc_table"
  by (simp add: make_crc_table_eq nv_crc_table_eq)

text \<open>C35: the unrolled, table-driven \<open>crc32\<close> and \<open>nv_crc32\<close> read exactly the \<open>len\<close> bytes they are
  given, return, and compute the bit-by-bit CRC-32 of the shift register, for every start value.\<close>

theorem crc32_is_shift_register:
  assumes "len \<le> length buf"
  shows "crc32 crc buf len = Ret (crc_spec poly32 (crc XOR 0xffffffff) (take len buf) XOR 0xffffffff)
    \<and> nv_crc32 crc (Some buf) len = crc32 crc buf len"
  using assms by (simp add: crc32_general nv_crc32_crc32)

theorem crc32_is_shift_register_witness:
  "crc32 0 [1, 2, 3] 2
    = Ret (crc_spec poly32 (0 XOR 0xffffffff) (take 2 [1, 2, 3]) XOR 0xffffffff)"
  using crc32_is_shift_register [of 2 "[1, 2, 3]" 0] by simp

text \<open>\<open>nv_crc32\<close> tells apart any two blocks that differ only inside a window of at most four
  consecutive bytes.\<close>

theorem crc32_detects_burst:
  assumes "length u = length v" and "length u \<le> 4" and "u \<noteq> v"
  shows "nv_crc32 0 (Some (pre @ u @ post)) (length (pre @ u @ post))
    \<noteq> nv_crc32 0 (Some (pre @ v @ post)) (length (pre @ v @ post))"
  using crc32_spec_burst [OF assms] by (simp add: nv_crc32_data)

theorem crc32_detects_burst_witness:
  "nv_crc32 0 (Some ([7] @ [1, 2] @ [9])) 4 \<noteq> nv_crc32 0 (Some ([7] @ [1, 3] @ [9])) 4"
  using crc32_detects_burst [of "[1, 2]" "[1, 3]" "[7]" "[9]"] by (simp add: eval_nat_numeral)

end
