(* ===== verification/EnvBlock.thy ===== *)
theory EnvBlock
  imports Crc32 "HOL-Library.AList"
begin

text \<open>
  The data both NVRAM implementations share: the environment block (\<open>block_t\<close>, \<open>cache_t\<close>,
  \<open>env_t\<close> of nvram.h), the search of the entry cache, and the two loops that convert between
  the cache and the \<open>name=value\<close> text of a flash block. The kernel module and the user-space
  library contain these loops with the same statements; here they are written once.
  Abstractly a cache is the association list \<open>entries\<close>; the theory shows that lookup and
  update are those of that list and that parsing undoes building.
\<close>

section \<open>nvram.h\<close>

abbreviation (input) MAX_CACHE_ENTRY :: nat where "MAX_CACHE_ENTRY \<equiv> 500"
abbreviation (input) ENV_BLK_SIZE :: nat where "ENV_BLK_SIZE \<equiv> 0x1000"
abbreviation (input) FLASH_BLOCK_NUM :: nat where "FLASH_BLOCK_NUM \<equiv> 4"
abbreviation (input) MAX_VALUE_LEN :: nat where "MAX_VALUE_LEN \<equiv> ENV_BLK_SIZE * 5"

record cache_t =
  ce_name :: "cstring option"
  ce_value :: "cstring option"

record block_t =
  b_name :: cstring
  env_crc :: u32
  env_data :: "byte list option"
  cache :: "cache_t list"
  flash_offset :: nat
  flash_max_len :: nat
  valid :: bool
  dirty :: bool

definition empty_entry :: cache_t where
  "empty_entry = \<lparr>ce_name = None, ce_value = None\<rparr>"

text \<open>\<open>sizeof(fb[index].env.crc)\<close>, and the bytes of an \<open>unsigned long\<close> in memory
  (a little-endian 32-bit CPU).\<close>

abbreviation (input) CRC_SIZE :: nat where "CRC_SIZE \<equiv> 4"

definition crc_bytes :: "u32 \<Rightarrow> byte list" where
  "crc_bytes w = [ucast w, ucast (drop_bit 8 w), ucast (drop_bit 16 w), ucast (drop_bit 24 w)]"

definition crc_of_bytes :: "byte list \<Rightarrow> u32" where
  "crc_of_bytes bytes = le_word bytes"

section \<open>The entry cache\<close>

text \<open>\<open>cache_idx\<close>: the scan stops at the first free slot.\<close>

fun cache_idx_from :: "cache_t list \<Rightarrow> cstring \<Rightarrow> int \<Rightarrow> int" where
  "cache_idx_from [] name i = - 1"
| "cache_idx_from (e # es) name i =
     (case ce_name e of
        None \<Rightarrow> - 1
      | Some n \<Rightarrow> if name = n then i else cache_idx_from es name (i + 1))"

definition cache_idx :: "cache_t list \<Rightarrow> cstring \<Rightarrow> int" where
  "cache_idx es name = cache_idx_from es name 0"

text \<open>The loop for ``the first empty room''; \<open>MAX_CACHE_ENTRY\<close> when there is none.\<close>

fun first_empty :: "cache_t list \<Rightarrow> nat" where
  "first_empty [] = 0"
| "first_empty (e # es) = (if ce_name e = None then 0 else Suc (first_empty es))"

text \<open>\<open>strdup\<close> / \<open>kstrdup\<close> under an allocator that can satisfy the sizes \<open>al\<close>.\<close>

definition dup :: "(nat \<Rightarrow> bool) \<Rightarrow> cstring \<Rightarrow> cstring option" where
  "dup al s = (if al (length s + 1) then Some s else None)"

text \<open>The body of \<open>nvram_set\<close> / \<open>nvram_bufset\<close> on the cache, with its return code.\<close>

definition cache_set :: "(nat \<Rightarrow> bool) \<Rightarrow> cache_t list \<Rightarrow> cstring \<Rightarrow> cstring \<Rightarrow> int \<times> cache_t list" where
  "cache_set al es name val =
     (let idx = cache_idx es name in
      if idx = - 1 then
        let idx' = first_empty es in
        if idx' = length es then (- 1, es)
        else (0, es[idx' := \<lparr>ce_name = dup al name, ce_value = dup al val\<rparr>])
      else (0, es[nat idx := (es ! nat idx)\<lparr>ce_value := dup al val\<rparr>]))"

text \<open>The lookup of \<open>nvram_get\<close> / \<open>nvram_bufget\<close>; \<open>None\<close> is the NULL pointer.\<close>

definition cache_get :: "cache_t list \<Rightarrow> cstring \<Rightarrow> cstring option" where
  "cache_get es name =
     (let idx = cache_idx es name in if idx = - 1 then None else ce_value (es ! nat idx))"

section \<open>Building and parsing the block text\<close>

text \<open>The loop of \<open>nvram_commit\<close> and \<open>nvram_getall\<close>: the boolean tells whether the loop ended
  normally or by the ``ENV_BLK_SIZE is not enough'' return. \<open>snprintf(p, l, \<dots>)\<close> writes \<open>l\<close>
  bytes including the NUL; past the end of the allocation it faults.\<close>

fun build_env :: "nat \<Rightarrow> cache_t list \<Rightarrow> nat \<Rightarrow> byte list \<Rightarrow> (bool \<times> byte list) outcome" where
  "build_env maxlen [] p data =
     (if p < length data then Ret (True, data[p := NUL]) else Fault)"
| "build_env maxlen (e # es) p data =
     (case (ce_name e, ce_value e) of
        (Some n, Some v) \<Rightarrow>
          (let l = length n + length v + 2 in
           if p + 2 \<ge> maxlen then Ret (False, data)
           else if p + l > length data then Fault
           else build_env maxlen es (p + l) (patch data p (n @ EQUALS # v @ [NUL])))
      | _ \<Rightarrow> (if p < length data then Ret (True, data[p := NUL]) else Fault))"

text \<open>The loop of \<open>nvram_init\<close> / \<open>init_nvram_block\<close> on the bytes from \<open>p\<close> to the end of the
  block of \<open>len\<close> bytes: the entries found and the bytes afterwards (each separating \<open>=\<close> is
  overwritten by NUL). The first argument counts the slots left.\<close>

fun parse_env :: "nat \<Rightarrow> nat \<Rightarrow> byte list \<Rightarrow> ((cstring \<times> cstring) list \<times> byte list) outcome" where
  "parse_env 0 len rest = Ret ([], rest)"
| "parse_env (Suc k) len rest =
     (case strchr EQUALS rest of
        None \<Rightarrow> Fault
      | Some None \<Rightarrow> Ret ([], rest)
      | Some (Some q) \<Rightarrow>
          (let name = take q rest; rest1 = drop (Suc q) rest in
           case strchr NUL rest1 of
             None \<Rightarrow> Fault
           | Some None \<Rightarrow> Fault
           | Some (Some r) \<Rightarrow>
               (let val = take r rest1; rest2 = drop (Suc r) rest1;
                    seen = name @ NUL # val @ [NUL] in
                if (len - length rest2) + 1 \<ge> len then Ret ([(name, val)], seen @ rest2)
                else if rest2 = [] then Fault
                else if hd rest2 = NUL then Ret ([(name, val)], seen @ rest2)
                else obind (parse_env k len rest2) (\<lambda>(kvs, rest3).
                       Ret ((name, val) # kvs, seen @ rest3)))))"

text \<open>Storing the parsed entries in the slots from 0 on.\<close>

definition fill_cache :: "(nat \<Rightarrow> bool) \<Rightarrow> cache_t list \<Rightarrow> (cstring \<times> cstring) list \<Rightarrow> cache_t list" where
  "fill_cache al es kvs =
     map (\<lambda>(n, v). \<lparr>ce_name = dup al n, ce_value = dup al v\<rparr>) kvs @ drop (length kvs) es"

text \<open>Freeing every entry.\<close>

definition clear_cache :: "cache_t list \<Rightarrow> cache_t list" where
  "clear_cache es = map (\<lambda>_. empty_entry) es"

section \<open>The abstract cache\<close>

fun entries :: "cache_t list \<Rightarrow> (cstring \<times> cstring) list" where
  "entries [] = []"
| "entries (e # es) =
     (case (ce_name e, ce_value e) of (Some n, Some v) \<Rightarrow> (n, v) # entries es | _ \<Rightarrow> [])"

definition full_entry :: "cstring \<times> cstring \<Rightarrow> cache_t" where
  "full_entry = (\<lambda>(n, v). \<lparr>ce_name = Some n, ce_value = Some v\<rparr>)"

definition cache_of :: "(cstring \<times> cstring) list \<Rightarrow> cache_t list" where
  "cache_of kvs = map full_entry kvs @ replicate (MAX_CACHE_ENTRY - length kvs) empty_entry"

text \<open>A well-formed cache: used slots first, then free ones.\<close>

definition cache_wf :: "cache_t list \<Rightarrow> bool" where
  "cache_wf es = (es = cache_of (entries es) \<and> length (entries es) \<le> MAX_CACHE_ENTRY)"

text \<open>A pair that survives the text form.\<close>

definition kv_ok :: "cstring \<times> cstring \<Rightarrow> bool" where
  "kv_ok kv = (is_cstring (fst kv) \<and> EQUALS \<notin> set (fst kv) \<and> is_cstring (snd kv))"

definition env_text :: "(cstring \<times> cstring) list \<Rightarrow> byte list" where
  "env_text kvs = concat (map (\<lambda>(n, v). n @ EQUALS # v @ [NUL]) kvs)"

definition env_image :: "nat \<Rightarrow> (cstring \<times> cstring) list \<Rightarrow> byte list" where
  "env_image len kvs = env_text kvs @ replicate (len - length (env_text kvs)) NUL"

section \<open>Lookup and update\<close>

lemma full_entry_simps [simp]:
  "ce_name (full_entry (n, v)) = Some n" "ce_value (full_entry (n, v)) = Some v"
  "ce_name empty_entry = None" "ce_value empty_entry = None"
  by (simp_all add: full_entry_def empty_entry_def)

lemma length_cache_of [simp]: "length kvs \<le> MAX_CACHE_ENTRY \<Longrightarrow> length (cache_of kvs) = MAX_CACHE_ENTRY"
  by (simp add: cache_of_def)

lemma entries_append_empty: "entries (map full_entry kvs @ replicate k empty_entry) = kvs"
proof (induction kvs)
  case Nil
  then show ?case by (cases k) auto
qed auto

lemma entries_cache_of [simp]: "entries (cache_of kvs) = kvs"
  by (simp add: cache_of_def entries_append_empty)

lemma cache_wf_cache_of [simp]: "cache_wf (cache_of kvs) = (length kvs \<le> MAX_CACHE_ENTRY)"
  by (simp add: cache_wf_def)

lemma cache_wfE:
  assumes "cache_wf es"
  obtains kvs where "es = cache_of kvs" "entries es = kvs" "length kvs \<le> MAX_CACHE_ENTRY"
  using assms by (auto simp: cache_wf_def)

lemma cache_idx_from_entries:
  "cache_idx_from (map full_entry kvs @ replicate k empty_entry) name i =
     (if name \<in> set (map fst kvs) then i + int (length (takeWhile (\<lambda>kv. fst kv \<noteq> name) kvs)) else - 1)"
proof (induction kvs arbitrary: i)
  case Nil
  then show ?case by (cases k) auto
next
  case (Cons kv kvs)
  then show ?case by (cases kv) auto
qed

lemma cache_idx_cache_of:
  "cache_idx (cache_of kvs) name =
     (if name \<in> set (map fst kvs) then int (length (takeWhile (\<lambda>kv. fst kv \<noteq> name) kvs)) else - 1)"
  by (simp add: cache_idx_def cache_of_def cache_idx_from_entries)

lemma first_empty_cache_of: "first_empty (cache_of kvs) = length kvs"
proof -
  have "first_empty (map full_entry kvs @ replicate k empty_entry) = length kvs" for k
  proof (induction kvs)
    case Nil
    then show ?case by (cases k) auto
  qed auto
  then show ?thesis by (simp add: cache_of_def)
qed

lemma takeWhile_name_index:
  assumes "name \<in> set (map fst kvs)"
  shows "length (takeWhile (\<lambda>kv. fst kv \<noteq> name) kvs) < length kvs"
    "fst (kvs ! length (takeWhile (\<lambda>kv. fst kv \<noteq> name) kvs)) = name"
  using assms by (induction kvs) auto

lemma cache_get_cache_of:
  "length kvs \<le> MAX_CACHE_ENTRY \<Longrightarrow> cache_get (cache_of kvs) name = map_of kvs name"
proof (cases "name \<in> set (map fst kvs)")
  case True
  let ?i = "length (takeWhile (\<lambda>kv. fst kv \<noteq> name) kvs)"
  have "ce_value (cache_of kvs ! ?i) = Some (snd (kvs ! ?i))"
    using takeWhile_name_index(1) [OF True]
    by (simp add: cache_of_def nth_append full_entry_def split: prod.split)
  moreover have "Some (snd (kvs ! ?i)) = map_of kvs name"
    using True by (induction kvs) auto
  ultimately show ?thesis using True by (simp add: cache_get_def cache_idx_cache_of)
next
  case False
  then have "map_of kvs name = None" by (simp add: map_of_eq_None_iff)
  then show ?thesis using False by (simp add: cache_get_def cache_idx_cache_of)
qed

lemma update_at_index:
  "name \<in> set (map fst kvs) \<Longrightarrow>
   AList.update name v kvs = kvs[length (takeWhile (\<lambda>kv. fst kv \<noteq> name) kvs) := (name, v)]"
  by (induction kvs) (auto simp: nth_append)

lemma update_new: "name \<notin> set (map fst kvs) \<Longrightarrow> AList.update name v kvs = kvs @ [(name, v)]"
  by (induction kvs) auto

lemma length_update:
  "length (AList.update n v kvs) = (if n \<in> set (map fst kvs) then length kvs else Suc (length kvs))"
  by (induction kvs) auto

text \<open>Setting a name with a working allocator is the update of the association list, or -1
  when the name is new and all slots are taken.\<close>

lemma cache_set_cache_of:
  assumes len: "length kvs \<le> MAX_CACHE_ENTRY"
    and al: "al (length name + 1)" "al (length val + 1)"
  shows "cache_set al (cache_of kvs) name val =
    (if name \<notin> set (map fst kvs) \<and> length kvs = MAX_CACHE_ENTRY then (- 1, cache_of kvs)
     else (0, cache_of (AList.update name val kvs)))"
proof (cases "name \<in> set (map fst kvs)")
  case True
  let ?i = "length (takeWhile (\<lambda>kv. fst kv \<noteq> name) kvs)"
  have i: "?i < length kvs" "fst (kvs ! ?i) = name" using takeWhile_name_index [OF True] by simp_all
  have "(cache_of kvs)[?i := (cache_of kvs ! ?i)\<lparr>ce_value := Some val\<rparr>]
      = cache_of (kvs[?i := (name, val)])"
    using i by (auto simp: cache_of_def list_update_append nth_append map_update full_entry_def
        split: prod.splits)
  then show ?thesis
    using True al update_at_index [OF True, of val]
    by (simp add: cache_set_def cache_idx_cache_of dup_def)
next
  case False
  have "(cache_of kvs)[length kvs := \<lparr>ce_name = Some name, ce_value = Some val\<rparr>]
      = cache_of (kvs @ [(name, val)])" if lt: "length kvs < MAX_CACHE_ENTRY"
  proof -
    obtain m where m: "MAX_CACHE_ENTRY - length kvs = Suc m" "m = MAX_CACHE_ENTRY - Suc (length kvs)"
      using lt by (metis Suc_diff_Suc)
    then show ?thesis by (simp add: cache_of_def list_update_append full_entry_def)
  qed
  then show ?thesis
    using False len al
    by (auto simp: cache_set_def cache_idx_cache_of first_empty_cache_of dup_def update_new Let_def)
qed

section \<open>Building, then parsing\<close>

lemma env_text_simps [simp]:
  "env_text [] = []"
  "env_text ((n, v) # kvs) = n @ EQUALS # v @ NUL # env_text kvs"
  "env_text (kvs @ kvs') = env_text kvs @ env_text kvs'"
  by (simp_all add: env_text_def)

lemma length_env_image [simp]: "length (env_text kvs) \<le> len \<Longrightarrow> length (env_image len kvs) = len"
  by (simp add: env_image_def)

lemma build_env_entries:
  assumes "p + length (env_text kvs) < length data" and "length data + CRC_SIZE \<le> maxlen"
  shows "build_env maxlen (map full_entry kvs @ replicate k empty_entry) p data
    = Ret (True, (patch data p (env_text kvs))[p + length (env_text kvs) := NUL])"
  using assms
proof (induction kvs arbitrary: p data)
  case Nil
  then show ?case by (cases k) auto
next
  case (Cons kv kvs)
  obtain n v where kv: "kv = (n, v)" by (cases kv)
  let ?t = "n @ EQUALS # v @ [NUL]"
  have "build_env maxlen (map full_entry kvs @ replicate k empty_entry)
        (p + length ?t) (patch data p ?t)
      = Ret (True, (patch (patch data p ?t) (p + length ?t) (env_text kvs))
                     [p + length ?t + length (env_text kvs) := NUL])"
    using Cons.prems kv by (intro Cons.IH) auto
  moreover have "patch (patch data p ?t) (p + length ?t) (env_text kvs) = patch data p (env_text (kv # kvs))"
    using Cons.prems kv patch_patch_adjacent [of p ?t "env_text kvs" data] by simp
  ultimately show ?case using Cons.prems kv by (simp add: add_ac)
qed

lemma build_env_image:
  assumes "length (env_text kvs) < len" and "len + CRC_SIZE \<le> maxlen"
  shows "build_env maxlen (cache_of kvs) 0 (replicate len NUL) = Ret (True, env_image len kvs)"
proof -
  have "patch (replicate len NUL) 0 (env_text kvs) = env_image len kvs"
    using assms by (simp add: patch_def env_image_def)
  moreover have "(env_image len kvs)[length (env_text kvs) := NUL] = env_image len kvs"
    using assms by (cases "len - length (env_text kvs)") (simp_all add: env_image_def list_update_append)
  ultimately show ?thesis
    using assms build_env_entries [of 0 kvs "replicate len NUL" maxlen]
    by (simp add: cache_of_def)
qed

text \<open>A build that ends normally had room for every entry.\<close>

lemma build_env_True_fits:
  "build_env maxlen (map full_entry kvs @ replicate k empty_entry) p data = Ret (True, d) \<Longrightarrow>
   p \<le> length data \<Longrightarrow> p + length (env_text kvs) < length data"
proof (induction kvs arbitrary: p data)
  case Nil
  then show ?case by (cases k) (auto split: if_splits)
next
  case (Cons kv kvs)
  obtain n v where kv: "kv = (n, v)" by (cases kv)
  let ?t = "n @ EQUALS # v @ [NUL]"
  from Cons.prems kv have fits: "p + length ?t \<le> length data"
    and rest: "build_env maxlen (map full_entry kvs @ replicate k empty_entry) (p + length ?t) (patch data p ?t)
      = Ret (True, d)"
    by (auto simp: add_ac split: if_splits)
  from Cons.IH [OF rest] fits show ?case by (simp add: kv)
qed

lemma build_env_overflow:
  assumes "len \<le> length (env_text kvs)"
  shows "\<not> (\<exists>d. build_env maxlen (cache_of kvs) 0 (replicate len NUL) = Ret (True, d))"
  using assms build_env_True_fits [of maxlen kvs _ 0 "replicate len NUL"]
  by (fastforce simp: cache_of_def)

lemma build_env_length: "build_env maxlen es p data = Ret (f, d) \<Longrightarrow> length d = length data"
  by (induction maxlen es p data rule: build_env.induct)
    (auto simp: Let_def split: option.splits if_splits)

lemma build_env_not_Blocked [simp]: "build_env maxlen es p data \<noteq> Blocked"
  by (induction maxlen es p data rule: build_env.induct) (auto simp: Let_def split: option.splits)

text \<open>The size check never fires before the buffer is overrun: it tests the start of an entry
  against a limit beyond the end of the buffer. A text that does not fit is a fault.\<close>

lemma build_env_check_dead:
  "p \<le> length data \<Longrightarrow> length data + CRC_SIZE \<le> maxlen \<Longrightarrow> build_env maxlen es p data \<noteq> Ret (False, d)"
  by (induction maxlen es p data rule: build_env.induct) (auto simp: Let_def split: option.splits)

lemma build_env_too_big:
  assumes "len \<le> length (env_text kvs)" and "len + CRC_SIZE \<le> maxlen"
  shows "build_env maxlen (cache_of kvs) 0 (replicate len NUL) = Fault"
proof (cases "build_env maxlen (cache_of kvs) 0 (replicate len NUL)")
  case (Ret fd)
  then show ?thesis
    using build_env_overflow [OF assms(1)] build_env_check_dead [of 0 "replicate len NUL" maxlen] assms(2)
    by (cases fd; cases "fst fd") auto
qed simp_all

definition env_parsed :: "(cstring \<times> cstring) list \<Rightarrow> nat \<Rightarrow> byte list" where
  "env_parsed kvs z = concat (map (\<lambda>(n, v). n @ NUL # v @ [NUL]) kvs) @ replicate z NUL"

lemma hd_env_text_replicate:
  assumes "\<forall>kv \<in> set kvs. kv_ok kv" and "0 < z"
  shows "(hd (env_text kvs @ replicate z NUL) = NUL) = (kvs = [])"
proof (cases kvs)
  case (Cons kv kvs')
  obtain n v where "kv = (n, v)" by (cases kv)
  then show ?thesis using Cons assms by (cases n) (auto simp: kv_ok_def)
qed (use assms in auto)

lemma parse_env_entry:
  assumes "is_cstring n" and "EQUALS \<notin> set n" and "is_cstring v"
  shows "parse_env (Suc k) len (n @ EQUALS # v @ NUL # rest2) =
    (if (len - length rest2) + 1 \<ge> len then Ret ([(n, v)], n @ NUL # v @ NUL # rest2)
     else if rest2 = [] then Fault
     else if hd rest2 = NUL then Ret ([(n, v)], n @ NUL # v @ NUL # rest2)
     else obind (parse_env k len rest2) (\<lambda>(kvs, rest3).
            Ret ((n, v) # kvs, n @ NUL # v @ NUL # rest3)))"
proof -
  have "strchr EQUALS (n @ EQUALS # (v @ NUL # rest2)) = Some (Some (length n))"
    using assms by (intro strchr_hit)
  moreover have "strchr NUL (v @ NUL # rest2) = Some (Some (length v))"
    using assms by (intro strchr_NUL)
  ultimately show ?thesis by (simp add: Let_def)
qed

lemma parse_env_text:
  assumes "\<forall>kv \<in> set kvs. kv_ok kv" and "length kvs \<le> k" and "0 < z"
    and "length (env_text kvs) + z \<le> len"
  shows "parse_env k len (env_text kvs @ replicate z NUL) = Ret (kvs, env_parsed kvs z)"
  using assms
proof (induction kvs arbitrary: k)
  case Nil
  then obtain z' where "z = Suc z'" by (cases z) auto
  then show ?case by (cases k) (simp_all add: env_parsed_def)
next
  case (Cons kv kvs)
  obtain n v where kv: "kv = (n, v)" by (cases kv)
  obtain k' where k: "k = Suc k'" using Cons.prems by (cases k) auto
  let ?rest2 = "env_text kvs @ replicate z NUL"
  have ok: "is_cstring n" "EQUALS \<notin> set n" "is_cstring v" using Cons.prems kv by (auto simp: kv_ok_def)
  have split: "env_text (kv # kvs) @ replicate z NUL = n @ EQUALS # v @ NUL # ?rest2"
    by (simp add: kv)
  have r2: "?rest2 \<noteq> []" "length ?rest2 \<le> len" using Cons.prems kv by auto
  have short: "kvs = []" if "len - length ?rest2 + 1 \<ge> len"
  proof (rule ccontr)
    assume "kvs \<noteq> []"
    then have "2 \<le> length (env_text kvs)" by (cases kvs) auto
    with that Cons.prems r2 show False by auto
  qed
  have hd: "(hd ?rest2 = NUL) = (kvs = [])" using Cons.prems by (intro hd_env_text_replicate) auto
  have "parse_env k' len ?rest2 = Ret (kvs, env_parsed kvs z)" if "kvs \<noteq> []"
    using Cons.prems kv k by (intro Cons.IH) auto
  moreover have "parse_env k len (env_text (kv # kvs) @ replicate z NUL) =
      (if kvs = [] then Ret ([(n, v)], n @ NUL # v @ NUL # ?rest2)
       else obind (parse_env k' len ?rest2) (\<lambda>(kvs, rest3).
            Ret ((n, v) # kvs, n @ NUL # v @ NUL # rest3)))"
    using short r2 hd unfolding k split parse_env_entry [OF ok] by auto
  ultimately show ?case by (auto simp: kv env_parsed_def)
qed

lemma parse_env_image:
  assumes "\<forall>kv \<in> set kvs. kv_ok kv" and "length kvs \<le> MAX_CACHE_ENTRY" and "length (env_text kvs) < len"
  shows "\<exists>d. parse_env MAX_CACHE_ENTRY len (env_image len kvs) = Ret (kvs, d) \<and> length d = len"
proof -
  have "length (concat (map (\<lambda>(n, v). n @ NUL # v @ [NUL]) kvs)) = length (env_text kvs)"
    by (induction kvs) auto
  then show ?thesis
    using assms parse_env_text [of kvs MAX_CACHE_ENTRY "len - length (env_text kvs)" len]
    by (simp add: env_image_def env_parsed_def)
qed

lemma parse_env_length:
  "parse_env k len rest = Ret (kvs, d) \<Longrightarrow> length d = length rest \<and> length kvs \<le> k"
proof (induction k arbitrary: rest kvs d)
  case (Suc k)
  show ?case
  proof (cases "strchr EQUALS rest")
    case (Some oq)
    show ?thesis
    proof (cases oq)
      case (Some q)
      let ?rest1 = "drop (Suc q) rest"
      note q = \<open>strchr EQUALS rest = Some oq\<close> [unfolded Some]
      obtain r where r: "strchr NUL ?rest1 = Some (Some r)"
        using Suc.prems q by (auto simp: Let_def split: option.splits)
      have len: "q < length rest" "r < length ?rest1"
        using strchr_Some_Some [OF q] strchr_Some_Some [OF r] by simp_all
      show ?thesis
        using Suc.prems q r len by (auto simp: Let_def obind_Ret_conv dest!: Suc.IH split: if_splits)
    qed (use Suc.prems Some in simp)
  qed (use Suc.prems in simp)
qed simp

section \<open>The checksum in memory\<close>

lemma length_crc_bytes [simp]: "length (crc_bytes w) = CRC_SIZE"
  by (simp add: crc_bytes_def)

lemma le_word_Cons:
  fixes w :: "'a::len word"
  assumes "le_word bs = drop_bit 8 w"
  shows "le_word (ucast w # bs) = w"
  by (rule bit_word_eqI) (auto simp: assms bit_simps)

lemma crc_of_bytes_inverse [simp]: "crc_of_bytes (crc_bytes w) = w"
proof -
  have "le_word [] = drop_bit 8 (drop_bit 24 w)" by (simp add: drop_bit_word_beyond)
  note s3 = le_word_Cons [OF this]
  have s2: "le_word [ucast (drop_bit 16 w), ucast (drop_bit 24 w)] = drop_bit 16 w"
    using s3 by (intro le_word_Cons) simp
  have s1: "le_word [ucast (drop_bit 8 w), ucast (drop_bit 16 w), ucast (drop_bit 24 w)] = drop_bit 8 w"
    using s2 by (intro le_word_Cons) simp
  show ?thesis using le_word_Cons [OF s1] by (simp add: crc_of_bytes_def crc_bytes_def)
qed

section \<open>Properties\<close>

text \<open>C34: the text of a block round-trips: the bytes the build loop of \<open>nvram_commit\<close> produces from a
  cache that fits are parsed by the loop of \<open>init_nvram_block\<close> (and \<open>nvram_init\<close>) into the same names
  and values in the same order, for names without \<open>=\<close>.\<close>

theorem build_parse_roundtrip:
  assumes "\<forall>kv \<in> set kvs. kv_ok kv" and "length kvs \<le> MAX_CACHE_ENTRY"
    and "length (env_text kvs) < len" and "len + CRC_SIZE \<le> maxlen"
  shows "\<exists>text d. build_env maxlen (cache_of kvs) 0 (replicate len NUL) = Ret (True, text)
    \<and> length text = len \<and> parse_env MAX_CACHE_ENTRY len text = Ret (kvs, d)"
  using build_env_image [OF assms(3,4)] parse_env_image [OF assms(1-3)] assms(3) by auto

theorem build_parse_roundtrip_witness:
  "\<exists>text d. build_env 24 (cache_of [([0x61], [0x31]), ([0x62], [])]) 0 (replicate 20 NUL) = Ret (True, text)
    \<and> length text = 20 \<and> parse_env 500 20 text = Ret ([([0x61], [0x31]), ([0x62], [])], d)"
  using build_parse_roundtrip [of "[([0x61], [0x31]), ([0x62], [])]" 20 24]
  by (simp add: kv_ok_def)

text \<open>On a well-formed cache a name that was set reads back its value, every other name reads
  what it did before, and the cache stays well formed; a new name in a full cache is refused.\<close>

lemma cache_set_get:
  assumes "cache_wf es" and "al (length name + 1)" and "al (length val + 1)"
  shows "case cache_set al es name val of (r, es') \<Rightarrow> cache_wf es' \<and>
    (if cache_get es name = None \<and> length (entries es) = MAX_CACHE_ENTRY then r = - 1 \<and> es' = es
     else r = 0 \<and> cache_get es' = (cache_get es)(name := Some val))"
proof -
  obtain kvs where es: "es = cache_of kvs" "length kvs \<le> MAX_CACHE_ENTRY"
    using assms(1) by (rule cache_wfE)
  have get: "cache_get (cache_of kvs') = map_of kvs'" if "length kvs' \<le> MAX_CACHE_ENTRY" for kvs'
    using that by (simp add: cache_get_cache_of fun_eq_iff)
  have new: "(map_of kvs name = None) = (name \<notin> set (map fst kvs))" by (simp add: map_of_eq_None_iff)
  note run = cache_set_cache_of [OF es(2) assms(2,3)]
  show ?thesis
  proof (cases "name \<notin> set (map fst kvs) \<and> length kvs = MAX_CACHE_ENTRY")
    case True
    with run have "cache_set al es name val = (- 1, es)" by (simp add: es(1))
    with True show ?thesis using new get [OF es(2)] es assms(1) by simp
  next
    case False
    with run have "cache_set al es name val = (0, cache_of (AList.update name val kvs))"
      unfolding es(1) by (simp only: if_False)
    moreover have "length (AList.update name val kvs) \<le> MAX_CACHE_ENTRY"
      using False es(2) by (auto simp: length_update)
    moreover have "\<not> (cache_get es name = None \<and> length (entries es) = MAX_CACHE_ENTRY)"
      using False new get [OF es(2)] es(1) by simp
    ultimately show ?thesis using get [OF es(2)] get es(1) by (simp add: update_conv')
  qed
qed

end
