(* ===== verification/SpiFlash.thy ===== *)
theory SpiFlash
  imports Prelude
begin

text \<open>
  The flash driver below the NVRAM: the SPI NOR chip, the MTD operations of
  drivers/mtd/ralink/ralink_spi.c (\<open>ramtd_erase\<close>, \<open>ramtd_read\<close>, \<open>ramtd_write\<close>, in the legacy
  command mode the RT5350 builds use) and the partition layer of drivers/mtd/mtdpart.c.

  The chip is hardware: its memory array, its sector size, what its status register
  answers to the polls of a wait, and how many bytes of a transfer the SPI controller completes
  (\<open>chip_tx\<close>, \<open>chip_rx\<close>) are a record, so a dead chip and a broken transfer are instances.
  What the three flash commands do to the array is their data-sheet behaviour: READ copies
  out, SE sets a sector to 0xFF, PP clears bits and wraps inside its 256-byte page.
\<close>

abbreviation (input) EIO :: int where "EIO \<equiv> 5"
abbreviation (input) ENOMEM :: int where "ENOMEM \<equiv> 12"
abbreviation (input) EFAULT :: int where "EFAULT \<equiv> 14"
abbreviation (input) ENODEV :: int where "ENODEV \<equiv> 19"
abbreviation (input) EINVAL :: int where "EINVAL \<equiv> 22"
abbreviation (input) ENOSPC :: int where "ENOSPC \<equiv> 28"
abbreviation (input) EROFS :: int where "EROFS \<equiv> 30"
abbreviation (input) E2BIG :: int where "E2BIG \<equiv> 7"

section \<open>The chip\<close>

record spi_chip =
  chip_mem :: "byte list"
  chip_sector :: nat
  chip_sr :: "nat \<Rightarrow> byte option"
  chip_addr4b :: bool
  chip_tx :: "nat \<Rightarrow> nat \<Rightarrow> int"
  chip_rx :: "nat \<Rightarrow> nat \<Rightarrow> int"

abbreviation (input) FLASH_PAGESIZE :: nat where "FLASH_PAGESIZE \<equiv> 256"

text \<open>The address that reaches the chip: three command bytes, or four in 4-byte mode.\<close>

definition cmd_addr :: "spi_chip \<Rightarrow> nat \<Rightarrow> nat" where
  "cmd_addr c a = a mod (if chip_addr4b c then 2 ^ 32 else 2 ^ 24)"

definition hw_sector_erase :: "spi_chip \<Rightarrow> nat \<Rightarrow> spi_chip" where
  "hw_sector_erase c a =
     c\<lparr>chip_mem := patch (chip_mem c) (a - a mod chip_sector c) (replicate (chip_sector c) 0xFF)\<rparr>"

fun hw_program :: "byte list \<Rightarrow> nat \<Rightarrow> nat \<Rightarrow> byte list \<Rightarrow> byte list" where
  "hw_program mem a i [] = mem"
| "hw_program mem a i (b # data) =
     (let pos = a - a mod FLASH_PAGESIZE + (a mod FLASH_PAGESIZE + i) mod FLASH_PAGESIZE
      in hw_program (mem[pos := mem ! pos AND b]) a (Suc i) data)"

section \<open>drivers/mtd/ralink/ralink_spi.c\<close>

abbreviation (input) SR_WIP :: byte where "SR_WIP \<equiv> 1"
abbreviation (input) SR_EPE :: byte where "SR_EPE \<equiv> 0x20"

text \<open>\<open>raspi_wait_ready\<close> polls the status register until the chip is idle, a poll fails or the polls
  are used up; \<open>chip_sr c k\<close> is the answer to poll \<open>k\<close> of a wait.\<close>

function wait_loop :: "(nat \<Rightarrow> byte option) \<Rightarrow> nat \<Rightarrow> nat \<Rightarrow> int" where
  "wait_loop sr limit count =
     (if count < limit then
        (case sr count of
           None \<Rightarrow> - EIO
         | Some s \<Rightarrow> if s AND (SR_WIP OR SR_EPE) = 0 then 0 else wait_loop sr limit (count + 1))
      else - EIO)"
  by pat_completeness auto
termination
  by (relation "measure (\<lambda>(sr, limit, count). limit - count)") auto

declare wait_loop.simps [simp del]

definition raspi_wait_ready :: "spi_chip \<Rightarrow> nat \<Rightarrow> int" where
  "raspi_wait_ready c sleep_ms = wait_loop (chip_sr c) ((sleep_ms + 1) * 1000 * 500) 0"

definition raspi_erase_sector :: "spi_chip \<Rightarrow> nat \<Rightarrow> int \<times> spi_chip" where
  "raspi_erase_sector c offset =
     (if raspi_wait_ready c 3 \<noteq> 0 then (- EIO, c)
      else (0, hw_sector_erase c (cmd_addr c offset)))"

function erase_loop :: "spi_chip \<Rightarrow> nat \<Rightarrow> nat \<Rightarrow> int \<times> spi_chip" where
  "erase_loop c addr len =
     (if len = 0 \<or> chip_sector c = 0 then (0, c)
      else let (r, c') = raspi_erase_sector c addr
           in if r \<noteq> 0 then (- EIO, c')
              else erase_loop c' (addr + chip_sector c) (len - chip_sector c))"
  by pat_completeness auto
termination
  by (relation "measure (\<lambda>(c, addr, len). len)") auto

declare erase_loop.simps [simp del]

text \<open>\<open>ramtd_erase\<close>; the address sum of its first check is a 32-bit sum, and the alignment
  check is compiled in for the 2.6.21 kernel (it traps on an erase size of 0).\<close>

definition ramtd_erase :: "spi_chip \<Rightarrow> nat \<Rightarrow> nat \<Rightarrow> (int \<times> spi_chip) outcome" where
  "ramtd_erase c addr len =
     (if (addr + len) mod 2 ^ 32 > length (chip_mem c) then Ret (- EINVAL, c)
      else if chip_sector c = 0 then Fault
      else if addr mod chip_sector c \<noteq> 0 \<or> len mod chip_sector c \<noteq> 0 then Ret (- EINVAL, c)
      else Ret (erase_loop c addr len))"

text \<open>\<open>ramtd_read\<close>: the error code and the bytes stored at the start of the buffer.\<close>

definition ramtd_read :: "spi_chip \<Rightarrow> nat \<Rightarrow> nat \<Rightarrow> int \<times> byte list" where
  "ramtd_read c from len =
     (if len = 0 then (0, [])
      else if from + len > length (chip_mem c) then (- EINVAL, [])
      else if raspi_wait_ready c 1 \<noteq> 0 then (- EIO, [])
      else let readlen = chip_rx c (cmd_addr c from) len;
               got = take (nat readlen) (window (chip_mem c) (cmd_addr c from) len)
           in if readlen \<noteq> int len then (- EIO, got) else (0, got))"

text \<open>The page loop of \<open>ramtd_write\<close>: a transfer that reports no byte at all (\<open>retval \<le> 0\<close>)
  is skipped without an error, as the source does.\<close>

function write_pages :: "spi_chip \<Rightarrow> nat \<Rightarrow> nat \<Rightarrow> byte list \<Rightarrow> nat \<Rightarrow> int \<times> nat \<times> spi_chip" where
  "write_pages c to page_offset buf retlen =
     (if buf = [] \<or> FLASH_PAGESIZE \<le> page_offset then (0, retlen, c)
      else let page_size = min (length buf) (FLASH_PAGESIZE - page_offset);
               retval = chip_tx c (cmd_addr c to) page_size;
               c' = c\<lparr>chip_mem := hw_program (chip_mem c) (cmd_addr c to) 0
                                    (take (min (nat retval) page_size) buf)\<rparr>
           in if 0 < retval \<and> retval < int page_size then (- EIO, retlen + nat retval, c')
              else write_pages c' (to + page_size) 0 (drop page_size buf)
                     (if 0 < retval then retlen + nat retval else retlen))"
  by pat_completeness auto
termination
  by (relation "measure (\<lambda>(c, to, po, buf, rl). length buf)") (auto simp: min_def)

declare write_pages.simps [simp del]

definition ramtd_write :: "spi_chip \<Rightarrow> nat \<Rightarrow> byte list \<Rightarrow> int \<times> nat \<times> spi_chip" where
  "ramtd_write c to buf =
     (if buf = [] then (0, 0, c)
      else if to + length buf > length (chip_mem c) then (- EINVAL, 0, c)
      else if raspi_wait_ready c 2 \<noteq> 0 then (- 1, 0, c)
      else write_pages c to (to mod FLASH_PAGESIZE) buf 0)"

section \<open>drivers/mtd/mtdpart.c\<close>

record mtd_part =
  part_name :: cstring
  part_offset :: nat
  part_size :: nat
  part_writeable :: bool

definition part_read :: "spi_chip \<Rightarrow> mtd_part \<Rightarrow> nat \<Rightarrow> nat \<Rightarrow> int \<times> byte list" where
  "part_read c p from len =
     (let len' = (if from \<ge> part_size p then 0
                  else if from + len > part_size p then part_size p - from else len)
      in ramtd_read c (from + part_offset p) len')"

definition part_write :: "spi_chip \<Rightarrow> mtd_part \<Rightarrow> nat \<Rightarrow> byte list \<Rightarrow> int \<times> nat \<times> spi_chip" where
  "part_write c p to buf =
     (if \<not> part_writeable p then (- EROFS, 0, c)
      else let len' = (if to \<ge> part_size p then 0
                       else if to + length buf > part_size p then part_size p - to else length buf)
           in ramtd_write c (to + part_offset p) (take len' buf))"

definition part_erase :: "spi_chip \<Rightarrow> mtd_part \<Rightarrow> nat \<Rightarrow> nat \<Rightarrow> (int \<times> spi_chip) outcome" where
  "part_erase c p addr len =
     (if \<not> part_writeable p then Ret (- EROFS, c)
      else if addr \<ge> part_size p then Ret (- EINVAL, c)
      else ramtd_erase c ((addr + part_offset p) mod 2 ^ 32) len)"

section \<open>A working chip\<close>

text \<open>A chip that comes to rest within the million polls of the shortest wait, completes its transfers, is addressable with the command bytes
  it uses and consists of whole sectors, which are whole pages.\<close>

definition comes_idle :: "spi_chip \<Rightarrow> bool" where
  "comes_idle c = (\<exists>k < 1000000. (\<forall>j < k. chip_sr c j \<noteq> None)
     \<and> (\<exists>s. chip_sr c k = Some s \<and> s AND (SR_WIP OR SR_EPE) = 0))"

lemma comes_idle_simps [simp]:
  "comes_idle (c\<lparr>chip_mem := m\<rparr>) = comes_idle c" "comes_idle (c\<lparr>chip_tx := f\<rparr>) = comes_idle c"
  "chip_sr c = (\<lambda>_. Some 0) \<Longrightarrow> comes_idle c"
  by (auto simp: comes_idle_def intro: exI [of _ 0])

lemma wait_loop_idle:
  assumes "k < limit" and "\<forall>j < k. sr j \<noteq> None" and "sr k = Some s" and "s AND (SR_WIP OR SR_EPE) = 0" and "count \<le> k"
  shows "wait_loop sr limit count = 0"
  using assms(5)
proof (induction "k - count" arbitrary: count)
  case 0
  then show ?case using assms by (subst wait_loop.simps) simp
next
  case (Suc n)
  then obtain t where "sr count = Some t" using assms(2) by fastforce
  moreover have "wait_loop sr limit (count + 1) = 0" using Suc by simp
  ultimately show ?case using Suc assms(1) by (subst wait_loop.simps) simp
qed

lemma raspi_wait_ready_idle: "comes_idle c \<Longrightarrow> 0 < ms \<Longrightarrow> raspi_wait_ready c ms = 0"
  unfolding raspi_wait_ready_def comes_idle_def by (elim exE conjE, rule wait_loop_idle) auto

definition chip_ok :: "spi_chip \<Rightarrow> bool" where
  "chip_ok c = (comes_idle c \<and> (\<forall>a n. chip_tx c a n = int n) \<and> (\<forall>a n. chip_rx c a n = int n)
     \<and> 0 < chip_sector c \<and> chip_sector c dvd length (chip_mem c)
     \<and> length (chip_mem c) \<le> (if chip_addr4b c then 2 ^ 31 else 2 ^ 24))"

lemma chip_okD:
  assumes "chip_ok c"
  shows "0 < ms \<Longrightarrow> raspi_wait_ready c ms = 0" "chip_tx c a n = int n" "chip_rx c a n = int n"
    "0 < chip_sector c" "length (chip_mem c) < 2 ^ 32"
  using assms by (auto simp: chip_ok_def raspi_wait_ready_idle split: if_splits)

lemma cmd_addr_ok: "chip_ok c \<Longrightarrow> a < length (chip_mem c) \<Longrightarrow> cmd_addr c a = a"
  by (auto simp: chip_ok_def cmd_addr_def split: if_splits)

lemma chip_ok_mem [simp]: "length m = length (chip_mem c) \<Longrightarrow> chip_ok (c\<lparr>chip_mem := m\<rparr>) = chip_ok c"
  by (simp add: chip_ok_def)

lemma ramtd_read_ok:
  assumes "chip_ok c" and "from + len \<le> length (chip_mem c)"
  shows "ramtd_read c from len = (0, window (chip_mem c) from len)"
proof (cases "len = 0")
  case False
  then have "cmd_addr c from = from" using assms by (intro cmd_addr_ok) auto
  then show ?thesis
    using assms False by (simp add: ramtd_read_def chip_okD Let_def)
qed (simp add: ramtd_read_def window_def)

text \<open>Inside one page, programming clears bits exactly where the data goes.\<close>

lemma hw_program_page:
  assumes "a mod 256 + i + length data \<le> 256" and "a + i + length data \<le> length mem"
  shows "hw_program mem a i data
    = patch mem (a + i) (map2 (AND) (window mem (a + i) (length data)) data)"
  using assms
proof (induction data arbitrary: mem i)
  case (Cons b data)
  have pred: "j - Suc (a + i) = k" if "j - (a + i) = Suc k" for j k using that by simp
  have pos: "a - a mod 256 + (a mod 256 + i) mod 256 = a + i"
    using Cons.prems by simp
  let ?m = "mem[a + i := mem ! (a + i) AND b]"
  have "hw_program mem a i (b # data) = hw_program ?m a (Suc i) data"
    by (simp only: hw_program.simps Let_def pos)
  also have "\<dots> = patch ?m (a + Suc i) (map2 (AND) (window ?m (a + Suc i) (length data)) data)"
    using Cons.prems by (intro Cons.IH) auto
  also have "window ?m (a + Suc i) (length data) = window mem (a + Suc i) (length data)"
    by (rule nth_equalityI) (use Cons.prems in \<open>auto simp: nth_window\<close>)
  also have "patch ?m (a + Suc i) (map2 (AND) (window mem (a + Suc i) (length data)) data)
      = patch mem (a + i) (map2 (AND) (window mem (a + i) (length (b # data))) (b # data))"
    by (rule nth_equalityI)
      (use Cons.prems in \<open>auto simp: nth_patch nth_window nth_list_update nth_Cons pred split: nat.splits\<close>)
  finally show ?case .
qed simp

lemma map2_AND_erased:
  "length data = n \<Longrightarrow> map2 (AND) (replicate n (0xFF :: byte)) data = data"
proof (induction data arbitrary: n)
  case (Cons b data)
  have "(0xFF :: byte) = - 1" by simp
  then have "(0xFF :: byte) AND b = b" by (simp only: and.left_neutral)
  with Cons show ?case by (cases n) auto
qed simp

lemma hw_program_erased:
  assumes "a mod 256 + length data \<le> 256" and "a + length data \<le> length mem"
    and "window mem a (length data) = replicate (length data) 0xFF"
  shows "hw_program mem a 0 data = patch mem a data"
  using assms by (simp add: hw_program_page map2_AND_erased)

lemma window_replicate_suffix:
  assumes "window mem a n = replicate n v" and "k \<le> n" and "a + n \<le> length mem"
  shows "window mem a k = replicate k v" "window mem (a + k) (n - k) = replicate (n - k) v"
proof -
  have "mem ! (a + i) = v" if "i < n" for i
    using assms(1,3) that nth_window [of a n mem i] by simp
  then show "window mem a k = replicate k v" "window mem (a + k) (n - k) = replicate (n - k) v"
    using assms(2,3) by (auto intro!: nth_equalityI simp: nth_window add.assoc)
qed

lemma page_end: "(to + (256 - to mod 256)) mod 256 = (0::nat)"
proof -
  have "to mod 256 \<le> 256" by (simp add: less_imp_le)
  then have "(to mod 256 + (256 - to mod 256)) mod 256 = 0" by simp
  then show ?thesis by (simp only: mod_add_left_eq)
qed

text \<open>The page split: each transfer stays inside a page, so erased memory receives the data.\<close>

lemma write_pages_ok:
  assumes "chip_ok c" and "po = to mod 256" and "to + length buf \<le> length (chip_mem c)"
    and "window (chip_mem c) to (length buf) = replicate (length buf) 0xFF"
  shows "write_pages c to po buf rl
    = (0, rl + length buf, c\<lparr>chip_mem := patch (chip_mem c) to buf\<rparr>)"
  using assms
proof (induction buf arbitrary: c to po rl rule: length_induct)
  case (1 buf)
  note ok = "1.prems"(1) and erased = "1.prems"(4)
  show ?case
  proof (cases "buf = []")
    case True
    then show ?thesis by (subst write_pages.simps) simp
  next
    case False
    define ps where "ps = min (length buf) (256 - po)"
    define c' where "c' = c\<lparr>chip_mem := patch (chip_mem c) to (take ps buf)\<rparr>"
    have po: "po < 256" using "1.prems"(2) by simp
    then have ps: "0 < ps" "ps \<le> length buf" "to mod 256 + ps \<le> 256"
      using False "1.prems"(2) by (auto simp: ps_def)
    have "0 < length buf" using False by simp
    with "1.prems" have addr: "cmd_addr c to = to" by (intro cmd_addr_ok) linarith+
    have prog: "hw_program (chip_mem c) to 0 (take ps buf) = patch (chip_mem c) to (take ps buf)"
      using "1.prems" ps window_replicate_suffix(1) [OF erased ps(2)]
      by (intro hw_program_erased) auto
    have step: "write_pages c to po buf rl = write_pages c' (to + ps) 0 (drop ps buf) (rl + ps)"
      using False po ps(1) by (subst write_pages.simps)
        (simp add: Let_def chip_okD [OF ok] addr prog c'_def flip: ps_def)
    have mem': "chip_mem c' = patch (chip_mem c) to (take ps buf)" by (simp add: c'_def)
    have rest: "write_pages c' (to + ps) 0 (drop ps buf) (rl + ps)
        = (0, rl + ps + length (drop ps buf),
           c'\<lparr>chip_mem := patch (chip_mem c') (to + ps) (drop ps buf)\<rparr>)"
    proof (cases "length buf = ps")
      case True
      then show ?thesis by (subst write_pages.simps) simp
    next
      case False
      then have "ps = 256 - to mod 256" using "1.prems"(2) by (auto simp: ps_def)
      then have "0 = (to + ps) mod 256" using page_end by metis
      moreover have "length (drop ps buf) < length buf" using ps by simp
      moreover have "chip_ok c'" using ok "1.prems"(3) ps by (simp add: c'_def)
      moreover have "to + ps + length (drop ps buf) \<le> length (chip_mem c')"
        using "1.prems"(3) ps by (simp add: mem')
      moreover have "window (chip_mem c') (to + ps) (length (drop ps buf))
          = replicate (length (drop ps buf)) 0xFF"
        using "1.prems"(3) ps window_replicate_suffix(2) [OF erased ps(2)]
        by (simp add: mem' window_patch_disjoint)
      ultimately show ?thesis using "1.IH" by blast
    qed
    have "patch (chip_mem c') (to + ps) (drop ps buf) = patch (chip_mem c) to buf"
      using patch_patch_adjacent [of to "take ps buf" "drop ps buf" "chip_mem c"] "1.prems"(3) ps
      by (simp add: mem')
    then show ?thesis using ps by (simp only: step rest) (simp add: c'_def)
  qed
qed

lemma ramtd_write_ok:
  assumes "chip_ok c" and "to + length buf \<le> length (chip_mem c)"
    and "window (chip_mem c) to (length buf) = replicate (length buf) 0xFF"
  shows "ramtd_write c to buf = (0, length buf, c\<lparr>chip_mem := patch (chip_mem c) to buf\<rparr>)"
  using assms write_pages_ok [OF assms(1) refl assms(2,3), of 0]
  by (simp add: ramtd_write_def chip_okD)

text \<open>Erasing whole sectors.\<close>

lemma erase_loop_ok:
  assumes "chip_ok c" and "addr mod chip_sector c = 0" and "addr + n * chip_sector c \<le> length (chip_mem c)"
  shows "erase_loop c addr (n * chip_sector c)
    = (0, c\<lparr>chip_mem := patch (chip_mem c) addr (replicate (n * chip_sector c) 0xFF)\<rparr>)"
  using assms
proof (induction n arbitrary: c addr)
  case 0
  then show ?case by (subst erase_loop.simps) simp
next
  case (Suc n)
  let ?s = "chip_sector c"
  define c' where "c' = c\<lparr>chip_mem := patch (chip_mem c) addr (replicate ?s 0xFF)\<rparr>"
  have s: "0 < ?s" using Suc.prems(1) by (simp add: chip_okD)
  have "cmd_addr c addr = addr" using Suc.prems s by (intro cmd_addr_ok) auto
  then have er: "raspi_erase_sector c addr = (0, c')"
    using Suc.prems by (simp add: raspi_erase_sector_def chip_okD hw_sector_erase_def c'_def)
  have step: "erase_loop c addr (Suc n * ?s) = erase_loop c' (addr + ?s) (n * ?s)"
    using s by (subst erase_loop.simps) (simp add: er)
  have c': "chip_sector c' = ?s" "chip_mem c' = patch (chip_mem c) addr (replicate ?s 0xFF)"
    by (simp_all add: c'_def)
  have "erase_loop c' (addr + ?s) (n * chip_sector c')
      = (0, c'\<lparr>chip_mem := patch (chip_mem c') (addr + ?s) (replicate (n * chip_sector c') 0xFF)\<rparr>)"
    using Suc.prems by (intro Suc.IH) (auto simp: c' c'_def)
  moreover have "patch (chip_mem c') (addr + ?s) (replicate (n * ?s) 0xFF)
      = patch (chip_mem c) addr (replicate (?s + n * ?s) 0xFF)"
    using Suc.prems patch_patch_adjacent [of addr "replicate ?s 0xFF" "replicate (n * ?s) 0xFF" "chip_mem c"]
    by (simp add: c' replicate_add)
  ultimately show ?case by (simp only: step c') (simp add: c'_def)
qed

lemma ramtd_erase_ok:
  assumes "chip_ok c" and "addr mod chip_sector c = 0" and "len mod chip_sector c = 0"
    and "addr + len \<le> length (chip_mem c)"
  shows "ramtd_erase c addr len
    = Ret (0, c\<lparr>chip_mem := patch (chip_mem c) addr (replicate len 0xFF)\<rparr>)"
proof -
  define n where "n = len div chip_sector c"
  have n: "len = n * chip_sector c" using assms(3) by (simp add: n_def mod_0_imp_dvd)
  have "addr + len < 2 ^ 32" using assms(1,4) chip_okD(5) by fastforce
  then show ?thesis using assms erase_loop_ok [of c addr n] n chip_okD(4) [of c]
    by (simp add: ramtd_erase_def)
qed

text \<open>A controller that completes no transfer: the page loop skips every page.\<close>

lemma write_pages_dead:
  assumes "\<forall>a n. chip_tx c a n \<le> 0"
  shows "write_pages c to po buf rl = (0, rl, c)"
  using assms
proof (induction c to po buf rl rule: write_pages.induct)
  case (1 c to po buf rl)
  have tx: "\<not> 0 < chip_tx c a n" "nat (chip_tx c a n) = 0" for a n
    using "1.prems" by (auto simp: not_less)
  show ?case
  proof (cases "buf = [] \<or> 256 \<le> po")
    case True
    then show ?thesis by (subst write_pages.simps) auto
  next
    case False
    then show ?thesis
      using "1.IH" [OF False refl refl refl] "1.prems" by (subst write_pages.simps) (simp add: Let_def tx)
  qed
qed

section \<open>Properties\<close>

definition demo_spi :: spi_chip where
  "demo_spi = \<lparr>chip_mem = replicate 512 0xFF, chip_sector = 512, chip_sr = \<lambda>_. Some 0,
     chip_addr4b = False, chip_tx = \<lambda>_ n. int n, chip_rx = \<lambda>_ n. int n\<rparr>"

text \<open>On a working chip \<open>ramtd_write\<close> stores any data in erased memory exactly where asked, at any
  address and length (its page splitting never lets a transfer wrap inside a page), and
  \<open>ramtd_read\<close> returns it.\<close>

theorem ramtd_write_read:
  assumes "chip_ok c" and "to + length buf \<le> length (chip_mem c)"
    and "window (chip_mem c) to (length buf) = replicate (length buf) 0xFF"
  shows "ramtd_write c to buf = (0, length buf, c\<lparr>chip_mem := patch (chip_mem c) to buf\<rparr>)
    \<and> ramtd_read (c\<lparr>chip_mem := patch (chip_mem c) to buf\<rparr>) to (length buf) = (0, buf)"
  using assms by (simp add: ramtd_write_ok ramtd_read_ok window_patch_same)

theorem ramtd_write_read_witness:
  "ramtd_write demo_spi 255 [1, 2] = (0, length [1, 2 :: byte], demo_spi\<lparr>chip_mem := patch (chip_mem demo_spi) 255 [1, 2]\<rparr>)"
  using ramtd_write_read [of demo_spi 255 "[1, 2]"]
  by (simp add: demo_spi_def chip_ok_def window_def)

text \<open>When the SPI controller completes no transfer at all, \<open>ramtd_write\<close> still reports success
  (return value 0), with a written length of 0 and the memory unchanged.\<close>

theorem ramtd_write_dead_controller:
  assumes "comes_idle c" and "\<forall>a n. chip_tx c a n \<le> 0" and "to + length buf \<le> length (chip_mem c)"
  shows "ramtd_write c to buf = (0, 0, c)"
  using assms by (simp add: ramtd_write_def raspi_wait_ready_idle write_pages_dead)

theorem ramtd_write_dead_controller_witness:
  "ramtd_write (demo_spi\<lparr>chip_tx := \<lambda>_ _. - 1\<rparr>) 0 [1, 2] = (0, 0, demo_spi\<lparr>chip_tx := \<lambda>_ _. - 1\<rparr>)"
  using ramtd_write_dead_controller [of "demo_spi\<lparr>chip_tx := \<lambda>_ _. - 1\<rparr>" 0 "[1, 2]"]
  by (simp add: demo_spi_def)

end
