(* ===== verification/RaMtd.thy ===== *)
theory RaMtd
  imports SpiFlash
begin

text \<open>
  The kernel's flash interface by partition name (drivers/mtd/maps/ralink-flash.c):
  \<open>ra_mtd_read_nm\<close> and \<open>ra_mtd_write_nm\<close>, over the MTD table (\<open>get_mtd_device_nm\<close> of
  drivers/mtd/mtdcore.c) and the partitions of \<open>SpiFlash\<close>. \<open>ra_mtd_write_nm\<close> rewrites the
  first erase block of the partition through a heap copy; the theory shows when this is an
  in-place write and states the contract as the locale \<open>block_store\<close>, which the user-space
  flash functions implement as well.
\<close>

section \<open>State\<close>

record flash_dev =
  dev_chip :: spi_chip
  dev_table :: "mtd_part list"

text \<open>The allocator: which sizes it can satisfy now, and what fresh memory contains.\<close>

record kheap =
  kmalloc_ok :: "nat \<Rightarrow> bool"
  kjunk :: "nat \<Rightarrow> byte"

definition fresh :: "kheap \<Rightarrow> nat \<Rightarrow> byte list" where
  "fresh h n = map (kjunk h) [0..<n]"

lemma length_fresh [simp]: "length (fresh h n) = n"
  by (simp add: fresh_def)

section \<open>drivers/mtd/mtdcore.c, drivers/mtd/maps/ralink-flash.c\<close>

definition get_mtd_device_nm :: "flash_dev \<Rightarrow> cstring \<Rightarrow> mtd_part option" where
  "get_mtd_device_nm d name = find (\<lambda>p. part_name p = name) (dev_table d)"

definition ra_mtd_read_nm :: "flash_dev \<Rightarrow> cstring \<Rightarrow> nat \<Rightarrow> nat \<Rightarrow> int \<times> byte list" where
  "ra_mtd_read_nm d name from len =
     (case get_mtd_device_nm d name of
        None \<Rightarrow> (- ENODEV, [])
      | Some p \<Rightarrow> part_read (dev_chip d) p from len)"

definition ra_mtd_write_nm ::
  "kheap \<Rightarrow> flash_dev \<Rightarrow> cstring \<Rightarrow> nat \<Rightarrow> byte list \<Rightarrow> (int \<times> flash_dev) outcome" where
  "ra_mtd_write_nm h d name to buf =
     (case get_mtd_device_nm d name of
        None \<Rightarrow> Ret (- ENODEV, d)
      | Some p \<Rightarrow>
          let erasesize = chip_sector (dev_chip d) in
          if length buf > erasesize then Ret (- E2BIG, d)
          else if \<not> kmalloc_ok h erasesize then Ret (- ENOMEM, d)
          else let (ret, got) = part_read (dev_chip d) p 0 erasesize in
            if ret \<noteq> 0 then Ret (ret, d)
            else if to + length buf > erasesize then Fault
            else let bak = patch (patch (fresh h erasesize) 0 got) to buf in
              obind (part_erase (dev_chip d) p 0 erasesize) (\<lambda>(ret, c).
                if ret \<noteq> 0 then Ret (ret, d\<lparr>dev_chip := c\<rparr>)
                else let (ret, _, c) = part_write c p 0 bak
                     in Ret (ret, d\<lparr>dev_chip := c\<rparr>)))"

section \<open>A partition in working order\<close>

definition part_ok :: "flash_dev \<Rightarrow> mtd_part \<Rightarrow> bool" where
  "part_ok d p = (chip_ok (dev_chip d) \<and> part_writeable p
     \<and> part_offset p mod chip_sector (dev_chip d) = 0
     \<and> chip_sector (dev_chip d) \<le> part_size p
     \<and> part_offset p + part_size p \<le> length (chip_mem (dev_chip d)))"

definition dev_ok :: "cstring \<Rightarrow> flash_dev \<Rightarrow> bool" where
  "dev_ok name d = (\<exists>p. get_mtd_device_nm d name = Some p \<and> part_ok d p)"

definition part_bytes :: "cstring \<Rightarrow> flash_dev \<Rightarrow> byte list" where
  "part_bytes name d =
     (case get_mtd_device_nm d name of
        None \<Rightarrow> []
      | Some p \<Rightarrow> window (chip_mem (dev_chip d)) (part_offset p) (part_size p))"

lemma get_mtd_device_nm_chip [simp]:
  "get_mtd_device_nm (d\<lparr>dev_chip := c\<rparr>) name = get_mtd_device_nm d name"
  by (simp add: get_mtd_device_nm_def)

lemma ra_mtd_read_nm_ok:
  assumes "dev_ok name d" and "from + len \<le> length (part_bytes name d)"
  shows "ra_mtd_read_nm d name from len = (0, window (part_bytes name d) from len)"
proof -
  obtain p where p: "get_mtd_device_nm d name = Some p" "part_ok d p"
    using assms(1) by (auto simp: dev_ok_def)
  let ?m = "chip_mem (dev_chip d)"
  have size: "length (part_bytes name d) = part_size p"
    using p by (simp add: part_bytes_def part_ok_def)
  have len': "(if from \<ge> part_size p then 0
      else if from + len > part_size p then part_size p - from else len) = len"
    using assms(2) size by auto
  have "ra_mtd_read_nm d name from len = ramtd_read (dev_chip d) (from + part_offset p) len"
    by (simp only: ra_mtd_read_nm_def part_read_def p(1) option.case Let_def len')
  also have "\<dots> = (0, window ?m (from + part_offset p) len)"
    using assms(2) p size by (intro ramtd_read_ok) (auto simp: part_ok_def)
  also have "window ?m (from + part_offset p) len = window (part_bytes name d) from len"
    by (rule nth_equalityI)
      (use assms(2) p size in \<open>auto simp: part_bytes_def part_ok_def nth_window add_ac\<close>)
  finally show ?thesis .
qed

text \<open>The rewrite of the erase block changes exactly the bytes written.\<close>

lemma patch_block:
  assumes "off + n \<le> length m" and "to + length buf \<le> n"
  shows "patch m off (patch (window m off n) to buf) = patch m (off + to) buf"
  by (rule nth_equalityI) (use assms in \<open>auto simp: nth_patch nth_window\<close>)

lemma patch_patch_same:
  "off + length b \<le> length m \<Longrightarrow> length a = length b \<Longrightarrow> patch (patch m off a) off b = patch m off b"
  by (rule nth_equalityI) (auto simp: nth_patch)

lemma window_patch_shift:
  assumes "off + n \<le> length m" and "to + length buf \<le> n"
  shows "window (patch m (off + to) buf) off n = patch (window m off n) to buf"
  by (rule nth_equalityI) (use assms in \<open>auto simp: nth_patch nth_window\<close>)

lemma ra_mtd_write_nm_ok:
  assumes p: "get_mtd_device_nm d name = Some p" "part_ok d p"
    and alloc: "kmalloc_ok h (chip_sector (dev_chip d))"
    and fits: "to + length buf \<le> chip_sector (dev_chip d)"
  shows "ra_mtd_write_nm h d name to buf
    = Ret (0, d\<lparr>dev_chip := (dev_chip d)
               \<lparr>chip_mem := patch (chip_mem (dev_chip d)) (part_offset p + to) buf\<rparr>\<rparr>)"
proof -
  let ?c = "dev_chip d" and ?m = "chip_mem (dev_chip d)" and ?off = "part_offset p"
  define es where "es = chip_sector ?c"
  define bak where "bak = patch (window ?m ?off es) to buf"
  have ok: "chip_ok ?c" "?off + es \<le> length ?m" "?off mod es = 0" "es \<le> part_size p" "0 < es"
    "part_writeable p" "?off < 2 ^ 32" "?off + part_size p \<le> length ?m"
    using p(2) chip_okD(4,5) [of ?c] by (auto simp: part_ok_def es_def)
  have rd: "part_read ?c p 0 es = (0, window ?m ?off es)"
    using ok by (simp add: part_read_def ramtd_read_ok)
  have len_bak: "length bak = es" using fits ok by (simp add: bak_def es_def)
  have er: "part_erase ?c p 0 es = Ret (0, ?c\<lparr>chip_mem := patch ?m ?off (replicate es 0xFF)\<rparr>)"
    using ok ramtd_erase_ok [of ?c ?off es] by (simp add: part_erase_def es_def)
  have wr: "part_write (?c\<lparr>chip_mem := patch ?m ?off (replicate es 0xFF)\<rparr>) p 0 bak
      = (0, es, ?c\<lparr>chip_mem := patch (patch ?m ?off (replicate es 0xFF)) ?off bak\<rparr>)"
  proof -
    have "window (patch ?m ?off (replicate es 0xFF)) ?off (length bak) = replicate (length bak) 0xFF"
      using window_patch_same [of ?off "replicate es 0xFF" ?m] ok(2) by (simp add: len_bak)
    then show ?thesis using ok len_bak
      by (simp add: part_write_def ramtd_write_ok)
  qed
  have "patch (patch ?m ?off (replicate es 0xFF)) ?off bak = patch ?m (?off + to) buf"
    using ok fits by (simp add: patch_patch_same len_bak) (simp add: bak_def patch_block es_def)
  moreover have "patch (patch (fresh h es) 0 (window ?m ?off es)) to buf = bak"
    using ok by (simp add: bak_def)
  ultimately show ?thesis
    using p(1) alloc fits rd er wr by (simp add: ra_mtd_write_nm_def Let_def flip: es_def)
qed

section \<open>The contract of a byte store\<close>

locale block_store =
  fixes rd :: "'s \<Rightarrow> nat \<Rightarrow> nat \<Rightarrow> (int \<times> byte list) outcome"
    and wr :: "'s \<Rightarrow> nat \<Rightarrow> byte list \<Rightarrow> (int \<times> 's) outcome"
    and bytes :: "'s \<Rightarrow> byte list"
    and limit :: "'s \<Rightarrow> nat"
    and ok :: "'s \<Rightarrow> bool"
  assumes rd_ok: "ok s \<Longrightarrow> off + len \<le> limit s \<Longrightarrow> \<exists>r. rd s off len = Ret (r, window (bytes s) off len)"
    and wr_ok: "ok s \<Longrightarrow> off + length buf \<le> limit s \<Longrightarrow>
      \<exists>r s'. wr s off buf = Ret (r, s') \<and> ok s' \<and> limit s' = limit s \<and> bytes s' = patch (bytes s) off buf"
    and limit_bytes: "ok s \<Longrightarrow> limit s \<le> length (bytes s)"
begin

text \<open>The way an NVRAM block is stored: a header, then the data right behind it.\<close>

lemma write_header_data:
  assumes "ok s" and "off + length hdr + length buf \<le> limit s"
  shows "\<exists>r1 s1 r2 s2. wr s off hdr = Ret (r1, s1) \<and> wr s1 (off + length hdr) buf = Ret (r2, s2)
    \<and> ok s2 \<and> limit s2 = limit s \<and> bytes s2 = patch (bytes s) off (hdr @ buf)"
proof -
  obtain r1 s1 where 1: "wr s off hdr = Ret (r1, s1)" "ok s1" "limit s1 = limit s"
    "bytes s1 = patch (bytes s) off hdr"
    using wr_ok [of s off hdr] assms by auto
  obtain r2 s2 where 2: "wr s1 (off + length hdr) buf = Ret (r2, s2)" "ok s2" "limit s2 = limit s1"
    "bytes s2 = patch (bytes s1) (off + length hdr) buf"
    using wr_ok [of s1 "off + length hdr" buf] assms 1 by auto
  have "bytes s2 = patch (bytes s) off (hdr @ buf)"
    using 1 2 assms limit_bytes [of s] by (simp add: patch_patch_adjacent)
  with 1 2 show ?thesis by auto
qed

lemma read_header_data:
  assumes "ok s" and "off + n + len \<le> limit s"
  obtains r1 r2 where "rd s off n = Ret (r1, window (bytes s) off n)"
    "rd s (off + n) len = Ret (r2, window (bytes s) (off + n) len)"
  using rd_ok [of s off n] rd_ok [of s "off + n" len] assms by auto

end

text \<open>The kernel's interface implements it up to the first erase block, the only one
  \<open>ra_mtd_write_nm\<close> can write.\<close>

definition mtd_limit :: "flash_dev \<Rightarrow> nat" where
  "mtd_limit d = chip_sector (dev_chip d)"

definition mtd_ok :: "kheap \<Rightarrow> cstring \<Rightarrow> flash_dev \<Rightarrow> bool" where
  "mtd_ok h name d = (dev_ok name d \<and> kmalloc_ok h (chip_sector (dev_chip d)))"

interpretation mtd: block_store
  "\<lambda>d from len. Ret (ra_mtd_read_nm d name from len)" "\<lambda>d. ra_mtd_write_nm h d name"
  "part_bytes name" mtd_limit "mtd_ok h name" for h name
proof
  fix d assume ok: "mtd_ok h name d"
  then obtain p where p: "get_mtd_device_nm d name = Some p" "part_ok d p"
    by (auto simp: mtd_ok_def dev_ok_def)
  show lim: "mtd_limit d \<le> length (part_bytes name d)"
    using p by (simp add: mtd_limit_def part_bytes_def part_ok_def)
  show "\<exists>r. Ret (ra_mtd_read_nm d name off len) = Ret (r, window (part_bytes name d) off len)"
    if "off + len \<le> mtd_limit d" for off len
    using ok lim that by (simp add: ra_mtd_read_nm_ok mtd_ok_def)
  show "\<exists>r s'. ra_mtd_write_nm h d name off buf = Ret (r, s') \<and> mtd_ok h name s'
      \<and> mtd_limit s' = mtd_limit d \<and> part_bytes name s' = patch (part_bytes name d) off buf"
    if fits: "off + length buf \<le> mtd_limit d" for off buf
  proof -
    let ?m = "chip_mem (dev_chip d)"
    let ?d' = "d\<lparr>dev_chip := (dev_chip d)\<lparr>chip_mem := patch ?m (part_offset p + off) buf\<rparr>\<rparr>"
    have wr: "ra_mtd_write_nm h d name off buf = Ret (0, ?d')"
      using ra_mtd_write_nm_ok [OF p] ok fits by (simp add: mtd_ok_def mtd_limit_def)
    have inside: "part_offset p + off + length buf \<le> length ?m"
      using p fits by (simp add: part_ok_def mtd_limit_def)
    have "part_bytes name ?d' = patch (part_bytes name d) off buf"
      using p fits by (simp add: part_bytes_def part_ok_def mtd_limit_def window_patch_shift)
    moreover have "mtd_ok h name ?d'"
      using ok p inside by (auto simp: mtd_ok_def dev_ok_def part_ok_def)
    ultimately show ?thesis using wr by (auto simp: mtd_limit_def)
  qed
qed

text \<open>Writing changes the contents of the chip and nothing else of the device.\<close>

definition same_board :: "flash_dev \<Rightarrow> flash_dev \<Rightarrow> bool" where
  "same_board d d' = (\<exists>m. length m = length (chip_mem (dev_chip d))
     \<and> d' = d\<lparr>dev_chip := (dev_chip d)\<lparr>chip_mem := m\<rparr>\<rparr>)"

lemma same_board_refl [simp]: "same_board d d"
  unfolding same_board_def by (rule exI [of _ "chip_mem (dev_chip d)"]) simp

lemma same_board_trans: "same_board d d' \<Longrightarrow> same_board d' d'' \<Longrightarrow> same_board d d''"
  by (auto simp: same_board_def)

lemma same_board_simps:
  assumes "same_board d d'"
  shows "dev_table d' = dev_table d" "mtd_limit d' = mtd_limit d" "mtd_ok h name d' = mtd_ok h name d"
    "get_mtd_device_nm d' name = get_mtd_device_nm d name" "chip_sector (dev_chip d') = chip_sector (dev_chip d)"
    "length (chip_mem (dev_chip d')) = length (chip_mem (dev_chip d))" "part_ok d' p = part_ok d p"
proof -
  obtain m where m: "d' = d\<lparr>dev_chip := (dev_chip d)\<lparr>chip_mem := m\<rparr>\<rparr>" "length m = length (chip_mem (dev_chip d))"
    using assms by (auto simp: same_board_def)
  show "dev_table d' = dev_table d" "mtd_limit d' = mtd_limit d" "chip_sector (dev_chip d') = chip_sector (dev_chip d)"
    "get_mtd_device_nm d' name = get_mtd_device_nm d name" "length (chip_mem (dev_chip d')) = length (chip_mem (dev_chip d))"
    "part_ok d' p = part_ok d p"
    using m by (simp_all add: mtd_limit_def part_ok_def get_mtd_device_nm_def)
  show "mtd_ok h name d' = mtd_ok h name d"
    using m by (simp add: mtd_ok_def dev_ok_def part_ok_def get_mtd_device_nm_def)
qed

lemma ra_mtd_write_nm_board:
  assumes "mtd_ok h name d" and "off + length buf \<le> mtd_limit d"
    and "ra_mtd_write_nm h d name off buf = Ret (r, d')"
  shows "same_board d d'"
proof -
  obtain p where p: "get_mtd_device_nm d name = Some p" "part_ok d p"
    using assms(1) by (auto simp: mtd_ok_def dev_ok_def)
  have "part_offset p + off + length buf \<le> length (chip_mem (dev_chip d))"
    using p(2) assms(2) by (simp add: part_ok_def mtd_limit_def)
  moreover have "d' = d\<lparr>dev_chip := (dev_chip d)\<lparr>chip_mem := patch (chip_mem (dev_chip d)) (part_offset p + off) buf\<rparr>\<rparr>"
    using ra_mtd_write_nm_ok [OF p] assms by (simp add: mtd_ok_def mtd_limit_def)
  ultimately show ?thesis unfolding same_board_def by (intro exI conjI) (auto simp: add.assoc)
qed

end
