(* ===== verification/KernelNvram.thy ===== *)
theory KernelNvram
  imports EnvBlock RaMtd
begin

text \<open>
  The NVRAM kernel module, arch/mips/rt2880/nvram.c: four environment blocks in the first
  erase sector of the \<open>Config\<close> partition, each mirrored by a cache in memory, all operations
  under one semaphore, and the \<open>/dev/nvram\<close> ioctl interface for user space.
  The state is \<open>fb[]\<close>, the semaphore, the operation counter and the flash device. Allocation
  failures come from the allocator \<open>h\<close> an operation runs under. Waiting for a semaphore that
  is taken is \<open>Blocked\<close>: the module's operations run to completion one at a time, so nobody
  else is there to release it.
\<close>

section \<open>State\<close>

record knv =
  fb :: "block_t list"
  nvram_sem :: bool
  counter :: u32
  kdev :: flash_dev

definition RALINK_NVRAM_MTDNAME :: cstring where
  "RALINK_NVRAM_MTDNAME = lit ''Config''"

definition fb_entry :: "string \<Rightarrow> nat \<Rightarrow> nat \<Rightarrow> block_t" where
  "fb_entry name off maxlen =
     \<lparr>b_name = lit name, env_crc = 0, env_data = None, cache = replicate MAX_CACHE_ENTRY empty_entry,
      flash_offset = off, flash_max_len = maxlen, valid = False, dirty = False\<rparr>"

text \<open>The initialiser of \<open>fb[]\<close>, and the state of the module before \<open>ra_nvram_init\<close>.\<close>

definition fb_init :: "block_t list" where
  "fb_init =
     [fb_entry ''2860'' 0x2000 (ENV_BLK_SIZE * 4), fb_entry ''rtdev'' 0x6000 (ENV_BLK_SIZE * 2),
      fb_entry ''cert'' 0x8000 (ENV_BLK_SIZE * 2), fb_entry ''wapi'' 0xa000 (ENV_BLK_SIZE * 5)]"

definition knv_start :: "flash_dev \<Rightarrow> knv" where
  "knv_start d = \<lparr>fb = fb_init, nvram_sem = True, counter = 0, kdev = d\<rparr>"

abbreviation index_ok :: "int \<Rightarrow> bool" where
  "index_ok index \<equiv> 0 \<le> index \<and> index < int FLASH_BLOCK_NUM"

text \<open>\<open>down(&nvram_sem)\<close> and \<open>up(&nvram_sem)\<close>.\<close>

definition down :: "knv \<Rightarrow> knv outcome" where
  "down s = (if nvram_sem s then Ret (s\<lparr>nvram_sem := False\<rparr>) else Blocked)"

definition up :: "knv \<Rightarrow> knv" where
  "up s = s\<lparr>nvram_sem := True\<rparr>"

definition upd_fb :: "nat \<Rightarrow> (block_t \<Rightarrow> block_t) \<Rightarrow> knv \<Rightarrow> knv" where
  "upd_fb i f s = s\<lparr>fb := (fb s)[i := f (fb s ! i)]\<rparr>"

abbreviation data_len :: "block_t \<Rightarrow> nat" where
  "data_len b \<equiv> flash_max_len b - CRC_SIZE"

section \<open>Loading a block\<close>

text \<open>\<open>init_nvram_block\<close>: the reads ignore the return codes of the flash layer, so bytes that
  were not transferred keep what the memory held.\<close>

definition init_nvram_block :: "kheap \<Rightarrow> knv \<Rightarrow> int \<Rightarrow> (int \<times> knv) outcome" where
  "init_nvram_block h s index =
     (if \<not> index_ok index then Ret (- 1, s)
      else let i = nat index; b = fb s ! i in
        if valid b then Ret (- EINVAL, s)
        else
          let got = snd (ra_mtd_read_nm (kdev s) RALINK_NVRAM_MTDNAME (flash_offset b) CRC_SIZE);
              crc = crc_of_bytes (patch (crc_bytes (env_crc b)) 0 got);
              len = data_len b
          in
          if \<not> kmalloc_ok h len then
            Ret (- ENOMEM, upd_fb i (\<lambda>b. b\<lparr>env_crc := crc, env_data := None\<rparr>) s)
          else
            let got = snd (ra_mtd_read_nm (kdev s) RALINK_NVRAM_MTDNAME (flash_offset b + CRC_SIZE) len);
                data = patch (fresh h len) 0 got
            in obind (nv_crc32 0 (Some data) len) (\<lambda>sum.
              if sum \<noteq> crc then
                Ret (- 1, upd_fb i (\<lambda>b. b\<lparr>env_crc := crc, env_data := Some (replicate len 0),
                                         valid := True, dirty := False\<rparr>) s)
              else obind (parse_env MAX_CACHE_ENTRY len data) (\<lambda>(kvs, data').
                Ret (0, upd_fb i (\<lambda>b. b\<lparr>env_crc := crc, env_data := Some data',
                                        cache := fill_cache (kmalloc_ok h) (cache b) kvs,
                                        valid := True, dirty := False\<rparr>) s))))"

text \<open>The macro \<open>RANV_CHECK_VALID\<close>: the result of the load is not looked at.\<close>

definition RANV_CHECK_VALID :: "kheap \<Rightarrow> knv \<Rightarrow> int \<Rightarrow> knv outcome" where
  "RANV_CHECK_VALID h s index =
     (if valid (fb s ! nat index) then Ret s
      else obind (init_nvram_block h s index) (\<lambda>(_, s). Ret s))"

fun init_blocks :: "kheap \<Rightarrow> int list \<Rightarrow> knv \<Rightarrow> knv outcome" where
  "init_blocks h [] s = Ret s"
| "init_blocks h (i # is) s = obind (init_nvram_block h s i) (\<lambda>(_, s). init_blocks h is s)"

text \<open>\<open>ra_nvram_init\<close>, with the result \<open>r\<close> of \<open>register_chrdev\<close>.\<close>

definition ra_nvram_init :: "kheap \<Rightarrow> int \<Rightarrow> knv \<Rightarrow> (int \<times> knv) outcome" where
  "ra_nvram_init h r s =
     (if r < 0 then Ret (r, s)
      else obind (down (s\<lparr>nvram_sem := True\<rparr>)) (\<lambda>s.
           obind (init_blocks h [0, 1, 2, 3] s) (\<lambda>s. Ret (0, up s))))"

section \<open>Operations\<close>

definition ra_nvram_close :: "knv \<Rightarrow> int \<Rightarrow> (int \<times> knv) outcome" where
  "ra_nvram_close s index =
     (if \<not> index_ok index then Ret (- 1, s)
      else if \<not> valid (fb s ! nat index) then Ret (0, s)
      else obind (down s) (\<lambda>s.
           Ret (0, up (upd_fb (nat index) (\<lambda>b. b\<lparr>cache := clear_cache (cache b)\<rparr>) s))))"

text \<open>\<open>if (!fb[index].env.data) \<dots> kmalloc\<close>: \<open>None\<close> is the failed allocation. Every caller
  overwrites the buffer next (\<open>memset\<close>).\<close>

definition ensure_data :: "kheap \<Rightarrow> block_t \<Rightarrow> byte list option" where
  "ensure_data h b =
     (case env_data b of
        Some d \<Rightarrow> Some d
      | None \<Rightarrow> if kmalloc_ok h (data_len b) then Some (fresh h (data_len b)) else None)"

text \<open>\<open>memset(p, c, len)\<close>.\<close>

definition memset :: "byte list \<Rightarrow> byte \<Rightarrow> nat \<Rightarrow> byte list outcome" where
  "memset p c len = (if len \<le> length p then Ret (patch p 0 (replicate len c)) else Fault)"

text \<open>The second half of \<open>nvram_commit\<close> and \<open>nvram_clear\<close>: the checksum, then header and
  data to flash (return codes ignored), then the dirty flag.\<close>

definition store_block :: "kheap \<Rightarrow> knv \<Rightarrow> nat \<Rightarrow> byte list \<Rightarrow> knv outcome" where
  "store_block h s i d =
     (let b = fb s ! i; len = data_len b in
      obind (nv_crc32 0 (Some d) len) (\<lambda>crc.
      obind (ra_mtd_write_nm h (kdev s) RALINK_NVRAM_MTDNAME (flash_offset b) (crc_bytes crc)) (\<lambda>(_, dev).
      obind (ra_mtd_write_nm h dev RALINK_NVRAM_MTDNAME (flash_offset b + CRC_SIZE) (take len d)) (\<lambda>(_, dev).
      Ret (upd_fb i (\<lambda>b. b\<lparr>env_crc := crc, env_data := Some d, dirty := False\<rparr>) (s\<lparr>kdev := dev\<rparr>))))))"

definition nvram_clear :: "kheap \<Rightarrow> knv \<Rightarrow> int \<Rightarrow> (int \<times> knv) outcome" where
  "nvram_clear h s index =
     (if \<not> index_ok index then Ret (- 1, s)
      else obind (ra_nvram_close s index) (\<lambda>(_, s).
           obind (down s) (\<lambda>s.
           let i = nat index; len = data_len (fb s ! i) in
           case ensure_data h (fb s ! i) of
             None \<Rightarrow> Ret (- ENOMEM, s)
           | Some d \<Rightarrow>
               obind (memset d 0xFF len) (\<lambda>d.
               obind (store_block h s i d) (\<lambda>s. Ret (0, up s))))))"

definition nvram_commit :: "kheap \<Rightarrow> knv \<Rightarrow> int \<Rightarrow> (int \<times> knv) outcome" where
  "nvram_commit h s index =
     (if \<not> index_ok index then Ret (- 1, s)
      else obind (down s) (\<lambda>s.
           obind (RANV_CHECK_VALID h s index) (\<lambda>s.
           let s = s\<lparr>counter := counter s + 1\<rparr>; i = nat index; b = fb s ! i; len = data_len b in
           if \<not> dirty b then Ret (0, up s)
           else case ensure_data h b of
             None \<Rightarrow> Ret (- ENOMEM, s)
           | Some d \<Rightarrow>
               obind (memset d 0 len) (\<lambda>d.
               obind (build_env (flash_max_len b) (cache b) 0 d) (\<lambda>(fin, d).
               if \<not> fin then Ret (- 1, up (upd_fb i (\<lambda>b. b\<lparr>env_data := Some d\<rparr>) s))
               else obind (store_block h s i d) (\<lambda>s. Ret (0, up s)))))))"

definition nvram_set :: "kheap \<Rightarrow> knv \<Rightarrow> int \<Rightarrow> cstring \<Rightarrow> cstring \<Rightarrow> (int \<times> knv) outcome" where
  "nvram_set h s index name val =
     (if \<not> index_ok index then Ret (- 1, s)
      else obind (down s) (\<lambda>s.
           obind (RANV_CHECK_VALID h s index) (\<lambda>s.
           let s = s\<lparr>counter := counter s + 1\<rparr>; i = nat index;
               (r, es) = cache_set (kmalloc_ok h) (cache (fb s ! i)) name val in
           if r = - 1 then Ret (- 1, up s)
           else Ret (0, up (upd_fb i (\<lambda>b. b\<lparr>cache := es, dirty := True\<rparr>) s)))))"

definition nvram_get :: "kheap \<Rightarrow> knv \<Rightarrow> int \<Rightarrow> cstring \<Rightarrow> (cstring option \<times> knv) outcome" where
  "nvram_get h s index name =
     (if \<not> index_ok index then Ret (None, s)
      else obind (down s) (\<lambda>s.
           obind (RANV_CHECK_VALID h s index) (\<lambda>s.
           let s = s\<lparr>counter := counter s + 1\<rparr>
           in Ret (cache_get (cache (fb s ! nat index)) name, up s))))"

text \<open>\<open>nvram_getall(index, buf)\<close> for its only call, \<open>buf = fb[index].env.data\<close> read before the
  call: the text is built in the block's own buffer. A NULL \<open>buf\<close> makes the loop subtract
  unrelated pointers or store through NULL, a fault either way.\<close>

definition nvram_getall :: "kheap \<Rightarrow> knv \<Rightarrow> int \<Rightarrow> byte list option \<Rightarrow> (int \<times> knv) outcome" where
  "nvram_getall h s index buf =
     (if \<not> index_ok index then Ret (- 1, s)
      else obind (down s) (\<lambda>s.
           obind (RANV_CHECK_VALID h s index) (\<lambda>s.
           let i = nat index; b = fb s ! i; len = data_len b in
           case ensure_data h b of
             None \<Rightarrow> Ret (- ENOMEM, s)
           | Some d \<Rightarrow>
               if buf = None then Fault
               else obind (memset d 0 len) (\<lambda>d.
                    obind (build_env (flash_max_len b) (cache b) 0 d) (\<lambda>(fin, d).
                    Ret (if fin then 0 else - 1,
                         up (upd_fb i (\<lambda>b. b\<lparr>env_data := Some d\<rparr>) s)))))))"

section \<open>Module exit\<close>

text \<open>One round of the loop of \<open>ra_nvram_exit\<close>; a freed buffer is \<open>None\<close>.\<close>

definition exit_block :: "kheap \<Rightarrow> knv \<Rightarrow> int \<Rightarrow> knv outcome" where
  "exit_block h s index =
     obind (if dirty (fb s ! nat index) then nvram_commit h s index else Ret (0, s)) (\<lambda>(_, s).
     obind (ra_nvram_close s index) (\<lambda>(_, s).
     Ret (upd_fb (nat index) (\<lambda>b. b\<lparr>valid := False, env_data := None\<rparr>) s)))"

fun exit_blocks :: "kheap \<Rightarrow> int list \<Rightarrow> knv \<Rightarrow> knv outcome" where
  "exit_blocks h [] s = Ret s"
| "exit_blocks h (i # is) s = obind (exit_block h s i) (exit_blocks h is)"

definition ra_nvram_exit :: "kheap \<Rightarrow> knv \<Rightarrow> knv outcome" where
  "ra_nvram_exit h s = exit_blocks h [0, 1, 2, 3] s"

section \<open>The ioctl interface\<close>

text \<open>The request a process passes: \<open>io_value\<close> is the process's memory from the value pointer
  to the end of its mapping, \<open>io_user\<close> tells whether the pointer lies in user space.\<close>

record nvram_ioctl_t =
  io_index :: int
  io_name :: cstring
  io_value :: "byte list"
  io_user :: bool

abbreviation (input) RALINK_NVRAM_IOCTL_GET :: nat where "RALINK_NVRAM_IOCTL_GET \<equiv> 1"
abbreviation (input) RALINK_NVRAM_IOCTL_GETALL :: nat where "RALINK_NVRAM_IOCTL_GETALL \<equiv> 2"
abbreviation (input) RALINK_NVRAM_IOCTL_SET :: nat where "RALINK_NVRAM_IOCTL_SET \<equiv> 3"
abbreviation (input) RALINK_NVRAM_IOCTL_COMMIT :: nat where "RALINK_NVRAM_IOCTL_COMMIT \<equiv> 4"
abbreviation (input) RALINK_NVRAM_IOCTL_CLEAR :: nat where "RALINK_NVRAM_IOCTL_CLEAR \<equiv> 5"

definition copy_to_user :: "nvram_ioctl_t \<Rightarrow> byte list \<Rightarrow> int \<times> nvram_ioctl_t" where
  "copy_to_user nvr d =
     (if io_user nvr \<and> length d \<le> length (io_value nvr)
      then (0, nvr\<lparr>io_value := patch (io_value nvr) 0 d\<rparr>) else (- EFAULT, nvr))"

definition ralink_nvram_ioctl ::
  "kheap \<Rightarrow> knv \<Rightarrow> nat \<Rightarrow> nvram_ioctl_t \<Rightarrow> (int \<times> nvram_ioctl_t \<times> knv) outcome" where
  "ralink_nvram_ioctl h s req nvr =
     (if req = RALINK_NVRAM_IOCTL_GET then
        obind (nvram_get h s (io_index nvr) (io_name nvr)) (\<lambda>(p, s).
        let (r, nvr) = copy_to_user nvr ((case p of None \<Rightarrow> [] | Some v \<Rightarrow> v) @ [NUL])
        in Ret (r, nvr, s))
      else if req = RALINK_NVRAM_IOCTL_GETALL then
        (if \<not> index_ok (io_index nvr) then Fault
         else let i = nat (io_index nvr); len = data_len (fb s ! i) in
           obind (nvram_getall h s (io_index nvr) (env_data (fb s ! i))) (\<lambda>(r, s).
           if r = 0 then
             (case env_data (fb s ! i) of
                None \<Rightarrow> Fault
              | Some d \<Rightarrow> let (r, nvr) = copy_to_user nvr (take len d) in Ret (r, nvr, s))
           else Ret (0, nvr, s)))
      else if req = RALINK_NVRAM_IOCTL_SET then
        (if \<not> kmalloc_ok h MAX_VALUE_LEN then Ret (- ENOMEM, nvr, s)
         else case strchr NUL (io_value nvr) of
           Some (Some n) \<Rightarrow>
             if \<not> io_user nvr then Ret (- EFAULT, nvr, s)
             else if n + 1 > MAX_VALUE_LEN then Fault
             else obind (nvram_set h s (io_index nvr) (io_name nvr) (take n (io_value nvr))) (\<lambda>(_, s).
                  Ret (0, nvr, s))
         | _ \<Rightarrow> Fault)
      else if req = RALINK_NVRAM_IOCTL_COMMIT then
        obind (nvram_commit h s (io_index nvr)) (\<lambda>(_, s). Ret (0, nvr, s))
      else if req = RALINK_NVRAM_IOCTL_CLEAR then
        obind (nvram_clear h s (io_index nvr)) (\<lambda>(_, s). Ret (0, nvr, s))
      else Ret (0, nvr, s))"

section \<open>The invariant\<close>

definition heap_ok :: "kheap \<Rightarrow> bool" where
  "heap_ok h = (\<forall>n. kmalloc_ok h n)"

definition layout :: "(nat \<times> nat) list" where
  "layout = [(0x2000, 0x4000), (0x6000, 0x2000), (0x8000, 0x2000), (0xa000, 0x5000)]"

text \<open>The \<open>Config\<close> partition works and its first erase sector holds all four blocks.\<close>

definition config_ok :: "kheap \<Rightarrow> flash_dev \<Rightarrow> bool" where
  "config_ok h d = (heap_ok h \<and> mtd_ok h RALINK_NVRAM_MTDNAME d \<and> 0xf000 \<le> mtd_limit d)"

definition blocks_at :: "block_t list \<Rightarrow> bool" where
  "blocks_at bl = (map (\<lambda>b. (flash_offset b, flash_max_len b)) bl = layout)"

definition block_ok :: "block_t \<Rightarrow> bool" where
  "block_ok b = (valid b \<and> cache_wf (cache b) \<and> map_option length (env_data b) = Some (data_len b))"

definition knv_ok :: "kheap \<Rightarrow> knv \<Rightarrow> bool" where
  "knv_ok h s = (blocks_at (fb s) \<and> (\<forall>b \<in> set (fb s). block_ok b) \<and> nvram_sem s \<and> config_ok h (kdev s))"

text \<open>The two views of the data: what the cache holds, and what a block of flash decodes to
  (\<open>Some []\<close> for a bad checksum, \<open>None\<close> when the parser runs off the block).\<close>

definition ram :: "knv \<Rightarrow> nat \<Rightarrow> (cstring \<times> cstring) list" where
  "ram s i = entries (cache (fb s ! i))"

definition decode_block :: "byte list \<Rightarrow> nat \<Rightarrow> nat \<Rightarrow> (cstring \<times> cstring) list option" where
  "decode_block flash off maxlen =
     (let crc = crc_of_bytes (window flash off CRC_SIZE);
          len = maxlen - CRC_SIZE;
          data = window flash (off + CRC_SIZE) len
      in if crc32_spec data \<noteq> crc then Some []
         else case parse_env MAX_CACHE_ENTRY len data of Ret (kvs, _) \<Rightarrow> Some kvs | _ \<Rightarrow> None)"

definition encode_block :: "nat \<Rightarrow> (cstring \<times> cstring) list \<Rightarrow> byte list" where
  "encode_block maxlen kvs =
     (let data = env_image (maxlen - CRC_SIZE) kvs in crc_bytes (crc32_spec data) @ data)"

definition rom :: "flash_dev \<Rightarrow> nat \<Rightarrow> (cstring \<times> cstring) list option" where
  "rom d i = decode_block (part_bytes RALINK_NVRAM_MTDNAME d) (fst (layout ! i)) (snd (layout ! i))"

subsection \<open>Blocks and states\<close>

lemma upd_fb_simps [simp]:
  "length (fb (upd_fb i f s)) = length (fb s)" "nvram_sem (upd_fb i f s) = nvram_sem s"
  "counter (upd_fb i f s) = counter s" "kdev (upd_fb i f s) = kdev s"
  "i < length (fb s) \<Longrightarrow> fb (upd_fb i f s) ! j = (if j = i then f (fb s ! i) else fb s ! j)"
  by (auto simp: upd_fb_def nth_list_update)

lemma up_simps [simp]:
  "fb (up s) = fb s" "nvram_sem (up s)" "counter (up s) = counter s" "kdev (up s) = kdev s"
  by (simp_all add: up_def)

lemma layout_bounds:
  assumes "i < 4"
  shows "fst (layout ! i) + snd (layout ! i) \<le> 0xf000" "CRC_SIZE + 0x1000 < snd (layout ! i)"
proof -
  have "i = 0 \<or> i = 1 \<or> i = 2 \<or> i = 3" using assms by auto
  then show "fst (layout ! i) + snd (layout ! i) \<le> 0xf000" "CRC_SIZE + 0x1000 < snd (layout ! i)"
    by (auto simp: layout_def)
qed

lemma layout_disjoint:
  assumes "i < 4" "j < 4" "i \<noteq> j"
  shows "fst (layout ! i) + snd (layout ! i) \<le> fst (layout ! j)
    \<or> fst (layout ! j) + snd (layout ! j) \<le> fst (layout ! i)"
proof -
  have "i = 0 \<or> i = 1 \<or> i = 2 \<or> i = 3" "j = 0 \<or> j = 1 \<or> j = 2 \<or> j = 3" using assms by auto
  then show ?thesis using assms(3) by (auto simp: layout_def)
qed

lemma blocks_atD:
  assumes "blocks_at bl"
  shows "length bl = 4" "i < 4 \<Longrightarrow> flash_offset (bl ! i) = fst (layout ! i)"
    "i < 4 \<Longrightarrow> flash_max_len (bl ! i) = snd (layout ! i)"
proof -
  have m: "map (\<lambda>b. (flash_offset b, flash_max_len b)) bl = layout"
    using assms by (simp add: blocks_at_def)
  then have "length (map (\<lambda>b. (flash_offset b, flash_max_len b)) bl) = length layout" by simp
  then show len: "length bl = 4" by (simp add: layout_def)
  assume "i < 4"
  with len have "(flash_offset (bl ! i), flash_max_len (bl ! i)) = layout ! i" by (simp flip: m)
  then show "flash_offset (bl ! i) = fst (layout ! i)" "flash_max_len (bl ! i) = snd (layout ! i)"
    by (simp_all flip: \<open>_ = layout ! i\<close>)
qed

lemma blocks_at_update:
  assumes "blocks_at bl" and "i < 4"
    and "flash_offset b = flash_offset (bl ! i)" "flash_max_len b = flash_max_len (bl ! i)"
  shows "blocks_at (bl[i := b])"
proof -
  have "map (\<lambda>b. (flash_offset b, flash_max_len b)) (bl[i := b])
      = map (\<lambda>b. (flash_offset b, flash_max_len b)) bl"
    using assms by (simp add: map_update list_update_same_conv blocks_atD)
  then show ?thesis using assms(1) by (simp add: blocks_at_def)
qed

lemma index_okE:
  assumes "index_ok index"
  obtains i where "nat index = i" "i < 4" "index = int i"
  using assms that [of "nat index"] by simp

subsection \<open>Flash contents\<close>

lemma config_okD:
  assumes "config_ok h d"
  shows "heap_ok h" "kmalloc_ok h n" "mtd_ok h RALINK_NVRAM_MTDNAME d" "0xf000 \<le> mtd_limit d"
  using assms by (auto simp: config_ok_def heap_ok_def)

lemma config_bytes: "config_ok h d \<Longrightarrow> 0xf000 \<le> length (part_bytes RALINK_NVRAM_MTDNAME d)"
  using mtd.limit_bytes [of h _ d] by (fastforce dest: config_okD)

lemma config_read:
  assumes "config_ok h d" and "off + len \<le> 0xf000"
  shows "snd (ra_mtd_read_nm d RALINK_NVRAM_MTDNAME off len) = window (part_bytes RALINK_NVRAM_MTDNAME d) off len"
  using mtd.rd_ok [OF config_okD(3) [OF assms(1)], of off len] config_okD(4) [OF assms(1)] assms(2) by auto

lemma parse_env_not_Blocked [simp]: "parse_env k len rest \<noteq> Blocked"
  by (induction k len rest rule: parse_env.induct)
    (auto simp: Let_def obind_Blocked_conv split: option.splits)

lemma fill_cache_ok:
  "heap_ok h \<Longrightarrow> length kvs \<le> MAX_CACHE_ENTRY \<Longrightarrow>
   fill_cache (kmalloc_ok h) (cache_of []) kvs = cache_of kvs"
  by (auto simp: fill_cache_def cache_of_def heap_ok_def dup_def full_entry_def)

text \<open>Loading a block from a working flash, with the two reads resolved.\<close>

lemma init_nvram_block_run:
  assumes cfg: "config_ok h (kdev s)" and bl: "blocks_at (fb s)" and i: "i < 4"
    and inv: "\<not> valid (fb s ! i)"
  defines "fl \<equiv> part_bytes RALINK_NVRAM_MTDNAME (kdev s)" and "len \<equiv> data_len (fb s ! i)"
  defines "crc \<equiv> crc_of_bytes (window fl (fst (layout ! i)) CRC_SIZE)"
    and "data \<equiv> window fl (fst (layout ! i) + CRC_SIZE) len"
  shows "init_nvram_block h s (int i) =
     (if crc32_spec data \<noteq> crc then
        Ret (- 1, upd_fb i (\<lambda>b. b\<lparr>env_crc := crc, env_data := Some (replicate len 0),
                                 valid := True, dirty := False\<rparr>) s)
      else obind (parse_env MAX_CACHE_ENTRY len data) (\<lambda>(kvs, data').
        Ret (0, upd_fb i (\<lambda>b. b\<lparr>env_crc := crc, env_data := Some data',
          cache := fill_cache (kmalloc_ok h) (cache b) kvs, valid := True, dirty := False\<rparr>) s)))"
    and "length data = len" and "rom (kdev s) i = (if crc32_spec data \<noteq> crc then Some []
      else case parse_env MAX_CACHE_ENTRY len data of Ret (kvs, _) \<Rightarrow> Some kvs | _ \<Rightarrow> None)"
proof -
  have lay: "flash_offset (fb s ! i) = fst (layout ! i)" "len = snd (layout ! i) - CRC_SIZE"
    "fst (layout ! i) + CRC_SIZE + len \<le> 0xf000"
    using layout_bounds [OF i] blocks_atD [OF bl] i by (auto simp: len_def)
  have bnd: "fst (layout ! i) + CRC_SIZE + len \<le> length fl"
    using lay config_bytes [OF cfg] by (simp add: fl_def)
  show len: "length data = len" using bnd by (simp add: data_def)
  have rd: "patch (crc_bytes (env_crc (fb s ! i))) 0 (window fl (fst (layout ! i)) CRC_SIZE)
      = window fl (fst (layout ! i)) CRC_SIZE" "patch (fresh h len) 0 data = data"
    using bnd len by simp_all
  show "init_nvram_block h s (int i) =
     (if crc32_spec data \<noteq> crc then
        Ret (- 1, upd_fb i (\<lambda>b. b\<lparr>env_crc := crc, env_data := Some (replicate len 0),
                                 valid := True, dirty := False\<rparr>) s)
      else obind (parse_env MAX_CACHE_ENTRY len data) (\<lambda>(kvs, data').
        Ret (0, upd_fb i (\<lambda>b. b\<lparr>env_crc := crc, env_data := Some data',
          cache := fill_cache (kmalloc_ok h) (cache b) kvs, valid := True, dirty := False\<rparr>) s)))"
    using i inv lay rd len
    by (simp add: init_nvram_block_def Let_def config_okD [OF cfg] config_read [OF cfg]
        nv_crc32_data crc_def data_def flip: fl_def len_def)
  show "rom (kdev s) i = (if crc32_spec data \<noteq> crc then Some []
      else case parse_env MAX_CACHE_ENTRY len data of Ret (kvs, _) \<Rightarrow> Some kvs | _ \<Rightarrow> None)"
    by (simp only: rom_def decode_block_def Let_def crc_def data_def lay fl_def)
qed

text \<open>The cache, still empty, receives what the block decodes to; the module faults exactly
  on data its parser cannot leave.\<close>

lemma init_nvram_block_ok:
  assumes cfg: "config_ok h (kdev s)" and bl: "blocks_at (fb s)" and i: "i < 4"
    and inv: "\<not> valid (fb s ! i)" and emp: "cache (fb s ! i) = cache_of []"
    and dec: "rom (kdev s) i = Some kvs"
  shows "\<exists>r crc d. init_nvram_block h s (int i) = Ret (r, upd_fb i (\<lambda>b. b\<lparr>env_crc := crc,
      env_data := Some d, cache := cache_of kvs, valid := True, dirty := False\<rparr>) s)
    \<and> length d = data_len (fb s ! i) \<and> length kvs \<le> MAX_CACHE_ENTRY"
proof -
  note run = init_nvram_block_run [OF cfg bl i inv]
  let ?fl = "part_bytes RALINK_NVRAM_MTDNAME (kdev s)" and ?len = "data_len (fb s ! i)"
  let ?crc = "crc_of_bytes (window ?fl (fst (layout ! i)) CRC_SIZE)"
  let ?data = "window ?fl (fst (layout ! i) + CRC_SIZE) ?len"
  show ?thesis
  proof (cases "crc32_spec ?data \<noteq> ?crc")
    case True
    then have "kvs = []" using dec run(3) by simp
    then have "upd_fb i (\<lambda>b. b\<lparr>env_crc := ?crc, env_data := Some (replicate ?len 0),
          valid := True, dirty := False\<rparr>) s
        = upd_fb i (\<lambda>b. b\<lparr>env_crc := ?crc, env_data := Some (replicate ?len 0), cache := cache_of kvs,
            valid := True, dirty := False\<rparr>) s"
      using emp by (cases "fb s ! i") (simp add: upd_fb_def)
    with True run(1) \<open>kvs = []\<close> show ?thesis by force
  next
    case False
    then obtain d where d: "parse_env MAX_CACHE_ENTRY ?len ?data = Ret (kvs, d)"
      using dec run(3) by (auto split: outcome.splits)
    with parse_env_length [OF d] run(2) have "length d = ?len" "length kvs \<le> MAX_CACHE_ENTRY" by simp_all
    moreover from this have "fill_cache (kmalloc_ok h) (cache (fb s ! i)) kvs = cache_of kvs"
      using emp fill_cache_ok config_okD(1) [OF cfg] by simp
    ultimately show ?thesis using False run(1) d by (auto simp: upd_fb_def)
  qed
qed

lemma init_nvram_block_fault:
  assumes "config_ok h (kdev s)" and "blocks_at (fb s)" and "i < 4"
    and "\<not> valid (fb s ! i)" and "rom (kdev s) i = None"
  shows "init_nvram_block h s (int i) = Fault"
  using init_nvram_block_run [OF assms(1-4)] assms(5)
  by (auto split: outcome.splits if_splits)

text \<open>Storing a block writes its header and data and nothing else.\<close>

lemma store_block_ok:
  assumes cfg: "config_ok h (kdev s)" and bl: "blocks_at (fb s)" and i: "i < 4"
    and len: "length d = data_len (fb s ! i)"
  shows "\<exists>dev. store_block h s i d = Ret (upd_fb i (\<lambda>b. b\<lparr>env_crc := crc32_spec d,
      env_data := Some d, dirty := False\<rparr>) (s\<lparr>kdev := dev\<rparr>)) \<and> config_ok h dev
    \<and> part_bytes RALINK_NVRAM_MTDNAME dev = patch (part_bytes RALINK_NVRAM_MTDNAME (kdev s))
        (flash_offset (fb s ! i)) (crc_bytes (crc32_spec d) @ d)"
proof -
  let ?off = "flash_offset (fb s ! i)"
  have "?off + length (crc_bytes (crc32_spec d)) + length d \<le> mtd_limit (kdev s)"
    using layout_bounds [OF i] blocks_atD [OF bl] i len config_okD(4) [OF cfg] by simp
  from mtd.write_header_data [OF config_okD(3) [OF cfg] this] obtain r1 s1 r2 s2
    where w: "ra_mtd_write_nm h (kdev s) RALINK_NVRAM_MTDNAME ?off (crc_bytes (crc32_spec d)) = Ret (r1, s1)"
      "ra_mtd_write_nm h s1 RALINK_NVRAM_MTDNAME (?off + CRC_SIZE) d = Ret (r2, s2)"
      and s2: "mtd_ok h RALINK_NVRAM_MTDNAME s2" "mtd_limit s2 = mtd_limit (kdev s)"
      "part_bytes RALINK_NVRAM_MTDNAME s2 = patch (part_bytes RALINK_NVRAM_MTDNAME (kdev s)) ?off
        (crc_bytes (crc32_spec d) @ d)"
    by auto
  have "config_ok h s2" using s2 cfg by (simp add: config_ok_def)
  moreover have "store_block h s i d = Ret (upd_fb i (\<lambda>b. b\<lparr>env_crc := crc32_spec d,
      env_data := Some d, dirty := False\<rparr>) (s\<lparr>kdev := s2\<rparr>))"
    using w len by (simp add: store_block_def Let_def nv_crc32_data)
  ultimately show ?thesis using s2(3) by blast
qed

lemma store_block_board:
  assumes cfg: "config_ok h (kdev s)" and bl: "blocks_at (fb s)" and i: "i < 4"
    and len: "length d = data_len (fb s ! i)" and run: "store_block h s i d = Ret s'"
  shows "same_board (kdev s) (kdev s')"
proof -
  let ?off = "flash_offset (fb s ! i)" and ?c = "crc_bytes (crc32_spec d)"
  have lim: "?off + length ?c \<le> mtd_limit (kdev s)" "?off + CRC_SIZE + length d \<le> mtd_limit (kdev s)"
    using layout_bounds [OF i] blocks_atD [OF bl] i len config_okD(4) [OF cfg] by simp_all
  obtain r1 d1 r2 d2 where w: "ra_mtd_write_nm h (kdev s) RALINK_NVRAM_MTDNAME ?off ?c = Ret (r1, d1)"
    "ra_mtd_write_nm h d1 RALINK_NVRAM_MTDNAME (?off + CRC_SIZE) d = Ret (r2, d2)" "kdev s' = d2"
    using run len by (auto simp: store_block_def Let_def nv_crc32_data outcome_simps)
  have b1: "same_board (kdev s) d1"
    using ra_mtd_write_nm_board [OF config_okD(3) [OF cfg] lim(1) w(1)] .
  have "same_board d1 d2"
    using ra_mtd_write_nm_board [OF _ _ w(2)] lim(2) config_okD(3) [OF cfg] by (simp add: same_board_simps [OF b1])
  with b1 w(3) show ?thesis using same_board_trans by blast
qed

lemma decode_encode:
  assumes "\<forall>kv \<in> set kvs. kv_ok kv" and "length kvs \<le> MAX_CACHE_ENTRY"
    and fits: "length (env_text kvs) < maxlen - CRC_SIZE" and "off + maxlen \<le> length fl"
  shows "decode_block (patch fl off (encode_block maxlen kvs)) off maxlen = Some kvs"
proof -
  let ?d = "env_image (maxlen - CRC_SIZE) kvs"
  let ?c = "crc_bytes (crc32_spec ?d)"
  have len: "length ?d = maxlen - CRC_SIZE" using fits by simp
  have "window (patch fl off (?c @ ?d)) off CRC_SIZE = ?c"
    "window (patch fl off (?c @ ?d)) (off + CRC_SIZE) (maxlen - CRC_SIZE) = ?d"
    using assms(4) fits len by (auto simp: window_def patch_def)
  moreover obtain d' where "parse_env MAX_CACHE_ENTRY (maxlen - CRC_SIZE) ?d = Ret (kvs, d')"
    using parse_env_image [of kvs "maxlen - CRC_SIZE"] assms by auto
  ultimately show ?thesis by (simp add: decode_block_def encode_block_def Let_def)
qed

text \<open>A block of ones under a matching checksum, which \<open>nvram_clear\<close> writes, has neither \<open>=\<close>
  nor NUL: the search for \<open>=\<close> does not stop inside the block.\<close>

lemma strchr_ones: "c \<noteq> 0xFF \<Longrightarrow> strchr c (replicate n 0xFF) = None"
  by (induction n) auto

lemma erased_block_undecodable:
  assumes "off + maxlen \<le> length fl" and "CRC_SIZE \<le> maxlen"
  shows "decode_block (patch fl off (crc_bytes (crc32_spec (replicate (maxlen - CRC_SIZE) 0xFF))
    @ replicate (maxlen - CRC_SIZE) 0xFF)) off maxlen = None"
proof -
  let ?d = "replicate (maxlen - CRC_SIZE) 0xFF :: byte list"
  let ?c = "crc_bytes (crc32_spec ?d)"
  have "window (patch fl off (?c @ ?d)) off CRC_SIZE = ?c"
    "window (patch fl off (?c @ ?d)) (off + CRC_SIZE) (maxlen - CRC_SIZE) = ?d"
    using assms by (auto simp: window_def patch_def)
  moreover have "parse_env MAX_CACHE_ENTRY (maxlen - CRC_SIZE) ?d = Fault"
    using parse_env.simps(2) [of 499] by (simp add: strchr_ones)
  ultimately show ?thesis by (simp add: decode_block_def Let_def)
qed

lemma decode_block_frame:
  assumes "off + length d \<le> length fl" and "off' + maxlen \<le> length fl" and "CRC_SIZE \<le> maxlen"
    and "off + length d \<le> off' \<or> off' + maxlen \<le> off"
  shows "decode_block (patch fl off d) off' maxlen = decode_block fl off' maxlen"
proof -
  have "window (patch fl off d) off' CRC_SIZE = window fl off' CRC_SIZE"
    "window (patch fl off d) (off' + CRC_SIZE) (maxlen - CRC_SIZE) = window fl (off' + CRC_SIZE) (maxlen - CRC_SIZE)"
    using assms by (auto intro!: window_patch_disjoint)
  then show ?thesis by (simp add: decode_block_def Let_def)
qed

lemma rom_frame:
  assumes "0xf000 \<le> length (part_bytes RALINK_NVRAM_MTDNAME d)" and "i < 4" "j < 4" "i \<noteq> j" and "length blk = snd (layout ! i)"
    and "part_bytes RALINK_NVRAM_MTDNAME d' = patch (part_bytes RALINK_NVRAM_MTDNAME d) (fst (layout ! i)) blk"
  shows "rom d' j = rom d j"
  using assms layout_bounds [of i] layout_bounds [of j] layout_disjoint [of i j]
  by (simp add: rom_def decode_block_frame)

subsection \<open>Each operation on a well-formed state\<close>

lemma knv_okD:
  assumes "knv_ok h s"
  shows "blocks_at (fb s)" "length (fb s) = 4" "nvram_sem s" "config_ok h (kdev s)"
    "i < 4 \<Longrightarrow> valid (fb s ! i)" "i < 4 \<Longrightarrow> cache (fb s ! i) = cache_of (ram s i)"
    "i < 4 \<Longrightarrow> length (ram s i) \<le> MAX_CACHE_ENTRY"
    "i < 4 \<Longrightarrow> \<exists>d. env_data (fb s ! i) = Some d \<and> length d = data_len (fb s ! i)"
proof -
  show *: "blocks_at (fb s)" "length (fb s) = 4" "nvram_sem s" "config_ok h (kdev s)"
    using assms blocks_atD(1) [of "fb s"] by (simp_all add: knv_ok_def)
  assume "i < 4"
  then have "block_ok (fb s ! i)" using assms *(2) by (simp add: knv_ok_def)
  then show "valid (fb s ! i)" "cache (fb s ! i) = cache_of (ram s i)"
    "length (ram s i) \<le> MAX_CACHE_ENTRY"
    "\<exists>d. env_data (fb s ! i) = Some d \<and> length d = data_len (fb s ! i)"
    by (auto simp: block_ok_def cache_wf_def ram_def)
qed

text \<open>Entering the critical section of an operation on a loaded block.\<close>

lemma enter_ok:
  assumes "knv_ok h s" and "i < 4"
  shows "down s = Ret (s\<lparr>nvram_sem := False\<rparr>)"
    "RANV_CHECK_VALID h (s\<lparr>nvram_sem := False\<rparr>) (int i) = Ret (s\<lparr>nvram_sem := False\<rparr>)"
  using knv_okD [OF assms(1)] assms(2) by (simp_all add: down_def RANV_CHECK_VALID_def)

lemma ensure_data_ok:
  assumes "knv_ok h s" and "i < 4"
  shows "\<exists>d. ensure_data h (fb s ! i) = Some d \<and> memset d c (data_len (fb s ! i))
    = Ret (replicate (data_len (fb s ! i)) c)"
  using knv_okD(8) [OF assms] by (auto simp: ensure_data_def memset_def)

lemma knv_eqI:
  "fb s = fb s' \<Longrightarrow> nvram_sem s = nvram_sem s' \<Longrightarrow> counter s = counter s' \<Longrightarrow> kdev s = kdev s' \<Longrightarrow> s = (s' :: knv)"
  by (cases s, cases s') simp

lemma up_of_down: "nvram_sem s \<Longrightarrow> up (s\<lparr>nvram_sem := False, counter := c\<rparr>) = s\<lparr>counter := c\<rparr>"
  "nvram_sem s \<Longrightarrow> up (upd_fb i f (s\<lparr>nvram_sem := False, counter := c\<rparr>)) = upd_fb i f (s\<lparr>counter := c\<rparr>)"
  "nvram_sem s \<Longrightarrow> up (upd_fb i f (s\<lparr>nvram_sem := False\<rparr>)) = upd_fb i f s"
  "nvram_sem s \<Longrightarrow> up (upd_fb i f (s\<lparr>nvram_sem := False, counter := c, kdev := d\<rparr>)) = upd_fb i f (s\<lparr>counter := c, kdev := d\<rparr>)"
  "nvram_sem s \<Longrightarrow> up (upd_fb i f (s\<lparr>nvram_sem := False, kdev := d\<rparr>)) = upd_fb i f (s\<lparr>kdev := d\<rparr>)"
  by (auto intro!: knv_eqI simp: upd_fb_def)

lemma nvram_get_ok:
  assumes "knv_ok h s" and "i < 4"
  shows "nvram_get h s (int i) name = Ret (map_of (ram s i) name, s\<lparr>counter := counter s + 1\<rparr>)"
  using assms knv_okD [OF assms(1)]
  by (simp add: nvram_get_def enter_ok Let_def up_of_down cache_get_cache_of)

lemma nvram_set_ok:
  assumes "knv_ok h s" and "i < 4"
  shows "nvram_set h s (int i) name val =
    (if name \<notin> set (map fst (ram s i)) \<and> length (ram s i) = MAX_CACHE_ENTRY
     then Ret (- 1, s\<lparr>counter := counter s + 1\<rparr>)
     else Ret (0, upd_fb i (\<lambda>b. b\<lparr>cache := cache_of (AList.update name val (ram s i)), dirty := True\<rparr>)
                    (s\<lparr>counter := counter s + 1\<rparr>)))"
proof -
  note ok = knv_okD [OF assms(1)]
  have "cache_set (kmalloc_ok h) (cache (fb s ! i)) name val =
    (if name \<notin> set (map fst (ram s i)) \<and> length (ram s i) = MAX_CACHE_ENTRY then (- 1, cache_of (ram s i))
     else (0, cache_of (AList.update name val (ram s i))))"
    using ok(6,7) [OF assms(2)] config_okD(2) [OF ok(4)] by (simp only: cache_set_cache_of)
  then show ?thesis
    using assms ok(3) by (auto simp: nvram_set_def enter_ok Let_def up_of_down)
qed

lemma nvram_commit_clean:
  assumes "knv_ok h s" and "i < 4" and "\<not> dirty (fb s ! i)"
  shows "nvram_commit h s (int i) = Ret (0, s\<lparr>counter := counter s + 1\<rparr>)"
  using assms knv_okD(3) [OF assms(1)] by (simp add: nvram_commit_def enter_ok Let_def up_of_down)

lemma nvram_commit_dirty:
  assumes "knv_ok h s" and "i < 4" and "dirty (fb s ! i)"
    and fits: "length (env_text (ram s i)) < data_len (fb s ! i)"
  shows "\<exists>dev d crc. nvram_commit h s (int i) = Ret (0, upd_fb i (\<lambda>b. b\<lparr>env_crc := crc,
      env_data := Some d, dirty := False\<rparr>) (s\<lparr>counter := counter s + 1, kdev := dev\<rparr>))
    \<and> length d = data_len (fb s ! i) \<and> config_ok h dev
    \<and> part_bytes RALINK_NVRAM_MTDNAME dev = patch (part_bytes RALINK_NVRAM_MTDNAME (kdev s))
        (fst (layout ! i)) (encode_block (snd (layout ! i)) (ram s i))"
proof -
  note ok = knv_okD [OF assms(1)]
  let ?b = "fb s ! i" and ?s = "s\<lparr>nvram_sem := False, counter := counter s + 1\<rparr>"
  let ?d = "env_image (data_len ?b) (ram s i)"
  obtain d0 where d0: "ensure_data h ?b = Some d0" "memset d0 0 (data_len ?b) = Ret (replicate (data_len ?b) 0)"
    using ensure_data_ok [OF assms(1,2)] by blast
  have "build_env (flash_max_len ?b) (cache ?b) 0 (replicate (data_len ?b) 0) = Ret (True, ?d)"
    using fits ok(6) assms(2) by (simp add: build_env_image)
  moreover obtain dev where dev: "store_block h ?s i ?d = Ret (upd_fb i (\<lambda>b. b\<lparr>env_crc := crc32_spec ?d,
      env_data := Some ?d, dirty := False\<rparr>) (?s\<lparr>kdev := dev\<rparr>))" "config_ok h dev"
      "part_bytes RALINK_NVRAM_MTDNAME dev = patch (part_bytes RALINK_NVRAM_MTDNAME (kdev s))
        (flash_offset ?b) (crc_bytes (crc32_spec ?d) @ ?d)"
    using store_block_ok [of h ?s i ?d] ok assms(2) fits by auto
  ultimately have "nvram_commit h s (int i) = Ret (0, upd_fb i (\<lambda>b. b\<lparr>env_crc := crc32_spec ?d,
      env_data := Some ?d, dirty := False\<rparr>) (s\<lparr>counter := counter s + 1, kdev := dev\<rparr>))"
    using assms d0 ok(3) by (simp add: nvram_commit_def enter_ok Let_def up_of_down)
  moreover have "length ?d = data_len ?b" using fits by simp
  ultimately show ?thesis
    using dev blocks_atD [OF ok(1)] assms(2) by (auto simp: encode_block_def Let_def)
qed

lemma nvram_commit_board:
  assumes "knv_ok h s" and "i < 4" and fits: "length (env_text (ram s i)) < data_len (fb s ! i)"
    and run: "nvram_commit h s (int i) = Ret (r, s')"
  shows "same_board (kdev s) (kdev s')"
proof (cases "dirty (fb s ! i)")
  case False
  then show ?thesis using nvram_commit_clean [OF assms(1,2) False] run by simp
next
  case True
  note ok = knv_okD [OF assms(1)]
  let ?b = "fb s ! i" and ?s = "s\<lparr>nvram_sem := False, counter := counter s + 1\<rparr>"
  let ?d = "env_image (data_len ?b) (ram s i)"
  obtain d0 where d0: "ensure_data h ?b = Some d0" "memset d0 0 (data_len ?b) = Ret (replicate (data_len ?b) 0)"
    using ensure_data_ok [OF assms(1,2)] by blast
  have "build_env (flash_max_len ?b) (cache ?b) 0 (replicate (data_len ?b) 0) = Ret (True, ?d)"
    using fits ok(6) assms(2) by (simp add: build_env_image)
  then obtain s2 where s2: "store_block h ?s i ?d = Ret s2" "kdev s' = kdev s2"
    using run True assms(2) d0 ok(3) assms(1) by (auto simp: nvram_commit_def enter_ok Let_def outcome_simps)
  then show ?thesis
    using store_block_board [of h ?s i ?d s2] ok(1,4) assms(2) fits by simp
qed

lemma nvram_commit_overflow:
  assumes "knv_ok h s" and "i < 4" and "dirty (fb s ! i)"
    and big: "data_len (fb s ! i) \<le> length (env_text (ram s i))"
  shows "nvram_commit h s (int i) = Fault"
proof -
  let ?b = "fb s ! i"
  obtain d0 where d0: "ensure_data h ?b = Some d0" "memset d0 0 (data_len ?b) = Ret (replicate (data_len ?b) 0)"
    using ensure_data_ok [OF assms(1,2)] by blast
  have "CRC_SIZE \<le> flash_max_len ?b"
    using layout_bounds(2) [OF assms(2)] blocks_atD(3) [OF knv_okD(1) [OF assms(1)] assms(2)] by simp
  then have "build_env (flash_max_len ?b) (cache ?b) 0 (replicate (data_len ?b) 0) = Fault"
    using build_env_too_big [OF big, of "flash_max_len ?b"] knv_okD(6) [OF assms(1,2)] by simp
  then show ?thesis using assms d0 by (simp add: nvram_commit_def enter_ok Let_def)
qed

lemma nvram_clear_ok:
  assumes "knv_ok h s" and "i < 4"
  defines "n \<equiv> data_len (fb s ! i)"
  shows "\<exists>dev. nvram_clear h s (int i) = Ret (0, upd_fb i (\<lambda>b. b\<lparr>cache := cache_of [],
      env_crc := crc32_spec (replicate n 0xFF), env_data := Some (replicate n 0xFF), dirty := False\<rparr>) (s\<lparr>kdev := dev\<rparr>))
    \<and> config_ok h dev
    \<and> part_bytes RALINK_NVRAM_MTDNAME dev = patch (part_bytes RALINK_NVRAM_MTDNAME (kdev s))
        (fst (layout ! i)) (crc_bytes (crc32_spec (replicate n 0xFF)) @ replicate n 0xFF)"
proof -
  note ok = knv_okD [OF assms(1)]
  let ?d = "replicate n 0xFF :: byte list"
  let ?s1 = "upd_fb i (\<lambda>b. b\<lparr>cache := clear_cache (cache b)\<rparr>) s"
  let ?s2 = "?s1\<lparr>nvram_sem := False\<rparr>"
  have close: "ra_nvram_close s (int i) = Ret (0, ?s1)"
    using assms ok(3,5) by (simp add: ra_nvram_close_def enter_ok up_of_down)
  have b1: "fb ?s1 ! i = (fb s ! i)\<lparr>cache := clear_cache (cache (fb s ! i))\<rparr>" "blocks_at (fb ?s1)"
    using assms(2) ok(1,2) by (auto simp: upd_fb_def intro!: blocks_at_update)
  obtain d0 where d0: "env_data (fb s ! i) = Some d0" "length d0 = n"
    using ok(8) [OF assms(2)] by (auto simp: n_def)
  obtain dev where dev: "store_block h ?s2 i ?d = Ret (upd_fb i (\<lambda>b. b\<lparr>env_crc := crc32_spec ?d,
      env_data := Some ?d, dirty := False\<rparr>) (?s2\<lparr>kdev := dev\<rparr>))" "config_ok h dev"
      "part_bytes RALINK_NVRAM_MTDNAME dev = patch (part_bytes RALINK_NVRAM_MTDNAME (kdev s))
        (flash_offset (fb s ! i)) (crc_bytes (crc32_spec ?d) @ ?d)"
    using store_block_ok [of h ?s2 i ?d] b1 ok(4) assms(2) by (auto simp: n_def)
  have clr: "clear_cache (cache (fb s ! i)) = cache_of []"
    using ok(6,7) [OF assms(2)] by (simp add: clear_cache_def cache_of_def map_replicate_const flip: replicate_add)
  have "nvram_clear h s (int i) = Ret (0, up (upd_fb i (\<lambda>b. b\<lparr>env_crc := crc32_spec ?d,
      env_data := Some ?d, dirty := False\<rparr>) (?s2\<lparr>kdev := dev\<rparr>)))"
    using assms(2) b1 ok(3) d0 dev(1)
    by (simp add: nvram_clear_def close down_def ensure_data_def memset_def Let_def n_def)
  also have "up (upd_fb i (\<lambda>b. b\<lparr>env_crc := crc32_spec ?d, env_data := Some ?d, dirty := False\<rparr>)
        (?s2\<lparr>kdev := dev\<rparr>))
      = upd_fb i (\<lambda>b. b\<lparr>cache := cache_of [], env_crc := crc32_spec ?d, env_data := Some ?d,
          dirty := False\<rparr>) (s\<lparr>kdev := dev\<rparr>)"
    using ok(2,3) assms(2) by (intro knv_eqI) (simp_all add: upd_fb_def clr)
  finally show ?thesis using dev blocks_atD [OF ok(1)] assms(2) by auto
qed

lemma nvram_getall_fits:
  assumes "knv_ok h s" and "i < 4" and "length (env_text (ram s i)) < data_len (fb s ! i)"
    and "buf \<noteq> None"
  shows "nvram_getall h s (int i) buf = Ret (0, upd_fb i
    (\<lambda>b. b\<lparr>env_data := Some (env_image (data_len b) (ram s i))\<rparr>) s)"
proof -
  note ok = knv_okD [OF assms(1)]
  let ?b = "fb s ! i"
  obtain d0 where "ensure_data h ?b = Some d0" "memset d0 0 (data_len ?b) = Ret (replicate (data_len ?b) 0)"
    using ensure_data_ok [OF assms(1,2)] by blast
  moreover have "build_env (flash_max_len ?b) (cache ?b) 0 (replicate (data_len ?b) 0)
      = Ret (True, env_image (data_len ?b) (ram s i))"
    using assms(3) ok(6) assms(2) by (simp add: build_env_image)
  ultimately show ?thesis
    using assms ok(3) by (simp add: nvram_getall_def enter_ok Let_def up_of_down) (simp add: upd_fb_def)
qed

subsection \<open>Preservation\<close>

lemma knv_ok_upd_fb:
  assumes "knv_ok h s" and "i < 4" and "config_ok h dev" and "block_ok (f (fb s ! i))"
    and "flash_offset (f (fb s ! i)) = flash_offset (fb s ! i)"
    and "flash_max_len (f (fb s ! i)) = flash_max_len (fb s ! i)"
  shows "knv_ok h (upd_fb i f (s\<lparr>counter := c, kdev := dev\<rparr>))"
  using assms knv_okD(1,2,3) [OF assms(1)]
  by (auto simp: knv_ok_def upd_fb_def blocks_at_update dest: set_update_subset_insert [THEN subsetD])

lemma knv_ok_counter: "knv_ok h s \<Longrightarrow> knv_ok h (s\<lparr>counter := c\<rparr>)"
  by (simp add: knv_ok_def)

lemma ram_simps [simp]:
  "ram (s\<lparr>counter := c\<rparr>) j = ram s j" "ram (s\<lparr>kdev := d\<rparr>) j = ram s j"
  "i < length (fb s) \<Longrightarrow> ram (upd_fb i f s) j = (if j = i then entries (cache (f (fb s ! i))) else ram s j)"
  by (auto simp: ram_def)

end
