(* ===== verification/KernelSpec.thy ===== *)
theory KernelSpec
  imports KernelNvram
begin

text \<open>
  What the NVRAM module promises, and that it keeps the promise. The specification is a
  table of ordered name/value lists with a volatile and a persistent copy; every operation of
  the module refines the corresponding table operation, loading the module refines the
  restoration of the persistent copy, and over all sequences of ioctl requests the module
  keeps its invariant and never deadlocks while memory lasts. The last section holds the
  places where the module does not keep the promise.
\<close>

section \<open>The abstract table\<close>

record anv =
  a_ram :: "nat \<Rightarrow> (cstring \<times> cstring) list"
  a_dirty :: "nat \<Rightarrow> bool"
  a_rom :: "nat \<Rightarrow> (cstring \<times> cstring) list option"

definition spec_set :: "anv \<Rightarrow> nat \<Rightarrow> cstring \<Rightarrow> cstring \<Rightarrow> int \<times> anv" where
  "spec_set a i n v =
     (if n \<notin> set (map fst (a_ram a i)) \<and> length (a_ram a i) = MAX_CACHE_ENTRY then (- 1, a)
      else (0, a\<lparr>a_ram := (a_ram a)(i := AList.update n v (a_ram a i)),
                 a_dirty := (a_dirty a)(i := True)\<rparr>))"

definition spec_get :: "anv \<Rightarrow> nat \<Rightarrow> cstring \<Rightarrow> cstring option" where
  "spec_get a i n = map_of (a_ram a i) n"

definition spec_commit :: "anv \<Rightarrow> nat \<Rightarrow> anv" where
  "spec_commit a i =
     (if a_dirty a i then a\<lparr>a_dirty := (a_dirty a)(i := False),
                            a_rom := (a_rom a)(i := Some (a_ram a i))\<rparr> else a)"

definition spec_boot :: "anv \<Rightarrow> anv" where
  "spec_boot a = a\<lparr>a_ram := \<lambda>i. the (a_rom a i), a_dirty := \<lambda>_. False\<rparr>"

text \<open>The abstraction, on the four blocks.\<close>

definition abs_nv :: "knv \<Rightarrow> anv" where
  "abs_nv s = \<lparr>a_ram = \<lambda>i. if i < 4 then ram s i else [],
     a_dirty = \<lambda>i. i < 4 \<and> dirty (fb s ! i),
     a_rom = \<lambda>i. if i < 4 then rom (kdev s) i else Some []\<rparr>"

text \<open>A list that a block of the flash can hold and give back.\<close>

definition storable :: "nat \<Rightarrow> (cstring \<times> cstring) list \<Rightarrow> bool" where
  "storable i kvs = ((\<forall>kv \<in> set kvs. kv_ok kv)
     \<and> length (env_text kvs) < snd (layout ! i) - CRC_SIZE)"

lemma abs_nv_sel [simp]:
  "i < 4 \<Longrightarrow> a_ram (abs_nv s) i = ram s i" "i < 4 \<Longrightarrow> a_dirty (abs_nv s) i = dirty (fb s ! i)"
  "i < 4 \<Longrightarrow> a_rom (abs_nv s) i = rom (kdev s) i"
  by (simp_all add: abs_nv_def)

lemma abs_nv_eqI:
  "(\<And>i. i < 4 \<Longrightarrow> ram s i = ram s' i) \<Longrightarrow> (\<And>i. i < 4 \<Longrightarrow> dirty (fb s ! i) = dirty (fb s' ! i)) \<Longrightarrow>
   (\<And>i. i < 4 \<Longrightarrow> rom (kdev s) i = rom (kdev s') i) \<Longrightarrow> abs_nv s = abs_nv s'"
  by (auto simp: abs_nv_def)

lemma abs_nv_counter [simp]: "abs_nv (s\<lparr>counter := c\<rparr>) = abs_nv s"
  by (rule abs_nv_eqI) simp_all

section \<open>Operations\<close>

lemma set_refines:
  assumes ok: "knv_ok h s" and i: "i < 4"
  shows "\<exists>s'. nvram_set h s (int i) n v = Ret (fst (spec_set (abs_nv s) i n v), s') \<and> knv_ok h s'
    \<and> abs_nv s' = snd (spec_set (abs_nv s) i n v) \<and> kdev s' = kdev s"
proof (cases "n \<notin> set (map fst (ram s i)) \<and> length (ram s i) = MAX_CACHE_ENTRY")
  case True
  then show ?thesis using nvram_set_ok [OF ok i, of n v] ok i by (auto simp: spec_set_def knv_ok_counter)
next
  case False
  let ?kvs = "AList.update n v (ram s i)"
  let ?s = "upd_fb i (\<lambda>b. b\<lparr>cache := cache_of ?kvs, dirty := True\<rparr>) (s\<lparr>counter := counter s + 1\<rparr>)"
  have "length ?kvs \<le> MAX_CACHE_ENTRY" using False knv_okD(7) [OF ok i] by (auto simp: length_update)
  then have "knv_ok h ?s"
    using knv_ok_upd_fb [OF ok i knv_okD(4) [OF ok], of "\<lambda>b. b\<lparr>cache := cache_of ?kvs, dirty := True\<rparr>"
        "counter s + 1"] knv_okD(5,8) [OF ok i]
    by (auto simp: block_ok_def)
  moreover have "abs_nv ?s = snd (spec_set (abs_nv s) i n v)"
    using False i knv_okD(2) [OF ok] by (auto simp: spec_set_def abs_nv_def fun_eq_iff)
  ultimately show ?thesis using nvram_set_ok [OF ok i, of n v] False i by (auto simp: spec_set_def)
qed

lemma get_refines:
  assumes "knv_ok h s" and "i < 4"
  shows "\<exists>s'. nvram_get h s (int i) n = Ret (spec_get (abs_nv s) i n, s') \<and> knv_ok h s'
    \<and> abs_nv s' = abs_nv s \<and> kdev s' = kdev s"
  using nvram_get_ok [OF assms, of n] assms by (auto simp: spec_get_def knv_ok_counter)

lemma rom_commit:
  assumes cfg: "0xf000 \<le> length (part_bytes RALINK_NVRAM_MTDNAME d)" and i: "i < 4" and st: "storable i kvs" and len: "length kvs \<le> MAX_CACHE_ENTRY"
    and fl: "part_bytes RALINK_NVRAM_MTDNAME d' = patch (part_bytes RALINK_NVRAM_MTDNAME d)
      (fst (layout ! i)) (encode_block (snd (layout ! i)) kvs)" and j: "j < 4"
  shows "rom d' j = (if j = i then Some kvs else rom d j)"
proof (cases "j = i")
  case True
  then show ?thesis
    using decode_encode [of kvs "snd (layout ! i)" "fst (layout ! i)" "part_bytes RALINK_NVRAM_MTDNAME d"]
      st len layout_bounds [OF i] cfg
    by (simp add: rom_def fl storable_def)
next
  case False
  have "length (encode_block (snd (layout ! i)) kvs) = snd (layout ! i)"
    using st layout_bounds [OF i] by (simp add: encode_block_def storable_def Let_def)
  from rom_frame [OF cfg i j _ this fl] False show ?thesis by simp
qed

lemma commit_writes:
  assumes ok: "knv_ok h s" and i: "i < 4" and d: "dirty (fb s ! i)" and fit: "length (env_text (ram s i)) < data_len (fb s ! i)"
  shows "\<exists>s'. nvram_commit h s (int i) = Ret (0, s') \<and> knv_ok h s'
    \<and> part_bytes RALINK_NVRAM_MTDNAME (kdev s') = patch (part_bytes RALINK_NVRAM_MTDNAME (kdev s)) (fst (layout ! i)) (encode_block (snd (layout ! i)) (ram s i))
    \<and> (storable i (ram s i) \<longrightarrow> abs_nv s' = spec_commit (abs_nv s) i)"
proof -
  from nvram_commit_dirty [OF ok i d fit] obtain dev d' crc where
    run: "nvram_commit h s (int i) = Ret (0, upd_fb i (\<lambda>b. b\<lparr>env_crc := crc, env_data := Some d',
      dirty := False\<rparr>) (s\<lparr>counter := counter s + 1, kdev := dev\<rparr>))"
    and d': "length d' = data_len (fb s ! i)" and dev: "config_ok h dev"
      "part_bytes RALINK_NVRAM_MTDNAME dev = patch (part_bytes RALINK_NVRAM_MTDNAME (kdev s))
        (fst (layout ! i)) (encode_block (snd (layout ! i)) (ram s i))"
    by blast
  let ?f = "\<lambda>b. b\<lparr>env_crc := crc, env_data := Some d', dirty := False\<rparr>"
  let ?s = "upd_fb i ?f (s\<lparr>counter := counter s + 1, kdev := dev\<rparr>)"
  have "knv_ok h ?s"
    using knv_okD(5,6,7) [OF ok i] d'
    by (intro knv_ok_upd_fb [OF ok i dev(1)]) (simp_all add: block_ok_def)
  moreover have "abs_nv ?s = spec_commit (abs_nv s) i" if st: "storable i (ram s i)"
    using rom_commit [OF config_bytes [OF knv_okD(4) [OF ok]] i st knv_okD(7) [OF ok i] dev(2)] d i knv_okD(2) [OF ok]
    by (auto simp: abs_nv_def spec_commit_def fun_eq_iff ram_def)
  moreover have "kdev ?s = dev" by simp
  ultimately show ?thesis using run dev(2) by metis
qed

lemma commit_refines:
  assumes ok: "knv_ok h s" and i: "i < 4" and st: "storable i (ram s i)"
  shows "\<exists>s'. nvram_commit h s (int i) = Ret (0, s') \<and> knv_ok h s' \<and> abs_nv s' = spec_commit (abs_nv s) i"
proof (cases "dirty (fb s ! i)")
  case False
  then show ?thesis
    using nvram_commit_clean [OF ok i False] ok i by (auto simp: spec_commit_def knv_ok_counter)
next
  case True
  have "length (env_text (ram s i)) < data_len (fb s ! i)"
    using st blocks_atD(3) [OF knv_okD(1) [OF ok] i] by (simp add: storable_def)
  from commit_writes [OF ok i True this] st show ?thesis by blast
qed

section \<open>Power-up\<close>

text \<open>The state of the load loop after \<open>n\<close> blocks.\<close>

definition boot_inv :: "kheap \<Rightarrow> flash_dev \<Rightarrow> nat \<Rightarrow> knv \<Rightarrow> bool" where
  "boot_inv h d n s = (blocks_at (fb s) \<and> config_ok h d \<and> kdev s = d
     \<and> (\<forall>j < n. block_ok (fb s ! j) \<and> \<not> dirty (fb s ! j) \<and> rom d j = Some (ram s j))
     \<and> (\<forall>j < 4. n \<le> j \<longrightarrow> \<not> valid (fb s ! j) \<and> cache (fb s ! j) = cache_of []))"

lemma boot_inv_step:
  assumes inv: "boot_inv h d n s" and n: "n < 4"
  shows "rom d n = None \<Longrightarrow> init_nvram_block h s (int n) = Fault"
    "rom d n \<noteq> None \<Longrightarrow> \<exists>r s'. init_nvram_block h s (int n) = Ret (r, s') \<and> boot_inv h d (Suc n) s'"
proof -
  have s: "blocks_at (fb s)" "config_ok h (kdev s)" "kdev s = d" "\<not> valid (fb s ! n)"
    "cache (fb s ! n) = cache_of []" using inv n by (auto simp: boot_inv_def)
  show "init_nvram_block h s (int n) = Fault" if "rom d n = None"
    using that init_nvram_block_fault [OF s(2,1) n s(4)] s(3) by simp
  assume "rom d n \<noteq> None"
  then obtain kvs where kvs: "rom (kdev s) n = Some kvs" using s(3) by auto
  from init_nvram_block_ok [OF s(2,1) n s(4,5) kvs] obtain r crc dat where
    run: "init_nvram_block h s (int n) = Ret (r, upd_fb n (\<lambda>b. b\<lparr>env_crc := crc, env_data := Some dat,
      cache := cache_of kvs, valid := True, dirty := False\<rparr>) s)"
    and len: "length dat = data_len (fb s ! n)" "length kvs \<le> MAX_CACHE_ENTRY" by blast
  let ?f = "\<lambda>b. b\<lparr>env_crc := crc, env_data := Some dat, cache := cache_of kvs, valid := True, dirty := False\<rparr>"
  have "blocks_at (fb (upd_fb n ?f s))"
    using blocks_at_update [OF s(1) n] by (simp add: upd_fb_def)
  moreover have "n < length (fb s)" using n blocks_atD(1) [OF s(1)] by simp
  ultimately have "boot_inv h d (Suc n) (upd_fb n ?f s)"
    using inv len kvs s(3) by (auto simp: boot_inv_def less_Suc_eq block_ok_def)
  with run show "\<exists>r s'. init_nvram_block h s (int n) = Ret (r, s') \<and> boot_inv h d (Suc n) s'" by blast
qed

lemma init_blocks_run:
  assumes "boot_inv h d n s" and "n \<le> 4"
  shows "(\<exists>j < 4. n \<le> j \<and> rom d j = None) \<Longrightarrow> init_blocks h (map int [n..<4]) s = Fault"
    "(\<forall>j < 4. n \<le> j \<longrightarrow> rom d j \<noteq> None) \<Longrightarrow>
      \<exists>s'. init_blocks h (map int [n..<4]) s = Ret s' \<and> boot_inv h d 4 s'"
  using assms
proof (induction k \<equiv> "4 - n" arbitrary: n s)
  case 0
  {
    case 1
    then show ?case using 0 by auto
  next
    case 2
    then show ?case using 0 by simp
  }
next
  case (Suc k)
  then have k: "k = 4 - Suc n" and n: "n < 4" by auto
  have up: "[n..<4] = n # [Suc n..<4]" using n by (rule upt_conv_Cons)
  {
    case 1
    then obtain j where j: "j < 4" "n \<le> j" "rom d j = None" by blast
    show ?case
    proof (cases "rom d n")
      case None
      then show ?thesis using boot_inv_step(1) [OF 1(2) n] up by simp
    next
      case (Some kvs)
      with j have "Suc n \<le> j" by (metis not_less_eq_eq le_antisym option.distinct(1))
      with boot_inv_step(2) [OF 1(2) n] Some Suc.hyps(1) [OF k] j n up show ?thesis by fastforce
    qed
  next
    case 2
    then show ?case using boot_inv_step(2) [OF 2(2) n] Suc.hyps(2) [OF k] n up by fastforce
  }
qed

lemma fb_init_nth:
  assumes "j < 4"
  shows "\<not> valid (fb_init ! j)" "cache (fb_init ! j) = cache_of []"
proof -
  have "j = 0 \<or> j = 1 \<or> j = 2 \<or> j = 3" using assms by auto
  then show "\<not> valid (fb_init ! j)" "cache (fb_init ! j) = cache_of []"
    by (auto simp: fb_init_def fb_entry_def cache_of_def)
qed

lemma boot_inv_start: "config_ok h d \<Longrightarrow> boot_inv h d 0 (knv_start d\<lparr>nvram_sem := b\<rparr>)"
  using fb_init_nth by (auto simp: boot_inv_def knv_start_def)
    (simp add: blocks_at_def fb_init_def fb_entry_def layout_def)

text \<open>Loading the module: with a working flash it faults exactly when some block makes the
  parser run off its end; otherwise it succeeds with every cache restored.\<close>

lemma boot_run:
  assumes cfg: "config_ok h d" and r: "0 \<le> r"
  shows "(\<exists>j < 4. rom d j = None) \<Longrightarrow> ra_nvram_init h r (knv_start d) = Fault"
    "(\<forall>j < 4. rom d j \<noteq> None) \<Longrightarrow> \<exists>s. ra_nvram_init h r (knv_start d) = Ret (0, s) \<and> knv_ok h s
      \<and> kdev s = d \<and> (\<forall>j < 4. \<not> dirty (fb s ! j) \<and> rom d j = Some (ram s j))"
proof -
  let ?s = "knv_start d\<lparr>nvram_sem := False\<rparr>"
  have idx: "map int [0..<4] = [0, 1, 2, 3]" by (simp add: upt_rec)
  have run: "ra_nvram_init h r (knv_start d) = obind (init_blocks h [0, 1, 2, 3] ?s) (\<lambda>s. Ret (0, up s))"
    using r by (simp add: ra_nvram_init_def down_def)
  note blocks = init_blocks_run [OF boot_inv_start [OF cfg, of False], unfolded idx]
  show "ra_nvram_init h r (knv_start d) = Fault" if "\<exists>j < 4. rom d j = None"
    using blocks(1) that run by simp
  assume "\<forall>j < 4. rom d j \<noteq> None"
  with blocks(2) obtain s' where s': "init_blocks h [0, 1, 2, 3] ?s = Ret s'" "boot_inv h d 4 s'" by auto
  then have "knv_ok h (up s')"
    using blocks_atD(1) [of "fb s'"] by (auto simp: boot_inv_def knv_ok_def in_set_conv_nth)
  with run s' show "\<exists>s. ra_nvram_init h r (knv_start d) = Ret (0, s) \<and> knv_ok h s
      \<and> kdev s = d \<and> (\<forall>j < 4. \<not> dirty (fb s ! j) \<and> rom d j = Some (ram s j))"
    by (auto simp: boot_inv_def ram_def)
qed

lemma boot_refines:
  assumes cfg: "config_ok h (kdev s)" and r: "0 \<le> r" and dec: "\<forall>j < 4. rom (kdev s) j \<noteq> None"
  shows "\<exists>s'. ra_nvram_init h r (knv_start (kdev s)) = Ret (0, s') \<and> knv_ok h s'
    \<and> abs_nv s' = spec_boot (abs_nv s) \<and> kdev s' = kdev s"
proof -
  obtain s' where s': "ra_nvram_init h r (knv_start (kdev s)) = Ret (0, s')" "knv_ok h s'"
    "kdev s' = kdev s" "\<forall>j < 4. \<not> dirty (fb s' ! j) \<and> rom (kdev s) j = Some (ram s' j)"
    using boot_run(2) [OF cfg r dec] by auto
  then have "abs_nv s' = spec_boot (abs_nv s)"
    by (auto simp: abs_nv_def spec_boot_def fun_eq_iff)
  with s' show ?thesis by blast
qed

section \<open>Sequences of requests\<close>

text \<open>Everything user space can do to a loaded module, request by request.\<close>

inductive nv_run :: "kheap \<Rightarrow> flash_dev \<Rightarrow> knv \<Rightarrow> bool" for h :: kheap and d :: flash_dev where
  boot: "ra_nvram_init h 0 (knv_start d) = Ret (0, s) \<Longrightarrow> nv_run h d s"
| ioctl: "nv_run h d s \<Longrightarrow> ralink_nvram_ioctl h s req nvr = Ret (r, nvr', s') \<Longrightarrow> nv_run h d s'"

lemma clear_preserves:
  assumes ok: "knv_ok h s" and i: "i < 4"
  shows "\<exists>s'. nvram_clear h s (int i) = Ret (0, s') \<and> knv_ok h s' \<and> ram s' i = []
    \<and> rom (kdev s') i = None \<and> (\<forall>j < 4. j \<noteq> i \<longrightarrow> ram s' j = ram s j \<and> rom (kdev s') j = rom (kdev s) j)"
proof -
  define n where "n = data_len (fb s ! i)"
  obtain dev where run: "nvram_clear h s (int i) = Ret (0, upd_fb i (\<lambda>b. b\<lparr>cache := cache_of [],
      env_crc := crc32_spec (replicate n 0xFF), env_data := Some (replicate n 0xFF), dirty := False\<rparr>) (s\<lparr>kdev := dev\<rparr>))"
    and dev: "config_ok h dev" "part_bytes RALINK_NVRAM_MTDNAME dev
      = patch (part_bytes RALINK_NVRAM_MTDNAME (kdev s))
        (fst (layout ! i)) (crc_bytes (crc32_spec (replicate n 0xFF)) @ replicate n 0xFF)"
    using nvram_clear_ok [OF ok i] by (auto simp: n_def)
  let ?f = "\<lambda>b. b\<lparr>cache := cache_of [], env_crc := crc32_spec (replicate n 0xFF),
    env_data := Some (replicate n 0xFF), dirty := False\<rparr>"
  have n: "n = snd (layout ! i) - CRC_SIZE" using blocks_atD(3) [OF knv_okD(1) [OF ok] i] by (simp add: n_def)
  have "knv_ok h (upd_fb i ?f (s\<lparr>counter := counter s, kdev := dev\<rparr>))"
    using knv_okD(5) [OF ok i]
    by (intro knv_ok_upd_fb [OF ok i dev(1)]) (simp_all add: block_ok_def n_def)
  then have "knv_ok h (upd_fb i ?f (s\<lparr>kdev := dev\<rparr>))" by simp
  moreover have "rom dev j = rom (kdev s) j" if "j < 4" "j \<noteq> i" for j
    using rom_frame [OF config_bytes [OF knv_okD(4) [OF ok]] i that(1) _ _ dev(2)] that n layout_bounds [OF i] by simp
  moreover have "rom dev i = None"
    using erased_block_undecodable [of "fst (layout ! i)" "snd (layout ! i)"]
      layout_bounds [OF i] config_bytes [OF knv_okD(4) [OF ok]] dev(2) n by (simp add: rom_def)
  ultimately show ?thesis using run i knv_okD(2) [OF ok] by auto
qed

text \<open>An operation that keeps the invariant whenever it returns, and does not wait.\<close>

definition keeps :: "kheap \<Rightarrow> ('a \<times> knv) outcome \<Rightarrow> bool" where
  "keeps h m = (case m of Ret (r, s) \<Rightarrow> knv_ok h s | Fault \<Rightarrow> True | Blocked \<Rightarrow> False)"

lemma keeps_simps [simp]:
  "keeps h (Ret (r, s)) = knv_ok h s" "keeps h Fault" "\<not> keeps h Blocked"
  by (simp_all add: keeps_def)

lemma get_keeps: "knv_ok h s \<Longrightarrow> keeps h (nvram_get h s index n)"
proof (cases "index_ok index")
  case True
  assume "knv_ok h s"
  moreover obtain i where "i < 4" "index = int i" using True by (rule index_okE)
  ultimately show ?thesis using nvram_get_ok [of h s i n] by (simp add: knv_ok_counter)
qed (simp add: nvram_get_def)

lemma set_keeps: "knv_ok h s \<Longrightarrow> keeps h (nvram_set h s index n v)"
proof (cases "index_ok index")
  case True
  assume "knv_ok h s"
  moreover obtain i where "i < 4" "index = int i" using True by (rule index_okE)
  ultimately show ?thesis using set_refines [of h s i n v] by auto
qed (auto simp: nvram_set_def)

lemma clear_keeps: "knv_ok h s \<Longrightarrow> keeps h (nvram_clear h s index)"
proof (cases "index_ok index")
  case True
  assume "knv_ok h s"
  moreover obtain i where "i < 4" "index = int i" using True by (rule index_okE)
  ultimately show ?thesis using clear_preserves [of h s i] by auto
qed (auto simp: nvram_clear_def)

lemma knv_ok_env_data:
  assumes ok: "knv_ok h s" and i: "i < 4" and d: "length d = data_len (fb s ! i)" and dev: "config_ok h dev"
  shows "knv_ok h (upd_fb i (\<lambda>b. b\<lparr>env_crc := crc, env_data := Some d, dirty := q\<rparr>) (s\<lparr>counter := c, kdev := dev\<rparr>))"
    "knv_ok h (upd_fb i (\<lambda>b. b\<lparr>env_data := Some d\<rparr>) (s\<lparr>counter := c\<rparr>))"
proof -
  show "knv_ok h (upd_fb i (\<lambda>b. b\<lparr>env_crc := crc, env_data := Some d, dirty := q\<rparr>) (s\<lparr>counter := c, kdev := dev\<rparr>))"
    using knv_okD(5,6,7) [OF ok i] d by (intro knv_ok_upd_fb [OF ok i dev]) (simp_all add: block_ok_def)
  have "knv_ok h (upd_fb i (\<lambda>b. b\<lparr>env_data := Some d\<rparr>) (s\<lparr>counter := c, kdev := kdev s\<rparr>))"
    using knv_okD(5,6,7) [OF ok i] d
    by (intro knv_ok_upd_fb [OF ok i knv_okD(4) [OF ok]]) (simp_all add: block_ok_def)
  then show "knv_ok h (upd_fb i (\<lambda>b. b\<lparr>env_data := Some d\<rparr>) (s\<lparr>counter := c\<rparr>))" by simp
qed

lemma commit_keeps: "knv_ok h s \<Longrightarrow> keeps h (nvram_commit h s index)"
proof (cases "index_ok index")
  case True
  assume ok: "knv_ok h s"
  obtain i where i: "i < 4" "index = int i" using True by (rule index_okE)
  consider "\<not> dirty (fb s ! i)" | "dirty (fb s ! i)" "length (env_text (ram s i)) < data_len (fb s ! i)"
    | "dirty (fb s ! i)" "data_len (fb s ! i) \<le> length (env_text (ram s i))" by linarith
  then show ?thesis
  proof cases
    case 1
    then show ?thesis using nvram_commit_clean [OF ok i(1)] ok i(2) by (simp add: knv_ok_counter)
  next
    case 2
    then show ?thesis
      using nvram_commit_dirty [OF ok i(1)] i(2) by (auto simp: knv_ok_env_data [OF ok i(1)])
  next
    case 3
    then show ?thesis
      using nvram_commit_overflow [OF ok i(1)] i(2) by simp
  qed
qed (auto simp: nvram_commit_def)

lemma getall_keeps: "knv_ok h s \<Longrightarrow> keeps h (nvram_getall h s index buf)"
proof (cases "index_ok index")
  case True
  assume ok: "knv_ok h s"
  obtain i where i: "i < 4" "index = int i" using True by (rule index_okE)
  let ?b = "fb s ! i"
  let ?r = "build_env (flash_max_len ?b) (cache ?b) 0 (replicate (data_len ?b) 0)"
  obtain d0 where d0: "ensure_data h ?b = Some d0" "memset d0 0 (data_len ?b) = Ret (replicate (data_len ?b) 0)"
    using ensure_data_ok [OF ok i(1)] by blast
  have "knv_ok h (upd_fb i (\<lambda>b. b\<lparr>env_data := Some d\<rparr>) s)" if "?r = Ret (fin, d)" for fin d
    using knv_ok_env_data(2) [OF ok i(1) _ knv_okD(4) [OF ok], of d "counter s"] build_env_length [OF that] by simp
  with True i d0 show ?thesis
    by (cases ?r) (auto simp: nvram_getall_def Let_def enter_ok [OF ok] up_of_down [OF knv_okD(3) [OF ok]]
        keeps_def split: outcome.splits)
qed (auto simp: nvram_getall_def)

definition keeps_io :: "kheap \<Rightarrow> ('a \<times> 'b \<times> knv) outcome \<Rightarrow> bool" where
  "keeps_io h m = (case m of Ret (r, u, s) \<Rightarrow> knv_ok h s | Fault \<Rightarrow> True | Blocked \<Rightarrow> False)"

lemma keeps_io_simps [simp]:
  "keeps_io h (Ret (r, u, s)) = knv_ok h s" "keeps_io h Fault" "\<not> keeps_io h Blocked"
  by (simp_all add: keeps_io_def)

lemma keeps_io_obind:
  "keeps h m \<Longrightarrow> (\<And>r s. knv_ok h s \<Longrightarrow> keeps_io h (f (r, s))) \<Longrightarrow> keeps_io h (obind m f)"
  by (cases m) (auto simp: keeps_def)

lemma ioctl_keeps:
  assumes ok: "knv_ok h s"
  shows "keeps_io h (ralink_nvram_ioctl h s req nvr)"
  unfolding ralink_nvram_ioctl_def Let_def
  by (auto simp: ok split: option.split prod.split
      intro!: keeps_io_obind get_keeps set_keeps clear_keeps commit_keeps getall_keeps)

lemma nv_run_ok:
  assumes "nv_run h d s" and "config_ok h d"
  shows "knv_ok h s"
  using assms
proof (induction rule: nv_run.induct)
  case (boot s)
  then show ?case using boot_run [of h d 0] by (cases "\<exists>j < 4. rom d j = None") auto
next
  case (ioctl s req nvr r nvr' s')
  then show ?case using ioctl_keeps [of h s req nvr] by simp
qed

text \<open>Damage to a committed block is noticed at the next load.\<close>

lemma corrupt_block_rejected:
  assumes cfg: "config_ok h (kdev s)" and bl: "blocks_at (fb s)" and i: "i < 4"
    and inv: "\<not> valid (fb s ! i)" and emp: "cache (fb s ! i) = cache_of []"
    and fl: "window (part_bytes RALINK_NVRAM_MTDNAME (kdev s)) (fst (layout ! i)) CRC_SIZE = crc_bytes crc"
      "window (part_bytes RALINK_NVRAM_MTDNAME (kdev s)) (fst (layout ! i) + CRC_SIZE)
        (snd (layout ! i) - CRC_SIZE) = data"
    and bad: "crc32_spec data \<noteq> crc"
  shows "\<exists>s'. init_nvram_block h s (int i) = Ret (- 1, s') \<and> ram s' i = [] \<and> valid (fb s' ! i)"
proof -
  have "data_len (fb s ! i) = snd (layout ! i) - CRC_SIZE" using blocks_atD(3) [OF bl i] by simp
  moreover have "i < length (fb s)" using blocks_atD(1) [OF bl] i by simp
  ultimately show ?thesis
    using init_nvram_block_run(1) [OF cfg bl i inv] fl bad emp by simp
qed

section \<open>A sample device\<close>

definition demo_heap :: kheap where
  "demo_heap = \<lparr>kmalloc_ok = \<lambda>_. True, kjunk = \<lambda>_. 0x5A\<rparr>"

definition demo_chip :: spi_chip where
  "demo_chip = \<lparr>chip_mem = replicate 0x10000 0, chip_sector = 0x10000, chip_sr = \<lambda>_. Some 0,
     chip_addr4b = False, chip_tx = \<lambda>_ n. int n, chip_rx = \<lambda>_ n. int n\<rparr>"

definition demo_dev :: flash_dev where
  "demo_dev = \<lparr>dev_chip = demo_chip, dev_table =
     [\<lparr>part_name = RALINK_NVRAM_MTDNAME, part_offset = 0, part_size = 0x10000, part_writeable = True\<rparr>]\<rparr>"

lemma demo_config: "config_ok demo_heap demo_dev"
  by (simp add: config_ok_def heap_ok_def mtd_ok_def dev_ok_def part_ok_def get_mtd_device_nm_def
      demo_dev_def demo_chip_def demo_heap_def chip_ok_def mtd_limit_def)

lemma demo_bytes: "part_bytes RALINK_NVRAM_MTDNAME demo_dev = replicate 0x10000 0"
  by (simp add: part_bytes_def get_mtd_device_nm_def demo_dev_def demo_chip_def window_def)

lemma zero_rom: "part_bytes RALINK_NVRAM_MTDNAME d = replicate 0x10000 0 \<Longrightarrow> i < 4 \<Longrightarrow> rom d i = Some []"
proof -
  assume bytes: "part_bytes RALINK_NVRAM_MTDNAME d = replicate 0x10000 0" and i: "i < 4"
  obtain k where k: "snd (layout ! i) - CRC_SIZE = Suc k"
    using layout_bounds(2) [OF i] by (metis Suc_diff_Suc add_lessD1)
  have "window (part_bytes RALINK_NVRAM_MTDNAME d) (fst (layout ! i) + CRC_SIZE)
      (snd (layout ! i) - CRC_SIZE) = NUL # replicate k NUL"
    using layout_bounds(1) [OF i] k by (simp add: bytes window_def min_def)
  moreover have "parse_env MAX_CACHE_ENTRY n (NUL # xs) = Ret ([], NUL # xs)" for n xs
    using parse_env.simps(2) [of 499 n "NUL # xs"] by simp
  ultimately show ?thesis by (simp add: rom_def decode_block_def Let_def)
qed

lemma demo_rom: "i < 4 \<Longrightarrow> rom demo_dev i = Some []"
  using zero_rom [OF demo_bytes] .

text \<open>The sample device loads, with empty caches.\<close>

definition demo_knv :: knv where
  "demo_knv = (case ra_nvram_init demo_heap 0 (knv_start demo_dev) of
     Ret (_, s) \<Rightarrow> s | _ \<Rightarrow> knv_start demo_dev)"

lemma demo_knv:
  shows demo_boot: "ra_nvram_init demo_heap 0 (knv_start demo_dev) = Ret (0, demo_knv)"
    and demo_ok: "knv_ok demo_heap demo_knv" and demo_kdev: "kdev demo_knv = demo_dev"
    and demo_ram: "i < 4 \<Longrightarrow> ram demo_knv i = []" and demo_clean: "i < 4 \<Longrightarrow> \<not> dirty (fb demo_knv ! i)"
  using boot_run(2) [OF demo_config, of 0] demo_rom by (auto simp: demo_knv_def)

lemma storable_small: "i < 4 \<Longrightarrow> storable i [] \<and> storable i [([0x61], [0x31])]"
  using layout_bounds(2) [of i] by (auto simp: storable_def kv_ok_def)

lemma set_commit_boot:
  assumes ok: "knv_ok h s" and i: "i < 4" and r: "0 \<le> r"
    and st: "storable i (AList.update n v (ram s i))"
    and room: "length (AList.update n v (ram s i)) \<le> MAX_CACHE_ENTRY"
    and others: "\<forall>j < 4. j \<noteq> i \<longrightarrow> rom (kdev s) j \<noteq> None"
  shows "\<exists>s1 s2 s3. nvram_set h s (int i) n v = Ret (0, s1) \<and> nvram_commit h s1 (int i) = Ret (0, s2)
    \<and> ra_nvram_init h r (knv_start (kdev s2)) = Ret (0, s3) \<and> knv_ok h s3
    \<and> ram s3 i = AList.update n v (ram s i) \<and> (\<forall>j < 4. j \<noteq> i \<longrightarrow> Some (ram s3 j) = rom (kdev s) j)"
proof -
  have sp: "spec_set (abs_nv s) i n v = (0, (abs_nv s)\<lparr>a_ram := (a_ram (abs_nv s))(i := AList.update n v (ram s i)),
      a_dirty := (a_dirty (abs_nv s))(i := True)\<rparr>)"
    using room i by (auto simp: spec_set_def length_update)
  obtain s1 where s1: "nvram_set h s (int i) n v = Ret (0, s1)" "knv_ok h s1" "kdev s1 = kdev s"
    "abs_nv s1 = snd (spec_set (abs_nv s) i n v)"
    using set_refines [OF ok i, of n v] sp by auto
  have ram1: "a_ram (abs_nv s1) i = AList.update n v (ram s i)" "a_dirty (abs_nv s1) i"
    using s1(4) sp by simp_all
  then have "ram s1 i = AList.update n v (ram s i)" using i by simp
  with commit_refines [OF s1(2) i] st obtain s2 where s2: "nvram_commit h s1 (int i) = Ret (0, s2)"
    "knv_ok h s2" "abs_nv s2 = spec_commit (abs_nv s1) i" by auto
  have rom2: "rom (kdev s2) j = (if j = i then Some (AList.update n v (ram s i)) else rom (kdev s) j)"
    if "j < 4" for j
    using arg_cong [OF s2(3), of "\<lambda>a. a_rom a j"] that ram1 i s1(3) by (auto simp: spec_commit_def)
  then have "\<forall>j < 4. rom (kdev s2) j \<noteq> None" using others by simp
  with boot_run(2) [OF knv_okD(4) [OF s2(2)] r] obtain s3 where
    "ra_nvram_init h r (knv_start (kdev s2)) = Ret (0, s3)" "knv_ok h s3"
    "\<forall>j < 4. rom (kdev s2) j = Some (ram s3 j)" by auto
  then show ?thesis using s1(1) s2(1) rom2 i by (metis option.inject)
qed

section \<open>Properties\<close>

text \<open>A value set and committed survives a power cycle: after \<open>nvram_set\<close>, \<open>nvram_commit\<close> and
  a fresh load of the module from the flash left behind, \<open>nvram_get\<close> returns the new value for
  that name and the old values for all others, provided the list fits the block and its names
  and values have a text form.\<close>

theorem set_commit_boot_get:
  assumes "knv_ok h s" and "i < 4" and "0 \<le> r"
    and "storable i (AList.update n v (ram s i))"
    and "length (AList.update n v (ram s i)) \<le> MAX_CACHE_ENTRY"
    and "\<forall>j < 4. j \<noteq> i \<longrightarrow> rom (kdev s) j \<noteq> None"
  shows "\<exists>s1 s2 s3 s4. nvram_set h s (int i) n v = Ret (0, s1) \<and> nvram_commit h s1 (int i) = Ret (0, s2)
    \<and> ra_nvram_init h r (knv_start (kdev s2)) = Ret (0, s3)
    \<and> nvram_get h s3 (int i) m = Ret (if m = n then Some v else map_of (ram s i) m, s4)"
proof -
  obtain s1 s2 s3 where "nvram_set h s (int i) n v = Ret (0, s1)" "nvram_commit h s1 (int i) = Ret (0, s2)"
    "ra_nvram_init h r (knv_start (kdev s2)) = Ret (0, s3)" "knv_ok h s3"
    "ram s3 i = AList.update n v (ram s i)"
    using set_commit_boot [OF assms] by blast
  then show ?thesis using nvram_get_ok [of h s3 i m] assms(2) by (simp add: update_conv')
qed

theorem set_commit_boot_get_witness:
  "\<exists>s1 s2 s3 s4. nvram_set demo_heap demo_knv 0 [0x61] [0x31] = Ret (0, s1)
    \<and> nvram_commit demo_heap s1 0 = Ret (0, s2)
    \<and> ra_nvram_init demo_heap 0 (knv_start (kdev s2)) = Ret (0, s3)
    \<and> nvram_get demo_heap s3 0 [0x61] = Ret (Some [0x31], s4)"
  using set_commit_boot_get [OF demo_ok, of 0 0 "[0x61]" "[0x31]" "[0x61]"] storable_small [of 0]
  by (simp add: demo_ram demo_kdev demo_rom)

text \<open>C10: \<open>nvram_set\<close> refines the update of the abstract table: the name gets the value in that
  block and nothing else changes, or -1 with no change when all 500 slots hold other names.\<close>

theorem nvram_set_refines:
  assumes "knv_ok h s" and "i < 4"
  shows "\<exists>s'. nvram_set h s (int i) n v = Ret (fst (spec_set (abs_nv s) i n v), s') \<and> knv_ok h s'
    \<and> abs_nv s' = snd (spec_set (abs_nv s) i n v) \<and> kdev s' = kdev s"
  using assms by (rule set_refines)

theorem nvram_set_refines_witness:
  "\<exists>s'. nvram_set demo_heap demo_knv 2 [0x61] [0x31] = Ret (fst (spec_set (abs_nv demo_knv) 2 [0x61] [0x31]), s')
    \<and> abs_nv s' = snd (spec_set (abs_nv demo_knv) 2 [0x61] [0x31])"
  using nvram_set_refines [OF demo_ok, of 2 "[0x61]" "[0x31]"] by auto

text \<open>C9: what \<open>nvram_commit\<close> does in every state of the invariant. A block that is not dirty is not written at all: only the
  operation counter changes. A dirty block whose text fits is written: the flash gets its checksum and text, every other byte of the partition stays,
  and for a list the block can hold and give back this refines the copy of the volatile list to the persistent one, so that the flash decodes to exactly
  the cached list in that block and the other three blocks decode to what they did before. A dirty block whose text does not fit gets no error
  return: the loop writes past its buffer.\<close>

theorem nvram_commit_refines:
  assumes "knv_ok h s" and "i < 4"
  shows "if \<not> dirty (fb s ! i) then nvram_commit h s (int i) = Ret (0, s\<lparr>counter := counter s + 1\<rparr>)
    else if length (env_text (ram s i)) < data_len (fb s ! i) then
      \<exists>s'. nvram_commit h s (int i) = Ret (0, s') \<and> knv_ok h s'
        \<and> part_bytes RALINK_NVRAM_MTDNAME (kdev s')
            = patch (part_bytes RALINK_NVRAM_MTDNAME (kdev s)) (fst (layout ! i)) (encode_block (snd (layout ! i)) (ram s i))
        \<and> (storable i (ram s i) \<longrightarrow> abs_nv s' = spec_commit (abs_nv s) i)
    else nvram_commit h s (int i) = Fault"
  using commit_writes [OF assms] nvram_commit_clean [OF assms] nvram_commit_overflow [OF assms] by auto

theorem nvram_commit_refines_witness:
  "\<exists>s s'. nvram_set demo_heap demo_knv 1 [0x61] [0x31] = Ret (0, s) \<and> rom (kdev s) 1 = Some []
    \<and> nvram_commit demo_heap s 1 = Ret (0, s') \<and> rom (kdev s') 1 = Some [([0x61], [0x31])] \<and> \<not> dirty (fb s' ! 1)"
proof -
  obtain s where s: "nvram_set demo_heap demo_knv 1 [0x61] [0x31] = Ret (0, s)" "knv_ok demo_heap s" "kdev s = kdev demo_knv"
    "abs_nv s = snd (spec_set (abs_nv demo_knv) 1 [0x61] [0x31])"
    using set_refines [OF demo_ok, of 1 "[0x61]" "[0x31]"] by (auto simp: spec_set_def demo_ram)
  then have "a_ram (abs_nv s) 1 = [([0x61], [0x31])]" "a_dirty (abs_nv s) 1" by (simp_all add: spec_set_def demo_ram)
  then have r: "ram s 1 = [([0x61], [0x31])]" "dirty (fb s ! 1)" by simp_all
  have st: "storable 1 (ram s 1)" unfolding r(1) using storable_small [of 1] by simp
  then have "length (env_text (ram s 1)) < data_len (fb s ! 1)"
    using blocks_atD(3) [OF knv_okD(1) [OF s(2)], of 1] by (simp add: storable_def)
  with nvram_commit_refines [OF s(2), of 1] r(2) st obtain s' where s': "nvram_commit demo_heap s 1 = Ret (0, s')"
    "abs_nv s' = spec_commit (abs_nv s) 1" by auto
  then have "a_rom (abs_nv s') 1 = Some [([0x61], [0x31])]" "\<not> a_dirty (abs_nv s') 1" using r by (simp_all add: spec_commit_def)
  then have "rom (kdev s') 1 = Some [([0x61], [0x31])]" "\<not> dirty (fb s' ! 1)" by simp_all
  moreover have "rom (kdev s) 1 = Some []" using demo_rom [of 1] by (simp add: s(3) demo_kdev)
  ultimately show ?thesis using s(1) s'(1) by blast
qed

text \<open>C11: loading the module refines the restoration of the persistent copy: it succeeds, every
  cache equals what its block decodes to, nothing is dirty and the flash is untouched.\<close>

theorem ra_nvram_init_refines:
  assumes "config_ok h (kdev s)" and "0 \<le> r" and "\<forall>j < 4. rom (kdev s) j \<noteq> None"
  shows "\<exists>s'. ra_nvram_init h r (knv_start (kdev s)) = Ret (0, s') \<and> knv_ok h s'
    \<and> abs_nv s' = spec_boot (abs_nv s) \<and> kdev s' = kdev s"
  using assms by (rule boot_refines)

theorem ra_nvram_init_refines_witness:
  "\<exists>s'. ra_nvram_init demo_heap 5 (knv_start (kdev (knv_start demo_dev))) = Ret (0, s')
    \<and> abs_nv s' = spec_boot (abs_nv (knv_start demo_dev))"
  using ra_nvram_init_refines [of demo_heap "knv_start demo_dev" 5] demo_config demo_rom
  by (auto simp: knv_start_def)

text \<open>C12: over every sequence of ioctl requests after a load from working flash with a working
  allocator, the module's invariant holds (blocks in place, caches well formed, semaphore
  free), and no request waits forever.\<close>

theorem nv_run_invariant:
  assumes "config_ok h d" and "nv_run h d s"
  shows "knv_ok h s \<and> ralink_nvram_ioctl h s req nvr \<noteq> Blocked"
  using nv_run_ok [OF assms(2,1)] ioctl_keeps [of h s req nvr] by (auto simp: keeps_io_def)

theorem nv_run_invariant_witness:
  "knv_ok demo_heap demo_knv
    \<and> ralink_nvram_ioctl demo_heap demo_knv 4 \<lparr>io_index = 0, io_name = [], io_value = [], io_user = True\<rparr> \<noteq> Blocked"
  using nv_run_invariant [OF demo_config nv_run.boot [OF demo_boot]] by simp

text \<open>C13: a request of user space that names a block, carries a terminated value shorter than
  \<open>MAX_VALUE_LEN\<close> and finds the block's text small enough always returns, with 0 or \<open>-EFAULT\<close>.\<close>

theorem ioctl_returns:
  assumes "knv_ok h s" and "index_ok (io_index nvr)"
    and "strchr NUL (io_value nvr) = Some (Some n)" and "n < MAX_VALUE_LEN"
    and "length (env_text (ram s (nat (io_index nvr)))) < data_len (fb s ! nat (io_index nvr))"
  shows "\<exists>r nvr' s'. ralink_nvram_ioctl h s req nvr = Ret (r, nvr', s') \<and> r \<in> {0, - EFAULT} \<and> knv_ok h s'"
proof -
  note ok = assms(1)
  obtain i where i: "i < 4" "io_index nvr = int i" using assms(2) by (rule index_okE)
  have "kmalloc_ok h MAX_VALUE_LEN" using config_okD(2) knv_okD(4) [OF ok] by blast
  moreover obtain d where "env_data (fb s ! i) = Some d" using knv_okD(8) [OF ok i(1)] by auto
  moreover have "\<exists>r s'. nvram_commit h s (int i) = Ret (r, s')"
    using nvram_commit_clean [OF ok i(1)] nvram_commit_dirty [OF ok i(1)] assms(5) i by fastforce
  moreover obtain r2 s2 where "nvram_set h s (int i) (io_name nvr) (take n (io_value nvr)) = Ret (r2, s2)"
    using set_refines [OF ok i(1)] by blast
  ultimately have "\<exists>r nvr' s'. ralink_nvram_ioctl h s req nvr = Ret (r, nvr', s') \<and> r \<in> {0, - EFAULT}"
    using i assms(3-5) nvram_get_ok [OF ok i(1)] clear_preserves [OF ok i(1)]
      nvram_getall_fits [OF ok i(1)] knv_okD(2) [OF ok]
    by (auto simp: ralink_nvram_ioctl_def Let_def copy_to_user_def)
  then show ?thesis using ioctl_keeps [OF ok, of req nvr] by auto
qed

theorem ioctl_returns_witness:
  "\<exists>r nvr' s'. ralink_nvram_ioctl demo_heap demo_knv 3
      \<lparr>io_index = 1, io_name = [0x61], io_value = [0x31, 0, 7], io_user = True\<rparr> = Ret (r, nvr', s')
    \<and> r \<in> {0, - EFAULT}"
  using ioctl_returns [OF demo_ok, of "\<lparr>io_index = 1, io_name = [0x61], io_value = [0x31, 0, 7], io_user = True\<rparr>" 1 3]
    blocks_atD(3) [OF knv_okD(1) [OF demo_ok], of 1] layout_bounds(2) [of 1]
  by (auto simp: demo_ram)

text \<open>What one process stores with \<open>RALINK_NVRAM_IOCTL_SET\<close>, another reads back with
  \<open>RALINK_NVRAM_IOCTL_GET\<close>: its buffer then starts with the value and a NUL, and the bytes of
  the buffer behind them are untouched.\<close>

theorem ioctl_set_get:
  assumes "knv_ok h s" and "i < 4" and "is_cstring v" and "length v < MAX_VALUE_LEN"
    and "length (AList.update n v (ram s i)) \<le> MAX_CACHE_ENTRY"
    and "length v < length buf"
  shows "\<exists>nvr s1 s2. ralink_nvram_ioctl h s RALINK_NVRAM_IOCTL_SET
      \<lparr>io_index = int i, io_name = n, io_value = v @ NUL # rest, io_user = True\<rparr> = Ret (0, nvr, s1)
    \<and> ralink_nvram_ioctl h s1 RALINK_NVRAM_IOCTL_GET
      \<lparr>io_index = int i, io_name = n, io_value = buf, io_user = True\<rparr>
      = Ret (0, \<lparr>io_index = int i, io_name = n, io_value = v @ NUL # drop (length v + 1) buf, io_user = True\<rparr>, s2)"
proof -
  have sp: "fst (spec_set (abs_nv s) i n v) = 0" "a_ram (snd (spec_set (abs_nv s) i n v)) i = AList.update n v (ram s i)"
    using assms(2,5) by (auto simp: spec_set_def length_update)
  obtain s1 where s1: "nvram_set h s (int i) n v = Ret (0, s1)" "knv_ok h s1"
    "abs_nv s1 = snd (spec_set (abs_nv s) i n v)"
    using set_refines [OF assms(1,2), of n v] sp(1) by auto
  then have "ram s1 i = AList.update n v (ram s i)" using sp(2) assms(2) by (metis abs_nv_sel(1))
  then have "nvram_get h s1 (int i) n = Ret (Some v, s1\<lparr>counter := counter s1 + 1\<rparr>)"
    using nvram_get_ok [OF s1(2) assms(2)] by (simp add: update_conv')
  moreover have "kmalloc_ok h MAX_VALUE_LEN" using config_okD(2) knv_okD(4) [OF assms(1)] by blast
  ultimately show ?thesis
    using s1(1) assms(2-4,6) by (auto simp: ralink_nvram_ioctl_def copy_to_user_def strchr_NUL patch_def)
qed

theorem ioctl_set_get_witness:
  "\<exists>nvr s1 s2. ralink_nvram_ioctl demo_heap demo_knv 3
      \<lparr>io_index = 3, io_name = [0x61], io_value = [0x31] @ NUL # [], io_user = True\<rparr> = Ret (0, nvr, s1)
    \<and> ralink_nvram_ioctl demo_heap s1 1
      \<lparr>io_index = 3, io_name = [0x61], io_value = [9, 9, 9], io_user = True\<rparr>
      = Ret (0, \<lparr>io_index = 3, io_name = [0x61], io_value = [0x31] @ NUL # [9], io_user = True\<rparr>, s2)"
  using ioctl_set_get [OF demo_ok, of 3 "[0x31]" "[0x61]" "[9, 9, 9]" "[]"] by (simp add: demo_ram)

text \<open>C36: after damage to a committed block, a change of at most four consecutive bytes of its
  data, the next load of the block reports the bad checksum, keeps the cache empty and marks
  the block usable.\<close>

theorem damaged_block_rejected:
  assumes "config_ok h (kdev s)" and "blocks_at (fb s)" and "i < 4"
    and "\<not> valid (fb s ! i)" and "cache (fb s ! i) = cache_of []"
    and "length u = length v" and "length u \<le> 4" and "u \<noteq> v"
    and "window (part_bytes RALINK_NVRAM_MTDNAME (kdev s)) (fst (layout ! i)) (snd (layout ! i))
      = crc_bytes (crc32_spec (pre @ u @ post)) @ pre @ v @ post"
  shows "\<exists>s'. init_nvram_block h s (int i) = Ret (- 1, s') \<and> ram s' i = [] \<and> valid (fb s' ! i)"
proof -
  let ?fl = "part_bytes RALINK_NVRAM_MTDNAME (kdev s)"
  have w: "window ?fl a CRC_SIZE = take CRC_SIZE (window ?fl a n)"
    "window ?fl (a + CRC_SIZE) (n - CRC_SIZE) = drop CRC_SIZE (window ?fl a n)" if "CRC_SIZE \<le> n" for a n
    using that by (simp_all add: window_def drop_take add.commute)
  have "CRC_SIZE \<le> snd (layout ! i)" using layout_bounds(2) [OF assms(3)] by simp
  note w' = w [OF this, of "fst (layout ! i)", unfolded assms(9)]
  have "window ?fl (fst (layout ! i)) CRC_SIZE = crc_bytes (crc32_spec (pre @ u @ post))"
    "window ?fl (fst (layout ! i) + CRC_SIZE) (snd (layout ! i) - CRC_SIZE) = pre @ v @ post"
    by (simp_all add: w')
  from corrupt_block_rejected [OF assms(1-5) this] crc32_spec_burst [OF assms(6-8), of pre post]
  show ?thesis by metis
qed

definition demo_damaged :: flash_dev where
  "demo_damaged = demo_dev\<lparr>dev_chip := demo_chip\<lparr>chip_mem :=
     replicate 0x6000 0 @ (crc_bytes (crc32_spec (replicate 8187 0 @ [1] @ [])) @ replicate 8187 0 @ [2] @ [])
     @ replicate 0x8000 0\<rparr>\<rparr>"

lemma demo_damaged_config: "config_ok demo_heap demo_damaged"
  by (simp add: config_ok_def heap_ok_def mtd_ok_def dev_ok_def part_ok_def get_mtd_device_nm_def
      demo_damaged_def demo_dev_def demo_chip_def demo_heap_def chip_ok_def mtd_limit_def)

lemma demo_damaged_bytes:
  "window (part_bytes RALINK_NVRAM_MTDNAME demo_damaged) (fst (layout ! 1)) (snd (layout ! 1))
    = crc_bytes (crc32_spec (replicate 8187 0 @ [1] @ [])) @ replicate 8187 0 @ [2] @ []"
  by (simp add: part_bytes_def get_mtd_device_nm_def demo_damaged_def demo_dev_def demo_chip_def
      window_def layout_def)

theorem damaged_block_rejected_witness:
  "\<exists>s'. init_nvram_block demo_heap (knv_start demo_damaged) 1 = Ret (- 1, s') \<and> ram s' 1 = [] \<and> valid (fb s' ! 1)"
  using damaged_block_rejected [of demo_heap "knv_start demo_damaged" 1 "[1]" "[2]" "replicate 8187 0" "[]"]
    demo_damaged_config demo_damaged_bytes fb_init_nth [of 1] boot_inv_start [OF demo_damaged_config, of True]
  by (simp add: knv_start_def boot_inv_def)

text \<open>\<open>nvram_clear\<close> empties the cache of its block but leaves flash that the module cannot load:
  it stores ones under a matching checksum, and at the next power-up the parser of
  \<open>init_nvram_block\<close>, accepting the checksum, searches for \<open>=\<close> past the end of its buffer.\<close>

theorem clear_then_boot_faults:
  assumes "knv_ok h s" and "i < 4" and "0 \<le> r"
  shows "\<exists>s'. nvram_clear h s (int i) = Ret (0, s') \<and> ram s' i = []
    \<and> ra_nvram_init h r (knv_start (kdev s')) = Fault"
proof -
  obtain s' where "nvram_clear h s (int i) = Ret (0, s')" "knv_ok h s'" "ram s' i = []" "rom (kdev s') i = None"
    using clear_preserves [OF assms(1,2)] by blast
  then show ?thesis
    using boot_run(1) [OF knv_okD(4) assms(3)] assms(2) by blast
qed

theorem clear_then_boot_faults_witness:
  "\<exists>s'. nvram_clear demo_heap demo_knv 0 = Ret (0, s') \<and> ra_nvram_init demo_heap 0 (knv_start (kdev s')) = Fault"
  using clear_then_boot_faults [OF demo_ok, of 0 0] by auto

text \<open>A module that was loaded while the buffer of block \<open>i\<close> could not be allocated: the load loop drops the error.\<close>

definition starved :: "nat \<Rightarrow> knv \<Rightarrow> bool" where
  "starved i s = (length (fb s) = 4 \<and> \<not> valid (fb s ! i) \<and> env_data (fb s ! i) = None \<and> cache (fb s ! i) = cache_of []
     \<and> flash_max_len (fb s ! i) = snd (layout ! i))"

lemma starved_start: "i < 4 \<Longrightarrow> starved i (knv_start d\<lparr>nvram_sem := b\<rparr>)"
proof -
  assume i: "i < 4"
  then have "i = 0 \<or> i = 1 \<or> i = 2 \<or> i = 3" by auto
  then have "env_data (fb_init ! i) = None \<and> flash_max_len (fb_init ! i) = snd (layout ! i)" by (auto simp: fb_init_def fb_entry_def layout_def)
  then show ?thesis using fb_init_nth [OF i] by (simp add: starved_def knv_start_def fb_init_def)
qed

lemma starved_state [simp]: "starved i (s\<lparr>nvram_sem := b\<rparr>) = starved i s" "starved i (s\<lparr>counter := c\<rparr>) = starved i s" "starved i (up s) = starved i s"
  by (simp_all add: starved_def up_def)

text \<open>Loading a block keeps the semaphore as it is, and it cannot load a block whose buffer is refused.\<close>

lemma starved_init:
  assumes "init_nvram_block h s (int j) = Ret (r, s')" and "starved i s" and "i < 4" and "j < 4" and "\<not> kmalloc_ok h (snd (layout ! i) - CRC_SIZE)"
  shows "starved i s' \<and> nvram_sem s' = nvram_sem s \<and> dirty (fb s' ! i) = dirty (fb s ! i)"
proof (cases "j = i")
  case True
  have "init_nvram_block h s (int i) = Ret (- ENOMEM, upd_fb i (\<lambda>b. b\<lparr>env_crc := crc_of_bytes (patch (crc_bytes (env_crc (fb s ! i))) 0
      (snd (ra_mtd_read_nm (kdev s) RALINK_NVRAM_MTDNAME (flash_offset (fb s ! i)) CRC_SIZE))), env_data := None\<rparr>) s)"
    using assms(2,3,5) by (simp add: init_nvram_block_def starved_def Let_def)
  with assms(1) True show ?thesis using assms(2,3) by (auto simp: starved_def)
next
  case False
  have "s' = s \<or> (\<exists>f. s' = upd_fb j f s)"
    using assms(1,4) by (auto simp: init_nvram_block_def Let_def obind_Ret_conv split: if_splits prod.splits)
  then show ?thesis using False assms(2-4) by (auto simp: starved_def)
qed

lemma starved_blocks:
  "init_blocks h is s = Ret s' \<Longrightarrow> starved i s \<Longrightarrow> i < 4 \<Longrightarrow> (\<forall>j \<in> set is. 0 \<le> j \<and> j < 4) \<Longrightarrow> \<not> kmalloc_ok h (snd (layout ! i) - CRC_SIZE)
    \<Longrightarrow> starved i s' \<and> nvram_sem s' = nvram_sem s"
proof (induction "is" arbitrary: s)
  case (Cons j "is")
  obtain r t where t: "init_nvram_block h s j = Ret (r, t)" "init_blocks h is t = Ret s'"
    using Cons.prems(1) by (auto simp: obind_Ret_conv)
  have "starved i t \<and> nvram_sem t = nvram_sem s"
    using starved_init [of h s "nat j" r t i] t(1) Cons.prems(2-5) by auto
  with Cons.IH [OF t(2)] Cons.prems(3-5) show ?case by simp
qed simp

lemma starved_load:
  assumes "ra_nvram_init h r (knv_start d) = Ret (0, s)" and "0 \<le> r" and "i < 4" and "\<not> kmalloc_ok h (snd (layout ! i) - CRC_SIZE)"
  shows "starved i s \<and> nvram_sem s"
proof -
  have "down (knv_start d\<lparr>nvram_sem := True\<rparr>) = Ret (knv_start d\<lparr>nvram_sem := False\<rparr>)" by (simp add: down_def)
  with assms(1,2) obtain t where "init_blocks h [0, 1, 2, 3] (knv_start d\<lparr>nvram_sem := False\<rparr>) = Ret t" "s = up t"
    by (auto simp: ra_nvram_init_def obind_Ret_conv simp del: init_blocks.simps)
  then show ?thesis using starved_blocks [of h "[0, 1, 2, 3]" _ t i] starved_start [OF assms(3)] assms(3,4) by (auto simp: up_def)
qed

lemma starved_enter:
  assumes "starved i s" and "i < 4" and "\<not> kmalloc_ok h (snd (layout ! i) - CRC_SIZE)"
  shows "\<exists>s'. RANV_CHECK_VALID h s (int i) = Ret s' \<and> starved i s' \<and> nvram_sem s' = nvram_sem s \<and> dirty (fb s' ! i) = dirty (fb s ! i)"
proof -
  have "\<exists>s'. init_nvram_block h s (int i) = Ret (- ENOMEM, s')"
    using assms by (simp add: init_nvram_block_def starved_def Let_def)
  then obtain s' where s': "init_nvram_block h s (int i) = Ret (- ENOMEM, s')" by blast
  then have "RANV_CHECK_VALID h s (int i) = Ret s'" using assms(1) by (simp add: RANV_CHECK_VALID_def starved_def)
  with starved_init [OF s' assms(1,2,2,3)] show ?thesis by blast
qed

text \<open>No operation on any block gets past the semaphore, whatever memory there is by then.\<close>

definition all_blocked :: "knv \<Rightarrow> bool" where
  "all_blocked s = (\<forall>h index n v buf. index_ok index \<longrightarrow> nvram_get h s index n = Blocked \<and> nvram_set h s index n v = Blocked
     \<and> nvram_commit h s index = Blocked \<and> nvram_clear h s index = Blocked \<and> nvram_getall h s index buf = Blocked)"

lemma all_blocked: "\<not> nvram_sem s \<Longrightarrow> all_blocked s"
  by (auto simp: all_blocked_def nvram_get_def nvram_set_def nvram_commit_def nvram_clear_def nvram_getall_def ra_nvram_close_def down_def)

lemma starved_clear:
  assumes "starved i s" and "nvram_sem s" and "i < 4" and "\<not> kmalloc_ok h (snd (layout ! i) - CRC_SIZE)"
  shows "nvram_clear h s (int i) = Ret (- ENOMEM, s\<lparr>nvram_sem := False\<rparr>)"
  using assms by (simp add: nvram_clear_def ra_nvram_close_def down_def ensure_data_def starved_def Let_def)

lemma starved_getall:
  assumes "starved i s" and "nvram_sem s" and "i < 4" and "\<not> kmalloc_ok h (snd (layout ! i) - CRC_SIZE)"
  shows "\<exists>s'. nvram_getall h s (int i) buf = Ret (- ENOMEM, s') \<and> \<not> nvram_sem s'"
proof -
  obtain s' where s': "RANV_CHECK_VALID h (s\<lparr>nvram_sem := False\<rparr>) (int i) = Ret s'" "starved i s'" "\<not> nvram_sem s'"
    using starved_enter [of i "s\<lparr>nvram_sem := False\<rparr>", OF _ assms(3,4)] assms(1) by auto
  then show ?thesis using assms(2-4) by (simp add: nvram_getall_def down_def ensure_data_def starved_def Let_def)
qed

lemma starved_set:
  assumes "starved i s" and "nvram_sem s" and "i < 4" and "\<not> kmalloc_ok h (snd (layout ! i) - CRC_SIZE)"
  shows "\<exists>s'. nvram_set h s (int i) n v = Ret (0, s') \<and> nvram_sem s' \<and> length (fb s') = 4 \<and> \<not> valid (fb s' ! i) \<and> dirty (fb s' ! i)
    \<and> env_data (fb s' ! i) = None \<and> flash_max_len (fb s' ! i) = snd (layout ! i)"
proof -
  obtain s' where s': "RANV_CHECK_VALID h (s\<lparr>nvram_sem := False\<rparr>) (int i) = Ret s'" "starved i s'"
    using starved_enter [of i "s\<lparr>nvram_sem := False\<rparr>", OF _ assms(3,4)] assms(1) by auto
  have "\<exists>es. cache_set (kmalloc_ok h) (cache_of []) n v = (0, es)"
    by (simp add: cache_set_def cache_idx_def cache_of_def numeral_eq_Suc empty_entry_def)
  then obtain es where "cache_set (kmalloc_ok h) (cache_of []) n v = (0, es)" by blast
  with s' assms(2,3) show ?thesis by (simp add: nvram_set_def down_def starved_def Let_def up_def)
qed

lemma starved_commit:
  assumes "length (fb s) = 4" and "\<not> valid (fb s ! i)" and "dirty (fb s ! i)" and "flash_max_len (fb s ! i) = snd (layout ! i)"
    and "nvram_sem s" and "i < 4" and "\<not> kmalloc_ok h (snd (layout ! i) - CRC_SIZE)"
  shows "\<exists>s'. nvram_commit h s (int i) = Ret (- ENOMEM, s') \<and> \<not> nvram_sem s'"
  using assms by (simp add: nvram_commit_def down_def RANV_CHECK_VALID_def init_nvram_block_def ensure_data_def Let_def)

text \<open>C38: memory shortage at load time deadlocks the module. When the buffer of a block cannot be allocated, \<open>ra_nvram_init\<close> drops the error and
  reports success. While the shortage lasts, \<open>nvram_clear\<close> and \<open>nvram_getall\<close> of that block, and \<open>nvram_commit\<close> after a \<open>nvram_set\<close> that
  reported success, return \<open>-ENOMEM\<close> with the semaphore still taken: from then on every operation on any block waits for ever, even when there is
  memory again.\<close>

theorem enomem_deadlocks:
  assumes "ra_nvram_init h r (knv_start d) = Ret (0, s)" and "0 \<le> r" and "i < 4" and "\<not> kmalloc_ok h (snd (layout ! i) - CRC_SIZE)"
  shows "\<exists>s1 s2 s3 s4. nvram_clear h s (int i) = Ret (- ENOMEM, s1) \<and> nvram_getall h s (int i) buf = Ret (- ENOMEM, s2)
    \<and> nvram_set h s (int i) n v = Ret (0, s3) \<and> nvram_commit h s3 (int i) = Ret (- ENOMEM, s4)
    \<and> all_blocked s1 \<and> all_blocked s2 \<and> all_blocked s4"
proof -
  have s: "starved i s" "nvram_sem s" using starved_load [OF assms] by simp_all
  obtain s2 where s2: "nvram_getall h s (int i) buf = Ret (- ENOMEM, s2)" "all_blocked s2"
    using starved_getall [OF s assms(3,4)] all_blocked by blast
  obtain s3 where s3: "nvram_set h s (int i) n v = Ret (0, s3)" "nvram_sem s3" "length (fb s3) = 4" "\<not> valid (fb s3 ! i)" "dirty (fb s3 ! i)"
    "flash_max_len (fb s3 ! i) = snd (layout ! i)" using starved_set [OF s assms(3,4)] by blast
  obtain s4 where s4: "nvram_commit h s3 (int i) = Ret (- ENOMEM, s4)" "all_blocked s4"
    using starved_commit [OF s3(3-6,2) assms(3,4)] all_blocked by blast
  have "all_blocked (s\<lparr>nvram_sem := False\<rparr>)" by (rule all_blocked) simp
  with starved_clear [OF s assms(3,4)] s2 s3(1) s4 show ?thesis by blast
qed

text \<open>A heap that has no run of pages for any of the four buffers.\<close>

definition short_heap :: kheap where
  "short_heap = \<lparr>kmalloc_ok = \<lambda>n. n < 0x1000, kjunk = \<lambda>_. 0\<rparr>"

lemma short_blocks: "starved 0 s \<Longrightarrow> starved 1 s \<Longrightarrow> starved 2 s \<Longrightarrow> starved 3 s \<Longrightarrow> (\<forall>j \<in> set is. 0 \<le> j \<and> j < 4) \<Longrightarrow> \<exists>t. init_blocks short_heap is s = Ret t"
proof (induction "is" arbitrary: s)
  case (Cons j "is")
  have no: "\<not> kmalloc_ok short_heap (snd (layout ! i) - CRC_SIZE)" if "i < 4" for i
  proof -
    have "i = 0 \<or> i = 1 \<or> i = 2 \<or> i = 3" using that by auto
    then show ?thesis by (auto simp: short_heap_def layout_def)
  qed
  have j: "0 \<le> j" "j < 4" using Cons.prems(5) by auto
  then have "nat j = 0 \<or> nat j = 1 \<or> nat j = 2 \<or> nat j = 3" by auto
  then have "starved (nat j) s" using Cons.prems(1-4) by auto
  then obtain t where t: "init_nvram_block short_heap s j = Ret (- ENOMEM, t)"
    using no [of "nat j"] j by (auto simp: init_nvram_block_def starved_def Let_def)
  have "starved i t" if "i < 4" "starved i s" for i
    using starved_init [of short_heap s "nat j" _ t i] t j no that by auto
  then have "\<exists>u. init_blocks short_heap is t = Ret u" using Cons.prems by (intro Cons.IH) auto
  with t show ?case by simp
qed simp

theorem enomem_deadlocks_witness:
  "\<exists>s s3 s4. ra_nvram_init short_heap 0 (knv_start demo_dev) = Ret (0, s) \<and> nvram_set short_heap s 0 [0x61] [0x31] = Ret (0, s3)
    \<and> nvram_commit short_heap s3 0 = Ret (- ENOMEM, s4) \<and> nvram_get demo_heap s4 2 [] = Blocked"
proof -
  obtain t where "init_blocks short_heap [0, 1, 2, 3] (knv_start demo_dev\<lparr>nvram_sem := False\<rparr>) = Ret t"
    using short_blocks [of "knv_start demo_dev\<lparr>nvram_sem := False\<rparr>" "[0, 1, 2, 3]"] starved_start by auto
  then have s: "ra_nvram_init short_heap 0 (knv_start demo_dev) = Ret (0, up t)" by (simp add: ra_nvram_init_def down_def del: init_blocks.simps)
  have "\<not> kmalloc_ok short_heap (snd (layout ! 0) - CRC_SIZE)" by (simp add: short_heap_def layout_def)
  from enomem_deadlocks [OF s order_refl _ this, of None "[0x61]" "[0x31]"] obtain s3 s4 where
    "nvram_set short_heap (up t) 0 [0x61] [0x31] = Ret (0, s3)" "nvram_commit short_heap s3 0 = Ret (- ENOMEM, s4)" "all_blocked s4" by auto
  moreover from this(3) have "nvram_get demo_heap s4 2 [] = Blocked" by (simp add: all_blocked_def)
  ultimately show ?thesis using s by blast
qed

text \<open>The size check of \<open>nvram_commit\<close> ("ENV_BLK_SIZE is not enough") is dead: it tests where an
  entry starts, against a limit above the size of the buffer. A block whose text does not fit
  never gets the promised error return; the loop writes past the end of its buffer.\<close>

theorem commit_oversized_faults:
  assumes "knv_ok h s" and "i < 4" and "dirty (fb s ! i)"
    and "data_len (fb s ! i) \<le> length (env_text (ram s i))"
  shows "nvram_commit h s (int i) = Fault"
  using assms by (rule nvram_commit_overflow)

theorem commit_oversized_faults_witness:
  "\<exists>s. nvram_set demo_heap demo_knv 0 [0x61] (replicate 0x4000 0x31) = Ret (0, s)
    \<and> nvram_commit demo_heap s 0 = Fault"
proof -
  let ?v = "replicate 0x4000 0x31 :: byte list"
  obtain s where s: "nvram_set demo_heap demo_knv 0 [0x61] ?v = Ret (0, s)" "knv_ok demo_heap s"
    "abs_nv s = snd (spec_set (abs_nv demo_knv) 0 [0x61] ?v)"
    using set_refines [OF demo_ok, of 0 "[0x61]" ?v] by (auto simp: spec_set_def demo_ram)
  then have "a_ram (abs_nv s) 0 = [([0x61], ?v)]" "a_dirty (abs_nv s) 0"
    by (simp_all add: spec_set_def demo_ram)
  then have "ram s 0 = ([0x61], ?v) # []" "dirty (fb s ! 0)" by simp_all
  moreover from this have "data_len (fb s ! 0) \<le> length (env_text (ram s 0))"
    using blocks_atD(3) [OF knv_okD(1) [OF s(2)], of 0] by (simp add: layout_def)
  ultimately show ?thesis
    using commit_oversized_faults [OF s(2), of 0] s(1) by auto
qed

end
