(* ===== verification/NvramApi.thy ===== *)
theory NvramApi
  imports EnvBlock
begin

text \<open>
  The contract between a configuration store and its clients, as a locale: a name/value
  list that \<open>put\<close> updates, \<open>get\<close> reads and \<open>commit\<close> makes persistent. The kernel module and both
  variants of the user library implement it; the tools that load and print configurations
  are verified against it. The client lemmas cover storing a whole list of settings.
\<close>

definition lookup :: "cstring option \<Rightarrow> (cstring \<times> cstring) list \<Rightarrow> cstring \<Rightarrow> cstring option" where
  "lookup miss kvs n = (case map_of kvs n of None \<Rightarrow> miss | Some v \<Rightarrow> Some v)"

fun put_all :: "('s \<Rightarrow> cstring \<Rightarrow> cstring \<Rightarrow> (int \<times> 's) outcome) \<Rightarrow> 's \<Rightarrow> (cstring \<times> cstring) list \<Rightarrow> 's outcome" where
  "put_all put s [] = Ret s"
| "put_all put s ((n, v) # kvs) = obind (put s n v) (\<lambda>(_, s). put_all put s kvs)"

fun update_all :: "(cstring \<times> cstring) list \<Rightarrow> (cstring \<times> cstring) list \<Rightarrow> (cstring \<times> cstring) list" where
  "update_all [] al = al"
| "update_all ((n, v) # kvs) al = update_all kvs (AList.update n v al)"

lemma lookup_update: "lookup miss (AList.update n v kvs) m = (if m = n then Some v else lookup miss kvs m)"
  by (simp add: lookup_def update_conv')

lemma length_update_le: "length al \<le> length (AList.update n v al)"
  by (simp add: length_update)

lemma length_update_all: "length al \<le> length (update_all kvs al)"
  by (induction kvs al rule: update_all.induct) (auto intro: order_trans [OF length_update_le])

lemma map_of_update_all: "map_of (update_all kvs al) = map_of al ++ map_of (rev kvs)"
  by (induction kvs al rule: update_all.induct) (auto simp: update_conv map_add_def fun_eq_iff split: option.splits)

lemma update_all_append: "update_all (xs @ ys) al = update_all ys (update_all xs al)"
  by (induction xs al rule: update_all.induct) auto

locale nvram_api =
  fixes get :: "'s \<Rightarrow> cstring \<Rightarrow> (cstring option \<times> 's) outcome"
    and put :: "'s \<Rightarrow> cstring \<Rightarrow> cstring \<Rightarrow> (int \<times> 's) outcome"
    and commit :: "'s \<Rightarrow> (int \<times> 's) outcome"
    and view :: "'s \<Rightarrow> (cstring \<times> cstring) list"
    and stored :: "'s \<Rightarrow> (cstring \<times> cstring) list option"
    and ok :: "'s \<Rightarrow> bool"
    and miss :: "cstring option"
    and vmax :: nat
    and fits :: "(cstring \<times> cstring) list \<Rightarrow> bool"
  assumes get_law: "ok s \<Longrightarrow> \<exists>s'. get s n = Ret (lookup miss (view s) n, s')
      \<and> ok s' \<and> view s' = view s \<and> stored s' = stored s"
    and put_law: "ok s \<Longrightarrow> is_cstring v \<Longrightarrow> length v < vmax \<Longrightarrow>
      length (AList.update n v (view s)) \<le> MAX_CACHE_ENTRY \<Longrightarrow>
      \<exists>s'. put s n v = Ret (0, s') \<and> ok s' \<and> view s' = AList.update n v (view s) \<and> stored s' = stored s"
    and commit_law: "ok s \<Longrightarrow> fits (view s) \<Longrightarrow>
      \<exists>s'. commit s = Ret (0, s') \<and> ok s' \<and> view s' = view s \<and> stored s' = Some (view s)"
begin

lemma put_then_get:
  assumes "ok s" and "is_cstring v" and "length v < vmax"
    and "length (AList.update n v (view s)) \<le> MAX_CACHE_ENTRY"
  shows "\<exists>s1 s2. put s n v = Ret (0, s1)
    \<and> get s1 m = Ret (if m = n then Some v else lookup miss (view s) m, s2)"
proof -
  obtain s1 where s1: "put s n v = Ret (0, s1)" "ok s1" "view s1 = AList.update n v (view s)"
    using put_law [OF assms] by blast
  moreover obtain s2 where "get s1 m = Ret (lookup miss (view s1) m, s2)" using get_law [OF s1(2)] by blast
  ultimately show ?thesis by (auto simp: lookup_def update_conv')
qed

lemma put_all_law:
  assumes "ok s" and "\<forall>(n, v) \<in> set kvs. is_cstring v \<and> length v < vmax"
    and "length (update_all kvs (view s)) \<le> MAX_CACHE_ENTRY"
  shows "\<exists>s'. put_all put s kvs = Ret s' \<and> ok s' \<and> view s' = update_all kvs (view s) \<and> stored s' = stored s"
  using assms
proof (induction kvs arbitrary: s)
  case (Cons kv kvs)
  obtain n v where kv: "kv = (n, v)" by (cases kv)
  let ?al = "AList.update n v (view s)"
  have "length ?al \<le> MAX_CACHE_ENTRY"
    using Cons.prems(3) length_update_all [of ?al kvs] kv by simp
  then obtain s1 where s1: "put s n v = Ret (0, s1)" "ok s1" "view s1 = ?al" "stored s1 = stored s"
    using put_law [of s v n] Cons.prems kv by auto
  from Cons.IH [OF s1(2)] Cons.prems(2,3) s1 kv show ?case by auto
qed auto

lemma put_all_commit:
  assumes "ok s" and "\<forall>(n, v) \<in> set kvs. is_cstring v \<and> length v < vmax"
    and "length (update_all kvs (view s)) \<le> MAX_CACHE_ENTRY" and "fits (update_all kvs (view s))"
  shows "\<exists>s1 s2. put_all put s kvs = Ret s1 \<and> commit s1 = Ret (0, s2) \<and> ok s2
    \<and> view s2 = update_all kvs (view s) \<and> stored s2 = Some (update_all kvs (view s))"
  using put_all_law [OF assms(1-3)] commit_law assms(4) by metis

end

end
