(* ===== verification/CText.thy ===== *)
theory CText
  imports Prelude
begin

text \<open>
  The text functions of the C library that the user-space programs call: line input
  (\<open>fgets\<close>), substring search, number parsing (\<open>atoi\<close>) and printing (\<open>%d\<close>, \<open>%X\<close>, \<open>%02X\<close>), and the
  bounded comparisons. Arguments are C strings without their NUL; a file is the list of its
  bytes. The main facts are the round trip of decimal printing and parsing and that \<open>fgets\<close>
  always makes progress.
\<close>

section \<open>Searching and comparing\<close>

fun strstr :: "cstring \<Rightarrow> cstring \<Rightarrow> bool" where
  "strstr hay needle =
     (take (length needle) hay = needle \<or> (case hay of [] \<Rightarrow> False | _ # h \<Rightarrow> strstr h needle))"

declare strstr.simps [simp del]

lemma strstr_append: "strstr (pre @ needle @ post) needle"
  by (induction pre) (subst strstr.simps, simp)+

text \<open>\<open>strncmp(a, b, n) == 0\<close>: the strings agree up to \<open>n\<close> bytes, the terminator included.\<close>

definition strneq :: "cstring \<Rightarrow> cstring \<Rightarrow> nat \<Rightarrow> bool" where
  "strneq a b n = (take n (a @ [NUL]) = take n (b @ [NUL]))"

definition tolower :: "byte \<Rightarrow> byte" where
  "tolower c = (if 0x41 \<le> c \<and> c \<le> 0x5A then c + 0x20 else c)"

definition strncaseeq :: "cstring \<Rightarrow> cstring \<Rightarrow> nat \<Rightarrow> bool" where
  "strncaseeq a b n = strneq (map tolower a) (map tolower b) n"

text \<open>Comparing with a bound above the length of the second string is equality.\<close>

lemma strneq_eq: "is_cstring a \<Longrightarrow> length b < n \<Longrightarrow> strneq a b n = (a = b)"
proof -
  assume a: "is_cstring a" and n: "length b < n"
  have "take n (b @ [NUL]) = b @ [NUL]" using n by simp
  then have "strneq a b n = (take n (a @ [NUL]) = b @ [NUL])" by (simp only: strneq_def)
  also have "\<dots> = (a = b)"
  proof
    assume eq: "take n (a @ [NUL]) = b @ [NUL]"
    have "\<not> n \<le> length a"
    proof
      assume "n \<le> length a"
      then have "take n a = b @ [NUL]" using eq by simp
      then have "NUL \<in> set a" using in_set_takeD [of NUL n a] by simp
      with a show False by (simp add: is_cstring_def)
    qed
    then have "take n (a @ [NUL]) = a @ [NUL]" by simp
    with eq show "a = b" by simp
  qed (use n in simp)
  finally show ?thesis .
qed

text \<open>The part of a path behind the last slash (\<open>strrchr\<close>).\<close>

definition basename :: "cstring \<Rightarrow> cstring" where
  "basename s = rev (takeWhile (\<lambda>c. c \<noteq> 0x2F) (rev s))"

section \<open>Line input\<close>

text \<open>\<open>fgets(buf, n, fp)\<close>: at most \<open>n - 1\<close> bytes up to and including a newline, and the rest of
  the file; \<open>None\<close> at the end of the file.\<close>

fun read_line :: "nat \<Rightarrow> byte list \<Rightarrow> byte list \<times> byte list" where
  "read_line 0 xs = ([], xs)"
| "read_line (Suc n) [] = ([], [])"
| "read_line (Suc n) (x # xs) =
     (if x = NEWLINE then ([x], xs) else let (l, r) = read_line n xs in (x # l, r))"

definition fgets :: "nat \<Rightarrow> byte list \<Rightarrow> (byte list \<times> byte list) option" where
  "fgets n file = (if file = [] then None else Some (read_line (n - 1) file))"

lemma read_line_append: "read_line n xs = (l, r) \<Longrightarrow> l @ r = xs"
  by (induction n xs arbitrary: l r rule: read_line.induct) (auto split: if_splits prod.splits)

lemma read_line_bound: "read_line n xs = (l, r) \<Longrightarrow> length l \<le> n"
  by (induction n xs arbitrary: l r rule: read_line.induct) (auto split: if_splits prod.splits)

lemma read_line_progress: "0 < n \<Longrightarrow> xs \<noteq> [] \<Longrightarrow> read_line n xs = (l, r) \<Longrightarrow> length r < length xs"
  by (cases n; cases xs) (auto split: if_splits prod.splits dest!: read_line_append)

lemma fgets_shorter: "fgets n file = Some (l, r) \<Longrightarrow> 2 \<le> n \<Longrightarrow> length r < length file"
  by (auto simp: fgets_def split: if_splits intro!: read_line_progress [of "n - 1"])

text \<open>A line that fits is read whole.\<close>

lemma read_line_line:
  "NEWLINE \<notin> set xs \<Longrightarrow> length xs < n \<Longrightarrow> read_line n (xs @ NEWLINE # rest) = (xs @ [NEWLINE], rest)"
proof (induction xs arbitrary: n)
  case Nil
  then show ?case by (cases n) auto
next
  case (Cons x xs)
  then show ?case by (cases n) auto
qed

lemma fgets_line:
  "NEWLINE \<notin> set xs \<Longrightarrow> length xs + 1 < n \<Longrightarrow> fgets n (xs @ NEWLINE # rest) = Some (xs @ [NEWLINE], rest)"
  by (simp add: fgets_def read_line_line)

section \<open>Numbers\<close>

definition isdigit :: "byte \<Rightarrow> bool" where
  "isdigit c = (0x30 \<le> c \<and> c \<le> 0x39)"

definition isspace :: "byte \<Rightarrow> bool" where
  "isspace c = (c = 0x20 \<or> 9 \<le> c \<and> c \<le> 13)"

fun digits_value :: "nat \<Rightarrow> cstring \<Rightarrow> nat" where
  "digits_value acc [] = acc"
| "digits_value acc (c # s) = (if isdigit c then digits_value (10 * acc + (unat c - 0x30)) s else acc)"

text \<open>\<open>strtol\<close> saturates at the limits of \<open>long\<close>, and \<open>atoi\<close> is \<open>strtol\<close>.\<close>

definition atoi :: "cstring \<Rightarrow> int" where
  "atoi s =
     (let s = dropWhile isspace s in
      case s of
        [] \<Rightarrow> 0
      | c # s' \<Rightarrow>
          if c = 0x2D then max (- (2 ^ 31)) (- int (digits_value 0 s'))
          else if c = 0x2B then min (2 ^ 31 - 1) (int (digits_value 0 s'))
          else min (2 ^ 31 - 1) (int (digits_value 0 s)))"

definition digit :: "nat \<Rightarrow> byte" where
  "digit d = of_nat (if d < 10 then 0x30 + d else 0x37 + d)"

fun print_base :: "nat \<Rightarrow> nat \<Rightarrow> cstring" where
  "print_base b n =
     (if n < b \<or> b < 2 then [digit n] else print_base b (n div b) @ [digit (n mod b)])"

declare print_base.simps [simp del]

lemma print_base_eval:
  "n < b \<Longrightarrow> print_base b n = [digit n]"
  "2 \<le> b \<Longrightarrow> b \<le> n \<Longrightarrow> print_base b n = print_base b (n div b) @ [digit (n mod b)]"
  by (subst print_base.simps; simp)+

text \<open>The formats \<open>%d\<close>, \<open>%X\<close> (also \<open>%0X\<close>) and \<open>%02X\<close>.\<close>

definition fmt_d :: "int \<Rightarrow> cstring" where
  "fmt_d i = (if i < 0 then 0x2D # print_base 10 (nat (- i)) else print_base 10 (nat i))"

definition fmt_X :: "nat \<Rightarrow> cstring" where
  "fmt_X n = print_base 16 n"

definition fmt_02X :: "nat \<Rightarrow> cstring" where
  "fmt_02X n = (if n < 16 then 0x30 # print_base 16 n else print_base 16 n)"

lemma digit_simps:
  "d < 10 \<Longrightarrow> isdigit (digit d)" "d < 10 \<Longrightarrow> unat (digit d) = 0x30 + d"
proof -
  assume d: "d < 10"
  have "unat (of_nat (0x30 + d) :: byte) = (0x30 + d) mod 2 ^ LENGTH(8)" by (rule unat_of_nat)
  then show u: "unat (digit d) = 0x30 + d" using d by (simp add: digit_def)
  with d show "isdigit (digit d)" by (simp add: isdigit_def word_le_nat_alt)
qed

lemma digits_value_append:
  "\<forall>c \<in> set xs. isdigit c \<Longrightarrow> digits_value acc (xs @ ys) = digits_value (digits_value acc xs) ys"
  by (induction xs arbitrary: acc) auto

lemma print_base_digits: "\<forall>c \<in> set (print_base 10 n). isdigit c"
  by (induction "10 :: nat" n rule: print_base.induct)
    (subst print_base.simps, auto simp: digit_simps)

lemma digits_value_print: "digits_value 0 (print_base 10 n) = n"
proof (induction "10 :: nat" n rule: print_base.induct)
  case (1 n)
  show ?case
  proof (cases "n < 10")
    case True
    then show ?thesis by (subst print_base.simps) (simp add: digit_simps)
  next
    case False
    then show ?thesis
      using 1 by (subst print_base.simps) (simp add: digits_value_append print_base_digits digit_simps)
  qed
qed

lemma print_base_nonempty [simp]: "print_base b n \<noteq> []"
  by (subst print_base.simps) auto

lemma isdigit_special: "isdigit c \<Longrightarrow> c \<noteq> 0x2D \<and> c \<noteq> 0x2B \<and> \<not> isspace c"
proof -
  assume "isdigit c"
  then have "0x30 \<le> unat c" "unat c \<le> 0x39" by (simp_all add: isdigit_def word_le_nat_alt)
  then show ?thesis by (auto simp: isspace_def word_le_nat_alt)
qed

lemma dropWhile_digits:
  "s \<noteq> [] \<Longrightarrow> \<forall>c \<in> set s. isdigit c \<Longrightarrow> dropWhile isspace s = s"
  by (cases s) (auto simp: isdigit_special)

lemma atoi_fmt_d:
  assumes "- (2 ^ 31) \<le> i" and "i < 2 ^ 31"
  shows "atoi (fmt_d i) = i"
proof (cases "i < 0")
  case True
  then show ?thesis using assms
    by (simp add: atoi_def fmt_d_def isspace_def digits_value_print)
next
  case False
  let ?s = "print_base 10 (nat i)"
  obtain c s where s: "?s = c # s" by (cases ?s) auto
  have "isdigit c" using print_base_digits [of "nat i"] by (simp add: s)
  moreover have "dropWhile isspace ?s = ?s" using print_base_digits by (intro dropWhile_digits) auto
  ultimately show ?thesis
    using False assms digits_value_print [of "nat i"] isdigit_special [of c]
    by (simp add: atoi_def fmt_d_def s)
qed

end
