(* ===== verification/FlashApi.thy ===== *)
theory FlashApi
  imports RaMtd CText
begin

text \<open>
  Flash access from user space: the character device of the MTD layer (drivers/mtd/mtdchar.c
  and the /proc/mtd listing of drivers/mtd/mtdcore.c) and, on top of it, the functions of
  lib/libnvram/flash_api.c. A process sees the \<open>flash_dev\<close> of \<open>RaMtd\<close>; an open file is its
  partition and its position. The main facts: \<open>flash_write\<close> changes exactly the bytes it is
  given, over any number of erase blocks, except when its first step takes the branch for
  whole erase blocks at a non-zero offset; and within one erase block the pair
  \<open>flash_read\<close>, \<open>flash_write\<close> implements the same \<open>block_store\<close> contract as the kernel's own
  interface.
\<close>

section \<open>drivers/mtd/mtdcore.c: /proc/mtd\<close>

definition fmt_08x :: "nat \<Rightarrow> cstring" where
  "fmt_08x n = (let s = map (\<lambda>c. if 0x41 \<le> c \<and> c \<le> 0x46 then c + 0x20 else c) (print_base 16 n)
     in replicate (8 - length s) 0x30 @ s)"

definition mtd_proc_info :: "flash_dev \<Rightarrow> nat \<Rightarrow> mtd_part \<Rightarrow> cstring" where
  "mtd_proc_info d i p = lit ''mtd'' @ fmt_d (int i) @ lit '': '' @ fmt_08x (part_size p) @ lit '' ''
     @ fmt_08x (chip_sector (dev_chip d)) @ [0x20, 0x22] @ part_name p @ [0x22, NEWLINE]"

definition mtd_read_proc :: "flash_dev \<Rightarrow> byte list" where
  "mtd_read_proc d = lit ''dev:    size   erasesize  name'' @ [NEWLINE]
     @ concat (map (\<lambda>(i, p). mtd_proc_info d i p) (enumerate 0 (dev_table d)))"

section \<open>drivers/mtd/mtdchar.c\<close>

abbreviation (input) MAX_KMALLOC_SIZE :: nat where "MAX_KMALLOC_SIZE \<equiv> 0x20000"

text \<open>\<open>mtd_open\<close> of the driver for minor \<open>2 * i\<close>; \<open>None\<close> is an error return.\<close>

definition mtdchar_open :: "kheap \<Rightarrow> flash_dev \<Rightarrow> nat \<Rightarrow> bool \<Rightarrow> mtd_part option" where
  "mtdchar_open h d i rw =
     (if i < length (dev_table d) then
        (if rw \<and> \<not> part_writeable (dev_table d ! i) then None
         else if \<not> kmalloc_ok h 8 then None
         else Some (dev_table d ! i))
      else None)"

text \<open>\<open>mtd_lseek\<close> with \<open>SEEK_SET\<close>: the new file position.\<close>

definition mtd_lseek :: "mtd_part \<Rightarrow> nat \<Rightarrow> nat \<Rightarrow> nat" where
  "mtd_lseek p pos off = (if off \<le> part_size p then off else pos)"

text \<open>\<open>mtd_read\<close>: the return value, the bytes copied to the caller and the new position.\<close>

function mtd_read_loop :: "flash_dev \<Rightarrow> mtd_part \<Rightarrow> nat \<Rightarrow> nat \<Rightarrow> byte list \<Rightarrow> int \<times> byte list \<times> nat" where
  "mtd_read_loop d p pos count got =
     (if count = 0 then (int (length got), got, pos)
      else let len = min count MAX_KMALLOC_SIZE; (ret, b) = part_read (dev_chip d) p pos len in
        if ret = 0 then
          (if b = [] then (int (length got), got, pos)
           else mtd_read_loop d p (pos + length b) (count - length b) (got @ b))
        else (ret, got, pos))"
  by pat_completeness auto
termination
  by (relation "measure (\<lambda>(d, p, pos, count, got). count)") auto

declare mtd_read_loop.simps [simp del]

definition mtd_read :: "kheap \<Rightarrow> flash_dev \<Rightarrow> mtd_part \<Rightarrow> nat \<Rightarrow> nat \<Rightarrow> int \<times> byte list \<times> nat" where
  "mtd_read h d p pos count =
     (let count = (if pos + count > part_size p then part_size p - pos else count) in
      if count = 0 then (0, [], pos)
      else if \<not> kmalloc_ok h (min count MAX_KMALLOC_SIZE) then (- ENOMEM, [], pos)
      else mtd_read_loop d p pos count [])"

text \<open>\<open>mtd_write\<close>: a write that succeeds without transferring a byte is repeated unchanged for
  ever, which is \<open>Blocked\<close>.\<close>

function mtd_write_loop ::
  "flash_dev \<Rightarrow> mtd_part \<Rightarrow> nat \<Rightarrow> byte list \<Rightarrow> nat \<Rightarrow> (int \<times> nat \<times> flash_dev) outcome" where
  "mtd_write_loop d p pos buf sofar =
     (if buf = [] then Ret (int sofar, pos, d)
      else let len = min (length buf) MAX_KMALLOC_SIZE;
               (ret, retlen, c) = part_write (dev_chip d) p pos (take len buf);
               d = d\<lparr>dev_chip := c\<rparr> in
        if ret = 0 then
          (if retlen = 0 then Blocked
           else mtd_write_loop d p (pos + retlen) (drop retlen buf) (sofar + retlen))
        else Ret (ret, pos, d))"
  by pat_completeness auto
termination
  by (relation "measure (\<lambda>(d, p, pos, buf, sofar). length buf)") auto

declare mtd_write_loop.simps [simp del]

definition mtd_write ::
  "kheap \<Rightarrow> flash_dev \<Rightarrow> mtd_part \<Rightarrow> nat \<Rightarrow> byte list \<Rightarrow> (int \<times> nat \<times> flash_dev) outcome" where
  "mtd_write h d p pos buf =
     (if pos = part_size p then Ret (- ENOSPC, pos, d)
      else let count = (if pos + length buf > part_size p then part_size p - pos else length buf) in
        if count = 0 then Ret (0, pos, d)
        else if \<not> kmalloc_ok h (min count MAX_KMALLOC_SIZE) then Ret (- ENOMEM, pos, d)
        else mtd_write_loop d p pos (take count buf) 0)"

text \<open>\<open>MEMERASE\<close> on a file opened for writing; \<open>struct erase_info\<close> has 48 bytes.\<close>

definition memerase :: "kheap \<Rightarrow> flash_dev \<Rightarrow> mtd_part \<Rightarrow> nat \<Rightarrow> nat \<Rightarrow> (int \<times> flash_dev) outcome" where
  "memerase h d p start len =
     (if \<not> kmalloc_ok h 48 then Ret (- ENOMEM, d)
      else obind (part_erase (dev_chip d) p start len) (\<lambda>(ret, c). Ret (ret, d\<lparr>dev_chip := c\<rparr>)))"

section \<open>lib/libnvram/flash_api.c\<close>

text \<open>\<open>sscanf(dev, "mtd%d:", &i)\<close>: the return value (-1 at the end of the input) and \<open>i\<close>.\<close>

definition sscanf_mtd :: "cstring \<Rightarrow> int \<times> int option" where
  "sscanf_mtd s =
     (if length s < 3 \<and> s = take (length s) (lit ''mtd'') then (- 1, None)
      else if take 3 s \<noteq> lit ''mtd'' then (0, None)
      else let n = dropWhile isspace (drop 3 s) in
        case n of
          [] \<Rightarrow> (- 1, None)
        | c # n' \<Rightarrow>
            if isdigit c \<or> (c = 0x2D \<or> c = 0x2B) \<and> n' \<noteq> [] \<and> isdigit (hd n') then (1, Some (atoi n)) else (0, None))"

text \<open>The process: the kernel's allocator, its own, which flash device nodes exist and whether
  \<open>/dev/nvram\<close> opens.\<close>

record uenv =
  u_kheap :: kheap
  u_heap :: kheap
  u_node :: "int \<Rightarrow> bool"
  u_nvdev :: bool

function mtd_open_scan :: "uenv \<Rightarrow> flash_dev \<Rightarrow> cstring \<Rightarrow> bool \<Rightarrow> byte list \<Rightarrow> mtd_part option outcome" where
  "mtd_open_scan e d name rw proc =
     (case fgets 80 proc of
        None \<Rightarrow> Ret None
      | Some (line, rest) \<Rightarrow>
          let dev = cstr line; (n, i) = sscanf_mtd dev in
          if n \<noteq> 0 \<and> strstr dev name then
            (case i of
               None \<Rightarrow> Fault
             | Some i \<Rightarrow> Ret (if 0 \<le> i \<and> u_node e i then mtdchar_open (u_kheap e) d (nat i) rw else None))
          else mtd_open_scan e d name rw rest)"
  by pat_completeness auto
termination
  by (relation "measure (\<lambda>(e, d, name, rw, proc). length proc)") (auto dest: fgets_shorter)

declare mtd_open_scan.simps [simp del]

definition mtd_open :: "uenv \<Rightarrow> flash_dev \<Rightarrow> cstring \<Rightarrow> bool \<Rightarrow> mtd_part option outcome" where
  "mtd_open e d name rw = mtd_open_scan e d name rw (mtd_read_proc d)"

definition flash_read :: "uenv \<Rightarrow> flash_dev \<Rightarrow> nat \<Rightarrow> nat \<Rightarrow> (int \<times> byte list) outcome" where
  "flash_read e d from len =
     obind (mtd_open e d (lit ''Config'') False) (\<lambda>fd.
     case fd of
       None \<Rightarrow> Ret (- 1, [])
     | Some p \<Rightarrow>
         if len > part_size p then Ret (- 1, [])
         else let (ret, got, _) = mtd_read (u_kheap e) d p (mtd_lseek p 0 from) len
              in Ret (if ret < 0 then - 1 else ret, got))"

text \<open>The loop of \<open>flash_write\<close> and \<open>flash_write_ralink_eeprom\<close>; the last argument is the value
  \<open>ret\<close> would return with.\<close>

function write_loop :: "uenv \<Rightarrow> flash_dev \<Rightarrow> mtd_part \<Rightarrow> nat \<Rightarrow> nat \<Rightarrow> byte list \<Rightarrow> int \<Rightarrow> (int \<times> flash_dev) outcome" where
  "write_loop e d p pos to buf ret =
     (let es = chip_sector (dev_chip d) in
      if buf = [] then Ret (ret, d)
      else if es = 0 then Fault
      else if length buf AND (es - 1) \<noteq> 0 \<or> length buf < es then
        (if \<not> kmalloc_ok (u_heap e) es then Ret (- 1, d)
         else
           let piece = to AND (es - 1); bakaddr = to - piece;
               (ret, got, pos) = mtd_read (u_kheap e) d p (mtd_lseek p pos bakaddr) es in
           if ret < 0 then Ret (- 1, d)
           else
             let piece_size = min (length buf) (es - piece);
                 bak = patch (patch (fresh (u_heap e) es) 0 got) piece (take piece_size buf) in
             obind (memerase (u_kheap e) d p bakaddr es) (\<lambda>(r, d).
             if r < 0 then Ret (- 1, d)
             else obind (mtd_write (u_kheap e) d p (mtd_lseek p pos bakaddr) bak) (\<lambda>(r, pos, d).
               if r < 0 then Ret (- 1, d)
               else if piece_size = 0 then Blocked
               else write_loop e d p pos (to + piece_size) (drop piece_size buf) r)))
      else
        obind (memerase (u_kheap e) d p to es) (\<lambda>(r, d).
        if r < 0 then Ret (- 1, d)
        else obind (mtd_write (u_kheap e) d p pos (take es buf)) (\<lambda>(r, pos, d).
          if r < 0 then Ret (- 1, d)
          else write_loop e d p pos (to + es) (drop es buf) r)))"
  by pat_completeness auto
termination
  by (relation "measure (\<lambda>(e, d, p, pos, to, buf, ret). length buf)") auto

declare write_loop.simps [simp del]

text \<open>The two writers differ in the partition they open.\<close>

definition flash_write_part :: "cstring \<Rightarrow> uenv \<Rightarrow> flash_dev \<Rightarrow> nat \<Rightarrow> byte list \<Rightarrow> (int \<times> flash_dev) outcome" where
  "flash_write_part name e d to buf =
     obind (mtd_open e d name True) (\<lambda>fd.
     case fd of
       None \<Rightarrow> Ret (- 1, d)
     | Some p \<Rightarrow>
         if length buf > part_size p then Ret (- 1, d)
         else write_loop e d p 0 to buf 0)"

definition flash_write :: "uenv \<Rightarrow> flash_dev \<Rightarrow> nat \<Rightarrow> byte list \<Rightarrow> (int \<times> flash_dev) outcome" where
  "flash_write e d to buf = flash_write_part (lit ''Config'') e d to buf"

definition flash_write_ralink_eeprom :: "uenv \<Rightarrow> flash_dev \<Rightarrow> nat \<Rightarrow> byte list \<Rightarrow> (int \<times> flash_dev) outcome" where
  "flash_write_ralink_eeprom e d to buf = flash_write_part (lit ''Factory'') e d to buf"

definition flash_write_passkey_ralink :: "uenv \<Rightarrow> flash_dev \<Rightarrow> byte list \<Rightarrow> (int \<times> flash_dev) outcome" where
  "flash_write_passkey_ralink e d buf =
     (if length buf < 0x1000 then Fault else flash_write_ralink_eeprom e d 0x5000 (take 0x1000 buf))"

text \<open>The readers of the \<open>Factory\<close> partition: a few bytes from a fixed offset.\<close>

definition read_factory :: "uenv \<Rightarrow> flash_dev \<Rightarrow> nat \<Rightarrow> nat \<Rightarrow> (int \<times> byte list) outcome" where
  "read_factory e d from len =
     obind (mtd_open e d (lit ''Factory'') False) (\<lambda>fd.
     case fd of
       None \<Rightarrow> Ret (- 1, [])
     | Some p \<Rightarrow>
         let (ret, got, _) = mtd_read (u_kheap e) d p (mtd_lseek p 0 from) len
         in Ret (if ret < 0 then - 1 else ret, got))"

definition flash_read_sharekey :: "uenv \<Rightarrow> flash_dev \<Rightarrow> (int \<times> byte list) outcome" where
  "flash_read_sharekey e d = read_factory e d 0x5000 8"

definition flash_read_size_eeprom_rf :: "uenv \<Rightarrow> flash_dev \<Rightarrow> nat \<Rightarrow> (int \<times> byte list) outcome" where
  "flash_read_size_eeprom_rf e d sz = read_factory e d 0x5000 sz"

definition flash_read_mac :: "uenv \<Rightarrow> flash_dev \<Rightarrow> (int \<times> byte list) outcome" where
  "flash_read_mac e d = read_factory e d 0x2E 6"

definition flash_read_wlan_mac :: "uenv \<Rightarrow> flash_dev \<Rightarrow> (int \<times> byte list) outcome" where
  "flash_read_wlan_mac e d = read_factory e d 0x04 6"

definition flash_read_NicConf :: "uenv \<Rightarrow> flash_dev \<Rightarrow> (int \<times> byte list) outcome" where
  "flash_read_NicConf e d = read_factory e d 0x34 6"

section \<open>The character device on a working partition\<close>

text \<open>Erase sectors are powers of two and the partition consists of whole sectors.\<close>

definition sectors_ok :: "flash_dev \<Rightarrow> mtd_part \<Rightarrow> bool" where
  "sectors_ok d p = (part_ok d p \<and> (\<exists>k. chip_sector (dev_chip d) = 2 ^ k)
     \<and> chip_sector (dev_chip d) dvd part_size p)"

abbreviation (input) set_mem :: "flash_dev \<Rightarrow> byte list \<Rightarrow> flash_dev" where
  "set_mem d m \<equiv> d\<lparr>dev_chip := (dev_chip d)\<lparr>chip_mem := m\<rparr>\<rparr>"

abbreviation (input) dev_mem :: "flash_dev \<Rightarrow> byte list" where
  "dev_mem d \<equiv> chip_mem (dev_chip d)"

lemma part_okD:
  assumes "part_ok d p"
  shows "chip_ok (dev_chip d)" "part_writeable p" "part_offset p + part_size p \<le> length (dev_mem d)"
    "part_offset p mod chip_sector (dev_chip d) = 0"
  using assms by (simp_all add: part_ok_def)

lemma part_ok_set_mem [simp]:
  "length m = length (dev_mem d) \<Longrightarrow> part_ok (set_mem d m) p = part_ok d p"
  "length m = length (dev_mem d) \<Longrightarrow> sectors_ok (set_mem d m) p = sectors_ok d p"
  by (simp_all add: part_ok_def sectors_ok_def)

lemma part_read_ok:
  assumes "part_ok d p" and "pos + len \<le> part_size p"
  shows "part_read (dev_chip d) p pos len = (0, window (dev_mem d) (part_offset p + pos) len)"
proof -
  have "(if pos \<ge> part_size p then 0 else if pos + len > part_size p then part_size p - pos else len) = len"
    using assms(2) by auto
  then show ?thesis
    using assms part_okD [OF assms(1)] by (simp only: part_read_def Let_def) (simp add: ramtd_read_ok add.commute)
qed

lemma part_write_ok:
  assumes "part_ok d p" and "pos + length buf \<le> part_size p"
    and "window (dev_mem d) (part_offset p + pos) (length buf) = replicate (length buf) 0xFF"
  shows "part_write (dev_chip d) p pos buf = (0, length buf, (dev_chip d)
    \<lparr>chip_mem := patch (dev_mem d) (part_offset p + pos) buf\<rparr>)"
proof -
  have "take (if pos \<ge> part_size p then 0
      else if pos + length buf > part_size p then part_size p - pos else length buf) buf = buf"
    using assms(2) by (cases buf) auto
  then show ?thesis
    using assms part_okD [OF assms(1)]
    by (simp only: part_write_def Let_def) (simp add: ramtd_write_ok add.commute)
qed

lemma window_append:
  "window m off a @ window m (off + a) b = window m off (a + b)"
  by (simp add: window_def take_add add.commute)

lemma mtd_read_loop_ok:
  assumes "part_ok d p" and "pos + count \<le> part_size p"
  shows "mtd_read_loop d p pos count got = (int (length got + count),
    got @ window (dev_mem d) (part_offset p + pos) count, pos + count)"
  using assms(2)
proof (induction count arbitrary: pos got rule: less_induct)
  case (less count)
  show ?case
  proof (cases "count = 0")
    case True
    then show ?thesis by (subst mtd_read_loop.simps) (simp add: window_def)
  next
    case False
    define n where "n = min count 0x20000"
    let ?b = "window (dev_mem d) (part_offset p + pos) n"
    have n: "0 < n" "n \<le> count" using False by (auto simp: n_def)
    have len: "length ?b = n" using less.prems n part_okD(3) [OF assms(1)] by simp
    have rd: "part_read (dev_chip d) p pos n = (0, ?b)"
      using less.prems n by (intro part_read_ok [OF assms(1)]) auto
    have "mtd_read_loop d p pos count got = mtd_read_loop d p (pos + n) (count - n) (got @ ?b)"
      using False len n by (subst mtd_read_loop.simps) (auto simp: rd Let_def simp flip: n_def)
    also have "\<dots> = (int (length (got @ ?b) + (count - n)),
        (got @ ?b) @ window (dev_mem d) (part_offset p + (pos + n)) (count - n), pos + n + (count - n))"
      using less.prems n by (intro less.IH) auto
    finally show ?thesis
      using n len window_append [of "dev_mem d" "part_offset p + pos" n "count - n"] by (simp add: add.assoc)
  qed
qed

lemma mtd_read_ok:
  assumes "part_ok d p" and "pos + count \<le> part_size p" and "\<And>n. kmalloc_ok h n"
  shows "mtd_read h d p pos count = (int count, window (dev_mem d) (part_offset p + pos) count, pos + count)"
  using assms mtd_read_loop_ok [of d p pos count "[]"] by (simp add: mtd_read_def window_def)

lemma mtd_write_loop_ok:
  assumes "part_ok d p" and "pos + length buf \<le> part_size p"
    and "window (dev_mem d) (part_offset p + pos) (length buf) = replicate (length buf) 0xFF"
  shows "mtd_write_loop d p pos buf sofar = Ret (int (sofar + length buf), pos + length buf,
    set_mem d (patch (dev_mem d) (part_offset p + pos) buf))"
  using assms
proof (induction buf arbitrary: d pos sofar rule: length_induct)
  case (1 buf)
  show ?case
  proof (cases "buf = []")
    case True
    then show ?thesis by (subst mtd_write_loop.simps) simp
  next
    case False
    define n where "n = min (length buf) 0x20000"
    have n: "0 < n" "n \<le> length buf" using False by (auto simp: n_def)
    let ?a = "take n buf" and ?b = "drop n buf" and ?o = "part_offset p + pos"
    define d' where "d' = set_mem d (patch (dev_mem d) ?o ?a)"
    have mem: "?o + length buf \<le> length (dev_mem d)" using "1.prems"(2) part_okD(3) [OF "1.prems"(1)] by simp
    note erased = window_replicate_suffix [OF "1.prems"(3) n(2) mem]
    have wr: "part_write (dev_chip d) p pos ?a = (0, n, (dev_chip d)\<lparr>chip_mem := patch (dev_mem d) ?o ?a\<rparr>)"
      using part_write_ok [OF "1.prems"(1), of pos ?a] "1.prems"(2) n erased(1) by simp
    have d': "part_ok d' p" "dev_mem d' = patch (dev_mem d) ?o ?a"
      using "1.prems"(1) mem n by (simp_all add: d'_def)
    have "mtd_write_loop d p pos buf sofar = mtd_write_loop d' p (pos + n) ?b (sofar + n)"
      using False n by (subst mtd_write_loop.simps) (simp add: Let_def wr d'_def flip: n_def)
    also have "\<dots> = Ret (int (sofar + n + length ?b), pos + n + length ?b,
        set_mem d' (patch (dev_mem d') (part_offset p + (pos + n)) ?b))"
    proof -
      have "window (dev_mem d') (part_offset p + (pos + n)) (length ?b) = replicate (length ?b) 0xFF"
        using mem n erased(2) by (simp add: d'(2) window_patch_disjoint add.assoc)
      moreover have "length ?b < length buf" using n by simp
      moreover have "pos + n + length ?b \<le> part_size p" using "1.prems"(2) n by simp
      ultimately show ?thesis using "1.IH" d'(1) by blast
    qed
    also have "patch (dev_mem d') (part_offset p + (pos + n)) ?b = patch (dev_mem d) ?o buf"
      using patch_patch_adjacent [of ?o ?a ?b "dev_mem d"] mem n by (simp add: d'(2) add.assoc)
    finally show ?thesis using n by (simp add: d'_def)
  qed
qed

lemma mtd_write_ok:
  assumes "part_ok d p" and "pos + length buf \<le> part_size p" and "buf \<noteq> []" and "\<And>n. kmalloc_ok h n"
    and "window (dev_mem d) (part_offset p + pos) (length buf) = replicate (length buf) 0xFF"
  shows "mtd_write h d p pos buf = Ret (int (length buf), pos + length buf,
    set_mem d (patch (dev_mem d) (part_offset p + pos) buf))"
proof -
  have "0 < length buf" using assms(3) by simp
  then have "pos \<noteq> part_size p" using assms(2) by linarith
  then show ?thesis using assms mtd_write_loop_ok [OF assms(1,2,5), of 0] by (simp add: mtd_write_def Let_def)
qed

lemma memerase_ok:
  assumes "part_ok d p" and "start mod chip_sector (dev_chip d) = 0"
    and "start + chip_sector (dev_chip d) \<le> part_size p" and "\<And>n. kmalloc_ok h n"
  shows "memerase h d p start (chip_sector (dev_chip d)) = Ret (0, set_mem d
    (patch (dev_mem d) (part_offset p + start) (replicate (chip_sector (dev_chip d)) 0xFF)))"
proof -
  let ?c = "dev_chip d" and ?a = "start + part_offset p"
  note ok = part_okD [OF assms(1)]
  have "?a + chip_sector ?c \<le> length (chip_mem ?c)" using ok assms(3) by simp
  moreover have "?a mod chip_sector ?c = 0" using assms(2) ok(4) by (simp add: mod_add_eq [symmetric])
  ultimately have "ramtd_erase ?c ?a (chip_sector ?c)
      = Ret (0, ?c\<lparr>chip_mem := patch (chip_mem ?c) ?a (replicate (chip_sector ?c) 0xFF)\<rparr>)"
    using ramtd_erase_ok [OF ok(1), of ?a "chip_sector ?c"] by simp
  moreover have "?a < 2 ^ 32" using ok(3) chip_okD(4,5) [OF ok(1)] assms(3) by linarith
  ultimately show ?thesis
    using assms ok(2) chip_okD(4) [OF ok(1)] by (simp add: memerase_def part_erase_def add.commute)
qed

section \<open>The write loop\<close>

definition user_ok :: "uenv \<Rightarrow> bool" where
  "user_ok e = (\<forall>n. kmalloc_ok (u_kheap e) n \<and> kmalloc_ok (u_heap e) n)"

lemma and_mask_mod: "n AND (2 ^ k - 1) = n mod (2 ^ k :: nat)"
  by (simp flip: take_bit_eq_mod add: take_bit_eq_mask mask_eq_exp_minus_1)

lemma sector_of:
  fixes es :: nat
  assumes "es dvd sz" and "to < sz" and "0 < es"
  shows "to - to mod es + es \<le> sz" "(to - to mod es) mod es = 0"
proof -
  obtain m where m: "sz = es * m" using assms(1) by blast
  have "to div es < m" using assms(2) m by (simp add: less_mult_imp_div_less mult.commute)
  then have "es * (to div es) + es \<le> es * m" by (metis Suc_leI mult_Suc_right mult_le_mono2 add.commute)
  then show "to - to mod es + es \<le> sz" by (simp add: m minus_mod_eq_mult_div)
  show "(to - to mod es) mod es = 0" by (simp add: minus_mod_eq_mult_div)
qed

text \<open>Rewriting one erase sector of the partition through a copy: the read, erase, write steps.\<close>

lemma rewrite_sector:
  assumes "sectors_ok d p" and "user_ok e" and "to < part_size p"
  defines "es \<equiv> chip_sector (dev_chip d)"
  defines "a \<equiv> to - to mod es"
  shows "mtd_read (u_kheap e) d p (mtd_lseek p pos a) es = (int es, window (dev_mem d) (part_offset p + a) es, a + es)"
    "length bak = es \<Longrightarrow> \<exists>d1. memerase (u_kheap e) d p a es = Ret (0, d1)
      \<and> mtd_write (u_kheap e) d1 p (mtd_lseek p pos' a) bak
        = Ret (int es, a + es, set_mem d (patch (dev_mem d) (part_offset p + a) bak))"
proof -
  have ok: "part_ok d p" "es dvd part_size p" "0 < es" "\<And>n. kmalloc_ok (u_kheap e) n"
    using assms(1,2) chip_okD(4) [of "dev_chip d"] by (auto simp: sectors_ok_def part_ok_def es_def user_ok_def)
  note sec = sector_of [OF ok(2) assms(3) ok(3), folded a_def]
  have seek: "mtd_lseek p q a = a" for q using sec(1) by (simp add: mtd_lseek_def)
  show "mtd_read (u_kheap e) d p (mtd_lseek p pos a) es = (int es, window (dev_mem d) (part_offset p + a) es, a + es)"
    using mtd_read_ok [OF ok(1) sec(1) ok(4)] by (simp add: seek)
  assume bak: "length bak = es"
  let ?m = "patch (dev_mem d) (part_offset p + a) (replicate es 0xFF)"
  have inside: "part_offset p + a + es \<le> length (dev_mem d)" using sec(1) part_okD(3) [OF ok(1)] by simp
  have er: "memerase (u_kheap e) d p a es = Ret (0, set_mem d ?m)"
    using memerase_ok [OF ok(1), of a "u_kheap e"] sec ok(4) by (simp add: es_def)
  have "window ?m (part_offset p + a) (length bak) = replicate (length bak) 0xFF"
    using window_patch_same [of "part_offset p + a" "replicate es 0xFF" "dev_mem d"] inside bak by simp
  then have "mtd_write (u_kheap e) (set_mem d ?m) p a bak = Ret (int es, a + es, set_mem (set_mem d ?m)
      (patch ?m (part_offset p + a) bak))"
    using mtd_write_ok [of "set_mem d ?m" p a bak "u_kheap e"] ok inside sec(1) bak by fastforce
  moreover have "patch ?m (part_offset p + a) bak = patch (dev_mem d) (part_offset p + a) bak"
    using inside bak by (simp add: patch_patch_same)
  ultimately show "\<exists>d1. memerase (u_kheap e) d p a es = Ret (0, d1)
      \<and> mtd_write (u_kheap e) d1 p (mtd_lseek p pos' a) bak
        = Ret (int es, a + es, set_mem d (patch (dev_mem d) (part_offset p + a) bak))"
    using er by (simp add: seek)
qed

lemma sectors_okD:
  assumes "sectors_ok d p" and "user_ok e"
  shows "part_ok d p" "chip_sector (dev_chip d) dvd part_size p" "0 < chip_sector (dev_chip d)"
    "n AND (chip_sector (dev_chip d) - 1) = n mod chip_sector (dev_chip d)"
    "kmalloc_ok (u_heap e) m" "kmalloc_ok (u_kheap e) m"
    "part_offset p + part_size p \<le> length (dev_mem d)"
  using assms chip_okD(4) [of "dev_chip d"]
  by (auto simp: sectors_ok_def part_ok_def user_ok_def and_mask_mod [unfolded One_nat_def])

text \<open>One round of the loop, in its two branches.\<close>

lemma write_loop_partial:
  assumes ok: "sectors_ok d p" "user_ok e" and buf: "buf \<noteq> []" and fits: "to + length buf \<le> part_size p"
    and part: "length buf mod chip_sector (dev_chip d) \<noteq> 0"
  defines "es \<equiv> chip_sector (dev_chip d)"
  defines "ps \<equiv> min (length buf) (es - to mod es)"
  shows "write_loop e d p pos to buf ret = write_loop e
    (set_mem d (patch (dev_mem d) (part_offset p + to) (take ps buf))) p
    (to - to mod es + es) (to + ps) (drop ps buf) (int es)" and "0 < ps" and "ps \<le> length buf"
    and "ps < length buf \<Longrightarrow> to - to mod es + es = to + ps \<and> (to + ps) mod es = 0"
proof -
  note D = sectors_okD [OF ok, folded es_def]
  have lt: "to < part_size p" "0 < length buf" "to mod es < es" "to mod es \<le> to"
    using buf fits D(3) by (simp_all) (metis fits le_less_trans length_greater_0_conv less_add_same_cancel1 less_le_trans buf)
  show ps: "0 < ps" "ps \<le> length buf" using lt by (auto simp: ps_def)
  show "ps < length buf \<Longrightarrow> to - to mod es + es = to + ps \<and> (to + ps) mod es = 0"
  proof -
    assume "ps < length buf"
    then have "ps = es - to mod es" by (auto simp: ps_def)
    then have "to - to mod es + es = to + ps" using lt by simp
    moreover have "(to - to mod es + es) mod es = 0" by (simp add: minus_mod_eq_mult_div)
    ultimately show ?thesis by simp
  qed
  let ?a = "to - to mod es"
  define bak where "bak = patch (window (dev_mem d) (part_offset p + ?a) es) (to mod es) (take ps buf)"
  note sec = sector_of [OF D(2) lt(1) D(3)]
  have inside: "part_offset p + ?a + es \<le> length (dev_mem d)" using sec(1) D(7) by linarith
  have wlen: "length (window (dev_mem d) (part_offset p + ?a) es) = es" using inside by simp
  have room: "to mod es + length (take ps buf) \<le> es" using lt by (simp add: ps_def)
  have bak: "length bak = es" using room wlen by (simp add: bak_def)
  note rw = rewrite_sector [OF ok lt(1), folded es_def]
  obtain d1 where d1: "memerase (u_kheap e) d p ?a es = Ret (0, d1)"
    "mtd_write (u_kheap e) d1 p (mtd_lseek p (?a + es) ?a) bak
      = Ret (int es, ?a + es, set_mem d (patch (dev_mem d) (part_offset p + ?a) bak))"
    using rw(2) [OF bak, of "?a + es"] by blast
  have "patch (patch (fresh (u_heap e) es) 0 (window (dev_mem d) (part_offset p + ?a) es)) (to mod es) (take ps buf) = bak"
    using wlen by (simp add: bak_def)
  then have "write_loop e d p pos to buf ret = write_loop e
      (set_mem d (patch (dev_mem d) (part_offset p + ?a) bak)) p (?a + es) (to + ps) (drop ps buf) (int es)"
    using buf part D(3,5) ps(1) rw(1) [of pos] d1
    by (subst write_loop.simps) (simp add: D(4) [unfolded One_nat_def] Let_def flip: es_def ps_def)
  also have "patch (dev_mem d) (part_offset p + ?a) bak = patch (dev_mem d) (part_offset p + to) (take ps buf)"
    using patch_block [of "part_offset p + ?a" es "dev_mem d" "to mod es" "take ps buf"] inside room lt(4)
    by (simp add: bak_def)
  finally show "write_loop e d p pos to buf ret = write_loop e
    (set_mem d (patch (dev_mem d) (part_offset p + to) (take ps buf))) p
    (?a + es) (to + ps) (drop ps buf) (int es)" .
qed

lemma write_loop_whole:
  assumes ok: "sectors_ok d p" "user_ok e" and buf: "buf \<noteq> []" and fits: "to + length buf \<le> part_size p"
    and whole: "length buf mod chip_sector (dev_chip d) = 0" and to: "to mod chip_sector (dev_chip d) = 0"
  defines "es \<equiv> chip_sector (dev_chip d)"
  shows "write_loop e d p to to buf ret = write_loop e
    (set_mem d (patch (dev_mem d) (part_offset p + to) (take es buf))) p
    (to + es) (to + es) (drop es buf) (int es)" and "es \<le> length buf"
proof -
  note D = sectors_okD [OF ok, folded es_def]
  show le: "es \<le> length buf"
  proof (rule ccontr)
    assume "\<not> es \<le> length buf"
    then have "length buf mod es = length buf" by simp
    then show False using whole buf by (simp add: es_def)
  qed
  have lt: "to < part_size p" using fits buf le D(3) by linarith
  have seek: "mtd_lseek p q to = to" for q using lt by (simp add: mtd_lseek_def)
  have "length (take es buf) = es" using le by simp
  from rewrite_sector(2) [OF ok lt, folded es_def, OF this, of to] to obtain d1
    where "memerase (u_kheap e) d p to es = Ret (0, d1)"
      "mtd_write (u_kheap e) d1 p to (take es buf)
        = Ret (int es, to + es, set_mem d (patch (dev_mem d) (part_offset p + to) (take es buf)))"
    by (auto simp: es_def seek)
  then show "write_loop e d p to to buf ret = write_loop e
    (set_mem d (patch (dev_mem d) (part_offset p + to) (take es buf))) p
    (to + es) (to + es) (drop es buf) (int es)"
    using buf whole D(3) le by (subst write_loop.simps) (simp add: D(4) [unfolded One_nat_def] Let_def flip: es_def)
qed

lemma write_loop_ok:
  assumes "sectors_ok d p" and "user_ok e" and "to + length buf \<le> part_size p"
    and "buf = [] \<or> length buf mod chip_sector (dev_chip d) \<noteq> 0
      \<or> pos = to \<and> to mod chip_sector (dev_chip d) = 0"
  shows "\<exists>r. write_loop e d p pos to buf ret = Ret (r, set_mem d (patch (dev_mem d) (part_offset p + to) buf))
    \<and> (0 \<le> ret \<longrightarrow> 0 \<le> r)"
  using assms
proof (induction buf arbitrary: d pos to ret rule: length_induct)
  case (1 buf)
  note ok = "1.prems"(1,2) and fits = "1.prems"(3)
  let ?es = "chip_sector (dev_chip d)"
  note D = sectors_okD [OF ok]
  have step: ?case if ps: "0 < ps" "ps \<le> length buf"
    and run: "write_loop e d p pos to buf ret = write_loop e
      (set_mem d (patch (dev_mem d) (part_offset p + to) (take ps buf))) p pos' (to + ps) (drop ps buf) (int ?es)"
    and al: "ps < length buf \<longrightarrow> pos' = to + ps \<and> (to + ps) mod ?es = 0" for ps pos'
  proof -
    let ?m = "patch (dev_mem d) (part_offset p + to) (take ps buf)"
    have inside: "part_offset p + to + length buf \<le> length (dev_mem d)" using D(7) fits by simp
    have "length (drop ps buf) < length buf" "to + ps + length (drop ps buf) \<le> part_size p"
      using ps fits by simp_all
    moreover have "sectors_ok (set_mem d ?m) p" using ok(1) inside ps by simp
    moreover have "drop ps buf = [] \<or> pos' = to + ps \<and> (to + ps) mod chip_sector (dev_chip (set_mem d ?m)) = 0"
      using al ps(2) by auto
    ultimately have "\<exists>r. write_loop e (set_mem d ?m) p pos' (to + ps) (drop ps buf) (int ?es)
        = Ret (r, set_mem (set_mem d ?m) (patch (dev_mem (set_mem d ?m)) (part_offset p + (to + ps)) (drop ps buf)))
        \<and> (0 \<le> int ?es \<longrightarrow> 0 \<le> r)"
      using ok(2) by (intro "1.IH" [rule_format]) auto
    then obtain r where r: "write_loop e (set_mem d ?m) p pos' (to + ps) (drop ps buf) (int ?es)
        = Ret (r, set_mem d (patch ?m (part_offset p + (to + ps)) (drop ps buf)))" "0 \<le> r"
      by auto
    have "patch ?m (part_offset p + (to + ps)) (drop ps buf) = patch (dev_mem d) (part_offset p + to) buf"
      using patch_patch_adjacent [of "part_offset p + to" "take ps buf" "drop ps buf" "dev_mem d"] inside ps
      by (simp add: add.assoc)
    with r run show ?thesis by auto
  qed
  show ?case
  proof (cases "buf = []")
    case True
    then show ?thesis by (subst write_loop.simps) (auto simp: Let_def)
  next
    case False
    show ?thesis
    proof (cases "length buf mod ?es = 0")
      case True
      then have "pos = to" "to mod ?es = 0" using "1.prems"(4) False by auto
      with write_loop_whole [OF ok False fits True] D(3) show ?thesis
        by (intro step [of ?es "to + ?es"]) auto
    next
      case nz: False
      note part = write_loop_partial [OF ok False fits nz]
      show ?thesis by (rule step [OF part(2,3,1)]) (use part(4) in blast)
    qed
  qed
qed

section \<open>The library functions\<close>

lemma mtd_open_scan_mem [simp]:
  "mtd_open_scan e (set_mem d m) name rw proc = mtd_open_scan e d name rw proc"
proof (induction e d name rw proc rule: mtd_open_scan.induct)
  case (1 e d name rw proc)
  then show ?case
    by (subst (1 2) mtd_open_scan.simps)
      (auto simp: mtdchar_open_def Let_def split: option.splits prod.splits)
qed

lemma mtd_open_mem [simp]: "mtd_open e (set_mem d m) name rw = mtd_open e d name rw"
proof -
  have "mtd_proc_info (set_mem d m) = mtd_proc_info d" by (simp add: mtd_proc_info_def fun_eq_iff)
  then show ?thesis by (simp add: mtd_open_def mtd_read_proc_def)
qed

text \<open>A process that finds the \<open>Config\<close> partition, in working order, under its name.\<close>

definition flash_ok :: "uenv \<Rightarrow> flash_dev \<Rightarrow> bool" where
  "flash_ok e d = (user_ok e \<and> (\<exists>p. get_mtd_device_nm d (lit ''Config'') = Some p \<and> sectors_ok d p
     \<and> (\<forall>rw. mtd_open e d (lit ''Config'') rw = Ret (Some p))))"

lemma flash_okE:
  assumes "flash_ok e d"
  obtains p where "get_mtd_device_nm d (lit ''Config'') = Some p" "sectors_ok d p"
    "\<forall>rw. mtd_open e d (lit ''Config'') rw = Ret (Some p)" "user_ok e"
    "length (part_bytes (lit ''Config'') d) = part_size p"
  using assms by (auto simp: flash_ok_def part_bytes_def sectors_ok_def part_ok_def simp del: lit_Cons)

lemma flash_read_ok:
  assumes "flash_ok e d" and "from + len \<le> length (part_bytes (lit ''Config'') d)"
  shows "flash_read e d from len = Ret (int len, window (part_bytes (lit ''Config'') d) from len)"
proof -
  obtain p where p: "get_mtd_device_nm d (lit ''Config'') = Some p" "sectors_ok d p"
    "\<forall>rw. mtd_open e d (lit ''Config'') rw = Ret (Some p)" "user_ok e"
    "length (part_bytes (lit ''Config'') d) = part_size p"
    using assms(1) by (rule flash_okE)
  have fits: "from + len \<le> part_size p" using assms(2) p(5) by simp
  note D = sectors_okD [OF p(2,4)]
  have "window (window (dev_mem d) (part_offset p) (part_size p)) from len
      = window (dev_mem d) (part_offset p + from) len"
    using fits D(7) by (intro nth_equalityI) (auto simp: nth_window add.assoc)
  then have "window (dev_mem d) (part_offset p + from) len = window (part_bytes (lit ''Config'') d) from len"
    using p(1) by (simp add: part_bytes_def del: lit_Cons)
  then show ?thesis
    using fits mtd_read_ok [OF D(1) fits, of "u_kheap e"] D(6)
    by (simp add: flash_read_def p(3) mtd_lseek_def del: lit_Cons)
qed

lemma flash_write_ok:
  assumes ok: "flash_ok e d" and fits: "to + length buf \<le> length (part_bytes (lit ''Config'') d)"
    and start: "length buf mod chip_sector (dev_chip d) \<noteq> 0 \<or> to = 0"
  shows "\<exists>r d'. flash_write e d to buf = Ret (r, d') \<and> 0 \<le> r \<and> flash_ok e d'
    \<and> dev_table d' = dev_table d \<and> chip_sector (dev_chip d') = chip_sector (dev_chip d)
    \<and> part_bytes (lit ''Config'') d' = patch (part_bytes (lit ''Config'') d) to buf"
proof -
  obtain p where p: "get_mtd_device_nm d (lit ''Config'') = Some p" "sectors_ok d p"
    "\<forall>rw. mtd_open e d (lit ''Config'') rw = Ret (Some p)" "user_ok e"
    "length (part_bytes (lit ''Config'') d) = part_size p"
    using ok by (rule flash_okE)
  let ?d = "set_mem d (patch (dev_mem d) (part_offset p + to) buf)"
  have size: "to + length buf \<le> part_size p" using fits p(5) by simp
  have "buf = [] \<or> length buf mod chip_sector (dev_chip d) \<noteq> 0 \<or> 0 = to \<and> to mod chip_sector (dev_chip d) = 0"
    using start by auto
  from write_loop_ok [OF p(2,4) size this, of 0] obtain r where
    "write_loop e d p 0 to buf 0 = Ret (r, ?d)" "0 \<le> r" by auto
  then have "flash_write e d to buf = Ret (r, ?d)"
    using size by (simp add: flash_write_def flash_write_part_def p(3) del: lit_Cons)
  moreover have inside: "part_offset p + part_size p \<le> length (dev_mem d)" using sectors_okD(7) [OF p(2,4)] .
  moreover have "part_bytes (lit ''Config'') ?d = patch (part_bytes (lit ''Config'') d) to buf"
    using p(1) size inside by (simp add: part_bytes_def window_patch_shift del: lit_Cons)
  moreover have "flash_ok e ?d" using p size inside by (auto simp: flash_ok_def simp del: lit_Cons)
  ultimately show ?thesis using \<open>0 \<le> r\<close> by auto
qed

lemma sectors_ok_board: "same_board d d' \<Longrightarrow> sectors_ok d' p = sectors_ok d p"
  by (simp add: sectors_ok_def same_board_simps)

lemma mtd_open_board: "same_board d d' \<Longrightarrow> mtd_open e d' name rw = mtd_open e d name rw"
proof -
  assume b: "same_board d d'"
  have "mtdchar_open h d' i rw = mtdchar_open h d i rw" for h i rw
    by (simp add: mtdchar_open_def same_board_simps [OF b])
  then have "mtd_open_scan e d' name rw proc = mtd_open_scan e d name rw proc" for proc
  proof (induction e d' name rw proc rule: mtd_open_scan.induct)
    case (1 e d' name rw proc)
    then show ?case
      by (subst (1 2) mtd_open_scan.simps) (auto simp: Let_def split: option.split prod.split)
  qed
  moreover have "mtd_read_proc d' = mtd_read_proc d"
    by (simp add: mtd_read_proc_def mtd_proc_info_def same_board_simps [OF b])
  ultimately show ?thesis by (simp add: mtd_open_def)
qed

lemma flash_ok_board: "same_board d d' \<Longrightarrow> flash_ok e d \<Longrightarrow> flash_ok e d'"
  by (auto simp: flash_ok_def same_board_simps sectors_ok_board mtd_open_board simp del: lit_Cons)

text \<open>Within the first erase block the library is a byte store like the kernel's.\<close>

interpretation flash: block_store "flash_read e" "flash_write e" "part_bytes (lit ''Config'')" mtd_limit "flash_ok e" for e
proof
  fix d assume ok: "flash_ok e d"
  then obtain p where p: "sectors_ok d p" "length (part_bytes (lit ''Config'') d) = part_size p"
    by (rule flash_okE)
  show lim: "mtd_limit d \<le> length (part_bytes (lit ''Config'') d)"
    using p by (simp add: mtd_limit_def sectors_ok_def part_ok_def)
  show "\<exists>r. flash_read e d off len = Ret (r, window (part_bytes (lit ''Config'') d) off len)"
    if "off + len \<le> mtd_limit d" for off len
    using flash_read_ok [OF ok] lim that by simp
  show "\<exists>r d'. flash_write e d off buf = Ret (r, d') \<and> flash_ok e d' \<and> mtd_limit d' = mtd_limit d
      \<and> part_bytes (lit ''Config'') d' = patch (part_bytes (lit ''Config'') d) off buf"
    if fits: "off + length buf \<le> mtd_limit d" for off buf
  proof -
    have "length buf mod chip_sector (dev_chip d) \<noteq> 0 \<or> off = 0 \<or> buf = []"
      using fits by (cases "length buf = mtd_limit d") (auto simp: mtd_limit_def)
    moreover have "flash_write e d off [] = Ret (0, d)" if "buf = []"
      using ok by (auto elim!: flash_okE simp: flash_write_def flash_write_part_def Let_def
          write_loop.simps simp del: lit_Cons)
    ultimately show ?thesis
      using flash_write_ok [OF ok, of off buf] fits lim ok by (auto simp: mtd_limit_def)
  qed
qed

section \<open>The partition table of the 4 MB board\<close>

definition board_table :: "mtd_part list" where
  "board_table =
     [\<lparr>part_name = lit ''ALL'', part_offset = 0, part_size = 0x400000, part_writeable = True\<rparr>,
      \<lparr>part_name = lit ''Bootloader'', part_offset = 0, part_size = 0x30000, part_writeable = True\<rparr>,
      \<lparr>part_name = lit ''Config'', part_offset = 0x30000, part_size = 0x10000, part_writeable = True\<rparr>,
      \<lparr>part_name = lit ''Factory'', part_offset = 0x40000, part_size = 0x10000, part_writeable = True\<rparr>]"

definition board_dev :: "byte \<Rightarrow> flash_dev" where
  "board_dev v = \<lparr>dev_chip = \<lparr>chip_mem = replicate 0x400000 v, chip_sector = 0x10000, chip_sr = \<lambda>_. Some 0,
     chip_addr4b = False, chip_tx = \<lambda>_ n. int n, chip_rx = \<lambda>_ n. int n\<rparr>, dev_table = board_table\<rparr>"

definition board_env :: uenv where
  "board_env = \<lparr>u_kheap = \<lparr>kmalloc_ok = \<lambda>_. True, kjunk = \<lambda>_. 0\<rparr>,
     u_heap = \<lparr>kmalloc_ok = \<lambda>_. True, kjunk = \<lambda>_. 0\<rparr>, u_node = \<lambda>_. True, u_nvdev = True\<rparr>"

lemma board_sector: "chip_sector (dev_chip (board_dev v)) = 0x10000" "dev_table (board_dev v) = board_table"
  by (simp_all add: board_dev_def)

lemma replicate_pad: "replicate 2 x = [x, x]" "replicate 3 x = [x, x, x]"
  by (simp_all add: eval_nat_numeral)

lemma board_proc: "mtd_read_proc (board_dev v) = lit ''dev:    size   erasesize  name'' @ [NEWLINE]
    @ lit ''mtd0: 00400000 00010000 '' @ [0x22] @ lit ''ALL'' @ [0x22, NEWLINE]
    @ lit ''mtd1: 00030000 00010000 '' @ [0x22] @ lit ''Bootloader'' @ [0x22, NEWLINE]
    @ lit ''mtd2: 00010000 00010000 '' @ [0x22] @ lit ''Config'' @ [0x22, NEWLINE]
    @ lit ''mtd3: 00010000 00010000 '' @ [0x22] @ lit ''Factory'' @ [0x22, NEWLINE]"
  unfolding mtd_read_proc_def mtd_proc_info_def board_sector board_table_def
  by (simp add: fmt_08x_def fmt_d_def print_base_eval digit_def Let_def replicate_pad)

lemma fgets_steps:
  "fgets n (x # xs) = Some (read_line (n - 1) (x # xs))" "fgets n [] = None"
  by (simp_all add: fgets_def)

lemma strstr_eval:
  "strstr [] needle = (needle = [])"
  "strstr (x # hay) needle = (take (length needle) (x # hay) = needle \<or> strstr hay needle)"
  by (subst strstr.simps; auto)+

text \<open>Scanning \<open>/proc/mtd\<close>: a line without the name is passed over, the first with it decides.\<close>

lemma cstr_line: "is_cstring l \<Longrightarrow> cstr (l @ [NEWLINE]) = l @ [NEWLINE]"
  by (auto simp: cstr_def is_cstring_def takeWhile_eq_all_conv)

lemma scan_skip:
  assumes "NEWLINE \<notin> set l" "length l < 79" "is_cstring l" "\<not> strstr (l @ [NEWLINE]) name"
  shows "mtd_open_scan e d name rw (l @ NEWLINE # rest) = mtd_open_scan e d name rw rest"
  using assms fgets_line [of l 80 rest] cstr_line [of l]
  by (subst mtd_open_scan.simps) (simp add: Let_def split: prod.split)

lemma scan_hit:
  assumes "NEWLINE \<notin> set l" "length l < 79" "is_cstring l" "strstr (l @ [NEWLINE]) name"
    and "sscanf_mtd (l @ [NEWLINE]) = (1, Some i)" "0 \<le> i" "u_node e i"
  shows "mtd_open_scan e d name rw (l @ NEWLINE # rest) = Ret (mtdchar_open (u_kheap e) d (nat i) rw)"
  using assms fgets_line [of l 80 rest] cstr_line [of l]
  by (subst mtd_open_scan.simps) (simp add: Let_def split: prod.split)

definition board_line :: "nat \<Rightarrow> cstring" where
  "board_line i =
     [lit ''dev:    size   erasesize  name'',
      lit ''mtd0: 00400000 00010000 '' @ [0x22] @ lit ''ALL'' @ [0x22],
      lit ''mtd1: 00030000 00010000 '' @ [0x22] @ lit ''Bootloader'' @ [0x22],
      lit ''mtd2: 00010000 00010000 '' @ [0x22] @ lit ''Config'' @ [0x22],
      lit ''mtd3: 00010000 00010000 '' @ [0x22] @ lit ''Factory'' @ [0x22]] ! i"

lemma board_line_ok:
  "i < 5 \<Longrightarrow> NEWLINE \<notin> set (board_line i) \<and> length (board_line i) < 79 \<and> is_cstring (board_line i)"
proof -
  assume "i < 5"
  then have "i = 0 \<or> i = 1 \<or> i = 2 \<or> i = 3 \<or> i = 4" by auto
  then show ?thesis by (auto simp: board_line_def)
qed

lemma board_proc_lines:
  "mtd_read_proc (board_dev v) = board_line 0 @ NEWLINE # board_line 1 @ NEWLINE # board_line 2 @ NEWLINE
    # board_line 3 @ NEWLINE # board_line 4 @ [NEWLINE]"
  by (simp add: board_proc board_line_def)

lemmas board_skip = scan_skip [OF conjunct1 [OF board_line_ok] conjunct1 [OF conjunct2 [OF board_line_ok]]
    conjunct2 [OF conjunct2 [OF board_line_ok]]]

lemmas board_hit = scan_hit [OF conjunct1 [OF board_line_ok] conjunct1 [OF conjunct2 [OF board_line_ok]]
    conjunct2 [OF conjunct2 [OF board_line_ok]]]

lemma board_strstr:
  "\<not> strstr (board_line 0 @ [NEWLINE]) (lit ''Config'')" "\<not> strstr (board_line 1 @ [NEWLINE]) (lit ''Config'')"
  "\<not> strstr (board_line 2 @ [NEWLINE]) (lit ''Config'')" "strstr (board_line 3 @ [NEWLINE]) (lit ''Config'')"
  "\<not> strstr (board_line 0 @ [NEWLINE]) (lit ''Factory'')" "\<not> strstr (board_line 1 @ [NEWLINE]) (lit ''Factory'')"
  "\<not> strstr (board_line 2 @ [NEWLINE]) (lit ''Factory'')" "\<not> strstr (board_line 3 @ [NEWLINE]) (lit ''Factory'')"
  "strstr (board_line 4 @ [NEWLINE]) (lit ''Factory'')"
  by (simp_all add: board_line_def strstr_eval)

lemma board_sscanf:
  "sscanf_mtd (board_line 3 @ [NEWLINE]) = (1, Some 2)" "sscanf_mtd (board_line 4 @ [NEWLINE]) = (1, Some 3)"
  by (simp_all add: board_line_def sscanf_mtd_def Let_def isspace_def isdigit_def atoi_def)

lemma board_open: "mtd_open board_env (board_dev v) (lit ''Config'') rw = Ret (Some (board_table ! 2))"
proof -
  have "mtd_open board_env (board_dev v) (lit ''Config'') rw
      = Ret (mtdchar_open (u_kheap board_env) (board_dev v) (nat 2) rw)"
    unfolding mtd_open_def board_proc_lines
    by (simp add: board_skip board_hit board_strstr [unfolded One_nat_def] board_sscanf board_env_def del: lit_Cons)
  also have "mtdchar_open (u_kheap board_env) (board_dev v) (nat 2) rw = Some (board_table ! 2)"
    by (simp add: mtdchar_open_def board_sector board_env_def board_table_def)
  finally show ?thesis .
qed

lemma board_open_factory: "mtd_open board_env (board_dev v) (lit ''Factory'') rw = Ret (Some (board_table ! 3))"
proof -
  have "mtd_open board_env (board_dev v) (lit ''Factory'') rw
      = Ret (mtdchar_open (u_kheap board_env) (board_dev v) (nat 3) rw)"
    unfolding mtd_open_def board_proc_lines
    by (simp add: board_skip board_hit board_strstr [unfolded One_nat_def] board_sscanf board_env_def del: lit_Cons)
  also have "mtdchar_open (u_kheap board_env) (board_dev v) (nat 3) rw = Some (board_table ! 3)"
    by (simp add: mtdchar_open_def board_sector board_env_def board_table_def)
  finally show ?thesis .
qed

lemma board_chip_ok: "chip_ok (dev_chip (board_dev v))"
  by (simp add: chip_ok_def board_dev_def)

lemma board_part_ok: "p \<in> set board_table \<Longrightarrow> sectors_ok (board_dev v) p"
proof -
  have "(0x10000 :: nat) = 2 ^ 16" by simp
  then have "\<exists>k. (0x10000 :: nat) = 2 ^ k" by blast
  moreover assume "p \<in> set board_table"
  ultimately show ?thesis
    using board_chip_ok [of v] by (auto simp: sectors_ok_def part_ok_def board_dev_def board_table_def)
qed

lemma board_flash_ok: "flash_ok board_env (board_dev v)"
proof -
  have "get_mtd_device_nm (board_dev v) (lit ''Config'') = Some (board_table ! 2)"
    by (simp add: get_mtd_device_nm_def board_dev_def board_table_def)
  moreover have "board_table ! 2 \<in> set board_table" by (simp add: board_table_def)
  moreover have "user_ok board_env" by (simp add: user_ok_def board_env_def)
  ultimately show ?thesis
    using board_part_ok board_open by (auto simp: flash_ok_def simp del: lit_Cons)
qed

lemma board_bytes: "part_bytes (lit ''Config'') (board_dev v) = replicate 0x10000 v"
  by (simp add: part_bytes_def get_mtd_device_nm_def board_dev_def board_table_def window_def)

section \<open>Properties\<close>

text \<open>C37: a write of the library whose length is not a multiple of the erase size, or that starts at the start of the partition: \<open>flash_write\<close>
  then changes exactly the bytes it is given, across any number of erase blocks, and \<open>flash_read\<close> returns them. The other writes begin with the
  branch for whole blocks, which does not seek (\<open>whole_block_misplaced\<close> below).\<close>

theorem flash_write_read:
  assumes "flash_ok e d" and "to + length buf \<le> length (part_bytes (lit ''Config'') d)"
    and "length buf mod chip_sector (dev_chip d) \<noteq> 0 \<or> to = 0"
  shows "\<exists>r d'. flash_write e d to buf = Ret (r, d') \<and> 0 \<le> r
    \<and> part_bytes (lit ''Config'') d' = patch (part_bytes (lit ''Config'') d) to buf
    \<and> flash_read e d' to (length buf) = Ret (int (length buf), buf)"
proof -
  obtain r d' where "flash_write e d to buf = Ret (r, d')" "0 \<le> r" "flash_ok e d'"
    "part_bytes (lit ''Config'') d' = patch (part_bytes (lit ''Config'') d) to buf"
    using flash_write_ok [OF assms] by blast
  then show ?thesis
    using flash_read_ok [of e d' to "length buf"] assms(2) by (simp add: window_patch_same)
qed

theorem flash_write_read_witness:
  "\<exists>r d'. flash_write board_env (board_dev 7) 0x2000 [1, 2, 3] = Ret (r, d')
    \<and> flash_read board_env d' 0x2000 3 = Ret (3, [1, 2, 3])"
proof -
  have len: "length [1, 2, 3 :: byte] = 3" by simp
  have fits: "0x2000 + 3 \<le> length (part_bytes (lit ''Config'') (board_dev 7))"
    by (simp only: board_bytes length_replicate)
  have part: "(3 :: nat) mod chip_sector (dev_chip (board_dev 7)) \<noteq> 0 \<or> (0x2000 :: nat) = 0"
    by (simp add: board_sector)
  show ?thesis
    using flash_write_read [OF board_flash_ok [of 7], of "0x2000" "[1, 2, 3]", unfolded len, OF fits part]
    by (auto simp only: of_nat_numeral)
qed

text \<open>When the data is one whole erase block and the target is a later block, the write loop
  erases the target but stores the data at file position 0, because that branch does not
  seek: the target block ends up blank.\<close>

theorem whole_block_misplaced:
  assumes "sectors_ok d p" and "user_ok e" and "length buf = chip_sector (dev_chip d)"
    and "2 * chip_sector (dev_chip d) \<le> part_size p"
    and "window (dev_mem d) (part_offset p) (chip_sector (dev_chip d)) = replicate (chip_sector (dev_chip d)) 0xFF"
  shows "\<exists>d'. write_loop e d p 0 (chip_sector (dev_chip d)) buf 0 = Ret (int (length buf), d')
    \<and> window (dev_mem d') (part_offset p) (chip_sector (dev_chip d)) = buf
    \<and> window (dev_mem d') (part_offset p + chip_sector (dev_chip d)) (chip_sector (dev_chip d))
      = replicate (chip_sector (dev_chip d)) 0xFF"
proof -
  let ?es = "chip_sector (dev_chip d)" and ?m = "dev_mem d"
  note D = sectors_okD [OF assms(1,2)]
  let ?d1 = "set_mem d (patch ?m (part_offset p + ?es) (replicate ?es 0xFF))"
  have er: "memerase (u_kheap e) d p ?es ?es = Ret (0, ?d1)"
    using memerase_ok [OF D(1), of ?es "u_kheap e"] assms(4) D(6) by simp
  have in1: "part_offset p + ?es + ?es \<le> length ?m" using assms(4) D(7) by simp
  have w0: "window (dev_mem ?d1) (part_offset p) ?es = replicate ?es 0xFF"
    using in1 assms(5) by (simp add: window_patch_disjoint)
  have buf: "buf \<noteq> []" using assms(3) D(3) by auto
  have wr: "mtd_write (u_kheap e) ?d1 p 0 buf = Ret (int ?es, ?es, set_mem d
      (patch (dev_mem ?d1) (part_offset p) buf))"
    using mtd_write_ok [of ?d1 p 0 buf "u_kheap e"] D(1,6) in1 assms(3,4) w0 buf by simp
  have "write_loop e d p 0 ?es buf 0 = Ret (int ?es, set_mem d (patch (dev_mem ?d1) (part_offset p) buf))"
    using buf assms(3) D(3) er wr
    by (subst write_loop.simps) (simp add: D(4) [unfolded One_nat_def] Let_def write_loop.simps [of _ _ _ _ _ "[]"])
  moreover have "window (patch (dev_mem ?d1) (part_offset p) buf) (part_offset p) ?es = buf"
    using window_patch_same [of "part_offset p" buf "dev_mem ?d1"] in1 assms(3) by simp
  moreover have "window (patch (dev_mem ?d1) (part_offset p) buf) (part_offset p + ?es) ?es = replicate ?es 0xFF"
    using window_patch_same [of "part_offset p + ?es" "replicate ?es 0xFF" ?m] in1 assms(3)
    by (simp add: window_patch_disjoint)
  ultimately show ?thesis using assms(3) by simp
qed

theorem whole_block_misplaced_witness:
  "\<exists>d'. write_loop board_env (board_dev 0xFF) (board_table ! 0) 0 0x10000 (replicate 0x10000 5) 0 = Ret (0x10000, d')
    \<and> window (dev_mem d') 0 0x10000 = replicate 0x10000 5
    \<and> window (dev_mem d') 0x10000 0x10000 = replicate 0x10000 0xFF"
proof -
  have "sectors_ok (board_dev 0xFF) (board_table ! 0)" by (rule board_part_ok) (simp add: board_table_def)
  moreover have "user_ok board_env" by (simp add: user_ok_def board_env_def)
  ultimately show ?thesis
    using whole_block_misplaced [of "board_dev 0xFF" "board_table ! 0" board_env "replicate 0x10000 5"]
    by (simp add: board_dev_def board_table_def window_def)
qed

text \<open>\<open>ra_mtd_write_nm\<close> of the kernel, asked to write inside the first erase block of a partition,
  returns 0 and changes exactly those bytes of the whole chip, through its read, erase and
  rewrite of the block.\<close>

theorem ra_mtd_write_nm_in_place:
  assumes "get_mtd_device_nm d name = Some p" and "part_ok d p" and "kmalloc_ok h (chip_sector (dev_chip d))"
    and "to + length buf \<le> chip_sector (dev_chip d)"
  shows "ra_mtd_write_nm h d name to buf = Ret (0, set_mem d (patch (dev_mem d) (part_offset p + to) buf))"
  using ra_mtd_write_nm_ok [OF assms] .

theorem ra_mtd_write_nm_in_place_witness:
  "ra_mtd_write_nm (u_kheap board_env) (board_dev 9) (lit ''Factory'') 4 [1, 2]
    = Ret (0, set_mem (board_dev 9) (patch (dev_mem (board_dev 9)) 0x40004 [1, 2]))"
proof -
  let ?p = "board_table ! 3"
  have "get_mtd_device_nm (board_dev 9) (lit ''Factory'') = Some ?p"
    by (simp add: get_mtd_device_nm_def board_dev_def board_table_def)
  moreover have "part_ok (board_dev 9) ?p"
    using board_part_ok [of ?p 9] by (simp add: sectors_ok_def board_table_def)
  moreover have "part_offset ?p = 0x40000" by (simp add: board_table_def)
  ultimately show ?thesis
    using ra_mtd_write_nm_in_place [of "board_dev 9" "lit ''Factory''" ?p "u_kheap board_env" 4 "[1, 2]"]
    by (simp add: board_env_def board_sector del: lit_Cons)
qed

end
