(* ===== verification/LibNvram.thy ===== *)
theory LibNvram
  imports KernelSpec NvramApi FlashApi
begin

text \<open>
  The NVRAM library as it is built for the router (lib/libnvram/nvram_env.c with
  \<open>CONFIG_KERNEL_NVRAM\<close>): a second cache in each process in front of the kernel module, which it
  reaches through \<open>/dev/nvram\<close>. The state is the process's blocks and the kernel's state.
  A process alone with the module sees one coherent list and meets the contract
  \<open>nvram_api\<close>; a name that another process adds later stays invisible to it.
\<close>

section \<open>State\<close>

record lnv =
  lfb :: "block_t list"
  lk :: knv

abbreviation (input) RT2860_NVRAM :: int where "RT2860_NVRAM \<equiv> 0"

definition lib_fb_init :: "block_t list" where
  "lib_fb_init =
     [fb_entry ''2860'' 0x2000 (ENV_BLK_SIZE * 4), fb_entry ''rtdev'' 0x6000 (ENV_BLK_SIZE * 2),
      fb_entry ''cert'' 0x8000 (ENV_BLK_SIZE * 2), fb_entry ''wapi'' 0xa000 (ENV_BLK_SIZE * 5)]"

definition upd_lfb :: "nat \<Rightarrow> (block_t \<Rightarrow> block_t) \<Rightarrow> lnv \<Rightarrow> lnv" where
  "upd_lfb i f s = s\<lparr>lfb := (lfb s)[i := f (lfb s ! i)]\<rparr>"

text \<open>\<open>open\<close>, \<open>ioctl\<close>, \<open>close\<close> on \<open>/dev/nvram\<close>; -1 when the device does not open or the call fails.\<close>

definition nv_ioctl :: "uenv \<Rightarrow> lnv \<Rightarrow> nat \<Rightarrow> nvram_ioctl_t \<Rightarrow> (int \<times> nvram_ioctl_t \<times> lnv) outcome" where
  "nv_ioctl e s req nvr =
     (if \<not> u_nvdev e then Ret (- 1, nvr, s)
      else obind (ralink_nvram_ioctl (u_kheap e) (lk s) req nvr) (\<lambda>(r, nvr, k).
           Ret (if r < 0 then - 1 else r, nvr, s\<lparr>lk := k\<rparr>)))"

definition user_malloc :: "uenv \<Rightarrow> nat \<Rightarrow> byte list option" where
  "user_malloc e n = (if kmalloc_ok (u_heap e) n then Some (fresh (u_heap e) n) else None)"

text \<open>A request on the buffer a pointer designates; a NULL pointer designates no memory.\<close>

definition nv_req :: "int \<Rightarrow> cstring \<Rightarrow> byte list option \<Rightarrow> nvram_ioctl_t" where
  "nv_req index name buf = \<lparr>io_index = index, io_name = name,
     io_value = (case buf of None \<Rightarrow> [] | Some d \<Rightarrow> d), io_user = True\<rparr>"

section \<open>Operations\<close>

definition lib_nvram_init :: "uenv \<Rightarrow> lnv \<Rightarrow> int \<Rightarrow> lnv outcome" where
  "lib_nvram_init e s index =
     (if \<not> index_ok index then Ret s
      else let i = nat index; b = lfb s ! i in
        if valid b then Ret s
        else let len = data_len b; buf = user_malloc e len in
          obind (nv_ioctl e s RALINK_NVRAM_IOCTL_GETALL (nv_req index [] buf)) (\<lambda>(r, nvr, s).
          if r < 0 then Ret (upd_lfb i (\<lambda>b. b\<lparr>env_data := None\<rparr>) s)
          else if buf = None then Fault
          else obind (parse_env MAX_CACHE_ENTRY len (io_value nvr)) (\<lambda>(kvs, _).
            Ret (upd_lfb i (\<lambda>b. b\<lparr>env_data := None,
                   cache := fill_cache (kmalloc_ok (u_heap e)) (cache b) kvs,
                   valid := True, dirty := False\<rparr>) s))))"

definition LIBNV_CHECK_VALID :: "uenv \<Rightarrow> lnv \<Rightarrow> int \<Rightarrow> lnv outcome" where
  "LIBNV_CHECK_VALID e s index =
     (if valid (lfb s ! nat index) then Ret s else lib_nvram_init e s index)"

definition lib_nvram_commit :: "uenv \<Rightarrow> lnv \<Rightarrow> int \<Rightarrow> (int \<times> lnv) outcome" where
  "lib_nvram_commit e s index =
     (if \<not> index_ok index then Ret (- 1, s)
      else obind (LIBNV_CHECK_VALID e s index) (\<lambda>s.
           obind (nv_ioctl e s RALINK_NVRAM_IOCTL_COMMIT (nv_req index [] None)) (\<lambda>(r, _, s).
           if r < 0 then Ret (- 1, s)
           else Ret (0, upd_lfb (nat index) (\<lambda>b. b\<lparr>dirty := False\<rparr>) s))))"

definition lib_nvram_close :: "uenv \<Rightarrow> lnv \<Rightarrow> int \<Rightarrow> lnv outcome" where
  "lib_nvram_close e s index =
     (if \<not> index_ok index then Ret s
      else if \<not> valid (lfb s ! nat index) then Ret s
      else obind (if dirty (lfb s ! nat index) then lib_nvram_commit e s index else Ret (0, s)) (\<lambda>(_, s).
           Ret (upd_lfb (nat index)
             (\<lambda>b. b\<lparr>env_data := None, cache := clear_cache (cache b), valid := False\<rparr>) s)))"

text \<open>\<open>nvram_bufget\<close>: the value comes from the kernel, the decision whether the name exists from
  the process's own cache. \<open>Some []\<close> is the empty string, \<open>None\<close> a NULL pointer.\<close>

definition lib_nvram_bufget :: "uenv \<Rightarrow> lnv \<Rightarrow> int \<Rightarrow> cstring \<Rightarrow> (cstring option \<times> lnv) outcome" where
  "lib_nvram_bufget e s index name =
     (if \<not> index_ok index then Ret (Some [], s)
      else obind (LIBNV_CHECK_VALID e s index) (\<lambda>s.
           obind (nv_ioctl e s RALINK_NVRAM_IOCTL_GET (nv_req index name (user_malloc e MAX_VALUE_LEN)))
             (\<lambda>(r, nvr, s).
           if r < 0 then Ret (Some [], s)
           else let i = nat index; es = cache (lfb s ! i); idx = cache_idx es name in
             if idx \<noteq> - 1 \<and> ce_value (es ! nat idx) \<noteq> None then
               let v = dup (kmalloc_ok (u_heap e)) (cstr (io_value nvr)) in
               Ret (v, upd_lfb i (\<lambda>b. b\<lparr>cache := es[nat idx := (es ! nat idx)\<lparr>ce_value := v\<rparr>]\<rparr>) s)
             else Ret (Some [], s))))"

definition lib_nvram_bufset :: "uenv \<Rightarrow> lnv \<Rightarrow> int \<Rightarrow> cstring \<Rightarrow> cstring \<Rightarrow> (int \<times> lnv) outcome" where
  "lib_nvram_bufset e s index name val =
     (if \<not> index_ok index then Ret (- 1, s)
      else obind (LIBNV_CHECK_VALID e s index) (\<lambda>s.
           obind (nv_ioctl e s RALINK_NVRAM_IOCTL_SET (nv_req index name (Some (val @ [NUL])))) (\<lambda>(r, _, s).
           if r < 0 then Ret (- 1, s)
           else let i = nat index;
                    (r, es) = cache_set (kmalloc_ok (u_heap e)) (cache (lfb s ! i)) name val in
             if r = - 1 then Ret (- 1, s)
             else Ret (0, upd_lfb i (\<lambda>b. b\<lparr>cache := es, dirty := True\<rparr>) s))))"

definition lib_nvram_get :: "uenv \<Rightarrow> lnv \<Rightarrow> int \<Rightarrow> cstring \<Rightarrow> (cstring option \<times> lnv) outcome" where
  "lib_nvram_get e s index name = lib_nvram_bufget e s index name"

definition lib_nvram_set :: "uenv \<Rightarrow> lnv \<Rightarrow> int \<Rightarrow> cstring \<Rightarrow> cstring \<Rightarrow> (int \<times> lnv) outcome" where
  "lib_nvram_set e s index name val =
     obind (lib_nvram_bufset e s index name val) (\<lambda>(r, s).
     if r = - 1 then Ret (- 1, s) else lib_nvram_commit e s index)"

definition lib_nvram_clear :: "uenv \<Rightarrow> lnv \<Rightarrow> int \<Rightarrow> (int \<times> lnv) outcome" where
  "lib_nvram_clear e s index =
     (if \<not> index_ok index then Ret (- 1, s)
      else obind (lib_nvram_close e s index) (\<lambda>s.
           obind (nv_ioctl e s RALINK_NVRAM_IOCTL_CLEAR (nv_req index [] None)) (\<lambda>(r, _, s).
           if r < 0 then Ret (- 1, s)
           else Ret (0, upd_lfb (nat index) (\<lambda>b. b\<lparr>dirty := False\<rparr>) s))))"

text \<open>\<open>nvram_buflist\<close>: the lines it prints; \<open>printf\<close> writes \<open>(null)\<close> for a NULL value.\<close>

definition lib_nvram_buflist :: "uenv \<Rightarrow> lnv \<Rightarrow> int \<Rightarrow> (cstring list \<times> lnv) outcome" where
  "lib_nvram_buflist e s index =
     (if \<not> index_ok index then Ret ([], s)
      else obind (LIBNV_CHECK_VALID e s index) (\<lambda>s.
        Ret (map (\<lambda>c. lit ''  '' @ [0x27] @ the (ce_name c) @ [0x27, EQUALS, 0x27]
                    @ (case ce_value c of None \<Rightarrow> lit ''(null)'' | Some v \<Rightarrow> v) @ [0x27, NEWLINE])
               (takeWhile (\<lambda>c. ce_name c \<noteq> None) (cache (lfb s ! nat index))), s)))"

definition getNvramNum :: nat where
  "getNvramNum = FLASH_BLOCK_NUM"

definition getNvramOffset :: "block_t list \<Rightarrow> int \<Rightarrow> nat" where
  "getNvramOffset bl index = (if \<not> index_ok index then 0 else flash_offset (bl ! nat index))"

definition getNvramName :: "block_t list \<Rightarrow> int \<Rightarrow> cstring option" where
  "getNvramName bl index = (if \<not> index_ok index then None else Some (b_name (bl ! nat index)))"

definition getNvramBlockSize :: "block_t list \<Rightarrow> int \<Rightarrow> nat" where
  "getNvramBlockSize bl index = (if \<not> index_ok index then 0 else flash_max_len (bl ! nat index))"

fun find_name :: "block_t list \<Rightarrow> cstring \<Rightarrow> int \<Rightarrow> int" where
  "find_name [] name i = - 1"
| "find_name (b # bl) name i = (if b_name b = name then i else find_name bl name (i + 1))"

definition getNvramIndex :: "block_t list \<Rightarrow> cstring \<Rightarrow> int" where
  "getNvramIndex bl name = find_name bl name 0"

definition toggleNvramDebug :: "bool \<Rightarrow> bool" where
  "toggleNvramDebug libnvram_debug = (\<not> libnvram_debug)"

section \<open>The kernel module as a configuration store\<close>

text \<open>A clean block agrees with the flash.\<close>

definition synced :: "nat \<Rightarrow> knv \<Rightarrow> bool" where
  "synced i s = (dirty (fb s ! i) \<or> rom (kdev s) i = Some (ram s i))"

definition kstore_ok :: "kheap \<Rightarrow> nat \<Rightarrow> knv \<Rightarrow> bool" where
  "kstore_ok h i s = (i < 4 \<and> knv_ok h s \<and> synced i s)"

lemma synced_abs: "i < 4 \<Longrightarrow> synced i s = (a_dirty (abs_nv s) i \<or> a_rom (abs_nv s) i = Some (a_ram (abs_nv s) i))"
  by (simp add: synced_def)

lemma kset_law:
  assumes "kstore_ok h i s" and "length (AList.update n v (ram s i)) \<le> MAX_CACHE_ENTRY"
  shows "\<exists>s'. nvram_set h s (int i) n v = Ret (0, s') \<and> kstore_ok h i s'
    \<and> ram s' i = AList.update n v (ram s i) \<and> kdev s' = kdev s \<and> dirty (fb s' ! i)"
proof -
  have s: "i < 4" "knv_ok h s" using assms(1) by (simp_all add: kstore_ok_def)
  have sp: "spec_set (abs_nv s) i n v = (0, (abs_nv s)\<lparr>a_ram := (a_ram (abs_nv s))(i := AList.update n v (ram s i)),
      a_dirty := (a_dirty (abs_nv s))(i := True)\<rparr>)"
    using assms(2) s by (auto simp: spec_set_def length_update)
  obtain s' where s': "nvram_set h s (int i) n v = Ret (0, s')" "knv_ok h s'" "kdev s' = kdev s"
    "abs_nv s' = snd (spec_set (abs_nv s) i n v)"
    using set_refines [OF s(2,1), of n v] sp by auto
  have "a_ram (abs_nv s') i = AList.update n v (ram s i)" "a_dirty (abs_nv s') i" using s'(4) sp by simp_all
  then have "ram s' i = AList.update n v (ram s i)" "dirty (fb s' ! i)" using s(1) by simp_all
  with s'(1-3) s(1) show ?thesis by (auto simp: kstore_ok_def synced_def)
qed

lemma kget_law:
  assumes "kstore_ok h i s"
  shows "\<exists>s'. nvram_get h s (int i) n = Ret (map_of (ram s i) n, s') \<and> kstore_ok h i s'
    \<and> ram s' i = ram s i \<and> kdev s' = kdev s"
  using assms nvram_get_ok [of h s i n] by (auto simp: kstore_ok_def knv_ok_counter synced_def)

lemma kcommit_law:
  assumes "kstore_ok h i s" and "storable i (ram s i)"
  shows "\<exists>s'. nvram_commit h s (int i) = Ret (0, s') \<and> kstore_ok h i s'
    \<and> ram s' i = ram s i \<and> rom (kdev s') i = Some (ram s i)"
proof -
  have s: "i < 4" "knv_ok h s" "synced i s" using assms(1) by (simp_all add: kstore_ok_def)
  obtain s' where s': "nvram_commit h s (int i) = Ret (0, s')" "knv_ok h s'"
    "abs_nv s' = spec_commit (abs_nv s) i"
    using commit_refines [OF s(2,1) assms(2)] by blast
  have "a_ram (abs_nv s') i = ram s i" "a_rom (abs_nv s') i = Some (ram s i)"
    using s'(3) s by (auto simp: spec_commit_def synced_def)
  then have "ram s' i = ram s i" "rom (kdev s') i = Some (ram s i)" using s(1) by simp_all
  with s'(1,2) s(1) show ?thesis by (auto simp: kstore_ok_def synced_def)
qed

interpretation kernel: nvram_api
  "\<lambda>s. nvram_get h s (int i)" "\<lambda>s. nvram_set h s (int i)" "\<lambda>s. nvram_commit h s (int i)"
  "\<lambda>s. ram s i" "\<lambda>s. rom (kdev s) i" "kstore_ok h i" None vmax "storable i" for h i vmax
proof
  fix s n v
  assume ok: "kstore_ok h i s"
  show "\<exists>s'. nvram_get h s (int i) n = Ret (lookup None (ram s i) n, s') \<and> kstore_ok h i s'
      \<and> ram s' i = ram s i \<and> rom (kdev s') i = rom (kdev s) i"
    using kget_law [OF ok, of n] by (auto simp: lookup_def split: option.split)
  show "\<exists>s'. nvram_set h s (int i) n v = Ret (0, s') \<and> kstore_ok h i s'
      \<and> ram s' i = AList.update n v (ram s i) \<and> rom (kdev s') i = rom (kdev s) i"
    if "length (AList.update n v (ram s i)) \<le> MAX_CACHE_ENTRY"
    using kset_law [OF ok that] by auto
  show "\<exists>s'. nvram_commit h s (int i) = Ret (0, s') \<and> kstore_ok h i s'
      \<and> ram s' i = ram s i \<and> rom (kdev s') i = Some (ram s i)" if "storable i (ram s i)"
    using kcommit_law [OF ok that] .
qed

section \<open>The library in front of it\<close>

text \<open>One process, attached: its cache equals the kernel's list, whose values fit its buffer.\<close>

definition short_values :: "(cstring \<times> cstring) list \<Rightarrow> bool" where
  "short_values kvs = (\<forall>(n, v) \<in> set kvs. is_cstring v \<and> length v < MAX_VALUE_LEN)"

definition lib_ok :: "uenv \<Rightarrow> nat \<Rightarrow> lnv \<Rightarrow> bool" where
  "lib_ok e i s = (kstore_ok (u_kheap e) i (lk s) \<and> user_ok e \<and> u_nvdev e \<and> length (lfb s) = 4
     \<and> valid (lfb s ! i) \<and> cache (lfb s ! i) = cache_of (ram (lk s) i) \<and> short_values (ram (lk s) i))"

lemma lib_okD:
  assumes "lib_ok e i s"
  shows "kstore_ok (u_kheap e) i (lk s)" "i < 4" "knv_ok (u_kheap e) (lk s)" "kmalloc_ok (u_heap e) n"
    "u_nvdev e" "length (lfb s) = 4" "valid (lfb s ! i)" "cache (lfb s ! i) = cache_of (ram (lk s) i)"
    "short_values (ram (lk s) i)" "length (ram (lk s) i) \<le> MAX_CACHE_ENTRY"
    "LIBNV_CHECK_VALID e s (int i) = Ret s" "kmalloc_ok (u_kheap e) n"
  using assms knv_okD(7) [of "u_kheap e" "lk s" i] config_okD(2) [of "u_kheap e" "kdev (lk s)" n] knv_okD(4)
  by (auto simp: lib_ok_def kstore_ok_def user_ok_def LIBNV_CHECK_VALID_def)

lemma upd_lfb_simps [simp]:
  "lk (upd_lfb i f s) = lk s" "length (lfb (upd_lfb i f s)) = length (lfb s)"
  "i < length (lfb s) \<Longrightarrow> lfb (upd_lfb i f s) ! j = (if j = i then f (lfb s ! i) else lfb s ! j)"
  "upd_lfb i f (s\<lparr>lk := k\<rparr>) = upd_lfb i f s\<lparr>lk := k\<rparr>"
  by (auto simp: upd_lfb_def nth_list_update)

lemma short_values_update:
  assumes "short_values kvs" and "is_cstring v" and "length v < MAX_VALUE_LEN"
  shows "short_values (AList.update n v kvs)"
proof -
  have "set (AList.update n v kvs) \<subseteq> insert (n, v) (set kvs)" by (induction kvs) auto
  with assms show ?thesis by (auto simp: short_values_def)
qed

lemma lib_bufset_law:
  assumes ok: "lib_ok e i s" and v: "is_cstring v" "length v < MAX_VALUE_LEN"
    and room: "length (AList.update n v (ram (lk s) i)) \<le> MAX_CACHE_ENTRY"
  shows "\<exists>s'. lib_nvram_bufset e s (int i) n v = Ret (0, s') \<and> lib_ok e i s'
    \<and> ram (lk s') i = AList.update n v (ram (lk s) i) \<and> kdev (lk s') = kdev (lk s) \<and> dirty (fb (lk s') ! i)"
proof -
  note D = lib_okD [OF ok]
  obtain k where k: "nvram_set (u_kheap e) (lk s) (int i) n v = Ret (0, k)" "kstore_ok (u_kheap e) i k"
    "ram k i = AList.update n v (ram (lk s) i)" "kdev k = kdev (lk s)" "dirty (fb k ! i)"
    using kset_law [OF D(1) room] by blast
  have io: "nv_ioctl e s RALINK_NVRAM_IOCTL_SET (nv_req (int i) n (Some (v @ [NUL])))
      = Ret (0, nv_req (int i) n (Some (v @ [NUL])), s\<lparr>lk := k\<rparr>)"
    using D(5,12) v k(1) strchr_NUL [OF v(1), of "[]"] by (simp add: nv_ioctl_def nv_req_def ralink_nvram_ioctl_def)
  have "cache_set (kmalloc_ok (u_heap e)) (cache (lfb s ! i)) n v
      = (0, cache_of (AList.update n v (ram (lk s) i)))"
    using cache_set_cache_of [OF D(10), of "kmalloc_ok (u_heap e)" n v] D(4,8) room
    by (auto simp: length_update)
  then have "lib_nvram_bufset e s (int i) n v
      = Ret (0, upd_lfb i (\<lambda>b. b\<lparr>cache := cache_of (AList.update n v (ram (lk s) i)), dirty := True\<rparr>) s\<lparr>lk := k\<rparr>)"
    using D(2,11) io by (simp add: lib_nvram_bufset_def Let_def)
  moreover have "lib_ok e i (upd_lfb i (\<lambda>b. b\<lparr>cache := cache_of (AList.update n v (ram (lk s) i)), dirty := True\<rparr>) s\<lparr>lk := k\<rparr>)"
    using ok D k short_values_update [OF D(9) v, of n] by (simp add: lib_ok_def)
  ultimately show ?thesis using k by auto
qed

text \<open>The \<open>GET\<close> request of \<open>nvram_bufget\<close>: the kernel's value, or the empty string.\<close>

lemma get_request:
  assumes ok: "kstore_ok (u_kheap e) i (lk s)" and u: "user_ok e" "u_nvdev e"
    and short: "short_values (ram (lk s) i)"
  shows "\<exists>nvr k. nv_ioctl e s RALINK_NVRAM_IOCTL_GET (nv_req (int i) n (user_malloc e MAX_VALUE_LEN))
      = Ret (0, nvr, s\<lparr>lk := k\<rparr>) \<and> cstr (io_value nvr) = (case map_of (ram (lk s) i) n of None \<Rightarrow> [] | Some v \<Rightarrow> v)
    \<and> kstore_ok (u_kheap e) i k \<and> ram k i = ram (lk s) i \<and> kdev k = kdev (lk s)"
proof -
  let ?v = "case map_of (ram (lk s) i) n of None \<Rightarrow> [] | Some v \<Rightarrow> v"
  obtain k where k: "nvram_get (u_kheap e) (lk s) (int i) n = Ret (map_of (ram (lk s) i) n, k)"
    "kstore_ok (u_kheap e) i k" "ram k i = ram (lk s) i" "kdev k = kdev (lk s)"
    using kget_law [OF ok] by blast
  have v: "is_cstring ?v" "length ?v < MAX_VALUE_LEN"
    using short by (auto simp: short_values_def split: option.split dest!: map_of_SomeD)
  let ?buf = "fresh (u_heap e) MAX_VALUE_LEN"
  have "length (?v @ [NUL]) \<le> length ?buf" using v(2) by simp
  then have "nv_ioctl e s RALINK_NVRAM_IOCTL_GET (nv_req (int i) n (user_malloc e MAX_VALUE_LEN))
      = Ret (0, nv_req (int i) n (Some (patch ?buf 0 (?v @ [NUL]))), s\<lparr>lk := k\<rparr>)"
    using u k(1) by (simp add: nv_ioctl_def nv_req_def ralink_nvram_ioctl_def user_malloc_def user_ok_def
        copy_to_user_def)
  moreover have "cstr (patch ?buf 0 (?v @ [NUL])) = ?v" using v(1) by (simp add: patch_def)
  ultimately show ?thesis using k by (auto simp: nv_req_def)
qed

lemma lib_bufget_law:
  assumes ok: "lib_ok e i s"
  shows "\<exists>s'. lib_nvram_bufget e s (int i) n = Ret (lookup (Some []) (ram (lk s) i) n, s') \<and> lib_ok e i s'
    \<and> ram (lk s') i = ram (lk s) i \<and> kdev (lk s') = kdev (lk s)"
proof -
  note D = lib_okD [OF ok]
  let ?kvs = "ram (lk s) i"
  have u: "user_ok e" using ok by (simp add: lib_ok_def)
  obtain nvr k where io: "nv_ioctl e s RALINK_NVRAM_IOCTL_GET (nv_req (int i) n (user_malloc e MAX_VALUE_LEN))
      = Ret (0, nvr, s\<lparr>lk := k\<rparr>)" "cstr (io_value nvr) = (case map_of ?kvs n of None \<Rightarrow> [] | Some v \<Rightarrow> v)"
    and k: "kstore_ok (u_kheap e) i k" "ram k i = ?kvs" "kdev k = kdev (lk s)"
    using get_request [OF D(1) u D(5,9), of n] by blast
  let ?es = "cache_of ?kvs"
  let ?j = "nat (cache_idx ?es n)"
  have get: "cache_get ?es n = map_of ?kvs n" using D(10) by (rule cache_get_cache_of)
  have s: "lfb s ! i = (lfb s ! i)\<lparr>cache := ?es\<rparr>" using D(8) by (cases "lfb s ! i") simp
  show ?thesis
  proof (cases "map_of ?kvs n")
    case None
    with get have "\<not> (cache_idx ?es n \<noteq> - 1 \<and> ce_value (?es ! ?j) \<noteq> None)"
      by (auto simp: cache_get_def Let_def split: if_splits)
    then have "lib_nvram_bufget e s (int i) n = Ret (Some [], s\<lparr>lk := k\<rparr>)"
      using D(2,8,11) io(1) by (auto simp: lib_nvram_bufget_def Let_def)
    with None k ok show ?thesis by (auto simp: lookup_def lib_ok_def)
  next
    case (Some v)
    with get have found: "cache_idx ?es n \<noteq> - 1" "ce_value (?es ! ?j) = Some v"
      by (auto simp: cache_get_def Let_def split: if_splits)
    have "(?es ! ?j)\<lparr>ce_value := Some v\<rparr> = ?es ! ?j" using found(2) by (cases "?es ! ?j") simp
    then have same: "?es[?j := (?es ! ?j)\<lparr>ce_value := Some v\<rparr>] = ?es" by (simp only: list_update_id)
    have "dup (kmalloc_ok (u_heap e)) (cstr (io_value nvr)) = Some v"
      using io(2) Some D(4) by (simp add: dup_def)
    then have "lib_nvram_bufget e s (int i) n = Ret (Some v, upd_lfb i (\<lambda>b. b\<lparr>cache := ?es\<rparr>) s\<lparr>lk := k\<rparr>)"
      using D(2,8,11) io(1) found same by (simp add: lib_nvram_bufget_def Let_def)
    moreover have "lib_ok e i (upd_lfb i (\<lambda>b. b\<lparr>cache := ?es\<rparr>) s\<lparr>lk := k\<rparr>)"
      using ok D k by (simp add: lib_ok_def)
    ultimately show ?thesis using Some k by (auto simp: lookup_def)
  qed
qed

lemma lib_commit_law:
  assumes ok: "lib_ok e i s" and st: "storable i (ram (lk s) i)"
  shows "\<exists>s'. lib_nvram_commit e s (int i) = Ret (0, s') \<and> lib_ok e i s'
    \<and> ram (lk s') i = ram (lk s) i \<and> rom (kdev (lk s')) i = Some (ram (lk s) i)
    \<and> nvram_commit (u_kheap e) (lk s) (int i) = Ret (0, lk s') \<and> \<not> dirty (lfb s' ! i)"
proof -
  note D = lib_okD [OF ok]
  obtain k where k: "nvram_commit (u_kheap e) (lk s) (int i) = Ret (0, k)" "kstore_ok (u_kheap e) i k"
    "ram k i = ram (lk s) i" "rom (kdev k) i = Some (ram (lk s) i)"
    using kcommit_law [OF D(1) st] by blast
  then have "lib_nvram_commit e s (int i) = Ret (0, upd_lfb i (\<lambda>b. b\<lparr>dirty := False\<rparr>) s\<lparr>lk := k\<rparr>)"
    using D(2,5,11) by (simp add: lib_nvram_commit_def nv_ioctl_def ralink_nvram_ioctl_def nv_req_def)
  moreover have "lib_ok e i (upd_lfb i (\<lambda>b. b\<lparr>dirty := False\<rparr>) s\<lparr>lk := k\<rparr>)"
    using ok D k by (simp add: lib_ok_def)
  ultimately show ?thesis using k D(2,6) by (intro exI [of _ "upd_lfb i (\<lambda>b. b\<lparr>dirty := False\<rparr>) s\<lparr>lk := k\<rparr>"]) simp
qed

interpretation lib: nvram_api
  "\<lambda>s. lib_nvram_bufget e s (int i)" "\<lambda>s. lib_nvram_bufset e s (int i)" "\<lambda>s. lib_nvram_commit e s (int i)"
  "\<lambda>s. ram (lk s) i" "\<lambda>s. rom (kdev (lk s)) i" "lib_ok e i" "Some []" MAX_VALUE_LEN "storable i" for e i
proof
  fix s n v
  assume ok: "lib_ok e i s"
  show "\<exists>s'. lib_nvram_bufget e s (int i) n = Ret (lookup (Some []) (ram (lk s) i) n, s') \<and> lib_ok e i s'
      \<and> ram (lk s') i = ram (lk s) i \<and> rom (kdev (lk s')) i = rom (kdev (lk s)) i"
    using lib_bufget_law [OF ok, of n] by fastforce
  show "\<exists>s'. lib_nvram_bufset e s (int i) n v = Ret (0, s') \<and> lib_ok e i s'
      \<and> ram (lk s') i = AList.update n v (ram (lk s) i) \<and> rom (kdev (lk s')) i = rom (kdev (lk s)) i"
    if "is_cstring v" "length v < MAX_VALUE_LEN" "length (AList.update n v (ram (lk s) i)) \<le> MAX_CACHE_ENTRY"
    using lib_bufset_law [OF ok that] by fastforce
  show "\<exists>s'. lib_nvram_commit e s (int i) = Ret (0, s') \<and> lib_ok e i s'
      \<and> ram (lk s') i = ram (lk s) i \<and> rom (kdev (lk s')) i = Some (ram (lk s) i)"
    if "storable i (ram (lk s) i)"
    using lib_commit_law [OF ok that] by blast
qed

section \<open>Attaching a process\<close>

lemma env_text_member: "(n, v) \<in> set kvs \<Longrightarrow> length v < length (env_text kvs)"
  by (induction kvs) auto

lemma layout_max: "i < 4 \<Longrightarrow> snd (layout ! i) \<le> MAX_VALUE_LEN"
proof -
  assume "i < 4"
  then have "i = 0 \<or> i = 1 \<or> i = 2 \<or> i = 3" by auto
  then show ?thesis by (auto simp: layout_def)
qed

lemma storable_short: "i < 4 \<Longrightarrow> storable i kvs \<Longrightarrow> short_values kvs"
  using layout_max [of i] env_text_member
  by (fastforce simp: storable_def short_values_def kv_ok_def)

text \<open>The \<open>GETALL\<close> request of \<open>nvram_init\<close>: the text of the kernel's block.\<close>

lemma getall_request:
  assumes ok: "kstore_ok (u_kheap e) i (lk s)" and u: "user_ok e" "u_nvdev e"
    and st: "storable i (ram (lk s) i)" and len: "len = snd (layout ! i) - CRC_SIZE"
  shows "\<exists>nvr k. nv_ioctl e s RALINK_NVRAM_IOCTL_GETALL (nv_req (int i) [] (user_malloc e len))
      = Ret (0, nvr, s\<lparr>lk := k\<rparr>) \<and> io_value nvr = env_image len (ram (lk s) i)
    \<and> kstore_ok (u_kheap e) i k \<and> ram k i = ram (lk s) i \<and> kdev k = kdev (lk s)"
proof -
  let ?k = "lk s" and ?h = "u_kheap e"
  have i: "i < 4" and k: "knv_ok ?h ?k" using ok by (simp_all add: kstore_ok_def)
  let ?k' = "upd_fb i (\<lambda>b. b\<lparr>env_data := Some (env_image (data_len b) (ram ?k i))\<rparr>) ?k"
  have dl: "data_len (fb ?k ! i) = len" using blocks_atD(3) [OF knv_okD(1) [OF k] i] len by simp
  have fits: "length (env_text (ram ?k i)) < len" using st len by (simp add: storable_def)
  obtain d where d: "env_data (fb ?k ! i) = Some d" using knv_okD(8) [OF k i] by auto
  have run: "nvram_getall ?h ?k (int i) (Some d) = Ret (0, ?k')"
    using nvram_getall_fits [OF k i, of "Some d"] fits dl by simp
  have il: "i < length (fb ?k)" using knv_okD(2) [OF k] i by simp
  have "knv_ok ?h ?k'" using getall_keeps [OF k, of "int i" "Some d"] run by simp
  moreover have "dirty (fb ?k' ! i) = dirty (fb ?k ! i)" "ram ?k' i = ram ?k i" using il by (simp_all add: ram_def)
  ultimately have "kstore_ok ?h i ?k'" using ok by (simp add: kstore_ok_def synced_def)
  moreover have "nv_ioctl e s RALINK_NVRAM_IOCTL_GETALL (nv_req (int i) [] (user_malloc e len))
      = Ret (0, nv_req (int i) [] (Some (env_image len (ram ?k i))), s\<lparr>lk := ?k'\<rparr>)"
    using u i d run il dl fits
    by (simp add: nv_ioctl_def nv_req_def ralink_nvram_ioctl_def user_malloc_def user_ok_def copy_to_user_def Let_def)
  ultimately show ?thesis using \<open>ram ?k' i = ram ?k i\<close> by (auto simp: nv_req_def)
qed

lemma lib_init_law:
  assumes ok: "kstore_ok (u_kheap e) i (lk s)" and u: "user_ok e" "u_nvdev e"
    and st: "storable i (ram (lk s) i)" and bl: "blocks_at (lfb s)"
    and inv: "\<not> valid (lfb s ! i)" and emp: "cache (lfb s ! i) = cache_of []"
  shows "\<exists>s'. lib_nvram_init e s (int i) = Ret s' \<and> lib_ok e i s' \<and> ram (lk s') i = ram (lk s) i
    \<and> kdev (lk s') = kdev (lk s) \<and> \<not> dirty (lfb s' ! i)"
proof -
  let ?kvs = "ram (lk s) i"
  have i: "i < 4" and k: "knv_ok (u_kheap e) (lk s)" using ok by (simp_all add: kstore_ok_def)
  define len where "len = data_len (lfb s ! i)"
  have len: "len = snd (layout ! i) - CRC_SIZE" using blocks_atD(3) [OF bl i] by (simp add: len_def)
  obtain nvr k' where io: "nv_ioctl e s RALINK_NVRAM_IOCTL_GETALL (nv_req (int i) [] (user_malloc e len))
      = Ret (0, nvr, s\<lparr>lk := k'\<rparr>)" "io_value nvr = env_image len ?kvs"
    and k': "kstore_ok (u_kheap e) i k'" "ram k' i = ?kvs" "kdev k' = kdev (lk s)"
    using getall_request [OF ok u st len] by blast
  obtain d where d: "parse_env MAX_CACHE_ENTRY len (env_image len ?kvs) = Ret (?kvs, d)"
    using parse_env_image [of ?kvs len] st knv_okD(7) [OF k i] len by (auto simp: storable_def)
  have il: "i < length (lfb s)" using blocks_atD(1) [OF bl] i by simp
  let ?f = "\<lambda>b. b\<lparr>env_data := None, cache := fill_cache (kmalloc_ok (u_heap e)) (cache b) ?kvs, valid := True, dirty := False\<rparr>"
  have "lib_nvram_init e s (int i) = Ret (upd_lfb i ?f s\<lparr>lk := k'\<rparr>)"
    using i inv io d u by (simp add: lib_nvram_init_def Let_def user_malloc_def user_ok_def flip: len_def)
  moreover have "fill_cache (kmalloc_ok (u_heap e)) (cache (lfb s ! i)) ?kvs = cache_of ?kvs"
    using fill_cache_ok [of "u_heap e" ?kvs] emp u knv_okD(7) [OF k i] by (simp add: heap_ok_def user_ok_def)
  then have "lib_ok e i (upd_lfb i ?f s\<lparr>lk := k'\<rparr>)"
    using k' u il blocks_atD(1) [OF bl] storable_short [OF i st] by (simp add: lib_ok_def)
  ultimately show ?thesis using k' il by (intro exI [of _ "upd_lfb i ?f s\<lparr>lk := k'\<rparr>"]) simp
qed

section \<open>Properties\<close>

text \<open>A process that attaches to the module (\<open>nvram_init\<close>) reads through \<open>nvram_bufget\<close> exactly the
  kernel's list: the stored value of every name, and the empty string for unknown names.\<close>

theorem lib_init_then_bufget:
  assumes "kstore_ok (u_kheap e) i (lk s)" and "user_ok e" and "u_nvdev e"
    and "storable i (ram (lk s) i)" and "blocks_at (lfb s)"
    and "\<not> valid (lfb s ! i)" and "cache (lfb s ! i) = cache_of []"
  shows "\<exists>s1 s2. lib_nvram_init e s (int i) = Ret s1
    \<and> lib_nvram_bufget e s1 (int i) n = Ret (lookup (Some []) (ram (lk s) i) n, s2)"
proof -
  obtain s1 where s1: "lib_nvram_init e s (int i) = Ret s1" "lib_ok e i s1" "ram (lk s1) i = ram (lk s) i"
    using lib_init_law [OF assms] by blast
  then show ?thesis using lib.get_law [OF s1(2), of n] by auto
qed

definition demo_lib :: lnv where
  "demo_lib = \<lparr>lfb = lib_fb_init, lk = demo_knv\<rparr>"

definition demo_env :: uenv where
  "demo_env = \<lparr>u_kheap = demo_heap, u_heap = demo_heap, u_node = \<lambda>_. True, u_nvdev = True\<rparr>"

lemma demo_kstore: "i < 4 \<Longrightarrow> kstore_ok demo_heap i demo_knv"
  by (simp add: kstore_ok_def demo_ok synced_def demo_kdev demo_rom demo_ram)

lemma lib_fb_init_eq: "lib_fb_init = fb_init"
  by (simp add: lib_fb_init_def fb_init_def)

lemma lib_fb_init_blocks: "blocks_at lib_fb_init"
  by (simp add: lib_fb_init_def blocks_at_def fb_entry_def layout_def)

lemma demo_user: "user_ok demo_env" "u_nvdev demo_env" "u_kheap demo_env = demo_heap"
  by (simp_all add: user_ok_def demo_env_def demo_heap_def)

lemma demo_attach:
  obtains s where "lib_nvram_init demo_env demo_lib 0 = Ret s" "lib_ok demo_env 0 s" "ram (lk s) 0 = []"
  using lib_init_law [of demo_env 0 demo_lib] demo_kstore [of 0] demo_user storable_small [of 0]
    lib_fb_init_blocks fb_init_nth [of 0]
  by (auto simp: demo_lib_def lib_fb_init_eq demo_ram)

theorem lib_init_then_bufget_witness:
  "\<exists>s1 s2. lib_nvram_init demo_env demo_lib 3 = Ret s1 \<and> lib_nvram_bufget demo_env s1 3 [0x61] = Ret (Some [], s2)"
  using lib_init_then_bufget [of demo_env 3 demo_lib "[0x61]"] demo_kstore [of 3] demo_user storable_small [of 3]
    lib_fb_init_blocks fb_init_nth [of 3]
  by (simp add: demo_lib_def lib_fb_init_eq demo_ram lookup_def)

text \<open>Settings written one after the other with \<open>nvram_bufset\<close> and then committed are what the
  flash decodes to afterwards: later settings of a name override earlier ones and untouched
  names keep their values.\<close>

theorem lib_settings_persist:
  assumes "lib_ok e i s" and "\<forall>(n, v) \<in> set kvs. is_cstring v \<and> length v < MAX_VALUE_LEN"
    and "length (update_all kvs (ram (lk s) i)) \<le> MAX_CACHE_ENTRY"
    and "storable i (update_all kvs (ram (lk s) i))"
  shows "\<exists>s1 s2 kvs'. put_all (\<lambda>s. lib_nvram_bufset e s (int i)) s kvs = Ret s1
    \<and> lib_nvram_commit e s1 (int i) = Ret (0, s2) \<and> rom (kdev (lk s2)) i = Some kvs'
    \<and> map_of kvs' = map_of (ram (lk s) i) ++ map_of (rev kvs)"
  using lib.put_all_commit [OF assms] by (metis map_of_update_all)

theorem lib_settings_persist_witness:
  "\<exists>s s1 s2 kvs'. lib_nvram_init demo_env demo_lib 0 = Ret s
    \<and> put_all (\<lambda>s. lib_nvram_bufset demo_env s 0) s [([0x61], [0x31])] = Ret s1
    \<and> lib_nvram_commit demo_env s1 0 = Ret (0, s2) \<and> rom (kdev (lk s2)) 0 = Some kvs'
    \<and> map_of kvs' [0x61] = Some [0x31]"
proof -
  obtain s where s: "lib_nvram_init demo_env demo_lib 0 = Ret s" "lib_ok demo_env 0 s" "ram (lk s) 0 = []"
    by (rule demo_attach)
  then show ?thesis
    using lib_settings_persist [OF s(2), of "[([0x61], [0x31])]"] storable_small [of 0] by auto
qed

text \<open>A name that another process adds after this process attached stays invisible here: the
  module has a value for it, but \<open>nvram_bufget\<close> returns the empty string, because it looks the
  name up in its own cache, which nothing refreshes.\<close>

theorem lib_new_name_invisible:
  assumes "kstore_ok (u_kheap e) i (lk s)" and "user_ok e" and "u_nvdev e" and "short_values (ram (lk s) i)"
    and "valid (lfb s ! i)" and "cache (lfb s ! i) = cache_of kvs" and "length kvs \<le> MAX_CACHE_ENTRY"
    and "map_of kvs n = None" and "map_of (ram (lk s) i) n = Some v"
  shows "\<exists>k s'. nvram_get (u_kheap e) (lk s) (int i) n = Ret (Some v, k)
    \<and> lib_nvram_bufget e s (int i) n = Ret (Some [], s')"
proof -
  have i: "i < 4" using assms(1) by (simp add: kstore_ok_def)
  obtain nvr k where io: "nv_ioctl e s RALINK_NVRAM_IOCTL_GET (nv_req (int i) n (user_malloc e MAX_VALUE_LEN))
      = Ret (0, nvr, s\<lparr>lk := k\<rparr>)"
    using get_request [OF assms(1-4), of n] by blast
  have "cache_get (cache_of kvs) n = None" using assms(7,8) by (simp add: cache_get_cache_of)
  then have "\<not> (cache_idx (cache_of kvs) n \<noteq> - 1 \<and> ce_value (cache_of kvs ! nat (cache_idx (cache_of kvs) n)) \<noteq> None)"
    by (auto simp: cache_get_def Let_def split: if_splits)
  then have "lib_nvram_bufget e s (int i) n = Ret (Some [], s\<lparr>lk := k\<rparr>)"
    using i assms(5,6) io by (auto simp: lib_nvram_bufget_def LIBNV_CHECK_VALID_def Let_def)
  then show ?thesis using kget_law [OF assms(1), of n] assms(9) by auto
qed

theorem lib_new_name_invisible_witness:
  "\<exists>s k k' s'. lib_nvram_init demo_env demo_lib 0 = Ret s
    \<and> nvram_set demo_heap (lk s) 0 [0x61] [0x31] = Ret (0, k)
    \<and> nvram_get demo_heap k 0 [0x61] = Ret (Some [0x31], k')
    \<and> lib_nvram_bufget demo_env (s\<lparr>lk := k\<rparr>) 0 [0x61] = Ret (Some [], s')"
proof -
  obtain s where s: "lib_nvram_init demo_env demo_lib 0 = Ret s" "lib_ok demo_env 0 s" "ram (lk s) 0 = []"
    by (rule demo_attach)
  have ks: "kstore_ok demo_heap 0 (lk s)" using lib_okD(1) [OF s(2)] demo_user by simp
  obtain k where k: "nvram_set demo_heap (lk s) 0 [0x61] [0x31] = Ret (0, k)" "kstore_ok demo_heap 0 k"
    "ram k 0 = [([0x61], [0x31])]"
    using kset_law [OF ks, of "[0x61]" "[0x31]"] s(3) by auto
  have "\<exists>k' s'. nvram_get demo_heap k 0 [0x61] = Ret (Some [0x31], k')
      \<and> lib_nvram_bufget demo_env (s\<lparr>lk := k\<rparr>) 0 [0x61] = Ret (Some [], s')"
    using lib_new_name_invisible [of demo_env 0 "s\<lparr>lk := k\<rparr>" "[]" "[0x61]" "[0x31]"] k demo_user
      lib_okD(7,8) [OF s(2)] s(3)
    by (simp add: short_values_def)
  with s(1) k(1) show ?thesis by blast
qed

end
