(* ===== verification/LibFlash.thy ===== *)
theory LibFlash
  imports LibNvram
begin

text \<open>
  The NVRAM library built without the kernel module (lib/libnvram/nvram_env.c without
  \<open>CONFIG_KERNEL_NVRAM\<close>): each process caches the blocks itself and reads and writes the flash
  with \<open>flash_read\<close> and \<open>flash_write\<close>. It implements the same contract \<open>nvram_api\<close> as the kernel
  module and the same flash format, so either side loads what the other stored.
\<close>

section \<open>State and operations\<close>

record fnv =
  ffb :: "block_t list"
  fdev :: flash_dev

definition upd_ffb :: "nat \<Rightarrow> (block_t \<Rightarrow> block_t) \<Rightarrow> fnv \<Rightarrow> fnv" where
  "upd_ffb i f s = s\<lparr>ffb := (ffb s)[i := f (ffb s ! i)]\<rparr>"

text \<open>\<open>nvram_init\<close>: \<open>malloc\<close> is not checked, and the checksum then reads through NULL.\<close>

definition fl_nvram_init :: "uenv \<Rightarrow> fnv \<Rightarrow> int \<Rightarrow> fnv outcome" where
  "fl_nvram_init e s index =
     (if \<not> index_ok index then Ret s
      else let i = nat index; b = ffb s ! i; len = data_len b in
        if valid b then Ret s
        else obind (flash_read e (fdev s) (flash_offset b) CRC_SIZE) (\<lambda>(_, got).
          let crc = crc_of_bytes (patch (crc_bytes (env_crc b)) 0 got) in
          case user_malloc e len of
            None \<Rightarrow> Fault
          | Some buf \<Rightarrow>
              obind (flash_read e (fdev s) (flash_offset b + CRC_SIZE) len) (\<lambda>(_, got).
              let data = patch buf 0 got in
              obind (crc32 0 data len) (\<lambda>sum.
              if sum \<noteq> crc then
                Ret (upd_ffb i (\<lambda>b. b\<lparr>env_crc := crc, env_data := None, valid := True, dirty := False\<rparr>) s)
              else obind (parse_env MAX_CACHE_ENTRY len data) (\<lambda>(kvs, _).
                Ret (upd_ffb i (\<lambda>b. b\<lparr>env_crc := crc, env_data := None,
                       cache := fill_cache (kmalloc_ok (u_heap e)) (cache b) kvs,
                       valid := True, dirty := False\<rparr>) s))))))"

definition fl_CHECK_VALID :: "uenv \<Rightarrow> fnv \<Rightarrow> int \<Rightarrow> fnv outcome" where
  "fl_CHECK_VALID e s index =
     (if valid (ffb s ! nat index) then Ret s else fl_nvram_init e s index)"

text \<open>The checksum and the two flash writes that \<open>nvram_commit\<close> and \<open>nvram_clear\<close> share.\<close>

definition fl_store :: "uenv \<Rightarrow> fnv \<Rightarrow> nat \<Rightarrow> byte list \<Rightarrow> fnv outcome" where
  "fl_store e s i d =
     (let b = ffb s ! i; len = data_len b in
      obind (crc32 0 d len) (\<lambda>crc.
      obind (flash_write e (fdev s) (flash_offset b) (crc_bytes crc)) (\<lambda>(_, dev).
      obind (flash_write e dev (flash_offset b + CRC_SIZE) (take len d)) (\<lambda>(_, dev).
      Ret (upd_ffb i (\<lambda>b. b\<lparr>env_crc := crc, env_data := None, dirty := False\<rparr>) (s\<lparr>fdev := dev\<rparr>))))))"

definition fl_nvram_commit :: "uenv \<Rightarrow> fnv \<Rightarrow> int \<Rightarrow> (int \<times> fnv) outcome" where
  "fl_nvram_commit e s index =
     (if \<not> index_ok index then Ret (- 1, s)
      else obind (fl_CHECK_VALID e s index) (\<lambda>s.
        let i = nat index; b = ffb s ! i; len = data_len b in
        if \<not> dirty b then Ret (0, s)
        else if user_malloc e len = None then Fault
        else obind (build_env (flash_max_len b) (cache b) 0 (replicate len NUL)) (\<lambda>(fin, d).
          if \<not> fin then Ret (- 1, upd_ffb i (\<lambda>b. b\<lparr>env_data := None\<rparr>) s)
          else obind (fl_store e s i d) (\<lambda>s. Ret (0, s)))))"

definition fl_nvram_close :: "uenv \<Rightarrow> fnv \<Rightarrow> int \<Rightarrow> fnv outcome" where
  "fl_nvram_close e s index =
     (if \<not> index_ok index then Ret s
      else if \<not> valid (ffb s ! nat index) then Ret s
      else obind (if dirty (ffb s ! nat index) then fl_nvram_commit e s index else Ret (0, s)) (\<lambda>(_, s).
           Ret (upd_ffb (nat index)
             (\<lambda>b. b\<lparr>env_data := None, cache := clear_cache (cache b), valid := False\<rparr>) s)))"

definition fl_nvram_bufget :: "uenv \<Rightarrow> fnv \<Rightarrow> int \<Rightarrow> cstring \<Rightarrow> (cstring option \<times> fnv) outcome" where
  "fl_nvram_bufget e s index name =
     (if \<not> index_ok index then Ret (Some [], s)
      else obind (fl_CHECK_VALID e s index) (\<lambda>s.
           Ret (case cache_get (cache (ffb s ! nat index)) name of None \<Rightarrow> Some [] | Some v \<Rightarrow> Some v, s)))"

definition fl_nvram_get :: "uenv \<Rightarrow> fnv \<Rightarrow> int \<Rightarrow> cstring \<Rightarrow> (cstring option \<times> fnv) outcome" where
  "fl_nvram_get e s index name =
     obind (fl_nvram_close e s index) (\<lambda>s.
     obind (fl_nvram_init e s index) (\<lambda>s. fl_nvram_bufget e s index name))"

definition fl_nvram_bufset :: "uenv \<Rightarrow> fnv \<Rightarrow> int \<Rightarrow> cstring \<Rightarrow> cstring \<Rightarrow> (int \<times> fnv) outcome" where
  "fl_nvram_bufset e s index name val =
     (if \<not> index_ok index then Ret (- 1, s)
      else obind (fl_CHECK_VALID e s index) (\<lambda>s.
        let i = nat index; (r, es) = cache_set (kmalloc_ok (u_heap e)) (cache (ffb s ! i)) name val in
        if r = - 1 then Ret (- 1, s)
        else Ret (0, upd_ffb i (\<lambda>b. b\<lparr>cache := es, dirty := True\<rparr>) s)))"

definition fl_nvram_set :: "uenv \<Rightarrow> fnv \<Rightarrow> int \<Rightarrow> cstring \<Rightarrow> cstring \<Rightarrow> (int \<times> fnv) outcome" where
  "fl_nvram_set e s index name val =
     obind (fl_nvram_bufset e s index name val) (\<lambda>(r, s).
     if r = - 1 then Ret (- 1, s) else fl_nvram_commit e s index)"

definition fl_nvram_clear :: "uenv \<Rightarrow> fnv \<Rightarrow> int \<Rightarrow> (int \<times> fnv) outcome" where
  "fl_nvram_clear e s index =
     (if \<not> index_ok index then Ret (- 1, s)
      else obind (fl_nvram_close e s index) (\<lambda>s.
        let len = data_len (ffb s ! nat index) in
        if user_malloc e len = None then Fault
        else obind (fl_store e s (nat index) (replicate len 0xFF)) (\<lambda>s. Ret (0, s))))"

section \<open>The library as a configuration store\<close>

definition fl_view :: "nat \<Rightarrow> fnv \<Rightarrow> (cstring \<times> cstring) list" where
  "fl_view i s = entries (cache (ffb s ! i))"

definition fl_base :: "uenv \<Rightarrow> nat \<Rightarrow> fnv \<Rightarrow> bool" where
  "fl_base e i s = (i < 4 \<and> flash_ok e (fdev s) \<and> 0xf000 \<le> mtd_limit (fdev s) \<and> blocks_at (ffb s))"

definition fl_ok :: "uenv \<Rightarrow> nat \<Rightarrow> fnv \<Rightarrow> bool" where
  "fl_ok e i s = (fl_base e i s \<and> valid (ffb s ! i) \<and> cache_wf (cache (ffb s ! i))
     \<and> (dirty (ffb s ! i) \<or> rom (fdev s) i = Some (fl_view i s)))"

lemma upd_ffb_simps [simp]:
  "fdev (upd_ffb i f s) = fdev s" "length (ffb (upd_ffb i f s)) = length (ffb s)"
  "i < length (ffb s) \<Longrightarrow> ffb (upd_ffb i f s) ! j = (if j = i then f (ffb s ! i) else ffb s ! j)"
  "ffb (upd_ffb i f s) = (ffb s)[i := f (ffb s ! i)]"
  by (auto simp: upd_ffb_def nth_list_update)

lemma fl_baseD:
  assumes "fl_base e i s"
  shows "i < 4" "flash_ok e (fdev s)" "0xf000 \<le> mtd_limit (fdev s)" "blocks_at (ffb s)" "i < length (ffb s)"
    "kmalloc_ok (u_heap e) n" "flash_offset (ffb s ! i) = fst (layout ! i)"
    "flash_max_len (ffb s ! i) = snd (layout ! i)"
    "fst (layout ! i) + snd (layout ! i) \<le> 0xf000" "CRC_SIZE < snd (layout ! i)"
    "0xf000 \<le> length (part_bytes RALINK_NVRAM_MTDNAME (fdev s))"
  using assms blocks_atD [of "ffb s"] layout_bounds [of i] flash.limit_bytes [of e "fdev s"]
  by (auto simp: fl_base_def flash_ok_def user_ok_def RALINK_NVRAM_MTDNAME_def)

lemma fl_okD:
  assumes "fl_ok e i s"
  shows "fl_base e i s" "valid (ffb s ! i)" "cache (ffb s ! i) = cache_of (fl_view i s)"
    "length (fl_view i s) \<le> MAX_CACHE_ENTRY" "fl_CHECK_VALID e s (int i) = Ret s"
  using assms by (auto simp: fl_ok_def cache_wf_def fl_view_def fl_CHECK_VALID_def)

lemma fl_base_upd:
  assumes "fl_base e i s" and "flash_offset (f (ffb s ! i)) = flash_offset (ffb s ! i)"
    and "flash_max_len (f (ffb s ! i)) = flash_max_len (ffb s ! i)"
  shows "fl_base e i (upd_ffb i f s)"
  using assms by (simp add: fl_base_def blocks_at_update)

lemma fl_store_ok:
  assumes base: "fl_base e i s" and len: "length d = data_len (ffb s ! i)"
  shows "\<exists>dev. fl_store e s i d = Ret (upd_ffb i (\<lambda>b. b\<lparr>env_crc := crc32_spec d, env_data := None,
      dirty := False\<rparr>) (s\<lparr>fdev := dev\<rparr>)) \<and> flash_ok e dev \<and> mtd_limit dev = mtd_limit (fdev s)
    \<and> part_bytes RALINK_NVRAM_MTDNAME dev = patch (part_bytes RALINK_NVRAM_MTDNAME (fdev s))
        (fst (layout ! i)) (crc_bytes (crc32_spec d) @ d)"
proof -
  note D = fl_baseD [OF base]
  let ?off = "fst (layout ! i)" and ?hdr = "crc_bytes (crc32_spec d)"
  have "?off + length ?hdr + length d \<le> mtd_limit (fdev s)" using len D(3,8,9,10) by simp
  from flash.write_header_data [OF D(2) this] obtain r1 s1 r2 s2 where
    w: "flash_write e (fdev s) ?off ?hdr = Ret (r1, s1)" "flash_write e s1 (?off + CRC_SIZE) d = Ret (r2, s2)"
    and s2: "flash_ok e s2" "mtd_limit s2 = mtd_limit (fdev s)" "part_bytes (lit ''Config'') s2
      = patch (part_bytes (lit ''Config'') (fdev s)) ?off (?hdr @ d)"
    by auto
  have "fl_store e s i d = Ret (upd_ffb i (\<lambda>b. b\<lparr>env_crc := crc32_spec d, env_data := None,
      dirty := False\<rparr>) (s\<lparr>fdev := s2\<rparr>))"
    using w len D(7) by (simp add: fl_store_def Let_def crc32_data)
  then show ?thesis using s2 by (auto simp: RALINK_NVRAM_MTDNAME_def)
qed

lemma fl_commit_law:
  assumes ok: "fl_ok e i s" and st: "storable i (fl_view i s)"
  shows "\<exists>s'. fl_nvram_commit e s (int i) = Ret (0, s') \<and> fl_ok e i s' \<and> fl_view i s' = fl_view i s
    \<and> rom (fdev s') i = Some (fl_view i s) \<and> \<not> dirty (ffb s' ! i)"
proof (cases "dirty (ffb s ! i)")
  case False
  then show ?thesis
    using ok fl_okD(5) [OF ok] fl_baseD(1) [OF fl_okD(1) [OF ok]]
    by (auto simp: fl_nvram_commit_def fl_ok_def)
next
  case True
  note F = fl_okD [OF ok]
  note D = fl_baseD [OF F(1)]
  let ?b = "ffb s ! i" and ?kvs = "fl_view i s"
  let ?d = "env_image (data_len ?b) ?kvs"
  have fits: "length (env_text ?kvs) < data_len ?b" using st D(8) by (simp add: storable_def)
  have "build_env (flash_max_len ?b) (cache ?b) 0 (replicate (data_len ?b) NUL) = Ret (True, ?d)"
    using fits F(3) by (simp add: build_env_image)
  moreover obtain dev where dev: "fl_store e s i ?d = Ret (upd_ffb i (\<lambda>b. b\<lparr>env_crc := crc32_spec ?d,
      env_data := None, dirty := False\<rparr>) (s\<lparr>fdev := dev\<rparr>))" "flash_ok e dev" "mtd_limit dev = mtd_limit (fdev s)"
      "part_bytes RALINK_NVRAM_MTDNAME dev = patch (part_bytes RALINK_NVRAM_MTDNAME (fdev s))
        (fst (layout ! i)) (crc_bytes (crc32_spec ?d) @ ?d)"
    using fl_store_ok [OF F(1), of ?d] fits by auto
  ultimately have run: "fl_nvram_commit e s (int i) = Ret (0, upd_ffb i (\<lambda>b. b\<lparr>env_crc := crc32_spec ?d,
      env_data := None, dirty := False\<rparr>) (s\<lparr>fdev := dev\<rparr>))"
    using D(1,6) F(5) True by (simp add: fl_nvram_commit_def user_malloc_def Let_def)
  have rom: "rom dev i = Some ?kvs"
    using rom_commit [OF D(11,1) st F(4) _ D(1), of dev] dev(4) D(8) by (simp add: encode_block_def Let_def)
  have "fl_base e i (s\<lparr>fdev := dev\<rparr>)" using F(1) dev(2,3) by (simp add: fl_base_def)
  then have "fl_base e i (upd_ffb i (\<lambda>b. b\<lparr>env_crc := crc32_spec ?d, env_data := None, dirty := False\<rparr>) (s\<lparr>fdev := dev\<rparr>))"
    by (rule fl_base_upd) simp_all
  then show ?thesis
    using run rom ok D(5) by (simp add: fl_ok_def fl_view_def)
qed

lemma fl_bufset_law:
  assumes ok: "fl_ok e i s" and room: "length (AList.update n v (fl_view i s)) \<le> MAX_CACHE_ENTRY"
  shows "\<exists>s'. fl_nvram_bufset e s (int i) n v = Ret (0, s') \<and> fl_ok e i s'
    \<and> fl_view i s' = AList.update n v (fl_view i s) \<and> fdev s' = fdev s"
proof -
  note F = fl_okD [OF ok]
  note D = fl_baseD [OF F(1)]
  let ?f = "\<lambda>b. b\<lparr>cache := cache_of (AList.update n v (fl_view i s)), dirty := True\<rparr>"
  have "cache_set (kmalloc_ok (u_heap e)) (cache (ffb s ! i)) n v = (0, cache_of (AList.update n v (fl_view i s)))"
    using cache_set_cache_of [OF F(4), of "kmalloc_ok (u_heap e)" n v] D(6) F(3) room by (auto simp: length_update)
  then have "fl_nvram_bufset e s (int i) n v = Ret (0, upd_ffb i ?f s)"
    using D(1) F(5) by (simp add: fl_nvram_bufset_def Let_def)
  moreover have "fl_base e i (upd_ffb i ?f s)" using F(1) by (rule fl_base_upd) simp_all
  then have "fl_ok e i (upd_ffb i ?f s)" using F(2) D(5) room by (simp add: fl_ok_def)
  ultimately show ?thesis using D(5) by (auto simp: fl_view_def)
qed

lemma fl_bufget_law:
  assumes "fl_ok e i s"
  shows "fl_nvram_bufget e s (int i) n = Ret (lookup (Some []) (fl_view i s) n, s)"
  using fl_okD [OF assms] fl_baseD(1) [OF fl_okD(1) [OF assms]]
  by (simp add: fl_nvram_bufget_def cache_get_cache_of lookup_def)

interpretation fl: nvram_api
  "\<lambda>s. fl_nvram_bufget e s (int i)" "\<lambda>s. fl_nvram_bufset e s (int i)" "\<lambda>s. fl_nvram_commit e s (int i)"
  "fl_view i" "\<lambda>s. rom (fdev s) i" "fl_ok e i" "Some []" vmax "storable i" for e i vmax
proof
  fix s n v
  assume ok: "fl_ok e i s"
  show "\<exists>s'. fl_nvram_bufget e s (int i) n = Ret (lookup (Some []) (fl_view i s) n, s') \<and> fl_ok e i s'
      \<and> fl_view i s' = fl_view i s \<and> rom (fdev s') i = rom (fdev s) i"
    using fl_bufget_law [OF ok, of n] ok by blast
  show "\<exists>s'. fl_nvram_bufset e s (int i) n v = Ret (0, s') \<and> fl_ok e i s'
      \<and> fl_view i s' = AList.update n v (fl_view i s) \<and> rom (fdev s') i = rom (fdev s) i"
    if "length (AList.update n v (fl_view i s)) \<le> MAX_CACHE_ENTRY"
    using fl_bufset_law [OF ok that] by auto
  show "\<exists>s'. fl_nvram_commit e s (int i) = Ret (0, s') \<and> fl_ok e i s' \<and> fl_view i s' = fl_view i s
      \<and> rom (fdev s') i = Some (fl_view i s)" if "storable i (fl_view i s)"
    using fl_commit_law [OF ok that] by blast
qed

section \<open>Loading\<close>

lemma fl_init_law:
  assumes base: "fl_base e i s" and inv: "\<not> valid (ffb s ! i)" and emp: "cache (ffb s ! i) = cache_of []"
    and dec: "rom (fdev s) i = Some kvs"
  shows "\<exists>s'. fl_nvram_init e s (int i) = Ret s' \<and> fl_ok e i s' \<and> fl_view i s' = kvs \<and> fdev s' = fdev s"
proof -
  note D = fl_baseD [OF base]
  let ?fl = "part_bytes RALINK_NVRAM_MTDNAME (fdev s)" and ?len = "data_len (ffb s ! i)" and ?off = "fst (layout ! i)"
  let ?crc = "crc_of_bytes (window ?fl ?off CRC_SIZE)" and ?data = "window ?fl (?off + CRC_SIZE) ?len"
  have bnd: "?off + CRC_SIZE + ?len \<le> mtd_limit (fdev s)" using D(3,8,9,10) by simp
  obtain r1 r2 where rd: "flash_read e (fdev s) ?off CRC_SIZE = Ret (r1, window ?fl ?off CRC_SIZE)"
    "flash_read e (fdev s) (?off + CRC_SIZE) ?len = Ret (r2, ?data)"
    using flash.read_header_data [OF D(2) bnd] unfolding RALINK_NVRAM_MTDNAME_def by blast
  have len: "length ?data = ?len" "length (window ?fl ?off CRC_SIZE) = CRC_SIZE"
    using D(8-11) by simp_all
  have dec': "(if crc32_spec ?data \<noteq> ?crc then Some []
      else case parse_env MAX_CACHE_ENTRY ?len ?data of Ret (kvs, _) \<Rightarrow> Some kvs | _ \<Rightarrow> None) = Some kvs"
    using dec by (simp only: rom_def decode_block_def Let_def D(8))
  have run: "fl_nvram_init e s (int i) =
     (if crc32_spec ?data \<noteq> ?crc then
        Ret (upd_ffb i (\<lambda>b. b\<lparr>env_crc := ?crc, env_data := None, valid := True, dirty := False\<rparr>) s)
      else obind (parse_env MAX_CACHE_ENTRY ?len ?data) (\<lambda>(kvs, _).
        Ret (upd_ffb i (\<lambda>b. b\<lparr>env_crc := ?crc, env_data := None,
          cache := fill_cache (kmalloc_ok (u_heap e)) (cache b) kvs, valid := True, dirty := False\<rparr>) s)))"
    using D(1,6,7) inv rd len
    by (simp add: fl_nvram_init_def Let_def user_malloc_def crc32_data)
  have fin: ?thesis
    if r: "fl_nvram_init e s (int i) = Ret (upd_ffb i f s)" and f: "cache (f (ffb s ! i)) = cache_of kvs"
      "valid (f (ffb s ! i))" "flash_offset (f (ffb s ! i)) = flash_offset (ffb s ! i)"
      "flash_max_len (f (ffb s ! i)) = flash_max_len (ffb s ! i)" "length kvs \<le> MAX_CACHE_ENTRY" for f
    using r f fl_base_upd [OF base, of f] D(5) dec by (simp add: fl_ok_def fl_view_def)
  show ?thesis
  proof (cases "crc32_spec ?data \<noteq> ?crc")
    case True
    then have "kvs = []" using dec' by simp
    have "fl_nvram_init e s (int i) = Ret (upd_ffb i (\<lambda>b. b\<lparr>env_crc := ?crc, env_data := None,
        valid := True, dirty := False\<rparr>) s)" using True run by simp
    from fin [OF this] emp \<open>kvs = []\<close> show ?thesis by simp
  next
    case False
    then obtain d where d: "parse_env MAX_CACHE_ENTRY ?len ?data = Ret (kvs, d)"
      using dec' by (auto split: outcome.splits)
    then have kl: "length kvs \<le> MAX_CACHE_ENTRY" using parse_env_length by blast
    have "fl_nvram_init e s (int i) = Ret (upd_ffb i (\<lambda>b. b\<lparr>env_crc := ?crc, env_data := None,
        cache := fill_cache (kmalloc_ok (u_heap e)) (cache b) kvs, valid := True, dirty := False\<rparr>) s)"
      using False run d by simp
    from fin [OF this] show ?thesis
      using fill_cache_ok [of "u_heap e" kvs] emp D(6) kl by (simp add: heap_ok_def)
  qed
qed

lemma fl_close_law:
  assumes ok: "fl_ok e i s" and st: "storable i (fl_view i s)"
  shows "\<exists>s'. fl_nvram_close e s (int i) = Ret s' \<and> fl_base e i s' \<and> \<not> valid (ffb s' ! i)
    \<and> cache (ffb s' ! i) = cache_of [] \<and> rom (fdev s') i = Some (fl_view i s)"
proof -
  obtain s1 where s1: "(if dirty (ffb s ! i) then fl_nvram_commit e s (int i) else Ret (0, s)) = Ret (0, s1)"
    "fl_ok e i s1" "rom (fdev s1) i = Some (fl_view i s)"
  proof (cases "dirty (ffb s ! i)")
    case True
    then show ?thesis using that fl_commit_law [OF ok st] by auto
  next
    case False
    then show ?thesis using that [of s] ok by (simp add: fl_ok_def)
  qed
  note F = fl_okD [OF s1(2)]
  note D = fl_baseD [OF F(1)]
  let ?f = "\<lambda>b. b\<lparr>env_data := None, cache := clear_cache (cache b), valid := False\<rparr>"
  have "fl_nvram_close e s (int i) = Ret (upd_ffb i ?f s1)"
    using s1(1) fl_okD(2) [OF ok] D(1) by (simp add: fl_nvram_close_def)
  moreover have "fl_base e i (upd_ffb i ?f s1)" using F(1) by (rule fl_base_upd) simp_all
  moreover have "clear_cache (cache (ffb s1 ! i)) = cache_of []"
    using F(3,4) by (simp add: clear_cache_def cache_of_def map_replicate_const flip: replicate_add)
  ultimately show ?thesis using s1(3) D(5) by simp
qed

text \<open>A process that starts on a flash holding a list reads that list.\<close>

lemma fl_new_process:
  assumes "flash_ok e d" and "0xf000 \<le> mtd_limit d" and i: "i < 4" and rom: "rom d i = Some kvs"
  shows "\<exists>s. fl_nvram_bufget e \<lparr>ffb = lib_fb_init, fdev = d\<rparr> (int i) n = Ret (lookup (Some []) kvs n, s)"
proof -
  let ?new = "\<lparr>ffb = lib_fb_init, fdev = d\<rparr>"
  have "fl_base e i ?new" using assms(1-3) by (simp add: fl_base_def lib_fb_init_blocks)
  then obtain s where s: "fl_nvram_init e ?new (int i) = Ret s" "fl_ok e i s" "fl_view i s = kvs"
    using fl_init_law [of e i ?new] fb_init_nth [OF i] rom by (auto simp: lib_fb_init_eq)
  have "fl_CHECK_VALID e ?new (int i) = Ret s"
    using s(1) fb_init_nth(1) [OF i] by (simp add: fl_CHECK_VALID_def lib_fb_init_eq)
  then have "fl_nvram_bufget e ?new (int i) n = fl_nvram_bufget e s (int i) n"
    using i fl_okD(5) [OF s(2)] by (simp add: fl_nvram_bufget_def)
  then show ?thesis using fl_bufget_law [OF s(2), of n] s(3) by auto
qed

section \<open>Properties\<close>

text \<open>In the build without kernel module, \<open>nvram_get\<close> writes pending changes to flash, drops the
  cache, reloads it from flash, and returns what the cache held: no setting is lost or changed
  on the way.\<close>

theorem fl_get_flushes_and_reloads:
  assumes "fl_ok e i s" and "storable i (fl_view i s)"
  shows "\<exists>s'. fl_nvram_get e s (int i) n = Ret (lookup (Some []) (fl_view i s) n, s')
    \<and> fl_ok e i s' \<and> fl_view i s' = fl_view i s \<and> rom (fdev s') i = Some (fl_view i s)"
proof -
  obtain s1 where s1: "fl_nvram_close e s (int i) = Ret s1" "fl_base e i s1" "\<not> valid (ffb s1 ! i)"
    "cache (ffb s1 ! i) = cache_of []" "rom (fdev s1) i = Some (fl_view i s)"
    using fl_close_law [OF assms] by blast
  obtain s2 where s2: "fl_nvram_init e s1 (int i) = Ret s2" "fl_ok e i s2" "fl_view i s2 = fl_view i s"
    "fdev s2 = fdev s1"
    using fl_init_law [OF s1(2-5)] by blast
  then show ?thesis
    using s1 fl_bufget_law [OF s2(2), of n] by (simp add: fl_nvram_get_def)
qed

lemma board_rom: "i < 4 \<Longrightarrow> rom (board_dev 0) i = Some []"
proof -
  have "part_bytes RALINK_NVRAM_MTDNAME (board_dev 0) = part_bytes RALINK_NVRAM_MTDNAME demo_dev"
    using board_bytes [of 0] demo_bytes by (simp add: RALINK_NVRAM_MTDNAME_def)
  moreover assume "i < 4"
  ultimately show ?thesis using demo_rom [of i] by (simp add: rom_def)
qed

lemma board_fl_base: "i < 4 \<Longrightarrow> fl_base board_env i \<lparr>ffb = lib_fb_init, fdev = board_dev 0\<rparr>"
  using board_flash_ok [of 0] by (simp add: fl_base_def lib_fb_init_blocks mtd_limit_def board_sector)

lemma board_fl_init:
  obtains s where "fl_nvram_init board_env \<lparr>ffb = lib_fb_init, fdev = board_dev 0\<rparr> 0 = Ret s"
    "fl_ok board_env 0 s" "fl_view 0 s = []"
  using fl_init_law [OF board_fl_base [of 0], of "[]"] fb_init_nth [of 0] board_rom [of 0]
  by (auto simp: lib_fb_init_eq)

theorem fl_get_flushes_and_reloads_witness:
  "\<exists>s s'. fl_nvram_init board_env \<lparr>ffb = lib_fb_init, fdev = board_dev 0\<rparr> 0 = Ret s
    \<and> fl_nvram_get board_env s 0 [0x61] = Ret (Some [], s')"
proof -
  obtain s where s: "fl_nvram_init board_env \<lparr>ffb = lib_fb_init, fdev = board_dev 0\<rparr> 0 = Ret s"
    "fl_ok board_env 0 s" "fl_view 0 s = []"
    by (rule board_fl_init)
  then show ?thesis
    using fl_get_flushes_and_reloads [OF s(2), of "[0x61]"] storable_small [of 0] by (auto simp: lookup_def)
qed

text \<open>In that build, \<open>nvram_set\<close> in one process is seen by every process that starts afterwards:
  a new process with the same flash reads the new value, and the old value of every other name.\<close>

theorem fl_set_seen_by_new_process:
  assumes "fl_ok e i s" and "length (AList.update n v (fl_view i s)) \<le> MAX_CACHE_ENTRY"
    and "storable i (AList.update n v (fl_view i s))"
  shows "\<exists>s1 s2. fl_nvram_set e s (int i) n v = Ret (0, s1)
    \<and> fl_nvram_bufget e \<lparr>ffb = lib_fb_init, fdev = fdev s1\<rparr> (int i) m
      = Ret (if m = n then Some v else lookup (Some []) (fl_view i s) m, s2)"
proof -
  obtain s1 where s1: "fl_nvram_bufset e s (int i) n v = Ret (0, s1)" "fl_ok e i s1"
    "fl_view i s1 = AList.update n v (fl_view i s)"
    using fl_bufset_law [OF assms(1,2)] by blast
  obtain s2 where s2: "fl_nvram_commit e s1 (int i) = Ret (0, s2)" "fl_ok e i s2"
    "rom (fdev s2) i = Some (AList.update n v (fl_view i s))"
    using fl_commit_law [OF s1(2)] assms(3) s1(3) by auto
  note D = fl_baseD [OF fl_okD(1) [OF s2(2)]]
  have "\<exists>s3. fl_nvram_bufget e \<lparr>ffb = lib_fb_init, fdev = fdev s2\<rparr> (int i) m
      = Ret (if m = n then Some v else lookup (Some []) (fl_view i s) m, s3)"
    using fl_new_process [OF D(2,3,1) s2(3), of m] by (simp only: lookup_update)
  moreover have "fl_nvram_set e s (int i) n v = Ret (0, s2)" using s1(1) s2(1) by (simp add: fl_nvram_set_def)
  ultimately show ?thesis by blast
qed

theorem fl_set_seen_by_new_process_witness:
  "\<exists>s s1 s2. fl_nvram_init board_env \<lparr>ffb = lib_fb_init, fdev = board_dev 0\<rparr> 0 = Ret s
    \<and> fl_nvram_set board_env s 0 [0x61] [0x31] = Ret (0, s1)
    \<and> fl_nvram_bufget board_env \<lparr>ffb = lib_fb_init, fdev = fdev s1\<rparr> 0 [0x61] = Ret (Some [0x31], s2)"
proof -
  obtain s where s: "fl_nvram_init board_env \<lparr>ffb = lib_fb_init, fdev = board_dev 0\<rparr> 0 = Ret s"
    "fl_ok board_env 0 s" "fl_view 0 s = []"
    by (rule board_fl_init)
  then show ?thesis
    using fl_set_seen_by_new_process [OF s(2), of "[0x61]" "[0x31]" "[0x61]"] storable_small [of 0] by auto
qed

end
