(* ===== verification/Crc16.thy ===== *)
theory Crc16
  imports CrcCore FlashApi
begin

text \<open>
  The key tool of user/rt2880_app/nvram/ralink_init.c: the two-table CRC-16 and the derivation
  of an eight-character key from the MAC address of the wireless interface. The tables are
  the split halves of the CRC-16 table for the reflected polynomial 0xA001, so the function is
  an instance of \<open>reflected_crc\<close>; the derived key is always eight letters or digits.
\<close>

type_synonym u16 = "16 word"

definition asclooktable :: "byte list" where
  "asclooktable =
    [0x59, 0x56, 0x38, 0x33, 0x33, 0x32, 0x51, 0x45, 0x31, 0x4E, 0x53, 0x45, 0x4B, 0x47, 0x37, 0x42,
     0x47, 0x34, 0x37, 0x43, 0x34, 0x47, 0x38, 0x52, 0x57, 0x58, 0x5A, 0x41, 0x36, 0x59, 0x50, 0x51,
     0x54, 0x50, 0x49, 0x42, 0x45, 0x44, 0x37, 0x45, 0x36, 0x47, 0x31, 0x44, 0x30, 0x38, 0x32, 0x34,
     0x49, 0x33, 0x4C, 0x49, 0x31, 0x48, 0x49, 0x53, 0x37, 0x59, 0x31, 0x4C, 0x45, 0x31, 0x39, 0x4F,
     0x58, 0x33, 0x4D, 0x4B, 0x5A, 0x34, 0x38, 0x53, 0x43, 0x34, 0x55, 0x30, 0x32, 0x39, 0x39, 0x42,
     0x46, 0x4E, 0x34, 0x49, 0x53, 0x51, 0x39, 0x5A, 0x4A, 0x51, 0x37, 0x46, 0x39, 0x56, 0x58, 0x4E,
     0x4E, 0x50, 0x44, 0x55, 0x48, 0x4C, 0x33, 0x38, 0x56, 0x4D, 0x50, 0x50, 0x38, 0x30, 0x42, 0x30,
     0x41, 0x46, 0x43, 0x34, 0x57, 0x43, 0x49, 0x46, 0x55, 0x39, 0x35, 0x4D, 0x54, 0x46, 0x55, 0x57,
     0x42, 0x54, 0x39, 0x45, 0x41, 0x51, 0x33, 0x33, 0x4B, 0x56, 0x43, 0x34, 0x36, 0x53, 0x5A, 0x5A,
     0x30, 0x46, 0x46, 0x51, 0x47, 0x46, 0x4D, 0x30, 0x30, 0x4B, 0x52, 0x49, 0x45, 0x45, 0x4B, 0x4D,
     0x49, 0x4A, 0x45, 0x47, 0x41, 0x57, 0x35, 0x44, 0x35, 0x38, 0x4D, 0x45, 0x37, 0x41, 0x32, 0x48,
     0x41, 0x49, 0x4E, 0x5A, 0x53, 0x4D, 0x47, 0x30, 0x4F, 0x31, 0x58, 0x50, 0x42, 0x33, 0x41, 0x48,
     0x37, 0x53, 0x45, 0x4F, 0x4F, 0x43, 0x41, 0x47, 0x45, 0x38, 0x50, 0x43, 0x41, 0x5A, 0x49, 0x4E,
     0x44, 0x34, 0x4A, 0x48, 0x49, 0x36, 0x37, 0x53, 0x53, 0x45, 0x37, 0x50, 0x43, 0x35, 0x34, 0x35,
     0x4E, 0x55, 0x39, 0x4B, 0x50, 0x48, 0x41, 0x4A, 0x49, 0x50, 0x39, 0x58, 0x59, 0x57, 0x4E, 0x37,
     0x55, 0x59, 0x51, 0x42, 0x4C, 0x4B, 0x4C, 0x30, 0x35, 0x58, 0x49, 0x54, 0x42, 0x4E, 0x51, 0x5A]"

definition auchCRCHi :: "byte list" where
  "auchCRCHi =
    [0x00, 0xC1, 0x81, 0x40, 0x01, 0xC0, 0x80, 0x41, 0x01, 0xC0, 0x80, 0x41, 0x00, 0xC1, 0x81, 0x40,
     0x01, 0xC0, 0x80, 0x41, 0x00, 0xC1, 0x81, 0x40, 0x00, 0xC1, 0x81, 0x40, 0x01, 0xC0, 0x80, 0x41,
     0x01, 0xC0, 0x80, 0x41, 0x00, 0xC1, 0x81, 0x40, 0x00, 0xC1, 0x81, 0x40, 0x01, 0xC0, 0x80, 0x41,
     0x00, 0xC1, 0x81, 0x40, 0x01, 0xC0, 0x80, 0x41, 0x01, 0xC0, 0x80, 0x41, 0x00, 0xC1, 0x81, 0x40,
     0x01, 0xC0, 0x80, 0x41, 0x00, 0xC1, 0x81, 0x40, 0x00, 0xC1, 0x81, 0x40, 0x01, 0xC0, 0x80, 0x41,
     0x00, 0xC1, 0x81, 0x40, 0x01, 0xC0, 0x80, 0x41, 0x01, 0xC0, 0x80, 0x41, 0x00, 0xC1, 0x81, 0x40,
     0x00, 0xC1, 0x81, 0x40, 0x01, 0xC0, 0x80, 0x41, 0x01, 0xC0, 0x80, 0x41, 0x00, 0xC1, 0x81, 0x40,
     0x01, 0xC0, 0x80, 0x41, 0x00, 0xC1, 0x81, 0x40, 0x00, 0xC1, 0x81, 0x40, 0x01, 0xC0, 0x80, 0x41,
     0x01, 0xC0, 0x80, 0x41, 0x00, 0xC1, 0x81, 0x40, 0x00, 0xC1, 0x81, 0x40, 0x01, 0xC0, 0x80, 0x41,
     0x00, 0xC1, 0x81, 0x40, 0x01, 0xC0, 0x80, 0x41, 0x01, 0xC0, 0x80, 0x41, 0x00, 0xC1, 0x81, 0x40,
     0x00, 0xC1, 0x81, 0x40, 0x01, 0xC0, 0x80, 0x41, 0x01, 0xC0, 0x80, 0x41, 0x00, 0xC1, 0x81, 0x40,
     0x01, 0xC0, 0x80, 0x41, 0x00, 0xC1, 0x81, 0x40, 0x00, 0xC1, 0x81, 0x40, 0x01, 0xC0, 0x80, 0x41,
     0x00, 0xC1, 0x81, 0x40, 0x01, 0xC0, 0x80, 0x41, 0x01, 0xC0, 0x80, 0x41, 0x00, 0xC1, 0x81, 0x40,
     0x01, 0xC0, 0x80, 0x41, 0x00, 0xC1, 0x81, 0x40, 0x00, 0xC1, 0x81, 0x40, 0x01, 0xC0, 0x80, 0x41,
     0x01, 0xC0, 0x80, 0x41, 0x00, 0xC1, 0x81, 0x40, 0x00, 0xC1, 0x81, 0x40, 0x01, 0xC0, 0x80, 0x41,
     0x00, 0xC1, 0x81, 0x40, 0x01, 0xC0, 0x80, 0x41, 0x01, 0xC0, 0x80, 0x41, 0x00, 0xC1, 0x81, 0x40]"

definition auchCRCLo :: "byte list" where
  "auchCRCLo =
    [0x00, 0xC0, 0xC1, 0x01, 0xC3, 0x03, 0x02, 0xC2, 0xC6, 0x06, 0x07, 0xC7, 0x05, 0xC5, 0xC4, 0x04,
     0xCC, 0x0C, 0x0D, 0xCD, 0x0F, 0xCF, 0xCE, 0x0E, 0x0A, 0xCA, 0xCB, 0x0B, 0xC9, 0x09, 0x08, 0xC8,
     0xD8, 0x18, 0x19, 0xD9, 0x1B, 0xDB, 0xDA, 0x1A, 0x1E, 0xDE, 0xDF, 0x1F, 0xDD, 0x1D, 0x1C, 0xDC,
     0x14, 0xD4, 0xD5, 0x15, 0xD7, 0x17, 0x16, 0xD6, 0xD2, 0x12, 0x13, 0xD3, 0x11, 0xD1, 0xD0, 0x10,
     0xF0, 0x30, 0x31, 0xF1, 0x33, 0xF3, 0xF2, 0x32, 0x36, 0xF6, 0xF7, 0x37, 0xF5, 0x35, 0x34, 0xF4,
     0x3C, 0xFC, 0xFD, 0x3D, 0xFF, 0x3F, 0x3E, 0xFE, 0xFA, 0x3A, 0x3B, 0xFB, 0x39, 0xF9, 0xF8, 0x38,
     0x28, 0xE8, 0xE9, 0x29, 0xEB, 0x2B, 0x2A, 0xEA, 0xEE, 0x2E, 0x2F, 0xEF, 0x2D, 0xED, 0xEC, 0x2C,
     0xE4, 0x24, 0x25, 0xE5, 0x27, 0xE7, 0xE6, 0x26, 0x22, 0xE2, 0xE3, 0x23, 0xE1, 0x21, 0x20, 0xE0,
     0xA0, 0x60, 0x61, 0xA1, 0x63, 0xA3, 0xA2, 0x62, 0x66, 0xA6, 0xA7, 0x67, 0xA5, 0x65, 0x64, 0xA4,
     0x6C, 0xAC, 0xAD, 0x6D, 0xAF, 0x6F, 0x6E, 0xAE, 0xAA, 0x6A, 0x6B, 0xAB, 0x69, 0xA9, 0xA8, 0x68,
     0x78, 0xB8, 0xB9, 0x79, 0xBB, 0x7B, 0x7A, 0xBA, 0xBE, 0x7E, 0x7F, 0xBF, 0x7D, 0xBD, 0xBC, 0x7C,
     0xB4, 0x74, 0x75, 0xB5, 0x77, 0xB7, 0xB6, 0x76, 0x72, 0xB2, 0xB3, 0x73, 0xB1, 0x71, 0x70, 0xB0,
     0x50, 0x90, 0x91, 0x51, 0x93, 0x53, 0x52, 0x92, 0x96, 0x56, 0x57, 0x97, 0x55, 0x95, 0x94, 0x54,
     0x9C, 0x5C, 0x5D, 0x9D, 0x5F, 0x9F, 0x9E, 0x5E, 0x5A, 0x9A, 0x9B, 0x5B, 0x99, 0x59, 0x58, 0x98,
     0x88, 0x48, 0x49, 0x89, 0x4B, 0x8B, 0x8A, 0x4A, 0x4E, 0x8E, 0x8F, 0x4F, 0x8D, 0x4D, 0x4C, 0x8C,
     0x44, 0x84, 0x85, 0x45, 0x87, 0x47, 0x46, 0x86, 0x82, 0x42, 0x43, 0x83, 0x41, 0x81, 0x80, 0x40]"

text \<open>The loop of \<open>CRC16\<close> on the pair \<open>(uchCRCHi, uchCRCLo)\<close>; reading past the message faults.\<close>

fun crc16_loop :: "byte list \<Rightarrow> nat \<Rightarrow> byte \<times> byte \<Rightarrow> (byte \<times> byte) outcome" where
  "crc16_loop msg 0 st = Ret st"
| "crc16_loop [] (Suc n) st = Fault"
| "crc16_loop (m # msg) (Suc n) (hi, lo) =
     (let uIndex = unat (hi XOR m)
      in crc16_loop msg n (lo XOR auchCRCHi ! uIndex, auchCRCLo ! uIndex))"

text \<open>\<open>CRC16\<close>: the return value and the bytes stored through \<open>reLoChar\<close> and \<open>reHiChar\<close>.\<close>

definition CRC16 :: "byte list \<Rightarrow> nat \<Rightarrow> (u16 \<times> byte \<times> byte) outcome" where
  "CRC16 msg len =
     obind (crc16_loop msg len (0xFF, 0xFF)) (\<lambda>(hi, lo).
     Ret (push_bit 8 (ucast lo) OR ucast hi, lo, hi))"

text \<open>The key derivation shared by the \<open>cryptcheck\<close> and \<open>comcryptcheck\<close> commands: the MAC bytes
  masked with the CRC bytes in alternation, two more mask bytes, then the look-up table.\<close>

fun mask_pairs :: "byte \<Rightarrow> byte \<Rightarrow> byte list \<Rightarrow> byte list" where
  "mask_pairs k1 k2 (a # b # xs) = (a XOR k1) # (b XOR k2) # mask_pairs k1 k2 xs"
| "mask_pairs k1 k2 xs = []"

definition derive_key :: "byte list \<Rightarrow> byte list outcome" where
  "derive_key mac_char =
     obind (CRC16 mac_char 6) (\<lambda>(_, crcKeyFir, crcKeySec).
     let andorkey = mask_pairs crcKeyFir crcKeySec (take 6 mac_char) @ [0 XOR crcKeyFir, 0 XOR crcKeySec]
     in Ret (map (\<lambda>k. asclooktable ! unat k) andorkey))"

section \<open>The tables are one CRC table\<close>

abbreviation poly16 :: u16 where "poly16 \<equiv> 0xA001"

interpretation c16: reflected_crc poly16
  by unfold_locales simp_all

definition reg16 :: "byte \<Rightarrow> byte \<Rightarrow> u16" where
  "reg16 hi lo = push_bit 8 (ucast lo) OR ucast hi"

definition tab16 :: "u16 list" where
  "tab16 = map2 reg16 auchCRCHi auchCRCLo"

lemma length_tables [simp]: "length auchCRCHi = 256" "length auchCRCLo = 256" "length asclooktable = 256"
  by (simp_all add: auchCRCHi_def auchCRCLo_def asclooktable_def)

lemma crc_byte_one16: "crc_byte poly16 1 = 0xC0C1"
  by code_simp

lemma reg16_numeral: "reg16 hi lo = ucast lo * 256 OR ucast hi"
  by (simp add: reg16_def push_bit_eq_mult)

lemma tab16_halving: "map (crc_bit poly16) (evens tab16) = take 128 tab16"
  by (simp add: tab16_def auchCRCHi_def auchCRCLo_def reg16_numeral crc_bit_def)

lemma tab16_odds: "odds tab16 = map (\<lambda>x. x XOR 0xC0C1) (evens tab16)"
  by (simp add: tab16_def auchCRCHi_def auchCRCLo_def reg16_numeral)

lemma tab16_nth: "n < 256 \<Longrightarrow> reg16 (auchCRCHi ! n) (auchCRCLo ! n) = crc_byte poly16 (of_nat n)"
proof -
  assume n: "n < 256"
  have "length tab16 = 256" by (simp add: tab16_def)
  moreover have "tab16 ! 0 = 0" by (simp add: tab16_def auchCRCHi_def auchCRCLo_def reg16_numeral)
  ultimately have "tab16 ! n = crc_byte poly16 (of_nat n)"
    using n by (intro c16.table_entry) (simp_all add: tab16_halving tab16_odds crc_byte_one16)
  then show ?thesis using n by (simp add: tab16_def)
qed

lemma byte_bit_bound: "bit (b :: byte) n \<Longrightarrow> n < 8"
  using bit_imp_le_length [of b n] by simp

lemma byte_bit_high [simp]: "\<not> bit (b :: byte) (8 + n)"
  using byte_bit_bound [of b "8 + n"] by auto

lemma unat_byte_less: "unat (b :: byte) < 256"
  using unsigned_less [of b] by simp

lemma reg16_low: "(reg16 hi lo XOR ucast m) AND 0xFF = ucast (hi XOR m)"
proof (rule bit_word_eqI)
  fix n assume "n < LENGTH(16)"
  have "bit (0xFF :: u16) n = (n < 8)"
    using bit_mask_iff [of 8 n, where ?'a = u16] \<open>n < LENGTH(16)\<close> by (simp add: mask_eq_exp_minus_1)
  then show "bit ((reg16 hi lo XOR ucast m) AND 0xFF) n = bit (ucast (hi XOR m) :: u16) n"
    by (auto simp: reg16_def bit_simps dest: byte_bit_bound)
qed

lemma reg16_high: "drop_bit 8 (reg16 hi lo XOR ucast (m :: byte)) = ucast lo"
  by (rule bit_word_eqI) (auto simp: reg16_def bit_simps dest: byte_bit_bound)

lemma reg16_xor: "reg16 h l XOR ucast lo = reg16 (lo XOR h) l"
  by (rule bit_word_eqI) (auto simp: reg16_def bit_simps dest: bit_imp_le_length)

lemma crc16_step:
  "reg16 (lo XOR auchCRCHi ! unat (hi XOR m)) (auchCRCLo ! unat (hi XOR m))
    = crc_byte poly16 (reg16 hi lo XOR ucast m)"
proof -
  let ?i = "unat (hi XOR m)"
  have i: "?i < 256" by (rule unat_byte_less)
  have "crc_byte poly16 (reg16 hi lo XOR ucast m) = crc_byte poly16 (ucast (hi XOR m)) XOR ucast lo"
    using crc_byte_split [of poly16 "reg16 hi lo XOR ucast m"] by (simp only: reg16_low reg16_high)
  also have "ucast (hi XOR m) = (of_nat ?i :: u16)" by simp
  also have "crc_byte poly16 (of_nat ?i) = reg16 (auchCRCHi ! ?i) (auchCRCLo ! ?i)"
    using tab16_nth [OF i] by simp
  also have "reg16 (auchCRCHi ! ?i) (auchCRCLo ! ?i) XOR ucast lo
      = reg16 (lo XOR auchCRCHi ! ?i) (auchCRCLo ! ?i)" by (rule reg16_xor)
  finally show ?thesis by simp
qed

lemma crc16_loop_spec:
  "n \<le> length msg \<Longrightarrow> \<exists>hi' lo'. crc16_loop msg n (hi, lo) = Ret (hi', lo')
    \<and> reg16 hi' lo' = crc_spec poly16 (reg16 hi lo) (take n msg)"
proof (induction n arbitrary: msg hi lo)
  case (Suc n)
  then obtain m msg' where msg: "msg = m # msg'" "n \<le> length msg'" by (cases msg) auto
  let ?i = "unat (hi XOR m)"
  obtain hi' lo' where "crc16_loop msg' n (lo XOR auchCRCHi ! ?i, auchCRCLo ! ?i) = Ret (hi', lo')"
    "reg16 hi' lo' = crc_spec poly16 (reg16 (lo XOR auchCRCHi ! ?i) (auchCRCLo ! ?i)) (take n msg')"
    using Suc.IH [OF msg(2)] by blast
  then show ?case by (simp add: msg Let_def crc16_step)
qed simp

lemma CRC16_spec:
  assumes "len \<le> length msg"
  obtains lo hi where "CRC16 msg len = Ret (crc_spec poly16 0xFFFF (take len msg), lo, hi)"
    "reg16 hi lo = crc_spec poly16 0xFFFF (take len msg)"
proof -
  obtain hi lo where loop: "crc16_loop msg len (0xFF, 0xFF) = Ret (hi, lo)"
    "reg16 hi lo = crc_spec poly16 (reg16 0xFF 0xFF) (take len msg)"
    using crc16_loop_spec [OF assms] by blast
  have "reg16 0xFF 0xFF = 0xFFFF" by (simp add: reg16_numeral)
  with loop show ?thesis using that by (simp add: CRC16_def reg16_def)
qed

section \<open>The key\<close>

definition key_char :: "byte \<Rightarrow> bool" where
  "key_char c = (0x30 \<le> c \<and> c \<le> 0x39 \<or> 0x41 \<le> c \<and> c \<le> 0x5A)"

lemma asclooktable_chars: "\<forall>c \<in> set asclooktable. key_char c"
  by (simp add: asclooktable_def key_char_def)

lemma length_mask_pairs: "even (length xs) \<Longrightarrow> length (mask_pairs a b xs) = length xs"
  by (induction a b xs rule: mask_pairs.induct) auto

lemma derive_key_ok:
  assumes "length mac = 6"
  shows "\<exists>key. derive_key mac = Ret key \<and> length key = 8 \<and> (\<forall>c \<in> set key. key_char c)"
proof -
  obtain lo hi where crc: "CRC16 mac 6 = Ret (crc_spec poly16 0xFFFF (take 6 mac), lo, hi)"
    using CRC16_spec [of 6 mac] assms by (metis order_refl)
  have "key_char (asclooktable ! unat k)" for k :: byte
  proof -
    have "unat k < 256" by (rule unat_byte_less)
    then have "asclooktable ! unat k \<in> set asclooktable" by (intro nth_mem) simp
    then show ?thesis using asclooktable_chars by blast
  qed
  moreover have "length (mask_pairs lo hi mac) = 6" using assms by (simp add: length_mask_pairs)
  ultimately show ?thesis using crc assms by (auto simp: derive_key_def Let_def)
qed

section \<open>Properties\<close>

text \<open>\<open>CRC16\<close> with its two 256-byte tables reads exactly the given bytes and computes the bitwise
  CRC-16 of the reflected polynomial 0xA001 with start value 0xFFFF; its two output bytes are
  the halves of the result.\<close>

theorem CRC16_is_shift_register:
  assumes "len \<le> length msg"
  shows "\<exists>lo hi. CRC16 msg len = Ret (crc_spec poly16 0xFFFF (take len msg), lo, hi)
    \<and> crc_spec poly16 0xFFFF (take len msg) = push_bit 8 (ucast lo) OR ucast hi"
  using CRC16_spec [OF assms] by (metis reg16_def)

theorem CRC16_is_shift_register_witness:
  "\<exists>lo hi. CRC16 [1, 2, 3] 2 = Ret (crc_spec poly16 0xFFFF (take 2 [1, 2, 3]), lo, hi)"
  using CRC16_is_shift_register [of 2 "[1, 2, 3]"] by auto

text \<open>For every MAC address the key derivation yields eight characters, each a digit or a capital
  letter, so the key is a proper C string of full length.\<close>

theorem derive_key_alphanumeric:
  assumes "length mac = 6"
  shows "\<exists>key. derive_key mac = Ret key \<and> length key = 8 \<and> is_cstring key \<and> (\<forall>c \<in> set key. key_char c)"
  using derive_key_ok [OF assms] by (force simp: is_cstring_def key_char_def)

theorem derive_key_alphanumeric_witness:
  "\<exists>key. derive_key [0, 0x0C, 0x43, 1, 2, 3] = Ret key \<and> length key = 8 \<and> is_cstring key"
  using derive_key_alphanumeric [of "[0, 0x0C, 0x43, 1, 2, 3]"] by auto

end
