(* ===== verification/NvramTool.thy ===== *)
theory NvramTool
  imports LibNvram Crc16
begin

text \<open>
  The command-line tool behind \<open>nvram_get\<close>, \<open>nvram_set\<close> and \<open>nvram show\<close>
  (user/rt2880_app/nvram/ralink_init.c): reading and writing one setting, the two commands that
  write and check the key derived from the MAC address, and the listing of a block read
  directly from the flash. The state of a command is the library's state (with the kernel and
  the flash behind it), the files and the standard output; the standard error stream is left out.
\<close>

section \<open>The world of a command\<close>

record world =
  nv :: lnv
  files :: "cstring \<Rightarrow> byte list option"
  stdout :: "byte list"

text \<open>What the system answers to a request for a hardware address, and which files can be created.\<close>

datatype hwaddr = NoSocket | NoDevice | HwAddr "byte list"

record tenv =
  te :: uenv
  t_hw :: "cstring \<Rightarrow> hwaddr"
  t_creat :: "cstring \<Rightarrow> bool"

definition printf :: "cstring \<Rightarrow> world \<Rightarrow> world" where
  "printf s w = w\<lparr>stdout := stdout w @ s\<rparr>"

text \<open>\<open>printf("%s")\<close> of the C library writes \<open>(null)\<close> for a NULL pointer.\<close>

definition fmt_s :: "cstring option \<Rightarrow> cstring" where
  "fmt_s p = (case p of None \<Rightarrow> lit ''(null)'' | Some s \<Rightarrow> s)"

definition set_dev :: "flash_dev \<Rightarrow> world \<Rightarrow> world" where
  "set_dev d w = w\<lparr>nv := (nv w)\<lparr>lk := (lk (nv w))\<lparr>kdev := d\<rparr>\<rparr>\<rparr>"

abbreviation flash_of :: "world \<Rightarrow> flash_dev" where
  "flash_of w \<equiv> kdev (lk (nv w))"

abbreviation (input) RTDEV_NVRAM :: int where "RTDEV_NVRAM \<equiv> 1"
abbreviation (input) CERT_NVRAM :: int where "CERT_NVRAM \<equiv> 2"
abbreviation (input) WAPI_NVRAM :: int where "WAPI_NVRAM \<equiv> 3"

definition DEFAULT_FLASH_ZONE_NAME :: cstring where
  "DEFAULT_FLASH_ZONE_NAME = lit ''2860''"

section \<open>Hardware addresses\<close>

definition open_error :: cstring where
  "open_error = lit ''getAPMac: open socket error''"

definition ioctl_error :: "cstring \<Rightarrow> cstring" where
  "ioctl_error ifname = lit ''getAPMac: ioctl SIOCGIFHWADDR error for '' @ ifname"

text \<open>\<open>get_APMac6\<close>: the return value, the six bytes stored through \<open>if_hw\<close>, and the state.\<close>

definition get_APMac6 :: "tenv \<Rightarrow> cstring \<Rightarrow> world \<Rightarrow> int \<times> byte list \<times> world" where
  "get_APMac6 t ifname w =
     (case t_hw t ifname of
        NoSocket \<Rightarrow> (- 1, [], printf open_error w)
      | NoDevice \<Rightarrow> (- 1, [], printf (ioctl_error ifname) w)
      | HwAddr ptr \<Rightarrow> (0, take 6 ptr, w))"

text \<open>The other readers store a text; each byte is masked with 0377 before it is printed.\<close>

definition hw_text :: "cstring \<Rightarrow> (cstring \<Rightarrow> cstring) \<Rightarrow> (byte list \<Rightarrow> cstring) \<Rightarrow> tenv \<Rightarrow> cstring \<Rightarrow> world
    \<Rightarrow> int \<times> cstring option \<times> world" where
  "hw_text e1 e2 fmt t ifname w =
     (case t_hw t ifname of
        NoSocket \<Rightarrow> (- 1, None, printf e1 w)
      | NoDevice \<Rightarrow> (- 1, None, printf (e2 ifname) w)
      | HwAddr ptr \<Rightarrow> (0, Some (fmt ptr), w))"

abbreviation X2 :: "byte \<Rightarrow> cstring" where
  "X2 b \<equiv> fmt_02X (unat b)"

definition getIfMac :: "tenv \<Rightarrow> cstring \<Rightarrow> world \<Rightarrow> int \<times> cstring option \<times> world" where
  "getIfMac = hw_text (lit ''getIfMac: open socket error'' @ [NEWLINE]) (\<lambda>_. [])
     (\<lambda>ptr. X2 (ptr ! 0) @ [0x3A] @ X2 (ptr ! 1) @ [0x3A] @ X2 (ptr ! 2) @ [0x3A]
          @ X2 (ptr ! 3) @ [0x3A] @ X2 (ptr ! 4) @ [0x3A] @ X2 (ptr ! 5))"

definition get_6bit_APMac :: "tenv \<Rightarrow> cstring \<Rightarrow> world \<Rightarrow> int \<times> cstring option \<times> world" where
  "get_6bit_APMac = hw_text open_error ioctl_error (\<lambda>ptr. X2 (ptr ! 3) @ X2 (ptr ! 4) @ X2 (ptr ! 5))"

definition get_4bit_APMac :: "tenv \<Rightarrow> cstring \<Rightarrow> world \<Rightarrow> int \<times> cstring option \<times> world" where
  "get_4bit_APMac = hw_text open_error ioctl_error (\<lambda>ptr. [0x20] @ X2 (ptr ! 4) @ X2 (ptr ! 5))"

definition get_2bit_APMac :: "tenv \<Rightarrow> cstring \<Rightarrow> world \<Rightarrow> int \<times> cstring option \<times> world" where
  "get_2bit_APMac = hw_text open_error ioctl_error (\<lambda>ptr. X2 (ptr ! 1))"

section \<open>The library calls of a command\<close>

definition w_init :: "tenv \<Rightarrow> int \<Rightarrow> world \<Rightarrow> world outcome" where
  "w_init t mode w = obind (lib_nvram_init (te t) (nv w) mode) (\<lambda>s. Ret (w\<lparr>nv := s\<rparr>))"

definition w_close :: "tenv \<Rightarrow> int \<Rightarrow> world \<Rightarrow> world outcome" where
  "w_close t mode w = obind (lib_nvram_close (te t) (nv w) mode) (\<lambda>s. Ret (w\<lparr>nv := s\<rparr>))"

definition w_bufget :: "tenv \<Rightarrow> int \<Rightarrow> cstring \<Rightarrow> world \<Rightarrow> (cstring option \<times> world) outcome" where
  "w_bufget t mode name w =
     obind (lib_nvram_bufget (te t) (nv w) mode name) (\<lambda>(v, s). Ret (v, w\<lparr>nv := s\<rparr>))"

definition w_bufset :: "tenv \<Rightarrow> int \<Rightarrow> cstring \<Rightarrow> cstring \<Rightarrow> world \<Rightarrow> (int \<times> world) outcome" where
  "w_bufset t mode name val w =
     obind (lib_nvram_bufset (te t) (nv w) mode name val) (\<lambda>(r, s). Ret (r, w\<lparr>nv := s\<rparr>))"

definition w_set :: "tenv \<Rightarrow> int \<Rightarrow> cstring \<Rightarrow> cstring \<Rightarrow> world \<Rightarrow> (int \<times> world) outcome" where
  "w_set t mode name val w =
     obind (lib_nvram_set (te t) (nv w) mode name val) (\<lambda>(r, s). Ret (r, w\<lparr>nv := s\<rparr>))"

definition w_commit :: "tenv \<Rightarrow> int \<Rightarrow> world \<Rightarrow> (int \<times> world) outcome" where
  "w_commit t mode w = obind (lib_nvram_commit (te t) (nv w) mode) (\<lambda>(r, s). Ret (r, w\<lparr>nv := s\<rparr>))"

section \<open>nvram_set and nvram_get\<close>

text \<open>With \<open>CONFIG_CC_OPTIMIZE_FOR_SIZE\<close> the usage texts are compiled out.\<close>

definition set_usage :: "cstring \<Rightarrow> int" where
  "set_usage aout = - 1"

definition get_usage :: "cstring \<Rightarrow> int" where
  "get_usage aout = - 1"

definition zone_error :: "cstring \<Rightarrow> cstring \<Rightarrow> cstring" where
  "zone_error a0 fz = a0 @ lit '': Error: '' @ [0x22] @ fz @ [0x22] @ lit '' flash zone not existed'' @ [NEWLINE]"

definition set_in_zone :: "tenv \<Rightarrow> cstring \<Rightarrow> cstring \<Rightarrow> cstring \<Rightarrow> cstring \<Rightarrow> world \<Rightarrow> (int \<times> world) outcome" where
  "set_in_zone t a0 fz key val w =
     (let index = getNvramIndex (lfb (nv w)) fz in
      if index = - 1 then Ret (set_usage a0, printf (zone_error a0 fz) w)
      else obind (w_init t index w) (\<lambda>w.
           obind (w_set t index key val w) (\<lambda>(rc, w).
           obind (w_close t index w) (\<lambda>w. Ret (rc, w)))))"

text \<open>With four arguments (\<open>argc == 5\<close>) no branch assigns \<open>fz\<close>, \<open>key\<close> and \<open>value\<close>: the call goes on with
  uninitialised pointers.\<close>

fun ra_nv_set :: "tenv \<Rightarrow> cstring list \<Rightarrow> world \<Rightarrow> (int \<times> world) outcome" where
  "ra_nv_set t [] w = Fault"
| "ra_nv_set t [a0] w = Ret (set_usage a0, w)"
| "ra_nv_set t [a0, key] w = set_in_zone t a0 DEFAULT_FLASH_ZONE_NAME key [] w"
| "ra_nv_set t [a0, key, val] w = set_in_zone t a0 DEFAULT_FLASH_ZONE_NAME key val w"
| "ra_nv_set t [a0, fz, key, val] w = set_in_zone t a0 fz key val w"
| "ra_nv_set t [a0, a1, a2, a3, a4] w = Fault"
| "ra_nv_set t (a0 # a1 # a2 # a3 # a4 # a5 # as) w = Ret (set_usage a0, w)"

definition get_in_zone :: "tenv \<Rightarrow> cstring \<Rightarrow> cstring \<Rightarrow> cstring \<Rightarrow> world \<Rightarrow> (int \<times> world) outcome" where
  "get_in_zone t a0 fz key w =
     (let index = getNvramIndex (lfb (nv w)) fz in
      if index = - 1 then Ret (get_usage a0, printf (zone_error a0 fz) w)
      else obind (w_init t index w) (\<lambda>w.
           obind (w_bufget t index key w) (\<lambda>(v, w).
           obind (w_close t index (printf (fmt_s v @ [NEWLINE]) w)) (\<lambda>w. Ret (0, w)))))"

text \<open>\<open>cryptcheck\<close>: the key and its NUL replace the first nine bytes of the RF area and the
  4096 bytes are written back.\<close>

definition cryptcheck :: "tenv \<Rightarrow> world \<Rightarrow> (int \<times> world) outcome" where
  "cryptcheck t w =
     (let (r, mac_char, w) = get_APMac6 t (lit ''ra0'') w in
      if r \<noteq> - 1 then
        obind (derive_key mac_char) (\<lambda>realKey.
        obind (flash_read_size_eeprom_rf (te t) (flash_of w) 0x1000) (\<lambda>(_, got).
        let tmpRfBuf = patch (patch (replicate 0x1000 0) 0 got) 0 (realKey @ [NUL]) in
        obind (flash_write_passkey_ralink (te t) (flash_of w) tmpRfBuf) (\<lambda>(resultFlag, d).
        Ret (0, printf (if resultFlag \<noteq> - 1 then lit ''write OK'' @ [NEWLINE] else lit ''write error'' @ [NEWLINE])
                  (set_dev d w)))))
      else Ret (- 1, printf (lit ''write error'' @ [NEWLINE]) w))"

text \<open>\<open>comcryptcheck\<close>: the key in the flash is compared with the derived one.\<close>

definition comcryptcheck :: "tenv \<Rightarrow> cstring \<Rightarrow> cstring \<Rightarrow> world \<Rightarrow> (int \<times> world) outcome" where
  "comcryptcheck t a0 fz w =
     (let (r, mac_char, w) = get_APMac6 t (lit ''ra0'') w in
      if r \<noteq> - 1 then
        obind (derive_key mac_char) (\<lambda>realKey.
        let index = getNvramIndex (lfb (nv w)) fz in
        if index = - 1 then Ret (get_usage a0, printf (zone_error a0 fz) w)
        else obind (w_init t index w) (\<lambda>w.
          obind (flash_read_sharekey (te t) (flash_of w)) (\<lambda>(_, got).
          let eepromKey = patch (replicate 9 0) 0 got;
              w = printf (if strneq (cstr (realKey @ [NUL])) (cstr eepromKey) 8
                          then lit ''check=ok'' @ [NEWLINE] else lit ''check=error'' @ [NEWLINE]) w
          in obind (w_close t index w) (\<lambda>w. Ret (0, w)))))
      else Ret (- 1, printf (lit ''compare error'' @ [NEWLINE]) w))"

fun ra_nv_get :: "tenv \<Rightarrow> cstring list \<Rightarrow> world \<Rightarrow> (int \<times> world) outcome" where
  "ra_nv_get t [a0, key] w = get_in_zone t a0 DEFAULT_FLASH_ZONE_NAME key w"
| "ra_nv_get t [a0, fz, key] w =
     (if key = lit ''cryptcheck'' then cryptcheck t w
      else if key = lit ''comcryptcheck'' then comcryptcheck t a0 fz w
      else get_in_zone t a0 fz key w)"
| "ra_nv_get t [] w = Ret (- 1, w)"
| "ra_nv_get t (a0 # as) w = Ret (get_usage a0, w)"

section \<open>nvram_show\<close>

text \<open>The listing loop on the bytes behind the checksum; running past the buffer faults.\<close>

function show_loop :: "byte list \<Rightarrow> cstring outcome" where
  "show_loop p =
     (case p of
        [] \<Rightarrow> Fault
      | c # _ \<Rightarrow>
          if c = NUL then Ret []
          else case strchr NUL p of
                 Some (Some n) \<Rightarrow> obind (show_loop (drop (n + 1) p)) (\<lambda>out. Ret (take n p @ [NEWLINE] @ out))
               | _ \<Rightarrow> Fault)"
  by pat_completeness auto
termination
  by (relation "measure length") auto

declare show_loop.simps [simp del]

definition nvram_show :: "tenv \<Rightarrow> int \<Rightarrow> world \<Rightarrow> (int \<times> world) outcome" where
  "nvram_show t mode w =
     obind (w_init t mode w) (\<lambda>w.
     let len = getNvramBlockSize (lfb (nv w)) mode in
     case user_malloc (te t) len of
       None \<Rightarrow> Ret (- 1, w)
     | Some buffer \<Rightarrow>
         obind (flash_read (te t) (flash_of w) (getNvramOffset (lfb (nv w)) mode) len) (\<lambda>(_, got).
         let buffer = patch buffer 0 got in
         if length buffer < 4 then Fault
         else obind (show_loop (drop 4 buffer)) (\<lambda>out. Ret (0, printf out w))))"

section \<open>What the library leaves alone\<close>

text \<open>No library call changes the name, the place or the size of a block.\<close>

definition shape :: "lnv \<Rightarrow> (cstring \<times> nat \<times> nat) list" where
  "shape s = map (\<lambda>b. (b_name b, flash_offset b, flash_max_len b)) (lfb s)"

lemma shape_upd_lfb:
  "(\<And>b. b_name (f b) = b_name b \<and> flash_offset (f b) = flash_offset b \<and> flash_max_len (f b) = flash_max_len b)
    \<Longrightarrow> shape (upd_lfb i f s) = shape s"
  by (cases "i < length (lfb s)")
    (auto simp: shape_def upd_lfb_def map_update list_update_same_conv list_update_beyond)

lemma nv_ioctl_shape: "nv_ioctl e s req nvr = Ret (r, nvr', s') \<Longrightarrow> shape s' = shape s \<and> lfb s' = lfb s"
  by (auto simp: nv_ioctl_def shape_def outcome_simps split: if_splits)

lemma lib_init_shape: "lib_nvram_init e s index = Ret s' \<Longrightarrow> shape s' = shape s"
  by (auto simp: lib_nvram_init_def Let_def outcome_simps shape_upd_lfb split: if_splits dest!: nv_ioctl_shape)

lemma check_valid_shape: "LIBNV_CHECK_VALID e s index = Ret s' \<Longrightarrow> shape s' = shape s"
  by (auto simp: LIBNV_CHECK_VALID_def lib_init_shape split: if_splits)

lemma lib_commit_shape: "lib_nvram_commit e s index = Ret (r, s') \<Longrightarrow> shape s' = shape s"
  by (auto simp: lib_nvram_commit_def outcome_simps shape_upd_lfb split: if_splits
      dest!: nv_ioctl_shape check_valid_shape)

lemma lib_close_shape: "lib_nvram_close e s index = Ret s' \<Longrightarrow> shape s' = shape s"
  by (auto simp: lib_nvram_close_def outcome_simps shape_upd_lfb split: if_splits dest!: lib_commit_shape)

lemma lib_bufset_shape: "lib_nvram_bufset e s index n v = Ret (r, s') \<Longrightarrow> shape s' = shape s"
  by (auto simp: lib_nvram_bufset_def Let_def outcome_simps shape_upd_lfb split: if_splits prod.splits
      dest!: nv_ioctl_shape check_valid_shape)

lemma lib_bufget_shape: "lib_nvram_bufget e s index n = Ret (v, s') \<Longrightarrow> shape s' = shape s"
  by (auto simp: lib_nvram_bufget_def Let_def outcome_simps shape_upd_lfb split: if_splits
      dest!: nv_ioctl_shape check_valid_shape)

lemma lib_set_shape: "lib_nvram_set e s index n v = Ret (r, s') \<Longrightarrow> shape s' = shape s"
  by (auto simp: lib_nvram_set_def outcome_simps split: if_splits dest!: lib_bufset_shape lib_commit_shape)

lemmas lib_shape = lib_init_shape lib_commit_shape lib_close_shape lib_bufset_shape lib_bufget_shape lib_set_shape

lemma shape_blocks_at: "shape s' = shape s \<Longrightarrow> blocks_at (lfb s) \<Longrightarrow> blocks_at (lfb s')"
proof -
  assume eq: "shape s' = shape s" and bl: "blocks_at (lfb s)"
  have "map snd (shape s') = map snd (shape s)" using eq by simp
  then show ?thesis using bl by (simp add: shape_def blocks_at_def comp_def)
qed

lemma find_name_map: "map b_name bl = map b_name bl' \<Longrightarrow> find_name bl fz i = find_name bl' fz i"
proof (induction bl arbitrary: bl' i)
  case (Cons b bl)
  then obtain b' bl'' where "bl' = b' # bl''" by (cases bl') auto
  with Cons show ?case by auto
qed simp

lemma shape_index: "shape s' = shape s \<Longrightarrow> getNvramIndex (lfb s') fz = getNvramIndex (lfb s) fz"
proof -
  assume "shape s' = shape s"
  then have "map fst (shape s') = map fst (shape s)" by simp
  then show ?thesis unfolding getNvramIndex_def by (intro find_name_map) (simp add: shape_def comp_def)
qed

section \<open>A command's session with the library\<close>

text \<open>What a process finds when it starts: the library's tables are fresh and the kernel's block
  is one the flash can hold.\<close>

definition attachable :: "uenv \<Rightarrow> nat \<Rightarrow> lnv \<Rightarrow> bool" where
  "attachable e i s = (kstore_ok (u_kheap e) i (lk s) \<and> user_ok e \<and> u_nvdev e
     \<and> storable i (ram (lk s) i) \<and> blocks_at (lfb s) \<and> \<not> valid (lfb s ! i) \<and> cache (lfb s ! i) = cache_of [])"

lemma attachableD:
  assumes "attachable e i s"
  shows "kstore_ok (u_kheap e) i (lk s)" "i < 4" "storable i (ram (lk s) i)" "blocks_at (lfb s)" "user_ok e"
    "length (ram (lk s) i) \<le> MAX_CACHE_ENTRY"
  using assms knv_okD(7) [of "u_kheap e" "lk s" i] by (auto simp: attachable_def kstore_ok_def)

text \<open>An open session: attached, and the block of the process is clean.\<close>

definition session :: "uenv \<Rightarrow> nat \<Rightarrow> lnv \<Rightarrow> bool" where
  "session e i s = (lib_ok e i s \<and> blocks_at (lfb s) \<and> \<not> dirty (lfb s ! i))"

lemma session_init:
  assumes "attachable e i s"
  shows "\<exists>s'. lib_nvram_init e s (int i) = Ret s' \<and> session e i s' \<and> ram (lk s') i = ram (lk s) i
    \<and> kdev (lk s') = kdev (lk s) \<and> shape s' = shape s"
proof -
  obtain s' where s': "lib_nvram_init e s (int i) = Ret s'" "lib_ok e i s'" "ram (lk s') i = ram (lk s) i"
    "kdev (lk s') = kdev (lk s)" "\<not> dirty (lfb s' ! i)"
    using lib_init_law [of e i s] assms by (auto simp: attachable_def)
  then show ?thesis
    using lib_shape(1) [OF s'(1)] shape_blocks_at [of s' s] attachableD(4) [OF assms] by (auto simp: session_def)
qed

lemma bufget_dirty:
  assumes "lib_nvram_bufget e s (int i) n = Ret (v, s')" and "lib_ok e i s"
  shows "dirty (lfb s' ! i) = dirty (lfb s ! i)"
  using assms(1) lib_okD(2,6,11) [OF assms(2)]
  by (auto simp: lib_nvram_bufget_def Let_def outcome_simps split: if_splits dest!: nv_ioctl_shape)

lemma session_bufget:
  assumes "session e i s"
  shows "\<exists>s'. lib_nvram_bufget e s (int i) n = Ret (lookup (Some []) (ram (lk s) i) n, s') \<and> session e i s'
    \<and> ram (lk s') i = ram (lk s) i \<and> kdev (lk s') = kdev (lk s) \<and> shape s' = shape s"
proof -
  have l: "lib_ok e i s" "blocks_at (lfb s)" "\<not> dirty (lfb s ! i)" using assms by (simp_all add: session_def)
  obtain s' where s': "lib_nvram_bufget e s (int i) n = Ret (lookup (Some []) (ram (lk s) i) n, s')"
    "lib_ok e i s'" "ram (lk s') i = ram (lk s) i" "kdev (lk s') = kdev (lk s)"
    using lib_bufget_law [OF l(1)] by blast
  then show ?thesis
    using lib_shape(5) [OF s'(1)] shape_blocks_at [of s' s] l bufget_dirty [OF s'(1) l(1)] by (auto simp: session_def)
qed

lemma session_close:
  assumes ok: "lib_ok e i s" and bl: "blocks_at (lfb s)" and st: "storable i (ram (lk s) i)"
    and cl: "\<not> dirty (lfb s ! i)"
  shows "\<exists>s'. lib_nvram_close e s (int i) = Ret s' \<and> attachable e i s' \<and> lk s' = lk s \<and> shape s' = shape s"
proof -
  note D = lib_okD [OF ok]
  let ?f = "\<lambda>b. b\<lparr>env_data := None, cache := clear_cache (cache b), valid := False\<rparr>"
  have run: "lib_nvram_close e s (int i) = Ret (upd_lfb i ?f s)"
    using D(2,7) cl by (simp add: lib_nvram_close_def)
  have "clear_cache (cache (lfb s ! i)) = cache_of []"
    using D(8,10) by (simp add: clear_cache_def cache_of_def map_replicate_const flip: replicate_add)
  moreover have "blocks_at (lfb (upd_lfb i ?f s))"
    using shape_blocks_at [OF lib_shape(3) [OF run] bl] .
  ultimately have "attachable e i (upd_lfb i ?f s)"
    using ok D(2,6) st by (simp add: attachable_def lib_ok_def)
  then show ?thesis using run lib_shape(3) [OF run] by auto
qed

text \<open>Storing one value: the block on the flash is the image of the new list, byte for byte.\<close>

lemma session_set:
  assumes ok: "session e i s" and v: "is_cstring v" "length v < MAX_VALUE_LEN"
    and room: "length (AList.update n v (ram (lk s) i)) \<le> MAX_CACHE_ENTRY"
    and st: "storable i (AList.update n v (ram (lk s) i))"
  shows "\<exists>s'. lib_nvram_set e s (int i) n v = Ret (0, s') \<and> session e i s'
    \<and> ram (lk s') i = AList.update n v (ram (lk s) i) \<and> same_board (kdev (lk s)) (kdev (lk s')) \<and> shape s' = shape s
    \<and> part_bytes RALINK_NVRAM_MTDNAME (kdev (lk s')) = patch (part_bytes RALINK_NVRAM_MTDNAME (kdev (lk s)))
        (fst (layout ! i)) (encode_block (snd (layout ! i)) (AList.update n v (ram (lk s) i)))"
proof -
  let ?kvs = "AList.update n v (ram (lk s) i)" and ?h = "u_kheap e"
  have l: "lib_ok e i s" and bl: "blocks_at (lfb s)" using ok by (simp_all add: session_def)
  obtain s1 where s1: "lib_nvram_bufset e s (int i) n v = Ret (0, s1)" "lib_ok e i s1" "ram (lk s1) i = ?kvs"
    "kdev (lk s1) = kdev (lk s)" "dirty (fb (lk s1) ! i)"
    using lib_bufset_law [OF l v room] by blast
  note D = lib_okD [OF s1(2)]
  obtain s2 where s2: "lib_nvram_commit e s1 (int i) = Ret (0, s2)" "lib_ok e i s2" "ram (lk s2) i = ?kvs"
    "nvram_commit ?h (lk s1) (int i) = Ret (0, lk s2)" "\<not> dirty (lfb s2 ! i)"
    using lib_commit_law [OF s1(2)] st s1(3) by auto
  have fits: "length (env_text (ram (lk s1) i)) < data_len (fb (lk s1) ! i)"
    using st s1(3) blocks_atD(3) [OF knv_okD(1) [OF D(3)] D(2)] by (simp add: storable_def)
  have "part_bytes RALINK_NVRAM_MTDNAME (kdev (lk s2)) = patch (part_bytes RALINK_NVRAM_MTDNAME (kdev (lk s)))
        (fst (layout ! i)) (encode_block (snd (layout ! i)) ?kvs)"
    using nvram_commit_dirty [OF D(3,2) s1(5) fits] s2(4) s1(3,4) by auto
  moreover have "same_board (kdev (lk s)) (kdev (lk s2))"
    using nvram_commit_board [OF D(3,2) fits s2(4)] s1(4) by simp
  moreover have run: "lib_nvram_set e s (int i) n v = Ret (0, s2)"
    using s1(1) s2(1) by (simp add: lib_nvram_set_def)
  moreover have "session e i s2"
    using s2(2,5) shape_blocks_at [OF lib_shape(6) [OF run] bl] by (simp add: session_def)
  ultimately show ?thesis using s2(3) lib_shape(6) [OF run] by auto
qed

text \<open>The commands that open a session, act and close it.\<close>

lemma set_in_zone_ok:
  assumes at: "attachable (te t) i (nv w)" and z: "getNvramIndex (lfb (nv w)) fz = int i"
    and v: "is_cstring v" "length v < MAX_VALUE_LEN"
    and room: "length (AList.update n v (ram (lk (nv w)) i)) \<le> MAX_CACHE_ENTRY"
    and st: "storable i (AList.update n v (ram (lk (nv w)) i))"
  shows "\<exists>s. set_in_zone t a0 fz n v w = Ret (0, w\<lparr>nv := s\<rparr>) \<and> attachable (te t) i s
    \<and> ram (lk s) i = AList.update n v (ram (lk (nv w)) i) \<and> same_board (flash_of w) (kdev (lk s))
    \<and> shape s = shape (nv w)
    \<and> part_bytes RALINK_NVRAM_MTDNAME (kdev (lk s)) = patch (part_bytes RALINK_NVRAM_MTDNAME (flash_of w))
        (fst (layout ! i)) (encode_block (snd (layout ! i)) (AList.update n v (ram (lk (nv w)) i)))"
proof -
  obtain s1 where s1: "lib_nvram_init (te t) (nv w) (int i) = Ret s1" "session (te t) i s1"
    "ram (lk s1) i = ram (lk (nv w)) i" "kdev (lk s1) = flash_of w" "shape s1 = shape (nv w)"
    using session_init [OF at] by blast
  from session_set [OF s1(2) v, of n] room st s1(3) obtain s2 where s2:
    "lib_nvram_set (te t) s1 (int i) n v = Ret (0, s2)" "session (te t) i s2"
    "ram (lk s2) i = AList.update n v (ram (lk (nv w)) i)" "same_board (flash_of w) (kdev (lk s2))"
    "shape s2 = shape s1"
    "part_bytes RALINK_NVRAM_MTDNAME (kdev (lk s2)) = patch (part_bytes RALINK_NVRAM_MTDNAME (flash_of w))
        (fst (layout ! i)) (encode_block (snd (layout ! i)) (AList.update n v (ram (lk (nv w)) i)))"
    by (auto simp: s1(4))
  obtain s3 where s3: "lib_nvram_close (te t) s2 (int i) = Ret s3" "attachable (te t) i s3" "lk s3 = lk s2"
    "shape s3 = shape s2"
    using session_close [of "te t" i s2] s2(2,3) st by (auto simp: session_def)
  show ?thesis
    using z s1 s2 s3 by (auto simp: set_in_zone_def Let_def w_init_def w_set_def w_close_def)
qed

lemma get_in_zone_ok:
  assumes at: "attachable (te t) i (nv w)" and z: "getNvramIndex (lfb (nv w)) fz = int i"
  shows "\<exists>s. get_in_zone t a0 fz n w = Ret (0, printf (fmt_s (lookup (Some []) (ram (lk (nv w)) i) n) @ [NEWLINE])
      (w\<lparr>nv := s\<rparr>)) \<and> attachable (te t) i s \<and> ram (lk s) i = ram (lk (nv w)) i \<and> kdev (lk s) = flash_of w
    \<and> shape s = shape (nv w)"
proof -
  obtain s1 where s1: "lib_nvram_init (te t) (nv w) (int i) = Ret s1" "session (te t) i s1"
    "ram (lk s1) i = ram (lk (nv w)) i" "kdev (lk s1) = flash_of w" "shape s1 = shape (nv w)"
    using session_init [OF at] by blast
  obtain s2 where s2: "lib_nvram_bufget (te t) s1 (int i) n = Ret (lookup (Some []) (ram (lk s1) i) n, s2)"
    "session (te t) i s2" "ram (lk s2) i = ram (lk s1) i" "kdev (lk s2) = kdev (lk s1)" "shape s2 = shape s1"
    using session_bufget [OF s1(2)] by blast
  obtain s3 where s3: "lib_nvram_close (te t) s2 (int i) = Ret s3" "attachable (te t) i s3" "lk s3 = lk s2"
    "shape s3 = shape s2"
    using session_close [of "te t" i s2] s1(3) s2(2,3) attachableD(3) [OF at] by (auto simp: session_def)
  show ?thesis
    using z s1 s2 s3
    by (intro exI [of _ s3]) (simp add: get_in_zone_def Let_def w_init_def w_bufget_def w_close_def printf_def)
qed

text \<open>The listing of a stored block.\<close>

definition lines_of :: "(cstring \<times> cstring) list \<Rightarrow> cstring" where
  "lines_of kvs = concat (map (\<lambda>(n, v). n @ [EQUALS] @ v @ [NEWLINE]) kvs)"

lemma show_loop_line:
  assumes "is_cstring l" and "l \<noteq> []"
  shows "show_loop (l @ NUL # r) = obind (show_loop r) (\<lambda>out. Ret (l @ [NEWLINE] @ out))"
proof -
  obtain c l' where l: "l = c # l'" using assms(2) by (cases l) auto
  have "strchr NUL (l @ NUL # r) = Some (Some (length l))" using assms(1) by (rule strchr_NUL)
  then show ?thesis using assms(1) l by (subst show_loop.simps) auto
qed

lemma show_loop_text:
  "\<forall>kv \<in> set kvs. kv_ok kv \<Longrightarrow> show_loop (env_text kvs @ NUL # rest) = Ret (lines_of kvs)"
proof (induction kvs)
  case Nil
  then show ?case by (subst show_loop.simps) (simp add: env_text_def lines_of_def)
next
  case (Cons kv kvs)
  obtain n v where kv: "kv = (n, v)" by (cases kv)
  let ?l = "n @ [EQUALS] @ v" and ?r = "env_text kvs @ NUL # rest"
  have c: "is_cstring ?l" using Cons.prems by (simp add: kv kv_ok_def)
  have txt_eq: "env_text (kv # kvs) @ NUL # rest = ?l @ NUL # ?r" by (simp add: kv env_text_def)
  have "show_loop (?l @ NUL # ?r) = obind (show_loop ?r) (\<lambda>out. Ret (?l @ [NEWLINE] @ out))"
    using c by (intro show_loop_line) auto
  then show ?case using Cons by (simp only: txt_eq) (simp add: kv lines_of_def)
qed

lemma show_loop_image:
  assumes "storable i kvs"
  shows "show_loop (env_image (snd (layout ! i) - CRC_SIZE) kvs) = Ret (lines_of kvs)"
proof -
  let ?n = "snd (layout ! i) - CRC_SIZE - length (env_text kvs)"
  have "0 < ?n" using assms by (simp only: storable_def zero_less_diff)
  then obtain m where "?n = Suc m" by (cases ?n) auto
  then have "env_image (snd (layout ! i) - CRC_SIZE) kvs = env_text kvs @ NUL # replicate m NUL"
    by (simp add: env_image_def)
  then show ?thesis using show_loop_text [of kvs] assms by (simp add: storable_def)
qed

lemma nvram_show_ok:
  assumes at: "attachable (te t) i (nv w)" and fl: "flash_ok (te t) (flash_of w)" and st: "storable i kvs"
    and stored: "window (part_bytes RALINK_NVRAM_MTDNAME (flash_of w)) (fst (layout ! i)) (snd (layout ! i))
      = encode_block (snd (layout ! i)) kvs"
    and len: "0xf000 \<le> length (part_bytes RALINK_NVRAM_MTDNAME (flash_of w))"
  shows "\<exists>s. nvram_show t (int i) w = Ret (0, printf (lines_of kvs) (w\<lparr>nv := s\<rparr>))"
proof -
  have i: "i < 4" using attachableD(2) [OF at] .
  obtain s1 where s1: "lib_nvram_init (te t) (nv w) (int i) = Ret s1" "session (te t) i s1"
    "kdev (lk s1) = flash_of w"
    using session_init [OF at] by blast
  have bl: "blocks_at (lfb s1)" using s1(2) by (simp add: session_def)
  let ?off = "fst (layout ! i)" and ?len = "snd (layout ! i)"
  have sz: "getNvramBlockSize (lfb s1) (int i) = ?len" "getNvramOffset (lfb s1) (int i) = ?off"
    using blocks_atD(2,3) [OF bl i] i by (simp_all add: getNvramBlockSize_def getNvramOffset_def)
  have "flash_read (te t) (flash_of w) ?off ?len = Ret (int ?len, encode_block ?len kvs)"
    using flash_read_ok [OF fl, of ?off ?len] stored len layout_bounds(1) [OF i] by (simp add: RALINK_NVRAM_MTDNAME_def)
  moreover have "user_malloc (te t) ?len = Some (fresh (u_heap (te t)) ?len)"
    using attachableD(5) [OF at] by (simp add: user_malloc_def user_ok_def)
  moreover have image: "length (encode_block ?len kvs) = ?len"
    using st layout_bounds(2) [OF i] by (simp add: encode_block_def storable_def Let_def)
  then have "patch (fresh (u_heap (te t)) ?len) 0 (encode_block ?len kvs) = encode_block ?len kvs" by simp
  moreover have "drop 4 (encode_block ?len kvs) = env_image (?len - CRC_SIZE) kvs"
    by (simp add: encode_block_def Let_def)
  ultimately show ?thesis
    using s1(1,3) sz show_loop_image [OF st] image layout_bounds(2) [OF i]
    by (intro exI [of _ s1]) (simp add: nvram_show_def w_init_def Let_def)
qed

section \<open>A sample router\<close>

lemma board_config: "config_ok (u_kheap board_env) (board_dev v)"
  by (simp add: config_ok_def heap_ok_def mtd_ok_def dev_ok_def part_ok_def get_mtd_device_nm_def chip_ok_def
      board_dev_def board_table_def board_env_def mtd_limit_def RALINK_NVRAM_MTDNAME_def)

definition board_knv :: knv where
  "board_knv = (case ra_nvram_init (u_kheap board_env) 0 (knv_start (board_dev 0)) of
     Ret (_, s) \<Rightarrow> s | _ \<Rightarrow> knv_start (board_dev 0))"

lemma board_knv_props:
  "knv_ok (u_kheap board_env) board_knv" "kdev board_knv = board_dev 0" "i < 4 \<Longrightarrow> ram board_knv i = []"
  using boot_run(2) [OF board_config [of 0], of 0] zero_rom [OF board_bytes [of 0, folded RALINK_NVRAM_MTDNAME_def]]
  by (auto simp: board_knv_def)

definition board_world :: world where
  "board_world = \<lparr>nv = \<lparr>lfb = lib_fb_init, lk = board_knv\<rparr>, files = (\<lambda>_. None), stdout = []\<rparr>"

definition board_tenv :: tenv where
  "board_tenv = \<lparr>te = board_env, t_hw = (\<lambda>_. HwAddr [0, 0x0C, 0x43, 1, 2, 3]), t_creat = (\<lambda>_. True)\<rparr>"

lemma board_attachable: "i < 4 \<Longrightarrow> attachable (te board_tenv) i (nv board_world)"
  using board_knv_props storable_small [of i] lib_fb_init_blocks fb_init_nth [of i]
    zero_rom [OF board_bytes [of 0, folded RALINK_NVRAM_MTDNAME_def], of i]
  by (auto simp: attachable_def kstore_ok_def synced_def board_world_def board_tenv_def lib_fb_init_eq
      user_ok_def board_env_def)

lemma board_flash: "flash_of board_world = board_dev 0" "te board_tenv = board_env"
  by (simp_all add: board_world_def board_tenv_def board_knv_props)

lemma board_zone: "getNvramIndex (lfb (nv board_world)) DEFAULT_FLASH_ZONE_NAME = 0"
  by (simp add: getNvramIndex_def board_world_def lib_fb_init_def fb_entry_def DEFAULT_FLASH_ZONE_NAME_def)

section \<open>The key in the Factory partition\<close>

text \<open>The \<open>Factory\<close> partition opens, consists of whole sectors, reaches past the key area, and lies
  behind the \<open>Config\<close> partition.\<close>

definition factory_ok :: "uenv \<Rightarrow> flash_dev \<Rightarrow> bool" where
  "factory_ok e d = (user_ok e \<and> (\<exists>p c. (\<forall>rw. mtd_open e d (lit ''Factory'') rw = Ret (Some p)) \<and> sectors_ok d p
     \<and> 0x6000 \<le> part_size p \<and> 0x1000 < chip_sector (dev_chip d)
     \<and> get_mtd_device_nm d RALINK_NVRAM_MTDNAME = Some c \<and> part_offset c + part_size c \<le> part_offset p
     \<and> part_offset c + part_size c \<le> length (dev_mem d)))"

lemma passkey_written:
  assumes ok: "factory_ok e d" and key: "length key = 8"
  shows "\<exists>got r d'. flash_read_size_eeprom_rf e d 0x1000 = Ret (0x1000, got) \<and> length got = 0x1000
    \<and> flash_write_passkey_ralink e d (patch (patch (replicate 0x1000 0) 0 got) 0 (key @ [NUL])) = Ret (r, d') \<and> 0 \<le> r
    \<and> same_board d d' \<and> factory_ok e d' \<and> flash_read_sharekey e d' = Ret (8, key)
    \<and> part_bytes RALINK_NVRAM_MTDNAME d' = part_bytes RALINK_NVRAM_MTDNAME d"
proof -
  obtain p c where p: "\<forall>rw. mtd_open e d (lit ''Factory'') rw = Ret (Some p)" "sectors_ok d p" "0x6000 \<le> part_size p"
    "0x1000 < chip_sector (dev_chip d)" "user_ok e"
    and c: "get_mtd_device_nm d RALINK_NVRAM_MTDNAME = Some c" "part_offset c + part_size c \<le> part_offset p"
    "part_offset c + part_size c \<le> length (dev_mem d)"
    using ok by (auto simp: factory_ok_def)
  note D = sectors_okD [OF p(2,5)]
  let ?m = "dev_mem d" and ?o = "part_offset p + 0x5000"
  define got where "got = window ?m ?o 0x1000"
  define buf where "buf = key @ [NUL] @ drop 9 got"
  have inside: "?o + 0x1000 \<le> length ?m" using D(7) p(3) by simp
  have got: "length got = 0x1000" using inside by (simp add: got_def)
  have buf: "patch (patch (replicate 0x1000 0) 0 got) 0 (key @ [NUL]) = buf" "length buf = 0x1000"
    using got key by (simp_all add: patch_def buf_def)
  have rd: "read_factory e d 0x5000 0x1000 = Ret (0x1000, got)"
    using mtd_read_ok [OF D(1), of "0x5000" "0x1000" "u_kheap e"] D(6) p(1,3)
    by (simp add: read_factory_def mtd_lseek_def got_def del: lit_Cons)
  define d' where "d' = set_mem d (patch ?m ?o buf)"
  have bd: "same_board d d'" using inside buf(2) unfolding same_board_def d'_def by (intro exI [of _ "patch ?m ?o buf"]) simp
  have "0x5000 + length buf \<le> part_size p" "length buf mod chip_sector (dev_chip d) \<noteq> 0"
    using p(3,4) buf(2) by simp_all
  then obtain r where wr: "write_loop e d p 0 0x5000 buf 0 = Ret (r, d')" "0 \<le> r"
    using write_loop_ok [OF p(2,5), of "0x5000" buf 0 0] by (auto simp: d'_def)
  have "flash_write_passkey_ralink e d buf = Ret (r, d')"
    using wr(1) buf(2) p(1,3)
    by (simp add: flash_write_passkey_ralink_def flash_write_ralink_eeprom_def flash_write_part_def del: lit_Cons)
  moreover have "factory_ok e d'"
    using p c bd by (auto simp: factory_ok_def mtd_open_board sectors_ok_board same_board_simps simp del: lit_Cons)
  moreover have "flash_read_sharekey e d' = Ret (8, key)"
  proof -
    have "part_ok d' p" using D(1) same_board_simps(7) [OF bd] by simp
    then have "mtd_read (u_kheap e) d' p 0x5000 8 = (8, window (dev_mem d') ?o 8, 0x5008)"
      using mtd_read_ok [of d' p "0x5000" 8 "u_kheap e"] D(6) p(3) by simp
    moreover have "window (dev_mem d') ?o 8 = take 8 (window (patch ?m ?o buf) ?o (length buf))"
      using buf(2) by (simp add: d'_def window_def)
    moreover have "window (patch ?m ?o buf) ?o (length buf) = buf"
      using inside buf(2) by (intro window_patch_same) simp
    ultimately show ?thesis
      using p(1,3) bd key by (simp add: flash_read_sharekey_def read_factory_def mtd_lseek_def mtd_open_board buf_def del: lit_Cons)
  qed
  moreover have "part_bytes RALINK_NVRAM_MTDNAME d' = part_bytes RALINK_NVRAM_MTDNAME d"
    using c bd inside buf(2) by (simp add: part_bytes_def same_board_simps d'_def window_patch_disjoint)
  ultimately show ?thesis
    using rd got buf(1) wr(2) bd
    by (intro exI [of _ got] exI [of _ r] exI [of _ d']) (simp add: flash_read_size_eeprom_rf_def)
qed

lemma attachable_board:
  assumes "attachable e i s" and "same_board (kdev (lk s)) d"
    and "part_bytes RALINK_NVRAM_MTDNAME d = part_bytes RALINK_NVRAM_MTDNAME (kdev (lk s))"
  shows "attachable e i (s\<lparr>lk := (lk s)\<lparr>kdev := d\<rparr>\<rparr>)"
proof -
  have "rom d i = rom (kdev (lk s)) i" using assms(3) by (simp add: rom_def)
  moreover have "config_ok h d = config_ok h (kdev (lk s))" for h
    using assms(2) by (simp add: config_ok_def same_board_simps)
  ultimately show ?thesis
    using assms(1) by (simp add: attachable_def kstore_ok_def knv_ok_def synced_def ram_def)
qed

lemma cryptcheck_ok:
  assumes "factory_ok (te t) (flash_of w)" and "t_hw t (lit ''ra0'') = HwAddr mac" and "6 \<le> length mac"
    and "derive_key (take 6 mac) = Ret key" "length key = 8"
  shows "\<exists>d. cryptcheck t w = Ret (0, printf (lit ''write OK'' @ [NEWLINE]) (set_dev d w))
    \<and> same_board (flash_of w) d \<and> factory_ok (te t) d \<and> flash_read_sharekey (te t) d = Ret (8, key)
    \<and> part_bytes RALINK_NVRAM_MTDNAME d = part_bytes RALINK_NVRAM_MTDNAME (flash_of w)"
proof -
  obtain got r d where k: "flash_read_size_eeprom_rf (te t) (flash_of w) 0x1000 = Ret (0x1000, got)"
    "flash_write_passkey_ralink (te t) (flash_of w) (patch (patch (replicate 0x1000 0) 0 got) 0 (key @ [NUL])) = Ret (r, d)"
    "0 \<le> r" "same_board (flash_of w) d" "factory_ok (te t) d" "flash_read_sharekey (te t) d = Ret (8, key)"
    "part_bytes RALINK_NVRAM_MTDNAME d = part_bytes RALINK_NVRAM_MTDNAME (flash_of w)"
    using passkey_written [OF assms(1,5)] by blast
  have mac: "get_APMac6 t (lit ''ra0'') w = (0, take 6 mac, w)"
    using assms(2) by (simp add: get_APMac6_def del: lit_Cons)
  have "cryptcheck t w = Ret (0, printf (lit ''write OK'' @ [NEWLINE]) (set_dev d w))"
    using mac k(1-3) assms(4) by (simp add: cryptcheck_def Let_def del: lit_Cons)
  then show ?thesis using k by blast
qed

lemma comcryptcheck_ok:
  assumes at: "attachable (te t) i (nv w)" and z: "getNvramIndex (lfb (nv w)) fz = int i"
    and "t_hw t (lit ''ra0'') = HwAddr mac" and "derive_key (take 6 mac) = Ret key" "length key = 8" "is_cstring key"
    and "flash_read_sharekey (te t) (flash_of w) = Ret (8, key)"
  shows "\<exists>s. comcryptcheck t a0 fz w = Ret (0, printf (lit ''check=ok'' @ [NEWLINE]) (w\<lparr>nv := s\<rparr>))"
proof -
  obtain s1 where s1: "lib_nvram_init (te t) (nv w) (int i) = Ret s1" "session (te t) i s1"
    "ram (lk s1) i = ram (lk (nv w)) i" "kdev (lk s1) = flash_of w"
    using session_init [OF at] by blast
  obtain s2 where s2: "lib_nvram_close (te t) s1 (int i) = Ret s2"
    using session_close [of "te t" i s1] s1(2,3) attachableD(3) [OF at] by (auto simp: session_def)
  have mac: "get_APMac6 t (lit ''ra0'') w = (0, take 6 mac, w)"
    using assms(3) by (simp add: get_APMac6_def del: lit_Cons)
  have "patch (replicate 9 0) 0 key = key @ [NUL]" using assms(5) by (simp add: patch_def)
  then have eq: "strneq (cstr (key @ [NUL])) (cstr (patch (replicate 9 0) 0 key)) 8" by (simp add: strneq_def)
  show ?thesis
    using mac assms(4,7) z s1(1,4) s2 eq
    by (intro exI [of _ s2]) (simp add: comcryptcheck_def Let_def w_init_def w_close_def printf_def del: lit_Cons)
qed

section \<open>Properties\<close>

text \<open>A value stored with the \<open>nvram_set\<close> command is what the \<open>nvram_get\<close> command prints afterwards,
  in a process of its own; every other name still prints its old value, unknown names an
  empty line.\<close>

theorem nv_set_then_get:
  assumes "attachable (te t) i (nv w)" and "getNvramIndex (lfb (nv w)) fz = int i"
    and "is_cstring v" "length v < MAX_VALUE_LEN"
    and "length (AList.update key v (ram (lk (nv w)) i)) \<le> MAX_CACHE_ENTRY"
    and "storable i (AList.update key v (ram (lk (nv w)) i))"
    and "m \<noteq> lit ''cryptcheck''" "m \<noteq> lit ''comcryptcheck''"
  shows "\<exists>w1 w2. ra_nv_set t [a0, fz, key, v] w = Ret (0, w1) \<and> ra_nv_get t [a1, fz, m] w1 = Ret (0, w2)
    \<and> stdout w2 = stdout w @ (if m = key then v else fmt_s (lookup (Some []) (ram (lk (nv w)) i) m)) @ [NEWLINE]"
proof -
  obtain s where s: "set_in_zone t a0 fz key v w = Ret (0, w\<lparr>nv := s\<rparr>)" "attachable (te t) i s"
    "ram (lk s) i = AList.update key v (ram (lk (nv w)) i)" "shape s = shape (nv w)"
    using set_in_zone_ok [OF assms(1-6)] by blast
  have z: "getNvramIndex (lfb s) fz = int i" using assms(2) shape_index [OF s(4)] by simp
  obtain s' where "get_in_zone t a1 fz m (w\<lparr>nv := s\<rparr>)
      = Ret (0, printf (fmt_s (lookup (Some []) (ram (lk s) i) m) @ [NEWLINE]) (w\<lparr>nv := s, nv := s'\<rparr>))"
    using get_in_zone_ok [of t i "w\<lparr>nv := s\<rparr>" fz a1 m] s(2) z by auto
  then show ?thesis
    using s(1,3) assms(7,8) by (auto simp: printf_def fmt_s_def lookup_def update_conv' simp del: lit_Cons)
qed

theorem nv_set_then_get_witness:
  "\<exists>w1 w2. ra_nv_set board_tenv [[], DEFAULT_FLASH_ZONE_NAME, [0x61], [0x31]] board_world = Ret (0, w1)
    \<and> ra_nv_get board_tenv [[], DEFAULT_FLASH_ZONE_NAME, [0x61]] w1 = Ret (0, w2) \<and> stdout w2 = [0x31, NEWLINE]"
proof -
  have ram: "ram (lk (nv board_world)) 0 = []" by (simp add: board_world_def board_knv_props)
  have out: "stdout board_world = []" by (simp add: board_world_def)
  show ?thesis
    using nv_set_then_get [OF board_attachable [of 0], of DEFAULT_FLASH_ZONE_NAME "[0x31]" "[0x61]" "[0x61]" "[]" "[]"]
      board_zone storable_small [of 0] by (simp add: ram out)
qed

text \<open>After \<open>nvram_set\<close>, the listing command that reads the block straight from the flash prints
  exactly the lines of the new list, in the order of the store: the write went through the
  library, the kernel module and the flash driver, the read through the character device.\<close>

theorem nv_set_then_show:
  assumes "attachable (te t) i (nv w)" and "getNvramIndex (lfb (nv w)) fz = int i" and "flash_ok (te t) (flash_of w)"
    and "is_cstring v" "length v < MAX_VALUE_LEN"
    and "length (AList.update key v (ram (lk (nv w)) i)) \<le> MAX_CACHE_ENTRY"
    and "storable i (AList.update key v (ram (lk (nv w)) i))"
  shows "\<exists>w1 w2. ra_nv_set t [a0, fz, key, v] w = Ret (0, w1) \<and> nvram_show t (int i) w1 = Ret (0, w2)
    \<and> stdout w2 = stdout w @ lines_of (AList.update key v (ram (lk (nv w)) i))"
proof -
  let ?kvs = "AList.update key v (ram (lk (nv w)) i)"
  obtain s where s: "set_in_zone t a0 fz key v w = Ret (0, w\<lparr>nv := s\<rparr>)" "attachable (te t) i s"
    "same_board (flash_of w) (kdev (lk s))"
    "part_bytes RALINK_NVRAM_MTDNAME (kdev (lk s)) = patch (part_bytes RALINK_NVRAM_MTDNAME (flash_of w))
        (fst (layout ! i)) (encode_block (snd (layout ! i)) ?kvs)"
    using set_in_zone_ok [OF assms(1,2,4-7)] by blast
  have i: "i < 4" using attachableD(2) [OF assms(1)] .
  have len: "0xf000 \<le> length (part_bytes RALINK_NVRAM_MTDNAME (flash_of w))"
    "0xf000 \<le> length (part_bytes RALINK_NVRAM_MTDNAME (kdev (lk s)))"
    using attachableD(1) [OF assms(1)] attachableD(1) [OF s(2)]
    by (auto simp: kstore_ok_def knv_ok_def intro: config_bytes)
  have enc: "length (encode_block (snd (layout ! i)) ?kvs) = snd (layout ! i)"
    using assms(7) layout_bounds(2) [OF i] by (simp add: encode_block_def storable_def Let_def)
  have "window (part_bytes RALINK_NVRAM_MTDNAME (kdev (lk s))) (fst (layout ! i)) (snd (layout ! i))
      = encode_block (snd (layout ! i)) ?kvs"
    using window_patch_same [of "fst (layout ! i)" "encode_block (snd (layout ! i)) ?kvs"
        "part_bytes RALINK_NVRAM_MTDNAME (flash_of w)"] s(4) enc len(1) layout_bounds(1) [OF i] by simp
  then obtain s' where "nvram_show t (int i) (w\<lparr>nv := s\<rparr>) = Ret (0, printf (lines_of ?kvs) (w\<lparr>nv := s, nv := s'\<rparr>))"
    using nvram_show_ok [of t i "w\<lparr>nv := s\<rparr>" ?kvs] s(2) flash_ok_board [OF s(3) assms(3)] assms(7) len(2) by auto
  then show ?thesis using s(1) by (auto simp: printf_def)
qed

theorem nv_set_then_show_witness:
  "\<exists>w1 w2. ra_nv_set board_tenv [[], DEFAULT_FLASH_ZONE_NAME, [0x61], [0x31]] board_world = Ret (0, w1)
    \<and> nvram_show board_tenv 0 w1 = Ret (0, w2) \<and> stdout w2 = [0x61, EQUALS, 0x31, NEWLINE]"
proof -
  have ram: "ram (lk (nv board_world)) 0 = []" by (simp add: board_world_def board_knv_props)
  have out: "stdout board_world = []" by (simp add: board_world_def)
  show ?thesis
    using nv_set_then_show [OF board_attachable [of 0], of DEFAULT_FLASH_ZONE_NAME "[0x31]" "[0x61]" "[]"]
      board_zone storable_small [of 0] board_flash_ok board_flash by (simp add: ram out lines_of_def)
qed

text \<open>The key that the \<open>cryptcheck\<close> command derives from the MAC address and writes to the
  \<open>Factory\<close> partition is the one the \<open>comcryptcheck\<close> command reads back and accepts, whatever the
  address and the previous contents; the \<open>Config\<close> partition is untouched in between.\<close>

theorem crypt_key_accepted:
  assumes "factory_ok (te t) (flash_of w)" and "attachable (te t) i (nv w)" and "getNvramIndex (lfb (nv w)) fz = int i"
    and "t_hw t (lit ''ra0'') = HwAddr mac" and "6 \<le> length mac"
  shows "\<exists>w1 w2. ra_nv_get t [a0, fz, lit ''cryptcheck''] w = Ret (0, w1)
    \<and> stdout w1 = stdout w @ lit ''write OK'' @ [NEWLINE]
    \<and> part_bytes RALINK_NVRAM_MTDNAME (flash_of w1) = part_bytes RALINK_NVRAM_MTDNAME (flash_of w)
    \<and> ra_nv_get t [a1, fz, lit ''comcryptcheck''] w1 = Ret (0, w2)
    \<and> stdout w2 = stdout w1 @ lit ''check=ok'' @ [NEWLINE]"
proof -
  have "length (take 6 mac) = 6" using assms(5) by simp
  from derive_key_ok [OF this] obtain key where key: "derive_key (take 6 mac) = Ret key" "length key = 8"
    "\<forall>c \<in> set key. key_char c" by blast
  have c: "is_cstring key" using key(3) by (force simp: is_cstring_def key_char_def)
  obtain d where d: "cryptcheck t w = Ret (0, printf (lit ''write OK'' @ [NEWLINE]) (set_dev d w))"
    "same_board (flash_of w) d" "flash_read_sharekey (te t) d = Ret (8, key)"
    "part_bytes RALINK_NVRAM_MTDNAME d = part_bytes RALINK_NVRAM_MTDNAME (flash_of w)"
    using cryptcheck_ok [OF assms(1,4,5) key(1,2)] by blast
  let ?w1 = "printf (lit ''write OK'' @ [NEWLINE]) (set_dev d w)"
  have w1: "attachable (te t) i (nv ?w1)" "flash_of ?w1 = d" "lfb (nv ?w1) = lfb (nv w)"
    "stdout ?w1 = stdout w @ lit ''write OK'' @ [NEWLINE]"
    using attachable_board [OF assms(2) d(2,4)] by (simp_all add: printf_def set_dev_def)
  have z: "getNvramIndex (lfb (nv ?w1)) fz = int i" using assms(3) w1(3) by simp
  have rd: "flash_read_sharekey (te t) (flash_of ?w1) = Ret (8, key)" using d(3) w1(2) by simp
  obtain s where s: "comcryptcheck t a1 fz ?w1 = Ret (0, printf (lit ''check=ok'' @ [NEWLINE]) (?w1\<lparr>nv := s\<rparr>))"
    using comcryptcheck_ok [OF w1(1) z assms(4) key(1,2) c rd] by blast
  have names: "lit ''comcryptcheck'' \<noteq> lit ''cryptcheck''" by simp
  show ?thesis
    using d(1,4) w1(2,4) s names
    by (intro exI [of _ ?w1] exI [of _ "printf (lit ''check=ok'' @ [NEWLINE]) (?w1\<lparr>nv := s\<rparr>)"])
      (simp add: printf_def del: lit_Cons)
qed

lemma board_factory_ok: "factory_ok board_env (board_dev v)"
proof -
  have "sectors_ok (board_dev v) (board_table ! 3)" by (rule board_part_ok) (simp add: board_table_def)
  moreover have "get_mtd_device_nm (board_dev v) RALINK_NVRAM_MTDNAME = Some (board_table ! 2)"
    by (simp add: get_mtd_device_nm_def board_dev_def board_table_def RALINK_NVRAM_MTDNAME_def)
  moreover have "user_ok board_env" by (simp add: user_ok_def board_env_def)
  moreover have "part_offset (board_table ! 2) + part_size (board_table ! 2) \<le> part_offset (board_table ! 3)"
    "0x6000 \<le> part_size (board_table ! 3)"
    "part_offset (board_table ! 2) + part_size (board_table ! 2) \<le> length (dev_mem (board_dev v))"
    by (simp_all add: board_table_def board_dev_def)
  moreover have "0x1000 < chip_sector (dev_chip (board_dev v))" by (simp add: board_sector)
  ultimately show ?thesis
    unfolding factory_ok_def using board_open_factory by blast
qed

theorem crypt_key_accepted_witness:
  "\<exists>w1 w2. ra_nv_get board_tenv [[], DEFAULT_FLASH_ZONE_NAME, lit ''cryptcheck''] board_world = Ret (0, w1)
    \<and> ra_nv_get board_tenv [[], DEFAULT_FLASH_ZONE_NAME, lit ''comcryptcheck''] w1 = Ret (0, w2)
    \<and> stdout w2 = stdout w1 @ lit ''check=ok'' @ [NEWLINE]"
proof -
  have f: "factory_ok (te board_tenv) (flash_of board_world)" by (simp add: board_flash board_factory_ok)
  have m: "t_hw board_tenv (lit ''ra0'') = HwAddr [0, 0x0C, 0x43, 1, 2, 3]" by (simp add: board_tenv_def)
  have z: "getNvramIndex (lfb (nv board_world)) DEFAULT_FLASH_ZONE_NAME = int 0" by (simp add: board_zone)
  show ?thesis
    using crypt_key_accepted [OF f board_attachable [of 0] z m, of "[]" "[]"] by (auto simp del: lit_Cons)
qed

end
