(* ===== verification/GenConfig.thy ===== *)
theory GenConfig
  imports NvramTool
begin

text \<open>
  The generation of the wireless driver's configuration file from the store
  (\<open>gen_config\<close> of user/rt2880_app/nvram/ralink_init.c). The body of the function is a straight
  sequence of prints; it is transcribed as a list of items, one per statement, and run by an
  interpreter that makes the library calls of each item. The conditional parts the router is
  built without are left out. The result is the text of the settings as \<open>name=value\<close> lines, as
  long as the two 16-byte buffers hold the per-SSID lists.
\<close>

section \<open>The statements\<close>

text \<open>\<open>FPRINT_NUM\<close> and \<open>FPRINT_STR\<close> are the macros of the source; \<open>FPRINT_LIST\<close> is the loop that repeats a
  value for each SSID in a buffer of 16 bytes; \<open>FPRINTF\<close> is a constant text, given by its lines.\<close>

datatype item =
    FPRINT_NUM string
  | FPRINT_STR string
  | FPRINT_LIST string
  | FPRINTF "(string \<times> string) list"
  | SSID_NUM
  | WSC_CONF_STATUS
  | WSC_VENDOR_PIN
  | RADIO_ON

definition cfg_radio :: "item list" where
  "cfg_radio =
     [FPRINT_NUM ''CountryRegion'', FPRINT_NUM ''CountryRegionABand'', FPRINT_STR ''CountryCode'',
      FPRINT_NUM ''BssidNum'', SSID_NUM, FPRINT_STR ''SSID1'', FPRINT_STR ''SSID2'', FPRINT_STR ''SSID3'',
      FPRINT_STR ''SSID4'', FPRINT_STR ''SSID5'', FPRINT_STR ''SSID6'', FPRINT_STR ''SSID7'',
      FPRINT_STR ''SSID8'', FPRINT_NUM ''WirelessMode'', FPRINT_STR ''FixedTxMode'', FPRINT_LIST ''TxRate'',
      FPRINT_NUM ''Channel'', FPRINT_NUM ''BasicRate'', FPRINT_NUM ''BeaconPeriod'', FPRINT_NUM ''DtimPeriod'',
      FPRINT_NUM ''TxPower'', FPRINT_NUM ''DisableOLBC'', FPRINT_NUM ''BGProtection'',
      FPRINTF [(''TxAntenna'', '''')], FPRINTF [(''RxAntenna'', '''')], FPRINT_NUM ''TxPreamble'',
      FPRINT_NUM ''RTSThreshold'', FPRINT_NUM ''FragThreshold'', FPRINT_NUM ''TxBurst'',
      FPRINT_NUM ''PktAggregate'', FPRINT_NUM ''AutoProvisionEn'', FPRINT_NUM ''FreqDelta'',
      FPRINTF [(''TurboRate'', ''0'')], FPRINT_LIST ''WmmCapable'']"

definition cfg_wmm :: "item list" where
  "cfg_wmm =
     [FPRINT_STR ''APAifsn'', FPRINT_STR ''APCwmin'', FPRINT_STR ''APCwmax'', FPRINT_STR ''APTxop'',
      FPRINT_STR ''APACM'', FPRINT_STR ''BSSAifsn'', FPRINT_STR ''BSSCwmin'', FPRINT_STR ''BSSCwmax'',
      FPRINT_STR ''BSSTxop'', FPRINT_STR ''BSSACM'', FPRINT_STR ''AckPolicy'', FPRINT_STR ''APSDCapable'',
      FPRINT_STR ''DLSCapable'', FPRINT_STR ''NoForwarding'', FPRINT_NUM ''NoForwardingBTNBSSID'',
      FPRINT_STR ''HideSSID'', FPRINT_NUM ''ShortSlot'', FPRINT_NUM ''AutoChannelSelect'',
      FPRINT_STR ''IEEE8021X'', FPRINT_NUM ''IEEE80211H'', FPRINT_NUM ''CarrierDetect'',
      FPRINT_NUM ''ITxBfEn'', FPRINT_STR ''PreAntSwitch'', FPRINT_NUM ''PhyRateLimit'',
      FPRINT_NUM ''DebugFlags'', FPRINT_NUM ''ETxBfEnCond'', FPRINT_NUM ''ITxBfTimeout'',
      FPRINT_NUM ''ETxBfTimeout'', FPRINT_NUM ''ETxBfNoncompress'', FPRINT_NUM ''ETxBfIncapable'',
      FPRINT_NUM ''FineAGC'', FPRINT_NUM ''StreamMode'', FPRINT_STR ''StreamModeMac0'',
      FPRINT_STR ''StreamModeMac1'', FPRINT_STR ''StreamModeMac2'', FPRINT_STR ''StreamModeMac3'',
      FPRINT_NUM ''CSPeriod'', FPRINT_STR ''RDRegion'', FPRINT_NUM ''StationKeepAlive'',
      FPRINT_NUM ''DfsLowerLimit'', FPRINT_NUM ''DfsUpperLimit'', FPRINT_NUM ''DfsOutdoor'',
      FPRINT_NUM ''SymRoundFromCfg'', FPRINT_NUM ''BusyIdleFromCfg'', FPRINT_NUM ''DfsRssiHighFromCfg'',
      FPRINT_NUM ''DfsRssiLowFromCfg'', FPRINT_NUM ''DFSParamFromConfig'', FPRINT_STR ''FCCParamCh0'',
      FPRINT_STR ''FCCParamCh1'', FPRINT_STR ''FCCParamCh2'', FPRINT_STR ''FCCParamCh3'',
      FPRINT_STR ''CEParamCh0'', FPRINT_STR ''CEParamCh1'', FPRINT_STR ''CEParamCh2'',
      FPRINT_STR ''CEParamCh3'', FPRINT_STR ''JAPParamCh0'', FPRINT_STR ''JAPParamCh1'',
      FPRINT_STR ''JAPParamCh2'', FPRINT_STR ''JAPParamCh3'', FPRINT_STR ''JAPW53ParamCh0'',
      FPRINT_STR ''JAPW53ParamCh1'', FPRINT_STR ''JAPW53ParamCh2'', FPRINT_STR ''JAPW53ParamCh3'',
      FPRINT_NUM ''FixDfsLimit'', FPRINT_NUM ''LongPulseRadarTh'', FPRINT_NUM ''AvgRssiReq'',
      FPRINT_NUM ''DFS_R66'', FPRINT_STR ''BlockCh'']"

definition cfg_security :: "item list" where
  "cfg_security =
     [FPRINT_NUM ''GreenAP'', FPRINT_STR ''PreAuth'', FPRINT_STR ''AuthMode'', FPRINT_STR ''EncrypType'',
      FPRINT_STR ''WapiPsk1'', FPRINT_STR ''WapiPsk2'', FPRINT_STR ''WapiPsk3'', FPRINT_STR ''WapiPsk4'',
      FPRINT_STR ''WapiPsk5'', FPRINT_STR ''WapiPsk6'', FPRINT_STR ''WapiPsk7'', FPRINT_STR ''WapiPsk8'',
      FPRINT_STR ''WapiPskType'', FPRINT_STR ''Wapiifname'', FPRINT_STR ''WapiAsCertPath'',
      FPRINT_STR ''WapiUserCertPath'', FPRINT_STR ''WapiAsIpAddr'', FPRINT_STR ''WapiAsPort'',
      FPRINT_NUM ''BssidNum'', FPRINT_STR ''RekeyMethod'', FPRINT_NUM ''RekeyInterval'',
      FPRINT_STR ''PMKCachePeriod'', FPRINT_NUM ''MeshAutoLink'', FPRINT_STR ''MeshAuthMode'',
      FPRINT_STR ''MeshEncrypType'', FPRINT_NUM ''MeshDefaultkey'', FPRINT_STR ''MeshWEPKEY'',
      FPRINT_STR ''MeshWPAKEY'', FPRINT_STR ''MeshId'', FPRINT_STR ''WPAPSK1'', FPRINT_STR ''WPAPSK2'',
      FPRINT_STR ''WPAPSK3'', FPRINT_STR ''WPAPSK4'', FPRINT_STR ''WPAPSK5'', FPRINT_STR ''WPAPSK6'',
      FPRINT_STR ''WPAPSK7'', FPRINT_STR ''WPAPSK8'']"

definition cfg_keys :: "item list" where
  "cfg_keys =
     [FPRINT_STR ''DefaultKeyID'', FPRINT_STR ''Key1Type'', FPRINT_STR ''Key1Str1'', FPRINT_STR ''Key1Str2'',
      FPRINT_STR ''Key1Str3'', FPRINT_STR ''Key1Str4'', FPRINT_STR ''Key1Str5'', FPRINT_STR ''Key1Str6'',
      FPRINT_STR ''Key1Str7'', FPRINT_STR ''Key1Str8'', FPRINT_STR ''Key2Type'', FPRINT_STR ''Key2Str1'',
      FPRINT_STR ''Key2Str2'', FPRINT_STR ''Key2Str3'', FPRINT_STR ''Key2Str4'', FPRINT_STR ''Key2Str5'',
      FPRINT_STR ''Key2Str6'', FPRINT_STR ''Key2Str7'', FPRINT_STR ''Key2Str8'', FPRINT_STR ''Key3Type'',
      FPRINT_STR ''Key3Str1'', FPRINT_STR ''Key3Str2'', FPRINT_STR ''Key3Str3'', FPRINT_STR ''Key3Str4'',
      FPRINT_STR ''Key3Str5'', FPRINT_STR ''Key3Str6'', FPRINT_STR ''Key3Str7'', FPRINT_STR ''Key3Str8'',
      FPRINT_STR ''Key4Type'', FPRINT_STR ''Key4Str1'', FPRINT_STR ''Key4Str2'', FPRINT_STR ''Key4Str3'',
      FPRINT_STR ''Key4Str4'', FPRINT_STR ''Key4Str5'', FPRINT_STR ''Key4Str6'', FPRINT_STR ''Key4Str7'',
      FPRINT_STR ''Key4Str8'']"

definition cfg_ht :: "item list" where
  "cfg_ht =
     [FPRINT_NUM ''HSCounter'', FPRINT_NUM ''HT_HTC'', FPRINT_NUM ''HT_RDG'', FPRINT_NUM ''HT_LinkAdapt'',
      FPRINT_NUM ''HT_OpMode'', FPRINT_NUM ''HT_MpduDensity'', FPRINT_NUM ''HT_EXTCHA'', FPRINT_NUM ''HT_BW'',
      FPRINT_NUM ''VHT_BW'', FPRINT_NUM ''HT_AutoBA'', FPRINT_NUM ''HT_BADecline'', FPRINT_NUM ''HT_AMSDU'',
      FPRINT_NUM ''HT_BAWinSize'', FPRINT_NUM ''HT_GI'', FPRINT_NUM ''HT_STBC'', FPRINT_STR ''HT_MCS'',
      FPRINT_NUM ''HT_TxStream'', FPRINT_NUM ''HT_RxStream'', FPRINT_NUM ''HT_PROTECT'',
      FPRINT_NUM ''HT_DisallowTKIP'', FPRINT_NUM ''HT_BSSCoexistence'', FPRINT_NUM ''GreenAP'',
      FPRINT_NUM ''WscConfMode'', WSC_CONF_STATUS, WSC_VENDOR_PIN, FPRINT_NUM ''WCNTest'']"

definition cfg_access :: "item list" where
  "cfg_access =
     [FPRINT_NUM ''AccessPolicy0'', FPRINT_STR ''AccessControlList0'', FPRINT_NUM ''AccessPolicy1'',
      FPRINT_STR ''AccessControlList1'', FPRINT_NUM ''AccessPolicy2'', FPRINT_STR ''AccessControlList2'',
      FPRINT_NUM ''AccessPolicy3'', FPRINT_STR ''AccessControlList3'', FPRINT_NUM ''AccessPolicy4'',
      FPRINT_STR ''AccessControlList4'', FPRINT_NUM ''AccessPolicy5'', FPRINT_STR ''AccessControlList5'',
      FPRINT_NUM ''AccessPolicy6'', FPRINT_STR ''AccessControlList6'', FPRINT_NUM ''AccessPolicy7'',
      FPRINT_STR ''AccessControlList7'']"

definition cfg_wds :: "item list" where
  "cfg_wds =
     [FPRINT_NUM ''WdsEnable'', FPRINT_STR ''WdsPhyMode'', FPRINT_STR ''WdsEncrypType'',
      FPRINT_STR ''WdsList'', FPRINT_STR ''Wds0Key'', FPRINT_STR ''Wds1Key'', FPRINT_STR ''Wds2Key'',
      FPRINT_STR ''Wds3Key'', FPRINT_STR ''RADIUS_Server'', FPRINT_STR ''RADIUS_Port'',
      FPRINT_STR ''RADIUS_Key1'', FPRINT_STR ''RADIUS_Key2'', FPRINT_STR ''RADIUS_Key3'',
      FPRINT_STR ''RADIUS_Key4'', FPRINT_STR ''RADIUS_Key5'', FPRINT_STR ''RADIUS_Key6'',
      FPRINT_STR ''RADIUS_Key7'', FPRINT_STR ''RADIUS_Key8'', FPRINT_STR ''RADIUS_Acct_Server'',
      FPRINT_NUM ''RADIUS_Acct_Port'', FPRINT_STR ''RADIUS_Acct_Key'', FPRINT_STR ''own_ip_addr'',
      FPRINT_STR ''Ethifname'', FPRINT_STR ''EAPifname'', FPRINT_STR ''PreAuthifname'',
      FPRINT_NUM ''session_timeout_interval'', FPRINT_NUM ''idle_timeout_interval'', FPRINT_NUM ''WiFiTest'',
      FPRINT_NUM ''TGnWifiTest'']"

definition cfg_apcli :: "item list" where
  "cfg_apcli =
     [FPRINT_NUM ''ApCliEnable'', FPRINT_STR ''ApCliSsid'', FPRINT_STR ''ApCliBssid'',
      FPRINT_STR ''ApCliAuthMode'', FPRINT_STR ''ApCliEncrypType'', FPRINT_STR ''ApCliWPAPSK'',
      FPRINT_NUM ''ApCliDefaultKeyID'', FPRINT_NUM ''ApCliKey1Type'', FPRINT_STR ''ApCliKey1Str'',
      FPRINT_NUM ''ApCliKey2Type'', FPRINT_STR ''ApCliKey2Str'', FPRINT_NUM ''ApCliKey3Type'',
      FPRINT_STR ''ApCliKey3Str'', FPRINT_NUM ''ApCliKey4Type'', FPRINT_STR ''ApCliKey4Str'', RADIO_ON,
      FPRINTF [(''SSID'', ''''), (''WPAPSK'', ''''), (''Key1Str'', ''''), (''Key2Str'', ''''), (''Key3Str'', ''''), (''Key4Str'', '''')]]"

section \<open>The interpreter\<close>

text \<open>The state: the world, \<open>ssid_num\<close> and the bytes written to the file so far.\<close>

type_synonym gstate = "world \<times> int \<times> byte list"

definition fprint :: "string \<Rightarrow> cstring \<Rightarrow> gstate \<Rightarrow> gstate" where
  "fprint x v = (\<lambda>(w, ssid_num, fp). (w, ssid_num, fp @ lit x @ [EQUALS] @ v @ [NEWLINE]))"

text \<open>\<open>nvram_bufget\<close> in an argument of \<open>atoi\<close> or \<open>strcmp\<close>, which must not be NULL.\<close>

definition bufget_str :: "tenv \<Rightarrow> int \<Rightarrow> string \<Rightarrow> gstate \<Rightarrow> (cstring \<times> gstate) outcome" where
  "bufget_str t mode x = (\<lambda>(w, ssid_num, fp).
     obind (w_bufget t mode (lit x) w) (\<lambda>(v, w).
     case v of None \<Rightarrow> Fault | Some s \<Rightarrow> Ret (s, w, ssid_num, fp)))"

text \<open>The loop that fills \<open>tx_rate\<close> and \<open>wmm_enable\<close>: each \<open>sprintf\<close> appends at the end of the string,
  and writing past the 16 bytes faults.\<close>

fun rate_loop :: "tenv \<Rightarrow> int \<Rightarrow> string \<Rightarrow> nat \<Rightarrow> cstring \<Rightarrow> gstate \<Rightarrow> (cstring \<times> gstate) outcome" where
  "rate_loop t mode x 0 buf g = Ret (buf, g)"
| "rate_loop t mode x (Suc n) buf g =
     obind (bufget_str t mode x g) (\<lambda>(v, g).
     let buf = buf @ fmt_d (atoi v) in
     if length buf + 1 > 16 then Fault
     else let buf = buf @ [SEMI] in
       if length buf + 1 > 16 then Fault else rate_loop t mode x n buf g)"

text \<open>The last separator is removed; with an empty buffer this writes in front of it.\<close>

definition fprint_list :: "tenv \<Rightarrow> int \<Rightarrow> string \<Rightarrow> gstate \<Rightarrow> gstate outcome" where
  "fprint_list t mode x g =
     (case g of (w, ssid_num, fp) \<Rightarrow>
      obind (rate_loop t mode x (nat ssid_num) [] g) (\<lambda>(buf, g).
      if buf = [] then Fault else Ret (fprint x (butlast buf) g)))"

definition fprint_str :: "tenv \<Rightarrow> int \<Rightarrow> string \<Rightarrow> gstate \<Rightarrow> gstate outcome" where
  "fprint_str t mode x = (\<lambda>(w, ssid_num, fp).
     obind (w_bufget t mode (lit x) w) (\<lambda>(v, w). Ret (fprint x (fmt_s v) (w, ssid_num, fp))))"

fun run_item :: "tenv \<Rightarrow> int \<Rightarrow> item \<Rightarrow> gstate \<Rightarrow> gstate outcome" where
  "run_item t mode (FPRINT_NUM x) g =
     obind (bufget_str t mode x g) (\<lambda>(v, g). Ret (fprint x (fmt_d (atoi v)) g))"
| "run_item t mode (FPRINT_STR x) g = fprint_str t mode x g"
| "run_item t mode (FPRINT_LIST x) g = fprint_list t mode x g"
| "run_item t mode (FPRINTF ls) (w, ssid_num, fp) =
     Ret (w, ssid_num, fp @ lines_of (map (\<lambda>(n, v). (lit n, lit v)) ls))"
| "run_item t mode SSID_NUM g =
     obind (bufget_str t mode ''BssidNum'' g) (\<lambda>(v, w, _, fp). Ret (w, atoi v, fp))"
| "run_item t mode WSC_CONF_STATUS g =
     obind (bufget_str t mode ''WscConfigured'' g) (\<lambda>(v, g).
     Ret (fprint ''WscConfStatus'' (fmt_d (if atoi v = 0 then 1 else 2)) g))"
| "run_item t mode WSC_VENDOR_PIN g =
     obind (bufget_str t mode ''WscVendorPinCode'' g) (\<lambda>(v, g).
     if v \<noteq> [] then fprint_str t mode ''WscVendorPinCode'' g else Ret g)"
| "run_item t mode RADIO_ON g =
     obind (bufget_str t mode ''RadioOff'' g) (\<lambda>(v, g).
     Ret (fprint ''RadioOn'' (if atoi v = 1 then lit ''0'' else lit ''1'') g))"

fun run_items :: "tenv \<Rightarrow> int \<Rightarrow> item list \<Rightarrow> gstate \<Rightarrow> gstate outcome" where
  "run_items t mode [] g = Ret g"
| "run_items t mode (it # its) g = obind (run_item t mode it g) (run_items t mode its)"

definition cfg_items :: "item list" where
  "cfg_items = cfg_radio @ cfg_wmm @ cfg_security @ cfg_keys @ cfg_ht @ cfg_access @ cfg_wds @ cfg_apcli"

definition RT2860_DAT :: cstring where
  "RT2860_DAT = lit ''/etc/Wireless/RT2860/RT2860.dat''"

definition cfg_header :: cstring where
  "cfg_header = lit ''#The word of '' @ [0x22] @ lit ''Default'' @ [0x22] @ lit '' must not be removed'' @ [NEWLINE]
     @ lit ''Default'' @ [NEWLINE]"

text \<open>\<open>gen_config\<close>: for the second device \<open>fp\<close> is never assigned in this configuration, and a NULL
  \<open>fp\<close> is not checked; for the other blocks the function returns with the session open.\<close>

definition gen_config :: "tenv \<Rightarrow> int \<Rightarrow> world \<Rightarrow> (int \<times> world) outcome" where
  "gen_config t mode w =
     obind (w_init t mode w) (\<lambda>w.
     if mode = RT2860_NVRAM then
       if \<not> t_creat t RT2860_DAT then Fault
       else obind (run_items t mode cfg_items (w, 1, cfg_header)) (\<lambda>(w, _, fp).
            obind (w_close t mode w) (\<lambda>w.
            Ret (0, w\<lparr>files := (files w)(RT2860_DAT := Some fp)\<rparr>)))
     else if mode = RTDEV_NVRAM then Fault
     else Ret (0, w))"

section \<open>The file as a function of the store\<close>

definition val_of :: "(cstring \<times> cstring) list \<Rightarrow> cstring \<Rightarrow> cstring" where
  "val_of kvs n = (case map_of kvs n of None \<Rightarrow> [] | Some v \<Rightarrow> v)"

lemma lookup_val_of: "lookup (Some []) kvs n = Some (val_of kvs n)"
  by (simp add: lookup_def val_of_def split: option.split)

definition num_of :: "(cstring \<times> cstring) list \<Rightarrow> string \<Rightarrow> int" where
  "num_of kvs x = atoi (val_of kvs (lit x))"

definition repeated :: "nat \<Rightarrow> cstring \<Rightarrow> cstring" where
  "repeated n v = concat (replicate n (v @ [SEMI]))"

fun item_pairs :: "(cstring \<times> cstring) list \<Rightarrow> item \<Rightarrow> (cstring \<times> cstring) list" where
  "item_pairs kvs (FPRINT_NUM x) = [(lit x, fmt_d (num_of kvs x))]"
| "item_pairs kvs (FPRINT_STR x) = [(lit x, val_of kvs (lit x))]"
| "item_pairs kvs (FPRINT_LIST x) =
     [(lit x, butlast (repeated (nat (num_of kvs ''BssidNum'')) (fmt_d (num_of kvs x))))]"
| "item_pairs kvs (FPRINTF ls) = map (\<lambda>(n, v). (lit n, lit v)) ls"
| "item_pairs kvs SSID_NUM = []"
| "item_pairs kvs WSC_CONF_STATUS =
     [(lit ''WscConfStatus'', fmt_d (if num_of kvs ''WscConfigured'' = 0 then 1 else 2))]"
| "item_pairs kvs WSC_VENDOR_PIN =
     (if val_of kvs (lit ''WscVendorPinCode'') = [] then []
      else [(lit ''WscVendorPinCode'', val_of kvs (lit ''WscVendorPinCode''))])"
| "item_pairs kvs RADIO_ON = [(lit ''RadioOn'', if num_of kvs ''RadioOff'' = 1 then lit ''0'' else lit ''1'')]"

text \<open>The lines of the file, apart from how the program prints them: the names in their order, those whose values are numbers, and what
  stands behind each name.\<close>

definition numbered :: "string \<Rightarrow> string \<Rightarrow> string \<Rightarrow> string list" where
  "numbered pre digits post = map (\<lambda>c. pre @ [c] @ post) digits"

definition radio_names :: "string list" where
  "radio_names = [''CountryRegion'', ''CountryRegionABand'', ''CountryCode'', ''BssidNum''] @ numbered ''SSID'' ''12345678'' ''''
     @ [''WirelessMode'', ''FixedTxMode'', ''TxRate'', ''Channel'', ''BasicRate'', ''BeaconPeriod'', ''DtimPeriod'', ''TxPower'', ''DisableOLBC'',
        ''BGProtection'', ''TxAntenna'', ''RxAntenna'', ''TxPreamble'', ''RTSThreshold'', ''FragThreshold'', ''TxBurst'', ''PktAggregate'',
        ''AutoProvisionEn'', ''FreqDelta'', ''TurboRate'', ''WmmCapable'']
     @ map (\<lambda>x. ''AP'' @ x) [''Aifsn'', ''Cwmin'', ''Cwmax'', ''Txop'', ''ACM''] @ map (\<lambda>x. ''BSS'' @ x) [''Aifsn'', ''Cwmin'', ''Cwmax'', ''Txop'', ''ACM'']
     @ [''AckPolicy'', ''APSDCapable'', ''DLSCapable'', ''NoForwarding'', ''NoForwardingBTNBSSID'', ''HideSSID'', ''ShortSlot'', ''AutoChannelSelect'',
        ''IEEE8021X'', ''IEEE80211H'', ''CarrierDetect'', ''ITxBfEn'', ''PreAntSwitch'', ''PhyRateLimit'', ''DebugFlags'', ''ETxBfEnCond'',
        ''ITxBfTimeout'', ''ETxBfTimeout'', ''ETxBfNoncompress'', ''ETxBfIncapable'', ''FineAGC'', ''StreamMode''] @ numbered ''StreamModeMac'' ''0123'' ''''
     @ [''CSPeriod'', ''RDRegion'', ''StationKeepAlive'', ''DfsLowerLimit'', ''DfsUpperLimit'', ''DfsOutdoor'', ''SymRoundFromCfg'', ''BusyIdleFromCfg'',
        ''DfsRssiHighFromCfg'', ''DfsRssiLowFromCfg'', ''DFSParamFromConfig'']
     @ numbered ''FCCParamCh'' ''0123'' '''' @ numbered ''CEParamCh'' ''0123'' '''' @ numbered ''JAPParamCh'' ''0123'' '''' @ numbered ''JAPW53ParamCh'' ''0123'' ''''
     @ [''FixDfsLimit'', ''LongPulseRadarTh'', ''AvgRssiReq'', ''DFS_R66'', ''BlockCh'']"

definition security_names :: "string list" where
  "security_names = [''GreenAP'', ''PreAuth'', ''AuthMode'', ''EncrypType''] @ numbered ''WapiPsk'' ''12345678'' ''''
     @ map (\<lambda>x. ''Wapi'' @ x) [''PskType'', ''ifname'', ''AsCertPath'', ''UserCertPath'', ''AsIpAddr'', ''AsPort'']
     @ [''BssidNum'', ''RekeyMethod'', ''RekeyInterval'', ''PMKCachePeriod'']
     @ map (\<lambda>x. ''Mesh'' @ x) [''AutoLink'', ''AuthMode'', ''EncrypType'', ''Defaultkey'', ''WEPKEY'', ''WPAKEY'', ''Id'']
     @ numbered ''WPAPSK'' ''12345678'' '''' @ [''DefaultKeyID'']
     @ concat (map (\<lambda>k. [''Key'' @ [k] @ ''Type''] @ numbered (''Key'' @ [k] @ ''Str'') ''12345678'' '''') ''1234'')"

definition ht_names :: "string list" where
  "ht_names = [''HSCounter''] @ map (\<lambda>x. ''HT_'' @ x) [''HTC'', ''RDG'', ''LinkAdapt'', ''OpMode'', ''MpduDensity'', ''EXTCHA'', ''BW''] @ [''VHT_BW'']
     @ map (\<lambda>x. ''HT_'' @ x) [''AutoBA'', ''BADecline'', ''AMSDU'', ''BAWinSize'', ''GI'', ''STBC'', ''MCS'', ''TxStream'', ''RxStream'', ''PROTECT'',
         ''DisallowTKIP'', ''BSSCoexistence'']
     @ [''GreenAP'', ''WscConfMode'', ''WscConfStatus'', ''WscVendorPinCode'', ''WCNTest'']"

definition link_names :: "string list" where
  "link_names = concat (map (\<lambda>i. [''AccessPolicy'' @ [i], ''AccessControlList'' @ [i]]) ''01234567'')
     @ map (\<lambda>x. ''Wds'' @ x) [''Enable'', ''PhyMode'', ''EncrypType'', ''List''] @ numbered ''Wds'' ''0123'' ''Key''
     @ [''RADIUS_Server'', ''RADIUS_Port''] @ numbered ''RADIUS_Key'' ''12345678'' ''''
     @ map (\<lambda>x. ''RADIUS_Acct_'' @ x) [''Server'', ''Port'', ''Key'']
     @ [''own_ip_addr'', ''Ethifname'', ''EAPifname'', ''PreAuthifname'', ''session_timeout_interval'', ''idle_timeout_interval'', ''WiFiTest'', ''TGnWifiTest'']
     @ map (\<lambda>x. ''ApCli'' @ x) [''Enable'', ''Ssid'', ''Bssid'', ''AuthMode'', ''EncrypType'', ''WPAPSK'', ''DefaultKeyID'']
     @ concat (map (\<lambda>k. [''ApCliKey'' @ [k] @ ''Type'', ''ApCliKey'' @ [k] @ ''Str'']) ''1234'')
     @ [''RadioOn'', ''SSID'', ''WPAPSK''] @ numbered ''Key'' ''1234'' ''Str''"

definition cfg_names :: "string list" where
  "cfg_names = radio_names @ security_names @ ht_names @ link_names"

definition number_names :: "string list" where
  "number_names = [''CountryRegion'', ''CountryRegionABand'', ''BssidNum'', ''WirelessMode'', ''Channel'', ''BasicRate'', ''BeaconPeriod'', ''DtimPeriod'',
     ''TxPower'', ''DisableOLBC'', ''BGProtection'', ''TxPreamble'', ''RTSThreshold'', ''FragThreshold'', ''TxBurst'', ''PktAggregate'', ''AutoProvisionEn'',
     ''FreqDelta'', ''NoForwardingBTNBSSID'', ''ShortSlot'', ''AutoChannelSelect'', ''IEEE80211H'', ''CarrierDetect'', ''ITxBfEn'', ''PhyRateLimit'',
     ''DebugFlags'', ''ETxBfEnCond'', ''ITxBfTimeout'', ''ETxBfTimeout'', ''ETxBfNoncompress'', ''ETxBfIncapable'', ''FineAGC'', ''StreamMode'', ''CSPeriod'',
     ''StationKeepAlive'', ''DfsLowerLimit'', ''DfsUpperLimit'', ''DfsOutdoor'', ''SymRoundFromCfg'', ''BusyIdleFromCfg'', ''DfsRssiHighFromCfg'',
     ''DfsRssiLowFromCfg'', ''DFSParamFromConfig'', ''FixDfsLimit'', ''LongPulseRadarTh'', ''AvgRssiReq'', ''DFS_R66'', ''GreenAP'', ''RekeyInterval'',
     ''MeshAutoLink'', ''MeshDefaultkey'', ''HSCounter'', ''HT_HTC'', ''HT_RDG'', ''HT_LinkAdapt'', ''HT_OpMode'', ''HT_MpduDensity'', ''HT_EXTCHA'', ''HT_BW'',
     ''VHT_BW'', ''HT_AutoBA'', ''HT_BADecline'', ''HT_AMSDU'', ''HT_BAWinSize'', ''HT_GI'', ''HT_STBC'', ''HT_TxStream'', ''HT_RxStream'', ''HT_PROTECT'',
     ''HT_DisallowTKIP'', ''HT_BSSCoexistence'', ''WscConfMode'', ''WCNTest''] @ numbered ''AccessPolicy'' ''01234567'' ''''
     @ [''WdsEnable'', ''RADIUS_Acct_Port'', ''session_timeout_interval'', ''idle_timeout_interval'', ''WiFiTest'', ''TGnWifiTest'', ''ApCliEnable'',
        ''ApCliDefaultKeyID''] @ numbered ''ApCliKey'' ''1234'' ''Type''"

definition empty_names :: "string list" where
  "empty_names = [''TxAntenna'', ''RxAntenna'', ''SSID'', ''WPAPSK'', ''Key1Str'', ''Key2Str'', ''Key3Str'', ''Key4Str'']"

definition cfg_value :: "(cstring \<times> cstring) list \<Rightarrow> string \<Rightarrow> cstring" where
  "cfg_value kvs n =
     (if n \<in> set number_names then fmt_d (num_of kvs n)
      else if n \<in> {''TxRate'', ''WmmCapable''} then butlast (repeated (nat (num_of kvs ''BssidNum'')) (fmt_d (num_of kvs n)))
      else if n \<in> set empty_names then [] else if n = ''TurboRate'' then lit ''0''
      else if n = ''WscConfStatus'' then fmt_d (if num_of kvs ''WscConfigured'' = 0 then 1 else 2)
      else if n = ''RadioOn'' then (if num_of kvs ''RadioOff'' = 1 then lit ''0'' else lit ''1'')
      else val_of kvs (lit n))"

text \<open>Only the line of the vendor's PIN is left out when there is none.\<close>

definition cfg_pairs :: "(cstring \<times> cstring) list \<Rightarrow> (cstring \<times> cstring) list" where
  "cfg_pairs kvs = map (\<lambda>n. (lit n, cfg_value kvs n))
     (filter (\<lambda>n. n = ''WscVendorPinCode'' \<longrightarrow> val_of kvs (lit n) \<noteq> []) cfg_names)"

text \<open>The statement that prints the line of a name.\<close>

definition name_item :: "string \<Rightarrow> item" where
  "name_item n =
     (if n \<in> set number_names then FPRINT_NUM n else if n \<in> set [''TxRate'', ''WmmCapable''] then FPRINT_LIST n
      else if n \<in> set empty_names then FPRINTF [(n, '''')] else if n = ''TurboRate'' then FPRINTF [(n, ''0'')]
      else if n = ''WscConfStatus'' then WSC_CONF_STATUS else if n = ''RadioOn'' then RADIO_ON
      else if n = ''WscVendorPinCode'' then WSC_VENDOR_PIN else FPRINT_STR n)"

fun split_item :: "item \<Rightarrow> item list" where
  "split_item (FPRINTF ls) = map (\<lambda>l. FPRINTF [l]) ls"
| "split_item SSID_NUM = []"
| "split_item it = [it]"

lemma radio_items: "concat (map split_item cfg_radio) = map name_item (take 33 radio_names)"
  by code_simp

lemma wmm_items: "concat (map split_item cfg_wmm) = map name_item (drop 33 radio_names)"
  by code_simp

lemma security_items: "concat (map split_item cfg_security) = map name_item (take 37 security_names)"
  by code_simp

lemma key_items: "concat (map split_item cfg_keys) = map name_item (drop 37 security_names)"
  by code_simp

lemma ht_items: "concat (map split_item cfg_ht) = map name_item ht_names"
  by code_simp

lemma access_items: "concat (map split_item cfg_access) = map name_item (take 16 link_names)"
  by code_simp

lemma wds_items: "concat (map split_item cfg_wds) = map name_item (take 29 (drop 16 link_names))"
  by code_simp

lemma apcli_items: "concat (map split_item cfg_apcli) = map name_item (drop 45 link_names)"
  by code_simp

lemma cfg_items_names: "concat (map split_item cfg_items) = map name_item cfg_names"
proof -
  have "radio_names = take 33 radio_names @ drop 33 radio_names" "security_names = take 37 security_names @ drop 37 security_names"
    "link_names = take 16 link_names @ take 29 (drop 16 link_names) @ drop 45 link_names"
    using append_take_drop_id [of 29 "drop 16 link_names"] by simp_all
  then have names: "cfg_names = take 33 radio_names @ drop 33 radio_names @ take 37 security_names @ drop 37 security_names @ ht_names
      @ take 16 link_names @ take 29 (drop 16 link_names) @ drop 45 link_names" unfolding cfg_names_def by (metis append_assoc)
  show ?thesis unfolding cfg_items_def names map_append concat_append
      radio_items wmm_items security_items key_items ht_items access_items wds_items apcli_items ..
qed

lemma special_names:
  "list_all (\<lambda>n. n \<notin> set number_names \<and> n \<notin> set empty_names \<and> n \<noteq> ''TxRate'' \<and> n \<noteq> ''WmmCapable'')
     [''TurboRate'', ''WscConfStatus'', ''RadioOn'', ''WscVendorPinCode'']" "list_all (\<lambda>n. n \<notin> set number_names) empty_names"
  "list_all (\<lambda>n. n \<notin> set number_names) [''TxRate'', ''WmmCapable'']"
  by code_simp+

lemma split_item_pairs: "concat (map (item_pairs kvs) (split_item it)) = item_pairs kvs it"
  by (cases "(kvs, it)" rule: item_pairs.cases) (auto simp: comp_def case_prod_beta)

lemma name_item_pairs:
  "item_pairs kvs (name_item n) = (if n = ''WscVendorPinCode'' \<and> val_of kvs (lit n) = [] then [] else [(lit n, cfg_value kvs n)])"
  using special_names by (simp add: name_item_def cfg_value_def list_all_iff)

lemma cfg_pairs_items: "concat (map (item_pairs kvs) cfg_items) = cfg_pairs kvs"
proof -
  have "concat (map (item_pairs kvs) its) = concat (map (item_pairs kvs) (concat (map split_item its)))" for its
    by (induction its) (simp_all add: split_item_pairs)
  from this [of cfg_items] have "concat (map (item_pairs kvs) cfg_items) = concat (map (item_pairs kvs) (map name_item cfg_names))"
    unfolding cfg_items_names .
  moreover have "concat (map (item_pairs kvs) (map name_item ns)) = map (\<lambda>n. (lit n, cfg_value kvs n))
      (filter (\<lambda>n. n = ''WscVendorPinCode'' \<longrightarrow> val_of kvs (lit n) \<noteq> []) ns)" for ns
    by (induction ns) (auto simp: name_item_pairs)
  ultimately show ?thesis by (simp only: cfg_pairs_def)
qed

lemma lines_of_simps [simp]:
  "lines_of [] = []" "lines_of ((n, v) # kvs) = n @ [EQUALS] @ v @ [NEWLINE] @ lines_of kvs"
  "lines_of (kvs @ kvs') = lines_of kvs @ lines_of kvs'"
  by (simp_all add: lines_of_def)

section \<open>Running the items\<close>

text \<open>A session on the list \<open>kvs\<close>, and what the reads of an item do to it: nothing visible.\<close>

definition reading :: "tenv \<Rightarrow> nat \<Rightarrow> (cstring \<times> cstring) list \<Rightarrow> world \<Rightarrow> world \<Rightarrow> bool" where
  "reading t i kvs w0 w = (session (te t) i (nv w) \<and> ram (lk (nv w)) i = kvs \<and> flash_of w = flash_of w0
     \<and> shape (nv w) = shape (nv w0) \<and> stdout w = stdout w0 \<and> files w = files w0)"

lemma reading_bufget:
  assumes "reading t i kvs w0 w"
  shows "\<exists>w'. w_bufget t (int i) n w = Ret (Some (val_of kvs n), w') \<and> reading t i kvs w0 w'"
proof -
  obtain s where s: "lib_nvram_bufget (te t) (nv w) (int i) n = Ret (lookup (Some []) (ram (lk (nv w)) i) n, s)"
    "session (te t) i s" "ram (lk s) i = ram (lk (nv w)) i" "kdev (lk s) = flash_of w" "shape s = shape (nv w)"
    using session_bufget [of "te t" i "nv w" n] assms unfolding reading_def by blast
  then show ?thesis
    using assms by (intro exI [of _ "w\<lparr>nv := s\<rparr>"]) (simp add: w_bufget_def reading_def lookup_val_of)
qed

lemma reading_str:
  assumes "reading t i kvs w0 w"
  shows "\<exists>w'. bufget_str t (int i) x (w, k, fp) = Ret (val_of kvs (lit x), w', k, fp) \<and> reading t i kvs w0 w'"
  using reading_bufget [OF assms, of "lit x"] by (auto simp: bufget_str_def)

lemma repeated_simps [simp]:
  "repeated 0 v = []" "repeated (Suc n) v = v @ SEMI # repeated n v" "length (repeated n v) = n * (length v + 1)"
  by (simp_all add: repeated_def length_concat sum_list_replicate)

lemma rate_loop_fits:
  assumes "reading t i kvs w0 w" and "length buf + n * (length (fmt_d (num_of kvs x)) + 1) \<le> 15"
  shows "\<exists>w'. rate_loop t (int i) x n buf (w, k, fp) = Ret (buf @ repeated n (fmt_d (num_of kvs x)), w', k, fp)
    \<and> reading t i kvs w0 w'"
  using assms
proof (induction n arbitrary: w buf)
  case (Suc n)
  obtain w1 where w1: "bufget_str t (int i) x (w, k, fp) = Ret (val_of kvs (lit x), w1, k, fp)"
    "reading t i kvs w0 w1"
    using reading_str [OF Suc.prems(1)] by blast
  obtain w2 where w2: "rate_loop t (int i) x n (buf @ fmt_d (num_of kvs x) @ [SEMI]) (w1, k, fp)
      = Ret ((buf @ fmt_d (num_of kvs x) @ [SEMI]) @ repeated n (fmt_d (num_of kvs x)), w2, k, fp)"
    "reading t i kvs w0 w2"
    using Suc.IH [OF w1(2), of "buf @ fmt_d (num_of kvs x) @ [SEMI]"] Suc.prems(2) by auto
  then show ?case using w1(1) Suc.prems(2) by (auto simp: Let_def num_of_def)
qed auto

text \<open>Every value takes at least two bytes of the buffer, its separator included.\<close>

lemma fmt_d_nonempty: "0 < length (fmt_d v)"
  by (auto simp: fmt_d_def)

lemma rate_loop_overflow:
  assumes "reading t i kvs w0 w" and "15 < length buf + 2 * n"
    and "length buf \<le> 15"
  shows "rate_loop t (int i) x n buf (w, k, fp) = Fault"
  using assms
proof (induction n arbitrary: w buf)
  case (Suc n)
  obtain w1 where w1: "bufget_str t (int i) x (w, k, fp) = Ret (val_of kvs (lit x), w1, k, fp)"
    "reading t i kvs w0 w1"
    using reading_str [OF Suc.prems(1)] by blast
  let ?b = "buf @ fmt_d (num_of kvs x) @ [SEMI]"
  have "length buf + 2 \<le> length ?b" using fmt_d_nonempty [of "num_of kvs x"] by (simp add: Suc_le_eq)
  then have "length ?b \<le> 15 \<Longrightarrow> rate_loop t (int i) x n ?b (w1, k, fp) = Fault"
    using Suc.prems(2) by (intro Suc.IH [OF w1(2)]) simp_all
  then show ?case using w1(1) by (simp add: Let_def num_of_def)
qed simp

text \<open>The lists are printed after the number of SSIDs was read.\<close>

fun lists_after :: "bool \<Rightarrow> item list \<Rightarrow> bool" where
  "lists_after b [] = True"
| "lists_after b (FPRINT_LIST x # its) = (b \<and> lists_after b its)"
| "lists_after b (SSID_NUM # its) = lists_after True its"
| "lists_after b (it # its) = lists_after b its"

definition list_fits :: "(cstring \<times> cstring) list \<Rightarrow> string \<Rightarrow> bool" where
  "list_fits kvs x = (0 < num_of kvs ''BssidNum''
     \<and> nat (num_of kvs ''BssidNum'') * (length (fmt_d (num_of kvs x)) + 1) \<le> 15)"

lemma fprint_list_fits:
  assumes "reading t i kvs w0 w" and "list_fits kvs x" and "k = num_of kvs ''BssidNum''"
  shows "\<exists>w'. fprint_list t (int i) x (w, k, fp)
      = Ret (w', k, fp @ lines_of (item_pairs kvs (FPRINT_LIST x))) \<and> reading t i kvs w0 w'"
proof -
  let ?r = "repeated (nat k) (fmt_d (num_of kvs x))"
  obtain w' where "rate_loop t (int i) x (nat k) [] (w, k, fp) = Ret (?r, w', k, fp)" "reading t i kvs w0 w'"
    using rate_loop_fits [OF assms(1), of "[]" "nat k" x k fp] assms(2,3) by (auto simp: list_fits_def)
  moreover have "?r \<noteq> []" using assms(2,3) by (auto simp: list_fits_def gr0_conv_Suc dest!: zero_less_nat_eq [THEN iffD2])
  ultimately show ?thesis using assms(3) by (auto simp: fprint_list_def fprint_def)
qed

lemma run_item_ok:
  assumes rd: "reading t i kvs w0 w"
    and li: "\<And>x. it = FPRINT_LIST x \<Longrightarrow> list_fits kvs x \<and> k = num_of kvs ''BssidNum''"
  shows "\<exists>w'. run_item t (int i) it (w, k, fp)
      = Ret (w', if it = SSID_NUM then num_of kvs ''BssidNum'' else k, fp @ lines_of (item_pairs kvs it))
    \<and> reading t i kvs w0 w'"
proof (cases it)
  case (FPRINT_NUM x)
  then show ?thesis using reading_str [OF rd, of x k fp] by (auto simp: fprint_def num_of_def)
next
  case (FPRINT_STR x)
  then show ?thesis using reading_bufget [OF rd, of "lit x"] by (auto simp: fprint_str_def fprint_def fmt_s_def)
next
  case (FPRINT_LIST x)
  then show ?thesis using fprint_list_fits [OF rd, of x k fp] li by auto
next
  case (FPRINTF ls)
  then show ?thesis using rd by auto
next
  case SSID_NUM
  then show ?thesis using reading_str [OF rd, of "''BssidNum''" k fp] by (auto simp: num_of_def)
next
  case WSC_CONF_STATUS
  then show ?thesis using reading_str [OF rd, of "''WscConfigured''" k fp] by (auto simp: fprint_def num_of_def simp del: lit_Cons)
next
  case WSC_VENDOR_PIN
  obtain w1 where w1: "bufget_str t (int i) ''WscVendorPinCode'' (w, k, fp)
      = Ret (val_of kvs (lit ''WscVendorPinCode''), w1, k, fp)" "reading t i kvs w0 w1"
    using reading_str [OF rd] by blast
  then show ?thesis
    using WSC_VENDOR_PIN reading_bufget [OF w1(2), of "lit ''WscVendorPinCode''"]
    by (auto simp: fprint_str_def fprint_def fmt_s_def simp del: lit_Cons)
next
  case RADIO_ON
  then show ?thesis using reading_str [OF rd, of "''RadioOff''" k fp] by (auto simp: fprint_def num_of_def simp del: lit_Cons)
qed

lemma run_items_ok:
  assumes "reading t i kvs w0 w" and "lists_after b its" and "b \<Longrightarrow> k = num_of kvs ''BssidNum''"
    and "\<forall>x. FPRINT_LIST x \<in> set its \<longrightarrow> list_fits kvs x"
  shows "\<exists>w'. run_items t (int i) its (w, k, fp) = Ret (w', if SSID_NUM \<in> set its then num_of kvs ''BssidNum'' else k,
      fp @ lines_of (concat (map (item_pairs kvs) its))) \<and> reading t i kvs w0 w'"
  using assms
proof (induction its arbitrary: w k fp b)
  case (Cons it its)
  have "it = FPRINT_LIST x \<Longrightarrow> list_fits kvs x \<and> k = num_of kvs ''BssidNum''" for x
    using Cons.prems by auto
  from run_item_ok [OF Cons.prems(1) this] obtain w1 where w1: "run_item t (int i) it (w, k, fp)
      = Ret (w1, if it = SSID_NUM then num_of kvs ''BssidNum'' else k, fp @ lines_of (item_pairs kvs it))"
    "reading t i kvs w0 w1" by blast
  have la: "lists_after (b \<or> it = SSID_NUM) its" using Cons.prems(2) by (cases it) auto
  have num: "(if it = SSID_NUM then num_of kvs ''BssidNum'' else k) = num_of kvs ''BssidNum''"
    if "b \<or> it = SSID_NUM" using that Cons.prems(3) by auto
  have fits: "\<forall>x. FPRINT_LIST x \<in> set its \<longrightarrow> list_fits kvs x" using Cons.prems(4) by simp
  obtain w2 where "run_items t (int i) its (w1, if it = SSID_NUM then num_of kvs ''BssidNum'' else k,
      fp @ lines_of (item_pairs kvs it)) = Ret (w2, if SSID_NUM \<in> set its then num_of kvs ''BssidNum''
        else if it = SSID_NUM then num_of kvs ''BssidNum'' else k,
      (fp @ lines_of (item_pairs kvs it)) @ lines_of (concat (map (item_pairs kvs) its)))" "reading t i kvs w0 w2"
    using Cons.IH [OF w1(2) la num fits] by blast
  then show ?case using w1(1) by (intro exI [of _ w2]) auto
qed auto

section \<open>The whole function\<close>

lemma cfg_lists_after: "lists_after False cfg_items"
  by (simp add: cfg_items_def cfg_radio_def cfg_wmm_def cfg_security_def cfg_keys_def cfg_ht_def cfg_access_def
      cfg_wds_def cfg_apcli_def)

lemma cfg_lists: "FPRINT_LIST x \<in> set cfg_items \<longleftrightarrow> x = ''TxRate'' \<or> x = ''WmmCapable''"
  by (simp add: cfg_items_def cfg_radio_def cfg_wmm_def cfg_security_def cfg_keys_def cfg_ht_def cfg_access_def
      cfg_wds_def cfg_apcli_def)

lemma reading_start:
  assumes "attachable (te t) i (nv w)"
  shows "\<exists>w1. w_init t (int i) w = Ret w1 \<and> reading t i (ram (lk (nv w)) i) w w1"
  using session_init [OF assms] by (auto simp: w_init_def reading_def)

lemma reading_end:
  assumes "reading t i kvs w0 w" and "storable i kvs"
  shows "\<exists>s. w_close t (int i) w = Ret (w\<lparr>nv := s\<rparr>) \<and> attachable (te t) i s \<and> ram (lk s) i = kvs
    \<and> kdev (lk s) = flash_of w0 \<and> shape s = shape (nv w0)"
  using session_close [of "te t" i "nv w"] assms by (auto simp: reading_def session_def w_close_def)

lemma gen_config_ok:
  assumes at: "attachable (te t) 0 (nv w)" and cr: "t_creat t RT2860_DAT"
    and fits: "list_fits (ram (lk (nv w)) 0) ''TxRate''" "list_fits (ram (lk (nv w)) 0) ''WmmCapable''"
  shows "\<exists>w'. gen_config t RT2860_NVRAM w = Ret (0, w') \<and> attachable (te t) 0 (nv w')
    \<and> ram (lk (nv w')) 0 = ram (lk (nv w)) 0 \<and> shape (nv w') = shape (nv w) \<and> flash_of w' = flash_of w
    \<and> files w' = (files w)(RT2860_DAT := Some (cfg_header @ lines_of (cfg_pairs (ram (lk (nv w)) 0))))
    \<and> stdout w' = stdout w"
proof -
  let ?kvs = "ram (lk (nv w)) 0"
  obtain w1 where w1: "w_init t 0 w = Ret w1" "reading t 0 ?kvs w w1" using reading_start [OF at] by auto
  obtain w2 k where w2: "run_items t 0 cfg_items (w1, 1, cfg_header)
      = Ret (w2, k, cfg_header @ lines_of (concat (map (item_pairs ?kvs) cfg_items)))" "reading t 0 ?kvs w w2"
    using run_items_ok [OF w1(2) cfg_lists_after, of 1 cfg_header] fits by (auto simp: cfg_lists)
  obtain s where s: "w_close t 0 w2 = Ret (w2\<lparr>nv := s\<rparr>)" "attachable (te t) 0 s" "ram (lk s) 0 = ?kvs"
    "kdev (lk s) = flash_of w" "shape s = shape (nv w)"
    using reading_end [OF w2(2)] attachableD(3) [OF at] by auto
  show ?thesis
    using w1(1) w2 s cr by (auto simp: gen_config_def cfg_pairs_items reading_def)
qed

lemma run_items_append:
  "run_items t mode (its @ its') g = obind (run_items t mode its g) (run_items t mode its')"
proof (induction its arbitrary: g)
  case (Cons it its)
  show ?case by (cases "run_item t mode it g") (simp_all add: Cons)
qed simp

text \<open>With no SSID, or more than seven, the first list overruns its buffer.\<close>

lemma fprint_list_faults:
  assumes "reading t i kvs w0 w" and "k \<le> 0 \<or> 8 \<le> k"
  shows "fprint_list t (int i) x (w, k, fp) = Fault"
proof (cases "k \<le> 0")
  case True
  then show ?thesis by (simp add: fprint_list_def)
next
  case False
  then show ?thesis using rate_loop_overflow [OF assms(1), of "[]" "nat k" x k fp] assms(2) by (simp add: fprint_list_def)
qed

lemma cfg_items_split:
  "cfg_items = take 15 cfg_items @ FPRINT_LIST ''TxRate'' # drop 16 cfg_items" "SSID_NUM \<in> set (take 15 cfg_items)"
  "lists_after False (take 15 cfg_items)" "FPRINT_LIST x \<notin> set (take 15 cfg_items)"
  by (simp_all add: cfg_items_def cfg_radio_def)

section \<open>Properties\<close>

text \<open>C29: the generated file is the fixed header followed by one \<open>name=value\<close> line for each of the 268 names of the driver's
  configuration (without the vendor's PIN when there is none), in this order, with the values of the store: the numbers in decimal, the strings as
  they are, \<open>TxRate\<close> and \<open>WmmCapable\<close> repeated once per SSID, and the few fixed or derived ones. The store, the flash and the output are
  unchanged. This holds when the file can be made and the two repeated values fit the 16-byte buffers, which needs \<open>BssidNum\<close> from 1 to 7.\<close>

theorem gen_config_file:
  assumes "attachable (te t) 0 (nv w)" and "t_creat t RT2860_DAT"
    and "list_fits (ram (lk (nv w)) 0) ''TxRate''" and "list_fits (ram (lk (nv w)) 0) ''WmmCapable''"
  shows "\<exists>w'. gen_config t RT2860_NVRAM w = Ret (0, w') \<and> ram (lk (nv w')) 0 = ram (lk (nv w)) 0
    \<and> flash_of w' = flash_of w \<and> stdout w' = stdout w
    \<and> files w' = (files w)(RT2860_DAT := Some (cfg_header @ lines_of (cfg_pairs (ram (lk (nv w)) 0))))"
  using gen_config_ok [OF assms] by blast

definition one_ssid :: "(cstring \<times> cstring) list" where
  "one_ssid = [(lit ''BssidNum'', lit ''1'')]"

lemma one_ssid_props:
  "storable 0 one_ssid" "list_fits one_ssid ''TxRate''" "list_fits one_ssid ''WmmCapable''"
  by (simp_all add: one_ssid_def storable_def kv_ok_def layout_def list_fits_def num_of_def val_of_def atoi_def
      isspace_def isdigit_def fmt_d_def print_base_eval)

lemma one_ssid_world:
  "\<exists>s. set_in_zone board_tenv [] DEFAULT_FLASH_ZONE_NAME (lit ''BssidNum'') (lit ''1'') board_world
      = Ret (0, board_world\<lparr>nv := s\<rparr>) \<and> attachable (te board_tenv) 0 s \<and> ram (lk s) 0 = one_ssid
    \<and> shape s = shape (nv board_world)"
proof -
  have ram: "ram (lk (nv board_world)) 0 = []" by (simp add: board_world_def board_knv_props)
  have kvs: "AList.update (lit ''BssidNum'') (lit ''1'') (ram (lk (nv board_world)) 0) = one_ssid"
    by (simp only: ram update.simps one_ssid_def)
  have z: "getNvramIndex (lfb (nv board_world)) DEFAULT_FLASH_ZONE_NAME = int 0" by (simp add: board_zone)
  have v: "is_cstring (lit ''1'')" "length (lit ''1'') < MAX_VALUE_LEN" "length one_ssid \<le> MAX_CACHE_ENTRY"
    by (simp_all add: one_ssid_def)
  have at: "attachable (te board_tenv) 0 (nv board_world)" by (rule board_attachable) simp
  from set_in_zone_ok [OF at z v(1,2), of "lit ''BssidNum''" "[]", unfolded kvs, OF v(3) one_ssid_props(1)]
  show ?thesis by blast
qed

theorem gen_config_file_witness:
  "\<exists>w1 w2. ra_nv_set board_tenv [[], DEFAULT_FLASH_ZONE_NAME, lit ''BssidNum'', lit ''1''] board_world = Ret (0, w1)
    \<and> gen_config board_tenv 0 w1 = Ret (0, w2)
    \<and> files w2 RT2860_DAT = Some (cfg_header @ lines_of (cfg_pairs one_ssid))"
proof -
  obtain s where s: "set_in_zone board_tenv [] DEFAULT_FLASH_ZONE_NAME (lit ''BssidNum'') (lit ''1'') board_world
      = Ret (0, board_world\<lparr>nv := s\<rparr>)" "attachable (te board_tenv) 0 s" "ram (lk s) 0 = one_ssid"
    using one_ssid_world by blast
  have "t_creat board_tenv RT2860_DAT" by (simp add: board_tenv_def)
  then show ?thesis
    using gen_config_file [of board_tenv "board_world\<lparr>nv := s\<rparr>"] s one_ssid_props(2,3)
    by (auto simp del: lit_Cons)
qed

text \<open>With \<open>BssidNum\<close> unset, zero, negative or above seven, \<open>gen_config\<close> writes outside its
  16-byte buffer \<open>tx_rate\<close>, whatever the other settings.\<close>

theorem gen_config_buffer_overrun:
  assumes "attachable (te t) 0 (nv w)" and "t_creat t RT2860_DAT"
    and "num_of (ram (lk (nv w)) 0) ''BssidNum'' \<le> 0 \<or> 8 \<le> num_of (ram (lk (nv w)) 0) ''BssidNum''"
  shows "gen_config t RT2860_NVRAM w = Fault"
proof -
  let ?kvs = "ram (lk (nv w)) 0"
  obtain w1 where w1: "w_init t 0 w = Ret w1" "reading t 0 ?kvs w w1" using reading_start [OF assms(1)] by auto
  obtain w2 fp where w2: "run_items t 0 (take 15 cfg_items) (w1, 1, cfg_header) = Ret (w2, num_of ?kvs ''BssidNum'', fp)"
    "reading t 0 ?kvs w w2"
    using run_items_ok [OF w1(2) cfg_items_split(3), of 1 cfg_header] cfg_items_split(2,4) by auto
  have "run_items t 0 cfg_items (w1, 1, cfg_header) = Fault"
    using w2(1) fprint_list_faults [OF w2(2) assms(3), of "''TxRate''" fp]
    by (subst cfg_items_split(1), subst run_items_append) simp
  then show ?thesis using w1(1) assms(2) by (simp add: gen_config_def)
qed

theorem gen_config_buffer_overrun_witness: "gen_config board_tenv 0 board_world = Fault"
proof -
  have "num_of (ram (lk (nv board_world)) 0) ''BssidNum'' \<le> 0"
    by (simp add: board_world_def board_knv_props num_of_def val_of_def atoi_def)
  then show ?thesis
    using gen_config_buffer_overrun [OF board_attachable [of 0]] by (simp add: board_tenv_def)
qed

end
