(* ===== verification/RenewNvram.thy ===== *)
theory RenewNvram
  imports GenConfig
begin

text \<open>
  Loading a configuration file into the store (\<open>renew_nvram\<close> of
  user/rt2880_app/nvram/ralink_init.c): the search for the \<open>Default\<close> line, the loop that splits
  each line in its 1024-byte buffer, the special treatment of \<open>SSID1\<close>, and the values that come
  from the \<open>Factory\<close> partition and from \<open>/tmp/wlancryptfile\<close>. The buffer is part of the state,
  because the last step prints its first bytes when the flash cannot be read. A well-formed
  file ends up in the flash, setting by setting.
\<close>

section \<open>The function\<close>

abbreviation (input) BUFSZ :: nat where "BUFSZ \<equiv> 1024"

text \<open>\<open>fgets(buf, BUFSZ, fp)\<close> leaves the rest of the buffer alone.\<close>

definition fgets_buf :: "byte list \<Rightarrow> byte list \<Rightarrow> (byte list \<times> byte list) option" where
  "fgets_buf buf file = map_option (\<lambda>(line, rest). (patch buf 0 (line @ [NUL]), rest)) (fgets BUFSZ file)"

lemma fgets_buf_shorter: "fgets_buf buf file = Some (b, rest) \<Longrightarrow> length rest < length file"
  by (auto simp: fgets_buf_def dest: fgets_shorter)

text \<open>The lines both loops skip.\<close>

definition skip_line :: "byte list \<Rightarrow> bool" where
  "skip_line buf = (buf ! 0 = NEWLINE \<or> buf ! 0 = HASH)"

function find_default :: "byte list \<Rightarrow> byte list \<Rightarrow> (byte list \<times> byte list) option" where
  "find_default buf file =
     (case fgets_buf buf file of
        None \<Rightarrow> None
      | Some (buf, rest) \<Rightarrow>
          if skip_line buf then find_default buf rest
          else if strneq (cstr buf) (lit ''Default'' @ [NEWLINE]) 8 then Some (buf, rest)
          else find_default buf rest)"
  by pat_completeness auto
termination
  by (relation "measure (\<lambda>(buf, file). length file)") (auto dest: fgets_buf_shorter)

declare find_default.simps [simp del]

text \<open>The file of the crypt key: \<open>None\<close> stands for \<open>nvflag = 1\<close>.\<close>

definition read_nvbuf :: "world \<Rightarrow> cstring option" where
  "read_nvbuf w =
     (case files w (lit ''/tmp/wlancryptfile'') of
        None \<Rightarrow> None
      | Some file \<Rightarrow>
          (case fgets 64 file of
             None \<Rightarrow> None
           | Some (line, _) \<Rightarrow> if hd (line @ [NUL]) \<noteq> NUL then Some (cstr (line @ [NUL])) else None))"

text \<open>\<open>SSID1\<close> is rebuilt in a buffer of 30 bytes, with the end of the MAC address behind it if the
  flash reader returned anything but 0.\<close>

definition mac_suffix :: "byte list \<Rightarrow> cstring" where
  "mac_suffix macBuf = [0x20] @ X2 (macBuf ! 4) @ X2 (macBuf ! 5)"

definition new_ssid :: "int \<Rightarrow> byte list \<Rightarrow> cstring \<Rightarrow> cstring outcome" where
  "new_ssid flashReadFlag macBuf p =
     (if length p + 1 > 30 then Fault
      else if flashReadFlag \<noteq> 0 then
        let s = p @ mac_suffix macBuf in if length s + 1 > 30 then Fault else Ret s
      else Ret p)"

text \<open>One line: \<open>None\<close> when it has no \<open>=\<close>, else the name, the value and the buffer as it was left.\<close>

definition split_line :: "byte list \<Rightarrow> (cstring \<times> cstring \<times> byte list) option outcome" where
  "split_line buf =
     (case strchr EQUALS buf of
        None \<Rightarrow> Fault
      | Some None \<Rightarrow> Ret None
      | Some (Some p) \<Rightarrow>
          let buf = buf[length (cstr buf) - 1 := NUL]; buf = buf[p := NUL]
          in Ret (Some (cstr buf, cstr (drop (p + 1) buf), buf)))"

text \<open>The loop over the settings: whether the end of the file was reached, \<open>need_commit\<close>, the
  buffer and the world.\<close>

function renew_loop :: "tenv \<Rightarrow> int \<Rightarrow> int \<Rightarrow> byte list \<Rightarrow> byte list \<Rightarrow> byte list \<Rightarrow> bool \<Rightarrow> world
    \<Rightarrow> (bool \<times> bool \<times> byte list \<times> world) outcome" where
  "renew_loop t mode flashReadFlag macBuf buf file need_commit w =
     (case fgets_buf buf file of
        None \<Rightarrow> Ret (True, need_commit, buf, w)
      | Some (buf, rest) \<Rightarrow>
          if skip_line buf then renew_loop t mode flashReadFlag macBuf buf rest need_commit w
          else obind (split_line buf) (\<lambda>parts.
            case parts of
              None \<Rightarrow> Ret (False, need_commit, buf, w)
            | Some (name, p, buf) \<Rightarrow>
                obind (if strneq name (lit ''SSID1'') 6 then new_ssid flashReadFlag macBuf p else Ret p) (\<lambda>p.
                obind (w_bufset t mode name p w) (\<lambda>(_, w).
                renew_loop t mode flashReadFlag macBuf buf rest True w))))"
  by pat_completeness auto
termination
  by (relation "measure (\<lambda>(t, mode, f, m, buf, file, nc, w). length file)") (auto dest: fgets_buf_shorter)

declare renew_loop.simps [simp del]

text \<open>The formats of the two messages; \<open>macBuf\<close> holds signed characters, which \<open>%02x\<close> prints with
  their sign extended.\<close>

definition fmt_02x :: "byte \<Rightarrow> cstring" where
  "fmt_02x c =
     (let n = unat (scast c :: 32 word); s = map tolower (print_base 16 n)
      in if n < 16 then 0x30 # s else s)"

definition colons :: "cstring list \<Rightarrow> cstring" where
  "colons xs = concat (map (\<lambda>(i, x). if i = 0 then x else 0x3A # x) (enumerate 0 xs))"

definition wan_mac :: "byte list \<Rightarrow> cstring" where
  "wan_mac buf = colons (map (\<lambda>i. fmt_X (unat (buf ! i))) [0, 1, 2, 3, 4, 5]) @ [NEWLINE]"

definition mac_message :: "int \<Rightarrow> byte list \<Rightarrow> cstring" where
  "mac_message flashReadFlag macBuf = [0x0D, NEWLINE] @ lit ''read wlan mac-'' @ fmt_d flashReadFlag @ [EQUALS]
     @ colons (map fmt_02x (take 6 macBuf)) @ [0x0D, NEWLINE]"

definition renew_nvram :: "tenv \<Rightarrow> int \<Rightarrow> cstring \<Rightarrow> world \<Rightarrow> (int \<times> world) outcome" where
  "renew_nvram t mode fname w =
     (let nvbuf = read_nvbuf w in
      case files w fname of
        None \<Rightarrow> Ret (- 1, w)
      | Some file \<Rightarrow>
          (case find_default (fresh (u_heap (te t)) BUFSZ) file of
             None \<Rightarrow> Ret (- 1, printf (lit ''file format error!'' @ [NEWLINE]) w)
           | Some (buf, rest) \<Rightarrow>
               obind (flash_read_wlan_mac (te t) (flash_of w)) (\<lambda>(flashReadFlag, got).
               let macBuf = patch (replicate 7 0) 0 got;
                   w = printf (mac_message flashReadFlag macBuf) w in
               obind (w_init t mode w) (\<lambda>w.
               obind (renew_loop t mode flashReadFlag macBuf buf rest False w) (\<lambda>(fin, need_commit, buf, w).
               if \<not> fin then
                 obind (if need_commit then w_commit t mode w else Ret (0, w)) (\<lambda>(_, w).
                 Ret (- 1, printf (fname @ lit '' file format error!'' @ [NEWLINE]) w))
               else
                 obind (flash_read_mac (te t) (flash_of w)) (\<lambda>(_, got).
                 let buf = patch buf 0 got in
                 obind (w_bufset t RT2860_NVRAM (lit ''WAN_MAC_ADDR'') (wan_mac buf) w) (\<lambda>(_, w).
                 obind (case nvbuf of
                          None \<Rightarrow> Ret (0, w)
                        | Some v \<Rightarrow> w_bufset t RT2860_NVRAM (lit ''wlancryptluotao'') v w) (\<lambda>(_, w).
                 obind (w_commit t mode w) (\<lambda>(_, w).
                 obind (w_close t mode w) (\<lambda>w. Ret (0, w)))))))))))"

section \<open>Well-formed files\<close>

text \<open>A line \<open>name=value\<close> that the buffer holds with its newline and the loop does not skip.\<close>

definition line_ok :: "cstring \<times> cstring \<Rightarrow> bool" where
  "line_ok kv = (case kv of (n, v) \<Rightarrow> is_cstring n \<and> is_cstring v \<and> EQUALS \<notin> set n
     \<and> NEWLINE \<notin> set n \<and> NEWLINE \<notin> set v \<and> hd (n @ [EQUALS]) \<noteq> HASH \<and> length n + length v + 3 \<le> BUFSZ)"

definition comment_ok :: "cstring \<Rightarrow> bool" where
  "comment_ok c = ((c = [] \<or> hd c = HASH) \<and> NEWLINE \<notin> set c \<and> length c + 2 \<le> BUFSZ)"

definition config_text :: "cstring list \<Rightarrow> (cstring \<times> cstring) list \<Rightarrow> byte list" where
  "config_text cs kvs = concat (map (\<lambda>c. c @ [NEWLINE]) cs) @ lit ''Default'' @ [NEWLINE] @ lines_of kvs"

lemma fgets_buf_line:
  assumes "NEWLINE \<notin> set l" and "length l + 2 \<le> BUFSZ"
  shows "fgets_buf buf (l @ NEWLINE # rest) = Some (l @ NEWLINE # NUL # drop (length l + 2) buf, rest)"
  using fgets_line [OF assms(1), of BUFSZ rest] assms(2) by (simp add: fgets_buf_def patch_def)

lemma find_default_ok:
  assumes "\<forall>c \<in> set cs. comment_ok c" and "length buf = BUFSZ"
  shows "\<exists>buf'. find_default buf (concat (map (\<lambda>c. c @ [NEWLINE]) cs) @ lit ''Default'' @ NEWLINE # rest) = Some (buf', rest)
    \<and> length buf' = BUFSZ"
  using assms
proof (induction cs arbitrary: buf)
  case Nil
  have def: "NEWLINE \<notin> set (lit ''Default'')" "length (lit ''Default'') + 2 \<le> BUFSZ" by simp_all
  let ?b = "lit ''Default'' @ NEWLINE # NUL # drop (length (lit ''Default'') + 2) buf"
  have "\<not> skip_line ?b" by (simp add: skip_line_def)
  moreover have "cstr ?b = lit ''Default'' @ [NEWLINE]"
    using cstr_NUL [of "lit ''Default'' @ [NEWLINE]" "drop (length (lit ''Default'') + 2) buf"] by simp
  ultimately show ?case
    using fgets_buf_line [OF def, of buf rest] Nil.prems(2)
    by (subst find_default.simps) (simp add: strneq_def)
next
  case (Cons c cs)
  let ?rest = "concat (map (\<lambda>c. c @ [NEWLINE]) cs) @ lit ''Default'' @ NEWLINE # rest"
  let ?b = "c @ NEWLINE # NUL # drop (length c + 2) buf"
  have c: "NEWLINE \<notin> set c" "length c + 2 \<le> BUFSZ" "c = [] \<or> hd c = HASH"
    using Cons.prems(1) by (simp_all add: comment_ok_def)
  have "skip_line ?b" using c(3) by (cases c) (auto simp: skip_line_def)
  then have "find_default buf (c @ NEWLINE # ?rest) = find_default ?b ?rest"
    using fgets_buf_line [OF c(1,2), of buf ?rest] by (subst find_default.simps) (simp del: lit_Cons)
  then show ?case using Cons.IH [of ?b] Cons.prems c(2) by (simp del: lit_Cons)
qed

lemma split_line_ok:
  assumes "line_ok (n, v)"
  shows "\<exists>buf'. split_line ((n @ EQUALS # v) @ NEWLINE # NUL # junk) = Ret (Some (n, v, buf'))
    \<and> length buf' = length n + length v + 3 + length junk"
proof -
  have c: "is_cstring n" "is_cstring v" "EQUALS \<notin> set n" using assms by (simp_all add: line_ok_def)
  let ?buf = "(n @ EQUALS # v) @ NEWLINE # NUL # junk"
  let ?b1 = "(n @ EQUALS # v) @ NUL # NUL # junk" and ?b2 = "n @ NUL # v @ NUL # NUL # junk"
  have str: "cstr ?buf = n @ EQUALS # v @ [NEWLINE]"
    using cstr_NUL [of "n @ EQUALS # v @ [NEWLINE]" junk] c by simp
  have "strchr EQUALS ?buf = Some (Some (length n))"
    using strchr_hit [OF c(1,3), of "v @ NEWLINE # NUL # junk"] by simp
  moreover have "?buf[length (cstr ?buf) - 1 := NUL] = ?b1"
    unfolding str by (simp add: list_update_append)
  moreover have "?b1[length n := NUL] = ?b2" by (simp add: list_update_append)
  moreover have "cstr ?b2 = n" "cstr (drop (length n + 1) ?b2) = v" using c by simp_all
  ultimately show ?thesis by (simp add: split_line_def Let_def)
qed

text \<open>The setting a line results in.\<close>

definition setting :: "byte list \<Rightarrow> cstring \<times> cstring \<Rightarrow> cstring \<times> cstring" where
  "setting macBuf kv = (case kv of (n, v) \<Rightarrow> (n, if n = lit ''SSID1'' then v @ mac_suffix macBuf else v))"

definition ssid_ok :: "cstring \<times> cstring \<Rightarrow> bool" where
  "ssid_ok kv = (fst kv = lit ''SSID1'' \<longrightarrow> length (snd kv) \<le> 24)"

lemma fmt_02X_byte: "length (X2 b) = 2" "is_cstring (X2 b)"
proof -
  have u: "unat b < 256" using unsigned_less [of b] by simp
  have d: "digit k \<noteq> NUL" if "k < 16" for k
  proof -
    have "unat (of_nat m :: byte) = m mod 2 ^ LENGTH(8)" for m by (rule unat_of_nat)
    then have "unat (digit k) \<noteq> 0" using that by (simp add: digit_def del: of_nat_add)
    then show ?thesis by auto
  qed
  have two: "\<not> unat b < 16 \<Longrightarrow> print_base 16 (unat b) = [digit (unat b div 16), digit (unat b mod 16)]"
    using u by (simp add: print_base_eval)
  show "length (X2 b) = 2" "is_cstring (X2 b)"
    using two u d [of "unat b"] d [of "unat b div 16"] d [of "unat b mod 16"]
    by (auto simp: fmt_02X_def print_base_eval)
qed

lemma mac_suffix_ok: "length (mac_suffix m) = 5" "is_cstring (mac_suffix m)"
  by (simp_all add: mac_suffix_def fmt_02X_byte)

section \<open>Loading the settings\<close>

lemma new_ssid_ok:
  "length v \<le> 24 \<Longrightarrow> f \<noteq> 0 \<Longrightarrow> new_ssid f m v = Ret (v @ mac_suffix m)"
  by (simp add: new_ssid_def mac_suffix_ok Let_def)

lemma setting_value:
  assumes "line_ok (n, v)" and "ssid_ok (n, v)" and "f \<noteq> 0"
  shows "(if strneq n (lit ''SSID1'') 6 then new_ssid f m v else Ret v) = Ret (snd (setting m (n, v)))"
    and "is_cstring (snd (setting m (n, v)))" and "length (snd (setting m (n, v))) < MAX_VALUE_LEN"
proof -
  have "is_cstring n" "is_cstring v" "length v < BUFSZ" using assms(1) by (simp_all add: line_ok_def)
  moreover have "strneq n (lit ''SSID1'') 6 = (n = lit ''SSID1'')"
    using calculation(1) by (intro strneq_eq) simp_all
  ultimately show "(if strneq n (lit ''SSID1'') 6 then new_ssid f m v else Ret v) = Ret (snd (setting m (n, v)))"
    "is_cstring (snd (setting m (n, v)))" "length (snd (setting m (n, v))) < MAX_VALUE_LEN"
    using assms(2,3) new_ssid_ok [of v f m]
    by (simp_all add: setting_def ssid_ok_def mac_suffix_ok del: lit_Cons)
qed

lemma setting_fst [simp]: "fst (setting m kv) = fst kv"
  by (simp add: setting_def split: prod.split)

lemma renew_loop_ok:
  assumes "lib_ok (te t) i (nv w)" and "\<forall>kv \<in> set kvs. line_ok kv \<and> ssid_ok kv" and "f \<noteq> 0"
    and "length (update_all (map (setting m) kvs) (ram (lk (nv w)) i)) \<le> MAX_CACHE_ENTRY" and "length buf = BUFSZ"
  shows "\<exists>s nc' buf'. renew_loop t (int i) f m buf (lines_of kvs) nc w = Ret (True, nc', buf', w\<lparr>nv := s\<rparr>)
    \<and> lib_ok (te t) i s \<and> ram (lk s) i = update_all (map (setting m) kvs) (ram (lk (nv w)) i)
    \<and> kdev (lk s) = flash_of w \<and> shape s = shape (nv w) \<and> length buf' = BUFSZ"
  using assms
proof (induction kvs arbitrary: w nc buf)
  case Nil
  have "renew_loop t (int i) f m buf (lines_of []) nc w = Ret (True, nc, buf, w)"
    by (subst renew_loop.simps) (simp add: fgets_buf_def fgets_def)
  then show ?case using Nil.prems by (intro exI [of _ "nv w"] exI [of _ nc] exI [of _ buf]) simp
next
  case (Cons kv kvs)
  obtain n v where kv: "kv = (n, v)" by (cases kv)
  let ?sv = "snd (setting m (n, v))" and ?ram = "ram (lk (nv w)) i"
  have ok: "line_ok (n, v)" "ssid_ok (n, v)" using Cons.prems(2) kv by auto
  note val = setting_value [OF ok Cons.prems(3), of m]
  have l: "NEWLINE \<notin> set (n @ EQUALS # v)" "length (n @ EQUALS # v) + 2 \<le> BUFSZ" "hd (n @ [EQUALS]) \<noteq> HASH"
    "hd (n @ [EQUALS]) \<noteq> NEWLINE"
    using ok(1) by (cases n; auto simp: line_ok_def)+
  let ?b = "(n @ EQUALS # v) @ NEWLINE # NUL # drop (length (n @ EQUALS # v) + 2) buf"
  obtain b' where b': "split_line ?b = Ret (Some (n, v, b'))" "length b' = BUFSZ"
    using split_line_ok [OF ok(1), of "drop (length (n @ EQUALS # v) + 2) buf"] Cons.prems(5) l(2) by auto
  have "\<not> skip_line ?b" using l(3,4) by (cases n) (auto simp: skip_line_def)
  moreover have st: "setting m kv = (n, ?sv)" by (simp add: kv prod_eq_iff)
  then have upd: "update_all (map (setting m) (kv # kvs)) ?ram
      = update_all (map (setting m) kvs) (AList.update n ?sv ?ram)" by simp
  have "length (AList.update n ?sv ?ram) \<le> MAX_CACHE_ENTRY"
    using Cons.prems(4) length_update_all [of "AList.update n ?sv ?ram" "map (setting m) kvs"] by (simp only: upd)
  from lib_bufset_law [OF Cons.prems(1) val(2,3) this] obtain s1 where s1:
    "lib_nvram_bufset (te t) (nv w) (int i) n ?sv = Ret (0, s1)" "lib_ok (te t) i s1"
    "ram (lk s1) i = AList.update n ?sv ?ram" "kdev (lk s1) = flash_of w" by blast
  have sh: "shape s1 = shape (nv w)" using lib_shape(4) [OF s1(1)] .
  have p1: "lib_ok (te t) i (nv (w\<lparr>nv := s1\<rparr>))" using s1(2) by simp
  have p2: "\<forall>kv \<in> set kvs. line_ok kv \<and> ssid_ok kv" using Cons.prems(2) by simp
  have p4: "length (update_all (map (setting m) kvs) (ram (lk (nv (w\<lparr>nv := s1\<rparr>))) i)) \<le> MAX_CACHE_ENTRY"
    using Cons.prems(4) s1(3) unfolding upd by simp
  obtain s nc' buf' where s: "renew_loop t (int i) f m b' (lines_of kvs) True (w\<lparr>nv := s1\<rparr>)
      = Ret (True, nc', buf', w\<lparr>nv := s1, nv := s\<rparr>)" "lib_ok (te t) i s"
    "ram (lk s) i = update_all (map (setting m) kvs) (ram (lk s1) i)" "kdev (lk s) = kdev (lk s1)" "shape s = shape s1"
    "length buf' = BUFSZ"
    using Cons.IH [OF p1 p2 Cons.prems(3) p4 b'(2), of True] by auto
  ultimately have "renew_loop t (int i) f m buf (lines_of (kv # kvs)) nc w = Ret (True, nc', buf', w\<lparr>nv := s\<rparr>)"
    using fgets_buf_line [OF l(1,2), of buf "lines_of kvs"] b'(1) val(1) s1(1)
    by (subst renew_loop.simps) (simp add: kv w_bufset_def del: lit_Cons)
  then show ?case using s s1 sh upd by auto
qed

text \<open>The readers of the factory data.\<close>

lemma read_factory_ok:
  assumes "factory_ok e d" and "off + n \<le> 0x6000"
  shows "\<exists>got. read_factory e d off n = Ret (int n, got) \<and> length got = n"
proof -
  obtain p where p: "\<forall>rw. mtd_open e d (lit ''Factory'') rw = Ret (Some p)" "sectors_ok d p" "0x6000 \<le> part_size p" "user_ok e"
    using assms(1) by (auto simp: factory_ok_def)
  note D = sectors_okD [OF p(2,4)]
  have "off + n \<le> part_size p" using assms(2) p(3) by simp
  then show ?thesis
    using mtd_read_ok [OF D(1), of off n "u_kheap e"] D(6,7) p(1) assms(2)
    by (auto simp: read_factory_def mtd_lseek_def simp del: lit_Cons)
qed

lemma colons_Cons: "colons (x # xs) = x @ concat (map (\<lambda>x. 0x3A # x) xs)"
proof -
  have "concat (map (\<lambda>(i, x). if i = 0 then x else 0x3A # x) (enumerate (Suc k) xs)) = concat (map (\<lambda>x. 0x3A # x) xs)" for k
    by (induction xs arbitrary: k) auto
  then show ?thesis by (simp add: colons_def)
qed

lemma fmt_X_byte: "length (fmt_X (unat (b :: byte))) \<le> 2 \<and> is_cstring (fmt_X (unat b))"
proof (cases "unat b < 16")
  case True
  then show ?thesis using fmt_02X_byte [of b] by (simp add: fmt_X_def fmt_02X_def)
next
  case False
  then show ?thesis using fmt_02X_byte [of b] by (simp add: fmt_X_def fmt_02X_def)
qed

lemma wan_mac_ok: "is_cstring (wan_mac buf)" "length (wan_mac buf) \<le> 18"
  using fmt_X_byte [of "buf ! 0"] fmt_X_byte [of "buf ! 1"] fmt_X_byte [of "buf ! 2"] fmt_X_byte [of "buf ! 3"]
    fmt_X_byte [of "buf ! 4"] fmt_X_byte [of "buf ! 5"]
  by (auto simp: wan_mac_def colons_Cons)

text \<open>What the command stores: the file's settings, the address of the WAN port and the key if
  there is one.\<close>

definition renew_settings :: "byte list \<Rightarrow> byte list \<Rightarrow> cstring option \<Rightarrow> (cstring \<times> cstring) list
    \<Rightarrow> (cstring \<times> cstring) list" where
  "renew_settings wlan wan nvbuf kvs = map (setting (wlan @ [0])) kvs @ [(lit ''WAN_MAC_ADDR'', wan_mac wan)]
     @ (case nvbuf of None \<Rightarrow> [] | Some v \<Rightarrow> [(lit ''wlancryptluotao'', v)])"

lemma read_nvbuf_ok: "read_nvbuf w = Some v \<Longrightarrow> is_cstring v \<and> length v < MAX_VALUE_LEN"
proof -
  assume "read_nvbuf w = Some v"
  then obtain contents line rest where f: "fgets 64 contents = Some (line, rest)" "v = cstr (line @ [NUL])"
    by (auto simp: read_nvbuf_def split: option.splits if_splits)
  have "length line \<le> 63" using f(1) read_line_bound [of 63 contents line rest] by (auto simp: fgets_def split: if_splits)
  moreover have "length v \<le> length (line @ [NUL])" using f(2) unfolding cstr_def by (simp only: length_takeWhile_le)
  ultimately show ?thesis using f(2) by simp
qed

text \<open>The last two stores and the commit.\<close>

lemma finish_ok:
  assumes l: "lib_ok e 0 s" and bl: "blocks_at (lfb s)"
    and kvs: "\<forall>(n, v) \<in> set kvs. is_cstring v \<and> length v < MAX_VALUE_LEN"
    and room: "length (update_all kvs (ram (lk s) 0)) \<le> MAX_CACHE_ENTRY"
    and st: "storable 0 (update_all kvs (ram (lk s) 0))"
  shows "\<exists>s1 s2 s3. put_all (\<lambda>s. lib_nvram_bufset e s 0) s kvs = Ret s1 \<and> lib_nvram_commit e s1 0 = Ret (0, s2)
    \<and> lib_nvram_close e s2 0 = Ret s3 \<and> attachable e 0 s3 \<and> shape s3 = shape s
    \<and> ram (lk s3) 0 = update_all kvs (ram (lk s) 0) \<and> rom (kdev (lk s3)) 0 = Some (update_all kvs (ram (lk s) 0))"
proof -
  obtain s1 where s1: "put_all (\<lambda>s. lib_nvram_bufset e s 0) s kvs = Ret s1" "lib_ok e 0 s1"
    "ram (lk s1) 0 = update_all kvs (ram (lk s) 0)"
    using lib.put_all_law [OF l kvs room] by auto
  have "put_all (\<lambda>s. lib_nvram_bufset e s 0) s kvs = Ret s1 \<Longrightarrow> shape s1 = shape s" for s s1
    by (induction kvs arbitrary: s) (auto simp: outcome_simps dest!: lib_shape(4))
  then have sh1: "shape s1 = shape s" using s1(1) by blast
  obtain s2 where s2: "lib_nvram_commit e s1 0 = Ret (0, s2)" "lib_ok e 0 s2" "ram (lk s2) 0 = ram (lk s1) 0"
    "rom (kdev (lk s2)) 0 = Some (ram (lk s1) 0)" "\<not> dirty (lfb s2 ! 0)"
    using lib_commit_law [OF s1(2)] st s1(3) by auto
  have sh2: "shape s2 = shape s" using lib_shape(2) [OF s2(1)] sh1 by simp
  have bl2: "blocks_at (lfb s2)" using shape_blocks_at [OF sh2 bl] .
  obtain s3 where "lib_nvram_close e s2 0 = Ret s3" "attachable e 0 s3" "lk s3 = lk s2" "shape s3 = shape s2"
    using session_close [OF s2(2) bl2 _ s2(5)] s2(3) s1(3) st by auto
  then show ?thesis using s1 s2 sh2 by auto
qed

section \<open>Properties\<close>

text \<open>C20: loading a well-formed file (comments, the \<open>Default\<close> line, then \<open>name=value\<close> lines) succeeds
  and the flash then decodes to the old list with every setting of the file stored in order,
  \<open>SSID1\<close> extended with the end of the MAC address, and the WAN address (and the key, if a
  file provides one) behind them; no file is changed.\<close>

theorem renew_nvram_persists:
  assumes at: "attachable (te t) 0 (nv w)" and fac: "factory_ok (te t) (flash_of w)"
    and fil: "files w fname = Some (config_text cs kvs)" and cs: "\<forall>c \<in> set cs. comment_ok c"
    and kvs: "\<forall>kv \<in> set kvs. line_ok kv \<and> ssid_ok kv"
    and macs: "flash_read_wlan_mac (te t) (flash_of w) = Ret (6, wlan)" "flash_read_mac (te t) (flash_of w) = Ret (6, wan)"
    and al: "al = update_all (renew_settings wlan wan (read_nvbuf w) kvs) (ram (lk (nv w)) 0)"
    and room: "length al \<le> MAX_CACHE_ENTRY" and st: "storable 0 al"
  shows "\<exists>w'. renew_nvram t RT2860_NVRAM fname w = Ret (0, w') \<and> rom (flash_of w') 0 = Some al
    \<and> attachable (te t) 0 (nv w') \<and> files w' = files w"
proof -
  let ?m = "wlan @ [0]" and ?ram = "ram (lk (nv w)) 0"
  let ?last = "(lit ''WAN_MAC_ADDR'', wan_mac wan)
      # (case read_nvbuf w of None \<Rightarrow> [] | Some v \<Rightarrow> [(lit ''wlancryptluotao'', v)])"
  have len6: "length wlan = 6" "length wan = 6"
    using read_factory_ok [OF fac, of "0x04" 6] read_factory_ok [OF fac, of "0x2E" 6] macs
    by (auto simp: flash_read_wlan_mac_def flash_read_mac_def)
  then have mac: "patch (replicate 7 0) 0 wlan = ?m" by (simp add: patch_def)
  have al': "al = update_all ?last (update_all (map (setting ?m) kvs) ?ram)"
    by (simp add: al renew_settings_def update_all_append del: lit_Cons)
  obtain buf where buf: "find_default (fresh (u_heap (te t)) BUFSZ) (config_text cs kvs) = Some (buf, lines_of kvs)"
    "length buf = BUFSZ"
    using find_default_ok [OF cs, of "fresh (u_heap (te t)) BUFSZ" "lines_of kvs"]
    by (auto simp: config_text_def simp del: lit_Cons)
  define w1 where "w1 = printf (mac_message 6 ?m) w"
  have w1: "nv w1 = nv w" "files w1 = files w" by (simp_all add: w1_def printf_def)
  obtain s1 where s1: "lib_nvram_init (te t) (nv w) 0 = Ret s1" "session (te t) 0 s1"
    "ram (lk s1) 0 = ?ram" "kdev (lk s1) = flash_of w"
    using session_init [OF at] by auto
  have init: "w_init t 0 w1 = Ret (w1\<lparr>nv := s1\<rparr>)" using s1(1) w1(1) by (simp add: w_init_def)
  have "length (update_all (map (setting ?m) kvs) (ram (lk s1) 0)) \<le> MAX_CACHE_ENTRY"
    using room al' length_update_all [of "update_all (map (setting ?m) kvs) ?ram" ?last] s1(3) by simp
  then obtain s2 nc buf2 where s2: "renew_loop t 0 6 ?m buf (lines_of kvs) False (w1\<lparr>nv := s1\<rparr>)
      = Ret (True, nc, buf2, w1\<lparr>nv := s2\<rparr>)" "lib_ok (te t) 0 s2"
    "ram (lk s2) 0 = update_all (map (setting ?m) kvs) ?ram" "kdev (lk s2) = flash_of w" "shape s2 = shape s1"
    "length buf2 = BUFSZ"
    using renew_loop_ok [of t 0 "w1\<lparr>nv := s1\<rparr>" kvs 6 ?m buf False] s1(2,3,4) kvs buf(2) by (auto simp: session_def)
  have "blocks_at (lfb s2)" using s1(2) shape_blocks_at [OF s2(5)] by (simp add: session_def)
  moreover have "\<forall>(n, v) \<in> set ?last. is_cstring v \<and> length v < MAX_VALUE_LEN"
    using wan_mac_ok [of wan] read_nvbuf_ok [of w] by (auto split: option.splits)
  ultimately obtain s3 s4 s5 where s3: "put_all (\<lambda>s. lib_nvram_bufset (te t) s 0) s2 ?last = Ret s3"
    "lib_nvram_commit (te t) s3 0 = Ret (0, s4)" "lib_nvram_close (te t) s4 0 = Ret s5" "attachable (te t) 0 s5"
    "rom (kdev (lk s5)) 0 = Some al"
    using finish_ok [OF s2(2), of ?last] room st al' s2(3) by (auto simp del: lit_Cons)
  have wan: "wan_mac (patch buf2 0 wan) = wan_mac wan"
    using len6(2) by (simp add: wan_mac_def patch_def nth_append)
  have "renew_nvram t 0 fname w = Ret (0, w1\<lparr>nv := s5\<rparr>)"
  proof (cases "read_nvbuf w")
    case None
    then show ?thesis
      using fil buf(1) macs mac init s2(1,4) s3 wan
      by (auto simp: renew_nvram_def Let_def w_bufset_def w_commit_def w_close_def outcome_simps simp flip: w1_def simp del: lit_Cons)
  next
    case (Some v)
    then show ?thesis
      using fil buf(1) macs mac init s2(1,4) s3 wan
      by (auto simp: renew_nvram_def Let_def w_bufset_def w_commit_def w_close_def outcome_simps simp flip: w1_def simp del: lit_Cons)
  qed
  then show ?thesis using s3(4,5) w1(2) by auto
qed

definition file_world :: world where
  "file_world = board_world\<lparr>files := (\<lambda>f. if f = [0x66] then Some (config_text [[]] [([0x61], [0x31])]) else None)\<rparr>"

theorem renew_nvram_persists_witness:
  "\<exists>w' al. renew_nvram board_tenv 0 [0x66] file_world = Ret (0, w') \<and> rom (flash_of w') 0 = Some al
    \<and> map_of al [0x61] = Some [0x31]"
proof -
  have fw: "nv file_world = nv board_world" "files file_world [0x66] = Some (config_text [[]] [([0x61], [0x31])])"
    "read_nvbuf file_world = None"
    by (simp_all add: file_world_def read_nvbuf_def)
  have fac: "factory_ok (te board_tenv) (flash_of file_world)"
    by (simp add: fw board_flash board_factory_ok)
  obtain wlan wan where macs: "flash_read_wlan_mac (te board_tenv) (flash_of file_world) = Ret (6, wlan)"
    "flash_read_mac (te board_tenv) (flash_of file_world) = Ret (6, wan)"
    using read_factory_ok [OF fac, of "0x04" 6] read_factory_ok [OF fac, of "0x2E" 6]
    by (auto simp: flash_read_wlan_mac_def flash_read_mac_def)
  have at: "attachable (te board_tenv) 0 (nv file_world)" unfolding fw(1) by (rule board_attachable) simp
  have ram: "ram (lk (nv file_world)) 0 = []" by (simp add: fw board_world_def board_knv_props)
  let ?al = "[([0x61], [0x31]), (lit ''WAN_MAC_ADDR'', wan_mac wan)]"
  have al: "?al = update_all (renew_settings wlan wan (read_nvbuf file_world) [([0x61], [0x31])]) (ram (lk (nv file_world)) 0)"
    unfolding ram fw(3) by (simp add: renew_settings_def setting_def)
  have st: "storable 0 ?al" using wan_mac_ok [of wan] by (simp add: storable_def kv_ok_def layout_def)
  have "\<exists>w'. renew_nvram board_tenv 0 [0x66] file_world = Ret (0, w') \<and> rom (flash_of w') 0 = Some ?al
    \<and> attachable (te board_tenv) 0 (nv w') \<and> files w' = files file_world"
    by (rule renew_nvram_persists [OF at fac fw(2) _ _ macs al _ st]) (simp_all add: comment_ok_def line_ok_def ssid_ok_def)
  then show ?thesis by auto
qed

end
