(* ===== verification/ToolMain.thy ===== *)
theory ToolMain
  imports RenewNvram
begin

text \<open>
  The dispatch of the command-line tool (\<open>main\<close> of user/rt2880_app/nvram/ralink_init.c): the name
  the program was started under selects \<open>nvram_get\<close> or \<open>nvram_set\<close>, otherwise the arguments select
  the command and the block. The bounds of the comparisons all include the terminator of the
  constant, so each comparison is equality, for some without regard to case.
\<close>

text \<open>\<open>usage\<close> ends the program with status 0 (its texts are compiled out).\<close>

definition usage :: "world \<Rightarrow> (int \<times> world) outcome" where
  "usage w = Ret (0, w)"

text \<open>\<open>argv[2]\<close> names the first device.\<close>

definition is_2860 :: "cstring \<Rightarrow> bool" where
  "is_2860 a = (strneq a (lit ''2860'') 5 \<or> strncaseeq a (lit ''rt2860'') 7)"

text \<open>The result of a command is dropped: after it, \<open>main\<close> returns 0.\<close>

definition then_0 :: "(int \<times> world) outcome \<Rightarrow> (int \<times> world) outcome" where
  "then_0 r = obind r (\<lambda>(_, w). Ret (0, w))"

definition w_clear :: "tenv \<Rightarrow> int \<Rightarrow> world \<Rightarrow> (int \<times> world) outcome" where
  "w_clear t mode w = obind (lib_nvram_clear (te t) (nv w) mode) (\<lambda>(r, s). Ret (r, w\<lparr>nv := s\<rparr>))"

text \<open>\<open>renew\<close> with another device name does nothing, unlike the other commands.\<close>

definition main :: "tenv \<Rightarrow> cstring list \<Rightarrow> world \<Rightarrow> (int \<times> world) outcome" where
  "main t argv w =
     (if length argv < 2 then usage w
      else
        let cmd = basename (argv ! 0); a1 = argv ! 1 in
        if strneq cmd (lit ''nvram_get'') 10 then ra_nv_get t argv w
        else if strneq cmd (lit ''nvram_set'') 10 then ra_nv_set t argv w
        else if length argv = 2 then
          if strneq a1 (lit ''rt2860_nvram_show'') 18 then then_0 (nvram_show t RT2860_NVRAM w)
          else if strneq a1 (lit ''cert_nvram_show'') 16 then then_0 (nvram_show t CERT_NVRAM w)
          else usage w
        else if length argv = 3 then
          if strncaseeq a1 (lit ''gen'') 4 \<or> strncaseeq a1 (lit ''make_wireless_config'') 21 then
            if is_2860 (argv ! 2) then then_0 (gen_config t RT2860_NVRAM w) else usage w
          else if strncaseeq a1 (lit ''show'') 5 then
            if is_2860 (argv ! 2) then then_0 (nvram_show t RT2860_NVRAM w) else usage w
          else if strncaseeq a1 (lit ''clear'') 6 then
            if is_2860 (argv ! 2) then then_0 (w_clear t RT2860_NVRAM w) else usage w
          else usage w
        else if length argv = 4 then
          if strncaseeq a1 (lit ''renew'') 6 then
            if is_2860 (argv ! 2) then then_0 (renew_nvram t RT2860_NVRAM (argv ! 3) w) else Ret (0, w)
          else usage w
        else usage w)"

end
