(* ===== verification/WebValues.thy ===== *)
theory WebValues
  imports CText
begin

text \<open>
  The value lists of the web server (\<open>user/goahead/src_tongyong/utils.c\<close>): a setting with one
  value per wireless network or per rule is one string with the values separated by a character,
  a semicolon in most callers. \<open>getNthValueSafe\<close> and \<open>getNthValue\<close> read one value,
  \<open>setNthValue\<close> replaces one, \<open>deleteNthValueMulti\<close> removes several and
  \<open>getValueCount\<close> counts them.

  A \<open>char *\<close> is the byte list from the pointer to the end of the allocation, terminator included;
  positions in it are offsets. The reference definitions are \<open>parts\<close>, the list of values a string
  denotes, and \<open>join\<close>, the string of a list of values.
\<close>

section \<open>Reference: separated values\<close>

fun parts :: "'a \<Rightarrow> 'a list \<Rightarrow> 'a list list" where
  "parts d [] = [[]]"
| "parts d (x # xs) =
     (if x = d then [] # parts d xs else (x # hd (parts d xs)) # tl (parts d xs))"

fun join :: "'a \<Rightarrow> 'a list list \<Rightarrow> 'a list" where
  "join d [] = []"
| "join d [f] = f"
| "join d (f # g # fs) = f @ d # join d (g # fs)"

lemma parts_nonempty [simp]: "parts d s \<noteq> []"
  by (cases s) auto

lemma parts_free: "\<forall>f \<in> set (parts d s). d \<notin> set f"
proof (induction s)
  case (Cons x s)
  then show ?case by (cases "parts d s") auto
qed simp

lemma set_parts: "\<forall>f \<in> set (parts d s). set f \<subseteq> set s"
proof (induction s)
  case (Cons x s)
  then show ?case by (cases "parts d s") auto
qed simp

lemma join_Cons: "join d (f # fs) = (if fs = [] then f else f @ d # join d fs)"
  by (cases fs) auto

lemma join_parts [simp]: "join d (parts d s) = s"
proof (induction s)
  case (Cons x s)
  then show ?case by (cases "parts d s") (auto simp: join_Cons split: if_splits)
qed simp

lemma parts_simple: "d \<notin> set f \<Longrightarrow> parts d f = [f]"
  by (induction f) auto

lemma parts_append: "d \<notin> set f \<Longrightarrow> parts d (f @ d # s) = f # parts d s"
  by (induction f) auto

lemma parts_join: "fs \<noteq> [] \<Longrightarrow> \<forall>f \<in> set fs. d \<notin> set f \<Longrightarrow> parts d (join d fs) = fs"
proof (induction fs rule: join.induct)
  case (3 d f g fs)
  then have "parts d (f @ d # join d (g # fs)) = f # parts d (join d (g # fs))"
    by (intro parts_append) simp
  with 3 show ?case by simp
qed (simp_all add: parts_simple)

lemma is_cstring_join: "is_cstring (join d fs) = ((\<forall>f \<in> set fs. is_cstring f) \<and> (2 \<le> length fs \<longrightarrow> d \<noteq> NUL))"
  by (induction d fs rule: join.induct) auto

lemma length_join: "length (join d fs) = sum_list (map length fs) + (length fs - 1)"
  by (induction d fs rule: join.induct) auto

lemma set_join: "set (join d fs) \<subseteq> insert d (\<Union>(set ` set fs))"
  by (induction d fs rule: join.induct) auto

section \<open>Reading one value\<close>

text \<open>\<open>strchr(mem + p, c)\<close> as an offset in the block.\<close>

definition find_from :: "byte \<Rightarrow> byte list \<Rightarrow> nat \<Rightarrow> nat option outcome" where
  "find_from c mem p =
     (case strchr c (drop p mem) of None \<Rightarrow> Fault | Some r \<Rightarrow> Ret (map_option ((+) p) r))"

lemma find_from_bound:
  assumes "find_from c mem p = Ret (Some e)"
  shows "p \<le> e \<and> e < length mem"
  using assms by (auto simp: find_from_def split: option.splits dest!: strchr_Some_Some)

text \<open>The loop of \<open>getNthValueSafe\<close>: \<open>b\<close> and \<open>e\<close> are the pointers \<open>begin\<close> and \<open>end\<close>.\<close>

function nth_loop :: "int \<Rightarrow> byte list \<Rightarrow> byte \<Rightarrow> int \<Rightarrow> nat \<Rightarrow> nat option \<Rightarrow> (int \<times> nat \<times> nat option) outcome" where
  "nth_loop index value delimit i b e =
     (case e of
        None \<Rightarrow> Ret (i, b, None)
      | Some p \<Rightarrow>
          if i < index then
            (case find_from delimit value (p + 1) of
               Ret e' \<Rightarrow> nth_loop index value delimit (i + 1) (p + 1) e'
             | Fault \<Rightarrow> Fault | Blocked \<Rightarrow> Blocked)
          else Ret (i, b, e))"
  by pat_completeness auto
termination
  by (relation "measure (\<lambda>(index, value, delimit, i, b, e).
        case e of None \<Rightarrow> 0 | Some p \<Rightarrow> Suc (length value - p))")
    (auto split: option.splits dest!: find_from_bound)

declare nth_loop.simps [simp del]

definition getNthValueSafe ::
    "int \<Rightarrow> byte list option \<Rightarrow> byte \<Rightarrow> byte list option \<Rightarrow> int \<Rightarrow> (int \<times> byte list option) outcome" where
  "getNthValueSafe index value delimit result len =
     (case (value, result) of
        (Some mem, Some buf) \<Rightarrow>
          if len = 0 then Ret (- 1, result)
          else obind (find_from delimit mem 0) (\<lambda>e.
               obind (nth_loop index mem delimit 0 0 e) (\<lambda>(i, b, e).
               obind (case e of
                        Some p \<Rightarrow> Ret (Some p)
                      | None \<Rightarrow> if i = index then find_from NUL mem b else Ret None) (\<lambda>e.
               case e of
                 None \<Rightarrow> Ret (- 1, result)
               | Some p \<Rightarrow>
                   let result_len = min (len - 1) (int p - int b) in
                   if result_len < 0 \<or> length buf < nat result_len + 1 then Fault
                   else Ret (0, Some (patch buf 0 (window mem b (nat result_len) @ [NUL]))))))
      | _ \<Rightarrow> Ret (- 1, result))"

text \<open>\<open>getNthValue\<close> cuts the string with \<open>strtok\<close>: a run of separators counts as one, and the
  separator behind each value it passes is overwritten with a NUL. \<open>tok_loop\<close> gives the value
  found and the bytes left in the place of the string.\<close>

fun tok_loop :: "nat \<Rightarrow> cstring \<Rightarrow> cstring option \<times> byte list" where
  "tok_loop n s =
     (let d = takeWhile ((=) SEMI) s; t = dropWhile ((=) SEMI) s;
          w = takeWhile ((\<noteq>) SEMI) t; r = dropWhile ((\<noteq>) SEMI) t in
      if t = [] then (None, s)
      else case n of
          0 \<Rightarrow> (Some w, d @ w @ (if r = [] then [] else NUL # tl r))
        | Suc n \<Rightarrow> if r = [] then (None, s)
            else (let (res, m) = tok_loop n (tl r) in (res, d @ w @ NUL # m)))"

definition getNthValue :: "int \<Rightarrow> cstring option \<Rightarrow> cstring option \<times> byte list option" where
  "getNthValue index values =
     (case values of
        None \<Rightarrow> (None, None)
      | Some s \<Rightarrow> (let (tok, m) = tok_loop (nat index) s in
          (Some (case tok of None \<Rightarrow> [] | Some t \<Rightarrow> t), Some m)))"

definition checkSemicolon :: "byte list \<Rightarrow> int outcome" where
  "checkSemicolon str =
     (case strchr SEMI str of None \<Rightarrow> Fault | Some None \<Rightarrow> Ret 0 | Some (Some _) \<Rightarrow> Ret 1)"

text \<open>\<open>getValueCount\<close>: the loop tests each character and then looks at the next one.\<close>

fun count_loop :: "byte list \<Rightarrow> int \<Rightarrow> int outcome" where
  "count_loop (x # y # mem) cnt =
     (if x = NUL then Ret cnt else count_loop (y # mem) (if y = SEMI then cnt + 1 else cnt))"
| "count_loop [x] cnt = (if x = NUL then Ret cnt else Fault)"
| "count_loop [] cnt = Fault"

definition getValueCount :: "byte list option \<Rightarrow> int outcome" where
  "getValueCount values =
     (case values of None \<Rightarrow> Ret 0 | Some mem \<Rightarrow> obind (count_loop mem 0) (\<lambda>cnt. Ret (cnt + 1)))"

lemma find_field:
  assumes "\<forall>f \<in> set (f # fs). d \<notin> set f \<and> is_cstring f" and "d \<noteq> NUL"
  shows "find_from d (pre @ join d (f # fs) @ NUL # r) (length pre)
    = Ret (if fs = [] then None else Some (length pre + length f))"
  using assms strchr_miss [of f d r] strchr_hit [of f d "join d fs @ NUL # r"]
  by (simp add: find_from_def join_Cons)

lemma nth_loop_ok:
  assumes "\<forall>f \<in> set fs. d \<notin> set f \<and> is_cstring f" and "d \<noteq> NUL" and "fs \<noteq> []"
    and "k = min (nat (index - i)) (length fs - 1)"
  shows "\<exists>p. pre @ join d fs @ NUL # r = p @ join d (drop k fs) @ NUL # r
    \<and> nth_loop index (pre @ join d fs @ NUL # r) d i (length pre)
        (if tl fs = [] then None else Some (length pre + length (hd fs)))
      = Ret (i + int k, length p,
          if drop (Suc k) fs = [] then None else Some (length p + length (fs ! k)))"
  using assms
proof (induction fs arbitrary: pre i k)
  case (Cons f fs)
  show ?case
  proof (cases "fs = [] \<or> index \<le> i")
    case True
    then have "k = 0" using Cons.prems(4) by auto
    with True show ?thesis by (intro exI [of _ pre]) (auto simp: nth_loop.simps)
  next
    case False
    let ?pre = "pre @ f @ [d]"
    let ?v = "pre @ join d (f # fs) @ NUL # r"
    have v: "?v = ?pre @ join d fs @ NUL # r" using False by (simp add: join_Cons)
    obtain g gs where fs: "fs = g # gs" using False by (cases fs) auto
    have find: "find_from d ?v (length pre + length f + 1)
        = Ret (if tl fs = [] then None else Some (length ?pre + length (hd fs)))"
      using find_field [of g gs d ?pre r] Cons.prems(1,2) unfolding v fs by simp
    let ?k = "min (nat (index - (i + 1))) (length fs - 1)"
    have k: "k = Suc ?k" using Cons.prems(4) False fs by auto
    obtain p where p: "?pre @ join d fs @ NUL # r = p @ join d (drop ?k fs) @ NUL # r"
      "nth_loop index (?pre @ join d fs @ NUL # r) d (i + 1) (length ?pre)
          (if tl fs = [] then None else Some (length ?pre + length (hd fs)))
        = Ret (i + 1 + int ?k, length p, if drop (Suc ?k) fs = [] then None else Some (length p + length (fs ! ?k)))"
      using Cons.IH [of ?k "i + 1" ?pre] Cons.prems(1,2) fs by auto
    have "nth_loop index ?v d i (length pre) (Some (length pre + length f))
        = nth_loop index ?v d (i + 1) (length ?pre) (if tl fs = [] then None else Some (length ?pre + length (hd fs)))"
      using False find by (subst nth_loop.simps) simp
    with p False show ?thesis unfolding v k by (intro exI [of _ p]) simp
  qed
qed simp

lemma getNthValueSafe_ok:
  assumes v: "is_cstring v" and d: "d \<noteq> NUL" and len: "0 < len" "nat len \<le> length buf"
  shows "getNthValueSafe index (Some (v @ NUL # r)) d (Some buf) len =
     Ret (if (if 0 \<le> index then nat index < length (parts d v) else 2 \<le> length (parts d v))
       then (0, Some (patch buf 0 (take (nat (len - 1)) (parts d v ! nat index) @ [NUL])))
       else (- 1, Some buf))"
proof -
  let ?fs = "parts d v"
  define k where "k = min (nat index) (length ?fs - 1)"
  then have k0: "k = min (nat (index - 0)) (length ?fs - 1)" by simp
  have fs: "\<forall>f \<in> set ?fs. d \<notin> set f \<and> is_cstring f"
    using parts_free [of d v] set_parts [of d v] v unfolding is_cstring_def by blast
  have ne: "length ?fs \<noteq> 0" by simp
  obtain f gs where f: "?fs = f # gs" by (cases ?fs) auto
  have find: "find_from d (v @ NUL # r) 0 = Ret (if tl ?fs = [] then None else Some (length (hd ?fs)))"
    using find_field [of f gs d "[]" r] fs d join_parts [of d v] unfolding f by simp
  obtain p where p: "v @ NUL # r = p @ join d (drop k ?fs) @ NUL # r"
    "nth_loop index (v @ NUL # r) d 0 0 (if tl ?fs = [] then None else Some (length (hd ?fs)))
       = Ret (int k, length p, if drop (Suc k) ?fs = [] then None else Some (length p + length (?fs ! k)))"
    using nth_loop_ok [OF fs d parts_nonempty k0, of "[]" r, unfolded append_Nil list.size(3) add_0 join_parts]
    by blast
  have kl: "k < length ?fs" using ne unfolding k_def by linarith
  then have dk: "drop k ?fs = ?fs ! k # drop (Suc k) ?fs" by (simp add: Cons_nth_drop_Suc)
  have last: "find_from NUL (v @ NUL # r) (length p) = Ret (Some (length p + length (?fs ! k)))"
    if "drop (Suc k) ?fs = []"
    using strchr_NUL [of "?fs ! k" r] fs kl that dk by (simp add: p(1) find_from_def)
  have win: "window (v @ NUL # r) (length p) n = take n (?fs ! k)" if "n \<le> length (?fs ! k)" for n
    using that unfolding p(1) dk by (simp add: window_def join_Cons)
  have minlen: "nat (min (len - 1) (int (length (?fs ! k)))) = min (nat (len - 1)) (length (?fs ! k))"
    using len by auto
  have copy: "window (v @ NUL # r) (length p) (min (nat (len - 1)) (length (?fs ! k))) = take (nat (len - 1)) (?fs ! k)"
    by (simp add: win min_def)
  show ?thesis
  proof (cases "drop (Suc k) ?fs = [] \<and> int k \<noteq> index")
    case True
    then have "\<not> (if 0 \<le> index then nat index < length ?fs else 2 \<le> length ?fs)"
      using ne kl unfolding k_def by (auto split: if_splits)
    with True find p(2) len show ?thesis by (simp add: getNthValueSafe_def)
  next
    case False
    then have c: "if 0 \<le> index then nat index < length ?fs else 2 \<le> length ?fs" "k = nat index"
      using ne kl unfolding k_def by (auto split: if_splits)
    have "obind (case if drop (Suc k) ?fs = [] then None else Some (length p + length (?fs ! k)) of
        Some q \<Rightarrow> Ret (Some q) | None \<Rightarrow> if int k = index then find_from NUL (v @ NUL # r) (length p) else Ret None) g
      = g (Some (length p + length (?fs ! k)))" for g :: "nat option \<Rightarrow> (int \<times> byte list option) outcome"
      using last False by auto
    then have "getNthValueSafe index (Some (v @ NUL # r)) d (Some buf) len
        = (let result_len = min (len - 1) (int (length p + length (?fs ! k)) - int (length p)) in
           if result_len < 0 \<or> length buf < nat result_len + 1 then Fault
           else Ret (0, Some (patch buf 0 (window (v @ NUL # r) (length p) (nat result_len) @ [NUL]))))"
      using find p(2) len(1) by (simp add: getNthValueSafe_def)
    moreover have "int (length p + length (?fs ! k)) - int (length p) = int (length (?fs ! k))" by simp
    moreover have "\<not> (min (len - 1) (int (length (?fs ! k))) < 0
        \<or> length buf < nat (min (len - 1) (int (length (?fs ! k)))) + 1)" using len by linarith
    ultimately have "getNthValueSafe index (Some (v @ NUL # r)) d (Some buf) len
        = Ret (0, Some (patch buf 0 (take (nat (len - 1)) (?fs ! k) @ [NUL])))"
      by (simp only: Let_def if_False minlen copy)
    then show ?thesis unfolding c(2) if_P [OF c(1)] .
  qed
qed

section \<open>Replacing one value\<close>

text \<open>\<open>setNthValue\<close>: the values are copied to eight rows of 256 bytes. A copy that leaves its row is
  an access outside the array it names.\<close>

function copy_values :: "byte list \<Rightarrow> nat \<Rightarrow> nat \<Rightarrow> nat option \<Rightarrow> byte list list \<Rightarrow> (nat \<times> nat \<times> byte list list) outcome" where
  "copy_values old i p q buf =
     (case q of
        None \<Rightarrow> Ret (i, p, buf)
      | Some e \<Rightarrow>
          if i < 8 then
            (if 256 < e - p then Fault
             else case find_from SEMI old (e + 1) of
                 Ret q' \<Rightarrow> copy_values old (i + 1) (e + 1) q' (buf[i := patch (buf ! i) 0 (window old p (e - p))])
               | Fault \<Rightarrow> Fault | Blocked \<Rightarrow> Blocked)
          else Ret (i, p, buf))"
  by pat_completeness auto
termination
  by (relation "measure (\<lambda>(old, i, p, q, buf). 8 - i)") auto

declare copy_values.simps [simp del]

text \<open>\<open>strcat\<close> on the static array \<open>ret\<close> of 2048 bytes.\<close>

definition ret_cat :: "cstring \<Rightarrow> cstring \<Rightarrow> cstring outcome" where
  "ret_cat ret s = (if 2048 < length ret + length s + 1 then Fault else Ret (ret @ s))"

fun cat_rows :: "byte list list \<Rightarrow> cstring \<Rightarrow> cstring outcome" where
  "cat_rows [] ret = Ret ret"
| "cat_rows (row # buf) ret =
     obind (ret_cat ret [SEMI]) (\<lambda>ret. obind (ret_cat ret (cstr row)) (cat_rows buf))"

definition setNthValue :: "int \<Rightarrow> byte list \<Rightarrow> cstring \<Rightarrow> cstring outcome" where
  "setNthValue index old_values new_value =
     obind (find_from SEMI old_values 0) (\<lambda>q.
     obind (copy_values old_values 0 0 q (replicate 8 (replicate 256 NUL))) (\<lambda>(i, p, buf).
     obind (find_from NUL old_values p) (\<lambda>e. case e of
       None \<Rightarrow> Fault
     | Some e \<Rightarrow>
         if 8 \<le> i \<or> 256 < e - p + 1 then Fault
         else if index < 0 \<or> 8 \<le> index then Fault
         else let buf = buf[i := patch (buf ! i) 0 (window old_values p (e - p) @ [NUL])];
                  buf = buf[nat index := take 256 (new_value @ replicate 256 NUL)];
                  m = max i (nat index) in
           if NUL \<notin> set (buf ! 0) then Fault
           else obind (ret_cat [] (cstr (buf ! 0))) (cat_rows (take m (drop 1 buf))))))"

text \<open>Reference: the list with one value replaced, filled up with empty values when it is too short.\<close>

definition set_field :: "nat \<Rightarrow> 'a list list \<Rightarrow> 'a list \<Rightarrow> 'a list list" where
  "set_field n fs v = (fs @ replicate (Suc n - length fs) [])[n := v]"

lemma nth_set_field:
  "j < length (set_field n fs v) \<Longrightarrow> set_field n fs v ! j = (if j = n then v else if j < length fs then fs ! j else [])"
  by (auto simp: set_field_def nth_list_update nth_append)

lemma length_set_field: "length (set_field n fs v) = max (length fs) (Suc n)"
  by (auto simp: set_field_def)

lemma set_field_set: "set (set_field n fs v) \<subseteq> {v, []} \<union> set fs"
  using set_update_subset_insert [of "fs @ replicate (Suc n - length fs) []" n v]
  by (auto simp: set_field_def split: if_splits)

definition row :: "cstring \<Rightarrow> byte list" where
  "row f = f @ replicate (256 - length f) NUL"

lemma row_zero: "replicate 8 (replicate 256 NUL) = map row (replicate 8 [])"
  by (simp add: row_def)

lemma row_simps:
  "length f \<le> 256 \<Longrightarrow> patch (row []) 0 f = row f"
  "length f < 256 \<Longrightarrow> patch (row []) 0 (f @ [NUL]) = row f"
  "length f \<le> 256 \<Longrightarrow> take 256 (f @ replicate 256 NUL) = row f"
  "is_cstring f \<Longrightarrow> cstr (row f) = f"
  "length f < 256 \<Longrightarrow> NUL \<in> set (row f)"
proof -
  show "patch (row []) 0 f = row f" if "length f \<le> 256" using that by (simp add: patch_def row_def)
  show "patch (row []) 0 (f @ [NUL]) = row f" if "length f < 256"
    using that by (simp add: patch_def row_def replicate_Suc [symmetric] Suc_diff_Suc del: replicate_Suc)
  show "take 256 (f @ replicate 256 NUL) = row f" if "length f \<le> 256" using that by (simp add: row_def)
  show "cstr (row f) = f" if "is_cstring f"
    using that by (auto simp: row_def cstr_def is_cstring_def takeWhile_append)
  show "NUL \<in> set (row f)" if "length f < 256" using that by (simp add: row_def)
qed

lemma join_concat: "join d (f # fs) = f @ concat (map ((#) d) fs)"
  by (induction fs arbitrary: f) (auto simp: join_Cons)

lemma cat_rows_ok:
  assumes "\<forall>f \<in> set fs. is_cstring f" and "length ret + length (concat (map ((#) SEMI) fs)) < 2048"
  shows "cat_rows (map row fs) ret = Ret (ret @ concat (map ((#) SEMI) fs))"
  using assms by (induction fs arbitrary: ret) (auto simp: ret_cat_def row_simps(4))

lemma copy_values_step:
  assumes "i < 8" and "e - p \<le> 256" and "find_from SEMI old (e + 1) = Ret q"
  shows "copy_values old i p (Some e) buf
    = copy_values old (i + 1) (e + 1) q (buf[i := patch (buf ! i) 0 (window old p (e - p))])"
  using assms by (subst copy_values.simps) simp

lemma copy_values_ok:
  assumes "\<forall>f \<in> set fs. SEMI \<notin> set f \<and> is_cstring f \<and> length f \<le> 256" and "fs \<noteq> []"
    and "length ds + length fs \<le> 8" and "n = 8 - length ds"
  shows "\<exists>p. pre @ join SEMI fs @ NUL # r = p @ last fs @ NUL # r
    \<and> copy_values (pre @ join SEMI fs @ NUL # r) (length ds) (length pre)
        (if tl fs = [] then None else Some (length pre + length (hd fs))) (map row (ds @ replicate n []))
      = Ret (length ds + length fs - 1, length p, map row ((ds @ butlast fs) @ replicate (n - length fs + 1) []))"
  using assms
proof (induction fs arbitrary: pre ds n)
  case (Cons f fs)
  have "n \<noteq> 0" using Cons.prems(3,4) by simp
  then obtain m where n: "n = Suc m" by (cases n) simp_all
  show ?case
  proof (cases fs)
    case Nil
    with n show ?thesis by (intro exI [of _ pre]) (simp add: copy_values.simps)
  next
    case (Cons g gs)
    let ?pre = "pre @ f @ [SEMI]"
    let ?v = "pre @ join SEMI (f # fs) @ NUL # r"
    have v: "?v = ?pre @ join SEMI fs @ NUL # r" using Cons by simp
    have find: "find_from SEMI ?v (length pre + length f + 1)
        = Ret (if tl fs = [] then None else Some (length ?pre + length (hd fs)))"
      using find_field [of g gs SEMI ?pre r] Cons.prems(1) Cons unfolding v by simp
    have IH: "\<forall>f \<in> set fs. SEMI \<notin> set f \<and> is_cstring f \<and> length f \<le> 256" "fs \<noteq> []"
      "length (ds @ [f]) + length fs \<le> 8" "m = 8 - length (ds @ [f])"
      using Cons.prems Cons n by auto
    have win: "window ?v (length pre) (length f) = f" using Cons by (simp add: window_def)
    have rows: "(map row (ds @ replicate n []))[length ds := patch (map row (ds @ replicate n []) ! length ds) 0 f]
        = map row ((ds @ [f]) @ replicate m [])"
      using Cons.prems(1) by (simp add: n nth_append list_update_append row_simps(1))
    obtain p where p: "?pre @ join SEMI fs @ NUL # r = p @ last fs @ NUL # r"
      "copy_values (?pre @ join SEMI fs @ NUL # r) (length (ds @ [f])) (length ?pre)
          (if tl fs = [] then None else Some (length ?pre + length (hd fs))) (map row ((ds @ [f]) @ replicate m []))
        = Ret (length (ds @ [f]) + length fs - 1, length p,
            map row (((ds @ [f]) @ butlast fs) @ replicate (m - length fs + 1) []))"
      using Cons.IH [OF IH, of ?pre] by blast
    have le: "length ds < 8" "length pre + length f - length pre \<le> 256" using Cons.prems(1,3) by simp_all
    have "copy_values ?v (length ds) (length pre) (Some (length pre + length f)) (map row (ds @ replicate n []))
        = copy_values ?v (length (ds @ [f])) (length ?pre)
            (if tl fs = [] then None else Some (length ?pre + length (hd fs))) (map row ((ds @ [f]) @ replicate m []))"
      using copy_values_step [OF le find, of "map row (ds @ replicate n [])", unfolded diff_add_inverse win rows]
      by (simp only: length_append list.size add_0 plus_nat.add_0 One_nat_def add.assoc)
    with p Cons show ?thesis unfolding v n by (intro exI [of _ p]) simp
  qed
qed simp

text \<open>The condition under which the rows and the result hold the new list.\<close>

definition rows_ok :: "cstring list \<Rightarrow> nat \<Rightarrow> cstring \<Rightarrow> bool" where
  "rows_ok fs n v = (n < 8 \<and> length fs \<le> 8 \<and> (\<forall>f \<in> set (v # fs). is_cstring f \<and> length f < 256)
     \<and> length (join SEMI (set_field n fs v)) < 2048)"

lemma set_field_take:
  assumes "n < 8" and "length fs \<le> 8"
  shows "take (Suc (max (length fs - 1) n)) ((fs @ replicate (8 - length fs) [])[n := v]) = set_field n fs v"
proof (cases "fs = []")
  case False
  then have m: "Suc (max (length fs - 1) n) = max (length fs) (Suc n)" by (cases fs) auto
  show ?thesis unfolding m
    by (rule nth_equalityI) (use assms in \<open>auto simp: length_set_field nth_set_field nth_list_update nth_append\<close>)
qed (use assms in \<open>simp add: set_field_def take_update_swap min_def\<close>)

lemma row_last:
  assumes "fs \<noteq> []" and "length (last fs) < 256"
  shows "(map row (butlast fs @ replicate (k + 1) []))[length fs - 1 :=
      patch (map row (butlast fs @ replicate (k + 1) []) ! (length fs - 1)) 0 (last fs @ [NUL])]
    = map row (fs @ replicate k [])"
  using assms by (cases fs rule: rev_cases) (simp_all add: nth_append list_update_append row_simps(2))

lemma setNthValue_ok:
  assumes ok: "rows_ok (parts SEMI v) n new" and v: "is_cstring v"
  shows "setNthValue (int n) (v @ NUL # r) new = Ret (join SEMI (set_field n (parts SEMI v) new))"
proof -
  let ?fs = "parts SEMI v"
  have n: "n < 8" "length ?fs \<le> 8" using ok by (simp_all add: rows_ok_def)
  have fs: "\<forall>f \<in> set ?fs. SEMI \<notin> set f \<and> is_cstring f \<and> length f \<le> 256"
    using parts_free [of SEMI v] ok by (auto simp: rows_ok_def)
  have new: "is_cstring new" "length new < 256" using ok by (simp_all add: rows_ok_def)
  obtain f gs where f: "?fs = f # gs" by (cases ?fs) auto
  have find: "find_from SEMI (v @ NUL # r) 0 = Ret (if tl ?fs = [] then None else Some (length (hd ?fs)))"
    using find_field [of f gs SEMI "[]" r] fs join_parts [of SEMI v] unfolding f by simp
  obtain p where p: "v @ NUL # r = p @ last ?fs @ NUL # r"
    "copy_values (v @ NUL # r) 0 0 (if tl ?fs = [] then None else Some (length (hd ?fs))) (map row (replicate 8 []))
      = Ret (length ?fs - 1, length p, map row (butlast ?fs @ replicate (8 - length ?fs + 1) []))"
    using copy_values_ok [OF fs parts_nonempty, of "[]" 8 "[]" r, unfolded append_Nil list.size(3) add_0 join_parts] n
    by auto
  have "last ?fs \<in> set ?fs" by simp
  then have l: "is_cstring (last ?fs)" "length (last ?fs) < 256" using ok by (auto simp: rows_ok_def)
  have last: "find_from NUL (v @ NUL # r) (length p) = Ret (Some (length p + length (last ?fs)))"
    "window (v @ NUL # r) (length p) (length (last ?fs)) = last ?fs"
    unfolding p(1) using strchr_NUL [OF l(1), of r] by (simp_all add: find_from_def window_def)
  let ?gs = "?fs @ replicate (8 - length ?fs) []"
  have rows1: "(map row (butlast ?fs @ replicate (8 - length ?fs + 1) []))[length ?fs - 1 :=
      patch (map row (butlast ?fs @ replicate (8 - length ?fs + 1) []) ! (length ?fs - 1)) 0 (last ?fs @ [NUL])]
    = map row ?gs"
    by (rule row_last) (use l in simp_all)
  have rows2: "(map row ?gs)[n := take 256 (new @ replicate 256 NUL)] = map row (?gs[n := new])"
    by (simp only: row_simps(3) [OF less_imp_le [OF new(2)]] map_update)
  let ?m = "max (length ?fs - 1) n"
  obtain g hs where g: "set_field n ?fs new = g # hs"
    using length_set_field [of n ?fs new] by (cases "set_field n ?fs new") auto
  have tk: "take (Suc ?m) (?gs[n := new]) = g # hs" using set_field_take [OF n, of new] g by simp
  then have hd: "map row (?gs[n := new]) ! 0 = row g" "take ?m (drop 1 (map row (?gs[n := new]))) = map row hs"
    by (cases "?gs[n := new]"; simp add: take_map)+
  have "set (g # hs) \<subseteq> {new, []} \<union> set ?fs" using set_field_set [of n ?fs new] g by simp
  then have gh: "\<forall>x \<in> set (g # hs). is_cstring x \<and> length x < 256" using ok new by (auto simp: rows_ok_def)
  have len: "length (g @ concat (map ((#) SEMI) hs)) < 2048"
    using ok by (simp add: rows_ok_def g join_concat)
  have "length ?fs - 1 < 8" using n(2) by linarith
  then have guards: "(8 \<le> length ?fs - 1 \<or> 256 < length (last ?fs) + 1) = False" "(int n < 0 \<or> 8 \<le> int n) = False"
    "(NUL \<notin> set (row g)) = False"
    using n(1) l(2) gh by (simp_all add: row_simps(5))
  have "setNthValue (int n) (v @ NUL # r) new
      = obind (ret_cat [] (cstr (row g))) (cat_rows (map row hs))"
    by (simp only: setNthValue_def row_zero find p(2) last obind.simps(1) prod.case option.case Let_def
        diff_add_inverse guards if_False nat_int rows1 rows2 hd)
  also have "\<dots> = Ret (g @ concat (map ((#) SEMI) hs))"
    using gh len cat_rows_ok [of hs g] by (simp add: row_simps(4) ret_cat_def)
  finally show ?thesis by (simp add: g join_concat)
qed

section \<open>Deleting values\<close>

text \<open>\<open>deleteNthValueMulti\<close> works on a copy of the string: it overwrites the listed values with NUL
  bytes, each with the separator in front of it, and copies the bytes that are left back.
  \<open>del_loop\<close> is the \<open>while\<close> loop with its variables \<open>i\<close>, \<open>j\<close>, \<open>begin\<close>, \<open>end\<close>,
  \<open>need_check_flag\<close> and \<open>buf\<close>.\<close>

function del_loop :: "int list \<Rightarrow> int \<Rightarrow> byte \<Rightarrow> int \<Rightarrow> nat \<Rightarrow> nat \<Rightarrow> nat option \<Rightarrow> bool \<Rightarrow> byte list
    \<Rightarrow> (int \<times> nat \<times> nat \<times> nat option \<times> bool \<times> byte list) outcome" where
  "del_loop index count delimit i j b e chk buf =
     (case e of
        None \<Rightarrow> Ret (i, j, b, e, chk, buf)
      | Some p \<Rightarrow>
          if length index \<le> j then Fault
          else if i = index ! j then
            (if \<not> (b \<le> p \<and> p \<le> length buf) then Fault
             else let buf' = patch buf b (replicate (p - b) NUL); chk' = (chk \<or> index ! j = 0) in
               if count \<le> int (j + 1) then Ret (i, j + 1, b, e, chk', buf')
               else case find_from delimit buf' (p + 1) of
                   Ret e' \<Rightarrow> del_loop index count delimit (i + 1) (j + 1) p e' chk' buf'
                 | Fault \<Rightarrow> Fault | Blocked \<Rightarrow> Blocked)
          else (case find_from delimit buf (p + 1) of
                  Ret e' \<Rightarrow> del_loop index count delimit (i + 1) j p e' chk buf
                | Fault \<Rightarrow> Fault | Blocked \<Rightarrow> Blocked))"
  by pat_completeness auto
termination
  by (relation "measure (\<lambda>(index, count, delimit, i, j, b, e, chk, buf).
        case e of None \<Rightarrow> 0 | Some p \<Rightarrow> Suc (length buf - p))")
    (auto split: option.splits dest!: find_from_bound)

declare del_loop.simps [simp del]

text \<open>The last value has no separator behind it.\<close>

definition del_last :: "int list \<Rightarrow> int \<times> nat \<times> nat \<times> nat option \<times> bool \<times> byte list \<Rightarrow> (bool \<times> byte list) outcome" where
  "del_last index = (\<lambda>(i, j, b, e, chk, buf).
     if e \<noteq> None then Ret (chk, buf)
     else if length index \<le> j then Fault
     else if index ! j = i then obind (find_from NUL buf b) (\<lambda>z. case z of
         None \<Rightarrow> Fault
       | Some z \<Rightarrow> Ret (chk, patch buf b (replicate (z - b) NUL)))
     else Ret (chk, buf))"

fun drop_lead :: "byte list \<Rightarrow> byte list" where
  "drop_lead [] = []"
| "drop_lead (x # xs) = (if x = NUL then NUL # drop_lead xs else (if x = SEMI then NUL else x) # xs)"

definition deleteNthValueMulti :: "bool \<Rightarrow> int list \<Rightarrow> int \<Rightarrow> byte list \<Rightarrow> byte \<Rightarrow> (int \<times> byte list) outcome" where
  "deleteNthValueMulti strdup_ok index count value delimit =
     (case strchr NUL value of
        Some (Some n) \<Rightarrow>
          if \<not> strdup_ok then Fault
          else let buf = take (n + 1) value in
            obind (find_from delimit buf 0) (\<lambda>e.
            obind (del_loop index count delimit 0 0 0 e False buf) (\<lambda>st.
            obind (del_last index st) (\<lambda>(chk, buf).
            let buf' = (if chk then drop_lead (take n buf) else take n buf) in
            Ret (0, patch value 0 (filter (\<lambda>x. x \<noteq> NUL) buf' @ [NUL])))))
      | _ \<Rightarrow> Fault)"

text \<open>The copy after the loop: the listed pieces, counted from \<open>i\<close>, are blank.\<close>

fun wipe :: "int \<Rightarrow> int list \<Rightarrow> byte list list \<Rightarrow> byte list" where
  "wipe i ks [] = []"
| "wipe i ks (q # qs) = (if i \<in> set ks then replicate (length q) NUL else q) @ wipe (i + 1) ks qs"

lemma wipe_cong: "(\<And>k. i \<le> k \<Longrightarrow> k \<in> set ks \<longleftrightarrow> k \<in> set ls) \<Longrightarrow> wipe i ks qs = wipe i ls qs"
  by (induction qs arbitrary: i) auto

lemma wipe_Nil: "wipe i [] qs = concat qs"
  by (induction qs arbitrary: i) auto

lemma length_wipe: "length (wipe i ks qs) = length (concat qs)"
  by (induction qs arbitrary: i) auto

lemma filter_wipe:
  assumes "\<forall>q \<in> set qs. is_cstring q"
  shows "filter (\<lambda>x. x \<noteq> NUL) (wipe i ks qs) = concat (nths qs {n. i + int n \<notin> set ks})"
  using assms
proof (induction qs arbitrary: i)
  case (Cons q qs)
  have q: "filter (\<lambda>x. x \<noteq> NUL) q = q" using Cons.prems by (auto simp: is_cstring_def filter_id_conv)
  have "{j. Suc j \<in> {n. i + int n \<notin> set ks}} = {n. (i + 1) + int n \<notin> set ks}" by (auto simp: algebra_simps)
  with q Cons show ?case by (simp add: nths_Cons)
qed simp

lemma filter_drop_lead:
  "filter (\<lambda>x. x \<noteq> NUL) (drop_lead xs) = (let ys = filter (\<lambda>x. x \<noteq> NUL) xs in
     if ys \<noteq> [] \<and> hd ys = SEMI then tl ys else ys)"
  by (induction xs) (auto simp: Let_def)

lemma patch_middle: "length x = length y \<Longrightarrow> patch (pre @ x @ suf) (length pre) y = pre @ y @ suf"
  by (simp add: patch_def)

lemma del_loop_hit:
  assumes "j < length index" and "i = index ! j" and "length q = p - b" and "b \<le> p" and "length pre = b"
  shows "del_loop index (int (length index)) d i j b (Some p) chk (pre @ q @ suf) =
    (if length index \<le> j + 1 then Ret (i, j + 1, b, Some p, chk \<or> i = 0, pre @ replicate (length q) NUL @ suf)
     else case find_from d (pre @ replicate (length q) NUL @ suf) (p + 1) of
         Ret e' \<Rightarrow> del_loop index (int (length index)) d (i + 1) (j + 1) p e' (chk \<or> i = 0) (pre @ replicate (length q) NUL @ suf)
       | Fault \<Rightarrow> Fault | Blocked \<Rightarrow> Blocked)"
  using assms patch_middle [of q "replicate (length q) NUL" pre suf]
  by (subst del_loop.simps) (simp add: Let_def split: outcome.split)

lemma del_loop_miss:
  assumes "j < length index" and "i \<noteq> index ! j"
  shows "del_loop index count d i j b (Some p) chk buf =
    (case find_from d buf (p + 1) of
       Ret e' \<Rightarrow> del_loop index count d (i + 1) j p e' chk buf
     | Fault \<Rightarrow> Fault | Blocked \<Rightarrow> Blocked)"
  using assms by (subst del_loop.simps) simp

text \<open>The positions an index list really deletes among \<open>n\<close> values: the scan looks for one entry at a
  time, and an entry that is behind it or out of range stops all deletions.\<close>

fun hits :: "int \<Rightarrow> int \<Rightarrow> int list \<Rightarrow> int list" where
  "hits i n [] = []"
| "hits i n (k # ks) = (if i \<le> k \<and> k < n then k # hits (k + 1) n ks else [])"

lemma hits_ge: "x \<in> set (hits i n ks) \<Longrightarrow> i \<le> x \<and> x < n"
  by (induction i n ks rule: hits.induct) (auto split: if_splits)

lemma hits_skip: "i \<noteq> k \<Longrightarrow> hits i n (k # ks) = hits (i + 1) n (k # ks)"
  by auto

lemma hits_sorted:
  "sorted_wrt (<) ks \<Longrightarrow> \<forall>k \<in> set ks. i \<le> k \<Longrightarrow> set (hits i n ks) = {k \<in> set ks. k < n}"
proof (induction i n ks rule: hits.induct)
  case (2 i n k ks)
  then show ?case by (cases "k < n") (auto simp: add1_zle_eq)
qed simp

text \<open>One pass over the pieces from \<open>q\<close> on: \<open>qs\<close> are the later values with the separator in front.\<close>

lemma del_pass_ok:
  assumes "\<forall>f \<in> set fs. d \<notin> set f \<and> is_cstring f" and "d \<noteq> NUL" and "is_cstring q"
    and "drop j index = k # ks" and "0 \<le> i" and "n = i + 1 + int (length fs)"
  shows "obind (del_loop index (int (length index)) d i j (length pre)
        (if fs = [] then None else Some (length pre + length q)) chk
        (pre @ q @ concat (map ((#) d) fs) @ NUL # r)) (del_last index)
    = Ret (chk \<or> (k = 0 \<and> i = 0 \<and> fs \<noteq> []), pre @ wipe i (hits i n (k # ks)) (q # map ((#) d) fs) @ NUL # r)"
  using assms
proof (induction fs arbitrary: pre q i j k ks chk)
  case Nil
  have j: "j < length index" "index ! j = k" using Nil.prems(4) by (auto simp: nth_via_drop dest: arg_cong [of _ _ length])
  have z: "find_from NUL (pre @ q @ NUL # r) (length pre) = Ret (Some (length pre + length q))"
    using strchr_NUL [OF Nil.prems(3), of r] by (simp add: find_from_def)
  have "i \<in> set (hits i n (k # ks)) \<longleftrightarrow> k = i" using Nil.prems(6) by (auto dest: hits_ge)
  with j z patch_middle [of q "replicate (length q) NUL" pre "NUL # r"] show ?case
    by (simp add: del_loop.simps del_last_def del: hits.simps)
next
  case (Cons f fs)
  have j: "j < length index" "index ! j = k" using Cons.prems(4) by (auto simp: nth_via_drop dest: arg_cong [of _ _ length])
  let ?suf = "concat (map ((#) d) (f # fs)) @ NUL # r"
  have suf: "?suf = (d # f) @ concat (map ((#) d) fs) @ NUL # r" by simp
  have f: "\<forall>f \<in> set fs. d \<notin> set f \<and> is_cstring f" "is_cstring (d # f)" using Cons.prems(1,2) by auto
  have n: "n = (i + 1) + 1 + int (length fs)" using Cons.prems(6) by simp
  have find: "find_from d ((pre' @ x) @ ?suf) (length pre' + length q + 1)
      = Ret (if fs = [] then None else Some (length (pre' @ x) + length (d # f)))"
    if "length x = length q" for pre' x
    using find_field [of f fs d "pre' @ x @ [d]" r] Cons.prems(1,2) that by (simp add: join_concat)
  show ?case
  proof (cases "k = i")
    case miss: False
    have "obind (del_loop index (int (length index)) d i j (length pre) (Some (length pre + length q)) chk (pre @ q @ ?suf)) (del_last index)
        = obind (del_loop index (int (length index)) d (i + 1) j (length (pre @ q))
            (if fs = [] then None else Some (length (pre @ q) + length (d # f))) chk ((pre @ q) @ ?suf)) (del_last index)"
      using del_loop_miss [of j index i "int (length index)" d "length pre" "length pre + length q" chk "pre @ q @ ?suf"]
        j miss find [OF refl, of pre] by simp
    also have "\<dots> = Ret (chk \<or> (k = 0 \<and> i + 1 = 0 \<and> fs \<noteq> []),
        (pre @ q) @ wipe (i + 1) (hits (i + 1) n (k # ks)) ((d # f) # map ((#) d) fs) @ NUL # r)"
      unfolding suf using Cons.prems(5)
      by (intro Cons.IH [OF f(1) Cons.prems(2) f(2) Cons.prems(4) _ n]) simp
    finally have "obind (del_loop index (int (length index)) d i j (length pre) (Some (length pre + length q)) chk (pre @ q @ ?suf)) (del_last index)
      = Ret (chk, pre @ wipe i (hits i n (k # ks)) (q # (d # f) # map ((#) d) fs) @ NUL # r)"
      using hits_skip [of i k n ks] miss Cons.prems(5) hits_ge [of i "i + 1" n "k # ks"] by auto
    then show ?thesis using miss by auto
  next
    case hit: True
    let ?x = "replicate (length q) NUL"
    note step = del_loop_hit [of j index i q "length pre + length q" "length pre" pre d chk ?suf]
    have h: "hits i n (k # ks) = k # hits (i + 1) n ks" using hit n by simp
    have w: "wipe (i + 1) (k # hits (i + 1) n ks) qs = wipe (i + 1) (hits (i + 1) n ks) qs" for qs
      by (rule wipe_cong) (use hit in auto)
    show ?thesis
    proof (cases ks)
      case Nil
      then have "length index \<le> j + 1" using Cons.prems(4) by (auto dest: arg_cong [of _ _ length])
      then have "obind (del_loop index (int (length index)) d i j (length pre) (Some (length pre + length q)) chk (pre @ q @ ?suf)) (del_last index)
          = Ret (chk \<or> i = 0, pre @ ?x @ ?suf)"
        using step j hit by (simp add: del_last_def)
      then show ?thesis using hit Nil w [of "map ((#) d) (f # fs)"] unfolding h by (auto simp: wipe_Nil)
    next
      case ks: (Cons k' ks')
      have j': "drop (j + 1) index = k' # ks'" using arg_cong [OF Cons.prems(4), of tl] ks by (simp add: drop_Suc tl_drop)
      then have lj: "\<not> length index \<le> j + 1" by auto
      have "obind (del_loop index (int (length index)) d i j (length pre) (Some (length pre + length q)) chk (pre @ q @ ?suf)) (del_last index)
          = obind (del_loop index (int (length index)) d (i + 1) (j + 1) (length (pre @ ?x))
            (if fs = [] then None else Some (length (pre @ ?x) + length (d # f))) (chk \<or> i = 0) ((pre @ ?x) @ ?suf)) (del_last index)"
        using step j hit lj find [of ?x pre] by simp
      also have "\<dots> = Ret ((chk \<or> i = 0) \<or> (k' = 0 \<and> i + 1 = 0 \<and> fs \<noteq> []),
          (pre @ ?x) @ wipe (i + 1) (hits (i + 1) n (k' # ks')) ((d # f) # map ((#) d) fs) @ NUL # r)"
        unfolding suf using Cons.prems(5) by (intro Cons.IH [OF f(1) Cons.prems(2) f(2) j' _ n]) simp
      finally show ?thesis using Cons.prems(5) hit ks w [of "(d # f) # map ((#) d) fs"] unfolding h by auto
    qed
  qed
qed

lemma nths_map_concat: "concat (nths (map ((#) d) fs) A) = concat (map ((#) d) (nths fs A))"
  by (simp add: nths_map)

lemma join_nths:
  "join SEMI (nths (f # gs) A) =
    (if 0 \<in> A then f @ concat (map ((#) SEMI) (nths gs {j. Suc j \<in> A}))
     else tl (concat (map ((#) SEMI) (nths gs {j. Suc j \<in> A}))))"
  by (cases "nths gs {j. Suc j \<in> A}") (simp_all add: nths_Cons join_concat)

lemma clean_lead:
  assumes "filter (\<lambda>x. x \<noteq> NUL) w = (if z then [] else f) @ concat (map ((#) SEMI) hs)"
    and "gs = [] \<longrightarrow> hs = []"
  shows "filter (\<lambda>x. x \<noteq> NUL) (if z \<and> gs \<noteq> [] then drop_lead w else w) =
    (if z then tl (concat (map ((#) SEMI) hs)) else f @ concat (map ((#) SEMI) hs))"
  using assms by (cases hs) (auto simp: filter_drop_lead Let_def)

lemma deleteNthValueMulti_hits:
  assumes v: "is_cstring v" and hs: "hs = hits 0 (int (length (parts SEMI v))) (k # ks)"
  shows "deleteNthValueMulti True (k # ks) (int (length (k # ks))) (v @ NUL # r) SEMI
    = Ret (0, patch (v @ NUL # r) 0 (join SEMI (nths (parts SEMI v) {n. int n \<notin> set hs}) @ [NUL]))"
proof -
  obtain f gs where f: "parts SEMI v = f # gs" by (cases "parts SEMI v") auto
  have fs: "\<forall>f \<in> set (f # gs). SEMI \<notin> set f \<and> is_cstring f"
    using parts_free [of SEMI v] set_parts [of SEMI v] v unfolding is_cstring_def f by blast
  have vj: "v = f @ concat (map ((#) SEMI) gs)" using join_parts [of SEMI v] by (simp add: f join_concat)
  let ?A = "{n. int n \<notin> set hs}" and ?qs = "f # map ((#) SEMI) gs"
  let ?w = "wipe 0 hs ?qs" and ?chk = "k = 0 \<and> gs \<noteq> []"
  have find: "find_from SEMI (v @ [NUL]) 0 = Ret (if gs = [] then None else Some (length f))"
    using find_field [of f gs SEMI "[]" "[]"] fs by (simp add: vj join_concat)
  have pre1: "\<forall>f \<in> set gs. SEMI \<notin> set f \<and> is_cstring f" and pre2: "is_cstring f" and semi: "SEMI \<noteq> NUL"
    using fs by simp_all
  have hs': "hs = hits 0 (0 + 1 + int (length gs)) (k # ks)"
  proof -
    have "int (length (parts SEMI v)) = 0 + 1 + int (length gs)" by (simp add: f)
    then show ?thesis unfolding hs by (simp only:)
  qed
  have pass: "obind (del_loop (k # ks) (int (length (k # ks))) SEMI 0 0 0
      (if gs = [] then None else Some (length f)) False (v @ [NUL])) (del_last (k # ks))
    = Ret (?chk, ?w @ [NUL])"
    using del_pass_ok [OF pre1 semi pre2 drop_0 order_refl refl, of k ks "[]" False "[]", unfolded list.size(3) add_0 append_Nil]
    by (simp only: vj append_assoc simp_thms hs' add_0)
  have n: "strchr NUL (v @ NUL # r) = Some (Some (length v))" by (rule strchr_NUL [OF v])
  have lw: "length ?w = length v" by (simp add: length_wipe vj)
  have q: "\<forall>q \<in> set ?qs. is_cstring q" using fs by auto
  have A: "{n. 0 + int n \<notin> set hs} = ?A" by simp
  have "filter (\<lambda>x. x \<noteq> NUL) (if ?chk then drop_lead ?w else ?w) = join SEMI (nths (f # gs) ?A)"
  proof -
    have 0: "0 \<in> ?A \<longleftrightarrow> k \<noteq> 0" unfolding hs f by (auto dest: hits_ge)
    have w: "filter (\<lambda>x. x \<noteq> NUL) ?w = (if k = 0 then [] else f) @ concat (map ((#) SEMI) (nths gs {j. Suc j \<in> ?A}))"
      unfolding filter_wipe [OF q] A using 0 by (simp add: nths_Cons nths_map_concat)
    have nil: "gs = [] \<longrightarrow> nths gs {j. Suc j \<in> ?A} = []" by simp
    show ?thesis unfolding clean_lead [OF w nil] join_nths using 0 by (simp only: if_not_P) simp
  qed
  moreover have "deleteNthValueMulti True (k # ks) (int (length (k # ks))) (v @ NUL # r) SEMI
    = obind (obind (del_loop (k # ks) (int (length (k # ks))) SEMI 0 0 0
        (if gs = [] then None else Some (length f)) False (v @ [NUL])) (del_last (k # ks))) (\<lambda>(chk, buf).
        let buf' = (if chk then drop_lead (take (length v) buf) else take (length v) buf) in
        Ret (0, patch (v @ NUL # r) 0 (filter (\<lambda>x. x \<noteq> NUL) buf' @ [NUL])))"
    using find by (simp add: deleteNthValueMulti_def n obind_assoc)
  moreover have "take (length v) (?w @ [NUL]) = ?w" using lw by simp
  ultimately show ?thesis by (simp only: pass obind.simps prod.case Let_def f)
qed

lemma nths_cong_lt: "(\<And>n. n < length xs \<Longrightarrow> n \<in> A \<longleftrightarrow> n \<in> B) \<Longrightarrow> nths xs A = nths xs B"
  unfolding nths_def by (rule arg_cong [of _ _ "map fst"], rule filter_cong) (auto simp: set_zip)

lemma nths_in_range: "nths xs {n. int n \<notin> A} = nths xs {n. int n \<notin> {k \<in> A. k < int (length xs)}}"
  by (rule nths_cong_lt) auto

lemma deleteNthValueMulti_ok:
  assumes v: "is_cstring v" and ks: "sorted_wrt (<) (k # ks)" "0 \<le> k"
  shows "deleteNthValueMulti True (k # ks) (int (length (k # ks))) (v @ NUL # r) SEMI
    = Ret (0, patch (v @ NUL # r) 0 (join SEMI (nths (parts SEMI v) {n. int n \<notin> set (k # ks)}) @ [NUL]))"
proof -
  have "\<forall>x \<in> set (k # ks). 0 \<le> x" using ks by auto
  then have h: "set (hits 0 (int (length (parts SEMI v))) (k # ks)) = {x \<in> set (k # ks). x < int (length (parts SEMI v))}"
    using ks(1) by (intro hits_sorted)
  show ?thesis unfolding deleteNthValueMulti_hits [OF v refl] h nths_in_range [symmetric] ..
qed

text \<open>\<open>deleteNthValueMulti\<close> with an ascending list of positions leaves exactly the values at
  the other positions, in their order and separated by single semicolons, whether the first,
  the last or all values are deleted; positions behind the last value have no effect.\<close>

theorem deleteNthValueMulti_deletes:
  assumes "is_cstring v" and "index \<noteq> []" and "sorted_wrt (<) index" and "\<forall>k \<in> set index. 0 \<le> k"
  shows "deleteNthValueMulti True index (int (length index)) (v @ NUL # r) SEMI
    = Ret (0, patch (v @ NUL # r) 0 (join SEMI (nths (parts SEMI v) {n. int n \<notin> set index}) @ [NUL]))"
  using assms deleteNthValueMulti_ok [of v] by (cases index) simp_all

theorem deleteNthValueMulti_deletes_witness:
  "deleteNthValueMulti True [0, 2] 2 (lit ''a;b;c;d'' @ NUL # []) SEMI = Ret (0, lit ''b;d'' @ [NUL] @ lit ''c;d'' @ [NUL])"
proof -
  have p: "parts SEMI (lit ''a;b;c;d'') = [lit ''a'', lit ''b'', lit ''c'', lit ''d'']" by simp
  have n: "nths [lit ''a'', lit ''b'', lit ''c'', lit ''d''] {n. int n \<notin> set [0, 2]} = [lit ''b'', lit ''d'']"
    by (simp add: nths_Cons)
  show ?thesis
    using deleteNthValueMulti_deletes [of "lit ''a;b;c;d''" "[0, 2]" "[]"] unfolding p n
    by (simp add: patch_def)
qed

end
