(* ===== verification/InetAddr.thy ===== *)
theory InetAddr
  imports WebValues
begin

text \<open>
  Internet addresses as text: \<open>inet_aton\<close> and \<open>inet_ntoa\<close> of the C library
  (\<open>lib/libc/inet/addr.c\<close>) and the input checks of the firewall pages
  (\<open>user/goahead/src_tongyong/firewall.c\<close>) that rest on them.

  The reference is the usual notation: four decimal numbers up to 255 with dots between them
  (\<open>dotted\<close>), and a prefix length up to 32 behind a slash (\<open>prefixed\<close>). The checks are compared
  with it: \<open>isIpNetmaskValid\<close> accepts exactly that notation, while \<open>isIpValid\<close> also accepts any
  text behind a blank.
\<close>

section \<open>Addresses in the C library\<close>

abbreviation DOT :: byte where "DOT \<equiv> 0x2E"
abbreviation SLASH :: byte where "SLASH \<equiv> 0x2F"
abbreviation COLON :: byte where "COLON \<equiv> 0x3A"
abbreviation COMMA :: byte where "COMMA \<equiv> 0x2C"
abbreviation PERCENT :: byte where "PERCENT \<equiv> 0x25"

text \<open>One part: the digits are added up until the number passes 255.\<close>

fun aton_digits :: "nat \<Rightarrow> cstring \<Rightarrow> (nat \<times> cstring) option" where
  "aton_digits val [] = Some (val, [])"
| "aton_digits val (c # cp) =
     (if isdigit c then
        let val = val * 10 + (unat c - 0x30) in if val > 255 then None else aton_digits val cp
      else Some (val, c # cp))"

text \<open>The loop over the parts; the first argument is the number of parts still to come. The byte
  behind the last part is the terminator or a blank.\<close>

primrec aton_loop :: "nat \<Rightarrow> 32 word \<Rightarrow> cstring \<Rightarrow> 32 word option" where
  "aton_loop 0 addr cp = Some addr"
| "aton_loop (Suc k) addr cp =
     (if cp = [] \<or> \<not> isdigit (hd cp) then None
      else case aton_digits 0 cp of
        None \<Rightarrow> None
      | Some (val, cp) \<Rightarrow>
          let addr' = push_bit 8 addr OR of_nat val in
          if k > 0 then if cp = [] \<or> hd cp \<noteq> DOT then None else aton_loop k addr' (tl cp)
          else if cp \<noteq> [] \<and> \<not> isspace (hd cp) then None else aton_loop k addr' (tl cp))"

definition inet_aton :: "cstring \<Rightarrow> 32 word option" where
  "inet_aton cp = aton_loop 4 0 cp"

text \<open>\<open>inet_ntoa_r\<close> fills its buffer from the end, the low byte first; \<open>ntoa_loop n addr q\<close> is the text
  once \<open>n\<close> more bytes are written in front of \<open>q\<close>.\<close>

primrec ntoa_loop :: "nat \<Rightarrow> 32 word \<Rightarrow> cstring option \<Rightarrow> cstring" where
  "ntoa_loop 0 addr q = (case q of None \<Rightarrow> [] | Some q \<Rightarrow> q)"
| "ntoa_loop (Suc n) addr q =
     ntoa_loop n (drop_bit 8 addr)
       (Some (print_base 10 (unat (addr AND 0xFF)) @ (case q of None \<Rightarrow> [] | Some q \<Rightarrow> DOT # q)))"

definition inet_ntoa :: "32 word \<Rightarrow> cstring" where
  "inet_ntoa addr = ntoa_loop 4 addr None"

section \<open>Input checks of the firewall pages\<close>

definition isxdigit :: "byte \<Rightarrow> bool" where
  "isxdigit c = (isdigit c \<or> 0x41 \<le> c \<and> c \<le> 0x46 \<or> 0x61 \<le> c \<and> c \<le> 0x66)"

definition isMacValid :: "cstring \<Rightarrow> bool" where
  "isMacValid str =
     (length str = 17
      \<and> (\<forall>i \<in> set [0..<5]. isxdigit (str ! (i * 3)) \<and> isxdigit (str ! (i * 3 + 1)) \<and> str ! (i * 3 + 2) = COLON)
      \<and> isxdigit (str ! 15) \<and> isxdigit (str ! 16))"

definition isIpValid :: "cstring \<Rightarrow> bool" where
  "isIpValid str = (str = lit ''any'' \<or> str = lit ''any/0'' \<or> inet_aton str \<noteq> None)"

definition isNumOnly :: "cstring \<Rightarrow> bool" where
  "isNumOnly str = list_all isdigit str"

definition isAllNumAndSlash :: "cstring \<Rightarrow> bool" where
  "isAllNumAndSlash str = list_all (\<lambda>c. isdigit c \<or> c = DOT \<or> c = SLASH) str"

definition isOnlyOneSlash :: "cstring \<Rightarrow> bool" where
  "isOnlyOneSlash str = (length (filter ((=) SLASH) str) \<le> 1)"

text \<open>\<open>isIpNetmaskValid\<close> works on a copy of 32 bytes; a longer text leaves no terminator in it, and the
  first \<open>strlen\<close> reads behind the array.\<close>

definition isIpNetmaskValid :: "cstring option \<Rightarrow> bool outcome" where
  "isIpNetmaskValid s =
     (case s of
        None \<Rightarrow> Ret False
      | Some s \<Rightarrow>
          if s = [] then Ret False
          else let str = take 32 (s @ replicate 32 NUL) in
            if s = lit ''any'' \<or> s = lit ''any/0'' then Ret True
            else case strchr NUL str of
              Some (Some n) \<Rightarrow>
                let str = take n str in
                if \<not> isAllNumAndSlash str then Ret False
                else if \<not> isOnlyOneSlash str then Ret False
                else if SLASH \<in> set str then
                  let slash = tl (dropWhile ((\<noteq>) SLASH) str); str = takeWhile ((\<noteq>) SLASH) str in
                  if slash = [] then Ret False
                  else if \<not> isNumOnly slash then Ret False
                  else if atoi slash < 0 \<or> atoi slash > 32 then Ret False
                  else Ret (inet_aton str \<noteq> None)
                else Ret (inet_aton str \<noteq> None)
            | _ \<Rightarrow> Fault)"

section \<open>Reference: dotted notation\<close>

definition octet :: "cstring \<Rightarrow> bool" where
  "octet f = (f \<noteq> [] \<and> list_all isdigit f \<and> digits_value 0 f \<le> 255)"

definition dotted :: "cstring \<Rightarrow> bool" where
  "dotted s = (length (parts DOT s) = 4 \<and> list_all octet (parts DOT s))"

definition dotted_addr :: "cstring \<Rightarrow> 32 word" where
  "dotted_addr s = foldl (\<lambda>a f. push_bit 8 a OR of_nat (digits_value 0 f)) 0 (parts DOT s)"

definition prefixed :: "cstring \<Rightarrow> bool" where
  "prefixed s = (case parts SLASH s of
     [a] \<Rightarrow> dotted a
   | [a, m] \<Rightarrow> dotted a \<and> m \<noteq> [] \<and> list_all isdigit m \<and> digits_value 0 m \<le> 32
   | _ \<Rightarrow> False)"

lemma digits_value_mono: "v \<le> digits_value v ds"
proof (induction ds arbitrary: v)
  case (Cons c ds)
  have "v \<le> 10 * v + (unat c - 0x30)" by simp
  also have "\<dots> \<le> digits_value (10 * v + (unat c - 0x30)) ds" by (rule Cons.IH)
  finally show ?case by simp
qed simp

lemma aton_digits_spec:
  assumes "v \<le> 255"
  shows "aton_digits v cp = (let n = digits_value v (takeWhile isdigit cp) in
    if n \<le> 255 then Some (n, dropWhile isdigit cp) else None)"
  using assms
proof (induction v cp rule: aton_digits.induct)
  case (2 v c cp)
  then show ?case
    using digits_value_mono [of "v * 10 + (unat c - 0x30)" "takeWhile isdigit cp"]
    by (auto simp: Let_def mult.commute)
qed simp

lemma isdigit_DOT [simp]: "\<not> isdigit DOT"
  by (simp add: isdigit_def)

lemma isspace_DOT [simp]: "\<not> isspace DOT"
  by (simp add: isspace_def)

text \<open>The characters up to the first blank decide.\<close>

lemma takeWhile_digits:
  assumes "\<forall>c \<in> set ds. isdigit c"
  shows "takeWhile (\<lambda>c. \<not> isspace c) (ds @ r) = ds @ takeWhile (\<lambda>c. \<not> isspace c) r"
  using assms isdigit_special by (induction ds) auto

lemma digits_DOT: "\<forall>c \<in> set ds. isdigit c \<Longrightarrow> DOT \<notin> set ds"
  using isdigit_DOT by blast

lemma parts_digits_other:
  assumes "\<forall>c \<in> set ds. isdigit c" and "c \<noteq> DOT"
  shows "hd (parts DOT (ds @ c # r)) = ds @ c # hd (parts DOT r)"
  using assms by (induction ds) (use isdigit_DOT in \<open>auto\<close>)

abbreviation word_of :: "cstring \<Rightarrow> cstring" where
  "word_of cp \<equiv> takeWhile (\<lambda>c. \<not> isspace c) cp"

lemma aton_loop_part:
  "aton_loop (Suc k) addr cp =
    (let fs = parts DOT (word_of cp); addr' = push_bit 8 addr OR of_nat (digits_value 0 (hd fs)) in
     if \<not> octet (hd fs) then None
     else if k > 0 then if tl fs = [] then None else aton_loop k addr' (tl (dropWhile isdigit cp))
     else if tl fs = [] then Some addr' else None)
   \<and> (octet (hd (parts DOT (word_of cp))) \<longrightarrow> tl (parts DOT (word_of cp)) \<noteq> [] \<longrightarrow>
        tl (parts DOT (word_of cp)) = parts DOT (word_of (tl (dropWhile isdigit cp))))"
proof -
  define ds r where "ds = takeWhile isdigit cp" and "r = dropWhile isdigit cp"
  have cp: "cp = ds @ r" by (simp add: ds_def r_def)
  have ds: "\<forall>c \<in> set ds. isdigit c" by (auto simp: ds_def dest: set_takeWhileD)
  have r: "r = [] \<or> \<not> isdigit (hd r)" using hd_dropWhile [of isdigit cp] by (auto simp: r_def)
  have w: "word_of cp = ds @ word_of r" unfolding cp by (rule takeWhile_digits [OF ds])
  have run: "aton_digits 0 cp = (if digits_value 0 ds \<le> 255 then Some (digits_value 0 ds, r) else None)"
    using aton_digits_spec [of 0 cp] by (simp add: ds_def r_def Let_def)
  have start: "(cp = [] \<or> \<not> isdigit (hd cp)) = (ds = [])" using r ds cp by (cases ds) auto
  consider (last) "r = [] \<or> isspace (hd r)" | (dot) "r \<noteq> []" "hd r = DOT"
    | (other) c q where "r = c # q" "c \<noteq> DOT" "\<not> isspace c" by (cases r) auto
  then show ?thesis
  proof cases
    case last
    then have "word_of r = []" by (cases r) auto
    then have fs: "parts DOT (word_of cp) = [ds]" using w parts_simple [OF digits_DOT [OF ds]] by simp
    have "octet ds = (ds \<noteq> [] \<and> digits_value 0 ds \<le> 255)" using ds by (auto simp: octet_def list_all_iff)
    moreover have "k > 0 \<Longrightarrow> r = [] \<or> hd r \<noteq> DOT" using last isspace_DOT by auto
    ultimately show ?thesis using last start run unfolding fs by (cases k) (auto simp: Let_def)
  next
    case dot
    then obtain q where q: "r = DOT # q" by (cases r) auto
    then have fs: "parts DOT (word_of cp) = ds # parts DOT (word_of q)"
      using w parts_append [OF digits_DOT [OF ds], of "word_of q"] by simp
    have "octet ds = (ds \<noteq> [] \<and> digits_value 0 ds \<le> 255)" using ds by (auto simp: octet_def list_all_iff)
    then show ?thesis using start run q r_def unfolding fs by (auto simp: Let_def)
  next
    case other
    then have "hd (parts DOT (word_of cp)) = ds @ c # hd (parts DOT (word_of q))"
      using w parts_digits_other [OF ds, of c "word_of q"] by simp
    moreover have "\<not> isdigit c" using r other(1) by simp
    ultimately have "\<not> octet (hd (parts DOT (word_of cp)))" by (auto simp: octet_def)
    then show ?thesis using start run other by (auto simp: Let_def)
  qed
qed

lemma aton_loop_spec:
  "aton_loop (Suc k) addr cp =
    (let fs = parts DOT (word_of cp) in
     if length fs = Suc k \<and> list_all octet fs
     then Some (foldl (\<lambda>a f. push_bit 8 a OR of_nat (digits_value 0 f)) addr fs) else None)"
proof (induction k arbitrary: addr cp)
  case 0
  show ?case using aton_loop_part [of 0 addr cp]
    by (cases "parts DOT (word_of cp)") (auto simp: Let_def length_Suc_conv)
next
  case (Suc k)
  show ?case using aton_loop_part [of "Suc k" addr cp] Suc.IH
    by (cases "parts DOT (word_of cp)") (auto simp: Let_def)
qed

lemma inet_aton_spec: "inet_aton cp = (if dotted (word_of cp) then Some (dotted_addr (word_of cp)) else None)"
  using aton_loop_spec [of 3 0 cp] by (simp add: inet_aton_def dotted_def dotted_addr_def Let_def)

text \<open>What the two checks without a netmask accept: six pairs of hexadecimal digits with colons between them, and a dotted address in front of
  the end or the first blank.\<close>

definition mac_form :: "cstring \<Rightarrow> bool" where
  "mac_form s = (length s = 17 \<and> list_all (\<lambda>(i, c). if i mod 3 = 2 then c = COLON else isxdigit c) (zip [0..<17] s))"

definition host_form :: "cstring \<Rightarrow> bool" where
  "host_form s = (s \<in> {lit ''any'', lit ''any/0''} \<or> dotted (word_of s))"

lemma mac_form_iff [simp]: "mac_form s = isMacValid s"
proof (cases "length s = 17")
  case True
  then obtain a b c d e f g h i j k l m n p q r where s: "s = [a, b, c, d, e, f, g, h, i, j, k, l, m, n, p, q, r]"
    by (auto simp: length_Suc_conv numeral_eq_Suc)
  show ?thesis unfolding mac_form_def isMacValid_def s by (simp add: upt_rec)
qed (simp add: mac_form_def isMacValid_def)

lemma host_form_iff [simp]: "host_form s = isIpValid s"
  by (simp add: host_form_def isIpValid_def inet_aton_spec)

section \<open>Round trip\<close>

definition octets :: "32 word \<Rightarrow> nat list" where
  "octets a = map (\<lambda>k. unat (drop_bit k a AND 0xFF)) [24, 16, 8, 0]"

lemma octets_le: "\<forall>n \<in> set (octets a). n \<le> 255"
proof -
  have "unat (x AND 0xFF) \<le> 255" for x :: "32 word"
    using word_and_le1 [of x "0xFF"] by (simp add: word_le_nat_alt)
  then show ?thesis by (auto simp: octets_def)
qed

lemma inet_ntoa_join: "inet_ntoa a = join DOT (map (print_base 10) (octets a))"
  by (simp add: inet_ntoa_def octets_def eval_nat_numeral)

lemma push_octet: "push_bit 8 (drop_bit (k + 8) a) OR (drop_bit k a AND 0xFF) = drop_bit k a" for a :: "32 word"
proof (rule bit_word_eqI)
  have "(0xFF :: 32 word) = mask 8" by (simp add: mask_eq_exp_minus_1)
  then have low: "x AND 0xFF = take_bit 8 x" for x :: "32 word" by (simp only: take_bit_eq_mask)
  fix n assume "n < LENGTH(32)"
  moreover have "k + 8 + (n - 8) = k + n" if "8 \<le> n" using that by simp
  ultimately show "bit (push_bit 8 (drop_bit (k + 8) a) OR (drop_bit k a AND 0xFF)) n = bit (drop_bit k a) n"
    unfolding low by (auto simp: bit_or_iff bit_take_bit_iff bit_push_bit_iff bit_drop_bit_eq)
qed

lemma octets_word: "foldl (\<lambda>a n. push_bit 8 a OR of_nat n) 0 (octets a) = a" for a :: "32 word"
proof -
  have "drop_bit 32 a = 0" by (rule bit_word_eqI) (simp add: bit_drop_bit_eq)
  then have 24: "drop_bit 24 a AND 0xFF = drop_bit 24 a" using push_octet [of 24 a] by simp
  have 16: "push_bit 8 (drop_bit 24 a) OR (drop_bit 16 a AND 0xFF) = drop_bit 16 a"
    and 8: "push_bit 8 (drop_bit 16 a) OR (drop_bit 8 a AND 0xFF) = drop_bit 8 a"
    and 0: "push_bit 8 (drop_bit 8 a) OR (a AND 0xFF) = a"
    using push_octet [of 16 a] push_octet [of 8 a] push_octet [of 0 a] by simp_all
  have id: "of_nat (unat w) = w" for w :: "32 word" by simp
  show ?thesis by (simp only: octets_def list.map foldl.simps id push_bit_of_0
      or.left_neutral 24 16 8 drop_bit_0 id_apply 0)
qed

lemma octet_print: "n \<le> 255 \<Longrightarrow> octet (print_base 10 n)"
  using print_base_digits [of n] by (simp add: octet_def digits_value_print list_all_iff)

lemma print_length:
  "n < 10 ^ k \<Longrightarrow> 0 < k \<Longrightarrow> length (print_base 10 n) \<le> k"
proof (induction k arbitrary: n)
  case (Suc k)
  show ?case
  proof (cases "n < 10")
    case False
    then have "0 < k" "n div 10 < 10 ^ k" using Suc.prems(1) by (cases k; auto simp: less_mult_imp_div_less)+
    with Suc.IH False show ?thesis by (simp add: print_base_eval)
  qed (simp add: print_base_eval)
qed simp

lemma word_of_dotted:
  assumes "\<forall>f \<in> set fs. \<forall>c \<in> set f. isdigit c"
  shows "word_of (join DOT fs) = join DOT fs"
proof -
  have "\<not> isspace c" if "c \<in> set (join DOT fs)" for c
    using that assms set_join [of DOT fs] isdigit_special isspace_DOT by blast
  then show ?thesis by simp
qed

lemma length_inet_ntoa: "length (inet_ntoa a) < 16"
proof -
  have "length (print_base 10 n) \<le> 3" if "n \<in> set (octets a)" for n
    using octets_le [of a] that by (intro print_length) fastforce+
  then have "sum_list (map (\<lambda>n. length (print_base 10 n)) (octets a)) \<le> sum_list (map (\<lambda>n. 3) (octets a))"
    by (intro sum_list_mono) simp
  then show ?thesis by (simp add: inet_ntoa_join length_join octets_def comp_def)
qed

lemma inet_ntoa_dotted: "dotted (inet_ntoa a) \<and> dotted_addr (inet_ntoa a) = a \<and> word_of (inet_ntoa a) = inet_ntoa a"
proof -
  let ?fs = "map (print_base 10) (octets a)"
  have dig: "\<forall>f \<in> set ?fs. \<forall>c \<in> set f. isdigit c" using print_base_digits by auto
  have p: "parts DOT (join DOT ?fs) = ?fs"
    using dig digits_DOT by (intro parts_join) (auto simp: octets_def)
  have "list_all octet ?fs" using octets_le octet_print by (fastforce simp: list_all_iff)
  then have "dotted (join DOT ?fs)" unfolding dotted_def p by (simp add: octets_def)
  moreover have "dotted_addr (join DOT ?fs) = a"
    unfolding dotted_addr_def p foldl_map by (simp only: digits_value_print octets_word)
  ultimately show ?thesis using word_of_dotted [OF dig] by (simp add: inet_ntoa_join)
qed

text \<open>What \<open>inet_ntoa\<close> makes of an address is read back by \<open>inet_aton\<close> as the same
  address, for each of the 2 to the 32 addresses, and it fits the buffer of 16 bytes.\<close>

theorem inet_ntoa_aton: "inet_aton (inet_ntoa a) = Some a \<and> length (inet_ntoa a) < 16"
  using inet_aton_spec [of "inet_ntoa a"] inet_ntoa_dotted [of a] length_inet_ntoa [of a] by simp

section \<open>What the checks accept\<close>

lemma parts_two: "length (filter ((=) d) s) \<le> 1 \<Longrightarrow> d \<in> set s \<Longrightarrow>
  parts d s = [takeWhile ((\<noteq>) d) s, tl (dropWhile ((\<noteq>) d) s)] \<and> d \<notin> set (tl (dropWhile ((\<noteq>) d) s))"
proof (induction s)
  case (Cons x s)
  then show ?case by (cases "x = d") (auto simp: parts_simple filter_empty_conv)
qed simp

lemma length_parts: "length (parts d s) = Suc (length (filter ((=) d) s))"
  by (induction s) auto

lemma dotted_chars: "dotted s \<Longrightarrow> \<forall>c \<in> set s. isdigit c \<or> c = DOT"
proof -
  assume "dotted s"
  then have "\<forall>f \<in> set (parts DOT s). \<forall>c \<in> set f. isdigit c" by (auto simp: dotted_def octet_def list_all_iff)
  then show ?thesis using set_join [of DOT "parts DOT s"] by auto
qed

lemma prefixed_chars: "prefixed s \<Longrightarrow> isAllNumAndSlash s \<and> isOnlyOneSlash s"
proof -
  assume p: "prefixed s"
  have "\<forall>c \<in> set f. isdigit c \<or> c = DOT" if "f \<in> set (parts SLASH s)" for f
    using p that dotted_chars by (auto simp: prefixed_def list_all_iff split: list.splits)
  then have "isAllNumAndSlash s"
    using set_join [of SLASH "parts SLASH s"] by (auto simp: isAllNumAndSlash_def list_all_iff)
  moreover have "length (parts SLASH s) \<le> 2" using p by (auto simp: prefixed_def split: list.splits)
  ultimately show ?thesis by (simp add: isOnlyOneSlash_def length_parts)
qed

lemma atoi_digits: "s \<noteq> [] \<Longrightarrow> \<forall>c \<in> set s. isdigit c \<Longrightarrow> atoi s = min (2 ^ 31 - 1) (int (digits_value 0 s))"
  using dropWhile_digits [of s] isdigit_special [of "hd s"] by (cases s) (auto simp: atoi_def)

lemma dotted_no_slash: "dotted s \<Longrightarrow> SLASH \<notin> set s"
  using dotted_chars [of s] by (auto simp: isdigit_def)

lemma word_of_dotted_text: "\<forall>c \<in> set s. isdigit c \<or> c = DOT \<Longrightarrow> word_of s = s"
  using isdigit_special isspace_DOT by (subst takeWhile_eq_all_conv) blast

lemma inet_aton_prefix:
  assumes "isAllNumAndSlash s" and "SLASH \<notin> set t" and "set t \<subseteq> set s"
  shows "(inet_aton t \<noteq> None) = dotted t"
proof -
  have "\<forall>c \<in> set t. isdigit c \<or> c = DOT" using assms by (auto simp: isAllNumAndSlash_def list_all_iff)
  then show ?thesis by (simp add: inet_aton_spec word_of_dotted_text)
qed

lemma isIpNetmaskValid_spec:
  assumes "is_cstring s"
  shows "isIpNetmaskValid (Some s) =
    (if s = lit ''any'' \<or> s = lit ''any/0'' then Ret True
     else if 32 \<le> length s then Fault else Ret (prefixed s))"
proof (cases "s = [] \<or> s = lit ''any'' \<or> s = lit ''any/0'' \<or> 32 \<le> length s")
  case True
  have "strchr NUL (take 32 s) = None" if "32 \<le> length s"
  proof -
    have "strchr NUL xs = None" if "is_cstring xs" for xs using that by (induction xs) auto
    moreover have "is_cstring (take 32 s)" using assms by (auto simp: is_cstring_def dest: in_set_takeD)
    ultimately show ?thesis by blast
  qed
  moreover have "lit ''any'' \<noteq> []" "lit ''any/0'' \<noteq> []" by simp_all
  ultimately show ?thesis using True
    by (auto simp: isIpNetmaskValid_def prefixed_def dotted_def Let_def simp del: lit_Cons)
next
  case False
  then have "32 - length s = Suc (31 - length s)" by (simp add: le_diff_conv Suc_diff_le) linarith
  then have n: "strchr NUL (s @ replicate (32 - length s) NUL) = Some (Some (length s))"
    using strchr_NUL [OF assms, of "replicate (31 - length s) NUL"] by simp
  show ?thesis
  proof (cases "isAllNumAndSlash s \<and> isOnlyOneSlash s")
    case out: False
    then have "\<not> prefixed s" using prefixed_chars by blast
    with out False show ?thesis by (auto simp: isIpNetmaskValid_def n Let_def simp del: lit_Cons)
  next
    case chars: True
    let ?a = "takeWhile ((\<noteq>) SLASH) s" and ?m = "tl (dropWhile ((\<noteq>) SLASH) s)"
    have addr: "SLASH \<notin> set ?a" "set ?a \<subseteq> set s" by (auto dest: set_takeWhileD)
    show ?thesis
    proof (cases "SLASH \<in> set s")
      case no: False
      then show ?thesis using False chars inet_aton_prefix [of s s]
        by (simp add: isIpNetmaskValid_def n Let_def prefixed_def parts_simple del: lit_Cons)
    next
      case True
      then have "parts SLASH s = [?a, ?m]" using chars parts_two [of SLASH s] by (simp add: isOnlyOneSlash_def)
      moreover have "?m \<noteq> [] \<Longrightarrow> isNumOnly ?m \<Longrightarrow> (atoi ?m < 0 \<or> atoi ?m > 32) = (digits_value 0 ?m > 32)"
        using atoi_digits [of ?m] by (auto simp: isNumOnly_def list_all_iff)
      ultimately show ?thesis using False chars True inet_aton_prefix [OF _ addr]
        by (auto simp: isIpNetmaskValid_def n Let_def prefixed_def isNumOnly_def simp del: lit_Cons)
    qed
  qed
qed

text \<open>C19: \<open>isIpNetmaskValid\<close> accepts \<open>any\<close>, \<open>any/0\<close> and exactly the texts of up to 31 characters in the usual notation: four
  decimal numbers up to 255 with dots between them, optionally a slash and a prefix length up to
  32. No blank or other character gets through. A longer text makes it read behind its copy.\<close>

theorem isIpNetmaskValid_exact:
  assumes "is_cstring s"
  shows "isIpNetmaskValid (Some s) =
    (if s = lit ''any'' \<or> s = lit ''any/0'' then Ret True
     else if 32 \<le> length s then Fault else Ret (prefixed s))"
  by (rule isIpNetmaskValid_spec [OF assms])

theorem isIpNetmaskValid_exact_witness:
  "isIpNetmaskValid (Some (lit ''10.0.0.0/24'')) = Ret True \<and> isIpNetmaskValid (Some (lit ''1.2.3.4 x'')) = Ret False"
  using isIpNetmaskValid_exact [of "lit ''10.0.0.0/24''"] isIpNetmaskValid_exact [of "lit ''1.2.3.4 x''"]
  by (simp add: prefixed_def dotted_def octet_def isdigit_def)

text \<open>The texts that pass the check of addresses in filter rules.\<close>

definition net_valid :: "cstring \<Rightarrow> bool" where
  "net_valid s = (s = lit ''any'' \<or> s = lit ''any/0'' \<or> prefixed s)"

lemma isIpNetmaskValid_short:
  "is_cstring s \<Longrightarrow> length s < 32 \<Longrightarrow> isIpNetmaskValid (Some s) = Ret (net_valid s)"
  by (simp add: isIpNetmaskValid_spec net_valid_def del: lit_Cons)

end
