(* ===== verification/WebFmt.thy ===== *)
theory WebFmt
  imports RaMtd CText
begin

text \<open>
  The formatter of the web server (\<open>user/goahead/src_tongyong/misc.c\<close>): \<open>dsnprintf\<close> expands a
  format into a buffer that \<open>put_char\<close> grows in steps of 64 bytes up to a limit. Every page the
  server writes goes through it.

  The format is the byte list without its terminator; the variable arguments are a list of values
  of type \<open>farg\<close>. A directive that finds no argument of its kind reads garbage, which is a
  \<open>Fault\<close> here; so is a format that ends inside a directive, behind which the scan goes on.
  The reference is the text itself: a template is a list of pieces, and \<open>text_of\<close> says what each
  piece reads as.
\<close>

section \<open>The buffer\<close>

abbreviation (input) STR_INC :: nat where "STR_INC \<equiv> 64"

record strbuf =
  sb_s :: "byte list option"
  sb_size :: nat
  sb_max :: nat
  sb_count :: nat
  sb_realloc :: bool

datatype flag = flag_minus | flag_plus | flag_space | flag_hash | flag_zero | flag_short | flag_long

text \<open>\<open>balloc\<close> for a first block, \<open>brealloc\<close> for a larger one: the old bytes are kept.\<close>

definition grow :: "kheap \<Rightarrow> nat \<Rightarrow> byte list option \<Rightarrow> byte list option" where
  "grow h n old =
     (if \<not> kmalloc_ok h n then None
      else Some (case old of None \<Rightarrow> fresh h n | Some m \<Rightarrow> m @ drop (length m) (fresh h n)))"

definition store_char :: "strbuf \<Rightarrow> byte \<Rightarrow> strbuf outcome" where
  "store_char buf c =
     (case sb_s buf of
        None \<Rightarrow> Fault
      | Some m \<Rightarrow>
          if length m \<le> sb_count buf then Fault
          else Ret (buf\<lparr>sb_s := Some (m[sb_count buf := c]),
                 sb_count := (if c \<noteq> NUL then sb_count buf + 1 else sb_count buf)\<rparr>))"

definition put_char :: "kheap \<Rightarrow> strbuf \<Rightarrow> byte \<Rightarrow> strbuf outcome" where
  "put_char h buf c =
     (if int (sb_count buf) \<ge> int (sb_size buf) - 1 then
        if \<not> sb_realloc buf then Ret buf
        else if sb_size buf + STR_INC > sb_max buf \<and> sb_size buf + STR_INC > STR_INC then Ret buf
        else store_char (buf\<lparr>sb_size := sb_size buf + STR_INC,
               sb_s := grow h (sb_size buf + STR_INC) (sb_s buf)\<rparr>) c
      else store_char buf c)"

primrec put_chars :: "kheap \<Rightarrow> strbuf \<Rightarrow> byte list \<Rightarrow> strbuf outcome" where
  "put_chars h buf [] = Ret buf"
| "put_chars h buf (c # cs) = obind (put_char h buf c) (\<lambda>buf. put_chars h buf cs)"

text \<open>\<open>put_string\<close>: a negative \<open>len\<close> stands for the length of the string.\<close>

definition put_string :: "kheap \<Rightarrow> strbuf \<Rightarrow> cstring \<Rightarrow> int \<Rightarrow> int \<Rightarrow> int \<Rightarrow> flag set \<Rightarrow> strbuf outcome" where
  "put_string h buf s len width prec f =
     (let n = (if len < 0 then if prec \<ge> 0 then min (int (length s)) prec else int (length s)
               else if prec \<ge> 0 \<and> prec < len then prec else len);
          pad = (if width > n then replicate (nat (width - n)) 0x20 else []) in
      obind (put_chars h buf (if flag_minus \<notin> f then pad else [])) (\<lambda>buf.
      obind (if nat n > length s + 1 then Fault else put_chars h buf (take (nat n) (s @ [NUL]))) (\<lambda>buf.
      put_chars h buf (if flag_minus \<in> f then pad else []))))"

section \<open>Numbers\<close>

abbreviation (input) ULONG_MAX :: nat where "ULONG_MAX \<equiv> 4294967295"

text \<open>The number of digits and the weight of the first one. The bases are 8, 10 and 16; \<open>x * base\<close>
  stays below \<open>ULONG_MAX\<close>, so the product does not wrap.\<close>

function len_loop :: "nat \<Rightarrow> nat \<Rightarrow> nat \<Rightarrow> nat \<Rightarrow> nat \<times> nat" where
  "len_loop base value len x =
     (if 2 \<le> base \<and> 0 < x \<and> x < ULONG_MAX div base then
        if x * base > value then (len, x) else len_loop base value (len + 1) (x * base)
      else (len, x))"
  by pat_completeness auto
termination
proof (relation "measure (\<lambda>(base, value, len, x). ULONG_MAX - x)")
  fix base v len x :: nat
  assume "2 \<le> base \<and> 0 < x \<and> x < ULONG_MAX div base"
  then have "x < x * base" "x < ULONG_MAX" by (auto intro: less_le_trans [OF _ div_le_dividend])
  then show "((base, v, len + 1, x * base), base, v, len, x) \<in> measure (\<lambda>(base, value, len, x). ULONG_MAX - x)"
    by (simp add: diff_less_mono2)
qed simp

declare len_loop.simps [simp del]

definition digit_char :: "bool \<Rightarrow> nat \<Rightarrow> byte" where
  "digit_char upper d = of_nat ((if d < 10 then 0x30 else (if upper then 0x41 else 0x61) - 10) + d)"

function digit_loop :: "nat \<Rightarrow> bool \<Rightarrow> nat \<Rightarrow> nat \<Rightarrow> byte list" where
  "digit_loop base upper value x =
     (if 0 < x \<and> 2 \<le> base then
        digit_char upper (value div x mod base) # digit_loop base upper value (x div base)
      else [])"
  by pat_completeness auto
termination
  by (relation "measure (\<lambda>(base, upper, value, x). x)") auto

declare digit_loop.simps [simp del]

definition put_ulong :: "kheap \<Rightarrow> strbuf \<Rightarrow> 32 word \<Rightarrow> nat \<Rightarrow> bool \<Rightarrow> cstring option \<Rightarrow> int \<Rightarrow> int \<Rightarrow> flag set \<Rightarrow> strbuf outcome" where
  "put_ulong h buf value base upper prefix width prec f =
     (let (len, x) = len_loop base (unat value) 1 1;
          zeros = (if prec > int len then prec - int len else 0);
          width = width - (zeros + int len);
          width = (case prefix of None \<Rightarrow> width | Some s \<Rightarrow> width - int (length s)) in
      obind (if flag_minus \<in> f then Ret buf
             else put_chars h buf (replicate (nat width) (if flag_zero \<in> f then 0x30 else 0x20))) (\<lambda>buf.
      obind (case prefix of None \<Rightarrow> Ret buf | Some s \<Rightarrow> put_string h buf s (- 1) 0 (- 1) {}) (\<lambda>buf.
      obind (put_chars h buf (replicate (nat zeros) 0x30)) (\<lambda>buf.
      obind (put_chars h buf (digit_loop base upper (unat value) x)) (\<lambda>buf.
      if flag_minus \<in> f then put_chars h buf (replicate (nat width) 0x20) else Ret buf)))))"

section \<open>Formats\<close>

datatype farg = AInt "32 word" | AStr "cstring option"

definition flag_of :: "byte \<Rightarrow> flag option" where
  "flag_of c =
     (if c = 0x2D then Some flag_minus else if c = 0x2B then Some flag_plus
      else if c = 0x20 then Some flag_space else if c = 0x23 then Some flag_hash
      else if c = 0x30 then Some flag_zero else None)"

fun parse_flags :: "byte list \<Rightarrow> flag set \<Rightarrow> flag set \<times> byte list" where
  "parse_flags [] f = (f, [])"
| "parse_flags (c # fmt) f = (case flag_of c of Some g \<Rightarrow> parse_flags fmt (insert g f) | None \<Rightarrow> (f, c # fmt))"

fun parse_num :: "byte list \<Rightarrow> int \<Rightarrow> int \<times> byte list" where
  "parse_num [] n = (n, [])"
| "parse_num (c # fmt) n = (if isdigit c then parse_num fmt (n * 10 + (int (unat c) - 0x30)) else (n, c # fmt))"

text \<open>A \<open>*\<close> takes the number from the arguments.\<close>

definition parse_star :: "byte list \<Rightarrow> farg list \<Rightarrow> (int \<times> byte list \<times> farg list) outcome" where
  "parse_star fmt args =
     (case fmt of
        c # fmt' \<Rightarrow>
          if c = 0x2A then (case args of AInt w # args \<Rightarrow> Ret (sint w, fmt', args) | _ \<Rightarrow> Fault)
          else (let (n, fmt) = parse_num fmt 0 in Ret (n, fmt, args))
      | [] \<Rightarrow> Ret (0, [], args))"

definition parse_width :: "byte list \<Rightarrow> farg list \<Rightarrow> flag set \<Rightarrow> (int \<times> flag set \<times> byte list \<times> farg list) outcome" where
  "parse_width fmt args f = obind (parse_star fmt args) (\<lambda>(n, fmt, args).
     Ret (if n < 0 then (- n, insert flag_minus f, fmt, args) else (n, f, fmt, args)))"

definition parse_prec :: "byte list \<Rightarrow> farg list \<Rightarrow> flag set \<Rightarrow> (int \<times> flag set \<times> byte list \<times> farg list) outcome" where
  "parse_prec fmt args f =
     (if fmt \<noteq> [] \<and> hd fmt = 0x2E then
        obind (parse_star (tl fmt) args) (\<lambda>(n, fmt, args). Ret (n, f - {flag_zero}, fmt, args))
      else Ret (- 1, f, fmt, args))"

definition parse_size :: "byte list \<Rightarrow> flag set \<Rightarrow> flag set \<times> byte list" where
  "parse_size fmt f =
     (case fmt of
        c # fmt' \<Rightarrow>
          if c = 0x68 then (insert flag_short f, fmt')
          else if c = 0x6C then (insert flag_long f, fmt') else (f, fmt)
      | [] \<Rightarrow> (f, []))"

text \<open>One conversion: \<open>short\<close> arguments are converted from \<open>int\<close>.\<close>

definition put_signed :: "kheap \<Rightarrow> strbuf \<Rightarrow> 32 word \<Rightarrow> int \<Rightarrow> int \<Rightarrow> flag set \<Rightarrow> strbuf outcome" where
  "put_signed h buf w width prec f =
     (let value = (if flag_short \<in> f then scast (ucast w :: 16 word) else w) in
      if 0 \<le>s value then
        put_ulong h buf value 10 False
          (if flag_plus \<in> f then Some [0x2B] else if flag_space \<in> f then Some [0x20] else None) width prec f
      else put_ulong h buf (- value) 10 False (Some [0x2D]) width prec f)"

definition put_unsigned :: "kheap \<Rightarrow> strbuf \<Rightarrow> byte \<Rightarrow> 32 word \<Rightarrow> int \<Rightarrow> int \<Rightarrow> flag set \<Rightarrow> strbuf outcome" where
  "put_unsigned h buf c w width prec f =
     (let value = (if flag_short \<in> f then ucast (ucast w :: 16 word) else w);
          alt = (flag_hash \<in> f \<and> value \<noteq> 0) in
      if c = 0x6F then put_ulong h buf value 8 False (if alt then Some [0x30] else None) width prec f
      else if c = 0x75 then put_ulong h buf value 10 False None width prec f
      else put_ulong h buf value 16 (c = 0x58)
             (if alt then Some (if c = 0x78 then [0x30, 0x78] else [0x30, 0x58]) else None) width prec f)"

definition convert :: "kheap \<Rightarrow> strbuf \<Rightarrow> byte \<Rightarrow> int \<Rightarrow> int \<Rightarrow> flag set \<Rightarrow> farg list \<Rightarrow> (strbuf \<times> farg list) outcome" where
  "convert h buf c width prec f args =
     (if c = 0x64 \<or> c = 0x69 then
        (case args of AInt w # args \<Rightarrow> obind (put_signed h buf w width prec f) (\<lambda>buf. Ret (buf, args)) | _ \<Rightarrow> Fault)
      else if c = 0x6F \<or> c = 0x75 \<or> c = 0x78 \<or> c = 0x58 then
        (case args of AInt w # args \<Rightarrow> obind (put_unsigned h buf c w width prec f) (\<lambda>buf. Ret (buf, args)) | _ \<Rightarrow> Fault)
      else if c = 0x63 then
        (case args of AInt w # args \<Rightarrow> obind (put_char h buf (ucast w)) (\<lambda>buf. Ret (buf, args)) | _ \<Rightarrow> Fault)
      else if c = 0x73 \<or> c = 0x53 then
        (case args of
           AStr None # args \<Rightarrow> obind (put_string h buf (lit ''(null)'') (- 1) width prec f) (\<lambda>buf. Ret (buf, args))
         | AStr (Some s) # args \<Rightarrow>
             obind (if flag_hash \<in> f then
                 (case s of [] \<Rightarrow> put_string h buf [] 0 width prec f | x # xs \<Rightarrow> put_string h buf xs (sint x) width prec f)
               else put_string h buf s (- 1) width prec f) (\<lambda>buf. Ret (buf, args))
         | _ \<Rightarrow> Fault)
      else if c = 0x70 then
        (case args of AInt w # args \<Rightarrow>
           obind (put_ulong h buf w 16 False (Some [0x30, 0x78]) width prec f) (\<lambda>buf. Ret (buf, args)) | _ \<Rightarrow> Fault)
      else if c = 0x6E then Fault
      else obind (put_char h buf c) (\<lambda>buf. Ret (buf, args)))"

lemma parse_lengths:
  "length (snd (parse_flags fmt f)) \<le> length fmt" "length (snd (parse_num fmt n)) \<le> length fmt"
  "length (snd (parse_size fmt f)) \<le> length fmt"
proof -
  show "length (snd (parse_flags fmt f)) \<le> length fmt"
    by (induction fmt f rule: parse_flags.induct) (auto simp: le_SucI split: option.split)
  show "length (snd (parse_num fmt n)) \<le> length fmt"
    by (induction fmt n rule: parse_num.induct) (auto simp: le_SucI)
  show "length (snd (parse_size fmt f)) \<le> length fmt"
    by (simp add: parse_size_def split: list.split)
qed

text \<open>A whole directive behind its percent sign: flags, width, precision, size, conversion.\<close>

definition directive :: "kheap \<Rightarrow> strbuf \<Rightarrow> byte list \<Rightarrow> farg list \<Rightarrow> (strbuf \<times> byte list \<times> farg list) outcome" where
  "directive h buf fmt args =
     (let (f, fmt) = parse_flags fmt {} in
      obind (parse_width fmt args f) (\<lambda>(width, f, fmt, args).
      obind (parse_prec fmt args f) (\<lambda>(prec, f, fmt, args).
      let (f, fmt) = parse_size fmt f in
      case fmt of
        [] \<Rightarrow> Fault
      | c # fmt \<Rightarrow> obind (convert h buf c width prec f args) (\<lambda>(buf, args). Ret (buf, fmt, args)))))"

lemma parse_star_length: "parse_star fmt args = Ret (n, fmt', args') \<Longrightarrow> length fmt' \<le> length fmt"
  using parse_lengths(2) [of fmt 0]
  by (auto simp: parse_star_def split: list.splits if_splits farg.splits prod.splits)

lemma parse_width_length: "parse_width fmt args f = Ret (n, f', fmt', args') \<Longrightarrow> length fmt' \<le> length fmt"
  by (auto simp: parse_width_def outcome_simps split: if_splits dest: parse_star_length)

lemma parse_prec_length: "parse_prec fmt args f = Ret (n, f', fmt', args') \<Longrightarrow> length fmt' \<le> length fmt"
  by (auto simp: parse_prec_def outcome_simps split: if_splits dest!: parse_star_length)

lemma directive_shorter:
  assumes "directive h buf fmt args = Ret (buf', fmt', args')"
  shows "length fmt' < length fmt"
proof -
  obtain f1 fmt1 where 1: "parse_flags fmt {} = (f1, fmt1)" by force
  obtain w f2 fmt2 args2 where 2: "parse_width fmt1 args f1 = Ret (w, f2, fmt2, args2)"
    using assms 1 by (auto simp: directive_def outcome_simps)
  obtain p f3 fmt3 args3 where 3: "parse_prec fmt2 args2 f2 = Ret (p, f3, fmt3, args3)"
    using assms 1 2 by (auto simp: directive_def outcome_simps)
  obtain f4 fmt4 where 4: "parse_size fmt3 f3 = (f4, fmt4)" by force
  have "length fmt' < length fmt4"
    using assms 1 2 3 4 by (auto simp: directive_def outcome_simps split: list.splits)
  moreover have "length fmt4 \<le> length fmt3" "length fmt1 \<le> length fmt"
    using parse_lengths(3) [of fmt3 f3] parse_lengths(1) [of fmt "{}"] 1 4 by simp_all
  ultimately show ?thesis using parse_width_length [OF 2] parse_prec_length [OF 3] by linarith
qed

function fmt_loop :: "kheap \<Rightarrow> strbuf \<Rightarrow> byte list \<Rightarrow> farg list \<Rightarrow> strbuf outcome" where
  "fmt_loop h buf fmt args =
     (case fmt of
        [] \<Rightarrow> Ret buf
      | c # rest \<Rightarrow>
          if c \<noteq> 0x25 \<or> rest \<noteq> [] \<and> hd rest = 0x25 then
            (case put_char h buf c of
               Ret buf' \<Rightarrow> fmt_loop h buf' (if c \<noteq> 0x25 then rest else tl rest) args
             | Fault \<Rightarrow> Fault | Blocked \<Rightarrow> Blocked)
          else (case directive h buf rest args of
                  Ret (buf', fmt', args') \<Rightarrow> fmt_loop h buf' fmt' args'
                | Fault \<Rightarrow> Fault | Blocked \<Rightarrow> Blocked))"
  by pat_completeness auto
termination
  by (relation "measure (\<lambda>(h, buf, fmt, args). length fmt)")
    (auto simp: less_Suc_eq dest: directive_shorter)

declare fmt_loop.simps [simp del]

text \<open>\<open>dsnprintf\<close> returns its result and what it leaves in \<open>*s\<close>.\<close>

definition start_buf :: "byte list option \<Rightarrow> nat \<Rightarrow> int \<Rightarrow> strbuf outcome" where
  "start_buf s n msize =
     (if s = None \<or> msize \<noteq> 0 then
        obind (case s of
            Some m \<Rightarrow> if msize \<noteq> 0 then (case strchr NUL m of Some (Some k) \<Rightarrow> Ret k | _ \<Rightarrow> Fault) else Ret 0
          | None \<Rightarrow> Ret 0) (\<lambda>k.
        Ret \<lparr>sb_s = s, sb_size = (if msize \<noteq> 0 then nat msize else 0), sb_max = n, sb_count = k, sb_realloc = True\<rparr>)
      else Ret \<lparr>sb_s = s, sb_size = n, sb_max = 0, sb_count = 0, sb_realloc = False\<rparr>)"

definition end_buf :: "byte list option \<Rightarrow> nat \<Rightarrow> strbuf \<Rightarrow> byte list option outcome" where
  "end_buf s n buf =
     (case s of
        None \<Rightarrow> Ret None
      | Some m \<Rightarrow>
          if n = 0 then Ret (Some m)
          else let k = (if sb_count buf < n then sb_count buf else sb_size buf - 1) in
            if length m \<le> k then Fault else Ret (Some (m[k := NUL])))"

definition dsnprintf :: "kheap \<Rightarrow> byte list option \<Rightarrow> nat \<Rightarrow> byte list \<Rightarrow> farg list \<Rightarrow> int \<Rightarrow> (int \<times> byte list option) outcome" where
  "dsnprintf h s n fmt args msize =
     obind (start_buf s n msize) (\<lambda>buf.
     obind (fmt_loop h buf fmt args) (\<lambda>buf.
     obind (if sb_s buf = None then put_char h buf NUL else Ret buf) (\<lambda>buf.
     obind (end_buf (sb_s buf) n buf) (\<lambda>m.
     Ret (if msize \<noteq> 0 then int (sb_size buf) else int (sb_count buf), m)))))"

definition fmtValloc :: "kheap \<Rightarrow> nat \<Rightarrow> byte list \<Rightarrow> farg list \<Rightarrow> (int \<times> byte list option) outcome" where
  "fmtValloc h n fmt args = dsnprintf h None n fmt args 0"

definition fmtAlloc :: "kheap \<Rightarrow> nat \<Rightarrow> byte list \<Rightarrow> farg list \<Rightarrow> (int \<times> byte list option) outcome" where
  "fmtAlloc h n fmt args = dsnprintf h None n fmt args 0"

definition fmtStatic :: "kheap \<Rightarrow> byte list \<Rightarrow> int \<Rightarrow> byte list \<Rightarrow> farg list \<Rightarrow> (int \<times> byte list option) outcome" where
  "fmtStatic h s n fmt args =
     (if n \<le> 0 then Ret (- 1, Some s) else dsnprintf h (Some s) (nat n) fmt args 0)"

definition fmtRealloc :: "kheap \<Rightarrow> byte list option \<Rightarrow> nat \<Rightarrow> int \<Rightarrow> byte list \<Rightarrow> farg list \<Rightarrow> (int \<times> byte list option) outcome" where
  "fmtRealloc h s n msize fmt args = dsnprintf h (if msize = - 1 then None else s) n fmt args msize"

section \<open>What the buffer holds\<close>

text \<open>The largest size the buffer reaches: the limit rounded down to whole steps, at least one.\<close>

definition cap :: "nat \<Rightarrow> nat" where
  "cap M = (if M < STR_INC then STR_INC else M div STR_INC * STR_INC)"

definition holds :: "nat \<Rightarrow> strbuf \<Rightarrow> cstring \<Rightarrow> bool" where
  "holds M buf t = (sb_realloc buf \<and> sb_max buf = M \<and> sb_count buf = length t
     \<and> STR_INC dvd sb_size buf \<and> sb_size buf \<le> cap M
     \<and> (case sb_s buf of
          None \<Rightarrow> sb_size buf = 0 \<and> t = []
        | Some m \<Rightarrow> length m = sb_size buf \<and> take (length t) m = t \<and> length t < sb_size buf))"

lemma cap_step: "STR_INC dvd n \<Longrightarrow> 0 < n \<Longrightarrow> n \<le> cap M \<Longrightarrow> (n + STR_INC > M \<longleftrightarrow> n = cap M)"
  by (auto simp: cap_def elim!: dvdE split: if_splits)

lemma cap_pos: "STR_INC \<le> cap M"
  by (auto simp: cap_def)

lemma holds_length:
  assumes "holds M buf t"
  shows "length t \<le> cap M - 1"
  using assms cap_pos [of M] by (auto simp: holds_def split: option.splits)

lemma store_char_holds:
  assumes "sb_s buf = Some m" and "length t < length m" and "sb_count buf = length t" and "take (length t) m = t"
    and "c \<noteq> NUL"
  shows "store_char buf c = Ret (buf\<lparr>sb_s := Some (m[length t := c]), sb_count := length (t @ [c])\<rparr>)"
    "take (length (t @ [c])) (m[length t := c]) = t @ [c]"
proof -
  show "store_char buf c = Ret (buf\<lparr>sb_s := Some (m[length t := c]), sb_count := length (t @ [c])\<rparr>)"
    using assms by (simp add: store_char_def)
  show "take (length (t @ [c])) (m[length t := c]) = t @ [c]"
    using assms(2,4) by (simp add: take_Suc_conv_app_nth)
qed

lemma put_char_holds:
  assumes h: "\<And>n. kmalloc_ok h n" and b: "holds M buf t" and c: "c \<noteq> NUL"
  shows "\<exists>buf'. put_char h buf c = Ret buf' \<and> holds M buf' (take (cap M - 1) (t @ [c]))"
proof (cases "int (sb_count buf) \<ge> int (sb_size buf) - 1")
  case False
  then obtain m where m: "sb_s buf = Some m" "length m = sb_size buf" "take (length t) m = t" "length t + 1 < sb_size buf"
    using b by (auto simp: holds_def split: option.splits)
  have "put_char h buf c = Ret (buf\<lparr>sb_s := Some (m[length t := c]), sb_count := length (t @ [c])\<rparr>)"
    using False store_char_holds(1) [of buf m t c] b m c by (simp add: put_char_def holds_def)
  moreover have "take (cap M - 1) (t @ [c]) = t @ [c]"
    using m(4) b by (intro take_all) (auto simp: holds_def)
  ultimately show ?thesis
    using store_char_holds(2) [of buf m t c] b m c by (auto simp: holds_def)
next
  case full: True
  show ?thesis
  proof (cases "sb_size buf = cap M")
    case True
    moreover have "0 < sb_size buf" using True cap_pos [of M] by simp
    ultimately have "put_char h buf c = Ret buf" "length t = cap M - 1"
      using full b cap_step [of "sb_size buf" M] by (auto simp: put_char_def holds_def split: option.splits)
    then show ?thesis using b by simp
  next
    case False
    let ?n = "sb_size buf + STR_INC"
    have n: "\<not> (?n > sb_max buf \<and> ?n > STR_INC)" "?n \<le> cap M"
      using b False cap_step [of "sb_size buf" M] cap_pos [of M] unfolding holds_def
      by (auto elim!: dvdE simp: cap_def split: if_splits)
    obtain m where m: "grow h ?n (sb_s buf) = Some m" "length m = ?n" "take (length t) m = t" "length t < ?n"
      using b h by (auto simp: grow_def holds_def split: option.splits)
    have t: "take (cap M - 1) (t @ [c]) = t @ [c]"
      using n(2) full b cap_pos [of M] by (intro take_all) (auto simp: holds_def split: option.splits)
    let ?b = "buf\<lparr>sb_size := ?n, sb_s := Some m\<rparr>"
    have "put_char h buf c = store_char ?b c" using full n(1) m(1) b
      unfolding put_char_def if_not_P [OF n(1)] by (simp add: holds_def)
    also have "\<dots> = Ret (?b\<lparr>sb_s := Some (m[length t := c]), sb_count := length (t @ [c])\<rparr>)"
      using m b c by (intro store_char_holds) (simp_all add: holds_def)
    finally have "put_char h buf c = Ret (?b\<lparr>sb_s := Some (m[length t := c]), sb_count := length (t @ [c])\<rparr>)" .
    moreover have "take (length (t @ [c])) (m[length t := c]) = t @ [c]"
      using store_char_holds(2) [of ?b m t c] m b c by (simp add: holds_def)
    moreover have "length (t @ [c]) < ?n" using full b by (auto simp: holds_def split: option.splits)
    ultimately show ?thesis using b n(2) m(2) unfolding t by (auto simp: holds_def)
  qed
qed

lemma put_chars_append: "put_chars h buf (xs @ ys) = obind (put_chars h buf xs) (\<lambda>buf. put_chars h buf ys)"
  by (induction xs arbitrary: buf) (auto simp: obind_assoc)

lemma put_chars_holds:
  assumes h: "\<And>n. kmalloc_ok h n" and "holds M buf (take (cap M - 1) t)" and "is_cstring cs"
  shows "\<exists>buf'. put_chars h buf cs = Ret buf' \<and> holds M buf' (take (cap M - 1) (t @ cs))"
  using assms(2,3)
proof (induction cs arbitrary: buf t)
  case (Cons c cs)
  obtain b1 where b1: "put_char h buf c = Ret b1" "holds M b1 (take (cap M - 1) (take (cap M - 1) t @ [c]))"
    using put_char_holds [OF h Cons.prems(1), of c] Cons.prems(2) by auto
  have "take (cap M - 1) (take (cap M - 1) t @ [c]) = take (cap M - 1) (t @ [c])"
    by (cases "length t \<le> cap M - 1") simp_all
  then obtain b2 where "put_chars h b1 cs = Ret b2" "holds M b2 (take (cap M - 1) ((t @ [c]) @ cs))"
    using Cons.IH [of b1 "t @ [c]"] b1(2) Cons.prems(2) by auto
  with b1(1) show ?case by simp
qed simp

section \<open>Numbers are written in their base\<close>

lemma digit_loop_power:
  assumes "2 \<le> b"
  shows "digit_loop b up v (b ^ Suc k) = digit_loop b up (v div b) (b ^ k) @ [digit_char up (v mod b)]"
proof (induction k)
  case 0
  show ?case using assms by (simp add: digit_loop.simps)
next
  case (Suc k)
  have "digit_loop b up v (b ^ Suc (Suc k)) = digit_char up (v div b ^ Suc (Suc k) mod b) # digit_loop b up v (b ^ Suc k)"
    using assms by (subst digit_loop.simps) simp
  moreover have "digit_loop b up (v div b) (b ^ Suc k)
      = digit_char up (v div b div b ^ Suc k mod b) # digit_loop b up (v div b) (b ^ k)"
    using assms by (subst digit_loop.simps) simp
  ultimately show ?case using Suc by (simp add: div_mult2_eq)
qed

lemma len_loop_power:
  assumes "2 \<le> b" and "b ^ k \<le> v \<or> k = 0" and "v \<le> ULONG_MAX"
  shows "\<exists>n. len_loop b v (Suc k) (b ^ k) = (Suc n, b ^ n) \<and> (b ^ n \<le> v \<or> n = 0)
    \<and> (v < b ^ Suc n \<or> ULONG_MAX div b \<le> b ^ n)"
  using assms
proof (induction "ULONG_MAX - b ^ k" arbitrary: k rule: less_induct)
  case less
  show ?case
  proof (cases "b ^ k < ULONG_MAX div b \<and> b ^ Suc k \<le> v")
    case True
    have "b ^ k < b ^ Suc k" using less.prems(1) by simp
    moreover have "b ^ Suc k \<le> ULONG_MAX" using True less.prems(3) by linarith
    ultimately have "ULONG_MAX - b ^ Suc k < ULONG_MAX - b ^ k" by linarith
    then obtain n where "len_loop b v (Suc (Suc k)) (b ^ Suc k) = (Suc n, b ^ n) \<and> (b ^ n \<le> v \<or> n = 0)
        \<and> (v < b ^ Suc n \<or> ULONG_MAX div b \<le> b ^ n)"
      using less.hyps [of "Suc k"] less.prems True by blast
    then show ?thesis using True less.prems(1)
      by (subst len_loop.simps) (auto simp: mult.commute)
  next
    case False
    then show ?thesis using less.prems by (subst len_loop.simps) (auto simp: mult.commute intro!: exI [of _ k])
  qed
qed

lemma digit_loop_print:
  assumes "b ^ n \<le> v \<or> n = 0" and "v < b ^ Suc n" and "2 \<le> b" and "b \<le> 10"
  shows "digit_loop b up v (b ^ n) = print_base b v"
  using assms(1,2)
proof (induction n arbitrary: v)
  case 0
  then show ?case using assms(3,4)
    by (simp add: digit_loop.simps print_base_eval(1) digit_char_def digit_def)
next
  case (Suc n)
  have v: "b ^ n \<le> v div b" "v div b < b ^ Suc n" "b \<le> v"
  proof -
    show "b ^ n \<le> v div b" using Suc.prems(1) assms(3) by (simp add: less_eq_div_iff_mult_less_eq mult.commute)
    show "v div b < b ^ Suc n" using Suc.prems(2) assms(3) by (simp add: div_less_iff_less_mult mult.commute)
    have "b ^ 1 \<le> b ^ Suc n" using assms(3) by (intro power_increasing) simp_all
    also have "b ^ Suc n \<le> v" using Suc.prems(1) by simp
    finally show "b \<le> v" by simp
  qed
  have "v mod b < 10" using assms(3,4) mod_less_divisor [of b v] by linarith
  then have "digit_char up (v mod b) = digit (v mod b)" by (simp add: digit_char_def digit_def)
  then show ?case
    unfolding digit_loop_power [OF assms(3)] using Suc.IH [of "v div b"] v assms(3) by (simp add: print_base_eval(2))
qed

lemma decimal_digits:
  assumes "v \<le> ULONG_MAX"
  obtains n where "len_loop 10 v 1 1 = (Suc n, 10 ^ n)" "digit_loop 10 up v (10 ^ n) = print_base 10 v"
proof -
  obtain n where n: "len_loop 10 v 1 1 = (Suc n, 10 ^ n)" "10 ^ n \<le> v \<or> n = 0" "v < 10 ^ Suc n \<or> ULONG_MAX div 10 \<le> 10 ^ n"
    using len_loop_power [of 10 0 v] assms by auto
  have "v < 10 ^ Suc n"
  proof (rule ccontr)
    assume big: "\<not> v < 10 ^ Suc n"
    then have "429496729 \<le> (10 :: nat) ^ n" "(10 :: nat) ^ Suc n \<le> 4294967295" using n(3) assms by auto
    then have "(10 :: nat) ^ 8 < 10 ^ n" "(10 :: nat) ^ Suc n < 10 ^ 10" by auto
    then show False by (simp only: power_strict_increasing_iff)
  qed
  with n that show thesis using digit_loop_print [of 10 n v up] by simp
qed

section \<open>Writing to the browser\<close>

abbreviation (input) WEBS_BUFSIZE :: nat where "WEBS_BUFSIZE \<equiv> 1000"

text \<open>\<open>websWrite\<close> (\<open>webs.c\<close>): the page is the list of the bytes written to the socket so far;
  \<open>websWriteBlock\<close> repeats the write until all of them are taken.\<close>

definition websWrite :: "kheap \<Rightarrow> byte list \<Rightarrow> byte list \<Rightarrow> farg list \<Rightarrow> (int \<times> byte list) outcome" where
  "websWrite h page fmt args = obind (fmtValloc h WEBS_BUFSIZE fmt args) (\<lambda>(n, m).
     case m of None \<Rightarrow> Ret (0, page) | Some m \<Rightarrow> Ret (int (length (cstr m)), page @ cstr m))"

text \<open>Reference: templates.\<close>

datatype piece = Text cstring | Str cstring | Dec "32 word"

primrec fmt_of :: "piece \<Rightarrow> byte list" where
  "fmt_of (Text t) = t" | "fmt_of (Str s) = [0x25, 0x73]" | "fmt_of (Dec w) = [0x25, 0x64]"

primrec args_of :: "piece \<Rightarrow> farg list" where
  "args_of (Text t) = []" | "args_of (Str s) = [AStr (Some s)]" | "args_of (Dec w) = [AInt w]"

primrec text_of :: "piece \<Rightarrow> cstring" where
  "text_of (Text t) = t" | "text_of (Str s) = s" | "text_of (Dec w) = fmt_d (sint w)"

primrec piece_ok :: "piece \<Rightarrow> bool" where
  "piece_ok (Text t) = (is_cstring t \<and> 0x25 \<notin> set t)"
| "piece_ok (Str s) = is_cstring s"
| "piece_ok (Dec w) = True"

lemma put_string_plain: "put_string h buf s (- 1) 0 (- 1) {} = put_chars h buf s"
  by (cases "put_chars h buf s") (simp_all add: put_string_def Let_def)

lemma put_ulong_decimal:
  "put_ulong h buf w 10 False prefix 0 (- 1) {}
    = put_chars h buf ((case prefix of None \<Rightarrow> [] | Some s \<Rightarrow> s) @ print_base 10 (unat w))"
proof -
  have "unat w < 2 ^ LENGTH(32)" by (rule unsigned_less)
  then have "unat w \<le> ULONG_MAX" by simp
  then obtain n where n: "len_loop 10 (unat w) 1 1 = (Suc n, 10 ^ n)"
    "digit_loop 10 False (unat w) (10 ^ n) = print_base 10 (unat w)" by (rule decimal_digits)
  have ret: "obind (put_chars h b xs) (\<lambda>buf. Ret buf) = put_chars h b xs" for b xs by (cases "put_chars h b xs") auto
  show ?thesis using n
    by (cases prefix) (simp_all add: put_ulong_def Let_def put_chars_append put_string_plain ret)
qed

lemma put_signed_plain: "put_signed h buf w 0 (- 1) {} = put_chars h buf (fmt_d (sint w))"
proof (cases "0 \<le> sint w")
  case True
  then have "uint w = sint w" using sint_lt [of w] by (simp add: uint_sint take_bit_eq_mod)
  then have "unat w = nat (sint w)" by (simp flip: nat_uint_eq)
  with True show ?thesis by (simp add: put_signed_def put_ulong_decimal fmt_d_def word_sle_eq)
next
  case False
  then have "uint (- w) = - sint w" using sint_ge [of w]
    by (simp add: uint_word_ariths uint_sint [of w] take_bit_eq_mod mod_minus_eq)
  then have "unat (- w) = nat (- sint w)" by (simp flip: nat_uint_eq)
  with False show ?thesis by (simp add: put_signed_def put_ulong_decimal fmt_d_def word_sle_eq)
qed

lemma fmt_loop_text:
  "0x25 \<notin> set xs \<Longrightarrow> fmt_loop h buf (xs @ rest) args = obind (put_chars h buf xs) (\<lambda>b. fmt_loop h b rest args)"
proof (induction xs arbitrary: buf)
  case (Cons x xs)
  then show ?case by (subst fmt_loop.simps) (auto simp: obind_assoc split: outcome.split)
qed simp

lemmas directive_simps = directive_def parse_width_def parse_star_def parse_prec_def parse_size_def flag_of_def isdigit_def

lemma fmt_loop_piece:
  assumes "piece_ok p"
  shows "fmt_loop h buf (fmt_of p @ rest) (args_of p @ args)
    = obind (put_chars h buf (text_of p)) (\<lambda>b. fmt_loop h b rest args)"
proof (cases p)
  case (Text t)
  with assms show ?thesis by (simp add: fmt_loop_text)
next
  case (Str s)
  have "directive h buf (0x73 # rest) (AStr (Some s) # args) = obind (put_chars h buf s) (\<lambda>b. Ret (b, rest, args))"
    by (simp add: directive_simps convert_def put_string_plain obind_assoc)
  with Str show ?thesis by (subst fmt_loop.simps) (cases "put_chars h buf s"; simp)
next
  case (Dec w)
  have "directive h buf (0x64 # rest) (AInt w # args) = obind (put_chars h buf (fmt_d (sint w))) (\<lambda>b. Ret (b, rest, args))"
    by (simp add: directive_simps convert_def put_signed_plain obind_assoc)
  with Dec show ?thesis by (subst fmt_loop.simps) (cases "put_chars h buf (fmt_d (sint w))"; simp)
qed

lemma is_cstring_fmt_d: "is_cstring (fmt_d i)"
proof -
  have "\<not> isdigit NUL" by (simp add: isdigit_def)
  then have "NUL \<notin> set (print_base 10 n)" for n using print_base_digits by blast
  then show ?thesis by (simp add: fmt_d_def is_cstring_def)
qed

lemma is_cstring_text: "piece_ok p \<Longrightarrow> is_cstring (text_of p)"
  by (cases p) (auto simp: is_cstring_fmt_d)

lemma fmt_loop_template:
  assumes h: "\<And>n. kmalloc_ok h n" and "\<forall>p \<in> set ps. piece_ok p" and "holds M buf (take (cap M - 1) t)"
  shows "\<exists>buf'. fmt_loop h buf (concat (map fmt_of ps)) (concat (map args_of ps)) = Ret buf'
    \<and> holds M buf' (take (cap M - 1) (t @ concat (map text_of ps)))"
  using assms(2,3)
proof (induction ps arbitrary: buf t)
  case Nil
  then show ?case by (simp add: fmt_loop.simps)
next
  case (Cons p ps)
  obtain b where b: "put_chars h buf (text_of p) = Ret b" "holds M b (take (cap M - 1) (t @ text_of p))"
    using put_chars_holds [OF h Cons.prems(2), of "text_of p"] Cons.prems(1) is_cstring_text by auto
  with Cons.IH [OF _ b(2)] Cons.prems(1) show ?case by (simp add: fmt_loop_piece)
qed

lemma fmtValloc_template:
  assumes h: "\<And>n. kmalloc_ok h n" and ps: "\<forall>p \<in> set ps. piece_ok p" and M: "STR_INC \<le> M"
    and t: "t = take (cap M - 1) (concat (map text_of ps))"
  shows "\<exists>m. fmtValloc h M (concat (map fmt_of ps)) (concat (map args_of ps)) = Ret (int (length t), Some m) \<and> cstr m = t"
proof -
  let ?b0 = "\<lparr>sb_s = None, sb_size = 0, sb_max = M, sb_count = 0, sb_realloc = True\<rparr>"
  have "holds M ?b0 (take (cap M - 1) [])" by (simp add: holds_def)
  then obtain b where b: "fmt_loop h ?b0 (concat (map fmt_of ps)) (concat (map args_of ps)) = Ret b" "holds M b t"
    using fmt_loop_template [OF h ps, of M ?b0 "[]"] t by auto
  have c: "is_cstring t" using ps is_cstring_text unfolding t is_cstring_def by (fastforce dest: in_set_takeD)
  have "length t < M" using holds_length [OF b(2)] M by (auto simp: cap_def split: if_splits)
  show ?thesis
  proof (cases "sb_s b")
    case None
    then have "t = []" "sb_size b = 0" "sb_count b = 0" "sb_realloc b" using b(2) by (auto simp: holds_def)
    with None have "put_char h b NUL = Ret (b\<lparr>sb_size := STR_INC, sb_s := Some ((fresh h STR_INC)[0 := NUL]), sb_count := 0\<rparr>)"
      using h by (simp add: put_char_def store_char_def grow_def)
    moreover have "cstr ((fresh h STR_INC)[0 := NUL]) = []" by (simp add: cstr_def fresh_def upt_rec)
    ultimately show ?thesis using None b(1) M \<open>t = []\<close>
      by (simp add: fmtValloc_def dsnprintf_def start_buf_def end_buf_def Let_def)
  next
    case (Some m)
    then have m: "length t < length m" "take (length t) m = t" "sb_count b = length t" using b(2) by (auto simp: holds_def)
    have "m[length t := NUL] = t @ NUL # drop (Suc (length t)) m"
      using m(1,2) by (simp add: upd_conv_take_nth_drop)
    then have "cstr (m[length t := NUL]) = t" using c by simp
    with Some m b(1) \<open>length t < M\<close> show ?thesis
      by (simp add: fmtValloc_def dsnprintf_def start_buf_def end_buf_def Let_def)
  qed
qed

text \<open>C32: \<open>websWrite\<close> with a template of text, strings and signed numbers writes the text the
  template stands for, numbers in decimal, cut off behind 959 characters: the buffer grows in
  steps of 64 and 960 is the last step that does not pass the limit of 1000.\<close>

theorem websWrite_renders:
  assumes "\<forall>n. kmalloc_ok h n" and "\<forall>p \<in> set ps. piece_ok p"
    and "out = take 959 (concat (map text_of ps))"
  shows "websWrite h pg (concat (map fmt_of ps)) (concat (map args_of ps)) = Ret (int (length out), pg @ out)"
proof -
  have "out = take (cap 1000 - 1) (concat (map text_of ps))" using assms(3) by (simp add: cap_def)
  then obtain m where "fmtValloc h 1000 (concat (map fmt_of ps)) (concat (map args_of ps)) = Ret (int (length out), Some m)"
    "cstr m = out"
    using fmtValloc_template [of h ps 1000 out] assms(1,2) by auto
  then show ?thesis by (simp add: websWrite_def)
qed

definition demo_pieces :: "piece list" where
  "demo_pieces = [Text (lit ''n=''), Dec (- 42), Text (lit '';''), Str (replicate 2000 0x61)]"

theorem websWrite_renders_witness:
  "websWrite \<lparr>kmalloc_ok = \<lambda>_. True, kjunk = \<lambda>_. 0xFF\<rparr> [] (lit ''n=%d;%s'') [AInt (- 42), AStr (Some (replicate 2000 0x61))]
    = Ret (959, lit ''n=-42;'' @ replicate 953 0x61)"
proof -
  have "fmt_d (- 42) = lit ''-42''" by (simp add: fmt_d_def print_base_eval digit_def)
  then show ?thesis
    using websWrite_renders [of "\<lparr>kmalloc_ok = \<lambda>_. True, kjunk = \<lambda>_. 0xFF\<rparr>" demo_pieces
      "lit ''n=-42;'' @ replicate 953 0x61" "[]"]
    by (simp add: demo_pieces_def is_cstring_def)
qed

end
