(* ===== verification/WebConfig.thy ===== *)
theory WebConfig
  imports WebValues WebFmt LibNvram
begin

text \<open>
  The web server's access to the configuration (\<open>user/goahead/src_tongyong/utils.c\<close> and the
  helper \<open>STFs\<close> of \<open>wireless.c\<close>): the script functions that put settings into a page,
  the update of one value of a value list, long output, and the conversion of text for display.

  The server is one process attached to the library; \<open>web\<close> is its state as far as these
  functions see it: the library, the page written so far, and the result of the script function.
\<close>

section \<open>The server\<close>

record web =
  wnv :: lnv
  page :: "byte list"
  ej_result :: "cstring option"

definition web_write :: "uenv \<Rightarrow> web \<Rightarrow> byte list \<Rightarrow> farg list \<Rightarrow> (int \<times> web) outcome" where
  "web_write e w fmt args = obind (websWrite (u_heap e) (page w) fmt args) (\<lambda>(n, p). Ret (n, w\<lparr>page := p\<rparr>))"

definition web_bufget :: "uenv \<Rightarrow> web \<Rightarrow> cstring \<Rightarrow> (cstring option \<times> web) outcome" where
  "web_bufget e w name = obind (lib_nvram_bufget e (wnv w) RT2860_NVRAM name) (\<lambda>(v, s). Ret (v, w\<lparr>wnv := s\<rparr>))"

text \<open>\<open>ejSetResult\<close> (\<open>ejparse.c\<close>) copies its argument with \<open>bstrdup\<close>, which takes NULL for the
  empty string.\<close>

definition ejSetResult :: "uenv \<Rightarrow> web \<Rightarrow> cstring option \<Rightarrow> web" where
  "ejSetResult e w s = w\<lparr>ej_result :=
     (let t = (case s of None \<Rightarrow> [] | Some t \<Rightarrow> t) in
      if kmalloc_ok (u_heap e) (length t + 1) then Some t else None)\<rparr>"

definition insufficient :: "uenv \<Rightarrow> web \<Rightarrow> (int \<times> web) outcome" where
  "insufficient e w = web_write e w (lit ''Insufficient args'' @ [NEWLINE]) []"

section \<open>Script functions\<close>

definition getCfgGeneral :: "uenv \<Rightarrow> web \<Rightarrow> cstring list \<Rightarrow> (int \<times> web) outcome" where
  "getCfgGeneral e w argv =
     (if length argv < 2 then insufficient e w
      else obind (web_bufget e w (argv ! 1)) (\<lambda>(value, w).
        if atoi (argv ! 0) = 1 then
          (case value of None \<Rightarrow> web_write e w [] [] | Some v \<Rightarrow> web_write e w (lit ''%s'') [AStr (Some v)])
        else Ret (0, ejSetResult e (if value = None then ejSetResult e w (Some []) else w) value)))"

text \<open>The value a pointer from the library denotes, with its terminator, as the memory the string
  functions read.\<close>

abbreviation block_of :: "cstring option \<Rightarrow> byte list option" where
  "block_of v \<equiv> map_option (\<lambda>s. s @ [NUL]) v"

definition nth_of :: "cstring option \<Rightarrow> int \<Rightarrow> cstring outcome" where
  "nth_of value idx =
     obind (getNthValueSafe idx (block_of value) SEMI (Some (replicate 128 NUL)) 128) (\<lambda>(_, nth).
     case nth of None \<Rightarrow> Fault | Some m \<Rightarrow> Ret (cstr m))"

definition getCfgNthGeneral :: "uenv \<Rightarrow> web \<Rightarrow> cstring list \<Rightarrow> (int \<times> web) outcome" where
  "getCfgNthGeneral e w argv =
     (if length argv < 3 then insufficient e w
      else obind (web_bufget e w (argv ! 1)) (\<lambda>(value, w).
        if atoi (argv ! 0) = 1 then
          (case value of
             None \<Rightarrow> web_write e w [] []
           | Some v \<Rightarrow> obind (nth_of value (atoi (argv ! 2))) (\<lambda>nth. web_write e w (lit ''%s'') [AStr (Some nth)]))
        else
          obind (nth_of value (atoi (argv ! 2))) (\<lambda>nth.
          Ret (0, ejSetResult e (if value = None then ejSetResult e w (Some []) else w) value))))"

text \<open>\<open>getCfgZero\<close> and \<open>getCfgNthZero\<close> compare the value with the empty string and read through a
  NULL pointer when there is none.\<close>

definition getCfgZero :: "uenv \<Rightarrow> web \<Rightarrow> cstring list \<Rightarrow> (int \<times> web) outcome" where
  "getCfgZero e w argv =
     (if length argv < 2 then insufficient e w
      else obind (web_bufget e w (argv ! 1)) (\<lambda>(value, w).
        case value of
          None \<Rightarrow> Fault
        | Some v \<Rightarrow>
            if atoi (argv ! 0) = 1 then
              if v = [] then web_write e w (lit ''0'') [] else web_write e w (lit ''%s'') [AStr (Some v)]
            else Ret (0, ejSetResult e (if v = [] then ejSetResult e w (Some (lit ''0'')) else w) value)))"

definition getCfgNthZero :: "uenv \<Rightarrow> web \<Rightarrow> cstring list \<Rightarrow> (int \<times> web) outcome" where
  "getCfgNthZero e w argv =
     (if length argv < 3 then insufficient e w
      else obind (web_bufget e w (argv ! 1)) (\<lambda>(value, w).
        case value of
          None \<Rightarrow> Fault
        | Some v \<Rightarrow>
            if atoi (argv ! 0) = 1 then
              if v = [] then web_write e w (lit ''0'') []
              else obind (nth_of value (atoi (argv ! 2))) (\<lambda>nth. web_write e w (lit ''%s'') [AStr (Some nth)])
            else
              obind (nth_of value (atoi (argv ! 2))) (\<lambda>nth.
              Ret (0, ejSetResult e (if v = [] then ejSetResult e w (Some (lit ''0'')) else w) value))))"

section \<open>Updating one value\<close>

text \<open>\<open>STFs\<close> (\<open>wireless.c\<close>).\<close>

definition STFs :: "uenv \<Rightarrow> web \<Rightarrow> int \<Rightarrow> int \<Rightarrow> cstring \<Rightarrow> cstring \<Rightarrow> web outcome" where
  "STFs e w nvram index flash_key value =
     obind (lib_nvram_bufget e (wnv w) nvram flash_key) (\<lambda>(tmp, s).
     obind (setNthValue index ((case tmp of None \<Rightarrow> [] | Some v \<Rightarrow> v) @ [NUL]) value) (\<lambda>result.
     obind (lib_nvram_bufset e s nvram flash_key result) (\<lambda>(_, s).
     Ret (w\<lparr>wnv := s\<rparr>))))"

section \<open>Long output\<close>

text \<open>\<open>websLongWrite\<close>: pieces of 512 bytes, copied with \<open>strncpy\<close> to a buffer whose last byte stays NUL.\<close>

function long_loop :: "uenv \<Rightarrow> web \<Rightarrow> cstring \<Rightarrow> web outcome" where
  "long_loop e w s =
     (if s = [] then Ret w
      else case web_write e w (lit ''%s'') [AStr (Some (take 512 s))] of
          Ret (_, w') \<Rightarrow> long_loop e w' (drop 512 s)
        | Fault \<Rightarrow> Fault | Blocked \<Rightarrow> Blocked)"
  by pat_completeness auto
termination
  by (relation "measure (\<lambda>(e, w, s). length s)") auto

declare long_loop.simps [simp del]

definition websLongWrite :: "uenv \<Rightarrow> web \<Rightarrow> cstring \<Rightarrow> web outcome" where
  "websLongWrite e w longstr = long_loop e w longstr"

section \<open>Text for display\<close>

text \<open>The text \<open>ConverterStringToDisplay\<close> puts out for one character. \<open>char\<close> is signed: the
  characters from 128 on are negative and none of the comparisons holds for them.\<close>

definition two_digits :: "nat \<Rightarrow> cstring" where
  "two_digits n = [digit (n div 10), digit (n mod 10)]"

definition display_char :: "byte \<Rightarrow> cstring" where
  "display_char c =
     (if c = 38 then lit ''&amp;''
      else if c = 60 then lit ''&lt;''
      else if c = 62 then lit ''&gt;''
      else if c = 34 then lit ''&#34;''
      else if c = 39 then lit ''&#39;''
      else if c = 32 then lit ''&nbsp;''
      else if 0 \<le> sint c \<and> sint c \<le> 31 then lit ''&#'' @ two_digits (unat c) @ lit '';''
      else if c = 39 \<or> c = 47 \<or> c = 59 \<or> c = 92 then lit ''&#'' @ two_digits (unat c) @ lit '';''
      else if sint c \<ge> 127 then lit ''&#'' @ fmt_d (sint c) @ lit '';''
      else [c])"

text \<open>The buffer of 193 bytes, filled up to \<open>out\<close>: an escape is written with its terminator, a
  plain character without.\<close>

fun display_loop :: "cstring \<Rightarrow> cstring \<Rightarrow> cstring outcome" where
  "display_loop [] out = (if 193 \<le> length out then Fault else Ret out)"
| "display_loop (c # s) out =
     (let d = display_char c; n = (if d = [c] then 1 else length d + 1) in
      if 193 < length out + n then Fault else display_loop s (out @ d))"

definition ConverterStringToDisplay :: "byte list \<Rightarrow> byte list outcome" where
  "ConverterStringToDisplay str =
     (case strchr NUL str of
        Some (Some len) \<Rightarrow> obind (display_loop (take len str) []) (\<lambda>out.
          if length str < length out + 1 then Fault else Ret (patch str 0 (out @ [NUL])))
      | _ \<Rightarrow> Fault)"

section \<open>Correctness\<close>

lemma web_write_str:
  assumes "user_ok e" and "is_cstring v"
  shows "web_write e w (lit ''%s'') [AStr (Some v)]
    = Ret (int (length (take 959 v)), w\<lparr>page := page w @ take 959 v\<rparr>)"
proof -
  have h: "\<And>n. kmalloc_ok (u_heap e) n" using assms(1) by (simp add: user_ok_def)
  obtain m where "fmtValloc (u_heap e) 1000 (lit ''%s'') [AStr (Some v)] = Ret (int (length (take 959 v)), Some m)" "cstr m = take 959 v"
    using fmtValloc_template [OF h, of "[Str v]" 1000 "take 959 v"] assms(2) by (auto simp: cap_def)
  then show ?thesis by (simp add: web_write_def websWrite_def)
qed

lemma nth_of_ok:
  assumes "is_cstring v" and "0 \<le> idx"
  shows "nth_of (Some v) idx = Ret (take 127 (if nat idx < length (parts SEMI v) then parts SEMI v ! nat idx else []))"
proof -
  let ?fs = "parts SEMI v"
  have f: "is_cstring (take 127 (?fs ! nat idx))" if "nat idx < length ?fs"
    using set_parts [of SEMI v] nth_mem [OF that] assms(1) unfolding is_cstring_def by (auto dest: in_set_takeD)
  have "nth_of (Some v) idx = (if nat idx < length ?fs
      then Ret (cstr (patch (replicate 128 NUL) 0 (take 127 (?fs ! nat idx) @ [NUL]))) else Ret (cstr (replicate 128 NUL)))"
    using getNthValueSafe_ok [OF assms(1), of SEMI 128 "replicate 128 NUL" idx "[]"] assms(2)
    by (simp add: nth_of_def)
  moreover have "cstr (replicate 128 NUL) = []" by (simp add: cstr_def takeWhile_replicate)
  moreover have "cstr (patch (replicate 128 NUL) 0 (take 127 (?fs ! nat idx) @ [NUL])) = take 127 (?fs ! nat idx)"
    if "nat idx < length ?fs" using f [OF that] by (simp add: patch_def)
  ultimately show ?thesis by simp
qed

text \<open>The string a setting denotes: the empty string when it is not set.\<close>

definition setting :: "(cstring \<times> cstring) list \<Rightarrow> cstring \<Rightarrow> cstring" where
  "setting kvs key = (case map_of kvs key of None \<Rightarrow> [] | Some v \<Rightarrow> v)"

lemma lookup_setting: "lookup (Some []) kvs key = Some (setting kvs key)"
  by (simp add: lookup_def setting_def split: option.split)

lemma setting_cstring: "short_values kvs \<Longrightarrow> is_cstring (setting kvs key)"
  by (auto simp: setting_def short_values_def split: option.split dest: map_of_SomeD)

lemma STFs_law:
  assumes ok: "lib_ok e i (wnv w)" and rows: "rows_ok (parts SEMI (setting (ram (lk (wnv w)) i) key)) n v"
    and room: "length (AList.update key v (ram (lk (wnv w)) i)) \<le> MAX_CACHE_ENTRY"
  shows "\<exists>s. STFs e w (int i) (int n) key v = Ret (w\<lparr>wnv := s\<rparr>) \<and> lib_ok e i s
    \<and> ram (lk s) i = AList.update key (join SEMI (set_field n (parts SEMI (setting (ram (lk (wnv w)) i) key)) v)) (ram (lk (wnv w)) i)"
proof -
  let ?kvs = "ram (lk (wnv w)) i"
  let ?old = "setting ?kvs key"
  let ?new = "join SEMI (set_field n (parts SEMI ?old) v)"
  obtain s1 where s1: "lib_nvram_bufget e (wnv w) (int i) key = Ret (Some ?old, s1)" "lib_ok e i s1" "ram (lk s1) i = ?kvs"
    using lib.get_law [OF ok, of key] by (auto simp: lookup_setting)
  have c: "is_cstring ?old" using lib_okD(9) [OF ok] by (rule setting_cstring)
  have set: "setNthValue (int n) (?old @ [NUL]) v = Ret ?new" using setNthValue_ok [OF rows c, of "[]"] .
  have "set (set_field n (parts SEMI ?old) v) \<subseteq> {v, []} \<union> set (parts SEMI ?old)" by (rule set_field_set)
  then have "is_cstring ?new" using rows unfolding is_cstring_join rows_ok_def by auto
  moreover have "length ?new < MAX_VALUE_LEN" using rows by (simp add: rows_ok_def)
  moreover have "length (AList.update key ?new (ram (lk s1) i)) \<le> MAX_CACHE_ENTRY"
    using room s1(3) by (simp add: length_update)
  ultimately obtain s2 where "lib_nvram_bufset e s1 (int i) key ?new = Ret (0, s2)" "lib_ok e i s2"
    "ram (lk s2) i = AList.update key ?new (ram (lk s1) i)"
    using lib.put_law [OF s1(2)] by blast
  with s1 set show ?thesis by (auto simp: STFs_def)
qed

lemma getCfgNth_page:
  assumes ok: "lib_ok e 0 (wnv w)" and a: "atoi a0 = 1" "0 \<le> atoi a2"
  shows "\<exists>n w'. getCfgNthGeneral e w [a0, key, a2] = Ret (n, w') \<and> page w' = page w @ take 127
    (let fs = parts SEMI (setting (ram (lk (wnv w)) 0) key) in if nat (atoi a2) < length fs then fs ! nat (atoi a2) else [])"
proof -
  let ?v = "setting (ram (lk (wnv w)) 0) key"
  define f where "f = take 127 (if nat (atoi a2) < length (parts SEMI ?v) then parts SEMI ?v ! nat (atoi a2) else [])"
  obtain s where s: "lib_nvram_bufget e (wnv w) 0 key = Ret (Some ?v, s)"
    using lib.get_law [OF ok, of key] by (auto simp: lookup_setting)
  have c: "is_cstring ?v" using lib_okD(9) [OF ok] by (rule setting_cstring)
  have f: "is_cstring f" using set_parts [of SEMI ?v] c unfolding is_cstring_def f_def
    by (auto dest!: in_set_takeD dest: nth_mem)
  have "take 959 f = f" unfolding f_def by (intro take_all) simp
  then have "web_write e w' (lit ''%s'') [AStr (Some f)] = Ret (int (length f), w'\<lparr>page := page w' @ f\<rparr>)" for w'
    using web_write_str [OF _ f, of e w'] ok by (simp add: lib_ok_def del: lit_Cons)
  moreover have "nth_of (Some ?v) (atoi a2) = Ret f" using nth_of_ok [OF c a(2)] unfolding f_def .
  ultimately have "getCfgNthGeneral e w [a0, key, a2] = Ret (int (length f), w\<lparr>wnv := s, page := page w @ f\<rparr>)"
    using s a(1) by (simp add: getCfgNthGeneral_def web_bufget_def del: lit_Cons)
  then show ?thesis by (simp add: f_def Let_def)
qed

lemma setting_update: "setting (AList.update k v kvs) key = (if key = k then v else setting kvs key)"
  by (simp add: setting_def update_conv')

text \<open>C31: a value stored for one wireless network with \<open>STFs\<close> is what the script function
  \<open>getCfgNthGeneral\<close> then writes into the page for that network, up to 127 characters, and every
  other network keeps the value it had; a network that had none reads as empty.\<close>

theorem STFs_then_getCfgNth:
  assumes ok: "lib_ok e 0 (wnv w)" and fs: "fs = parts SEMI (setting (ram (lk (wnv w)) 0) key)"
    and rows: "rows_ok fs n v" and semi: "SEMI \<notin> set v"
    and room: "length (AList.update key v (ram (lk (wnv w)) 0)) \<le> MAX_CACHE_ENTRY"
    and a: "atoi a0 = 1" "atoi a2 = int j"
  shows "\<exists>w1 r w2. STFs e w RT2860_NVRAM (int n) key v = Ret w1
    \<and> getCfgNthGeneral e w1 [a0, key, a2] = Ret (r, w2)
    \<and> page w2 = page w @ take 127 (if j = n then v else if j < length fs then fs ! j else [])"
proof -
  let ?gs = "set_field n fs v"
  obtain s where s: "STFs e w 0 (int n) key v = Ret (w\<lparr>wnv := s\<rparr>)" "lib_ok e 0 s"
    "ram (lk s) 0 = AList.update key (join SEMI ?gs) (ram (lk (wnv w)) 0)"
    using STFs_law [OF ok rows [unfolded fs] room] unfolding fs by auto
  have "set ?gs \<subseteq> {v, []} \<union> set fs" by (rule set_field_set)
  then have "\<forall>f \<in> set ?gs. SEMI \<notin> set f" using semi parts_free [of SEMI "setting (ram (lk (wnv w)) 0) key"] fs by auto
  moreover have "?gs \<noteq> []" using length_set_field [of n fs v] by auto
  ultimately have p: "parts SEMI (setting (ram (lk s) 0) key) = ?gs" by (simp add: s(3) setting_update parts_join)
  obtain r w' where w': "getCfgNthGeneral e (w\<lparr>wnv := s\<rparr>) [a0, key, a2] = Ret (r, w')"
    "page w' = page w @ take 127 (if j < length ?gs then ?gs ! j else [])"
    using getCfgNth_page [of e "w\<lparr>wnv := s\<rparr>" a0 a2 key] s(2) a p by (auto simp: Let_def)
  moreover have "(if j < length ?gs then ?gs ! j else []) = (if j = n then v else if j < length fs then fs ! j else [])"
    by (auto simp: nth_set_field length_set_field)
  ultimately show ?thesis using s(1) by auto
qed

definition demo_web :: "lnv \<Rightarrow> web" where
  "demo_web s = \<lparr>wnv = s, page = [], ej_result = None\<rparr>"

theorem STFs_then_getCfgNth_witness:
  "\<exists>s w1 r w2. lib_nvram_init demo_env demo_lib 0 = Ret s
    \<and> STFs demo_env (demo_web s) 0 1 (lit ''AuthMode'') (lit ''OPEN'') = Ret w1
    \<and> getCfgNthGeneral demo_env w1 [lit ''1'', lit ''AuthMode'', lit ''1''] = Ret (r, w2) \<and> page w2 = lit ''OPEN''"
proof -
  obtain s where s: "lib_nvram_init demo_env demo_lib 0 = Ret s" "lib_ok demo_env 0 s" "ram (lk s) 0 = []"
    by (rule demo_attach)
  have "rows_ok [[]] 1 (lit ''OPEN'')" by (simp add: rows_ok_def set_field_def)
  then show ?thesis
    using STFs_then_getCfgNth [of demo_env "demo_web s" "[[]]" "lit ''AuthMode''" 1 "lit ''OPEN''" "lit ''1''" "lit ''1''" 1] s
    by (auto simp: demo_web_def setting_def atoi_def isspace_def isdigit_def)
qed

lemma long_loop_whole:
  "user_ok e \<Longrightarrow> is_cstring s \<Longrightarrow> long_loop e w s = Ret (w\<lparr>page := page w @ s\<rparr>)"
proof (induction e w s rule: long_loop.induct)
  case (1 e w s)
  have c: "is_cstring (take 512 s)" "is_cstring (drop 512 s)"
    using 1(3) by (auto simp: is_cstring_def dest: in_set_takeD in_set_dropD)
  have wr: "web_write e w (lit ''%s'') [AStr (Some (take 512 s))]
      = Ret (int (length (take 512 s)), w\<lparr>page := page w @ take 512 s\<rparr>)"
    using web_write_str [OF 1(2) c(1), of w] by simp
  show ?case
  proof (cases "s = []")
    case False
    then have "long_loop e w s = long_loop e (w\<lparr>page := page w @ take 512 s\<rparr>) (drop 512 s)"
      by (subst long_loop.simps) (simp add: wr del: lit_Cons)
    with 1(1) [OF False wr refl 1(2) c(2)] show ?thesis by simp
  qed (simp add: long_loop.simps)
qed

text \<open>\<open>websLongWrite\<close> ends and writes the whole string, however long it is: its pieces are
  shorter than what one \<open>websWrite\<close> passes on.\<close>

theorem websLongWrite_whole:
  assumes "user_ok e" and "is_cstring s"
  shows "websLongWrite e w s = Ret (w\<lparr>page := page w @ s\<rparr>)"
  using long_loop_whole [OF assms] by (simp add: websLongWrite_def)

theorem websLongWrite_whole_witness:
  "websLongWrite demo_env (demo_web demo_lib) (replicate 5000 0x61)
    = Ret ((demo_web demo_lib)\<lparr>page := replicate 5000 0x61\<rparr>)"
  using websLongWrite_whole [of demo_env "replicate 5000 0x61" "demo_web demo_lib"] demo_user(1)
  by (simp add: is_cstring_def demo_web_def)

section \<open>Display text is safe\<close>

lemma display_char_long: "display_char c \<noteq> [c] \<Longrightarrow> 2 \<le> length (display_char c)"
  by (auto simp: display_char_def split: if_splits)

lemma display_char_pos: "display_char c \<noteq> []"
  by (simp add: display_char_def)

lemma display_loop_ok:
  "display_loop s out = (if length (out @ concat (map display_char s)) \<le> 192 then Ret (out @ concat (map display_char s)) else Fault)"
proof (induction s arbitrary: out)
  case (Cons c s)
  then show ?case by (auto simp: Let_def)
qed auto

text \<open>The characters with a meaning in HTML text or in a script's string literal.\<close>

definition unsafe :: "byte set" where
  "unsafe = {0x22, 0x27, 0x3C, 0x3E, 0x20, 0x2F, 0x5C} \<union> {c. c < 0x20}"

lemma isdigit_safe: "isdigit x \<Longrightarrow> x \<notin> unsafe"
proof -
  assume "isdigit x"
  then have "0x30 \<le> unat x" "unat x \<le> 0x39" by (simp_all add: isdigit_def word_le_nat_alt)
  then show ?thesis by (auto simp: unsafe_def word_less_nat_alt)
qed

lemma control_signed: "c < 0x20 \<Longrightarrow> 0 \<le> sint c \<and> sint c \<le> 31" for c :: byte
proof -
  assume "c < 0x20"
  then have u: "uint c < 32" "0 \<le> uint c" by (simp_all add: word_less_def)
  have "- (2 ^ 7) \<le> uint c" by (rule order_trans [OF _ u(2)]) simp
  moreover have "uint c < 2 ^ 7" by (rule less_trans [OF u(1)]) simp
  ultimately have "signed_take_bit 7 (uint c) = uint c" by (rule signed_take_bit_int_eq_self)
  then have "sint c = uint c" by (simp add: sint_uint)
  with u show ?thesis by simp
qed

lemma display_char_safe: "set (display_char c) \<inter> unsafe = {}"
proof -
  have lits: "{0x26, 0x23, 0x3B} \<inter> unsafe = {}" "set (lit ''amp;lt;gt;34;39;nbsp;'') \<inter> unsafe = {}"
    by (auto simp: unsafe_def)
  have two: "x \<notin> unsafe" if "x \<in> set (two_digits n)" "n < 100" for x n
    using that by (auto simp: two_digits_def intro!: isdigit_safe digit_simps)
  have num: "x \<notin> unsafe" if "x \<in> set (fmt_d i)" "0 \<le> i" for x i
    using that print_base_digits [of "nat i"] by (auto simp: fmt_d_def intro!: isdigit_safe)
  have small: "unat c < 100" if "0 \<le> sint c \<and> sint c \<le> 31 \<or> c = 39 \<or> c = 47 \<or> c = 59 \<or> c = 92"
  proof (cases "0 \<le> sint c \<and> sint c \<le> 31")
    case True
    then have "uint c = sint c" by (simp add: uint_sint take_bit_eq_mod)
    then have "unat c = nat (sint c)" by (simp flip: nat_uint_eq)
    with True show ?thesis by linarith
  qed (use that in auto)
  have raw: "c \<notin> unsafe" if "c \<notin> {34, 39, 60, 62, 32, 47, 92}" "\<not> (0 \<le> sint c \<and> sint c \<le> 31)"
    using that control_signed [of c] by (auto simp: unsafe_def)
  show ?thesis
    using lits two [OF _ small] num [of _ "sint c"] raw by (auto simp: display_char_def)
qed

text \<open>C33: \<open>ConverterStringToDisplay\<close> replaces the text by its escaped form, in which no quote, angle
  bracket, slash, backslash, blank or control character is left; exactly when the escaped
  form does not fit its 193-byte buffer or the caller's array, it writes outside one of them.\<close>

theorem ConverterStringToDisplay_safe:
  assumes "is_cstring v" and "out = concat (map display_char v)"
  shows "ConverterStringToDisplay (v @ NUL # r) =
      (if length out \<le> 192 \<and> length out \<le> length v + length r
       then Ret (patch (v @ NUL # r) 0 (out @ [NUL])) else Fault)
    \<and> set out \<inter> unsafe = {}"
proof -
  have "set out \<inter> unsafe = {}" using assms(2) display_char_safe by (auto simp: disjoint_iff)
  then show ?thesis
    using strchr_NUL [OF assms(1), of r] display_loop_ok [of v "[]"] assms(2)
    by (simp add: ConverterStringToDisplay_def)
qed

theorem ConverterStringToDisplay_safe_witness:
  "ConverterStringToDisplay (lit ''a<b'' @ NUL # replicate 20 NUL)
    = Ret (patch (lit ''a<b'' @ NUL # replicate 20 NUL) 0 (lit ''a&lt;b'' @ [NUL]))"
  using ConverterStringToDisplay_safe [of "lit ''a<b''" "lit ''a&lt;b''" "replicate 20 NUL"]
  by (simp add: display_char_def)

end
