(* ===== verification/FwBase.thy ===== *)
theory FwBase
  imports InetAddr WebConfig
begin

text \<open>
  What the firewall pages of the web server (\<open>user/goahead/src_tongyong/firewall.c\<close>) rest on: the
  state they change, the variables of a request (\<open>websGetVar\<close>, \<open>webs.c\<close>), the shell commands they run
  (\<open>doSystem\<close>, \<open>utils.c\<close>), the name and address of the WAN interface (\<open>internet.c\<close>), the loop over the
  rules of a rule list, and the pieces of a command put together in an array with \<open>snprintf\<close>.

  Running a command is recording its text: \<open>fcmds\<close> is the list of the commands given to
  \<open>system\<close>, in their order. The end of a request is a list of replies. Messages on the console
  are not modelled.
\<close>

section \<open>State\<close>

datatype reply = Redirect cstring | Header | Footer | Done int | Errmsg int cstring

record fw =
  fweb :: web
  fcmds :: "cstring list"
  freply :: "reply list"
  fifname :: cstring

text \<open>\<open>fe_addr\<close>: the answer of the kernel to \<open>SIOCGIFADDR\<close>, \<open>None\<close> when the socket or the request
  fails. \<open>fe_port\<close>: the port of the server. \<open>fe_3g\<close>: whether \<open>CONFIG_USER_3G\<close> is set.\<close>

record fenv =
  fe_u :: uenv
  fe_addr :: "cstring \<Rightarrow> 32 word option"
  fe_port :: "32 word"
  fe_3g :: bool

text \<open>The variables of a request; a variable may have no content.\<close>

type_synonym query = "cstring \<Rightarrow> cstring option option"

definition websGetVar :: "query \<Rightarrow> cstring \<Rightarrow> cstring option \<Rightarrow> cstring option" where
  "websGetVar q var defaultGetValue =
     (case q var of None \<Rightarrow> defaultGetValue | Some None \<Rightarrow> Some [] | Some (Some s) \<Rightarrow> Some s)"

text \<open>A variable with a default that is not NULL.\<close>

definition form_var :: "query \<Rightarrow> string \<Rightarrow> string \<Rightarrow> cstring" where
  "form_var q var d = the (websGetVar q (lit var) (Some (lit d)))"

section \<open>Library calls\<close>

definition fw_get :: "fenv \<Rightarrow> fw \<Rightarrow> string \<Rightarrow> (cstring option \<times> fw) outcome" where
  "fw_get e w name = obind (web_bufget (fe_u e) (fweb w) (lit name)) (\<lambda>(v, x). Ret (v, w\<lparr>fweb := x\<rparr>))"

definition fw_bufset :: "fenv \<Rightarrow> fw \<Rightarrow> string \<Rightarrow> cstring \<Rightarrow> fw outcome" where
  "fw_bufset e w name val =
     obind (lib_nvram_bufset (fe_u e) (wnv (fweb w)) RT2860_NVRAM (lit name) val) (\<lambda>(_, s).
     Ret (w\<lparr>fweb := (fweb w)\<lparr>wnv := s\<rparr>\<rparr>))"

definition fw_set :: "fenv \<Rightarrow> fw \<Rightarrow> string \<Rightarrow> cstring \<Rightarrow> fw outcome" where
  "fw_set e w name val =
     obind (lib_nvram_set (fe_u e) (wnv (fweb w)) RT2860_NVRAM (lit name) val) (\<lambda>(_, s).
     Ret (w\<lparr>fweb := (fweb w)\<lparr>wnv := s\<rparr>\<rparr>))"

definition fw_commit :: "fenv \<Rightarrow> fw \<Rightarrow> fw outcome" where
  "fw_commit e w =
     obind (lib_nvram_commit (fe_u e) (wnv (fweb w)) RT2860_NVRAM) (\<lambda>(_, s).
     Ret (w\<lparr>fweb := (fweb w)\<lparr>wnv := s\<rparr>\<rparr>))"

definition fw_write :: "fenv \<Rightarrow> fw \<Rightarrow> byte list \<Rightarrow> farg list \<Rightarrow> fw outcome" where
  "fw_write e w fmt args = obind (web_write (fe_u e) (fweb w) fmt args) (\<lambda>(_, x). Ret (w\<lparr>fweb := x\<rparr>))"

definition answer :: "reply \<Rightarrow> fw \<Rightarrow> fw" where
  "answer r w = w\<lparr>freply := freply w @ [r]\<rparr>"

section \<open>Commands\<close>

definition doSystem :: "fenv \<Rightarrow> fw \<Rightarrow> byte list \<Rightarrow> farg list \<Rightarrow> fw outcome" where
  "doSystem e w fmt args =
     obind (fmtValloc (u_heap (fe_u e)) WEBS_BUFSIZE fmt args) (\<lambda>(_, cmd).
     case cmd of None \<Rightarrow> Ret w | Some m \<Rightarrow> Ret (w\<lparr>fcmds := fcmds w @ [cstr m]\<rparr>))"

text \<open>Commands one after the other.\<close>

definition run1 :: "fenv \<Rightarrow> string \<Rightarrow> string list \<Rightarrow> fw \<Rightarrow> fw outcome" where
  "run1 e fmt args w = doSystem e w (lit fmt) (map (\<lambda>a. AStr (Some (lit a))) args)"

primrec run_all :: "fenv \<Rightarrow> (string \<times> string list) list \<Rightarrow> fw \<Rightarrow> fw outcome" where
  "run_all e [] w = Ret w"
| "run_all e (c # cs) w = obind (run1 e (fst c) (snd c) w) (run_all e cs)"

section \<open>The WAN interface\<close>

text \<open>\<open>getWanIfName\<close> keeps its answer in a static variable (initially \<open>br0\<close>), which also serves
  when the mode is none of the known ones. The build has \<open>CONFIG_RT_3052_ESW\<close> and no special tag.\<close>

definition getWanIfName :: "fenv \<Rightarrow> fw \<Rightarrow> (cstring \<times> fw) outcome" where
  "getWanIfName e w = obind (fw_get e w ''OperationMode'') (\<lambda>(mode, w).
     case mode of
       None \<Rightarrow> Ret (fifname w, w)
     | Some mode \<Rightarrow>
         let if_name = (if strneq mode (lit ''0'') 2 then lit ''br0''
           else if strneq mode (lit ''1'') 2 then lit ''eth2.2''
           else if strneq mode (lit ''2'') 2 then lit ''ra0''
           else if strneq mode (lit ''3'') 2 then lit ''apcli0''
           else fifname w) in
         Ret (if_name, w\<lparr>fifname := if_name\<rparr>))"

definition getWanIfNamePPP :: "fenv \<Rightarrow> fw \<Rightarrow> (cstring \<times> fw) outcome" where
  "getWanIfNamePPP e w = obind (fw_get e w ''wanConnectionMode'') (\<lambda>(cm, w).
     case cm of
       None \<Rightarrow> Fault
     | Some cm \<Rightarrow>
         if strneq cm (lit ''PPPOE'') 6 \<or> strneq cm (lit ''L2TP'') 5 \<or> strneq cm (lit ''PPTP'') 5
             \<or> fe_3g e \<and> strneq cm (lit ''3G'') 3
         then Ret (lit ''ppp0'', w)
         else getWanIfName e w)"

definition getIfIp :: "fenv \<Rightarrow> cstring \<Rightarrow> cstring option" where
  "getIfIp e ifname = map_option inet_ntoa (fe_addr e ifname)"

section \<open>Rule lists\<close>

text \<open>One value of a list, copied to an array of \<open>len\<close> bytes on the stack: what \<open>getNthValueSafe\<close> leaves
  there, \<open>None\<close> when it returns -1.\<close>

definition value_at :: "fenv \<Rightarrow> nat \<Rightarrow> cstring \<Rightarrow> byte \<Rightarrow> nat \<Rightarrow> cstring option outcome" where
  "value_at e index s d len =
     obind (getNthValueSafe (int index) (Some (s @ [NUL])) d (Some (fresh (u_heap (fe_u e)) len)) (int len)) (\<lambda>(rc, m).
     Ret (if rc = - 1 then None else map_option cstr m))"

lemma nth_loop_bound:
  "nth_loop index mem d i b e = Ret (i', b', e') \<Longrightarrow> i \<le> int b \<Longrightarrow> b \<le> length mem \<Longrightarrow>
    (case e of None \<Rightarrow> True | Some p \<Rightarrow> b \<le> p \<and> p < length mem) \<Longrightarrow>
    i' \<le> int b' \<and> b' \<le> length mem \<and> (e' = None \<or> index \<le> i')"
proof (induction index mem d i b e rule: nth_loop.induct)
  case (1 index mem d i b e)
  show ?case
  proof (cases "\<exists>p. e = Some p \<and> i < index")
    case False
    with 1(2-) show ?thesis by (subst (asm) nth_loop.simps) (auto split: option.splits if_splits)
  next
    case True
    then obtain p where p: "e = Some p" "i < index" by blast
    obtain q where q: "find_from d mem (p + 1) = Ret q"
      using 1(2) p by (subst (asm) nth_loop.simps) (auto split: outcome.splits)
    have "nth_loop index mem d (i + 1) (p + 1) q = Ret (i', b', e')"
      using 1(2) p q by (subst (asm) nth_loop.simps) simp
    moreover have "case q of None \<Rightarrow> True | Some r \<Rightarrow> p + 1 \<le> r \<and> r < length mem"
      using find_from_bound [of d mem "p + 1"] q by (auto split: option.split)
    ultimately show ?thesis using 1(1) [OF p q] 1(3-) p by auto
  qed
qed

lemma value_at_bound:
  assumes "value_at e i s d len = Ret (Some v)"
  shows "i \<le> length s + 1"
proof -
  let ?m = "s @ [NUL]"
  from assms obtain p i' b' e' where p: "find_from d ?m 0 = Ret p"
    and n: "nth_loop (int i) ?m d 0 0 p = Ret (i', b', e')" and ok: "e' \<noteq> None \<or> i' = int i"
    by (auto simp: value_at_def getNthValueSafe_def outcome_simps Let_def split: if_splits option.splits)
  have "case p of None \<Rightarrow> True | Some r \<Rightarrow> 0 \<le> r \<and> r < length ?m"
    using find_from_bound [of d ?m 0] p by (auto split: option.split)
  then have "i' \<le> int b'" "b' \<le> length ?m" "e' = None \<or> int i \<le> i'" using nth_loop_bound [OF n] by simp_all
  with ok show ?thesis by auto
qed

text \<open>\<open>while (getNthValueSafe(i++, rules, ';', rec, sizeof rec) != -1)\<close> with an array of \<open>len\<close> bytes.\<close>

function each_value :: "fenv \<Rightarrow> nat \<Rightarrow> cstring \<Rightarrow> (cstring \<Rightarrow> 's \<Rightarrow> 's outcome) \<Rightarrow> nat \<Rightarrow> 's \<Rightarrow> 's outcome" where
  "each_value e len rules body i s =
     (case value_at e i rules SEMI len of
        Ret None \<Rightarrow> Ret s
      | Ret (Some rec) \<Rightarrow>
          (case body rec s of
             Ret s' \<Rightarrow> each_value e len rules body (i + 1) s' | Fault \<Rightarrow> Fault | Blocked \<Rightarrow> Blocked)
      | Fault \<Rightarrow> Fault | Blocked \<Rightarrow> Blocked)"
  by pat_completeness auto
termination
  by (relation "measure (\<lambda>(e, len, rules, body, i, s). length rules + 2 - i)") (auto dest: value_at_bound)

declare each_value.simps [simp del]

text \<open>A field of a rule; without it the loop goes on with the next rule.\<close>

definition with_field :: "fenv \<Rightarrow> nat \<Rightarrow> cstring \<Rightarrow> nat \<Rightarrow> 's \<Rightarrow> (cstring \<Rightarrow> 's outcome) \<Rightarrow> 's outcome" where
  "with_field e index rec len s k =
     obind (value_at e index rec COMMA len) (\<lambda>f. case f of None \<Rightarrow> Ret s | Some f \<Rightarrow> k f)"

section \<open>Commands put together in an array\<close>

text \<open>\<open>snprintf\<close> at an offset of an array, with a size of its own: it returns the length of the whole
  text. The arguments are the formatted text.\<close>

definition snprintf :: "byte list \<Rightarrow> nat \<Rightarrow> nat \<Rightarrow> cstring \<Rightarrow> byte list outcome" where
  "snprintf buf pos n t =
     (let d = (if n = 0 then [] else take (n - 1) t @ [NUL]) in
      if length buf < pos + length d then Fault else Ret (patch buf pos d))"

text \<open>\<open>rc = snprintf(pos, len-rc, ...); pos = pos + rc;\<close>: only the last count is subtracted.\<close>

type_synonym obuf = "byte list \<times> nat \<times> int"

definition emit :: "int \<Rightarrow> cstring \<Rightarrow> obuf \<Rightarrow> obuf outcome" where
  "emit len t = (\<lambda>(buf, pos, rc).
     obind (snprintf buf pos (nat ((len - rc) mod 2 ^ 32)) t) (\<lambda>buf. Ret (buf, pos + length t, int (length t))))"

text \<open>\<open>pos = pos + rc;\<close> without a write.\<close>

definition advance :: "obuf \<Rightarrow> obuf" where
  "advance = (\<lambda>(buf, pos, rc). (buf, nat (int pos + rc), rc))"

section \<open>What a format stands for\<close>

text \<open>Reference: the text of a format with plain \<open>%s\<close> and \<open>%d\<close> directives and its arguments.\<close>

fun render :: "byte list \<Rightarrow> farg list \<Rightarrow> cstring option" where
  "render [] args = (if args = [] then Some [] else None)"
| "render (c # fmt) args =
     (if c \<noteq> PERCENT then map_option ((#) c) (render fmt args)
      else case (fmt, args) of
          (d # fmt', AStr (Some s) # args') \<Rightarrow> if d = 0x73 then map_option ((@) s) (render fmt' args') else None
        | (d # fmt', AInt i # args') \<Rightarrow> if d = 0x64 then map_option ((@) (fmt_d (sint i))) (render fmt' args') else None
        | _ \<Rightarrow> None)"

lemma render_pieces:
  "render fmt args = Some t \<Longrightarrow> is_cstring t \<Longrightarrow> \<exists>ps. (\<forall>p \<in> set ps. piece_ok p) \<and> fmt = concat (map fmt_of ps)
    \<and> args = concat (map args_of ps) \<and> t = concat (map text_of ps)"
proof (induction "length fmt" arbitrary: fmt args t rule: less_induct)
  case less
  show ?case
  proof (cases fmt)
    case Nil
    then show ?thesis using less.prems by (intro exI [of _ "[]"]) (simp split: if_splits)
  next
    case (Cons c rest)
    consider (plain) u where "c \<noteq> PERCENT" "render rest args = Some u" "t = c # u"
      | (str) fmt' s args' u where "c = PERCENT" "rest = 0x73 # fmt'" "args = AStr (Some s) # args'"
        "render fmt' args' = Some u" "t = s @ u"
      | (dec) fmt' i args' u where "c = PERCENT" "rest = 0x64 # fmt'" "args = AInt i # args'"
        "render fmt' args' = Some u" "t = fmt_d (sint i) @ u"
      using less.prems(1) Cons by (auto split: list.splits farg.splits option.splits if_splits)
    then show ?thesis
    proof cases
      case plain
      from less.hyps [OF _ plain(2)] Cons plain less.prems(2) obtain ps where "\<forall>p \<in> set ps. piece_ok p"
        "rest = concat (map fmt_of ps)" "args = concat (map args_of ps)" "u = concat (map text_of ps)" by auto
      then show ?thesis using Cons plain less.prems(2) by (intro exI [of _ "Text [c] # ps"]) simp
    next
      case str
      from less.hyps [OF _ str(4)] Cons str less.prems(2) obtain ps where "\<forall>p \<in> set ps. piece_ok p"
        "fmt' = concat (map fmt_of ps)" "args' = concat (map args_of ps)" "u = concat (map text_of ps)" by auto
      then show ?thesis using Cons str less.prems(2) by (intro exI [of _ "Str s # ps"]) simp
    next
      case dec
      from less.hyps [OF _ dec(4)] Cons dec less.prems(2) obtain ps where "\<forall>p \<in> set ps. piece_ok p"
        "fmt' = concat (map fmt_of ps)" "args' = concat (map args_of ps)" "u = concat (map text_of ps)" by auto
      then show ?thesis using Cons dec by (intro exI [of _ "Dec i # ps"]) simp
    qed
  qed
qed

lemma render_plain: "PERCENT \<notin> set t \<Longrightarrow> render t [] = Some t"
  by (induction t) auto

lemma fmtValloc_render:
  assumes "user_ok u" and "render fmt args = Some t" and "is_cstring t"
  shows "\<exists>m. fmtValloc (u_heap u) WEBS_BUFSIZE fmt args = Ret (int (length (take 959 t)), Some m) \<and> cstr m = take 959 t"
proof -
  obtain ps where ps: "\<forall>p \<in> set ps. piece_ok p" "fmt = concat (map fmt_of ps)" "args = concat (map args_of ps)"
    "t = concat (map text_of ps)" using render_pieces [OF assms(2,3)] by blast
  have h: "\<And>n. kmalloc_ok (u_heap u) n" using assms(1) by (simp add: user_ok_def)
  show ?thesis using fmtValloc_template [OF h ps(1), of 1000 "take 959 t"] ps by (simp add: cap_def)
qed

lemma doSystem_ok:
  assumes "user_ok (fe_u e)" and "render fmt args = Some t" and "is_cstring t"
  shows "doSystem e w fmt args = Ret (w\<lparr>fcmds := fcmds w @ [take 959 t]\<rparr>)"
  using fmtValloc_render [OF assms] by (auto simp: doSystem_def)

lemma fw_write_ok:
  assumes "user_ok (fe_u e)" and "render fmt args = Some t" and "is_cstring t"
  shows "fw_write e w fmt args = Ret (w\<lparr>fweb := (fweb w)\<lparr>page := page (fweb w) @ take 959 t\<rparr>\<rparr>)"
  using fmtValloc_render [OF assms] by (auto simp: fw_write_def web_write_def websWrite_def)

section \<open>Commands and settings\<close>

text \<open>The settings the server sees, and what the flash holds.\<close>

abbreviation cfg :: "fw \<Rightarrow> (cstring \<times> cstring) list" where
  "cfg w \<equiv> ram (lk (wnv (fweb w))) 0"

abbreviation stored_cfg :: "fw \<Rightarrow> (cstring \<times> cstring) list option" where
  "stored_cfg w \<equiv> rom (kdev (lk (wnv (fweb w)))) 0"

text \<open>The other three blocks on the flash.\<close>

abbreviation other_cfg :: "fw \<Rightarrow> (cstring \<times> cstring) list option list" where
  "other_cfg w \<equiv> map (rom (kdev (lk (wnv (fweb w))))) [1, 2, 3]"

abbreviation sval :: "fw \<Rightarrow> string \<Rightarrow> cstring" where
  "sval w name \<equiv> setting (cfg w) (lit name)"

definition fw_ok :: "fenv \<Rightarrow> fw \<Rightarrow> bool" where
  "fw_ok e w = lib_ok (fe_u e) 0 (wnv (fweb w))"

text \<open>Between two states only commands were run.\<close>

definition issued :: "fenv \<Rightarrow> fw \<Rightarrow> cstring list \<Rightarrow> fw \<Rightarrow> bool" where
  "issued e w cs w' = (fw_ok e w' \<and> cfg w' = cfg w \<and> stored_cfg w' = stored_cfg w \<and> other_cfg w' = other_cfg w
     \<and> page (fweb w') = page (fweb w) \<and> freply w' = freply w \<and> fcmds w' = fcmds w @ cs)"

text \<open>A function that only runs commands, and which.\<close>

definition issues :: "fenv \<Rightarrow> fw \<Rightarrow> fw outcome \<Rightarrow> cstring list \<Rightarrow> bool" where
  "issues e w m cs = (\<exists>w'. m = Ret w' \<and> issued e w cs w')"

lemma fw_ok_user: "fw_ok e w \<Longrightarrow> user_ok (fe_u e)"
  by (simp add: fw_ok_def lib_ok_def)

lemma issued_refl: "fw_ok e w \<Longrightarrow> issued e w [] w"
  by (simp add: issued_def)

lemma issued_trans: "issued e w cs w1 \<Longrightarrow> issued e w1 ds w2 \<Longrightarrow> issued e w (cs @ ds) w2"
  by (simp add: issued_def)

lemma issued_ok: "issued e w cs w' \<Longrightarrow> fw_ok e w'"
  by (simp add: issued_def)

lemma issued_cfg: "issued e w cs w' \<Longrightarrow> cfg w' = cfg w"
  by (simp add: issued_def)

lemma issues_Ret [simp]: "fw_ok e w \<Longrightarrow> issues e w (Ret w) []"
  by (simp add: issues_def issued_refl)

lemma issues_bind:
  assumes "issues e w m cs" and "\<And>w'. issued e w cs w' \<Longrightarrow> issues e w' (f w') ds"
  shows "issues e w (obind m f) (cs @ ds)"
proof -
  obtain w1 where w1: "m = Ret w1" "issued e w cs w1" using assms(1) by (auto simp: issues_def)
  then obtain w2 where "f w1 = Ret w2" "issued e w1 ds w2" using assms(2) by (auto simp: issues_def)
  with w1 show ?thesis using issued_trans by (auto simp: issues_def)
qed

lemma issues_after:
  "issued e w cs w1 \<Longrightarrow> issues e w1 m ds \<Longrightarrow> issues e w m (cs @ ds)"
  using issued_trans by (auto simp: issues_def)

lemma issues_doSystem:
  assumes "fw_ok e w" and "render fmt args = Some t" and "is_cstring t"
  shows "issues e w (doSystem e w fmt args) [take 959 t]"
  using doSystem_ok [OF fw_ok_user [OF assms(1)] assms(2,3), of w] assms(1)
  by (simp add: issues_def issued_def fw_ok_def)

lemma fw_get_ok:
  assumes "fw_ok e w"
  obtains w' where "fw_get e w name = Ret (Some (sval w name), w')" "issued e w [] w'" "fifname w' = fifname w"
proof -
  obtain s where "lib_nvram_bufget (fe_u e) (wnv (fweb w)) 0 (lit name) = Ret (Some (sval w name), s)"
    "lib_ok (fe_u e) 0 s" "ram (lk s) 0 = cfg w" "kdev (lk s) = kdev (lk (wnv (fweb w)))"
    using lib_bufget_law [of "fe_u e" 0 "wnv (fweb w)" "lit name"] assms by (auto simp: fw_ok_def lookup_setting)
  then show thesis by (intro that [of "w\<lparr>fweb := (fweb w)\<lparr>wnv := s\<rparr>\<rparr>"])
      (simp_all add: fw_get_def web_bufget_def issued_def fw_ok_def)
qed

text \<open>Reading a setting and going on with it.\<close>

lemma issues_get:
  assumes "fw_ok e w" and "\<And>w'. issued e w [] w' \<Longrightarrow> issues e w' (f (Some (sval w name), w')) cs"
  shows "issues e w (obind (fw_get e w name) f) cs"
proof -
  obtain w' where "fw_get e w name = Ret (Some (sval w name), w')" "issued e w [] w'" using fw_get_ok [OF assms(1)] by blast
  then show ?thesis using assms(2) issues_after [of e w "[]" w'] by simp
qed

section \<open>Rules and fields\<close>

lemma value_at_ok:
  assumes "is_cstring s" and "d \<noteq> NUL" and "0 < len"
  shows "value_at e i s d len = Ret (if i < length (parts d s) then Some (take (len - 1) (parts d s ! i)) else None)"
proof -
  have c: "is_cstring (take n (parts d s ! i))" if "i < length (parts d s)" for n
    using set_parts [of d s] nth_mem [OF that] assms(1) unfolding is_cstring_def by (auto dest: in_set_takeD)
  have "nat (int len - 1) = len - 1" by simp
  then show ?thesis
    using getNthValueSafe_ok [OF assms(1,2), of "int len" "fresh (u_heap (fe_u e)) len" "int i" "[]"] assms(3) c [of "len - 1"]
    by (simp add: value_at_def patch_def)
qed

lemma with_field_ok:
  assumes "is_cstring rec" and "0 < len"
  shows "with_field e i rec len s k =
    (if i < length (parts COMMA rec) then k (take (len - 1) (parts COMMA rec ! i)) else Ret s)"
  using assms by (simp add: with_field_def value_at_ok)

text \<open>The rules of a list, each cut to the array.\<close>

definition records :: "nat \<Rightarrow> cstring \<Rightarrow> cstring list" where
  "records len rules = map (take (len - 1)) (parts SEMI rules)"

lemma records_cstring: "is_cstring rules \<Longrightarrow> rec \<in> set (records len rules) \<Longrightarrow> is_cstring rec"
  using set_parts [of SEMI rules] by (auto simp: records_def is_cstring_def dest!: in_set_takeD)

lemma records_set: "rec \<in> set (records len rules) \<Longrightarrow> set rec \<subseteq> set rules"
  using set_parts [of SEMI rules] by (auto simp: records_def dest!: in_set_takeD)

lemma each_value_step:
  assumes "is_cstring rules" and "0 < len"
  shows "each_value e len rules body i s =
    (if i < length (records len rules) then
       (case body (records len rules ! i) s of
          Ret s' \<Rightarrow> each_value e len rules body (i + 1) s' | Fault \<Rightarrow> Fault | Blocked \<Rightarrow> Blocked)
     else Ret s)"
  using assms by (subst each_value.simps) (simp add: value_at_ok records_def)

lemma each_value_issues:
  assumes c: "is_cstring rules" "0 < len" and ok: "fw_ok e w"
    and body: "\<And>rec w'. rec \<in> set (drop i (records len rules)) \<Longrightarrow> fw_ok e w' \<Longrightarrow> cfg w' = cfg w \<Longrightarrow>
      issues e w' (body rec w') (f rec)"
  shows "issues e w (each_value e len rules body i w) (concat (map f (drop i (records len rules))))"
  using ok body
proof (induction "length (records len rules) - i" arbitrary: i w)
  case 0
  then show ?case using c by (subst each_value_step) auto
next
  case (Suc n)
  let ?rs = "records len rules"
  have i: "i < length ?rs" using Suc(2) by simp
  then have d: "drop i ?rs = ?rs ! i # drop (Suc i) ?rs" by (simp add: Cons_nth_drop_Suc)
  obtain w1 where w1: "body (?rs ! i) w = Ret w1" "issued e w (f (?rs ! i)) w1"
    using Suc.prems(2) [of "?rs ! i" w] Suc.prems(1) d by (auto simp: issues_def)
  have "issues e w1 (each_value e len rules body (i + 1) w1) (concat (map f (drop (i + 1) ?rs)))"
    using Suc.hyps(2) issued_ok [OF w1(2)] issued_cfg [OF w1(2)] Suc.prems(2) d
    by (intro Suc.hyps(1)) simp_all
  then have "issues e w (each_value e len rules body (i + 1) w1) (f (?rs ! i) @ concat (map f (drop (i + 1) ?rs)))"
    by (rule issues_after [OF w1(2)])
  then show ?case using w1(1) i d c by (subst each_value_step) simp_all
qed

section \<open>Commands in an array\<close>

primrec emits :: "int \<Rightarrow> cstring list \<Rightarrow> obuf \<Rightarrow> obuf outcome" where
  "emits len [] ob = Ret ob"
| "emits len (t # ts) ob = obind (emit len t ob) (emits len ts)"

definition wrote :: "nat \<Rightarrow> cstring \<Rightarrow> obuf \<Rightarrow> bool" where
  "wrote n t = (\<lambda>(buf, pos, rc). length buf = n \<and> pos = length t \<and> length t < n \<and> take (length t) buf = t
     \<and> (t \<noteq> [] \<longrightarrow> buf ! length t = NUL) \<and> 0 \<le> rc \<and> rc \<le> int (length t))"

lemma emit_ok:
  assumes "wrote n t ob" and "length t + length u < n" and "n < 2 ^ 31"
  shows "\<exists>ob'. emit (int n) u ob = Ret ob' \<and> wrote n (t @ u) ob'"
proof -
  obtain buf pos rc where ob: "ob = (buf, pos, rc)" by (cases ob) auto
  have b: "length buf = n" "pos = length t" "take (length t) buf = t" "0 \<le> rc" "rc \<le> int (length t)"
    using assms(1) ob by (auto simp: wrote_def)
  have "(int n - rc) mod 2 ^ 32 = int n - rc" using b(4,5) assms(2,3) by (intro mod_pos_pos_trivial) auto
  moreover have "length u < nat (int n - rc)" "rc < int n" using b(5) assms(2) by linarith+
  ultimately have "snprintf buf pos (nat ((int n - rc) mod 2 ^ 32)) u = Ret (patch buf pos (u @ [NUL]))"
    using b(1,2) assms(2) by (simp add: snprintf_def Let_def)
  then have "emit (int n) u ob = Ret (patch buf pos (u @ [NUL]), pos + length u, int (length u))"
    by (simp add: emit_def ob)
  moreover have "wrote n (t @ u) (patch buf pos (u @ [NUL]), pos + length u, int (length u))"
    using b assms(2) by (auto simp: wrote_def patch_def nth_append)
  ultimately show ?thesis by blast
qed

lemma emits_ok:
  assumes "wrote n t ob" and "length t + length (concat us) < n" and "n < 2 ^ 31"
  shows "\<exists>ob'. emits (int n) us ob = Ret ob' \<and> wrote n (t @ concat us) ob'"
  using assms(1,2)
proof (induction us arbitrary: t ob)
  case (Cons u us)
  obtain o1 where "emit (int n) u ob = Ret o1" "wrote n (t @ u) o1"
    using emit_ok [OF Cons.prems(1), of u] Cons.prems(2) assms(3) by auto
  with Cons.IH [of "t @ u" o1] Cons.prems(2) show ?case by auto
qed simp

text \<open>An array filled from its start reads as the text.\<close>

lemma emits_cstr:
  assumes "length buf = n" and "length (concat us) < n" and "n < 2 ^ 31" and "concat us \<noteq> []" and "is_cstring (concat us)"
  shows "\<exists>b p r. emits (int n) us (buf, 0, 0) = Ret (b, p, r) \<and> cstr b = concat us"
proof -
  let ?t = "concat us"
  have "wrote n [] (buf, 0, 0)" using assms by (auto simp: wrote_def)
  then obtain ob where ob: "emits (int n) us (buf, 0, 0) = Ret ob" "wrote n ([] @ ?t) ob"
    using emits_ok assms(2,3) by fastforce
  obtain b p r where b: "ob = (b, p, r)" by (cases ob) auto
  then have "length ?t < length b" "take (length ?t) b = ?t" "b ! length ?t = NUL"
    using ob(2) assms(4) by (auto simp: wrote_def)
  then have "b = ?t @ NUL # drop (Suc (length ?t)) b" by (metis id_take_nth_drop)
  then have "cstr b = ?t" using assms(5) by (metis cstr_NUL)
  with ob(1) b show ?thesis by blast
qed

end
