(* ===== verification/FwRules.thy ===== *)
theory FwRules
  imports FwBase
begin

text \<open>
  The firewall of the web server at work (\<open>user/goahead/src_tongyong/firewall.c\<close>): the functions that
  read the rules from the configuration and run the \<open>iptables\<close> commands for them, the functions that
  flush and clear the chains, and the order in which \<open>firewall_init\<close> puts all of it together.

  The reference for each kind of rule is a function from one rule of the list to the commands it
  stands for (\<open>forward_cmds\<close>, \<open>filter_cmds\<close>); the theorems say that the functions
  run exactly these commands, rule by rule in the order of the list.
\<close>

section \<open>Constants of firewall.h\<close>

abbreviation (input) PROTO_TCP :: int where "PROTO_TCP \<equiv> 1"
abbreviation (input) PROTO_UDP :: int where "PROTO_UDP \<equiv> 2"
abbreviation (input) PROTO_TCP_UDP :: int where "PROTO_TCP_UDP \<equiv> 3"
abbreviation (input) PROTO_ICMP :: int where "PROTO_ICMP \<equiv> 4"
abbreviation (input) PROTO_NONE :: int where "PROTO_NONE \<equiv> 5"
abbreviation (input) ACTION_DROP :: int where "ACTION_DROP \<equiv> 0"
abbreviation (input) ACTION_ACCEPT :: int where "ACTION_ACCEPT \<equiv> 1"

abbreviation (input) WEB_FILTER_CHAIN :: string where "WEB_FILTER_CHAIN \<equiv> ''web_filter''"
abbreviation (input) IPPORT_FILTER_CHAIN :: string where "IPPORT_FILTER_CHAIN \<equiv> ''macipport_filter''"
abbreviation (input) MALICIOUS_FILTER_CHAIN :: string where "MALICIOUS_FILTER_CHAIN \<equiv> ''malicious_filter''"
abbreviation (input) SYNFLOOD_FILTER_CHAIN :: string where "SYNFLOOD_FILTER_CHAIN \<equiv> ''synflood_filter''"
abbreviation (input) MALICIOUS_INPUT_FILTER_CHAIN :: string where "MALICIOUS_INPUT_FILTER_CHAIN \<equiv> ''malicious_input_filter''"
abbreviation (input) SYNFLOOD_INPUT_FILTER_CHAIN :: string where "SYNFLOOD_INPUT_FILTER_CHAIN \<equiv> ''synflood_input_filter''"
abbreviation (input) DMZ_CHAIN :: string where "DMZ_CHAIN \<equiv> ''DMZ''"
abbreviation (input) PORT_FORWARD_CHAIN :: string where "PORT_FORWARD_CHAIN \<equiv> ''port_forward''"

section \<open>Flushing and clearing the chains\<close>

definition conntrack_flush :: "fenv \<Rightarrow> fw \<Rightarrow> fw outcome" where
  "conntrack_flush e = run_all e
     [(''cat /proc/sys/net/netfilter/nf_conntrack_udp_timeout > /var/.udpbackup'', []),
      (''echo 0 > /proc/sys/net/netfilter/nf_conntrack_udp_timeout'', []),
      (''cat /var/.udpbackup > /proc/sys/net/netfilter/nf_conntrack_udp_timeout; rm -f /var/.udpbackup'', []),
      (''cat /proc/sys/net/netfilter/nf_conntrack_tcp_timeout_established > /var/.tcpbackup'', []),
      (''echo 0 > /proc/sys/net/netfilter/nf_conntrack_tcp_timeout_established'', []),
      (''cat /var/.tcpbackup > /proc/sys/net/netfilter/nf_conntrack_tcp_timeout_established; rm -f /var/.tcpbackup'', [])]"

definition iptablesForwardFilterClear :: "fenv \<Rightarrow> fw \<Rightarrow> fw outcome" where
  "iptablesForwardFilterClear e = run_all e [(''iptables -F -t filter 1>/dev/null 2>&1'', [])]"

definition iptablesIPPortFilterFlush :: "fenv \<Rightarrow> fw \<Rightarrow> fw outcome" where
  "iptablesIPPortFilterFlush e = run_all e [(''iptables -F %s 1>/dev/null 2>&1'', [IPPORT_FILTER_CHAIN])]"

definition iptablesIPPortFilterClear :: "fenv \<Rightarrow> fw \<Rightarrow> fw outcome" where
  "iptablesIPPortFilterClear e = run_all e
     [(''iptables -D FORWARD -j %s 1>/dev/null 2>&1'', [IPPORT_FILTER_CHAIN]),
      (''iptables -F %s 1>/dev/null 2>&1'', [IPPORT_FILTER_CHAIN])]"

definition iptablesWebContentFilterClear :: "fenv \<Rightarrow> fw \<Rightarrow> fw outcome" where
  "iptablesWebContentFilterClear e = run_all e
     [(''iptables -D FORWARD -j %s  1>/dev/null 2>&1'', [WEB_FILTER_CHAIN]),
      (''iptables -F %s  1>/dev/null 2>&1'', [WEB_FILTER_CHAIN])]"

definition iptablesMaliciousFilterClear :: "fenv \<Rightarrow> fw \<Rightarrow> fw outcome" where
  "iptablesMaliciousFilterClear e = run_all e
     [(''iptables -D FORWARD -j %s 1>/dev/null 2>&1'', [MALICIOUS_FILTER_CHAIN]),
      (''iptables -F %s  1>/dev/null 2>&1'', [MALICIOUS_FILTER_CHAIN]),
      (''iptables -D INPUT -j %s 1>/dev/null 2>&1'', [MALICIOUS_INPUT_FILTER_CHAIN]),
      (''iptables -F %s  1>/dev/null 2>&1'', [MALICIOUS_INPUT_FILTER_CHAIN])]"

definition iptablesMaliciousFilterFlush :: "fenv \<Rightarrow> fw \<Rightarrow> fw outcome" where
  "iptablesMaliciousFilterFlush e = run_all e
     [(''iptables -F %s  1>/dev/null 2>&1'', [MALICIOUS_FILTER_CHAIN]),
      (''iptables -F %s  1>/dev/null 2>&1'', [SYNFLOOD_FILTER_CHAIN]),
      (''iptables -A %s -p tcp --syn -j %s 1>/dev/null 2>&1'', [MALICIOUS_FILTER_CHAIN, SYNFLOOD_FILTER_CHAIN]),
      (''iptables -F %s  1>/dev/null 2>&1'', [MALICIOUS_INPUT_FILTER_CHAIN]),
      (''iptables -F %s  1>/dev/null 2>&1'', [SYNFLOOD_INPUT_FILTER_CHAIN]),
      (''iptables -A %s -p tcp --syn -j %s 1>/dev/null 2>&1'', [MALICIOUS_INPUT_FILTER_CHAIN, SYNFLOOD_INPUT_FILTER_CHAIN]),
      (''echo 0 > /proc/sys/net/ipv4/tcp_syncookies 2>&1 1>/dev/null'', [])]"

text \<open>\<open>CONFIG_RALINKAPP_SUPERDMZ\<close> is not set in the build.\<close>

definition iptablesDMZFlush :: "fenv \<Rightarrow> fw \<Rightarrow> fw outcome" where
  "iptablesDMZFlush e = run_all e [(''iptables -t nat -F %s 1>/dev/null 2>&1'', [DMZ_CHAIN])]"

definition iptablesPortForwardFlush :: "fenv \<Rightarrow> fw \<Rightarrow> fw outcome" where
  "iptablesPortForwardFlush e = run_all e [(''iptables -t nat -F %s 1>/dev/null 2>&1'', [PORT_FORWARD_CHAIN])]"

definition iptablesSinglePortForwardFlush :: "fenv \<Rightarrow> fw \<Rightarrow> fw outcome" where
  "iptablesSinglePortForwardFlush e = run_all e [(''iptables -t nat -F %s 1>/dev/null 2>&1'', [PORT_FORWARD_CHAIN])]"

definition iptablesDMZClear :: "fenv \<Rightarrow> fw \<Rightarrow> fw outcome" where
  "iptablesDMZClear e = run_all e
     [(''iptables -t nat -D PREROUTING -j %s 1>/dev/null 2>&1'', [DMZ_CHAIN]),
      (''iptables -t nat -F %s 1>/dev/null 2>&1; iptables -t nat -X %s  1>/dev/null 2>&1'', [DMZ_CHAIN, DMZ_CHAIN])]"

definition iptablesPortForwardClear :: "fenv \<Rightarrow> fw \<Rightarrow> fw outcome" where
  "iptablesPortForwardClear e = run_all e
     [(''iptables -t nat -D PREROUTING -j %s 1>/dev/null 2>&1'', [PORT_FORWARD_CHAIN]),
      (''iptables -t nat -F %s  1>/dev/null 2>&1; iptables -t nat -X %s  1>/dev/null 2>&1'', [PORT_FORWARD_CHAIN, PORT_FORWARD_CHAIN])]"

definition iptablesAllFilterClear :: "fenv \<Rightarrow> fw \<Rightarrow> fw outcome" where
  "iptablesAllFilterClear e w =
     obind (iptablesForwardFilterClear e w) (\<lambda>w.
     obind (iptablesIPPortFilterClear e w) (\<lambda>w.
     obind (iptablesWebContentFilterClear e w) (\<lambda>w.
     obind (iptablesMaliciousFilterClear e w) (\<lambda>w.
     run_all e [(''iptables -P INPUT ACCEPT'', []), (''iptables -P OUTPUT ACCEPT'', []), (''iptables -P FORWARD ACCEPT'', [])] w))))"

definition iptablesAllNATClear :: "fenv \<Rightarrow> fw \<Rightarrow> fw outcome" where
  "iptablesAllNATClear e w =
     obind (iptablesPortForwardClear e w) (\<lambda>w.
     obind (iptablesDMZClear e w) (\<lambda>w.
     conntrack_flush e w))"

section \<open>Counting rules\<close>

text \<open>\<open>getNums\<close> on a C string: \<open>strchr\<close> is called once per separator.\<close>

fun nums_loop :: "byte \<Rightarrow> cstring \<Rightarrow> int \<Rightarrow> int" where
  "nums_loop d [] count = count"
| "nums_loop d (c # pos) count = (if c = d then nums_loop d pos (count + 1) else nums_loop d pos count)"

definition getNums :: "cstring option \<Rightarrow> byte \<Rightarrow> int" where
  "getNums val delimit = (case val of None \<Rightarrow> 0 | Some pos \<Rightarrow> nums_loop delimit pos 1)"

definition getRuleNums :: "cstring option \<Rightarrow> int" where
  "getRuleNums rules = getNums rules SEMI"

section \<open>One command\<close>

text \<open>\<open>makeDMZRule\<close>: the second \<open>snprintf\<close> writes at \<open>buf + rc\<close> with the size of the whole array.\<close>

definition makeDMZRule :: "fenv \<Rightarrow> byte list \<Rightarrow> nat \<Rightarrow> cstring \<Rightarrow> cstring \<Rightarrow> int \<Rightarrow> byte list outcome" where
  "makeDMZRule e buf len wan_name ip_address avoidtcpport80 =
     (let t = lit ''iptables -t nat -A DMZ -j DNAT -i '' @ wan_name @ lit '' --to '' @ ip_address in
      obind (snprintf buf 0 len t) (\<lambda>buf.
      if avoidtcpport80 \<noteq> 0 then
        snprintf buf (length t) len (lit '';iptables -t nat -A DMZ -j DNAT -i '' @ wan_name @ lit '' -p tcp --dport ! ''
          @ fmt_d (sint (fe_port e)) @ lit '' --to '' @ ip_address)
      else snprintf buf (length t) len (lit '';iptables -t nat -A DMZ -j DNAT -i '' @ wan_name @ lit '' -p tcp --to '' @ ip_address)))"

definition makePortForwardRule :: "byte list \<Rightarrow> int \<Rightarrow> cstring \<Rightarrow> cstring \<Rightarrow> int \<Rightarrow> int \<Rightarrow> int \<Rightarrow> byte list outcome" where
  "makePortForwardRule buf len wan_ip ip_address proto prf_int prt_int =
     obind (emit len (lit ''iptables -t nat -A port_forward -j DNAT -d '' @ wan_ip @ lit '' '') (buf, 0, 0)) (\<lambda>pos.
     obind (if proto = PROTO_TCP then emit len (lit ''-p tcp '') pos
            else if proto = PROTO_UDP then emit len (lit ''-p udp '') pos
            else if proto = PROTO_TCP_UDP then emit len (lit '' '') pos
            else Ret (advance pos)) (\<lambda>pos.
     obind (if prt_int \<noteq> 0 then emit len (lit ''--dport '' @ fmt_d prf_int @ lit '':'' @ fmt_d prt_int @ lit '' '') pos
            else emit len (lit ''--dport '' @ fmt_d prf_int @ lit '' '') pos) (\<lambda>pos.
     obind (emit len (lit ''--to '' @ ip_address @ lit '' '') pos) (\<lambda>(buf, _, _). Ret buf))))"

definition makeSinglePortForwardRule :: "byte list \<Rightarrow> int \<Rightarrow> cstring \<Rightarrow> cstring \<Rightarrow> int \<Rightarrow> int \<Rightarrow> int \<Rightarrow> byte list outcome" where
  "makeSinglePortForwardRule buf len wan_name ip_address proto publicPort_int privatePort_int =
     obind (emit len (lit ''iptables -t nat -A port_forward -j DNAT -i '' @ wan_name @ lit '' '') (buf, 0, 0)) (\<lambda>pos.
     obind (if proto = PROTO_TCP then emit len (lit ''-p tcp '') pos
            else if proto = PROTO_UDP then emit len (lit ''-p udp '') pos
            else if proto = PROTO_TCP_UDP then emit len (lit '' '') pos
            else Ret (advance pos)) (\<lambda>pos.
     obind (emit len (lit ''--dport '' @ fmt_d publicPort_int @ lit '' '') pos) (\<lambda>pos.
     obind (emit len (lit ''--to-destination '' @ ip_address @ lit '':'' @ fmt_d privatePort_int) pos) (\<lambda>(buf, _, _). Ret buf))))"

text \<open>\<open>atoi\<close> of a setting that may be missing reads through the NULL pointer.\<close>

definition atoi_of :: "cstring option \<Rightarrow> int outcome" where
  "atoi_of v = (case v of None \<Rightarrow> Fault | Some s \<Rightarrow> Ret (atoi s))"

definition port_range :: "string \<Rightarrow> int \<Rightarrow> int \<Rightarrow> cstring" where
  "port_range opt from_int to_int =
     (if to_int \<noteq> 0 then lit opt @ fmt_d from_int @ lit '':'' @ fmt_d to_int @ lit '' ''
      else lit opt @ fmt_d from_int @ lit '' '')"

definition makeIPPortFilterRule :: "fenv \<Rightarrow> fw \<Rightarrow> byte list \<Rightarrow> int \<Rightarrow> cstring \<Rightarrow> cstring \<Rightarrow> int \<Rightarrow> int
    \<Rightarrow> cstring \<Rightarrow> int \<Rightarrow> int \<Rightarrow> int \<Rightarrow> int \<Rightarrow> (byte list \<times> fw) outcome" where
  "makeIPPortFilterRule e w buf len mac_address sip_1 sprf_int sprt_int dip_1 dprf_int dprt_int proto action =
     obind (fw_get e w ''SPIFWEnabled'') (\<lambda>(spifw, w).
     obind (if action = ACTION_DROP then
              obind (atoi_of spifw) (\<lambda>spi.
              emit len (if spi = 0 then lit ''iptables -A macipport_filter ''
                else lit ''iptables -A macipport_filter -m state --state NEW,INVALID '') (buf, 0, 0))
            else if action = ACTION_ACCEPT then emit len (lit ''iptables -A macipport_filter '') (buf, 0, 0)
            else Ret (buf, 0, 0)) (\<lambda>pos.
     obind (if mac_address \<noteq> [] then emit len (lit ''-m mac --mac-source '' @ mac_address @ lit '' '') pos else Ret pos) (\<lambda>pos.
     obind (emit len (lit ''-s '' @ sip_1 @ lit '' '') pos) (\<lambda>pos.
     obind (emit len (lit ''-d '' @ dip_1 @ lit '' '') pos) (\<lambda>pos.
     obind (if proto = PROTO_NONE then emit len (lit '' '') pos
            else if proto = PROTO_ICMP then emit len (lit ''-p icmp '') pos
            else
              obind (if proto = PROTO_TCP then emit len (lit ''-p tcp '') pos
                     else if proto = PROTO_UDP then emit len (lit ''-p udp '') pos
                     else Ret (advance pos)) (\<lambda>pos.
              obind (if sprf_int \<noteq> 0 then emit len (port_range ''--sport '' sprf_int sprt_int) pos else Ret pos) (\<lambda>pos.
              if dprf_int \<noteq> 0 then emit len (port_range ''--dport '' dprf_int dprt_int) pos else Ret pos))) (\<lambda>pos.
     obind (if action = ACTION_DROP then emit len (lit ''-j DROP'') pos
            else if action = ACTION_ACCEPT then emit len (lit ''-j ACCEPT'') pos
            else Ret pos) (\<lambda>(buf, _, _). Ret (buf, w))))))))"

section \<open>Running the rules\<close>

text \<open>The array \<open>cmd\<close> of 1024 bytes; each command is written from its start.\<close>

definition cmd_array :: "fenv \<Rightarrow> byte list" where
  "cmd_array e = fresh (u_heap (fe_u e)) 1024"

definition forward_one :: "fenv \<Rightarrow> cstring \<Rightarrow> cstring \<Rightarrow> int \<Rightarrow> int \<Rightarrow> int \<Rightarrow> fw \<Rightarrow> fw outcome" where
  "forward_one e wan_ip ip_address proto prf_int prt_int w =
     obind (makePortForwardRule (cmd_array e) 1024 wan_ip ip_address proto prf_int prt_int) (\<lambda>cmd.
     doSystem e w (cstr cmd) [])"

text \<open>The body of the loop of \<open>iptablesPortForwardRun\<close>; \<open>continue\<close> leaves the state as it is.\<close>

definition forward_rule :: "fenv \<Rightarrow> cstring \<Rightarrow> cstring \<Rightarrow> fw \<Rightarrow> fw outcome" where
  "forward_rule e wan_ip rec w =
     with_field e 0 rec 32 w (\<lambda>ip_address.
     if \<not> isIpValid ip_address then Ret w else
     with_field e 1 rec 8 w (\<lambda>prf.
     if atoi prf = 0 \<or> atoi prf > 65535 then Ret w else
     with_field e 2 rec 8 w (\<lambda>prt.
     if atoi prt > 65535 then Ret w else
     with_field e 3 rec 8 w (\<lambda>protocol.
     let proto = atoi protocol in
     if proto = PROTO_TCP \<or> proto = PROTO_UDP then forward_one e wan_ip ip_address proto (atoi prf) (atoi prt) w
     else if proto = PROTO_TCP_UDP then
       obind (forward_one e wan_ip ip_address PROTO_TCP (atoi prf) (atoi prt) w)
         (forward_one e wan_ip ip_address PROTO_UDP (atoi prf) (atoi prt))
     else Ret w))))"

definition iptablesPortForwardRun :: "fenv \<Rightarrow> fw \<Rightarrow> fw outcome" where
  "iptablesPortForwardRun e w =
     obind (fw_get e w ''PortForwardEnable'') (\<lambda>(firewall_enable, w).
     case firewall_enable of None \<Rightarrow> Ret w | Some firewall_enable \<Rightarrow>
     if atoi firewall_enable = 0 then Ret w else
     obind (fw_get e w ''PortForwardRules'') (\<lambda>(rule, w).
     case rule of None \<Rightarrow> Ret w | Some rule \<Rightarrow>
     obind (getWanIfNamePPP e w) (\<lambda>(ifname, w).
     case getIfIp e ifname of
       None \<Rightarrow> Ret w
     | Some wan_ip \<Rightarrow> each_value e 256 rule (forward_rule e wan_ip) 0 w)))"

definition single_one :: "fenv \<Rightarrow> cstring \<Rightarrow> cstring \<Rightarrow> int \<Rightarrow> int \<Rightarrow> int \<Rightarrow> fw \<Rightarrow> fw outcome" where
  "single_one e wan_name ip_address proto publicPort_int privatePort_int w =
     obind (makeSinglePortForwardRule (cmd_array e) 1024 wan_name ip_address proto publicPort_int privatePort_int) (\<lambda>cmd.
     doSystem e w (cstr cmd) [])"

definition single_rule :: "fenv \<Rightarrow> cstring \<Rightarrow> cstring \<Rightarrow> fw \<Rightarrow> fw outcome" where
  "single_rule e wan_name rec w =
     with_field e 0 rec 32 w (\<lambda>ip_address.
     if \<not> isIpValid ip_address then Ret w else
     with_field e 1 rec 8 w (\<lambda>publicPort.
     if atoi publicPort = 0 \<or> atoi publicPort > 65535 then Ret w else
     with_field e 2 rec 8 w (\<lambda>privatePort.
     if atoi privatePort = 0 \<or> atoi privatePort > 65535 then Ret w else
     with_field e 3 rec 8 w (\<lambda>protocol.
     let proto = atoi protocol in
     if proto = PROTO_TCP \<or> proto = PROTO_UDP then single_one e wan_name ip_address proto (atoi publicPort) (atoi privatePort) w
     else if proto = PROTO_TCP_UDP then
       obind (single_one e wan_name ip_address PROTO_TCP (atoi publicPort) (atoi privatePort) w)
         (single_one e wan_name ip_address PROTO_UDP (atoi publicPort) (atoi privatePort))
     else Ret w))))"

text \<open>\<open>strncpy(wan_name, name, sizeof(wan_name)-1)\<close> leaves the last of the 16 bytes as it is; the names are
  shorter.\<close>

definition iptablesSinglePortForwardRun :: "fenv \<Rightarrow> fw \<Rightarrow> fw outcome" where
  "iptablesSinglePortForwardRun e w =
     obind (fw_get e w ''SinglePortForwardEnable'') (\<lambda>(firewall_enable, w).
     case firewall_enable of None \<Rightarrow> Ret w | Some firewall_enable \<Rightarrow>
     if atoi firewall_enable = 0 then Ret w else
     obind (fw_get e w ''SinglePortForwardRules'') (\<lambda>(rule, w).
     case rule of None \<Rightarrow> Ret w | Some rule \<Rightarrow>
     obind (getWanIfNamePPP e w) (\<lambda>(wan_name, w).
     if 15 \<le> length wan_name then Fault
     else each_value e 256 rule (single_rule e wan_name) 0 w)))"

text \<open>The body of the loop of \<open>iptablesIPPortFilterRun\<close>: fields 1 and 5 (the ends of the address
  ranges) and 10 (the comment) are not read.\<close>

definition filter_rule :: "fenv \<Rightarrow> cstring \<Rightarrow> fw \<Rightarrow> fw outcome" where
  "filter_rule e rec w =
     with_field e 0 rec 32 w (\<lambda>sip_1.
     obind (isIpNetmaskValid (Some sip_1)) (\<lambda>ok.
     if \<not> ok then Ret w else
     with_field e 2 rec 8 w (\<lambda>sprf.
     if atoi sprf > 65535 then Ret w else
     with_field e 3 rec 8 w (\<lambda>sprt.
     if atoi sprt > 65535 then Ret w else
     with_field e 4 rec 32 w (\<lambda>dip_1.
     obind (isIpNetmaskValid (Some dip_1)) (\<lambda>ok.
     if \<not> ok then Ret w else
     with_field e 6 rec 8 w (\<lambda>dprf.
     if atoi dprf > 65535 then Ret w else
     with_field e 7 rec 8 w (\<lambda>dprt.
     if atoi dprt > 65535 then Ret w else
     with_field e 8 rec 8 w (\<lambda>protocol.
     with_field e 9 rec 4 w (\<lambda>action_str.
     with_field e 11 rec 32 w (\<lambda>mac_address.
     if mac_address \<noteq> [] \<and> \<not> isMacValid mac_address then Ret w else
     obind (makeIPPortFilterRule e w (cmd_array e) 1024 mac_address sip_1 (atoi sprf) (atoi sprt)
              dip_1 (atoi dprf) (atoi dprt) (atoi protocol) (atoi action_str)) (\<lambda>(cmd, w).
     doSystem e w (cstr cmd) []))))))))))))"

definition iptablesIPPortFilterRun :: "fenv \<Rightarrow> fw \<Rightarrow> fw outcome" where
  "iptablesIPPortFilterRun e w =
     obind (fw_get e w ''SPIFWEnabled'') (\<lambda>(spifw, w).
     obind (fw_get e w ''IPPortFilterEnable'') (\<lambda>(firewall_enable, w).
     case firewall_enable of None \<Rightarrow> Ret w | Some firewall_enable \<Rightarrow>
     if atoi firewall_enable = 0 then Ret w else
     obind (fw_get e w ''IPPortFilterRules'') (\<lambda>(rule, w).
     case rule of None \<Rightarrow> Ret w | Some rule \<Rightarrow>
     obind (fw_get e w ''DefaultFirewallPolicy'') (\<lambda>(default_policy, w).
     let policy = atoi (case default_policy of None \<Rightarrow> lit ''0'' | Some p \<Rightarrow> p) in
     obind (if policy = 1 then
              obind (atoi_of spifw) (\<lambda>spi.
              if spi = 0 then Ret w
              else run1 e ''iptables -t filter -A %s -m state --state RELATED,ESTABLISHED -j ACCEPT'' [IPPORT_FILTER_CHAIN] w)
            else Ret w) (\<lambda>w.
     obind (each_value e 256 rule (filter_rule e) 0 w) (\<lambda>w.
     if policy = 0 then run1 e ''iptables -t filter -A %s -j ACCEPT'' [IPPORT_FILTER_CHAIN] w
     else if policy = 1 then run1 e ''iptables -t filter -A %s -j DROP'' [IPPORT_FILTER_CHAIN] w
     else Ret w))))))"

text \<open>A command with the name of the WAN interface.\<close>

definition run_wan :: "fenv \<Rightarrow> string \<Rightarrow> fw \<Rightarrow> fw outcome" where
  "run_wan e fmt w = obind (getWanIfNamePPP e w) (\<lambda>(ifname, w).
     doSystem e w (lit fmt) [AStr (Some (lit MALICIOUS_INPUT_FILTER_CHAIN)), AStr (Some ifname)])"

text \<open>\<open>getOnePortOnly\<close> is 0 in the build, which leaves out one branch.\<close>

definition iptablesRemoteManagementRun :: "fenv \<Rightarrow> fw \<Rightarrow> fw outcome" where
  "iptablesRemoteManagementRun e w =
     obind (fw_get e w ''RemoteManagement'') (\<lambda>(rmE, w).
     obind (fw_get e w ''OperationMode'') (\<lambda>(opmode, w).
     obind (fw_get e w ''SPIFWEnabled'') (\<lambda>(spifw, w).
     if opmode = None then Ret w
     else if opmode \<noteq> Some (lit ''1'') then Ret w
     else if rmE \<noteq> None \<and> atoi (the rmE) = 1 then Ret w
     else obind (atoi_of spifw) (\<lambda>spi.
       if spi = 0 then run_wan e ''iptables -A %s -i %s -p tcp --dport 80 -j DROP'' w
       else obind (run_wan e ''iptables -A %s -i %s -m state --state RELATED,ESTABLISHED -j ACCEPT'' w)
              (run_wan e ''iptables -A %s -i %s -m state -p tcp --dport 80 --state NEW,INVALID -j DROP'')))))"

definition app_entry :: "fenv \<Rightarrow> cstring \<Rightarrow> fw \<Rightarrow> fw outcome" where
  "app_entry e entry w =
     (if entry \<noteq> [] then doSystem e w (lit ''iptables -I FORWARD -m mac --mac-source %s -j DROP'') [AStr (Some entry)]
      else Ret w)"

text \<open>With a NULL list \<open>getNthValueSafe\<close> returns -1 at once.\<close>

definition iptablesAppFilterRun :: "fenv \<Rightarrow> fw \<Rightarrow> fw outcome" where
  "iptablesAppFilterRun e w =
     obind (fw_get e w ''LimitMac'') (\<lambda>(limitMac, w).
     case limitMac of None \<Rightarrow> Ret w | Some limitMac \<Rightarrow> each_value e 256 limitMac (app_entry e) 0 w)"

definition scan_rules :: "string \<Rightarrow> (string \<times> string list) list" where
  "scan_rules chain =
     [(''iptables -A %s -p tcp --tcp-flags ALL FIN,URG,PSH -j DROP'', [chain]),
      (''iptables -A %s -p tcp --tcp-flags ALL SYN,RST,ACK,FIN,URG -j DROP'', [chain]),
      (''iptables -A %s -p tcp --tcp-flags ALL NONE -j DROP'', [chain]),
      (''iptables -A %s -p tcp --tcp-flags SYN,RST SYN,RST -j DROP'', [chain]),
      (''iptables -A %s -p tcp --tcp-flags SYN,FIN SYN,FIN '', [chain])]"

definition iptablesMaliciousFilterRun :: "fenv \<Rightarrow> fw \<Rightarrow> fw outcome" where
  "iptablesMaliciousFilterRun e w =
     obind (fw_get e w ''WANPingFilter'') (\<lambda>(wpf, w).
     obind (fw_get e w ''BlockPortScan'') (\<lambda>(bps, w).
     obind (fw_get e w ''BlockSynFlood'') (\<lambda>(bsf, w).
     case (wpf, bps, bsf) of
       (Some wpf, Some bps, Some bsf) \<Rightarrow>
         obind (if atoi wpf = 0 then Ret w else run_wan e ''iptables -A %s -i %s -p icmp -j DROP'' w) (\<lambda>w.
         obind (if atoi bps = 0 then Ret w
                else run_all e (scan_rules MALICIOUS_FILTER_CHAIN @ scan_rules MALICIOUS_INPUT_FILTER_CHAIN) w) (\<lambda>w.
         if atoi bsf = 0 then Ret w
         else run1 e ''echo 1 > /proc/sys/net/ipv4/tcp_syncookies 2>&1 1>/dev/null'' [] w))
     | _ \<Rightarrow> Ret w)))"

section \<open>DMZ\<close>

text \<open>\<open>strncat(result, s, sizeof(result))\<close> on an array of 1024 bytes: the bound is for the text that is
  appended, not for what is left of the array.\<close>

definition append_to :: "cstring \<Rightarrow> cstring \<Rightarrow> cstring outcome" where
  "append_to result s = (let r = result @ take 1024 s in if 1024 \<le> length r then Fault else Ret r)"

primrec append_all :: "cstring list \<Rightarrow> cstring \<Rightarrow> cstring outcome" where
  "append_all [] result = Ret result"
| "append_all (s # ss) result = obind (append_to result s) (append_all ss)"

definition avoid_single :: "fenv \<Rightarrow> cstring \<Rightarrow> cstring \<Rightarrow> cstring outcome" where
  "avoid_single e rec result =
     with_field e 1 rec 8 result (\<lambda>publicPort.
     if atoi publicPort = 0 \<or> atoi publicPort > 65535 then Ret result else
     with_field e 3 rec 8 result (\<lambda>protocol.
     let proto = atoi protocol in
     if proto = PROTO_TCP then append_all [lit ''-t '', publicPort, lit '' ''] result
     else if proto = PROTO_UDP then append_all [lit ''-u '', publicPort, lit '' ''] result
     else if proto = PROTO_TCP_UDP then append_all [lit ''-t '', publicPort, lit '' -u '', publicPort, lit '' ''] result
     else Ret result))"

definition SuperDMZ_MakeSinglePortForwardAvoidStr :: "fenv \<Rightarrow> fw \<Rightarrow> (cstring option \<times> fw) outcome" where
  "SuperDMZ_MakeSinglePortForwardAvoidStr e w =
     obind (fw_get e w ''SinglePortForwardEnable'') (\<lambda>(enable, w).
     case enable of None \<Rightarrow> Ret (None, w) | Some enable \<Rightarrow>
     if atoi enable = 0 then Ret (None, w) else
     obind (fw_get e w ''SinglePortForwardRules'') (\<lambda>(rule, w).
     case rule of None \<Rightarrow> Ret (None, w) | Some rule \<Rightarrow>
     obind (each_value e 256 rule (avoid_single e) 0 []) (\<lambda>result. Ret (Some result, w))))"

definition avoid_range :: "fenv \<Rightarrow> cstring \<Rightarrow> cstring \<Rightarrow> cstring outcome" where
  "avoid_range e rec result =
     with_field e 3 rec 8 result (\<lambda>protocol.
     with_field e 1 rec 8 result (\<lambda>prf.
     if atoi prf = 0 \<or> atoi prf > 65535 then Ret result else
     with_field e 2 rec 8 result (\<lambda>prt.
     if atoi prt > 65535 then Ret result else
     let proto = atoi protocol; make = [prf] @ (if atoi prt \<noteq> 0 then [lit '':'', prt] else []) @ [lit '' ''] in
     if proto = PROTO_TCP then append_all (lit ''-t '' # make) result
     else if proto = PROTO_UDP then append_all (lit ''-u '' # make) result
     else if proto = PROTO_TCP_UDP then append_all ((lit ''-t '' # make) @ (lit ''-u '' # make)) result
     else Ret result)))"

definition SuperDMZ_MakePortForwardAvoidStr :: "fenv \<Rightarrow> fw \<Rightarrow> (cstring option \<times> fw) outcome" where
  "SuperDMZ_MakePortForwardAvoidStr e w =
     obind (fw_get e w ''PortForwardEnable'') (\<lambda>(enable, w).
     case enable of None \<Rightarrow> Ret (None, w) | Some enable \<Rightarrow>
     if atoi enable = 0 then Ret (None, w) else
     obind (fw_get e w ''PortForwardRules'') (\<lambda>(rule, w).
     case rule of None \<Rightarrow> Ret (None, w) | Some rule \<Rightarrow>
     obind (each_value e 256 rule (avoid_range e) 0 []) (\<lambda>result. Ret (Some result, w))))"

definition or_empty :: "cstring option \<Rightarrow> cstring" where
  "or_empty s = (case s of None \<Rightarrow> [] | Some s \<Rightarrow> s)"

definition iptablesDMZRun :: "fenv \<Rightarrow> fw \<Rightarrow> fw outcome" where
  "iptablesDMZRun e w =
     obind (fw_get e w ''DMZEnable'') (\<lambda>(dmz_enable, w).
     case dmz_enable of None \<Rightarrow> Ret w | Some dmz_enable \<Rightarrow>
     if atoi dmz_enable = 1 then
       obind (fw_get e w ''DMZAddress'') (\<lambda>(address, w).
       obind (fw_get e w ''DMZAvoidTCPPort80'') (\<lambda>(tcpport80, w).
       case (address, tcpport80) of
         (Some address, Some tcpport80) \<Rightarrow>
           obind (getWanIfNamePPP e w) (\<lambda>(ifname, w).
           obind (makeDMZRule e (cmd_array e) 1024 ifname address (atoi tcpport80)) (\<lambda>cmd.
           doSystem e w (cstr cmd) []))
       | _ \<Rightarrow> Ret w))
     else if atoi dmz_enable = 2 then
       obind (SuperDMZ_MakePortForwardAvoidStr e w) (\<lambda>(portforward, w).
       obind (SuperDMZ_MakeSinglePortForwardAvoidStr e w) (\<lambda>(single_portforward, w).
       obind (fw_get e w ''DMZAvoidTCPPort80'') (\<lambda>(tcpport80, w).
       obind (snprintf (cmd_array e) 0 1024 (lit ''/bin/super_dmz ''
         @ (if tcpport80 \<noteq> None \<and> atoi (the tcpport80) \<noteq> 0 then lit ''-t 80 '' else []) @ lit '' ''
         @ or_empty portforward @ lit '' '' @ or_empty single_portforward)) (\<lambda>cmd.
       doSystem e w (cstr cmd) []))))
     else Ret w)"

section \<open>Web content\<close>

definition content_cmd :: "fenv \<Rightarrow> string \<Rightarrow> int \<Rightarrow> fw \<Rightarrow> fw outcome" where
  "content_cmd e ports content_filter w =
     doSystem e w (lit ''iptables -A web_filter -p tcp -m tcp --dport '' @ lit ports
         @ lit '' -m webstr --content %d -j REJECT --reject-with tcp-reset'') [AInt (of_int content_filter)]"

definition url_entry :: "fenv \<Rightarrow> cstring \<Rightarrow> fw \<Rightarrow> fw outcome" where
  "url_entry e entry w =
     (if entry \<noteq> [] then
        doSystem e w (lit ''iptables -A web_filter -p tcp -m tcp -m webstr --url  %s -j REJECT --reject-with tcp-reset'')
          [AStr (Some (if strncaseeq entry (lit ''http://'') 7 then drop 7 entry else entry))]
      else Ret w)"

definition host_entry :: "fenv \<Rightarrow> cstring \<Rightarrow> fw \<Rightarrow> fw outcome" where
  "host_entry e entry w =
     (if entry \<noteq> [] then
        doSystem e w (lit ''iptables -A web_filter -p tcp -m tcp -m webstr --host %s -j REJECT --reject-with tcp-reset'')
          [AStr (Some entry)]
      else Ret w)"

definition content_bits :: "cstring \<Rightarrow> cstring \<Rightarrow> cstring \<Rightarrow> cstring \<Rightarrow> int" where
  "content_bits java activex cookies proxy =
     (if java = lit ''1'' then 1 else 0) + (if activex = lit ''1'' then 2 else 0)
   + (if cookies = lit ''1'' then 4 else 0) + (if proxy = lit ''1'' then 8 else 0)"

definition iptablesWebsFilterRun :: "fenv \<Rightarrow> fw \<Rightarrow> fw outcome" where
  "iptablesWebsFilterRun e w =
     obind (fw_get e w ''websURLFilters'') (\<lambda>(url_filter, w).
     obind (fw_get e w ''websHostFilters'') (\<lambda>(host_filter, w).
     obind (fw_get e w ''websFilterProxy'') (\<lambda>(proxy, w).
     obind (fw_get e w ''websFilterJava'') (\<lambda>(java, w).
     obind (fw_get e w ''websFilterActivex'') (\<lambda>(activex, w).
     obind (fw_get e w ''websFilterCookies'') (\<lambda>(cookies, w).
     case (url_filter, host_filter, proxy, java, activex, cookies) of
       (Some url_filter, Some host_filter, Some proxy, Some java, Some activex, Some cookies) \<Rightarrow>
         (let content_filter = content_bits java activex cookies proxy in
          obind (if content_filter \<noteq> 0 then
                   obind (content_cmd e ''80  '' content_filter w) (\<lambda>w.
                   obind (content_cmd e ''3128'' content_filter w) (content_cmd e ''8080'' content_filter))
                 else Ret w) (\<lambda>w.
          obind (each_value e 256 url_filter (url_entry e) 0 w) (each_value e 256 host_filter (host_entry e) 0)))
     | _ \<Rightarrow> Ret w))))))"

section \<open>All of it\<close>

definition iptablesAllFilterRun :: "fenv \<Rightarrow> fw \<Rightarrow> fw outcome" where
  "iptablesAllFilterRun e w =
     obind (iptablesIPPortFilterRun e w) (\<lambda>w.
     obind (iptablesWebsFilterRun e w) (\<lambda>w.
     obind (iptablesRemoteManagementRun e w) (\<lambda>w.
     obind (iptablesMaliciousFilterRun e w) (\<lambda>w.
     iptablesAppFilterRun e w))))"

definition iptablesAllNATRun :: "fenv \<Rightarrow> fw \<Rightarrow> fw outcome" where
  "iptablesAllNATRun e w =
     obind (iptablesPortForwardRun e w) (\<lambda>w.
     obind (iptablesSinglePortForwardRun e w) (\<lambda>w.
     iptablesDMZRun e w))"

definition filter_setup :: "(string \<times> string list) list" where
  "filter_setup =
     [(''iptables -t filter -N %s 1>/dev/null 2>&1'', [WEB_FILTER_CHAIN]),
      (''iptables -t filter -N %s 1>/dev/null 2>&1'', [IPPORT_FILTER_CHAIN]),
      (''iptables -t filter -N %s 1>/dev/null 2>&1'', [MALICIOUS_FILTER_CHAIN]),
      (''iptables -t filter -N %s 1>/dev/null 2>&1'', [SYNFLOOD_FILTER_CHAIN]),
      (''iptables -t filter -N %s 1>/dev/null 2>&1'', [MALICIOUS_INPUT_FILTER_CHAIN]),
      (''iptables -t filter -N %s 1>/dev/null 2>&1'', [SYNFLOOD_INPUT_FILTER_CHAIN]),
      (''iptables -t filter -A FORWARD -j %s 1>/dev/null 2>&1'', [WEB_FILTER_CHAIN]),
      (''iptables -t filter -A FORWARD -j %s 1>/dev/null 2>&1'', [IPPORT_FILTER_CHAIN]),
      (''iptables -t filter -A FORWARD -j %s 1>/dev/null 2>&1'', [MALICIOUS_FILTER_CHAIN]),
      (''iptables -t filter -A %s -p tcp --syn -j %s 1>/dev/null 2>&1'', [MALICIOUS_FILTER_CHAIN, SYNFLOOD_FILTER_CHAIN]),
      (''iptables -t filter -A INPUT -j %s 1>/dev/null 2>&1'', [MALICIOUS_INPUT_FILTER_CHAIN]),
      (''iptables -t filter -A %s -p tcp --syn -j %s 1>/dev/null 2>&1'', [MALICIOUS_INPUT_FILTER_CHAIN, SYNFLOOD_INPUT_FILTER_CHAIN]),
      (''iptables -A FORWARD -p tcp --tcp-flags SYN,RST SYN -j TCPMSS --clamp-mss-to-pmtu 1>/dev/null 2>&1'', [])]"

definition nat_setup :: "(string \<times> string list) list" where
  "nat_setup =
     [(''iptables -t nat -N %s 1>/dev/null 2>&1; iptables -t nat -I PREROUTING 1 -j %s 1>/dev/null 2>&1'', [PORT_FORWARD_CHAIN, PORT_FORWARD_CHAIN]),
      (''iptables -t nat -N %s 1>/dev/null 2>&1; iptables -t nat -I PREROUTING 2 -j %s 1>/dev/null 2>&1'', [DMZ_CHAIN, DMZ_CHAIN])]"

text \<open>\<open>LoadLayer7FilterName\<close>, the first call of \<open>firewall_init\<close>, reads a directory and changes only the
  text that one page shows; it is left out.\<close>

definition firewall_init :: "fenv \<Rightarrow> fw \<Rightarrow> fw outcome" where
  "firewall_init e w =
     obind (iptablesAllFilterClear e w) (\<lambda>w.
     obind (run_all e filter_setup w) (\<lambda>w.
     obind (iptablesAllFilterRun e w) (\<lambda>w.
     obind (iptablesAllNATClear e w) (\<lambda>w.
     obind (run_all e nat_setup w) (\<lambda>w.
     obind (iptablesAllNATRun e w) (\<lambda>w.
     run1 e ''vpn-passthru.sh'' [] w))))))"

definition firewall_fini :: "fenv \<Rightarrow> fw \<Rightarrow> fw outcome" where
  "firewall_fini e w = obind (iptablesAllFilterClear e w) (iptablesAllNATClear e)"

section \<open>Fixed commands\<close>

definition cmd_text :: "string \<times> string list \<Rightarrow> cstring" where
  "cmd_text c = or_empty (render (lit (fst c)) (map (\<lambda>a. AStr (Some (lit a))) (snd c)))"

definition cmd_wf :: "string \<times> string list \<Rightarrow> bool" where
  "cmd_wf c = (case render (lit (fst c)) (map (\<lambda>a. AStr (Some (lit a))) (snd c)) of
     None \<Rightarrow> False | Some t \<Rightarrow> is_cstring t \<and> length t \<le> 959)"

lemma issues_run1:
  assumes "fw_ok e w" and "cmd_wf (fmt, args)"
  shows "issues e w (run1 e fmt args w) [cmd_text (fmt, args)]"
proof -
  obtain t where t: "render (lit fmt) (map (\<lambda>a. AStr (Some (lit a))) args) = Some t" "is_cstring t" "length t \<le> 959"
    using assms(2) by (auto simp: cmd_wf_def split: option.splits)
  show ?thesis using issues_doSystem [OF assms(1) t(1,2)] t by (simp add: run1_def cmd_text_def or_empty_def)
qed

lemma issues_run_all:
  "fw_ok e w \<Longrightarrow> list_all cmd_wf cs \<Longrightarrow> issues e w (run_all e cs w) (map cmd_text cs)"
proof (induction cs arbitrary: w)
  case (Cons c cs)
  have "issues e w (obind (run1 e (fst c) (snd c) w) (run_all e cs)) ([cmd_text c] @ map cmd_text cs)"
    using Cons issues_run1 [of e w "fst c" "snd c"] by (intro issues_bind) (auto intro: issued_ok)
  then show ?case by simp
qed simp

lemmas cmd_wf_simps = cmd_wf_def cmd_text_def or_empty_def scan_rules_def

definition flush_filter :: "cstring list" where
  "flush_filter = [lit ''iptables -F macipport_filter 1>/dev/null 2>&1'']"

definition flush_forward :: "cstring list" where
  "flush_forward = [lit ''iptables -t nat -F port_forward 1>/dev/null 2>&1'']"

definition flush_DMZ :: "cstring list" where
  "flush_DMZ = [lit ''iptables -t nat -F DMZ 1>/dev/null 2>&1'']"

definition flush_conntrack :: "cstring list" where
  "flush_conntrack =
     [lit ''cat /proc/sys/net/netfilter/nf_conntrack_udp_timeout > /var/.udpbackup'',
      lit ''echo 0 > /proc/sys/net/netfilter/nf_conntrack_udp_timeout'',
      lit ''cat /var/.udpbackup > /proc/sys/net/netfilter/nf_conntrack_udp_timeout; rm -f /var/.udpbackup'',
      lit ''cat /proc/sys/net/netfilter/nf_conntrack_tcp_timeout_established > /var/.tcpbackup'',
      lit ''echo 0 > /proc/sys/net/netfilter/nf_conntrack_tcp_timeout_established'',
      lit ''cat /var/.tcpbackup > /proc/sys/net/netfilter/nf_conntrack_tcp_timeout_established; rm -f /var/.tcpbackup'']"

lemma flushes_issue:
  assumes "fw_ok e w"
  shows "issues e w (iptablesIPPortFilterFlush e w) flush_filter"
    "issues e w (iptablesPortForwardFlush e w) flush_forward"
    "issues e w (iptablesSinglePortForwardFlush e w) flush_forward"
    "issues e w (iptablesDMZFlush e w) flush_DMZ"
    "issues e w (conntrack_flush e w) flush_conntrack"
proof -
  show "issues e w (iptablesIPPortFilterFlush e w) flush_filter"
    using issues_run_all [OF assms, of "[(''iptables -F %s 1>/dev/null 2>&1'', [IPPORT_FILTER_CHAIN])]"]
    by (simp add: iptablesIPPortFilterFlush_def flush_filter_def cmd_wf_simps)
  show "issues e w (iptablesPortForwardFlush e w) flush_forward"
    using issues_run_all [OF assms, of "[(''iptables -t nat -F %s 1>/dev/null 2>&1'', [PORT_FORWARD_CHAIN])]"]
    by (simp add: iptablesPortForwardFlush_def flush_forward_def cmd_wf_simps)
  then show "issues e w (iptablesSinglePortForwardFlush e w) flush_forward"
    by (simp add: iptablesPortForwardFlush_def iptablesSinglePortForwardFlush_def)
  show "issues e w (iptablesDMZFlush e w) flush_DMZ"
    using issues_run_all [OF assms, of "[(''iptables -t nat -F %s 1>/dev/null 2>&1'', [DMZ_CHAIN])]"]
    by (simp add: iptablesDMZFlush_def flush_DMZ_def cmd_wf_simps)
  show "issues e w (conntrack_flush e w) flush_conntrack"
    using issues_run_all [OF assms, of "map (\<lambda>c. (c, [])) [
      ''cat /proc/sys/net/netfilter/nf_conntrack_udp_timeout > /var/.udpbackup'',
      ''echo 0 > /proc/sys/net/netfilter/nf_conntrack_udp_timeout'',
      ''cat /var/.udpbackup > /proc/sys/net/netfilter/nf_conntrack_udp_timeout; rm -f /var/.udpbackup'',
      ''cat /proc/sys/net/netfilter/nf_conntrack_tcp_timeout_established > /var/.tcpbackup'',
      ''echo 0 > /proc/sys/net/netfilter/nf_conntrack_tcp_timeout_established'',
      ''cat /var/.tcpbackup > /proc/sys/net/netfilter/nf_conntrack_tcp_timeout_established; rm -f /var/.tcpbackup'']"]
    by (simp add: conntrack_flush_def flush_conntrack_def cmd_wf_simps)
qed

section \<open>The WAN interface\<close>

declare lit_Cons [simp del]

definition known_mode :: "(cstring \<times> cstring) list \<Rightarrow> bool" where
  "known_mode kvs = (setting kvs (lit ''OperationMode'') \<in> {lit ''0'', lit ''1'', lit ''2'', lit ''3''})"

definition mode_ifname :: "cstring \<Rightarrow> cstring" where
  "mode_ifname mode = (if mode = lit ''0'' then lit ''br0'' else if mode = lit ''1'' then lit ''eth2.2''
     else if mode = lit ''2'' then lit ''ra0'' else lit ''apcli0'')"

definition wan_ifname :: "fenv \<Rightarrow> (cstring \<times> cstring) list \<Rightarrow> cstring" where
  "wan_ifname e kvs =
     (let cm = setting kvs (lit ''wanConnectionMode'') in
      if cm = lit ''PPPOE'' \<or> cm = lit ''L2TP'' \<or> cm = lit ''PPTP'' \<or> fe_3g e \<and> cm = lit ''3G'' then lit ''ppp0''
      else mode_ifname (setting kvs (lit ''OperationMode'')))"

lemma wan_ifname_text: "is_cstring (wan_ifname e kvs) \<and> PERCENT \<notin> set (wan_ifname e kvs) \<and> length (wan_ifname e kvs) < 15"
  by (simp add: wan_ifname_def mode_ifname_def Let_def lit_Cons)

lemma fw_cstring: "fw_ok e w \<Longrightarrow> is_cstring (sval w name)"
  using lib_okD(9) [of "fe_u e" 0 "wnv (fweb w)"] setting_cstring by (simp add: fw_ok_def)

lemma getWanIfName_ok:
  assumes "fw_ok e w" and "known_mode (cfg w)"
  shows "\<exists>w'. getWanIfName e w = Ret (mode_ifname (sval w ''OperationMode''), w') \<and> issued e w [] w'"
proof -
  obtain w1 where w1: "fw_get e w ''OperationMode'' = Ret (Some (sval w ''OperationMode''), w1)" "issued e w [] w1"
    using fw_get_ok [OF assms(1)] by blast
  have c: "strneq (sval w ''OperationMode'') (lit [d]) 2 = (sval w ''OperationMode'' = lit [d])" for d
    by (rule strneq_eq [OF fw_cstring [OF assms(1)]]) (simp add: lit_def)
  have m: "sval w ''OperationMode'' \<in> {lit ''0'', lit ''1'', lit ''2'', lit ''3''}" using assms(2) by (simp only: known_mode_def)
  have "getWanIfName e w = Ret (mode_ifname (sval w ''OperationMode''), w1\<lparr>fifname := mode_ifname (sval w ''OperationMode'')\<rparr>)"
    unfolding getWanIfName_def w1(1) obind.simps prod.case option.case c mode_ifname_def Let_def using m by auto
  moreover have "issued e w [] (w1\<lparr>fifname := n\<rparr>)" for n using w1(2) by (simp add: issued_def fw_ok_def)
  ultimately show ?thesis by blast
qed

lemma getWanIfNamePPP_ok:
  assumes "fw_ok e w" and "known_mode (cfg w)"
  shows "\<exists>w'. getWanIfNamePPP e w = Ret (wan_ifname e (cfg w), w') \<and> issued e w [] w'"
proof -
  obtain w1 where w1: "fw_get e w ''wanConnectionMode'' = Ret (Some (sval w ''wanConnectionMode''), w1)" "issued e w [] w1"
    using fw_get_ok [OF assms(1)] by blast
  obtain w2 where w2: "getWanIfName e w1 = Ret (mode_ifname (sval w ''OperationMode''), w2)" "issued e w1 [] w2"
    using getWanIfName_ok [of e w1] issued_ok [OF w1(2)] issued_cfg [OF w1(2)] assms(2) by auto
  have c: "strneq (sval w ''wanConnectionMode'') (lit d) n = (sval w ''wanConnectionMode'' = lit d)" if "length d < n" for d n
    using that by (intro strneq_eq [OF fw_cstring [OF assms(1)]]) (simp add: lit_def)
  have p: "strneq (sval w ''wanConnectionMode'') (lit ''PPPOE'') 6 = (sval w ''wanConnectionMode'' = lit ''PPPOE'')"
    "strneq (sval w ''wanConnectionMode'') (lit ''L2TP'') 5 = (sval w ''wanConnectionMode'' = lit ''L2TP'')"
    "strneq (sval w ''wanConnectionMode'') (lit ''PPTP'') 5 = (sval w ''wanConnectionMode'' = lit ''PPTP'')"
    "strneq (sval w ''wanConnectionMode'') (lit ''3G'') 3 = (sval w ''wanConnectionMode'' = lit ''3G'')"
    by (simp_all add: c)
  have "getWanIfNamePPP e w = Ret (wan_ifname e (cfg w), w1) \<or> getWanIfNamePPP e w = Ret (wan_ifname e (cfg w), w2)"
    unfolding getWanIfNamePPP_def w1(1) obind.simps prod.case option.case wan_ifname_def Let_def p using w2(1) by simp
  then show ?thesis using w1(2) issued_trans [OF w1(2) w2(2)] by auto
qed

section \<open>Texts of numbers and addresses\<close>

text \<open>A text that may stand in a format: no directive, no terminator.\<close>

definition plain :: "cstring \<Rightarrow> bool" where
  "plain t = (is_cstring t \<and> PERCENT \<notin> set t)"

lemma plain_append [simp]: "plain (s @ t) = (plain s \<and> plain t)"
  by (auto simp: plain_def)

lemma plain_cstring: "plain t \<Longrightarrow> is_cstring t"
  by (simp add: plain_def)

lemma plain_take: "plain t \<Longrightarrow> plain (take n t)"
  by (auto simp: plain_def is_cstring_def dest: in_set_takeD)

lemma plain_part: "plain s \<Longrightarrow> f \<in> set (parts d s) \<Longrightarrow> plain f"
  using set_parts [of d s] by (auto simp: plain_def is_cstring_def)

lemma not_digits: "\<not> isdigit NUL" "\<not> isdigit PERCENT"
  by (simp_all add: isdigit_def)

lemma plain_digits: "\<forall>c \<in> set t. isdigit c \<or> c = DOT \<or> c = 0x2D \<Longrightarrow> plain t"
  unfolding plain_def is_cstring_def by (intro conjI notI) (use not_digits in force)+

lemma plain_fmt_d [simp]: "plain (fmt_d i)"
  using print_base_digits by (intro plain_digits) (auto simp: fmt_d_def)

lemma plain_inet_ntoa: "plain (inet_ntoa a)"
proof (rule plain_digits, rule ballI)
  fix c assume c: "c \<in> set (inet_ntoa a)"
  have "set (inet_ntoa a) \<subseteq> insert DOT (\<Union> (set ` set (map (print_base 10) (octets a))))"
    unfolding inet_ntoa_join by (rule set_join)
  then consider "c = DOT" | n where "c \<in> set (print_base 10 n)" using c by auto
  then show "isdigit c \<or> c = DOT \<or> c = 0x2D" using print_base_digits by cases blast+
qed

lemma atoi_range: "- (2 ^ 31) \<le> atoi s \<and> atoi s < 2 ^ 31"
  by (auto simp: atoi_def Let_def split: list.split)

lemma length_fmt_d:
  assumes "- (2 ^ 31) \<le> i" and "i < 2 ^ 31"
  shows "length (fmt_d i) \<le> 11"
proof -
  have "nat i < 10 ^ 10" "nat (- i) < 10 ^ 10" using assms by auto
  then have "length (print_base 10 (nat i)) \<le> 10" "length (print_base 10 (nat (- i))) \<le> 10"
    using print_length [of _ 10] by simp_all
  then show ?thesis by (simp add: fmt_d_def)
qed

lemmas length_atoi = length_fmt_d [OF conjunct1 [OF atoi_range] conjunct2 [OF atoi_range]]

section \<open>Port forwarding\<close>

text \<open>Reference: the commands of one rule, whose fields are cut to the arrays of the program.\<close>

definition ports_text :: "string \<Rightarrow> int \<Rightarrow> int \<Rightarrow> cstring" where
  "ports_text opt a b = lit opt @ fmt_d a @ (if b = 0 then [] else [COLON] @ fmt_d b) @ lit '' ''"

lemma ports_text_iff [simp]: "ports_text opt a b = port_range opt a b"
  by (simp add: ports_text_def port_range_def lit_Cons)

definition forward_cmd :: "cstring \<Rightarrow> cstring \<Rightarrow> int \<Rightarrow> int \<Rightarrow> int \<Rightarrow> cstring" where
  "forward_cmd wan_ip ip proto prf prt =
     lit ''iptables -t nat -A port_forward -j DNAT -d '' @ wan_ip @ lit '' ''
     @ (if proto = PROTO_TCP then lit ''-p tcp '' else lit ''-p udp '') @ ports_text ''--dport '' prf prt
     @ lit ''--to '' @ ip @ lit '' ''"

definition forward_protos :: "int \<Rightarrow> int list" where
  "forward_protos proto =
     (if proto = PROTO_TCP \<or> proto = PROTO_UDP then [proto]
      else if proto = PROTO_TCP_UDP then [PROTO_TCP, PROTO_UDP] else [])"

definition forward_cmds :: "cstring \<Rightarrow> cstring \<Rightarrow> cstring list" where
  "forward_cmds wan_ip rec =
     (case parts COMMA rec of
        ip # prf # prt # proto # _ \<Rightarrow>
          (let ip = take 31 ip; prf = atoi (take 7 prf); prt = atoi (take 7 prt) in
           if host_form ip \<and> prf \<noteq> 0 \<and> prf \<le> 65535 \<and> prt \<le> 65535
           then map (\<lambda>p. forward_cmd wan_ip ip p prf prt) (forward_protos (atoi (take 7 proto))) else [])
      | _ \<Rightarrow> [])"

lemma plain_lit:
  "plain (lit ''iptables -t nat -A port_forward -j DNAT -d '')" "plain (lit '' '')" "plain (lit ''-p tcp '')"
  "plain (lit ''-p udp '')" "plain (lit ''--to '')" "plain (lit '':'')"
  by (simp_all add: plain_def lit_Cons)

lemma length_lit [simp]: "length (lit s) = length s" "lit s = [] \<longleftrightarrow> s = []"
  by (simp_all add: lit_def)

lemma port_range_text:
  assumes "plain (lit opt)" and "length opt \<le> 8"
  shows "plain (port_range opt (atoi s) (atoi t))" "length (port_range opt (atoi s) (atoi t)) \<le> 32"
  using assms length_atoi [of s] length_atoi [of t] by (simp_all add: port_range_def plain_lit)

text \<open>A command put together in the array and run.\<close>

lemma run_emitted:
  assumes "fw_ok e w" and "plain (concat us)" and "length (concat us) \<le> 959" and "concat us \<noteq> []"
  shows "issues e w (obind (emits 1024 us (cmd_array e, 0, 0)) (\<lambda>(cmd, _, _). doSystem e w (cstr cmd) [])) [concat us]"
proof -
  have u: "is_cstring (concat us)" "render (concat us) [] = Some (concat us)"
    using assms(2) render_plain by (auto simp: plain_def)
  have "length (cmd_array e) = 1024" by (simp add: cmd_array_def fresh_def)
  then obtain b p r where "emits (int 1024) us (cmd_array e, 0, 0) = Ret (b, p, r)" "cstr b = concat us"
    using emits_cstr [of "cmd_array e" 1024 us] u(1) assms(3,4) by auto
  then show ?thesis using issues_doSystem [OF assms(1) u(2,1)] assms(3) by simp
qed

lemma forward_one_ok:
  assumes "fw_ok e w" and "proto = PROTO_TCP \<or> proto = PROTO_UDP"
    and "plain wan_ip" "length wan_ip \<le> 15" and "plain ip" "length ip \<le> 31"
  shows "issues e w (forward_one e wan_ip ip proto (atoi s) (atoi t) w) [forward_cmd wan_ip ip proto (atoi s) (atoi t)]"
proof -
  let ?us = "[lit ''iptables -t nat -A port_forward -j DNAT -d '' @ wan_ip @ lit '' '',
    if proto = PROTO_TCP then lit ''-p tcp '' else lit ''-p udp '', port_range ''--dport '' (atoi s) (atoi t),
    lit ''--to '' @ ip @ lit '' '']"
  have r: "plain (port_range ''--dport '' (atoi s) (atoi t))" "length (port_range ''--dport '' (atoi s) (atoi t)) \<le> 32"
    using port_range_text [of "''--dport ''" s t] by (simp_all add: plain_def lit_Cons)
  have "plain (concat ?us)" "length (concat ?us) \<le> 959" "concat ?us \<noteq> []"
    using assms(3-6) r by (simp_all add: plain_lit)
  from run_emitted [OF assms(1) this] show ?thesis
    using assms(2) by (auto simp: forward_one_def makePortForwardRule_def forward_cmd_def obind_assoc port_range_def
        case_prod_beta prod.case_eq_if)
qed

lemma wan_plain: "plain (wan_ifname e kvs)" "length (wan_ifname e kvs) < 15"
  using wan_ifname_text by (simp_all add: plain_def)

lemma four_fields:
  obtains (short) "length fs < 4" | (four) a b c d r where "fs = a # b # c # d # r"
proof (cases "length fs < 4")
  case False
  then have "Suc (Suc (Suc (Suc 0))) \<le> length fs" by simp
  then show thesis using four by (auto simp: Suc_le_length_iff)
qed (rule short)

lemma forward_rule_ok:
  assumes ok: "fw_ok e w" and rec: "plain rec" and wan: "plain wan_ip" "length wan_ip \<le> 15"
  shows "issues e w (forward_rule e wan_ip rec w) (forward_cmds wan_ip rec)"
proof (cases "parts COMMA rec" rule: four_fields)
  case short
  have "is_cstring rec" using rec by (simp add: plain_def)
  with short have "forward_rule e wan_ip rec w = Ret w" by (simp add: forward_rule_def with_field_ok)
  moreover have "forward_cmds wan_ip rec = []" using short by (auto simp: forward_cmds_def split: list.split)
  ultimately show ?thesis using ok by simp
next
  case (four ip pfrom pto proto more)
  have c: "is_cstring rec" and ip: "plain (take 31 ip)"
    using plain_cstring [OF rec] plain_part [OF rec, of ip COMMA] four by (simp_all add: plain_take)
  let ?ip = "take 31 ip" and ?from = "take 7 pfrom" and ?to = "take 7 pto" and ?proto = "atoi (take 7 proto)"
  have one: "issues e w' (forward_one e wan_ip ?ip p (atoi ?from) (atoi ?to) w')
      [forward_cmd wan_ip ?ip p (atoi ?from) (atoi ?to)]" if "p = PROTO_TCP \<or> p = PROTO_UDP" "fw_ok e w'" for p w'
    using that wan ip by (intro forward_one_ok) simp_all
  have both: "issues e w (obind (forward_one e wan_ip ?ip PROTO_TCP (atoi ?from) (atoi ?to) w)
        (forward_one e wan_ip ?ip PROTO_UDP (atoi ?from) (atoi ?to)))
      ([forward_cmd wan_ip ?ip PROTO_TCP (atoi ?from) (atoi ?to)] @ [forward_cmd wan_ip ?ip PROTO_UDP (atoi ?from) (atoi ?to)])"
    using ok by (intro issues_bind one) (auto intro: issued_ok)
  have "forward_rule e wan_ip rec w =
    (if isIpValid ?ip \<and> atoi ?from \<noteq> 0 \<and> atoi ?from \<le> 65535 \<and> atoi ?to \<le> 65535 then
       if ?proto = PROTO_TCP \<or> ?proto = PROTO_UDP then forward_one e wan_ip ?ip ?proto (atoi ?from) (atoi ?to) w
       else if ?proto = PROTO_TCP_UDP then
         obind (forward_one e wan_ip ?ip PROTO_TCP (atoi ?from) (atoi ?to) w) (forward_one e wan_ip ?ip PROTO_UDP (atoi ?from) (atoi ?to))
       else Ret w
     else Ret w)"
    using c four by (simp add: forward_rule_def with_field_ok Let_def not_le)
  then show ?thesis
    using one [of ?proto w] both ok four by (simp add: forward_cmds_def forward_protos_def Let_def)
qed

text \<open>The loops over a rule list.\<close>

lemma plain_records: "plain rules \<Longrightarrow> rec \<in> set (records len rules) \<Longrightarrow> plain rec"
  using records_set [of rec len rules] by (auto simp: plain_def is_cstring_def)

lemma rules_issue:
  assumes "plain rules" and "fw_ok e w"
    and "\<And>rec w'. plain rec \<Longrightarrow> fw_ok e w' \<Longrightarrow> cfg w' = cfg w \<Longrightarrow> issues e w' (body rec w') (f rec)"
  shows "issues e w (each_value e 256 rules body 0 w) (concat (map f (records 256 rules)))"
  using each_value_issues [of rules 256 e w 0 body f] assms plain_records [OF assms(1)] by (simp add: plain_def)

text \<open>The commands of the whole list; none when the feature is off or the interface has no address.\<close>

definition forward_all :: "fenv \<Rightarrow> (cstring \<times> cstring) list \<Rightarrow> cstring list" where
  "forward_all e kvs =
     (if atoi (setting kvs (lit ''PortForwardEnable'')) = 0 then []
      else case fe_addr e (wan_ifname e kvs) of
          None \<Rightarrow> []
        | Some a \<Rightarrow> concat (map (forward_cmds (inet_ntoa a)) (records 256 (setting kvs (lit ''PortForwardRules'')))))"

text \<open>Readings on the way from \<open>w\<close>.\<close>

lemma get_from:
  assumes w1: "issued e w cs w1"
  obtains w2 where "fw_get e w1 name = Ret (Some (sval w name), w2)" "issued e w cs w2"
proof -
  obtain w2 where w2: "fw_get e w1 name = Ret (Some (sval w1 name), w2)" "issued e w1 [] w2"
    using fw_get_ok [OF issued_ok [OF w1]] by blast
  show thesis using w2(1) issued_trans [OF w1 w2(2)] by (intro that) (simp_all add: issued_cfg [OF w1])
qed

lemma wan_from:
  assumes w1: "issued e w cs w1" and "known_mode (cfg w)"
  obtains w2 where "getWanIfNamePPP e w1 = Ret (wan_ifname e (cfg w), w2)" "issued e w cs w2"
proof -
  obtain w2 where w2: "getWanIfNamePPP e w1 = Ret (wan_ifname e (cfg w1), w2)" "issued e w1 [] w2"
    using getWanIfNamePPP_ok [OF issued_ok [OF w1]] assms(2) issued_cfg [OF w1] by auto
  show thesis using w2(1) issued_trans [OF w1 w2(2)] by (intro that) (simp_all add: issued_cfg [OF w1])
qed

lemma forward_run_ok:
  assumes ok: "fw_ok e w" and mode: "known_mode (cfg w)" and rules: "plain (sval w ''PortForwardRules'')"
  shows "issues e w (iptablesPortForwardRun e w) (forward_all e (cfg w))"
proof -
  obtain w1 where w1: "fw_get e w ''PortForwardEnable'' = Ret (Some (sval w ''PortForwardEnable''), w1)" "issued e w [] w1"
    using get_from [OF issued_refl [OF ok]] .
  obtain w2 where w2: "fw_get e w1 ''PortForwardRules'' = Ret (Some (sval w ''PortForwardRules''), w2)" "issued e w [] w2"
    using get_from [OF w1(2)] .
  obtain w3 where w3: "getWanIfNamePPP e w2 = Ret (wan_ifname e (cfg w), w3)" "issued e w [] w3"
    using wan_from [OF w2(2) mode] .
  have "issues e w3 (each_value e 256 (sval w ''PortForwardRules'') (forward_rule e (inet_ntoa a)) 0 w3)
      (concat (map (forward_cmds (inet_ntoa a)) (records 256 (sval w ''PortForwardRules''))))" for a
    using issued_ok [OF w3(2)] plain_inet_ntoa length_inet_ntoa [of a] by (intro rules_issue [OF rules] forward_rule_ok) simp_all
  then show ?thesis
    using w1 w2 w3 issues_after [OF w3(2)]
    by (auto simp: iptablesPortForwardRun_def forward_all_def getIfIp_def issues_def split: option.split)
qed

section \<open>Forwarding of single ports\<close>

definition single_cmd :: "cstring \<Rightarrow> cstring \<Rightarrow> int \<Rightarrow> int \<Rightarrow> int \<Rightarrow> cstring" where
  "single_cmd wan_name ip proto public private =
     lit ''iptables -t nat -A port_forward -j DNAT -i '' @ wan_name @ lit '' ''
     @ (if proto = PROTO_TCP then lit ''-p tcp '' else lit ''-p udp '') @ lit ''--dport '' @ fmt_d public @ lit '' ''
     @ lit ''--to-destination '' @ ip @ lit '':'' @ fmt_d private"

definition single_cmds :: "cstring \<Rightarrow> cstring \<Rightarrow> cstring list" where
  "single_cmds wan_name rec =
     (case parts COMMA rec of
        ip # public # private # proto # _ \<Rightarrow>
          (let ip = take 31 ip; public = atoi (take 7 public); private = atoi (take 7 private) in
           if host_form ip \<and> public \<noteq> 0 \<and> public \<le> 65535 \<and> private \<noteq> 0 \<and> private \<le> 65535
           then map (\<lambda>p. single_cmd wan_name ip p public private) (forward_protos (atoi (take 7 proto))) else [])
      | _ \<Rightarrow> [])"

definition single_all :: "fenv \<Rightarrow> (cstring \<times> cstring) list \<Rightarrow> cstring list" where
  "single_all e kvs =
     (if atoi (setting kvs (lit ''SinglePortForwardEnable'')) = 0 then []
      else concat (map (single_cmds (wan_ifname e kvs)) (records 256 (setting kvs (lit ''SinglePortForwardRules'')))))"

lemma plain_lit_single:
  "plain (lit ''iptables -t nat -A port_forward -j DNAT -i '')" "plain (lit ''--dport '')" "plain (lit ''--to-destination '')"
  by (simp_all add: plain_def lit_Cons)

lemma single_one_ok:
  assumes "fw_ok e w" and "proto = PROTO_TCP \<or> proto = PROTO_UDP"
    and "plain wan_name" "length wan_name < 15" and "plain ip" "length ip \<le> 31"
  shows "issues e w (single_one e wan_name ip proto (atoi s) (atoi t) w) [single_cmd wan_name ip proto (atoi s) (atoi t)]"
proof -
  let ?us = "[lit ''iptables -t nat -A port_forward -j DNAT -i '' @ wan_name @ lit '' '',
    if proto = PROTO_TCP then lit ''-p tcp '' else lit ''-p udp '', lit ''--dport '' @ fmt_d (atoi s) @ lit '' '',
    lit ''--to-destination '' @ ip @ lit '':'' @ fmt_d (atoi t)]"
  have "plain (concat ?us)" "length (concat ?us) \<le> 959" "concat ?us \<noteq> []"
    using assms(3-6) length_atoi [of s] length_atoi [of t] by (simp_all add: plain_lit plain_lit_single)
  from run_emitted [OF assms(1) this] show ?thesis
    using assms(2) by (auto simp: single_one_def makeSinglePortForwardRule_def single_cmd_def obind_assoc prod.case_eq_if)
qed

lemma single_rule_ok:
  assumes ok: "fw_ok e w" and rec: "plain rec" and wan: "plain wan_name" "length wan_name < 15"
  shows "issues e w (single_rule e wan_name rec w) (single_cmds wan_name rec)"
proof (cases "parts COMMA rec" rule: four_fields)
  case short
  have "is_cstring rec" using rec by (simp add: plain_def)
  with short have "single_rule e wan_name rec w = Ret w" by (simp add: single_rule_def with_field_ok)
  moreover have "single_cmds wan_name rec = []" using short by (auto simp: single_cmds_def split: list.split)
  ultimately show ?thesis using ok by simp
next
  case (four ip pub priv proto more)
  have c: "is_cstring rec" and ip: "plain (take 31 ip)"
    using plain_cstring [OF rec] plain_part [OF rec, of ip COMMA] four by (simp_all add: plain_take)
  let ?one = "\<lambda>p. single_one e wan_name (take 31 ip) p (atoi (take 7 pub)) (atoi (take 7 priv))"
  let ?cmd = "\<lambda>p. single_cmd wan_name (take 31 ip) p (atoi (take 7 pub)) (atoi (take 7 priv))"
  let ?proto = "atoi (take 7 proto)"
  have one: "issues e w' (?one p w') [?cmd p]" if "p = PROTO_TCP \<or> p = PROTO_UDP" "fw_ok e w'" for p w'
    using that wan ip by (intro single_one_ok) simp_all
  have both: "issues e w (obind (?one PROTO_TCP w) (?one PROTO_UDP)) ([?cmd PROTO_TCP] @ [?cmd PROTO_UDP])"
    using ok by (intro issues_bind one) (auto intro: issued_ok)
  have "single_rule e wan_name rec w =
    (if isIpValid (take 31 ip) \<and> atoi (take 7 pub) \<noteq> 0 \<and> atoi (take 7 pub) \<le> 65535
        \<and> atoi (take 7 priv) \<noteq> 0 \<and> atoi (take 7 priv) \<le> 65535 then
       if ?proto = PROTO_TCP \<or> ?proto = PROTO_UDP then ?one ?proto w
       else if ?proto = PROTO_TCP_UDP then obind (?one PROTO_TCP w) (?one PROTO_UDP) else Ret w
     else Ret w)"
    using c four by (simp add: single_rule_def with_field_ok Let_def not_le)
  then show ?thesis
    using one [of ?proto w] both ok four by (simp add: single_cmds_def forward_protos_def Let_def)
qed

lemma single_run_ok:
  assumes ok: "fw_ok e w" and mode: "known_mode (cfg w)" and rules: "plain (sval w ''SinglePortForwardRules'')"
  shows "issues e w (iptablesSinglePortForwardRun e w) (single_all e (cfg w))"
proof -
  obtain w1 where w1: "fw_get e w ''SinglePortForwardEnable'' = Ret (Some (sval w ''SinglePortForwardEnable''), w1)" "issued e w [] w1"
    using get_from [OF issued_refl [OF ok]] .
  obtain w2 where w2: "fw_get e w1 ''SinglePortForwardRules'' = Ret (Some (sval w ''SinglePortForwardRules''), w2)" "issued e w [] w2"
    using get_from [OF w1(2)] .
  obtain w3 where w3: "getWanIfNamePPP e w2 = Ret (wan_ifname e (cfg w), w3)" "issued e w [] w3"
    using wan_from [OF w2(2) mode] .
  have "issues e w3 (each_value e 256 (sval w ''SinglePortForwardRules'') (single_rule e (wan_ifname e (cfg w))) 0 w3)
      (concat (map (single_cmds (wan_ifname e (cfg w))) (records 256 (sval w ''SinglePortForwardRules''))))"
    using issued_ok [OF w3(2)] wan_plain by (intro rules_issue [OF rules] single_rule_ok) simp_all
  then show ?thesis
    using w1 w2 w3 issues_after [OF w3(2)] wan_plain(2) [of e "cfg w"]
    by (auto simp: iptablesSinglePortForwardRun_def single_all_def issues_def)
qed

section \<open>DMZ\<close>

text \<open>The DMZ commands of the plain mode: one line for the shell, two commands.\<close>

definition dmz_cmd :: "fenv \<Rightarrow> cstring \<Rightarrow> cstring \<Rightarrow> int \<Rightarrow> cstring" where
  "dmz_cmd e wan_name ip avoid =
     lit ''iptables -t nat -A DMZ -j DNAT -i '' @ wan_name @ lit '' --to '' @ ip
     @ lit '';iptables -t nat -A DMZ -j DNAT -i '' @ wan_name
     @ (if avoid \<noteq> 0 then lit '' -p tcp --dport ! '' @ fmt_d (sint (fe_port e)) @ lit '' --to '' else lit '' -p tcp --to '') @ ip"

definition dmz_all :: "fenv \<Rightarrow> (cstring \<times> cstring) list \<Rightarrow> cstring list" where
  "dmz_all e kvs =
     (if atoi (setting kvs (lit ''DMZEnable'')) = 1
      then [dmz_cmd e (wan_ifname e kvs) (setting kvs (lit ''DMZAddress'')) (atoi (setting kvs (lit ''DMZAvoidTCPPort80'')))]
      else [])"

text \<open>The settings for which \<open>iptablesDMZRun\<close> is safe: the plain mode with an address that leaves room in
  the array, or off.\<close>

definition dmz_safe :: "(cstring \<times> cstring) list \<Rightarrow> bool" where
  "dmz_safe kvs = (atoi (setting kvs (lit ''DMZEnable'')) \<noteq> 2
     \<and> plain (setting kvs (lit ''DMZAddress'')) \<and> length (setting kvs (lit ''DMZAddress'')) \<le> 380)"

lemma snprintf_ok:
  "pos + length t < length buf \<Longrightarrow> length t < n \<Longrightarrow> snprintf buf pos n t = Ret (patch buf pos (t @ [NUL]))"
  by (auto simp: snprintf_def Let_def)

lemma makeDMZRule_ok:
  assumes len: "length buf = 1024" and wan: "plain wan_name" "length wan_name < 15" and ip: "plain ip" "length ip \<le> 380"
  shows "\<exists>b. makeDMZRule e buf 1024 wan_name ip avoid = Ret b \<and> cstr b = dmz_cmd e wan_name ip avoid
    \<and> plain (dmz_cmd e wan_name ip avoid) \<and> length (dmz_cmd e wan_name ip avoid) \<le> 959"
proof -
  define t where "t = lit ''iptables -t nat -A DMZ -j DNAT -i '' @ wan_name @ lit '' --to '' @ ip"
  define u where "u = lit '';iptables -t nat -A DMZ -j DNAT -i '' @ wan_name
     @ (if avoid \<noteq> 0 then lit '' -p tcp --dport ! '' @ fmt_d (sint (fe_port e)) @ lit '' --to '' else lit '' -p tcp --to '') @ ip"
  have port: "length (fmt_d (sint (fe_port e))) \<le> 11"
    using sint_range_size [of "fe_port e"] by (intro length_fmt_d) (simp_all add: word_size)
  have l: "length t \<le> 450" "length u \<le> 480" using wan(2) ip(2) port by (simp_all add: t_def u_def)
  have "plain (lit ''iptables -t nat -A DMZ -j DNAT -i '')" "plain (lit '' --to '')"
    "plain (lit '';iptables -t nat -A DMZ -j DNAT -i '')" "plain (lit '' -p tcp --dport ! '')" "plain (lit '' -p tcp --to '')"
    by (simp_all add: plain_def lit_Cons)
  then have p: "plain (t @ u)" using wan(1) ip(1) by (simp add: t_def u_def)
  have d: "dmz_cmd e wan_name ip avoid = t @ u" by (simp add: dmz_cmd_def t_def u_def)
  let ?b1 = "patch buf 0 (t @ [NUL])"
  have s1: "snprintf buf 0 1024 t = Ret ?b1" using l len by (intro snprintf_ok) simp_all
  have b1: "length ?b1 = 1024" using l(1) len by simp
  have s2: "snprintf ?b1 (length t) 1024 u = Ret (patch ?b1 (length t) (u @ [NUL]))"
    using l b1 by (intro snprintf_ok) simp_all
  have "patch ?b1 (length t) (u @ [NUL]) = (t @ u) @ NUL # drop (length t + length (u @ [NUL])) ?b1"
    by (simp add: patch_def)
  then have "cstr (patch ?b1 (length t) (u @ [NUL])) = t @ u"
    using cstr_NUL [OF plain_cstring [OF p]] by (simp only:)
  moreover have "makeDMZRule e buf 1024 wan_name ip avoid = obind (snprintf buf 0 1024 t) (\<lambda>buf. snprintf buf (length t) 1024 u)"
    by (simp add: makeDMZRule_def Let_def t_def u_def)
  ultimately show ?thesis unfolding d using s1 s2 p l by simp
qed

lemma dmz_run_ok:
  assumes ok: "fw_ok e w" and mode: "known_mode (cfg w)" and safe: "dmz_safe (cfg w)"
  shows "issues e w (iptablesDMZRun e w) (dmz_all e (cfg w))"
proof -
  obtain w1 where w1: "fw_get e w ''DMZEnable'' = Ret (Some (sval w ''DMZEnable''), w1)" "issued e w [] w1"
    using get_from [OF issued_refl [OF ok]] .
  obtain w2 where w2: "fw_get e w1 ''DMZAddress'' = Ret (Some (sval w ''DMZAddress''), w2)" "issued e w [] w2"
    using get_from [OF w1(2)] .
  obtain w3 where w3: "fw_get e w2 ''DMZAvoidTCPPort80'' = Ret (Some (sval w ''DMZAvoidTCPPort80''), w3)" "issued e w [] w3"
    using get_from [OF w2(2)] .
  obtain w4 where w4: "getWanIfNamePPP e w3 = Ret (wan_ifname e (cfg w), w4)" "issued e w [] w4"
    using wan_from [OF w3(2) mode] .
  let ?c = "dmz_cmd e (wan_ifname e (cfg w)) (sval w ''DMZAddress'') (atoi (sval w ''DMZAvoidTCPPort80''))"
  have "length (cmd_array e) = 1024" by (simp add: cmd_array_def fresh_def)
  then obtain b where b: "makeDMZRule e (cmd_array e) 1024 (wan_ifname e (cfg w)) (sval w ''DMZAddress'')
      (atoi (sval w ''DMZAvoidTCPPort80'')) = Ret b" "cstr b = ?c" "plain ?c" "length ?c \<le> 959"
    using makeDMZRule_ok [of "cmd_array e" "wan_ifname e (cfg w)" "sval w ''DMZAddress''" e "atoi (sval w ''DMZAvoidTCPPort80'')"]
      safe wan_plain by (auto simp: dmz_safe_def)
  have "issues e w4 (doSystem e w4 ?c []) [take 959 ?c]"
    using b(3) issued_ok [OF w4(2)] by (intro issues_doSystem render_plain) (simp_all add: plain_def)
  then have "issues e w (doSystem e w4 ?c []) [?c]" using issues_after [OF w4(2)] b(4) by fastforce
  then show ?thesis using w1 w2(1) w3(1) w4(1) b(1,2) safe
    by (auto simp: iptablesDMZRun_def dmz_all_def dmz_safe_def issues_def)
qed

end
