(* ===== verification/FwFilter.thy ===== *)
theory FwFilter
  imports FwRules
begin

text \<open>
  The packet filter of the firewall: \<open>iptablesIPPortFilterRun\<close> and \<open>makeIPPortFilterRule\<close> run, for each
  well-formed rule of the list, the command the rule stands for, between the commands of the default
  policy.
\<close>

section \<open>Reference\<close>

definition filter_head :: "bool \<Rightarrow> int \<Rightarrow> cstring" where
  "filter_head spi action =
     (if action = ACTION_DROP \<and> spi then lit ''iptables -A macipport_filter -m state --state NEW,INVALID ''
      else lit ''iptables -A macipport_filter '')"

definition filter_proto :: "int \<Rightarrow> int \<Rightarrow> int \<Rightarrow> int \<Rightarrow> int \<Rightarrow> cstring list" where
  "filter_proto proto sprf sprt dprf dprt =
     (if proto = PROTO_NONE then [lit '' ''] else if proto = PROTO_ICMP then [lit ''-p icmp '']
      else [if proto = PROTO_TCP then lit ''-p tcp '' else lit ''-p udp '']
        @ (if sprf \<noteq> 0 then [ports_text ''--sport '' sprf sprt] else [])
        @ (if dprf \<noteq> 0 then [ports_text ''--dport '' dprf dprt] else []))"

definition filter_pieces :: "bool \<Rightarrow> cstring \<Rightarrow> cstring \<Rightarrow> int \<Rightarrow> int \<Rightarrow> cstring \<Rightarrow> int \<Rightarrow> int \<Rightarrow> int \<Rightarrow> int \<Rightarrow> cstring list" where
  "filter_pieces spi mac sip sprf sprt dip dprf dprt proto action =
     [filter_head spi action] @ (if mac \<noteq> [] then [lit ''-m mac --mac-source '' @ mac @ lit '' ''] else [])
     @ [lit ''-s '' @ sip @ lit '' '', lit ''-d '' @ dip @ lit '' ''] @ filter_proto proto sprf sprt dprf dprt
     @ [if action = ACTION_DROP then lit ''-j DROP'' else lit ''-j ACCEPT'']"

text \<open>A rule has twelve fields; the program cuts each to its array.\<close>

definition filter_cmds :: "bool \<Rightarrow> cstring \<Rightarrow> cstring list" where
  "filter_cmds spi rec =
     (let fs = parts COMMA rec; addr = (\<lambda>i. take 31 (fs ! i)); num = (\<lambda>i. atoi (take 7 (fs ! i))) in
      if length fs < 12 then []
      else if net_valid (addr 0) \<and> num 2 \<le> 65535 \<and> num 3 \<le> 65535 \<and> net_valid (addr 4) \<and> num 6 \<le> 65535 \<and> num 7 \<le> 65535
          \<and> (addr 11 = [] \<or> mac_form (addr 11))
      then [concat (filter_pieces spi (addr 11) (addr 0) (num 2) (num 3) (addr 4) (num 6) (num 7) (num 8) (atoi (take 3 (fs ! 9))))]
      else [])"

text \<open>The protocols and actions the forms store.\<close>

definition filter_known :: "cstring \<Rightarrow> bool" where
  "filter_known rec =
     (let fs = parts COMMA rec in
      12 \<le> length fs \<longrightarrow> atoi (take 7 (fs ! 8)) \<in> {PROTO_TCP, PROTO_UDP, PROTO_ICMP, PROTO_NONE}
        \<and> atoi (take 3 (fs ! 9)) \<in> {ACTION_DROP, ACTION_ACCEPT})"

text \<open>A rule that the packet filter runs.\<close>

definition filter_accepts :: "cstring \<Rightarrow> bool" where
  "filter_accepts rec =
     (let fs = parts COMMA rec; addr = (\<lambda>i. take 31 (fs ! i)); num = (\<lambda>i. atoi (take 7 (fs ! i))) in
      12 \<le> length fs \<and> net_valid (addr 0) \<and> num 2 \<le> 65535 \<and> num 3 \<le> 65535 \<and> net_valid (addr 4) \<and> num 6 \<le> 65535 \<and> num 7 \<le> 65535
      \<and> (addr 11 = [] \<or> mac_form (addr 11)) \<and> num 8 \<in> {PROTO_TCP, PROTO_UDP, PROTO_ICMP, PROTO_NONE}
      \<and> atoi (take 3 (fs ! 9)) \<in> {ACTION_DROP, ACTION_ACCEPT})"

lemma filter_accepts_known: "filter_accepts rec \<Longrightarrow> filter_known rec"
  by (simp add: filter_accepts_def filter_known_def Let_def)

lemma filter_accepts_runs: "filter_accepts rec \<Longrightarrow> length (filter_cmds spi rec) = 1"
  by (simp add: filter_accepts_def filter_cmds_def Let_def)

definition filter_all :: "(cstring \<times> cstring) list \<Rightarrow> cstring list" where
  "filter_all kvs =
     (let spi = (atoi (setting kvs (lit ''SPIFWEnabled'')) \<noteq> 0); policy = atoi (setting kvs (lit ''DefaultFirewallPolicy'')) in
      if atoi (setting kvs (lit ''IPPortFilterEnable'')) = 0 then []
      else (if policy = 1 \<and> spi then [lit ''iptables -t filter -A macipport_filter -m state --state RELATED,ESTABLISHED -j ACCEPT''] else [])
        @ concat (map (filter_cmds spi) (records 256 (setting kvs (lit ''IPPortFilterRules''))))
        @ (if policy = 0 then [lit ''iptables -t filter -A macipport_filter -j ACCEPT'']
           else if policy = 1 then [lit ''iptables -t filter -A macipport_filter -j DROP''] else []))"

section \<open>One rule\<close>

lemma obind_Ret_right [simp]: "obind m Ret = m"
  by (cases m) simp_all

lemma emits_Nil [simp]: "emits len [] = Ret"
  by (simp add: fun_eq_iff)

lemma emits_Cons [simp]: "emits len (t # ts) = (\<lambda>ob. obind (emit len t ob) (emits len ts))"
  by (simp add: fun_eq_iff)

lemma emits_append: "emits len (xs @ ys) ob = obind (emits len xs ob) (emits len ys)"
proof (induction xs arbitrary: ob)
  case (Cons x xs)
  have "emits len (xs @ ys) = (\<lambda>ob. obind (emits len xs ob) (emits len ys))" by (simp add: fun_eq_iff Cons.IH)
  then show ?case by (simp add: obind_assoc)
qed simp

lemma makeIPPortFilterRule_emits:
  assumes ok: "fw_ok e w" and proto: "proto \<in> {PROTO_TCP, PROTO_UDP, PROTO_ICMP, PROTO_NONE}"
    and action: "action \<in> {ACTION_DROP, ACTION_ACCEPT}"
  shows "\<exists>w'. issued e w [] w' \<and> makeIPPortFilterRule e w buf len mac sip sprf sprt dip dprf dprt proto action
    = obind (emits len (filter_pieces (atoi (sval w ''SPIFWEnabled'') \<noteq> 0) mac sip sprf sprt dip dprf dprt proto action) (buf, 0, 0))
        (\<lambda>(b, _, _). Ret (b, w'))"
proof -
  obtain w1 where w1: "fw_get e w ''SPIFWEnabled'' = Ret (Some (sval w ''SPIFWEnabled''), w1)" "issued e w [] w1"
    using get_from [OF issued_refl [OF ok]] .
  let ?spi = "atoi (sval w ''SPIFWEnabled'') \<noteq> 0"
  have hd: "(if action = ACTION_DROP then
              obind (atoi_of (Some (sval w ''SPIFWEnabled''))) (\<lambda>spi.
              emit len (if spi = 0 then lit ''iptables -A macipport_filter ''
                else lit ''iptables -A macipport_filter -m state --state NEW,INVALID '') (buf, 0, 0))
            else if action = ACTION_ACCEPT then emit len (lit ''iptables -A macipport_filter '') (buf, 0, 0)
            else Ret (buf, 0, 0)) = emits len [filter_head ?spi action] (buf, 0, 0)"
    using action by (auto simp: filter_head_def atoi_of_def)
  have pr: "(if proto = PROTO_NONE then emit len (lit '' '') pos
            else if proto = PROTO_ICMP then emit len (lit ''-p icmp '') pos
            else
              obind (if proto = PROTO_TCP then emit len (lit ''-p tcp '') pos
                     else if proto = PROTO_UDP then emit len (lit ''-p udp '') pos
                     else Ret (advance pos)) (\<lambda>pos.
              obind (if sprf \<noteq> 0 then emit len (port_range ''--sport '' sprf sprt) pos else Ret pos) (\<lambda>pos.
              if dprf \<noteq> 0 then emit len (port_range ''--dport '' dprf dprt) pos else Ret pos)))
      = emits len (filter_proto proto sprf sprt dprf dprt) pos" for pos
    using proto by (auto simp: filter_proto_def)
  have jm: "(if action = ACTION_DROP then emit len (lit ''-j DROP'') pos
            else if action = ACTION_ACCEPT then emit len (lit ''-j ACCEPT'') pos else Ret pos)
      = emits len [if action = ACTION_DROP then lit ''-j DROP'' else lit ''-j ACCEPT''] pos" for pos
    using action by auto
  have "makeIPPortFilterRule e w buf len mac sip sprf sprt dip dprf dprt proto action
    = obind (emits len (filter_pieces ?spi mac sip sprf sprt dip dprf dprt proto action) (buf, 0, 0)) (\<lambda>(b, _, _). Ret (b, w1))"
    unfolding makeIPPortFilterRule_def w1(1) obind.simps prod.case hd pr jm filter_pieces_def
    by (simp add: emits_append obind_assoc)
  with w1(2) show ?thesis by blast
qed

lemma bind_built: "obind (obind m (\<lambda>(b, _, _). Ret (b, w'))) (\<lambda>(cmd, w). f cmd w) = obind m (\<lambda>(b, _, _). f b w')"
  by (cases m) auto

lemma issues_if: "(P \<Longrightarrow> issues e w m cs) \<Longrightarrow> fw_ok e w \<Longrightarrow> issues e w (if P then m else Ret w) (if P then cs else [])"
  by simp

lemma plain_lit_filter:
  "plain (lit ''iptables -A macipport_filter '')" "plain (lit ''iptables -A macipport_filter -m state --state NEW,INVALID '')"
  "plain (lit ''-m mac --mac-source '')" "plain (lit ''-s '')" "plain (lit ''-d '')" "plain (lit ''-p icmp '')"
  "plain (lit ''-j DROP'')" "plain (lit ''-j ACCEPT'')" "plain (lit ''--sport '')" "plain (lit ''--dport '')" "plain []"
  by (simp_all add: plain_def lit_Cons)

lemma filter_proto_text:
  "plain (concat (filter_proto proto (atoi a) (atoi b) (atoi c) (atoi d)))"
  "length (concat (filter_proto proto (atoi a) (atoi b) (atoi c) (atoi d))) \<le> 80"
proof -
  have r: "plain (port_range ''--sport '' (atoi a) (atoi b))" "length (port_range ''--sport '' (atoi a) (atoi b)) \<le> 32"
    "plain (port_range ''--dport '' (atoi c) (atoi d))" "length (port_range ''--dport '' (atoi c) (atoi d)) \<le> 32"
    using port_range_text by (simp_all add: plain_lit_filter)
  then show "plain (concat (filter_proto proto (atoi a) (atoi b) (atoi c) (atoi d)))"
    by (simp add: filter_proto_def plain_lit plain_lit_filter)
  show "length (concat (filter_proto proto (atoi a) (atoi b) (atoi c) (atoi d))) \<le> 80"
    using r(2,4) by (simp add: filter_proto_def)
qed

lemma filter_pieces_text:
  assumes "plain mac" "length mac \<le> 31" and "plain sip" "length sip \<le> 31" and "plain dip" "length dip \<le> 31"
  shows "plain (concat (filter_pieces spi mac sip (atoi a) (atoi b) dip (atoi c) (atoi d) proto action))"
    "length (concat (filter_pieces spi mac sip (atoi a) (atoi b) dip (atoi c) (atoi d) proto action)) \<le> 959"
    "concat (filter_pieces spi mac sip (atoi a) (atoi b) dip (atoi c) (atoi d) proto action) \<noteq> []"
  using assms filter_proto_text [of proto a b c d]
  by (simp_all add: filter_pieces_def filter_head_def plain_lit plain_lit_filter)

lemma address_text:
  assumes "net_valid s"
  shows "plain s" "COMMA \<notin> set s" "SEMI \<notin> set s"
proof -
  consider "s = lit ''any''" | "s = lit ''any/0''" | "isAllNumAndSlash s"
    using assms prefixed_chars by (auto simp: net_valid_def)
  then have "c \<notin> set s" if "c \<in> {NUL, PERCENT, COMMA, SEMI}" for c
    using that by cases (auto simp: lit_Cons isAllNumAndSlash_def list_all_iff isdigit_def dest!: bspec [of _ _ c])
  then show "plain s" "COMMA \<notin> set s" "SEMI \<notin> set s" by (simp_all add: plain_def is_cstring_def)
qed

lemma mac_nth:
  assumes "isMacValid s" and "i < 17"
  shows "isxdigit (s ! i) \<or> s ! i = COLON"
proof -
  have "i \<in> {0, 1, 2, 3, 4, 5, 6, 7, 8, 9, 10, 11, 12, 13, 14, 15, 16}" using assms(2) by simp presburger
  then show ?thesis using assms(1) by (auto simp: isMacValid_def upt_rec numeral_2_eq_2)
qed

lemma mac_text:
  assumes "isMacValid s"
  shows "plain s" "COMMA \<notin> set s" "SEMI \<notin> set s" "length s = 17"
proof -
  show l: "length s = 17" using assms by (simp add: isMacValid_def)
  have "isxdigit c \<or> c = COLON" if "c \<in> set s" for c
    using that mac_nth [OF assms] l by (metis in_set_conv_nth)
  moreover have "\<not> isxdigit NUL" "\<not> isxdigit PERCENT" "\<not> isxdigit COMMA" "\<not> isxdigit SEMI"
    by (simp_all add: isxdigit_def isdigit_def)
  ultimately show "plain s" "COMMA \<notin> set s" "SEMI \<notin> set s" by (force simp: plain_def is_cstring_def)+
qed

lemma filter_rule_ok:
  assumes ok: "fw_ok e w" and rec: "is_cstring rec" and known: "filter_known rec"
  shows "issues e w (filter_rule e rec w) (filter_cmds (atoi (sval w ''SPIFWEnabled'') \<noteq> 0) rec)"
proof -
  define fs where "fs = parts COMMA rec"
  have f: "is_cstring (take n (fs ! i))" if "i < length fs" for i n
    using that rec set_parts [of COMMA rec] nth_mem [OF that] by (auto simp: fs_def is_cstring_def dest!: in_set_takeD)
  have nv: "isIpNetmaskValid (Some (take 31 (fs ! i))) = Ret (net_valid (take 31 (fs ! i)))" if "i < length fs" for i
    using f [OF that] by (intro isIpNetmaskValid_short) simp_all
  note field = with_field_ok [OF rec, folded fs_def]
  let ?addr = "\<lambda>i. take 31 (fs ! i)" and ?num = "\<lambda>i. atoi (take 7 (fs ! i))" and ?act = "atoi (take 3 (fs ! 9))"
  show ?thesis
  proof (cases "length fs < 12")
    case True
    then have "filter_rule e rec w = Ret w" by (simp add: filter_rule_def field nv)
    moreover have "filter_cmds spi rec = []" for spi using True by (simp add: filter_cmds_def fs_def Let_def)
    ultimately show ?thesis using ok by simp
  next
    case False
    let ?ok = "net_valid (?addr 0) \<and> ?num 2 \<le> 65535 \<and> ?num 3 \<le> 65535 \<and> net_valid (?addr 4) \<and> ?num 6 \<le> 65535
      \<and> ?num 7 \<le> 65535 \<and> (?addr 11 = [] \<or> isMacValid (?addr 11))"
    let ?us = "filter_pieces (atoi (sval w ''SPIFWEnabled'') \<noteq> 0) (?addr 11) (?addr 0) (?num 2) (?num 3) (?addr 4)
      (?num 6) (?num 7) (?num 8) ?act"
    have run: "filter_rule e rec w = (if ?ok then
        obind (makeIPPortFilterRule e w (cmd_array e) 1024 (?addr 11) (?addr 0) (?num 2) (?num 3) (?addr 4) (?num 6) (?num 7) (?num 8) ?act)
          (\<lambda>(cmd, w). doSystem e w (cstr cmd) []) else Ret w)"
    proof -
      have "fs \<noteq> []" "2 < length fs" "3 < length fs" "4 < length fs" "6 < length fs" "7 < length fs" "8 < length fs"
        "9 < length fs" "11 < length fs" using False by auto
      then show ?thesis by (simp add: filter_rule_def field nv not_le)
    qed
    have cmds: "filter_cmds (atoi (sval w ''SPIFWEnabled'') \<noteq> 0) rec = (if ?ok then [concat ?us] else [])"
      using False by (simp add: filter_cmds_def Let_def flip: fs_def)
    have "?num 8 \<in> {PROTO_TCP, PROTO_UDP, PROTO_ICMP, PROTO_NONE}" "?act \<in> {ACTION_DROP, ACTION_ACCEPT}"
      using known False by (simp_all add: filter_known_def Let_def flip: fs_def)
    from makeIPPortFilterRule_emits [OF ok this, of "cmd_array e" 1024 "?addr 11" "?addr 0" "?num 2" "?num 3" "?addr 4" "?num 6" "?num 7"]
    obtain w' where w': "issued e w [] w'"
      "makeIPPortFilterRule e w (cmd_array e) 1024 (?addr 11) (?addr 0) (?num 2) (?num 3) (?addr 4) (?num 6) (?num 7) (?num 8) ?act
        = obind (emits 1024 ?us (cmd_array e, 0, 0)) (\<lambda>(b, _, _). Ret (b, w'))" by blast
    have "issues e w (obind (emits 1024 ?us (cmd_array e, 0, 0)) (\<lambda>(cmd, _, _). doSystem e w' (cstr cmd) [])) [concat ?us]" if o: ?ok
    proof -
      have "plain (?addr 11)" "plain (?addr 0)" "plain (?addr 4)" using o address_text(1) mac_text(1) plain_lit_filter(11) by metis+
      then have "issues e w' (obind (emits 1024 ?us (cmd_array e, 0, 0)) (\<lambda>(cmd, _, _). doSystem e w' (cstr cmd) [])) [concat ?us]"
        using issued_ok [OF w'(1)] by (intro run_emitted filter_pieces_text) simp_all
      then show ?thesis using issues_after [OF w'(1)] by fastforce
    qed
    then show ?thesis unfolding run cmds w'(2) bind_built by (rule issues_if [OF _ ok])
  qed
qed

section \<open>The whole list\<close>

lemma policy_cmds:
  assumes "fw_ok e w"
  shows "issues e w (run1 e ''iptables -t filter -A %s -m state --state RELATED,ESTABLISHED -j ACCEPT'' [IPPORT_FILTER_CHAIN] w)
      [lit ''iptables -t filter -A macipport_filter -m state --state RELATED,ESTABLISHED -j ACCEPT'']"
    "issues e w (run1 e ''iptables -t filter -A %s -j ACCEPT'' [IPPORT_FILTER_CHAIN] w)
      [lit ''iptables -t filter -A macipport_filter -j ACCEPT'']"
    "issues e w (run1 e ''iptables -t filter -A %s -j DROP'' [IPPORT_FILTER_CHAIN] w)
      [lit ''iptables -t filter -A macipport_filter -j DROP'']"
  using issues_run1 [OF assms, of "''iptables -t filter -A %s -m state --state RELATED,ESTABLISHED -j ACCEPT''" "[IPPORT_FILTER_CHAIN]"]
    issues_run1 [OF assms, of "''iptables -t filter -A %s -j ACCEPT''" "[IPPORT_FILTER_CHAIN]"]
    issues_run1 [OF assms, of "''iptables -t filter -A %s -j DROP''" "[IPPORT_FILTER_CHAIN]"]
  by (simp_all add: cmd_wf_simps lit_Cons)

lemma filter_run_ok:
  assumes ok: "fw_ok e w"
    and known: "\<forall>rec \<in> set (records 256 (sval w ''IPPortFilterRules'')). filter_known rec"
  shows "issues e w (iptablesIPPortFilterRun e w) (filter_all (cfg w))"
proof -
  obtain w1 where w1: "fw_get e w ''SPIFWEnabled'' = Ret (Some (sval w ''SPIFWEnabled''), w1)" "issued e w [] w1"
    using get_from [OF issued_refl [OF ok]] .
  obtain w2 where w2: "fw_get e w1 ''IPPortFilterEnable'' = Ret (Some (sval w ''IPPortFilterEnable''), w2)" "issued e w [] w2"
    using get_from [OF w1(2)] .
  obtain w3 where w3: "fw_get e w2 ''IPPortFilterRules'' = Ret (Some (sval w ''IPPortFilterRules''), w3)" "issued e w [] w3"
    using get_from [OF w2(2)] .
  obtain w4 where w4: "fw_get e w3 ''DefaultFirewallPolicy'' = Ret (Some (sval w ''DefaultFirewallPolicy''), w4)" "issued e w [] w4"
    using get_from [OF w3(2)] .
  let ?rules = "sval w ''IPPortFilterRules''" and ?policy = "atoi (sval w ''DefaultFirewallPolicy'')"
  define spi where "spi = (atoi (sval w ''SPIFWEnabled'') \<noteq> 0)"
  have loop: "issues e w' (each_value e 256 ?rules (filter_rule e) 0 w') (concat (map (filter_cmds spi) (records 256 ?rules)))"
    if w': "fw_ok e w'" "cfg w' = cfg w" for w'
  proof -
    have "issues e w'' (filter_rule e rec w'') (filter_cmds spi rec)"
      if "rec \<in> set (records 256 ?rules)" "fw_ok e w''" "cfg w'' = cfg w'" for rec w''
      using filter_rule_ok [of e w'' rec] that w' known records_cstring [OF fw_cstring [OF ok] that(1)] by (simp add: spi_def)
    then show ?thesis
      using each_value_issues [of ?rules 256 e w' 0 "filter_rule e" "filter_cmds spi"] w'(1) fw_cstring [OF ok] by simp
  qed
  have first: "issues e w4 (if ?policy = 1 then
              obind (atoi_of (Some (sval w ''SPIFWEnabled''))) (\<lambda>spi.
              if spi = 0 then Ret w4
              else run1 e ''iptables -t filter -A %s -m state --state RELATED,ESTABLISHED -j ACCEPT'' [IPPORT_FILTER_CHAIN] w4)
            else Ret w4)
      (if ?policy = 1 \<and> spi then [lit ''iptables -t filter -A macipport_filter -m state --state RELATED,ESTABLISHED -j ACCEPT''] else [])"
    using policy_cmds(1) [OF issued_ok [OF w4(2)]] issued_ok [OF w4(2)] by (simp add: atoi_of_def spi_def)
  have final: "issues e w' (if ?policy = 0 then run1 e ''iptables -t filter -A %s -j ACCEPT'' [IPPORT_FILTER_CHAIN] w'
     else if ?policy = 1 then run1 e ''iptables -t filter -A %s -j DROP'' [IPPORT_FILTER_CHAIN] w' else Ret w')
     (if ?policy = 0 then [lit ''iptables -t filter -A macipport_filter -j ACCEPT'']
      else if ?policy = 1 then [lit ''iptables -t filter -A macipport_filter -j DROP''] else [])" if "fw_ok e w'" for w'
    using policy_cmds(2,3) [OF that] that by simp
  have c4: "cfg w4 = cfg w" by (rule issued_cfg [OF w4(2)])
  show ?thesis
  proof (cases "atoi (sval w ''IPPortFilterEnable'') = 0")
    case True
    then show ?thesis using w1 w2 by (auto simp: iptablesIPPortFilterRun_def filter_all_def issues_def)
  next
    case False
    have "issues e w4 (iptablesIPPortFilterRun e w) (filter_all (cfg w))"
      unfolding iptablesIPPortFilterRun_def w1(1) w2(1) w3(1) w4(1) obind.simps prod.case option.case filter_all_def Let_def
        spi_def [symmetric] if_not_P [OF False]
    proof (intro issues_bind first loop final)
      fix w5 cs assume w5: "issued e w4 cs w5"
      show "fw_ok e w5" "cfg w5 = cfg w" using issued_ok [OF w5] issued_cfg [OF w5] c4 by simp_all
      fix w6 cs assume "issued e w5 cs w6"
      then show "fw_ok e w6" by (rule issued_ok)
    qed
    then show ?thesis using issues_after [OF w4(2)] by fastforce
  qed
qed

end
