(* ===== verification/FwForms.thy ===== *)
theory FwForms
  imports FwFilter
begin

text \<open>
  The forms of the firewall pages (\<open>user/goahead/src_tongyong/firewall.c\<close>): what the server does with the
  variables of a request. Each handler checks its input, stores the new setting (\<open>nvram_set\<close> and
  \<open>nvram_commit\<close>), runs the \<open>iptables\<close> commands again and redirects the browser.

  A variable with a default text is never NULL, so the tests \<open>!x && !strlen(x)\<close> of the source are
  always false; they have no counterpart here.
\<close>

section \<open>Deleting rules\<close>

text \<open>An array of \<open>int\<close> from \<open>malloc\<close>, filled with what is in the memory (least significant byte first).\<close>

definition junk_int :: "kheap \<Rightarrow> nat \<Rightarrow> int" where
  "junk_int h i = sint ((ucast (kjunk h (4 * i)) OR push_bit 8 (ucast (kjunk h (4 * i + 1)))
     OR push_bit 16 (ucast (kjunk h (4 * i + 2))) OR push_bit 24 (ucast (kjunk h (4 * i + 3)))) :: 32 word)"

text \<open>The positions whose variable is set; the name is written to 16 bytes.\<close>

definition selected :: "query \<Rightarrow> string \<Rightarrow> nat \<Rightarrow> int list" where
  "selected q prefix n =
     map int (filter (\<lambda>i. websGetVar q (take 15 (lit prefix @ fmt_d (int i))) None \<noteq> None) [0..<n])"

definition nothing_selected :: "fenv \<Rightarrow> fw \<Rightarrow> fw outcome" where
  "nothing_selected e w =
     obind (fw_write e (answer Header w) (lit ''You didn'' @ [0x27] @ lit ''t select any rules to delete.<br>'' @ [NEWLINE]) [])
       (\<lambda>w. Ret (answer (Done 200) (answer Footer w)))"

text \<open>The common part of the delete handlers. \<open>deleteNthValueMulti\<close> gets the number of rules as the
  number of entries, so the part of the array that was not filled is taken for positions as well.\<close>

definition delete_rules :: "fenv \<Rightarrow> query \<Rightarrow> string \<Rightarrow> string \<Rightarrow> (fw \<Rightarrow> fw outcome) \<Rightarrow> fw \<Rightarrow> fw outcome" where
  "delete_rules e q key prefix restart w =
     (let submitUrl = form_var q ''submit-url'' ''''; h = u_heap (fe_u e) in
      obind (fw_get e w key) (\<lambda>(rules, w).
      case rules of None \<Rightarrow> Ret w | Some rules \<Rightarrow>
      if rules = [] then Ret w else
      let rule_count = getRuleNums (Some rules) in
      if rule_count = 0 then Ret w
      else if \<not> kmalloc_ok h (nat rule_count * 4) then Ret w
      else if \<not> kmalloc_ok h (length rules + 1) then Ret w
      else
        let sel = selected q prefix (nat rule_count);
            deleArray = sel @ map (junk_int h) [length sel..<nat rule_count] in
        if sel = [] then nothing_selected e w
        else
          obind (deleteNthValueMulti (kmalloc_ok h (length rules + 1)) deleArray rule_count (rules @ [NUL]) SEMI) (\<lambda>(_, new_rules).
          obind (fw_set e w key (cstr new_rules)) (\<lambda>w.
          obind (fw_commit e w) (\<lambda>w.
          obind (restart w) (\<lambda>w. Ret (answer (Redirect submitUrl) w)))))))"

definition ipportFilterDelete :: "fenv \<Rightarrow> query \<Rightarrow> fw \<Rightarrow> fw outcome" where
  "ipportFilterDelete e q = delete_rules e q ''IPPortFilterRules'' ''delRule'' (\<lambda>w.
     obind (iptablesIPPortFilterFlush e w) (iptablesIPPortFilterRun e))"

definition portForwardDelete :: "fenv \<Rightarrow> query \<Rightarrow> fw \<Rightarrow> fw outcome" where
  "portForwardDelete e q = delete_rules e q ''PortForwardRules'' ''delRule'' (\<lambda>w.
     obind (fw_get e w ''PortForwardEnable'') (\<lambda>(firewall_enable, w).
     case firewall_enable of None \<Rightarrow> Ret w | Some firewall_enable \<Rightarrow>
     if atoi firewall_enable = 0 then Ret w
     else obind (iptablesPortForwardFlush e w) (\<lambda>w.
          obind (iptablesPortForwardRun e w) (\<lambda>w.
          obind (iptablesDMZFlush e w) (\<lambda>w.
          obind (iptablesDMZRun e w) (conntrack_flush e))))))"

definition singlePortForwardDelete :: "fenv \<Rightarrow> query \<Rightarrow> fw \<Rightarrow> fw outcome" where
  "singlePortForwardDelete e q = delete_rules e q ''SinglePortForwardRules'' ''delRule'' (\<lambda>w.
     obind (fw_get e w ''SinglePortForwardEnable'') (\<lambda>(firewall_enable, w).
     case firewall_enable of None \<Rightarrow> Ret w | Some firewall_enable \<Rightarrow>
     obind (if atoi firewall_enable = 0 then Ret w
            else obind (iptablesSinglePortForwardFlush e w) (iptablesSinglePortForwardRun e)) (\<lambda>w.
     obind (iptablesDMZFlush e w) (\<lambda>w.
     obind (iptablesDMZRun e w) (conntrack_flush e)))))"

definition web_filter_restart :: "fenv \<Rightarrow> fw \<Rightarrow> fw outcome" where
  "web_filter_restart e w = obind (run1 e ''iptables -t filter -F web_filter'' [] w) (iptablesWebsFilterRun e)"

definition websURLFilterDelete :: "fenv \<Rightarrow> query \<Rightarrow> fw \<Rightarrow> fw outcome" where
  "websURLFilterDelete e q = delete_rules e q ''websURLFilters'' ''DR'' (web_filter_restart e)"

definition websHostFilterDelete :: "fenv \<Rightarrow> query \<Rightarrow> fw \<Rightarrow> fw outcome" where
  "websHostFilterDelete e q = delete_rules e q ''websHostFilters'' ''DR'' (web_filter_restart e)"

section \<open>Adding rules\<close>

text \<open>A port of a filter rule: 0 stands for none, \<open>None\<close> is the \<open>return\<close> of the handler.\<close>

definition form_port :: "cstring \<Rightarrow> int \<Rightarrow> int option" where
  "form_port s proto =
     (if s = [] \<or> proto = PROTO_NONE \<or> proto = PROTO_ICMP then Some 0
      else if atoi s = 0 \<or> atoi s > 65535 then None else Some (atoi s))"

definition filter_protocol :: "cstring \<Rightarrow> int option" where
  "filter_protocol s =
     (if s = lit ''TCP'' then Some PROTO_TCP else if s = lit ''UDP'' then Some PROTO_UDP
      else if s = lit ''None'' then Some PROTO_NONE else if s = lit ''ICMP'' then Some PROTO_ICMP else None)"

definition filter_action :: "cstring \<Rightarrow> int option" where
  "filter_action s = (if s = lit ''Accept'' then Some ACTION_ACCEPT else if s = lit ''Drop'' then Some ACTION_DROP else None)"

definition comment_ok :: "cstring \<Rightarrow> bool" where
  "comment_ok comment = (length comment \<le> 32 \<and> SEMI \<notin> set comment \<and> COMMA \<notin> set comment)"

definition filter_text :: "cstring \<Rightarrow> int \<Rightarrow> int \<Rightarrow> cstring \<Rightarrow> int \<Rightarrow> int \<Rightarrow> int \<Rightarrow> int \<Rightarrow> cstring \<Rightarrow> cstring \<Rightarrow> cstring" where
  "filter_text sip sprf sprt dip dprf dprt proto action comment mac =
     sip @ lit '',0,'' @ fmt_d sprf @ lit '','' @ fmt_d sprt @ lit '','' @ dip @ lit '',0,'' @ fmt_d dprf @ lit '',''
     @ fmt_d dprt @ lit '','' @ fmt_d proto @ lit '','' @ fmt_d action @ lit '','' @ comment @ lit '','' @ mac"

text \<open>\<open>snprintf\<close> into \<open>char rule[8192]\<close>: the new rule behind the old ones.\<close>

definition add_rule :: "cstring option \<Rightarrow> cstring \<Rightarrow> cstring" where
  "add_rule rules rule = take 8191 (if rules \<noteq> None \<and> the rules \<noteq> [] then the rules @ [SEMI] @ rule else rule)"

definition address_or_any :: "cstring \<Rightarrow> cstring option outcome" where
  "address_or_any ip =
     (if ip \<noteq> [] then obind (isIpNetmaskValid (Some ip)) (\<lambda>ok. Ret (if ok then Some ip else None))
      else Ret (Some (lit ''any/0'')))"

text \<open>The checks of \<open>ipportFilter\<close>: the text of the new rule, \<open>None\<close> where the handler returns.\<close>

definition filter_request :: "query \<Rightarrow> cstring option outcome" where
  "filter_request q =
     (let mac_address = form_var q ''mac_address'' ''''; sip_1 = form_var q ''sip_address'' ''any'';
          sprf = form_var q ''sFromPort'' ''0''; sprt = form_var q ''sToPort'' ''''; dip_1 = form_var q ''dip_address'' ''any'';
          dprf = form_var q ''dFromPort'' ''0''; dprt = form_var q ''dToPort'' ''''; comment = form_var q ''comment'' '''' in
      if mac_address = [] \<and> sip_1 = [] \<and> dip_1 = [] \<and> sprf = [] \<and> dprf = [] then Ret None
      else if mac_address \<noteq> [] \<and> \<not> isMacValid mac_address then Ret None
      else obind (address_or_any sip_1) (\<lambda>sip. case sip of None \<Rightarrow> Ret None | Some sip \<Rightarrow>
        obind (address_or_any dip_1) (\<lambda>dip. case dip of None \<Rightarrow> Ret None | Some dip \<Rightarrow>
        case filter_protocol (form_var q ''protocol'' '''') of None \<Rightarrow> Ret None | Some proto \<Rightarrow>
        case form_port sprf proto of None \<Rightarrow> Ret None | Some sprf_int \<Rightarrow>
        case form_port sprt proto of None \<Rightarrow> Ret None | Some sprt_int \<Rightarrow>
        case form_port dprf proto of None \<Rightarrow> Ret None | Some dprf_int \<Rightarrow>
        case form_port dprt proto of None \<Rightarrow> Ret None | Some dprt_int \<Rightarrow>
        case filter_action (form_var q ''action'' '''') of None \<Rightarrow> Ret None | Some action \<Rightarrow>
        if \<not> comment_ok comment then Ret None
        else Ret (Some (filter_text sip sprf_int sprt_int dip dprf_int dprt_int proto action comment mac_address)))))"

definition ipportFilter :: "fenv \<Rightarrow> query \<Rightarrow> fw \<Rightarrow> fw outcome" where
  "ipportFilter e q w =
     obind (fw_get e w ''IPPortFilterEnable'') (\<lambda>(_, w).
     obind (filter_request q) (\<lambda>rule. case rule of None \<Rightarrow> Ret w | Some rule \<Rightarrow>
       obind (fw_get e w ''IPPortFilterRules'') (\<lambda>(rules, w).
       obind (fw_set e w ''IPPortFilterRules'' (add_rule rules rule)) (\<lambda>w.
       obind (fw_commit e w) (\<lambda>w.
       obind (iptablesIPPortFilterFlush e w) (\<lambda>w.
       obind (iptablesIPPortFilterRun e w) (\<lambda>w.
       Ret (answer (Redirect (form_var q ''submit-url'' '''')) w))))))))"

definition forward_protocol :: "cstring \<Rightarrow> int option" where
  "forward_protocol s =
     (if s = lit ''TCP'' then Some PROTO_TCP else if s = lit ''UDP'' then Some PROTO_UDP
      else if s = lit ''TCP&UDP'' then Some PROTO_TCP_UDP else None)"

definition forward_text :: "cstring \<Rightarrow> int \<Rightarrow> int \<Rightarrow> int \<Rightarrow> cstring \<Rightarrow> cstring" where
  "forward_text ip prf_int prt_int proto comment =
     ip @ lit '','' @ fmt_d prf_int @ lit '','' @ fmt_d prt_int @ lit '','' @ fmt_d proto @ lit '','' @ comment"

definition nat_restart :: "fenv \<Rightarrow> fw \<Rightarrow> fw outcome" where
  "nat_restart e w =
     obind (iptablesPortForwardFlush e w) (\<lambda>w.
     obind (iptablesPortForwardRun e w) (\<lambda>w.
     obind (iptablesDMZFlush e w) (\<lambda>w.
     obind (iptablesDMZRun e w) (conntrack_flush e))))"

definition portForward :: "fenv \<Rightarrow> query \<Rightarrow> fw \<Rightarrow> fw outcome" where
  "portForward e q w =
     (let ip_address = form_var q ''ip_address'' ''''; prf = form_var q ''fromPort'' ''''; prt = form_var q ''toPort'' '''';
          comment = form_var q ''comment'' ''''; prt_int = (if prt \<noteq> [] then atoi prt else 0) in
      if \<not> isIpValid ip_address then Ret w
      else if atoi prf = 0 then Ret w
      else if atoi prf > 65535 then Ret w
      else if prt \<noteq> [] \<and> (prt_int = 0 \<or> prt_int < atoi prf \<or> prt_int > 65535) then Ret w
      else case forward_protocol (form_var q ''protocol'' '''') of None \<Rightarrow> Ret w | Some proto \<Rightarrow>
        if \<not> comment_ok comment then Ret w
        else
          obind (fw_set e w ''PortForwardEnable'' (lit ''1'')) (\<lambda>w.
          obind (fw_get e w ''PortForwardRules'') (\<lambda>(rules, w).
          obind (fw_set e w ''PortForwardRules'' (add_rule rules (forward_text ip_address (atoi prf) prt_int proto comment))) (\<lambda>w.
          obind (fw_commit e w) (\<lambda>w.
          obind (nat_restart e w) (\<lambda>w.
          Ret (answer (Redirect (form_var q ''submit-url'' '''')) w)))))))"

definition singlePortForward :: "fenv \<Rightarrow> query \<Rightarrow> fw \<Rightarrow> fw outcome" where
  "singlePortForward e q w =
     (let ip_address = form_var q ''ip_address'' ''''; publicPort = form_var q ''publicPort'' '''';
          privatePort = form_var q ''privatePort'' ''''; comment = form_var q ''comment'' '''' in
      if \<not> isIpValid ip_address then Ret w
      else if atoi publicPort = 0 then Ret w
      else if atoi publicPort > 65535 then Ret w
      else if atoi privatePort = 0 then Ret w
      else if atoi privatePort > 65535 then Ret w
      else case forward_protocol (form_var q ''protocol'' '''') of None \<Rightarrow> Ret w | Some proto \<Rightarrow>
        if \<not> comment_ok comment then Ret w
        else
          obind (fw_set e w ''SinglePortForwardEnable'' (lit ''1'')) (\<lambda>w.
          obind (fw_get e w ''SinglePortForwardRules'') (\<lambda>(rules, w).
          obind (fw_set e w ''SinglePortForwardRules'' (add_rule rules
            (forward_text ip_address (atoi publicPort) (atoi privatePort) proto comment))) (\<lambda>w.
          obind (fw_commit e w) (\<lambda>w.
          obind (iptablesSinglePortForwardFlush e w) (\<lambda>w.
          obind (iptablesSinglePortForwardRun e w) (\<lambda>w.
          obind (iptablesDMZFlush e w) (\<lambda>w.
          obind (iptablesDMZRun e w) (\<lambda>w.
          Ret (answer (Redirect (form_var q ''submit-url'' '''')) w))))))))))"

section \<open>Switching features\<close>

definition redirect :: "query \<Rightarrow> fw \<Rightarrow> fw outcome" where
  "redirect q w = Ret (answer (Redirect (form_var q ''submit-url'' '''')) w)"

definition portForwardBasicSettings :: "fenv \<Rightarrow> query \<Rightarrow> fw \<Rightarrow> fw outcome" where
  "portForwardBasicSettings e q w =
     obind (if atoi (form_var q ''forwardEnabled'' '''') \<noteq> 0 then
              obind (fw_set e w ''PortForwardEnable'' (lit ''1'')) (\<lambda>w.
              obind (fw_commit e w) (nat_restart e))
            else
              obind (fw_set e w ''PortForwardEnable'' (lit ''0'')) (\<lambda>w.
              obind (fw_commit e w) (\<lambda>w.
              obind (iptablesPortForwardFlush e w) (\<lambda>w.
              obind (iptablesDMZFlush e w) (\<lambda>w.
              obind (iptablesDMZRun e w) (conntrack_flush e)))))) (redirect q)"

definition singlePortForwardBasicSettings :: "fenv \<Rightarrow> query \<Rightarrow> fw \<Rightarrow> fw outcome" where
  "singlePortForwardBasicSettings e q w =
     obind (if atoi (form_var q ''singleforwardEnabled'' '''') \<noteq> 0 then
              obind (fw_set e w ''SinglePortForwardEnable'' (lit ''1'')) (\<lambda>w.
              obind (fw_commit e w) (\<lambda>w.
              obind (iptablesSinglePortForwardFlush e w) (\<lambda>w.
              obind (iptablesSinglePortForwardRun e w) (\<lambda>w.
              obind (iptablesDMZFlush e w) (\<lambda>w.
              obind (iptablesDMZRun e w) (conntrack_flush e))))))
            else
              obind (fw_set e w ''SinglePortForwardEnable'' (lit ''0'')) (\<lambda>w.
              obind (fw_commit e w) (\<lambda>w.
              obind (iptablesSinglePortForwardFlush e w) (\<lambda>w.
              obind (iptablesDMZFlush e w) (\<lambda>w.
              obind (iptablesDMZRun e w) (conntrack_flush e)))))) (redirect q)"

definition iptablesBasicSetting :: "fenv \<Rightarrow> fw \<Rightarrow> fw outcome" where
  "iptablesBasicSetting e w =
     obind (fw_get e w ''IPPortFilterEnable'') (\<lambda>(firewall_enable, w).
     obind (iptablesIPPortFilterFlush e w) (\<lambda>w.
     if firewall_enable = None \<or> atoi (the firewall_enable) = 0 then Ret w else iptablesIPPortFilterRun e w))"

definition ipportBasicSettings :: "fenv \<Rightarrow> query \<Rightarrow> fw \<Rightarrow> fw outcome" where
  "ipportBasicSettings e q w =
     obind (fw_set e w ''IPPortFilterEnable'' (if atoi (form_var q ''firewallEnabled'' ''0'') \<noteq> 0 then lit ''1'' else lit ''0'')) (\<lambda>w.
     obind (fw_set e w ''DefaultFirewallPolicy'' (lit ''0'')) (\<lambda>w.
     obind (fw_commit e w) (\<lambda>w.
     obind (iptablesBasicSetting e w) (redirect q))))"

definition DMZ :: "fenv \<Rightarrow> query \<Rightarrow> fw \<Rightarrow> fw outcome" where
  "DMZ e q w =
     (let dmzE = atoi (form_var q ''DMZEnabled'' ''''); address = form_var q ''DMZAddress'' '''';
          avoidtcp80 = form_var q ''DMZTCPPort80'' '''' in
      if dmzE = 1 \<and> \<not> isIpValid address then Ret w
      else if dmzE = 2 \<and> \<not> isMacValid address then Ret w
      else
        obind (iptablesDMZFlush e w) (\<lambda>w.
        obind (if dmzE = 1 \<or> dmzE = 2 then
                 obind (fw_set e w ''DMZEnable'' (if dmzE = 1 then lit ''1'' else lit ''2'')) (\<lambda>w.
                 obind (if address \<noteq> [] then fw_set e w ''DMZAddress'' address else Ret w) (\<lambda>w.
                 fw_set e w ''DMZAvoidTCPPort80'' (if avoidtcp80 \<noteq> [] then avoidtcp80 else lit ''0'')))
               else
                 obind (fw_set e w ''DMZEnable'' (lit ''0'')) (\<lambda>w. fw_set e w ''DMZAvoidTCPPort80'' (lit ''0''))) (\<lambda>w.
        obind (fw_commit e w) (\<lambda>w.
        obind (iptablesDMZRun e w) (redirect q)))))"

definition system_filters :: "fenv \<Rightarrow> fw \<Rightarrow> fw outcome" where
  "system_filters e w =
     obind (iptablesIPPortFilterFlush e w) (\<lambda>w.
     obind (iptablesIPPortFilterRun e w) (\<lambda>w.
     obind (iptablesMaliciousFilterFlush e w) (\<lambda>w.
     obind (iptablesMaliciousFilterRun e w) (iptablesRemoteManagementRun e))))"

definition websSysFirewall :: "fenv \<Rightarrow> query \<Rightarrow> fw \<Rightarrow> fw outcome" where
  "websSysFirewall e q w =
     obind (fw_bufset e w ''WANPingFilter'' (form_var q ''pingFrmWANFilterEnabled'' ''0'')) (\<lambda>w.
     obind (fw_bufset e w ''BlockPortScan'' (form_var q ''blockPortScanEnabled'' ''0'')) (\<lambda>w.
     obind (fw_bufset e w ''BlockSynFlood'' (form_var q ''blockSynFloodEnabled'' ''0'')) (\<lambda>w.
     obind (fw_bufset e w ''SPIFWEnabled'' (form_var q ''spiFWEnabled'' ''1'')) (\<lambda>w.
     obind (fw_bufset e w ''l2tpPassThru'' (form_var q ''l2tpPT'' ''0'')) (\<lambda>w.
     obind (fw_bufset e w ''pptpPassThru'' (form_var q ''pptpPT'' ''0'')) (\<lambda>w.
     obind (fw_bufset e w ''ipsecPassThru'' (form_var q ''ipsecPT'' ''0'')) (\<lambda>w.
     obind (fw_commit e w) (\<lambda>w.
     obind (system_filters e w) (\<lambda>w.
     obind (run1 e ''vpn-passthru.sh'' [] w) (redirect q))))))))))"

definition websSysRemote :: "fenv \<Rightarrow> query \<Rightarrow> fw \<Rightarrow> fw outcome" where
  "websSysRemote e q w =
     obind (fw_bufset e w ''RemoteManagement'' (form_var q ''remoteManagementEnabled'' ''0'')) (\<lambda>w.
     obind (fw_commit e w) (\<lambda>w.
     obind (system_filters e w) (redirect q)))"

section \<open>Web content\<close>

definition on_off :: "cstring \<Rightarrow> cstring" where
  "on_off s = (if atoi s \<noteq> 0 then lit ''1'' else lit ''0'')"

definition webContentFilter :: "fenv \<Rightarrow> query \<Rightarrow> fw \<Rightarrow> fw outcome" where
  "webContentFilter e q w =
     obind (fw_bufset e w ''websFilterProxy'' (on_off (form_var q ''websFilterProxy'' ''''))) (\<lambda>w.
     obind (fw_bufset e w ''websFilterJava'' (on_off (form_var q ''websFilterJava'' ''''))) (\<lambda>w.
     obind (fw_bufset e w ''websFilterActivex'' (on_off (form_var q ''websFilterActivex'' ''''))) (\<lambda>w.
     obind (fw_bufset e w ''websFilterCookies'' (on_off (form_var q ''websFilterCookies'' ''''))) (\<lambda>w.
     obind (fw_commit e w) (\<lambda>w.
     obind (web_filter_restart e w) (redirect q))))))"

definition websURLBasicSettings :: "fenv \<Rightarrow> query \<Rightarrow> fw \<Rightarrow> fw outcome" where
  "websURLBasicSettings e q w =
     (let url_enable = atoi (form_var q ''webURLEnabled'' '''') in
      obind (fw_set e w ''websURLFilterEnabled'' (if url_enable \<noteq> 0 then lit ''1'' else lit ''0'')) (\<lambda>w.
      obind (fw_commit e w) (\<lambda>w.
      obind (run1 e ''iptables -t filter -F web_filter'' [] w) (\<lambda>w.
      obind (if url_enable \<noteq> 0 then iptablesWebsFilterRun e w else Ret w) (redirect q)))))"

text \<open>A new entry behind the old ones, in a block from \<open>malloc\<close>; \<open>None\<close> when there is no memory.\<close>

definition add_entry :: "fenv \<Rightarrow> cstring option \<Rightarrow> cstring \<Rightarrow> cstring option" where
  "add_entry e old rule =
     (if old = None \<or> the old = [] then Some rule
      else if kmalloc_ok (u_heap (fe_u e)) (length (the old) + length rule + 2) then Some (the old @ [SEMI] @ rule) else None)"

definition websURLFilter :: "fenv \<Rightarrow> query \<Rightarrow> fw \<Rightarrow> fw outcome" where
  "websURLFilter e q w =
     obind (fw_get e w ''websURLFilters'') (\<lambda>(urlfilters, w).
     let rule = form_var q ''addURLFilter'' '''' in
     if SEMI \<in> set rule then Ret w
     else case add_entry e urlfilters rule of None \<Rightarrow> Ret w | Some new_urlfilters \<Rightarrow>
       obind (fw_bufset e w ''websURLFilters'' new_urlfilters) (\<lambda>w.
       obind (fw_commit e w) (\<lambda>w.
       obind (run1 e ''iptables -t filter -F web_filter'' [] w) (\<lambda>w.
       obind (fw_get e w ''websURLFilterEnabled'') (\<lambda>(enabled, w).
       obind (atoi_of enabled) (\<lambda>url_enable.
       obind (if url_enable \<noteq> 0 then iptablesWebsFilterRun e w else Ret w) (redirect q)))))))"

definition websHostFilter :: "fenv \<Rightarrow> query \<Rightarrow> fw \<Rightarrow> fw outcome" where
  "websHostFilter e q w =
     obind (fw_get e w ''websHostFilters'') (\<lambda>(hostfilters, w).
     let rule = form_var q ''addHostFilter'' '''' in
     if SEMI \<in> set rule then Ret w
     else case add_entry e hostfilters rule of None \<Rightarrow> Ret w | Some new_hostfilters \<Rightarrow>
       obind (fw_bufset e w ''websHostFilters'' new_hostfilters) (\<lambda>w.
       obind (fw_commit e w) (\<lambda>w.
       obind (web_filter_restart e w) (redirect q))))"

end
