(* ===== verification/FwUpdate.thy ===== *)
theory FwUpdate
  imports FwForms
begin

text \<open>
  What a form of the firewall pages achieves: the rule it stores is behind the old rules, in the
  settings and on the flash, and the commands it runs are those of the new rule list. A rule is read
  back as it was entered. The delete forms remove the selected rules as long as the memory behind the
  selection holds no small numbers, and more than the selection otherwise.
\<close>

section \<open>Settings\<close>

lemma of_char_byte: "(of_char c = (of_char d :: byte)) = (c = d)"
proof
  have u: "unat (of_char x :: byte) = of_char x" for x
  proof -
    have "unat (of_nat (of_char x) :: byte) = of_char x mod 2 ^ LENGTH(8)" by (rule unat_of_nat)
    then show ?thesis by (simp add: of_nat_of_char)
  qed
  assume "of_char c = (of_char d :: byte)"
  then have "unat (of_char c :: byte) = unat (of_char d :: byte)" by simp
  then show "c = d" unfolding u by simp
qed simp

lemma lit_eq [simp]: "(lit s = lit t) = (s = t)"
proof -
  have "inj (of_char :: char \<Rightarrow> byte)" by (rule injI) (simp add: of_char_byte)
  then show ?thesis by (simp add: lit_def inj_map_eq_map)
qed

lemma lit_append: "lit (s @ t) = lit s @ lit t"
  by (simp add: lit_def)

lemma atoi_lit [simp]: "atoi (lit ''1'') = 1" "atoi (lit ''0'') = 0" "atoi (lit ''2'') = 2" "atoi [] = 0"
  by (simp_all add: atoi_def lit_Cons isspace_def isdigit_def)

text \<open>A list of settings the configuration can hold.\<close>

definition fits :: "(cstring \<times> cstring) list \<Rightarrow> bool" where
  "fits kvs = (storable 0 kvs \<and> length kvs \<le> MAX_CACHE_ENTRY)"

text \<open>Between two states only the settings were changed, and the flash holds the new ones.\<close>

definition became :: "fenv \<Rightarrow> fw \<Rightarrow> (cstring \<times> cstring) list \<Rightarrow> fw \<Rightarrow> bool" where
  "became e w kvs w' = (fw_ok e w' \<and> cfg w' = kvs \<and> stored_cfg w' = Some kvs \<and> other_cfg w' = other_cfg w
     \<and> page (fweb w') = page (fweb w) \<and> freply w' = freply w \<and> fcmds w' = fcmds w)"

lemma update_member: "(n, v) \<in> set (AList.update n v kvs)"
  by (induction kvs) auto

text \<open>A commit leaves the other blocks alone.\<close>

lemma commit_others:
  assumes ok: "lib_ok u 0 s" and st: "storable 0 (ram (lk s) 0)"
  shows "\<exists>s'. lib_nvram_commit u s 0 = Ret (0, s') \<and> lib_ok u 0 s' \<and> ram (lk s') 0 = ram (lk s) 0
    \<and> rom (kdev (lk s')) 0 = Some (ram (lk s) 0) \<and> map (rom (kdev (lk s'))) [1, 2, 3] = map (rom (kdev (lk s))) [1, 2, 3]"
proof -
  obtain s' where s': "lib_nvram_commit u s (int 0) = Ret (0, s')" "lib_ok u 0 s'" "ram (lk s') 0 = ram (lk s) 0"
    "rom (kdev (lk s')) 0 = Some (ram (lk s) 0)" "nvram_commit (u_kheap u) (lk s) (int 0) = Ret (0, lk s')"
    using lib_commit_law [OF ok st] by blast
  obtain k where "nvram_commit (u_kheap u) (lk s) (int 0) = Ret (0, k)" "abs_nv k = spec_commit (abs_nv (lk s)) 0"
    using commit_refines [OF lib_okD(3) [OF ok] _ st] by auto
  then have "abs_nv (lk s') = spec_commit (abs_nv (lk s)) 0" using s'(5) by simp
  then have "a_rom (abs_nv (lk s')) j = a_rom (abs_nv (lk s)) j" if "j \<noteq> 0" for j using that by (simp add: spec_commit_def)
  from this [of 1] this [of 2] this [of 3] show ?thesis using s' by auto
qed

lemma fw_set_ok:
  assumes ok: "fw_ok e w" and kvs: "kvs = AList.update (lit name) v (cfg w)" "fits kvs"
  shows "\<exists>w'. fw_set e w name v = Ret w' \<and> became e w kvs w'"
proof -
  let ?s = "wnv (fweb w)" and ?u = "fe_u e"
  have s: "lib_ok ?u 0 ?s" using ok by (simp add: fw_ok_def)
  have "short_values kvs" using kvs(2) storable_short [of 0 kvs] by (simp add: fits_def)
  then have v: "is_cstring v" "length v < MAX_VALUE_LEN"
    using update_member [of "lit name" v "cfg w"] by (auto simp: short_values_def kvs(1))
  obtain s1 where s1: "lib_nvram_bufset ?u ?s 0 (lit name) v = Ret (0, s1)" "lib_ok ?u 0 s1" "ram (lk s1) 0 = kvs" "kdev (lk s1) = kdev (lk ?s)"
    using lib_bufset_law [OF s v, of "lit name"] kvs by (auto simp: fits_def)
  obtain s2 where s2: "lib_nvram_commit ?u s1 0 = Ret (0, s2)" "lib_ok ?u 0 s2" "ram (lk s2) 0 = kvs"
    "rom (kdev (lk s2)) 0 = Some kvs" "map (rom (kdev (lk s2))) [1, 2, 3] = map (rom (kdev (lk s1))) [1, 2, 3]"
    using commit_others [OF s1(2)] s1(3) kvs(2) by (auto simp: fits_def)
  have "fw_set e w name v = Ret (w\<lparr>fweb := (fweb w)\<lparr>wnv := s2\<rparr>\<rparr>)"
    using s1(1) s2(1) by (simp add: fw_set_def lib_nvram_set_def)
  then show ?thesis using s2 s1(4) by (auto simp: became_def fw_ok_def)
qed

lemma fw_commit_ok:
  assumes "fw_ok e w" and "fits (cfg w)"
  shows "\<exists>w'. fw_commit e w = Ret w' \<and> became e w (cfg w) w'"
proof -
  obtain s where "lib_nvram_commit (fe_u e) (wnv (fweb w)) 0 = Ret (0, s)" "lib_ok (fe_u e) 0 s" "ram (lk s) 0 = cfg w"
    "rom (kdev (lk s)) 0 = Some (cfg w)" "map (rom (kdev (lk s))) [1, 2, 3] = other_cfg w"
    using commit_others [of "fe_u e" "wnv (fweb w)"] assms by (auto simp: fw_ok_def fits_def)
  then show ?thesis by (auto simp: fw_commit_def became_def fw_ok_def)
qed

lemma became_issued: "became e w kvs w1 \<Longrightarrow> issued e w1 [] w2 \<Longrightarrow> became e w kvs w2"
  by (simp add: became_def issued_def)

lemma became_trans: "became e w kvs w1 \<Longrightarrow> became e w1 kvs' w2 \<Longrightarrow> became e w kvs' w2"
  by (simp add: became_def)

lemma became_ok: "became e w kvs w' \<Longrightarrow> fw_ok e w' \<and> cfg w' = kvs"
  by (simp add: became_def)

section \<open>Rule lists\<close>

lemma set_forward_text: "set (forward_text ip a b p c) \<subseteq> set ip \<union> set c \<union> {c. isdigit c \<or> c = 0x2D \<or> c = COMMA}"
proof -
  have d: "set (fmt_d i) \<subseteq> {c. isdigit c \<or> c = 0x2D \<or> c = COMMA}" for i using print_base_digits by (auto simp: fmt_d_def)
  show ?thesis unfolding forward_text_def set_append using d [of a] d [of b] d [of p] by (auto simp: lit_Cons)
qed

lemma add_rule_records:
  assumes "SEMI \<notin> set rule" and "length old + length rule < 8191"
  shows "records 256 (add_rule (Some old) rule) = (if old = [] then [] else records 256 old) @ [take 255 rule]"
proof -
  have app: "parts SEMI (old @ SEMI # rule) = parts SEMI old @ parts SEMI rule"
  proof (induction old)
    case (Cons c old)
    then show ?case by (cases "parts SEMI old") auto
  qed simp
  show ?thesis using assms by (simp add: add_rule_def records_def app parts_simple)
qed

lemma plain_add_rule: "plain old \<Longrightarrow> plain rule \<Longrightarrow> plain (add_rule (Some old) rule)"
  unfolding add_rule_def by (rule plain_take) (simp add: plain_def)

lemma fmt_d_free: "c \<in> set (fmt_d i) \<Longrightarrow> isdigit c \<or> c = 0x2D"
  using print_base_digits by (auto simp: fmt_d_def split: if_splits)

lemma fmt_d_separators [simp]: "COMMA \<notin> set (fmt_d i)" "SEMI \<notin> set (fmt_d i)"
  by (auto dest!: fmt_d_free simp: isdigit_def)

lemma parts_comma: "COMMA \<notin> set f \<Longrightarrow> parts COMMA (f @ lit '','' @ s) = f # parts COMMA s"
  by (simp add: parts_append lit_Cons)

lemma forward_text_parts:
  assumes "COMMA \<notin> set ip" and "COMMA \<notin> set c"
  shows "parts COMMA (forward_text ip a b p c) = [ip, fmt_d a, fmt_d b, fmt_d p, c]"
  using assms by (simp add: forward_text_def parts_comma parts_simple)

text \<open>A number that the array of 8 bytes holds is read back.\<close>

lemma atoi_field:
  assumes "- 999999 \<le> i" and "i \<le> 9999999"
  shows "atoi (take 7 (fmt_d i)) = i"
proof -
  have "length (fmt_d i) \<le> 7"
  proof (cases "i < 0")
    case True
    then have "length (print_base 10 (nat (- i))) \<le> 6" using assms(1) by (intro print_length) auto
    then show ?thesis using True by (simp add: fmt_d_def)
  next
    case False
    then show ?thesis using assms(2) print_length [of "nat i" 7] by (simp add: fmt_d_def)
  qed
  then show ?thesis using assms by (simp add: atoi_fmt_d)
qed

lemma forward_cmds_text:
  assumes "isIpValid ip" "length ip \<le> 31" "COMMA \<notin> set ip" and "0 < a" "a \<le> 65535" and "0 \<le> b" "b \<le> 65535"
    and "p \<in> {PROTO_TCP, PROTO_UDP, PROTO_TCP_UDP}" and "COMMA \<notin> set c" "length c \<le> 32"
  shows "forward_cmds wan (take 255 (forward_text ip a b p c)) = map (\<lambda>p. forward_cmd wan ip p a b) (forward_protos p)"
proof -
  have "length (fmt_d i) \<le> 11" if "i \<in> {a, b, p}" for i using that assms(4-8) by (intro length_fmt_d) auto
  then have "length (fmt_d a) \<le> 11" "length (fmt_d b) \<le> 11" "length (fmt_d p) \<le> 11" by simp_all
  then have "length (forward_text ip a b p c) \<le> 255" using assms(2,10) by (simp add: forward_text_def)
  moreover have "atoi (take 7 (fmt_d a)) = a" "atoi (take 7 (fmt_d b)) = b" "atoi (take 7 (fmt_d p)) = p"
    using assms(4-8) by (auto intro!: atoi_field)
  ultimately show ?thesis using assms by (simp add: forward_cmds_def forward_text_parts)
qed

section \<open>Adding a forwarding rule\<close>

lemma nat_restart_ok:
  assumes ok: "fw_ok e w" and mode: "known_mode (cfg w)" and rules: "plain (sval w ''PortForwardRules'')" and safe: "dmz_safe (cfg w)"
  shows "issues e w (nat_restart e w)
    (flush_forward @ forward_all e (cfg w) @ flush_DMZ @ dmz_all e (cfg w) @ flush_conntrack)"
  unfolding nat_restart_def
proof (intro issues_bind flushes_issue)
  fix w1 cs assume w1: "issued e w cs w1"
  note c1 = issued_cfg [OF w1] issued_ok [OF w1]
  show "issues e w1 (iptablesPortForwardRun e w1) (forward_all e (cfg w))"
    using forward_run_ok [of e w1] c1 mode rules by simp
  fix w2 cs assume w2: "issued e w1 cs w2"
  show "fw_ok e w2" by (rule issued_ok [OF w2])
  fix w3 cs assume w3: "issued e w2 cs w3"
  note c3 = issued_cfg [OF w2] issued_cfg [OF w3] issued_ok [OF w3]
  show "issues e w3 (iptablesDMZRun e w3) (dmz_all e (cfg w))"
    using dmz_run_ok [of e w3] c1 c3 mode safe by simp
  fix w4 cs assume w4: "issued e w3 cs w4"
  show "fw_ok e w4" by (rule issued_ok [OF w4])
qed (rule ok)

text \<open>The settings that decide about the interface and the DMZ are untouched by an update of another name.\<close>

lemma update_other:
  assumes "name \<notin> {''OperationMode'', ''wanConnectionMode'', ''DMZEnable'', ''DMZAddress'', ''DMZAvoidTCPPort80''}"
  shows "known_mode (AList.update (lit name) v kvs) = known_mode kvs"
    "wan_ifname e (AList.update (lit name) v kvs) = wan_ifname e kvs"
    "dmz_safe (AList.update (lit name) v kvs) = dmz_safe kvs" "dmz_all e (AList.update (lit name) v kvs) = dmz_all e kvs"
proof -
  have "''OperationMode'' \<noteq> name" "''wanConnectionMode'' \<noteq> name" "''DMZEnable'' \<noteq> name" "''DMZAddress'' \<noteq> name"
    "''DMZAvoidTCPPort80'' \<noteq> name" using assms by auto
  then show "known_mode (AList.update (lit name) v kvs) = known_mode kvs"
    "wan_ifname e (AList.update (lit name) v kvs) = wan_ifname e kvs"
    "dmz_safe (AList.update (lit name) v kvs) = dmz_safe kvs" "dmz_all e (AList.update (lit name) v kvs) = dmz_all e kvs"
    by (simp_all add: known_mode_def wan_ifname_def dmz_safe_def dmz_all_def setting_update Let_def)
qed

text \<open>The settings after a port forwarding rule was added.\<close>

definition forward_added :: "(cstring \<times> cstring) list \<Rightarrow> cstring \<Rightarrow> (cstring \<times> cstring) list" where
  "forward_added kvs rule =
     AList.update (lit ''PortForwardRules'') (add_rule (Some (setting kvs (lit ''PortForwardRules''))) rule)
       (AList.update (lit ''PortForwardEnable'') (lit ''1'') kvs)"

lemma forward_store_ok:
  assumes ok: "fw_ok e w" and kvs: "kvs = forward_added (cfg w) rule"
    and fit: "fits (AList.update (lit ''PortForwardEnable'') (lit ''1'') (cfg w))" "fits kvs"
  shows "\<exists>w1 w2 w3 w4. fw_set e w ''PortForwardEnable'' (lit ''1'') = Ret w1
    \<and> fw_get e w1 ''PortForwardRules'' = Ret (Some (sval w ''PortForwardRules''), w2)
    \<and> fw_set e w2 ''PortForwardRules'' (add_rule (Some (sval w ''PortForwardRules'')) rule) = Ret w3
    \<and> fw_commit e w3 = Ret w4 \<and> became e w kvs w4"
proof -
  let ?kvs1 = "AList.update (lit ''PortForwardEnable'') (lit ''1'') (cfg w)"
  obtain w1 where w1: "fw_set e w ''PortForwardEnable'' (lit ''1'') = Ret w1" "became e w ?kvs1 w1"
    using fw_set_ok [OF ok refl fit(1)] by blast
  note b1 = became_ok [OF w1(2)]
  have "sval w1 ''PortForwardRules'' = sval w ''PortForwardRules''" using b1 by (simp add: setting_update)
  then obtain w2 where w2: "fw_get e w1 ''PortForwardRules'' = Ret (Some (sval w ''PortForwardRules''), w2)" "issued e w1 [] w2"
    using fw_get_ok [of e w1 "''PortForwardRules''"] b1 by metis
  have b2: "became e w ?kvs1 w2" by (rule became_issued [OF w1(2) w2(2)])
  obtain w3 where w3: "fw_set e w2 ''PortForwardRules'' (add_rule (Some (sval w ''PortForwardRules'')) rule) = Ret w3" "became e w2 kvs w3"
    using fw_set_ok [of e w2 kvs "''PortForwardRules''"] became_ok [OF b2] fit(2) kvs by (auto simp: forward_added_def)
  obtain w4 where w4: "fw_commit e w3 = Ret w4" "became e w3 kvs w4"
    using fw_commit_ok [of e w3] became_ok [OF w3(2)] fit(2) by auto
  show ?thesis using w1(1) w2(1) w3(1) w4(1) became_trans [OF became_trans [OF b2 w3(2)] w4(2)] by blast
qed

text \<open>A request the form accepts: the address, the ports, the protocol and the comment it holds.\<close>

definition forward_form :: "query \<Rightarrow> cstring \<Rightarrow> int \<Rightarrow> int \<Rightarrow> int \<Rightarrow> cstring \<Rightarrow> bool" where
  "forward_form q ip a b p c =
     (form_var q ''ip_address'' '''' = ip \<and> isIpValid ip \<and> plain ip \<and> length ip \<le> 31 \<and> COMMA \<notin> set ip \<and> SEMI \<notin> set ip
      \<and> atoi (form_var q ''fromPort'' '''') = a \<and> 0 < a \<and> a \<le> 65535
      \<and> form_var q ''toPort'' '''' \<noteq> [] \<and> atoi (form_var q ''toPort'' '''') = b \<and> a \<le> b \<and> b \<le> 65535
      \<and> forward_protocol (form_var q ''protocol'' '''') = Some p
      \<and> form_var q ''comment'' '''' = c \<and> comment_ok c \<and> plain c)"

text \<open>The commands of a rule list with one more rule.\<close>

definition forward_more :: "fenv \<Rightarrow> (cstring \<times> cstring) list \<Rightarrow> cstring \<Rightarrow> int \<Rightarrow> int \<Rightarrow> int \<Rightarrow> cstring list" where
  "forward_more e kvs ip a b p =
     (let old = setting kvs (lit ''PortForwardRules'') in
      case fe_addr e (wan_ifname e kvs) of None \<Rightarrow> [] | Some addr \<Rightarrow>
        concat (map (forward_cmds (inet_ntoa addr)) (if old = [] then [] else records 256 old))
        @ map (\<lambda>p. forward_cmd (inet_ntoa addr) ip p a b) (forward_protos p))"

lemma portForward_ok:
  assumes ok: "fw_ok e w" and mode: "known_mode (cfg w)" and safe: "dmz_safe (cfg w)"
    and old: "plain old" "old = sval w ''PortForwardRules''" "length old < 8000" and form: "forward_form q ip a b p c"
    and kvs: "kvs = forward_added (cfg w) (forward_text ip a b p c)"
    and fit: "fits (AList.update (lit ''PortForwardEnable'') (lit ''1'') (cfg w))" "fits kvs"
  shows "known_mode kvs \<and> dmz_safe kvs \<and> plain (setting kvs (lit ''PortForwardRules''))
    \<and> forward_all e kvs = forward_more e (cfg w) ip a b p
    \<and> (\<exists>w'. portForward e q w = Ret w' \<and> fw_ok e w' \<and> cfg w' = kvs \<and> stored_cfg w' = Some kvs \<and> other_cfg w' = other_cfg w
      \<and> freply w' = freply w @ [Redirect (form_var q ''submit-url'' '''')]
      \<and> fcmds w' = fcmds w @ flush_forward @ forward_more e (cfg w) ip a b p @ flush_DMZ @ dmz_all e (cfg w) @ flush_conntrack)"
proof -
  let ?rule = "forward_text ip a b p c"
  have ip: "form_var q ''ip_address'' '''' = ip" "isIpValid ip" "plain ip" "length ip \<le> 31" "COMMA \<notin> set ip" "SEMI \<notin> set ip"
    and pfrom: "atoi (form_var q ''fromPort'' '''') = a" "0 < a" "a \<le> 65535"
    and pto: "form_var q ''toPort'' '''' \<noteq> []" "atoi (form_var q ''toPort'' '''') = b" "a \<le> b" "b \<le> 65535"
    and proto: "forward_protocol (form_var q ''protocol'' '''') = Some p"
    and comment: "form_var q ''comment'' '''' = c" "comment_ok c" "plain c" using form by (simp_all add: forward_form_def)
  define rs where "rs = (if old = [] then [] else records 256 old)"
  obtain w1 w2 w3 w4 where s: "fw_set e w ''PortForwardEnable'' (lit ''1'') = Ret w1"
    "fw_get e w1 ''PortForwardRules'' = Ret (Some old, w2)" "fw_set e w2 ''PortForwardRules'' (add_rule (Some old) ?rule) = Ret w3"
    "fw_commit e w3 = Ret w4" "became e w kvs w4"
    using forward_store_ok [OF ok kvs fit] old(2) by blast
  note b = became_ok [OF s(5)]
  have p: "p \<in> {PROTO_TCP, PROTO_UDP, PROTO_TCP_UDP}" using proto by (auto simp: forward_protocol_def split: if_splits)
  have len: "length ?rule \<le> 180"
  proof -
    have "length (fmt_d i) \<le> 11" if "i \<in> {a, b, p}" for i using that pfrom pto p by (intro length_fmt_d) auto
    then have "length (fmt_d a) \<le> 11" "length (fmt_d b) \<le> 11" "length (fmt_d p) \<le> 11" by simp_all
    then show ?thesis using ip(4) comment(2) by (simp add: forward_text_def comment_ok_def)
  qed
  have pl: "plain ?rule" using ip(3) comment(3) by (simp add: forward_text_def plain_def lit_Cons is_cstring_fmt_d)
      (use plain_fmt_d in \<open>simp add: plain_def\<close>)
  have kv: "known_mode kvs" "dmz_safe kvs" "wan_ifname e kvs = wan_ifname e (cfg w)" "dmz_all e kvs = dmz_all e (cfg w)"
    "setting kvs (lit ''PortForwardRules'') = add_rule (Some old) ?rule" "setting kvs (lit ''PortForwardEnable'') = lit ''1''"
    using mode safe old(2) unfolding kvs forward_added_def by (simp_all add: update_other setting_update)
  have "SEMI \<notin> set ?rule" using set_forward_text [of ip a b p c] ip(6) comment(2) by (auto simp: comment_ok_def isdigit_def)
  then have recs: "records 256 (add_rule (Some old) ?rule) = rs @ [take 255 ?rule]"
    using len old(3) unfolding rs_def by (intro add_rule_records) simp_all
  have new: "forward_cmds wan (take 255 ?rule) = map (\<lambda>p. forward_cmd wan ip p a b) (forward_protos p)" for wan
    using ip pfrom pto p comment by (intro forward_cmds_text) (auto simp: comment_ok_def)
  have more: "forward_more e (cfg w) ip a b p = (case fe_addr e (wan_ifname e (cfg w)) of None \<Rightarrow> [] | Some addr \<Rightarrow>
      concat (map (forward_cmds (inet_ntoa addr)) rs) @ map (\<lambda>p. forward_cmd (inet_ntoa addr) ip p a b) (forward_protos p))"
    unfolding forward_more_def rs_def old(2) Let_def ..
  have all: "forward_all e kvs = forward_more e (cfg w) ip a b p"
    unfolding more using kv(3,5,6) recs new by (simp add: forward_all_def split: option.split)
  have pr: "plain (setting kvs (lit ''PortForwardRules''))" using plain_add_rule [OF old(1) pl] kv(5) by simp
  obtain w5 where w5: "nat_restart e w4 = Ret w5" "issued e w4 (flush_forward @ forward_all e kvs @ flush_DMZ @ dmz_all e kvs @ flush_conntrack) w5"
    using nat_restart_ok [of e w4] b kv(1,2) pr by (auto simp: issues_def)
  have "portForward e q w = Ret (answer (Redirect (form_var q ''submit-url'' '''')) w5)"
    using ip(1,2) pfrom pto proto comment s(1-4) w5(1) by (simp add: portForward_def Let_def)
  moreover have "fw_ok e w5 \<and> cfg w5 = kvs" using issued_ok [OF w5(2)] issued_cfg [OF w5(2)] b by simp
  ultimately show ?thesis using w5(2) s(5) all kv pr by (auto simp: answer_def issued_def became_def fw_ok_def)
qed

text \<open>C15: the form \<open>portForward\<close> with a valid address, port range, protocol and comment stores the new
  rule behind the old ones (on the flash too), switches forwarding on, and runs, in this order:
  the flush of the chain, the commands of every old rule, the commands of the new rule with
  exactly the address and the ports entered, and the DMZ and connection tracking commands. The
  chain it flushes also holds the rules of the single port forwarding, which it does not run
  again.\<close>

theorem portForward_adds:
  assumes "fw_ok e w" and "known_mode (cfg w)" and "dmz_safe (cfg w)"
    and "plain old" "old = sval w ''PortForwardRules''" "length old < 8000" and "forward_form q ip a b p c"
    and "kvs = forward_added (cfg w) (forward_text ip a b p c)"
    and "fits (AList.update (lit ''PortForwardEnable'') (lit ''1'') (cfg w))" "fits kvs"
  shows "\<exists>w'. portForward e q w = Ret w' \<and> stored_cfg w' = Some kvs
    \<and> freply w' = freply w @ [Redirect (form_var q ''submit-url'' '''')]
    \<and> fcmds w' = fcmds w @ flush_forward
        @ (case fe_addr e (wan_ifname e (cfg w)) of None \<Rightarrow> [] | Some addr \<Rightarrow>
             concat (map (forward_cmds (inet_ntoa addr)) (if old = [] then [] else records 256 old))
             @ map (\<lambda>p. forward_cmd (inet_ntoa addr) ip p a b) (forward_protos p))
        @ flush_DMZ @ dmz_all e (cfg w) @ flush_conntrack"
  using portForward_ok [OF assms] assms(5) by (auto simp: forward_more_def Let_def)

section \<open>An example router\<close>

definition demo_fenv :: fenv where
  "demo_fenv = \<lparr>fe_u = demo_env, fe_addr = (\<lambda>_. Some 0x0A000001), fe_port = 80, fe_3g = False\<rparr>"

definition demo_fw :: "lnv \<Rightarrow> fw" where
  "demo_fw s = \<lparr>fweb = demo_web s, fcmds = [], freply = [], fifname = lit ''br0''\<rparr>"

definition demo_query :: "(string \<times> string) list \<Rightarrow> query" where
  "demo_query vs name = map_option (\<lambda>v. Some (lit v)) (map_of (map (\<lambda>(n, v). (lit n, v)) vs) name)"

lemma demo_var [simp]: "form_var (demo_query vs) n d = lit (case map_of vs n of None \<Rightarrow> d | Some v \<Rightarrow> v)"
proof -
  have "map_of (map (\<lambda>(n, v). (lit n, v)) vs) (lit n) = map_of vs n" by (induction vs) auto
  then show ?thesis by (simp add: form_var_def websGetVar_def demo_query_def split: option.split)
qed

definition demo_cfg :: "(cstring \<times> cstring) list" where
  "demo_cfg = [(lit ''OperationMode'', lit ''1'')]"

lemma demo_fits: "fits demo_cfg"
  by (simp add: fits_def demo_cfg_def storable_def layout_def kv_ok_def lit_Cons)

lemma demo_setting: "setting demo_cfg (lit n) = (if n = ''OperationMode'' then lit ''1'' else [])"
  by (simp add: demo_cfg_def setting_def)

lemma demo_settings: "known_mode demo_cfg" "dmz_safe demo_cfg"
  by (simp_all add: known_mode_def dmz_safe_def demo_setting plain_def)

text \<open>The server attached to an empty configuration, then set to the gateway mode.\<close>

lemma demo_router:
  obtains s w where "lib_nvram_init demo_env demo_lib 0 = Ret s" "fw_set demo_fenv (demo_fw s) ''OperationMode'' (lit ''1'') = Ret w"
    "fw_ok demo_fenv w" "cfg w = demo_cfg" "fcmds w = []" "freply w = []"
proof -
  obtain s where s: "lib_nvram_init demo_env demo_lib 0 = Ret s" "lib_ok demo_env 0 s" "ram (lk s) 0 = []" by (rule demo_attach)
  have ok: "fw_ok demo_fenv (demo_fw s)" "cfg (demo_fw s) = []"
    using s by (simp_all add: fw_ok_def demo_fenv_def demo_fw_def demo_web_def)
  obtain w where "fw_set demo_fenv (demo_fw s) ''OperationMode'' (lit ''1'') = Ret w" "became demo_fenv (demo_fw s) demo_cfg w"
    using fw_set_ok [OF ok(1), of demo_cfg "''OperationMode''" "lit ''1''"] demo_fits ok(2) by (auto simp: demo_cfg_def)
  then show thesis using s(1) by (intro that) (auto simp: became_def demo_fw_def)
qed

definition demo_forward :: query where
  "demo_forward = demo_query [(''ip_address'', ''192.168.1.2''), (''fromPort'', ''80''), (''toPort'', ''90''), (''protocol'', ''TCP'')]"


lemma demo_numbers: "atoi (lit ''80'') = 80" "atoi (lit ''90'') = 90" "fmt_d 80 = lit ''80''" "fmt_d 90 = lit ''90''" "fmt_d 1 = lit ''1''"
  by (simp_all add: atoi_def lit_Cons isspace_def isdigit_def fmt_d_def print_base_eval digit_def)

lemma demo_address:
  "isIpValid (lit ''192.168.1.2'')" "plain (lit ''192.168.1.2'')" "COMMA \<notin> set (lit ''192.168.1.2'')" "SEMI \<notin> set (lit ''192.168.1.2'')"
  by (simp_all add: isIpValid_def inet_aton_spec dotted_def octet_def isdigit_def isspace_def plain_def lit_Cons)

lemma demo_forward_fits:
  "fits (AList.update (lit ''PortForwardEnable'') (lit ''1'') demo_cfg)"
  "fits (forward_added demo_cfg (forward_text (lit ''192.168.1.2'') 80 90 1 []))"
proof -
  show "fits (AList.update (lit ''PortForwardEnable'') (lit ''1'') demo_cfg)"
    by (simp add: demo_cfg_def fits_def storable_def layout_def kv_ok_def) (simp add: lit_Cons)
  show "fits (forward_added demo_cfg (forward_text (lit ''192.168.1.2'') 80 90 1 []))"
    by (simp add: forward_added_def demo_cfg_def setting_def add_rule_def forward_text_def demo_numbers fits_def storable_def layout_def kv_ok_def)
      (simp add: lit_Cons)
qed

theorem portForward_adds_witness:
  "\<exists>s w w'. lib_nvram_init demo_env demo_lib 0 = Ret s \<and> fw_set demo_fenv (demo_fw s) ''OperationMode'' (lit ''1'') = Ret w
    \<and> portForward demo_fenv demo_forward w = Ret w' \<and> freply w' = [Redirect []]
    \<and> fcmds w' = [lit ''iptables -t nat -F port_forward 1>/dev/null 2>&1'',
        lit ''iptables -t nat -A port_forward -j DNAT -d 10.0.0.1 -p tcp --dport 80:90 --to 192.168.1.2 '',
        lit ''iptables -t nat -F DMZ 1>/dev/null 2>&1''] @ flush_conntrack"
proof -
  obtain s w where w: "lib_nvram_init demo_env demo_lib 0 = Ret s" "fw_set demo_fenv (demo_fw s) ''OperationMode'' (lit ''1'') = Ret w"
    "fw_ok demo_fenv w" "cfg w = demo_cfg" "fcmds w = []" "freply w = []" by (rule demo_router)
  let ?kvs1 = "AList.update (lit ''PortForwardEnable'') (lit ''1'') demo_cfg"
  let ?kvs = "forward_added demo_cfg (forward_text (lit ''192.168.1.2'') 80 90 1 [])"
  have fit: "fits ?kvs1" "fits ?kvs" by (rule demo_forward_fits)+
  then have "\<exists>w'. portForward demo_fenv demo_forward w = Ret w' \<and> stored_cfg w' = Some ?kvs
    \<and> freply w' = freply w @ [Redirect (form_var demo_forward ''submit-url'' '''')]
    \<and> fcmds w' = fcmds w @ flush_forward
        @ (case fe_addr demo_fenv (wan_ifname demo_fenv (cfg w)) of None \<Rightarrow> [] | Some addr \<Rightarrow>
             concat (map (forward_cmds (inet_ntoa addr)) (if sval w ''PortForwardRules'' = [] then [] else records 256 (sval w ''PortForwardRules'')))
             @ map (\<lambda>p. forward_cmd (inet_ntoa addr) (lit ''192.168.1.2'') p 80 90) (forward_protos 1))
        @ flush_DMZ @ dmz_all demo_fenv (cfg w) @ flush_conntrack"
    using demo_settings demo_address demo_numbers
    by (intro portForward_adds [where c = "[]"])
      (simp_all add: w(3,4) demo_setting demo_forward_def forward_form_def forward_protocol_def comment_ok_def plain_def)
  moreover have "inet_ntoa 0x0A000001 = lit ''10.0.0.1''"
    by (simp add: inet_ntoa_join octets_def print_base_eval digit_def lit_Cons)
  moreover have "dmz_all demo_fenv demo_cfg = []" by (simp add: dmz_all_def demo_setting)
  moreover have "forward_cmd (lit ''10.0.0.1'') (lit ''192.168.1.2'') 1 80 90
      = lit ''iptables -t nat -A port_forward -j DNAT -d 10.0.0.1 -p tcp --dport 80:90 --to 192.168.1.2 ''"
    by (simp add: forward_cmd_def port_range_def demo_numbers lit_Cons)
  moreover have "fe_addr demo_fenv n = Some 0x0A000001" for n by (simp add: demo_fenv_def)
  moreover have "form_var demo_forward ''submit-url'' '''' = []" by (simp add: demo_forward_def)
  ultimately show ?thesis using w
    by - (rule exI [of _ s], rule exI [of _ w], auto simp: demo_setting forward_protos_def flush_forward_def flush_DMZ_def)
qed

section \<open>Deleting rules\<close>

lemma nums_loop_parts: "nums_loop d s c = c + int (length (parts d s)) - 1"
proof (induction s arbitrary: c)
  case (Cons x s)
  then show ?case by (cases "parts d s") auto
qed simp

lemma getRuleNums_parts: "getRuleNums (Some rules) = int (length (parts SEMI rules))"
  by (simp add: getRuleNums_def getNums_def nums_loop_parts)

lemma selected_sorted: "sorted_wrt (<) (selected q prefix n)" "\<forall>k \<in> set (selected q prefix n). 0 \<le> k \<and> k < int n"
proof -
  have "sorted_wrt (<) (filter P [0..<n])" for P by (intro sorted_wrt_filter) simp
  then show "sorted_wrt (<) (selected q prefix n)" by (simp add: selected_def sorted_wrt_map)
  show "\<forall>k \<in> set (selected q prefix n). 0 \<le> k \<and> k < int n" by (auto simp: selected_def)
qed

lemma hits_append:
  "sorted_wrt (<) ks \<Longrightarrow> \<forall>k \<in> set ks. i \<le> k \<and> k < n \<Longrightarrow> ks \<noteq> [] \<Longrightarrow> hits i n (ks @ gs) = ks @ hits (last ks + 1) n gs"
proof (induction ks arbitrary: i)
  case (Cons k ks)
  show ?case
  proof (cases "ks = []")
    case True
    then show ?thesis using Cons.prems by simp
  next
    case False
    have "hits (k + 1) n (ks @ gs) = ks @ hits (last ks + 1) n gs" using Cons.prems False by (intro Cons.IH) auto
    then show ?thesis using Cons.prems False by simp
  qed
qed simp

lemma sorted_le_last: "sorted_wrt (<) ks \<Longrightarrow> x \<in> set ks \<Longrightarrow> x \<le> last ks" for x :: int
  by (induction ks) (auto simp: less_imp_le)

text \<open>The array handed to \<open>deleteNthValueMulti\<close>: the selection and what was in the memory behind it.\<close>

definition dele_array :: "fenv \<Rightarrow> query \<Rightarrow> string \<Rightarrow> nat \<Rightarrow> int list" where
  "dele_array e q prefix n = (let sel = selected q prefix n in sel @ map (junk_int (u_heap (fe_u e))) [length sel..<n])"

lemma length_selected: "length (selected q prefix n) \<le> n"
  using length_filter_le [of _ "[0..<n]"] by (simp add: selected_def)

lemma delete_rules_ok:
  assumes ok: "fw_ok e w" and rules: "rules = sval w key" "rules \<noteq> []" and n: "n = length (parts SEMI rules)"
    and sel: "selected q prefix n \<noteq> []"
    and keep: "keep = nths (parts SEMI rules) {i. int i \<notin> set (hits 0 (int n) (dele_array e q prefix n))}"
    and kvs: "kvs = AList.update (lit key) (join SEMI keep) (cfg w)" "fits kvs"
    and restart: "\<And>w'. fw_ok e w' \<Longrightarrow> cfg w' = kvs \<Longrightarrow> issues e w' (restart w') cs"
  shows "\<exists>w'. delete_rules e q key prefix restart w = Ret w' \<and> cfg w' = kvs \<and> stored_cfg w' = Some kvs
    \<and> freply w' = freply w @ [Redirect (form_var q ''submit-url'' '''')] \<and> fcmds w' = fcmds w @ cs"
proof -
  let ?h = "u_heap (fe_u e)" and ?arr = "dele_array e q prefix n"
  have h: "kmalloc_ok ?h m" for m using fw_ok_user [OF ok] by (simp add: user_ok_def)
  have c: "is_cstring rules" using fw_cstring [OF ok] rules(1) by simp
  obtain w1 where w1: "fw_get e w key = Ret (Some rules, w1)" "issued e w [] w1"
    using get_from [OF issued_refl [OF ok]] rules(1) by metis
  obtain k ks where arr: "?arr = k # ks" using sel by (cases ?arr) (auto simp: dele_array_def Let_def)
  have len: "length ?arr = n" using length_selected [of q prefix n] by (simp add: dele_array_def Let_def)
  have "int (length (k # ks)) = int n" using len arr by simp
  then have del: "deleteNthValueMulti True ?arr (int n) (rules @ [NUL]) SEMI
      = Ret (0, patch (rules @ [NUL]) 0 (join SEMI keep @ [NUL]))"
    using deleteNthValueMulti_hits [OF c refl, of k ks "[]", folded n] by (simp only: arr keep)
  have "set keep \<subseteq> set (parts SEMI rules)" unfolding keep by (rule set_nths_subset)
  then have "\<forall>f \<in> set keep. is_cstring f" using set_parts [of SEMI rules] c unfolding is_cstring_def by blast
  then have "is_cstring (join SEMI keep)" by (simp add: is_cstring_join)
  then have cs: "cstr (patch (rules @ [NUL]) 0 (join SEMI keep @ [NUL])) = join SEMI keep" by (simp add: patch_def)
  obtain w2 where w2: "fw_set e w1 key (join SEMI keep) = Ret w2" "became e w1 kvs w2"
    using fw_set_ok [of e w1 kvs key] issued_ok [OF w1(2)] issued_cfg [OF w1(2)] kvs by auto
  obtain w3 where w3: "fw_commit e w2 = Ret w3" "became e w2 kvs w3"
    using fw_commit_ok [of e w2] became_ok [OF w2(2)] kvs(2) by auto
  obtain w4 where w4: "restart w3 = Ret w4" "issued e w3 cs w4"
    using restart [of w3] became_ok [OF w3(2)] by (auto simp: issues_def)
  have nz: "0 < n" by (simp add: n)
  have "delete_rules e q key prefix restart w = Ret (answer (Redirect (form_var q ''submit-url'' '''')) w4)"
    using w1(1) rules(2) h del cs w2(1) w3(1) w4(1) sel nz
    by (simp add: delete_rules_def Let_def getRuleNums_parts dele_array_def flip: n)
  then show ?thesis using w1(2) w2(2) w3(2) w4(2) by (auto simp: answer_def issued_def became_def)
qed

lemma plain_join: "plain (join d fs) = ((\<forall>f \<in> set fs. plain f) \<and> (2 \<le> length fs \<longrightarrow> plain [d]))"
  by (induction d fs rule: join.induct) (auto simp: plain_def)

lemma plain_keep:
  assumes "plain rules"
  shows "plain (join SEMI (nths (parts SEMI rules) A))"
  using plain_part [OF assms] set_nths_subset [of "parts SEMI rules" A] unfolding plain_join by (auto simp: plain_def)

lemma records_keep: "set (records len (join SEMI (nths (parts SEMI rules) A))) \<subseteq> insert [] (set (records len rules))"
proof (cases "nths (parts SEMI rules) A = []")
  case False
  then have "parts SEMI (join SEMI (nths (parts SEMI rules) A)) = nths (parts SEMI rules) A"
    using parts_free [of SEMI rules] set_nths_subset [of "parts SEMI rules" A] by (intro parts_join) auto
  then show ?thesis using set_nths_subset [of "parts SEMI rules" A] by (auto simp: records_def)
qed (simp add: records_def)

lemma filter_known_Nil: "filter_known []"
  by (simp add: filter_known_def)

lemma filter_restart_ok:
  assumes ok: "fw_ok e w"
    and known: "\<forall>rec \<in> set (records 256 (sval w ''IPPortFilterRules'')). filter_known rec"
  shows "issues e w (obind (iptablesIPPortFilterFlush e w) (iptablesIPPortFilterRun e)) (flush_filter @ filter_all (cfg w))"
proof (intro issues_bind flushes_issue ok)
  fix w1 cs assume w1: "issued e w cs w1"
  show "issues e w1 (iptablesIPPortFilterRun e w1) (filter_all (cfg w))"
    using filter_run_ok [of e w1] issued_ok [OF w1] issued_cfg [OF w1] known by simp
qed

text \<open>C17: the form \<open>ipportFilterDelete\<close> removes exactly the selected rules, in the settings and on the
  flash, and runs the commands of the rules that are left, provided that the first entry of the
  array behind the selection does not happen to be the number of a later rule.\<close>

theorem ipportFilterDelete_deletes:
  assumes ok: "fw_ok e w" and rules: "rules = sval w ''IPPortFilterRules''" "rules \<noteq> []" "plain rules"
    and known: "\<forall>rec \<in> set (records 256 rules). filter_known rec"
    and n: "n = length (parts SEMI rules)" and sel: "sel = selected q ''delRule'' n" "sel \<noteq> []"
    and clean: "length sel < n \<longrightarrow> junk_int (u_heap (fe_u e)) (length sel) \<notin> {last sel <..< int n}"
    and kvs: "kvs = AList.update (lit ''IPPortFilterRules'') (join SEMI (nths (parts SEMI rules) {i. int i \<notin> set sel})) (cfg w)" "fits kvs"
  shows "\<exists>w'. ipportFilterDelete e q w = Ret w' \<and> cfg w' = kvs \<and> stored_cfg w' = Some kvs
    \<and> freply w' = freply w @ [Redirect (form_var q ''submit-url'' '''')]
    \<and> fcmds w' = fcmds w @ flush_filter @ filter_all kvs"
proof -
  let ?h = "u_heap (fe_u e)" and ?arr = "dele_array e q ''delRule'' n"
  have s: "sorted_wrt (<) sel" "\<forall>k \<in> set sel. 0 \<le> k \<and> k < int n" unfolding sel(1) by (rule selected_sorted)+
  have arr: "?arr = sel @ map (junk_int ?h) [length sel..<n]" by (simp add: dele_array_def sel(1) Let_def)
  have "hits (last sel + 1) (int n) (map (junk_int ?h) [length sel..<n]) = []"
    using clean by (cases "length sel < n") (auto simp: upt_conv_Cons)
  then have hits: "hits 0 (int n) ?arr = sel" unfolding arr using hits_append [OF s sel(2)] by simp
  have set': "setting kvs (lit ''IPPortFilterRules'') = join SEMI (nths (parts SEMI rules) {i. int i \<notin> set sel})"
    by (simp add: kvs(1) setting_update)
  have restart: "issues e w' (obind (iptablesIPPortFilterFlush e w') (iptablesIPPortFilterRun e)) (flush_filter @ filter_all kvs)"
    if "fw_ok e w'" "cfg w' = kvs" for w'
  proof -
    have "\<forall>rec \<in> set (records 256 (join SEMI (nths (parts SEMI rules) {i. int i \<notin> set sel}))). filter_known rec"
      using records_keep known filter_known_Nil by blast
    then show ?thesis using filter_restart_ok [of e w'] that set' by simp
  qed
  show ?thesis unfolding ipportFilterDelete_def
    using delete_rules_ok [OF ok rules(1,2) n _ refl _ kvs(2) restart, of q "''delRule''"] sel kvs(1) hits by simp
qed

text \<open>When the first entry of the array behind the selection is the number of a later rule, the
  form \<open>portForwardDelete\<close> deletes that rule too, although it was not selected: the array comes from \<open>malloc\<close> and
  \<open>deleteNthValueMulti\<close> is told that all of it is filled.\<close>

theorem portForwardDelete_takes_more:
  assumes ok: "fw_ok e w" and rules: "rules = sval w ''PortForwardRules''" "rules \<noteq> []"
    and off: "atoi (sval w ''PortForwardEnable'') = 0"
    and n: "n = length (parts SEMI rules)" and sel: "sel = selected q ''delRule'' n" "sel \<noteq> []"
    and junk: "length sel < n" "junk_int (u_heap (fe_u e)) (length sel) = int x" "last sel < int x" "x < n"
    and A: "A = {i. int i \<notin> set (hits 0 (int n) (dele_array e q ''delRule'' n))}"
    and fit: "fits (AList.update (lit ''PortForwardRules'') (join SEMI (nths (parts SEMI rules) A)) (cfg w))"
  shows "int x \<notin> set sel \<and> x \<notin> A \<and> (\<exists>w'. portForwardDelete e q w = Ret w'
    \<and> sval w' ''PortForwardRules'' = join SEMI (nths (parts SEMI rules) A))"
proof -
  let ?h = "u_heap (fe_u e)" and ?arr = "dele_array e q ''delRule'' n"
  let ?kvs = "AList.update (lit ''PortForwardRules'') (join SEMI (nths (parts SEMI rules) A)) (cfg w)"
  have s: "sorted_wrt (<) sel" "\<forall>k \<in> set sel. 0 \<le> k \<and> k < int n" unfolding sel(1) by (rule selected_sorted)+
  have arr: "?arr = sel @ map (junk_int ?h) [length sel..<n]" by (simp add: dele_array_def sel(1) Let_def)
  have "int x \<in> set (hits 0 (int n) ?arr)"
    unfolding arr hits_append [OF s sel(2)] using junk by (simp add: upt_conv_Cons)
  moreover have "int x \<notin> set sel"
  proof
    assume "int x \<in> set sel"
    then have "int x \<le> last sel" by (rule sorted_le_last [OF s(1)])
    with junk(3) show False by simp
  qed
  moreover have "\<exists>w'. portForwardDelete e q w = Ret w' \<and> cfg w' = ?kvs"
  proof -
    have zero: "atoi (setting ?kvs (lit ''PortForwardEnable'')) = 0" using off by (simp add: setting_update)
    have "issues e w' (obind (fw_get e w' ''PortForwardEnable'') (\<lambda>(firewall_enable, w).
       case firewall_enable of None \<Rightarrow> Ret w | Some firewall_enable \<Rightarrow>
       if atoi firewall_enable = 0 then Ret w
       else obind (iptablesPortForwardFlush e w) (\<lambda>w.
          obind (iptablesPortForwardRun e w) (\<lambda>w.
          obind (iptablesDMZFlush e w) (\<lambda>w.
          obind (iptablesDMZRun e w) (conntrack_flush e)))))) []"
      if w': "fw_ok e w'" "cfg w' = ?kvs" for w'
    proof (rule issues_get [OF w'(1)])
      fix w1 assume w1: "issued e w' [] w1"
      have "atoi (sval w' ''PortForwardEnable'') = 0"
        using zero unfolding w'(2) .
      then show "issues e w1 ((\<lambda>(firewall_enable, w). case firewall_enable of None \<Rightarrow> Ret w | Some firewall_enable \<Rightarrow>
         if atoi firewall_enable = 0 then Ret w
         else obind (iptablesPortForwardFlush e w) (\<lambda>w. obind (iptablesPortForwardRun e w) (\<lambda>w.
            obind (iptablesDMZFlush e w) (\<lambda>w. obind (iptablesDMZRun e w) (conntrack_flush e)))))
         (Some (sval w' ''PortForwardEnable''), w1)) []"
        using issued_ok [OF w1] by simp
    qed
    note restart = this
    have sel': "selected q ''delRule'' n \<noteq> []" using sel by simp
    show ?thesis unfolding portForwardDelete_def
      using delete_rules_ok [OF ok rules n sel' arg_cong [OF A] refl fit restart] by blast
  qed
  ultimately show ?thesis by (auto simp: A setting_update)
qed


section \<open>Examples of deletions\<close>

lemma demo_state:
  assumes "fits (AList.update (lit key) v demo_cfg)"
  obtains s w0 w where "lib_nvram_init demo_env demo_lib 0 = Ret s"
    "fw_set demo_fenv (demo_fw s) ''OperationMode'' (lit ''1'') = Ret w0" "fw_set demo_fenv w0 key v = Ret w"
    "fw_ok demo_fenv w" "cfg w = AList.update (lit key) v demo_cfg" "fcmds w = []" "freply w = []"
proof -
  obtain s w0 where w0: "lib_nvram_init demo_env demo_lib 0 = Ret s" "fw_set demo_fenv (demo_fw s) ''OperationMode'' (lit ''1'') = Ret w0"
    "fw_ok demo_fenv w0" "cfg w0 = demo_cfg" "fcmds w0 = []" "freply w0 = []" by (rule demo_router)
  obtain w where w: "fw_set demo_fenv w0 key v = Ret w" "became demo_fenv w0 (AList.update (lit key) v demo_cfg) w"
    using fw_set_ok [OF w0(3), of "AList.update (lit key) v demo_cfg" key v] assms w0(4) by auto
  show thesis using w0 w by (intro that [of s w0 w]) (auto simp: became_def)
qed

text \<open>The same memory with small numbers in what \<open>malloc\<close> returns.\<close>

definition demo_used :: fenv where
  "demo_used = demo_fenv\<lparr>fe_u := demo_env\<lparr>u_heap := \<lparr>kmalloc_ok = (\<lambda>_. True), kjunk = (\<lambda>i. if i mod 4 = 0 then 1 else 0)\<rparr>\<rparr>\<rparr>"

lemma demo_used_ok: "fw_ok demo_fenv w \<Longrightarrow> fw_ok demo_used w"
  by (simp add: fw_ok_def demo_used_def demo_fenv_def demo_env_def lib_ok_def user_ok_def)

lemma demo_junk: "junk_int (u_heap (fe_u demo_used)) i = 1"
proof -
  have "(4 * i + 1) mod 4 \<noteq> 0" "(4 * i + 2) mod 4 \<noteq> 0" "(4 * i + 3) mod 4 \<noteq> 0" by presburger+
  then have k: "kjunk (u_heap (fe_u demo_used)) (4 * i) = 1" "kjunk (u_heap (fe_u demo_used)) (4 * i + 1) = 0"
    "kjunk (u_heap (fe_u demo_used)) (4 * i + 2) = 0" "kjunk (u_heap (fe_u demo_used)) (4 * i + 3) = 0"
    by (simp_all add: demo_used_def)
  show ?thesis unfolding junk_int_def k by simp
qed

definition demo_delete :: query where
  "demo_delete = demo_query [(''delRule0'', ''1'')]"

lemma demo_selected: "selected demo_delete ''delRule'' 2 = [0]" "selected demo_delete ''delRule'' 3 = [0]"
  by (simp_all add: selected_def demo_delete_def demo_query_def websGetVar_def upt_rec fmt_d_def print_base_eval digit_def lit_Cons)


lemma demo_junk_large: "junk_int (u_heap (fe_u demo_fenv)) i \<notin> {0<..<2}"
  by (simp add: junk_int_def demo_fenv_def demo_env_def demo_heap_def)

lemma demo_rules_fit: "fits (AList.update (lit ''IPPortFilterRules'') v demo_cfg) \<and> fits (AList.update (lit ''PortForwardRules'') v demo_cfg)"
  if "is_cstring v" "length v \<le> 300"
proof -
  have "kv_ok (lit ''OperationMode'', lit ''1'')" "kv_ok (lit ''IPPortFilterRules'', v)" "kv_ok (lit ''PortForwardRules'', v)"
    using that(1) by (simp_all add: kv_ok_def lit_Cons)
  then show ?thesis using that(2) by (simp add: demo_cfg_def fits_def storable_def layout_def env_text_def)
qed

theorem ipportFilterDelete_deletes_witness:
  "\<exists>s w0 w w'. lib_nvram_init demo_env demo_lib 0 = Ret s \<and> fw_set demo_fenv (demo_fw s) ''OperationMode'' (lit ''1'') = Ret w0
    \<and> fw_set demo_fenv w0 ''IPPortFilterRules'' (lit ''x;y'') = Ret w
    \<and> ipportFilterDelete demo_fenv demo_delete w = Ret w' \<and> sval w' ''IPPortFilterRules'' = lit ''y''"
proof -
  have v: "is_cstring (lit ''x;y'')" "is_cstring (lit ''y'')" "plain (lit ''x;y'')" by (simp_all add: lit_Cons plain_def)
  have fit: "fits (AList.update (lit ''IPPortFilterRules'') (lit ''x;y'') demo_cfg)" using demo_rules_fit [of "lit ''x;y''"] v by simp
  obtain s w0 w where w: "lib_nvram_init demo_env demo_lib 0 = Ret s"
    "fw_set demo_fenv (demo_fw s) ''OperationMode'' (lit ''1'') = Ret w0" "fw_set demo_fenv w0 ''IPPortFilterRules'' (lit ''x;y'') = Ret w"
    "fw_ok demo_fenv w" "cfg w = AList.update (lit ''IPPortFilterRules'') (lit ''x;y'') demo_cfg" "fcmds w = []" "freply w = []"
    by (rule demo_state [OF fit])
  have p: "parts SEMI (lit ''x;y'') = [lit ''x'', lit ''y'']" by (simp add: lit_Cons)
  have k: "nths [lit ''x'', lit ''y''] {i. int i \<notin> set [0]} = [lit ''y'']" by (simp add: nths_Cons)
  have u: "AList.update (lit ''IPPortFilterRules'') (lit ''y'') (cfg w) = AList.update (lit ''IPPortFilterRules'') (lit ''y'') demo_cfg"
    unfolding w(5) by (simp add: demo_cfg_def)
  have known: "\<forall>rec \<in> set (records 256 (lit ''x;y'')). filter_known rec"
    unfolding records_def p by (simp add: filter_known_def lit_Cons)
  have "\<exists>w'. ipportFilterDelete demo_fenv demo_delete w = Ret w'
      \<and> cfg w' = AList.update (lit ''IPPortFilterRules'') (lit ''y'') demo_cfg \<and> stored_cfg w' = Some (AList.update (lit ''IPPortFilterRules'') (lit ''y'') demo_cfg)
      \<and> freply w' = freply w @ [Redirect (form_var demo_delete ''submit-url'' '''')]
      \<and> fcmds w' = fcmds w @ flush_filter @ filter_all (AList.update (lit ''IPPortFilterRules'') (lit ''y'') demo_cfg)"
    using w(4) v known demo_junk_large demo_rules_fit [of "lit ''y''"] u
    by (intro ipportFilterDelete_deletes [where n = 2 and sel = "[0]" and rules = "lit ''x;y''"])
      (simp_all add: p k demo_selected w(5) setting_update nths_Cons)
  then show ?thesis using w by (auto simp: setting_update)
qed

theorem portForwardDelete_takes_more_witness:
  "\<exists>s w0 w w'. lib_nvram_init demo_env demo_lib 0 = Ret s \<and> fw_set demo_fenv (demo_fw s) ''OperationMode'' (lit ''1'') = Ret w0
    \<and> fw_set demo_fenv w0 ''PortForwardRules'' (lit ''x;y;z'') = Ret w
    \<and> portForwardDelete demo_used demo_delete w = Ret w' \<and> sval w' ''PortForwardRules'' = lit ''z''"
proof -
  have v: "is_cstring (lit ''x;y;z'')" "is_cstring (lit ''z'')" by (simp_all add: lit_Cons)
  have fit: "fits (AList.update (lit ''PortForwardRules'') (lit ''x;y;z'') demo_cfg)" using demo_rules_fit [of "lit ''x;y;z''"] v by simp
  obtain s w0 w where w: "lib_nvram_init demo_env demo_lib 0 = Ret s"
    "fw_set demo_fenv (demo_fw s) ''OperationMode'' (lit ''1'') = Ret w0" "fw_set demo_fenv w0 ''PortForwardRules'' (lit ''x;y;z'') = Ret w"
    "fw_ok demo_fenv w" "cfg w = AList.update (lit ''PortForwardRules'') (lit ''x;y;z'') demo_cfg" "fcmds w = []" "freply w = []"
    by (rule demo_state [OF fit])
  have p: "parts SEMI (lit ''x;y;z'') = [lit ''x'', lit ''y'', lit ''z'']" by (simp add: lit_Cons)
  have a: "dele_array demo_used demo_delete ''delRule'' 3 = [0, 1, 1]"
    by (simp add: dele_array_def demo_selected demo_junk Let_def upt_rec)
  have k: "nths [lit ''x'', lit ''y'', lit ''z''] {i. int i \<notin> set (hits 0 (int 3) [0, 1, 1])} = [lit ''z'']" by (simp add: nths_Cons)
  have u: "AList.update (lit ''PortForwardRules'') (lit ''z'') (cfg w) = AList.update (lit ''PortForwardRules'') (lit ''z'') demo_cfg"
    unfolding w(5) by (simp add: demo_cfg_def)
  have "int 1 \<notin> set [0] \<and> 1 \<notin> {i. int i \<notin> set (hits 0 (int 3) [0, 1, 1])} \<and> (\<exists>w'. portForwardDelete demo_used demo_delete w = Ret w'
    \<and> sval w' ''PortForwardRules'' = join SEMI (nths (parts SEMI (lit ''x;y;z'')) {i. int i \<notin> set (hits 0 (int 3) [0, 1, 1])}))"
    using demo_used_ok [OF w(4)] demo_rules_fit [of "lit ''z''"] v u
    by (intro portForwardDelete_takes_more [where n = 3])
      (simp_all only: p k a demo_selected demo_junk w(5), simp_all add: setting_update demo_setting)
  then show ?thesis using w unfolding p k by auto
qed

end
