(* ===== verification/FwSafety.thy ===== *)
theory FwSafety
  imports FwUpdate
begin

text \<open>
  What the checks of the firewall forms keep out and what they let through. The form for filter
  rules stores only rules that the packet filter understands, whatever a request holds. The address
  check of the forwarding forms stops at the first blank, so that text behind it becomes part of a
  shell command; a long text of this kind as DMZ address runs over the array of the command.
\<close>

section \<open>Filter rules from the form\<close>

text \<open>Every stored rule is one that the packet filter runs.\<close>

definition filter_inv :: "fw \<Rightarrow> bool" where
  "filter_inv w = (sval w ''IPPortFilterRules'' \<noteq> [] \<longrightarrow> list_all filter_accepts (records 256 (sval w ''IPPortFilterRules'')))"

text \<open>The configuration has room for a value of at most \<open>n\<close> bytes under a name.\<close>

definition room :: "fw \<Rightarrow> string \<Rightarrow> nat \<Rightarrow> bool" where
  "room w name n = (\<forall>v. is_cstring v \<and> length v \<le> n \<longrightarrow> fits (AList.update (lit name) v (cfg w)))"

lemma roomD: "room w name n \<Longrightarrow> is_cstring v \<Longrightarrow> length v \<le> n \<Longrightarrow> fits (AList.update (lit name) v (cfg w))"
  by (simp add: room_def)

lemma filter_text_fields:
  assumes "COMMA \<notin> set sip" "COMMA \<notin> set dip" "COMMA \<notin> set comment" "COMMA \<notin> set mac"
  shows "parts COMMA (filter_text sip a b dip c d proto action comment mac) =
    [sip, lit ''0'', fmt_d a, fmt_d b, dip, lit ''0'', fmt_d c, fmt_d d, fmt_d proto, fmt_d action, comment, mac]"
proof -
  have z: "lit '',0,'' = lit '','' @ lit ''0'' @ lit '',''" "COMMA \<notin> set (lit ''0'')" by (simp_all add: lit_Cons)
  show ?thesis using assms z(2) unfolding filter_text_def z(1) append_assoc by (simp add: parts_comma parts_simple)
qed

text \<open>A port the form accepts.\<close>

lemma form_port_range: "form_port s proto = Some i \<Longrightarrow> - (2 ^ 31) \<le> i \<and> i \<le> 65535"
  using atoi_range [of s] by (auto simp: form_port_def split: if_splits)

lemma length_port: "form_port s proto = Some i \<Longrightarrow> length (fmt_d i) \<le> 11"
  using form_port_range [of s proto i] by (intro length_fmt_d) auto

lemma port_field: "form_port s proto = Some i \<Longrightarrow> atoi (take 7 (fmt_d i)) \<le> 65535"
proof -
  assume p: "form_port s proto = Some i"
  show ?thesis
  proof (cases "i < 0")
    case True
    then have "take 7 (fmt_d i) = 0x2D # take 6 (print_base 10 (nat (- i)))" by (simp add: fmt_d_def)
    then show ?thesis by (simp add: atoi_def isspace_def)
  next
    case False
    then have "atoi (take 7 (fmt_d i)) = i" using form_port_range [OF p] by (intro atoi_field) auto
    then show ?thesis using form_port_range [OF p] by simp
  qed
qed

lemma small_number: "i \<in> {0, 1, 2, 4, 5} \<Longrightarrow> fmt_d i = [of_int (i + 48)]" for i :: int
  by (auto simp: fmt_d_def print_base_eval digit_def)

text \<open>The rule the form stores, with the properties that matter.\<close>

lemma filter_text_ok:
  assumes ips: "net_valid sip" "net_valid dip" "length sip \<le> 31" "length dip \<le> 31"
    and proto: "filter_protocol ps = Some proto" and action: "filter_action s = Some action"
    and ports: "form_port s1 proto = Some a" "form_port s2 proto = Some b" "form_port s3 proto = Some c" "form_port s4 proto = Some d"
    and comment: "comment_ok comment" "is_cstring comment" and mac: "mac = [] \<or> isMacValid mac"
  defines "t \<equiv> filter_text sip a b dip c d proto action comment mac"
  shows "is_cstring t" "SEMI \<notin> set t" "length t \<le> 220" "filter_accepts t"
proof -
  have m: "plain mac" "COMMA \<notin> set mac" "SEMI \<notin> set mac" "length mac \<le> 17" using mac mac_text [of mac] by (auto simp: plain_def)
  have p: "proto \<in> {PROTO_TCP, PROTO_UDP, PROTO_ICMP, PROTO_NONE}" using proto by (auto simp: filter_protocol_def split: if_splits)
  have ac: "action \<in> {ACTION_DROP, ACTION_ACCEPT}" using action by (auto simp: filter_action_def split: if_splits)
  have n: "length (fmt_d proto) = 1" "length (fmt_d action) = 1" using p ac by (auto simp: small_number)
  note ip = address_text [OF ips(1)] address_text [OF ips(2)]
  note l = length_port [OF ports(1)] length_port [OF ports(2)] length_port [OF ports(3)] length_port [OF ports(4)]
  show "length t \<le> 220" using l m(4) n ips(3,4) comment(1) by (simp add: t_def filter_text_def comment_ok_def)
  have "is_cstring (lit '',0,'')" "is_cstring (lit '','')" by (simp_all add: lit_Cons)
  then show "is_cstring t" using ip m(1) comment(2) plain_fmt_d by (simp add: t_def filter_text_def plain_def)
  have "SEMI \<notin> set (lit '',0,'')" "SEMI \<notin> set (lit '','')" by (simp_all add: lit_Cons)
  then show "SEMI \<notin> set t" using ip m(3) comment(1) by (simp add: t_def filter_text_def comment_ok_def)
  have "atoi (take 7 (fmt_d proto)) = proto" using p by (intro atoi_field) auto
  moreover have "atoi (take 3 (fmt_d action)) = action" using ac n(2) atoi_field [of action] by auto
  moreover have "COMMA \<notin> set comment" using comment(1) by (simp add: comment_ok_def)
  moreover have "take 31 mac = mac" "take 31 sip = sip" "take 31 dip = dip" using m(4) ips(3,4) by simp_all
  moreover note port_field [OF ports(1)] port_field [OF ports(2)] port_field [OF ports(3)] port_field [OF ports(4)]
  ultimately show "filter_accepts t"
    using p ac m(2) ip ips(1,2) mac unfolding filter_accepts_def t_def by (simp add: filter_text_fields Let_def)
qed

lemma address_or_any_ok:
  assumes "is_cstring ip" and "length ip \<le> 31"
  obtains "address_or_any ip = Ret None" | s where "address_or_any ip = Ret (Some s)" "net_valid s" "length s \<le> 31"
  using isIpNetmaskValid_short [OF assms(1)] assms(2)
  by (cases "ip = []"; cases "net_valid ip") (auto simp: address_or_any_def net_valid_def)

text \<open>What a request may hold: C strings, the addresses no longer than the array of the check.\<close>

definition filter_vars_ok :: "query \<Rightarrow> bool" where
  "filter_vars_ok q =
     (is_cstring (form_var q ''sip_address'' ''any'') \<and> length (form_var q ''sip_address'' ''any'') \<le> 31
      \<and> is_cstring (form_var q ''dip_address'' ''any'') \<and> length (form_var q ''dip_address'' ''any'') \<le> 31
      \<and> is_cstring (form_var q ''comment'' ''''))"

text \<open>A chain of checks returns, and ends with a result only when every check succeeds.\<close>

lemma checked:
  "((if b then Ret None else m) = Ret (Some v)) = (\<not> b \<and> m = Ret (Some v))"
  "((case x of None \<Rightarrow> Ret None | Some y \<Rightarrow> f y) = Ret (Some v)) = (\<exists>y. x = Some y \<and> f y = Ret (Some v))"
  "(obind n g = Ret r) = (\<exists>z. n = Ret z \<and> g z = Ret r)"
  by (auto simp: outcome_simps split: option.split)

lemma returns:
  "\<exists>r. Ret v = Ret r"
  "\<exists>r. m = Ret r \<Longrightarrow> \<exists>r. (if b then Ret None else m) = Ret r"
  "(\<And>y. \<exists>r. f y = Ret r) \<Longrightarrow> \<exists>r. (case x of None \<Rightarrow> Ret None | Some y \<Rightarrow> f y) = Ret r"
  "\<exists>z. n = Ret z \<Longrightarrow> (\<And>z. \<exists>r. g z = Ret r) \<Longrightarrow> \<exists>r. obind n g = Ret r"
  by (auto split: option.split)

lemma filter_request_inv:
  assumes "filter_request q = Ret (Some rule)"
  obtains sip a b dip c d proto action where
    "address_or_any (form_var q ''sip_address'' ''any'') = Ret (Some sip)" "address_or_any (form_var q ''dip_address'' ''any'') = Ret (Some dip)"
    "filter_protocol (form_var q ''protocol'' '''') = Some proto" "filter_action (form_var q ''action'' '''') = Some action"
    "form_port (form_var q ''sFromPort'' ''0'') proto = Some a" "form_port (form_var q ''sToPort'' '''') proto = Some b"
    "form_port (form_var q ''dFromPort'' ''0'') proto = Some c" "form_port (form_var q ''dToPort'' '''') proto = Some d"
    "comment_ok (form_var q ''comment'' '''')" "form_var q ''mac_address'' '''' = [] \<or> isMacValid (form_var q ''mac_address'' '''')"
    "rule = filter_text sip a b dip c d proto action (form_var q ''comment'' '''') (form_var q ''mac_address'' '''')"
  using assms unfolding filter_request_def Let_def checked by auto

lemma filter_request_ok:
  assumes q: "filter_vars_ok q"
  shows "\<exists>r. filter_request q = Ret r \<and> (case r of None \<Rightarrow> True | Some rule \<Rightarrow>
    is_cstring rule \<and> SEMI \<notin> set rule \<and> length rule \<le> 220 \<and> filter_accepts rule)"
proof -
  let ?sip = "form_var q ''sip_address'' ''any''" and ?dip = "form_var q ''dip_address'' ''any''"
  have v: "is_cstring ?sip" "length ?sip \<le> 31" "is_cstring ?dip" "length ?dip \<le> 31" "is_cstring (form_var q ''comment'' '''')"
    using q by (simp_all add: filter_vars_ok_def)
  have "\<exists>r. filter_request q = Ret r"
  proof -
    have "\<exists>r. address_or_any ?sip = Ret r" by (rule address_or_any_ok [OF v(1,2)]) blast+
    moreover have "\<exists>r. address_or_any ?dip = Ret r" by (rule address_or_any_ok [OF v(3,4)]) blast+
    ultimately show ?thesis unfolding filter_request_def Let_def by (intro returns)
  qed
  then obtain r where r: "filter_request q = Ret r" by blast
  show ?thesis
  proof (cases r)
    case (Some rule)
    then have "filter_request q = Ret (Some rule)" using r by simp
    then obtain sip a b dip c d proto action where
      ip: "address_or_any ?sip = Ret (Some sip)" "address_or_any ?dip = Ret (Some dip)"
      and f: "filter_protocol (form_var q ''protocol'' '''') = Some proto" "filter_action (form_var q ''action'' '''') = Some action"
        "form_port (form_var q ''sFromPort'' ''0'') proto = Some a" "form_port (form_var q ''sToPort'' '''') proto = Some b"
        "form_port (form_var q ''dFromPort'' ''0'') proto = Some c" "form_port (form_var q ''dToPort'' '''') proto = Some d"
        "comment_ok (form_var q ''comment'' '''')"
      and mac: "form_var q ''mac_address'' '''' = [] \<or> isMacValid (form_var q ''mac_address'' '''')"
      and t: "rule = filter_text sip a b dip c d proto action (form_var q ''comment'' '''') (form_var q ''mac_address'' '''')"
      by (rule filter_request_inv)
    have "net_valid sip" "length sip \<le> 31" by (rule address_or_any_ok [OF v(1,2)]; use ip in simp)+
    moreover have "net_valid dip" "length dip \<le> 31" by (rule address_or_any_ok [OF v(3,4)]; use ip in simp)+
    ultimately show ?thesis using filter_text_ok [OF _ _ _ _ f v(5) mac, of sip dip] r Some t by simp
  qed (use r in simp)
qed


definition demo_filter :: query where
  "demo_filter = demo_query [(''protocol'', ''ICMP''), (''action'', ''Drop'')]"

lemma demo_filter_request: "filter_request demo_filter = Ret (Some (lit ''any,0,0,0,any,0,0,0,4,0,,''))"
proof -
  have a: "address_or_any (lit ''any'') = Ret (Some (lit ''any''))"
    by (simp add: address_or_any_def isIpNetmaskValid_def)
  have p: "filter_protocol (lit ''ICMP'') = Some 4" "filter_action (lit ''Drop'') = Some 0"
    by (simp_all add: filter_protocol_def filter_action_def)
  have f: "form_port s 4 = Some 0" for s by (simp add: form_port_def)
  have t: "filter_text (lit ''any'') 0 0 (lit ''any'') 0 0 4 0 [] [] = lit ''any,0,0,0,any,0,0,0,4,0,,''"
    by (simp add: filter_text_def small_number lit_Cons)
  show ?thesis by (simp add: filter_request_def demo_filter_def Let_def a p f t comment_ok_def)
qed


section \<open>Text behind an address\<close>

lemma isIpValid_tail: "isIpValid (inet_ntoa a @ lit '' '' @ t)"
proof -
  have "\<forall>c \<in> set (inet_ntoa a). \<not> isspace c" using inet_ntoa_dotted [of a] by (metis takeWhile_eq_all_conv)
  then have "word_of (inet_ntoa a @ lit '' '' @ t) = inet_ntoa a @ word_of (lit '' '' @ t)" by simp
  also have "word_of (lit '' '' @ t) = []" by (simp add: lit_Cons isspace_def)
  finally show ?thesis using inet_ntoa_dotted [of a] by (simp add: isIpValid_def inet_aton_spec)
qed

text \<open>A format with a directive that has no argument.\<close>

lemma put_chars_ends: "put_chars h buf cs \<noteq> Blocked"
proof (induction cs arbitrary: buf)
  case (Cons c cs)
  have "put_char h buf c \<noteq> Blocked" by (simp add: put_char_def store_char_def split: option.split)
  then show ?case using Cons by (cases "put_char h buf c") auto
qed simp

lemma fmt_loop_directive:
  "PERCENT \<notin> set pre \<Longrightarrow> fmt_loop h buf (pre @ PERCENT # 0x73 # post) [] = Fault"
proof (induction pre arbitrary: buf)
  case Nil
  have "directive h buf (0x73 # post) [] = Fault" by (simp add: directive_simps convert_def)
  then show ?case by (subst fmt_loop.simps) simp
next
  case (Cons c pre)
  have "put_char h buf c \<noteq> Blocked" using put_chars_ends [of h buf "[c]"] by (cases "put_char h buf c") auto
  then show ?case using Cons by (subst fmt_loop.simps) (auto split: outcome.split)
qed

lemma doSystem_directive: "PERCENT \<notin> set pre \<Longrightarrow> doSystem e w (pre @ lit ''%s'' @ post) [] = Fault"
  by (simp add: doSystem_def fmtValloc_def dsnprintf_def start_buf_def fmt_loop_directive lit_Cons)

lemma forward_one_text:
  assumes "p = PROTO_TCP" and "is_cstring wan_ip" "length wan_ip \<le> 15" and "is_cstring ip" "length ip \<le> 31"
  shows "forward_one e wan_ip ip p (atoi s) (atoi t) w = doSystem e w (forward_cmd wan_ip ip p (atoi s) (atoi t)) []"
proof -
  let ?us = "[lit ''iptables -t nat -A port_forward -j DNAT -d '' @ wan_ip @ lit '' '', lit ''-p tcp '',
    port_range ''--dport '' (atoi s) (atoi t), lit ''--to '' @ ip @ lit '' '']"
  have r: "is_cstring (port_range ''--dport '' (atoi s) (atoi t))" "length (port_range ''--dport '' (atoi s) (atoi t)) \<le> 32"
    using port_range_text [of "''--dport ''" s t] by (simp_all add: plain_def lit_Cons)
  have "length (cmd_array e) = 1024" by (simp add: cmd_array_def fresh_def)
  moreover have "is_cstring (concat ?us)" "length (concat ?us) < 1024" "concat ?us \<noteq> []"
    using assms r by (simp_all add: lit_Cons)
  ultimately obtain b q c where b: "emits (int 1024) ?us (cmd_array e, 0, 0) = Ret (b, q, c)" "cstr b = concat ?us"
    using emits_cstr [of "cmd_array e" 1024 ?us] by auto
  have "makePortForwardRule (cmd_array e) 1024 wan_ip ip p (atoi s) (atoi t) = obind (emits (int 1024) ?us (cmd_array e, 0, 0)) (\<lambda>(b, _, _). Ret b)"
    using assms(1) by (simp add: makePortForwardRule_def port_range_def obind_assoc)
  then have "makePortForwardRule (cmd_array e) 1024 wan_ip ip p (atoi s) (atoi t) = Ret b" using b(1) by simp
  moreover have "concat ?us = forward_cmd wan_ip ip p (atoi s) (atoi t)" using assms(1) by (simp add: forward_cmd_def)
  ultimately show ?thesis using b(2) by (simp add: forward_one_def)
qed

lemma forward_run_faults:
  assumes ok: "fw_ok e w" and mode: "known_mode (cfg w)" and on: "atoi (sval w ''PortForwardEnable'') \<noteq> 0"
    and wan: "fe_addr e (wan_ifname e (cfg w)) = Some wan"
    and first: "records 256 (sval w ''PortForwardRules'') = rec # rs" "\<And>w'. forward_rule e (inet_ntoa wan) rec w' = Fault"
  shows "iptablesPortForwardRun e w = Fault"
proof -
  obtain w1 where w1: "fw_get e w ''PortForwardEnable'' = Ret (Some (sval w ''PortForwardEnable''), w1)" "issued e w [] w1"
    using get_from [OF issued_refl [OF ok]] .
  obtain w2 where w2: "fw_get e w1 ''PortForwardRules'' = Ret (Some (sval w ''PortForwardRules''), w2)" "issued e w [] w2"
    using get_from [OF w1(2)] .
  obtain w3 where w3: "getWanIfNamePPP e w2 = Ret (wan_ifname e (cfg w), w3)" "issued e w [] w3"
    using wan_from [OF w2(2) mode] .
  have "each_value e 256 (sval w ''PortForwardRules'') (forward_rule e (inet_ntoa wan)) 0 w3 = Fault"
    using first fw_cstring [OF ok] by (subst each_value_step) simp_all
  then show ?thesis using w1(1) w2(1) w3(1) on wan by (simp add: iptablesPortForwardRun_def getIfIp_def)
qed

text \<open>C39: the address check of the forwarding rules reads up to the first blank only. A text behind the
  blank is stored with the rule, and \<open>iptablesPortForwardRun\<close> puts it into the command line it gives to the
  shell as it is (a pipe or an ampersand in it starts another command); as the command line is
  also used as a format, a percent sign in the text reads arguments that are not there.\<close>

theorem address_tail_reaches_shell:
  assumes ok: "fw_ok e w" and mode: "known_mode (cfg w)" and on: "atoi (sval w ''PortForwardEnable'') \<noteq> 0"
    and wan: "fe_addr e (wan_ifname e (cfg w)) = Some wan" and port: "0 < p" "p \<le> 65535"
    and ip: "ip = inet_ntoa a @ lit '' '' @ t" "is_cstring t" "COMMA \<notin> set t" "SEMI \<notin> set t" "length t \<le> 14"
    and rule: "sval w ''PortForwardRules'' = forward_text ip p 0 PROTO_TCP []"
  shows "isIpValid ip
    \<and> (PERCENT \<notin> set t \<longrightarrow> issues e w (iptablesPortForwardRun e w) [forward_cmd (inet_ntoa wan) ip PROTO_TCP p 0])
    \<and> (\<forall>u v. t = u @ lit ''%s'' @ v \<and> PERCENT \<notin> set u \<longrightarrow> iptablesPortForwardRun e w = Fault)"
proof (intro conjI impI allI)
  let ?rule = "forward_text ip p 0 PROTO_TCP []"
  show valid: "isIpValid ip" unfolding ip(1) by (rule isIpValid_tail)
  have "plain (inet_ntoa a)" "\<forall>c \<in> set (inet_ntoa a). isdigit c \<or> c = DOT" "length (inet_ntoa a) < 16"
    using plain_inet_ntoa dotted_chars inet_ntoa_dotted length_inet_ntoa by blast+
  then have c: "is_cstring ip" "COMMA \<notin> set ip" "SEMI \<notin> set ip" "length ip \<le> 31"
    using ip by (auto simp: plain_def lit_Cons isdigit_def)
  have n: "fmt_d 0 = lit ''0''" "fmt_d 1 = lit ''1''" by (simp_all add: small_number lit_Cons)
  have len: "length (fmt_d p) \<le> 11" using port by (intro length_fmt_d) auto
  have short: "take 255 ?rule = ?rule" using len c(4) by (simp add: forward_text_def n)
  have "SEMI \<notin> set ?rule" using c(3) set_forward_text [of ip p 0 PROTO_TCP "[]"] by (auto simp: isdigit_def)
  then have recs: "records 256 ?rule = [?rule]" using short by (simp add: records_def parts_simple)
  have pw: "plain (inet_ntoa wan)" "length (inet_ntoa wan) \<le> 15"
    using plain_inet_ntoa length_inet_ntoa [of wan] by simp_all
  {
    assume "PERCENT \<notin> set t"
    then have "plain ip" using c(1) ip(1) plain_inet_ntoa [of a] by (simp add: plain_def lit_Cons)
    then have "plain ?rule" by (simp add: forward_text_def) (simp add: plain_def lit_Cons)
    moreover have "forward_cmds x ?rule = [forward_cmd x ip PROTO_TCP p 0]" for x
      using forward_cmds_text [of ip p 0 PROTO_TCP "[]" x] valid c port short by (simp add: forward_protos_def)
    ultimately show "issues e w (iptablesPortForwardRun e w) [forward_cmd (inet_ntoa wan) ip PROTO_TCP p 0]"
      using forward_run_ok [OF ok mode] on wan rule recs by (simp add: forward_all_def)
  }
  fix u v assume t: "t = u @ lit ''%s'' @ v \<and> PERCENT \<notin> set u"
  have r: "is_cstring ?rule" using c(1) by (simp add: forward_text_def n is_cstring_fmt_d lit_Cons)
  have a: "atoi (take 7 (fmt_d p)) = p" using port by (intro atoi_field) auto
  have cmd: "doSystem e w' (forward_cmd (inet_ntoa wan) ip PROTO_TCP p 0) [] = Fault" for w'
  proof -
    let ?pre = "lit ''iptables -t nat -A port_forward -j DNAT -d '' @ inet_ntoa wan @ lit '' '' @ lit ''-p tcp ''
      @ port_range ''--dport '' p 0 @ lit ''--to '' @ inet_ntoa a @ lit '' '' @ u"
    have f: "forward_cmd (inet_ntoa wan) ip PROTO_TCP p 0 = ?pre @ lit ''%s'' @ (v @ lit '' '')"
      using t by (simp add: forward_cmd_def ip(1))
    have "PERCENT \<notin> set ?pre"
      using t plain_inet_ntoa [of wan] plain_inet_ntoa [of a] plain_fmt_d [of p] by (simp add: plain_def port_range_def lit_Cons)
    then show ?thesis unfolding f by (rule doSystem_directive)
  qed
  have "forward_rule e (inet_ntoa wan) ?rule w' = forward_one e (inet_ntoa wan) ip PROTO_TCP (atoi (take 7 (fmt_d p))) (atoi (lit ''0'')) w'" for w'
    using valid c a port by (simp add: forward_rule_def with_field_ok [OF r] forward_text_parts n Let_def)
  then have "forward_rule e (inet_ntoa wan) ?rule w' = Fault" for w'
    using forward_one_text [of PROTO_TCP "inet_ntoa wan" ip e "take 7 (fmt_d p)" "lit ''0''" w'] pw c cmd [of w'] a
    by (simp add: plain_def)
  then show "iptablesPortForwardRun e w = Fault" using recs rule by (intro forward_run_faults [OF ok mode on wan]) simp_all
qed

lemma demo_wan: "inet_ntoa 0x0A000001 = lit ''10.0.0.1''"
  by (simp add: inet_ntoa_join octets_def print_base_eval digit_def lit_Cons)

theorem address_tail_reaches_shell_witness:
  "\<exists>s w0 w1 w2 w'. lib_nvram_init demo_env demo_lib 0 = Ret s \<and> fw_set demo_fenv (demo_fw s) ''OperationMode'' (lit ''1'') = Ret w0
    \<and> fw_set demo_fenv w0 ''PortForwardEnable'' (lit ''1'') = Ret w1
    \<and> fw_set demo_fenv w1 ''PortForwardRules'' (lit ''10.0.0.1 |reboot,80,0,1,'') = Ret w2
    \<and> iptablesPortForwardRun demo_fenv w2 = Ret w'
    \<and> fcmds w' = [lit ''iptables -t nat -A port_forward -j DNAT -d 10.0.0.1 -p tcp --dport 80 --to 10.0.0.1 |reboot '']"
proof -
  let ?v = "lit ''10.0.0.1 |reboot,80,0,1,''" and ?ip = "lit ''10.0.0.1 |reboot''"
  let ?kvs = "AList.update (lit ''PortForwardEnable'') (lit ''1'') demo_cfg"
  have fit: "fits ?kvs" "fits (AList.update (lit ''PortForwardRules'') ?v ?kvs)"
    by (simp_all add: demo_cfg_def fits_def storable_def layout_def kv_ok_def) (simp_all add: lit_Cons)
  obtain s w0 w1 where w: "lib_nvram_init demo_env demo_lib 0 = Ret s"
    "fw_set demo_fenv (demo_fw s) ''OperationMode'' (lit ''1'') = Ret w0" "fw_set demo_fenv w0 ''PortForwardEnable'' (lit ''1'') = Ret w1"
    "fw_ok demo_fenv w1" "cfg w1 = ?kvs" "fcmds w1 = []" "freply w1 = []" by (rule demo_state [OF fit(1)])
  obtain w2 where w2: "fw_set demo_fenv w1 ''PortForwardRules'' ?v = Ret w2"
    "became demo_fenv w1 (AList.update (lit ''PortForwardRules'') ?v ?kvs) w2"
    using fw_set_ok [OF w(4), of _ "''PortForwardRules''" ?v] w(5) fit(2) by auto
  note b = became_ok [OF w2(2)]
  have s: "sval w2 n = (if n = ''PortForwardRules'' then ?v else if n = ''PortForwardEnable'' then lit ''1'' else if n = ''OperationMode'' then lit ''1'' else [])" for n
    using b by (simp add: setting_update demo_setting)
  have "known_mode (cfg w2)" by (simp add: known_mode_def s)
  moreover have "?v = forward_text ?ip 80 0 1 []" by (simp add: forward_text_def demo_numbers small_number lit_Cons)
  moreover have "?ip = inet_ntoa 0x0A000001 @ lit '' '' @ lit ''|reboot''" unfolding demo_wan by (simp add: lit_Cons)
  moreover have "fe_addr demo_fenv n = Some 0x0A000001" for n by (simp add: demo_fenv_def)
  moreover have "is_cstring (lit ''|reboot'')" "COMMA \<notin> set (lit ''|reboot'')" "SEMI \<notin> set (lit ''|reboot'')" "PERCENT \<notin> set (lit ''|reboot'')"
    by (simp_all add: lit_Cons)
  ultimately have "issues demo_fenv w2 (iptablesPortForwardRun demo_fenv w2) [forward_cmd (inet_ntoa 0x0A000001) ?ip 1 80 0]"
    using address_tail_reaches_shell [of demo_fenv w2 "0x0A000001" 80 ?ip "0x0A000001" "lit ''|reboot''"] b s by simp
  moreover have "forward_cmd (inet_ntoa 0x0A000001) ?ip 1 80 0
      = lit ''iptables -t nat -A port_forward -j DNAT -d 10.0.0.1 -p tcp --dport 80 --to 10.0.0.1 |reboot ''"
    unfolding demo_wan by (simp add: forward_cmd_def port_range_def demo_numbers lit_Cons)
  ultimately show ?thesis using w w2 by (auto simp: issues_def issued_def became_def)
qed

section \<open>A long DMZ address\<close>

lemma wan_ifname_length: "3 \<le> length (wan_ifname e kvs)"
  by (simp add: wan_ifname_def mode_ifname_def Let_def)

lemma makeDMZRule_overruns:
  assumes "3 \<le> length wan_name" and "470 \<le> length ip" and "length buf = 1024"
  shows "makeDMZRule e buf 1024 wan_name ip avoid = Fault"
proof -
  define t where "t = lit ''iptables -t nat -A DMZ -j DNAT -i '' @ wan_name @ lit '' --to '' @ ip"
  define u where "u = lit '';iptables -t nat -A DMZ -j DNAT -i '' @ wan_name
     @ (if avoid \<noteq> 0 then lit '' -p tcp --dport ! '' @ fmt_d (sint (fe_port e)) @ lit '' --to '' else lit '' -p tcp --to '') @ ip"
  have "makeDMZRule e buf 1024 wan_name ip avoid = obind (snprintf buf 0 1024 t) (\<lambda>buf. snprintf buf (length t) 1024 u)"
    by (simp add: makeDMZRule_def Let_def t_def u_def)
  moreover have "512 \<le> length t" "512 \<le> length u" using assms(1,2) by (simp_all add: t_def u_def)
  ultimately show ?thesis using assms(3) by (auto simp: snprintf_def Let_def)
qed

lemma dmz_run_faults:
  assumes ok: "fw_ok e w" and mode: "known_mode (cfg w)" and on: "atoi (sval w ''DMZEnable'') = 1" and long: "470 \<le> length (sval w ''DMZAddress'')"
  shows "iptablesDMZRun e w = Fault"
proof -
  obtain w1 where w1: "fw_get e w ''DMZEnable'' = Ret (Some (sval w ''DMZEnable''), w1)" "issued e w [] w1"
    using get_from [OF issued_refl [OF ok]] .
  obtain w2 where w2: "fw_get e w1 ''DMZAddress'' = Ret (Some (sval w ''DMZAddress''), w2)" "issued e w [] w2"
    using get_from [OF w1(2)] .
  obtain w3 where w3: "fw_get e w2 ''DMZAvoidTCPPort80'' = Ret (Some (sval w ''DMZAvoidTCPPort80''), w3)" "issued e w [] w3"
    using get_from [OF w2(2)] .
  obtain w4 where w4: "getWanIfNamePPP e w3 = Ret (wan_ifname e (cfg w), w4)" "issued e w [] w4"
    using wan_from [OF w3(2) mode] .
  have "length (cmd_array e) = 1024" by (simp add: cmd_array_def fresh_def)
  then show ?thesis using w1(1) w2(1) w3(1) w4(1) on makeDMZRule_overruns [OF wan_ifname_length long]
    by (simp add: iptablesDMZRun_def)
qed

text \<open>C40: a DMZ address of 470 characters or more passes the check of the form when it starts with an
  address and a blank; the form stores it and then writes behind the array of the command, because
  the second part of the command is written with the size of the whole array.\<close>

theorem DMZ_address_overruns:
  assumes ok: "fw_ok e w" and mode: "known_mode (cfg w)" and on: "atoi (form_var q ''DMZEnabled'' '''') = 1"
    and address: "form_var q ''DMZAddress'' '''' = inet_ntoa a @ lit '' '' @ t" "470 \<le> length t"
    and avoid: "avoid = (if form_var q ''DMZTCPPort80'' '''' \<noteq> [] then form_var q ''DMZTCPPort80'' '''' else lit ''0'')"
    and kvs: "kvs1 = AList.update (lit ''DMZEnable'') (lit ''1'') (cfg w)" "kvs2 = AList.update (lit ''DMZAddress'') (inet_ntoa a @ lit '' '' @ t) kvs1"
      "kvs3 = AList.update (lit ''DMZAvoidTCPPort80'') avoid kvs2" and fit: "fits kvs1" "fits kvs2" "fits kvs3"
  shows "DMZ e q w = Fault"
proof -
  let ?a = "inet_ntoa a @ lit '' '' @ t"
  obtain w1 where w1: "iptablesDMZFlush e w = Ret w1" "issued e w flush_DMZ w1" using flushes_issue(4) [OF ok] by (auto simp: issues_def)
  obtain w2 where w2: "fw_set e w1 ''DMZEnable'' (lit ''1'') = Ret w2" "became e w1 kvs1 w2"
    using fw_set_ok [OF issued_ok [OF w1(2)], of kvs1 "''DMZEnable''"] kvs(1) issued_cfg [OF w1(2)] fit(1) by auto
  obtain w3 where w3: "fw_set e w2 ''DMZAddress'' ?a = Ret w3" "became e w2 kvs2 w3"
    using fw_set_ok [of e w2 kvs2 "''DMZAddress''"] kvs(2) became_ok [OF w2(2)] fit(2) by auto
  obtain w4 where w4: "fw_set e w3 ''DMZAvoidTCPPort80'' avoid = Ret w4" "became e w3 kvs3 w4"
    using fw_set_ok [of e w3 kvs3 "''DMZAvoidTCPPort80''"] kvs(3) became_ok [OF w3(2)] fit(3) by auto
  obtain w5 where w5: "fw_commit e w4 = Ret w5" "became e w4 kvs3 w5"
    using fw_commit_ok [of e w4] became_ok [OF w4(2)] fit(3) by auto
  note b = became_ok [OF w5(2)]
  have s: "setting kvs3 (lit ''DMZEnable'') = lit ''1''" "setting kvs3 (lit ''DMZAddress'') = ?a"
    "setting kvs3 (lit ''OperationMode'') = sval w ''OperationMode''"
    using kvs by (simp_all add: setting_update)
  have "iptablesDMZRun e w5 = Fault"
    using b s mode address(2) by (intro dmz_run_faults) (simp_all add: known_mode_def)
  then show ?thesis
    using w1(1) w2(1) w3(1) w4(1) w5(1) on address(1) isIpValid_tail [of a t] avoid by (simp add: DMZ_def Let_def)
qed

definition demo_DMZ :: query where
  "demo_DMZ = demo_query [(''DMZEnabled'', ''1''), (''DMZAddress'', ''10.0.0.1 '' @ replicate 470 CHR ''x'')]"

theorem DMZ_address_overruns_witness:
  "\<exists>s w. lib_nvram_init demo_env demo_lib 0 = Ret s \<and> fw_set demo_fenv (demo_fw s) ''OperationMode'' (lit ''1'') = Ret w
    \<and> DMZ demo_fenv demo_DMZ w = Fault"
proof -
  obtain s w where w: "lib_nvram_init demo_env demo_lib 0 = Ret s" "fw_set demo_fenv (demo_fw s) ''OperationMode'' (lit ''1'') = Ret w"
    "fw_ok demo_fenv w" "cfg w = demo_cfg" "fcmds w = []" "freply w = []" by (rule demo_router)
  have a: "form_var demo_DMZ ''DMZAddress'' '''' = inet_ntoa 0x0A000001 @ lit '' '' @ replicate 470 0x78"
    unfolding demo_wan by (simp add: demo_DMZ_def lit_append lit_Cons del: replicate.simps) (simp add: lit_def)
  let ?kvs1 = "AList.update (lit ''DMZEnable'') (lit ''1'') demo_cfg"
  let ?kvs2 = "AList.update (lit ''DMZAddress'') (inet_ntoa 0x0A000001 @ lit '' '' @ replicate 470 0x78) ?kvs1"
  have "kv_ok (lit ''DMZEnable'', lit ''1'')" "kv_ok (lit ''OperationMode'', lit ''1'')" "kv_ok (lit ''DMZAvoidTCPPort80'', lit ''0'')"
    "kv_ok (lit ''DMZAddress'', inet_ntoa 0x0A000001 @ lit '' '' @ replicate 470 0x78)"
    unfolding demo_wan by (simp_all add: kv_ok_def lit_Cons is_cstring_def del: replicate.simps)
  then have "fits ?kvs1" "fits ?kvs2" "fits (AList.update (lit ''DMZAvoidTCPPort80'') (lit ''0'') ?kvs2)"
    unfolding demo_wan by (simp_all add: demo_cfg_def fits_def storable_def layout_def env_text_def)
  then have "DMZ demo_fenv demo_DMZ w = Fault"
    using w(3,4) demo_settings(1) a
    by (intro DMZ_address_overruns [where a = "0x0A000001" and t = "replicate 470 0x78" and avoid = "lit ''0''"
      and ?kvs1.0 = ?kvs1 and ?kvs2.0 = ?kvs2 and ?kvs3.0 = "AList.update (lit ''DMZAvoidTCPPort80'') (lit ''0'') ?kvs2"]) (simp_all add: demo_DMZ_def)
  with w show ?thesis by blast
qed

end
