(* ===== verification/FwInit.thy ===== *)
theory FwInit
  imports FwSafety
begin

text \<open>
  The firewall at start-up: \<open>firewall_init\<close> runs the commands of every kind of rule in one fixed
  order. The references here are those of the remaining functions of \<open>firewall.c\<close>: the content
  filter, remote management, the filter against malicious packets and the list of blocked
  devices. The commands for the blocked URLs do not depend on the switch of the page, which is
  why a filter that was switched off is back after the next start.
\<close>

section \<open>Content filter\<close>

definition content_text :: "string \<Rightarrow> int \<Rightarrow> cstring" where
  "content_text ports bits = lit ''iptables -A web_filter -p tcp -m tcp --dport '' @ lit ports
     @ lit '' -m webstr --content '' @ fmt_d bits @ lit '' -j REJECT --reject-with tcp-reset''"

definition url_cmds :: "cstring \<Rightarrow> cstring list" where
  "url_cmds entry = (if entry = [] then [] else
     [lit ''iptables -A web_filter -p tcp -m tcp -m webstr --url  ''
        @ (if strncaseeq entry (lit ''http://'') 7 then drop 7 entry else entry) @ lit '' -j REJECT --reject-with tcp-reset''])"

definition host_cmds :: "cstring \<Rightarrow> cstring list" where
  "host_cmds entry = (if entry = [] then [] else
     [lit ''iptables -A web_filter -p tcp -m tcp -m webstr --host '' @ entry @ lit '' -j REJECT --reject-with tcp-reset''])"

text \<open>The contents to block: the bits that \<open>ipt_webstr\<close> has for them, of those whose setting is \<open>1\<close>.\<close>

definition blocked_contents :: "(cstring \<times> cstring) list \<Rightarrow> int" where
  "blocked_contents kvs = sum_list (map snd (filter (\<lambda>(name, bit). setting kvs (lit name) = lit ''1'')
     [(''websFilterJava'', 1), (''websFilterActivex'', 2), (''websFilterCookies'', 4), (''websFilterProxy'', 8)]))"

text \<open>The URL and host rules are run whatever \<open>websURLFilterEnabled\<close> says.\<close>

definition web_all :: "(cstring \<times> cstring) list \<Rightarrow> cstring list" where
  "web_all kvs =
     (let bits = blocked_contents kvs in
      (if bits \<noteq> 0 then map (\<lambda>p. content_text p bits) [''80  '', ''3128'', ''8080''] else [])
      @ concat (map url_cmds (records 256 (setting kvs (lit ''websURLFilters''))))
      @ concat (map host_cmds (records 256 (setting kvs (lit ''websHostFilters'')))))"

text \<open>A command with one argument behind a fixed text.\<close>

lemma render_text: "PERCENT \<notin> set t \<Longrightarrow> render (t @ fmt) args = map_option ((@) t) (render fmt args)"
  by (induction t) (cases "render fmt args"; auto)+

lemma render_one:
  assumes "PERCENT \<notin> set pre" and "PERCENT \<notin> set post"
  shows "render (pre @ PERCENT # 0x73 # post) [AStr (Some s)] = Some (pre @ s @ post)"
    "render (pre @ PERCENT # 0x64 # post) [AInt i] = Some (pre @ fmt_d (sint i) @ post)"
  using assms by (simp_all add: render_text render_plain)

lemma content_bits_range: "0 \<le> content_bits a b c d" "content_bits a b c d \<le> 15"
  by (simp_all add: content_bits_def)

lemma blocked_contents_iff:
  "content_bits (setting kvs (lit ''websFilterJava'')) (setting kvs (lit ''websFilterActivex'')) (setting kvs (lit ''websFilterCookies''))
    (setting kvs (lit ''websFilterProxy'')) = blocked_contents kvs"
  by (simp add: content_bits_def blocked_contents_def)

lemma content_cmd_ok:
  assumes "fw_ok e w" and "ports \<in> {''80  '', ''3128'', ''8080''}" and "0 \<le> bits" "bits \<le> 15"
  shows "issues e w (content_cmd e ports bits w) [content_text ports bits]"
proof -
  let ?pre = "lit ''iptables -A web_filter -p tcp -m tcp --dport '' @ lit ports @ lit '' -m webstr --content ''"
    and ?post = "lit '' -j REJECT --reject-with tcp-reset''"
  have s: "sint (of_int bits :: 32 word) = bits" using assms(3,4) by (simp add: signed_of_int signed_take_bit_int_eq_self)
  have p: "plain (lit ports)" using assms(2) by (auto simp: plain_def lit_Cons)
  have "plain (lit ''iptables -A web_filter -p tcp -m tcp --dport '')" "plain (lit '' -m webstr --content '')" "plain ?post"
    by (simp_all add: plain_def lit_Cons)
  then have pl: "plain (content_text ports bits)" and q: "PERCENT \<notin> set ?pre" "PERCENT \<notin> set ?post"
    using p by (simp_all add: content_text_def plain_def) (use plain_fmt_d in \<open>simp add: plain_def\<close>)
  have "render (lit ''iptables -A web_filter -p tcp -m tcp --dport '' @ lit ports
      @ lit '' -m webstr --content %d -j REJECT --reject-with tcp-reset'') [AInt (of_int bits)] = Some (content_text ports bits)"
  proof -
    have "lit '' -m webstr --content %d -j REJECT --reject-with tcp-reset'' = lit '' -m webstr --content '' @ PERCENT # 0x64 # ?post"
      by (simp add: lit_Cons)
    then show ?thesis using render_one(2) [OF q, of "of_int bits"] s by (simp add: content_text_def)
  qed
  moreover have "length (content_text ports bits) \<le> 959"
    using length_fmt_d [of bits] assms by (auto simp: content_text_def)
  ultimately show ?thesis using issues_doSystem [OF assms(1)] pl unfolding content_cmd_def by (fastforce simp: plain_def)
qed

lemma entry_cmd_ok:
  assumes "fw_ok e w" and "is_cstring s" and "length s \<le> 255" and "fmt = pre @ lit ''%s'' @ post" and "plain pre" "plain post"
    and "length pre + length post \<le> 700"
  shows "issues e w (doSystem e w fmt [AStr (Some s)]) [pre @ s @ post]"
proof -
  have "render fmt [AStr (Some s)] = Some (pre @ s @ post)"
    using assms(4-6) render_one(1) [of pre post s] by (simp add: plain_def lit_Cons)
  moreover have "take 959 (pre @ s @ post) = pre @ s @ post" using assms(3,7) by simp
  ultimately show ?thesis using issues_doSystem [OF assms(1), of fmt "[AStr (Some s)]"] assms(2,5,6) by (fastforce simp: plain_def)
qed

lemma is_cstring_drop: "is_cstring s \<Longrightarrow> is_cstring (drop n s)"
  by (auto simp: is_cstring_def dest: in_set_dropD)

lemma entries_ok:
  assumes "fw_ok e w" and "is_cstring s" "length s \<le> 255"
  shows "issues e w (url_entry e s w) (url_cmds s)" "issues e w (host_entry e s w) (host_cmds s)"
proof -
  have f: "lit ''iptables -A web_filter -p tcp -m tcp -m webstr --url  %s -j REJECT --reject-with tcp-reset''
      = lit ''iptables -A web_filter -p tcp -m tcp -m webstr --url  '' @ lit ''%s'' @ lit '' -j REJECT --reject-with tcp-reset''"
    "lit ''iptables -A web_filter -p tcp -m tcp -m webstr --host %s -j REJECT --reject-with tcp-reset''
      = lit ''iptables -A web_filter -p tcp -m tcp -m webstr --host '' @ lit ''%s'' @ lit '' -j REJECT --reject-with tcp-reset''"
    by (simp_all add: lit_Cons)
  have p: "plain (lit ''iptables -A web_filter -p tcp -m tcp -m webstr --url  '')" "plain (lit '' -j REJECT --reject-with tcp-reset'')"
    "plain (lit ''iptables -A web_filter -p tcp -m tcp -m webstr --host '')" by (simp_all add: plain_def lit_Cons)
  show "issues e w (host_entry e s w) (host_cmds s)"
    using entry_cmd_ok [OF assms f(2) p(3,2)] assms(1) by (simp add: host_entry_def host_cmds_def)
  let ?s = "if strncaseeq s (lit ''http://'') 7 then drop 7 s else s"
  have "is_cstring ?s" "length ?s \<le> 255" using assms(2,3) is_cstring_drop by auto
  then show "issues e w (url_entry e s w) (url_cmds s)"
    using entry_cmd_ok [OF assms(1) _ _ f(1) p(1,2), of ?s] assms(1) by (simp add: url_entry_def url_cmds_def)
qed

text \<open>The loop over a list of entries, which may hold any text.\<close>

lemma entries_issue:
  assumes "fw_ok e w" and "is_cstring list"
    and "\<And>s w'. is_cstring s \<Longrightarrow> length s \<le> 255 \<Longrightarrow> fw_ok e w' \<Longrightarrow> issues e w' (body s w') (f s)"
  shows "issues e w (each_value e 256 list body 0 w) (concat (map f (records 256 list)))"
proof -
  have "length s \<le> 255" if "s \<in> set (records 256 list)" for s using that by (auto simp: records_def)
  then show ?thesis
    using each_value_issues [OF assms(2) _ assms(1), of 256 0 body f] assms(3) records_cstring [OF assms(2)] by simp
qed

lemma contents_ok:
  assumes "fw_ok e w" and "0 \<le> bits" "bits \<le> 15"
  shows "issues e w (if bits \<noteq> 0 then
      obind (content_cmd e ''80  '' bits w) (\<lambda>w. obind (content_cmd e ''3128'' bits w) (content_cmd e ''8080'' bits))
      else Ret w) (if bits \<noteq> 0 then map (\<lambda>p. content_text p bits) [''80  '', ''3128'', ''8080''] else [])"
proof -
  have "issues e w (obind (content_cmd e ''80  '' bits w) (\<lambda>w. obind (content_cmd e ''3128'' bits w) (content_cmd e ''8080'' bits)))
      ([content_text ''80  '' bits] @ [content_text ''3128'' bits] @ [content_text ''8080'' bits])"
    using assms by (intro issues_bind content_cmd_ok) (auto intro: issued_ok)
  then show ?thesis using assms(1) by simp
qed

lemma webs_run_ok:
  assumes ok: "fw_ok e w"
  shows "issues e w (iptablesWebsFilterRun e w) (web_all (cfg w))"
proof -
  obtain w1 where w1: "fw_get e w ''websURLFilters'' = Ret (Some (sval w ''websURLFilters''), w1)" "issued e w [] w1"
    using get_from [OF issued_refl [OF ok]] .
  obtain w2 where w2: "fw_get e w1 ''websHostFilters'' = Ret (Some (sval w ''websHostFilters''), w2)" "issued e w [] w2"
    using get_from [OF w1(2)] .
  obtain w3 where w3: "fw_get e w2 ''websFilterProxy'' = Ret (Some (sval w ''websFilterProxy''), w3)" "issued e w [] w3"
    using get_from [OF w2(2)] .
  obtain w4 where w4: "fw_get e w3 ''websFilterJava'' = Ret (Some (sval w ''websFilterJava''), w4)" "issued e w [] w4"
    using get_from [OF w3(2)] .
  obtain w5 where w5: "fw_get e w4 ''websFilterActivex'' = Ret (Some (sval w ''websFilterActivex''), w5)" "issued e w [] w5"
    using get_from [OF w4(2)] .
  obtain w6 where w6: "fw_get e w5 ''websFilterCookies'' = Ret (Some (sval w ''websFilterCookies''), w6)" "issued e w [] w6"
    using get_from [OF w5(2)] .
  let ?bits = "content_bits (sval w ''websFilterJava'') (sval w ''websFilterActivex'') (sval w ''websFilterCookies'') (sval w ''websFilterProxy'')"
  let ?run = "obind (if ?bits \<noteq> 0 then
         obind (content_cmd e ''80  '' ?bits w6) (\<lambda>w. obind (content_cmd e ''3128'' ?bits w) (content_cmd e ''8080'' ?bits))
       else Ret w6) (\<lambda>w'. obind (each_value e 256 (sval w ''websURLFilters'') (url_entry e) 0 w')
         (each_value e 256 (sval w ''websHostFilters'') (host_entry e) 0))"
  have "iptablesWebsFilterRun e w = ?run"
    using w1(1) w2(1) w3(1) w4(1) w5(1) w6(1) by (simp add: iptablesWebsFilterRun_def Let_def)
  moreover have "issues e w6 ?run ((if ?bits \<noteq> 0 then map (\<lambda>p. content_text p ?bits) [''80  '', ''3128'', ''8080''] else [])
      @ concat (map url_cmds (records 256 (sval w ''websURLFilters'')))
      @ concat (map host_cmds (records 256 (sval w ''websHostFilters''))))"
    using fw_cstring [OF ok] content_bits_range
    by (intro issues_bind contents_ok issued_ok [OF w6(2)] entries_issue entries_ok) (auto intro: issued_ok)
  ultimately show ?thesis using issues_after [OF w6(2)] unfolding blocked_contents_iff by (fastforce simp: web_all_def Let_def)
qed

section \<open>Remote management and malicious packets\<close>

definition wan_text :: "fenv \<Rightarrow> (cstring \<times> cstring) list \<Rightarrow> string \<Rightarrow> cstring" where
  "wan_text e kvs rest = lit ''iptables -A malicious_input_filter -i '' @ wan_ifname e kvs @ lit rest"

definition remote_all :: "fenv \<Rightarrow> (cstring \<times> cstring) list \<Rightarrow> cstring list" where
  "remote_all e kvs =
     (if setting kvs (lit ''OperationMode'') \<noteq> lit ''1'' \<or> atoi (setting kvs (lit ''RemoteManagement'')) = 1 then []
      else if atoi (setting kvs (lit ''SPIFWEnabled'')) = 0 then [wan_text e kvs '' -p tcp --dport 80 -j DROP'']
      else [wan_text e kvs '' -m state --state RELATED,ESTABLISHED -j ACCEPT'',
            wan_text e kvs '' -m state -p tcp --dport 80 --state NEW,INVALID -j DROP''])"

definition scan_texts :: "string \<Rightarrow> cstring list" where
  "scan_texts chain = map (\<lambda>t. lit ''iptables -A '' @ lit chain @ lit '' -p tcp --tcp-flags '' @ lit t)
     [''ALL FIN,URG,PSH -j DROP'', ''ALL SYN,RST,ACK,FIN,URG -j DROP'', ''ALL NONE -j DROP'', ''SYN,RST SYN,RST -j DROP'', ''SYN,FIN SYN,FIN '']"

definition malicious_all :: "fenv \<Rightarrow> (cstring \<times> cstring) list \<Rightarrow> cstring list" where
  "malicious_all e kvs =
     (if atoi (setting kvs (lit ''WANPingFilter'')) = 0 then [] else [wan_text e kvs '' -p icmp -j DROP''])
     @ (if atoi (setting kvs (lit ''BlockPortScan'')) = 0 then [] else scan_texts ''malicious_filter'' @ scan_texts ''malicious_input_filter'')
     @ (if atoi (setting kvs (lit ''BlockSynFlood'')) = 0 then [] else [lit ''echo 1 > /proc/sys/net/ipv4/tcp_syncookies 2>&1 1>/dev/null''])"

definition app_cmds :: "cstring \<Rightarrow> cstring list" where
  "app_cmds entry = (if entry = [] then [] else [lit ''iptables -I FORWARD -m mac --mac-source '' @ entry @ lit '' -j DROP''])"

definition app_all :: "(cstring \<times> cstring) list \<Rightarrow> cstring list" where
  "app_all kvs = concat (map app_cmds (records 256 (setting kvs (lit ''LimitMac''))))"

lemma run_wan_ok:
  assumes ok: "fw_ok e w" and mode: "known_mode (cfg w)" and rest: "plain (lit rest)" "length rest \<le> 200"
    and fmt: "fmt = ''iptables -A %s -i %s'' @ rest"
  shows "issues e w (run_wan e fmt w) [wan_text e (cfg w) rest]"
proof -
  obtain w1 where w1: "getWanIfNamePPP e w = Ret (wan_ifname e (cfg w), w1)" "issued e w [] w1"
    using wan_from [OF issued_refl [OF ok] mode] .
  have "render (lit fmt) [AStr (Some (lit MALICIOUS_INPUT_FILTER_CHAIN)), AStr (Some (wan_ifname e (cfg w)))]
      = Some (wan_text e (cfg w) rest)"
    using rest(1) unfolding fmt lit_append wan_text_def by (simp add: lit_Cons render_plain plain_def)
  moreover have pl: "plain (wan_text e (cfg w) rest)" using wan_plain rest(1) by (simp add: wan_text_def) (simp add: plain_def lit_Cons)
  moreover have "length (wan_text e (cfg w) rest) \<le> 959" using wan_plain(2) [of e "cfg w"] rest(2) by (simp add: wan_text_def)
  ultimately have "issues e w1 (run_wan e fmt w) [wan_text e (cfg w) rest]"
    using w1 issues_doSystem [OF issued_ok [OF w1(2)]] by (fastforce simp: run_wan_def plain_def)
  then show ?thesis using issues_after [OF w1(2)] by fastforce
qed

lemma remote_run_ok:
  assumes ok: "fw_ok e w" and mode: "known_mode (cfg w)"
  shows "issues e w (iptablesRemoteManagementRun e w) (remote_all e (cfg w))"
proof -
  obtain w1 where w1: "fw_get e w ''RemoteManagement'' = Ret (Some (sval w ''RemoteManagement''), w1)" "issued e w [] w1"
    using get_from [OF issued_refl [OF ok]] .
  obtain w2 where w2: "fw_get e w1 ''OperationMode'' = Ret (Some (sval w ''OperationMode''), w2)" "issued e w [] w2"
    using get_from [OF w1(2)] .
  obtain w3 where w3: "fw_get e w2 ''SPIFWEnabled'' = Ret (Some (sval w ''SPIFWEnabled''), w3)" "issued e w [] w3"
    using get_from [OF w2(2)] .
  have p: "plain (lit '' -p tcp --dport 80 -j DROP'')" "plain (lit '' -m state --state RELATED,ESTABLISHED -j ACCEPT'')"
    "plain (lit '' -m state -p tcp --dport 80 --state NEW,INVALID -j DROP'')" by (simp_all add: plain_def lit_Cons)
  have run: "issues e w' (run_wan e fmt w') [wan_text e (cfg w) rest]"
    if "fw_ok e w'" "cfg w' = cfg w" "plain (lit rest)" "length rest \<le> 200" "fmt = ''iptables -A %s -i %s'' @ rest" for w' fmt rest
    using run_wan_ok [of e w'] that mode by simp
  note c = issued_ok [OF w3(2)] issued_cfg [OF w3(2)]
  have "issues e w3 (run_wan e ''iptables -A %s -i %s -p tcp --dport 80 -j DROP'' w3) [wan_text e (cfg w) '' -p tcp --dport 80 -j DROP'']"
    using c p by (intro run) simp_all
  moreover have "issues e w3 (obind (run_wan e ''iptables -A %s -i %s -m state --state RELATED,ESTABLISHED -j ACCEPT'' w3)
      (run_wan e ''iptables -A %s -i %s -m state -p tcp --dport 80 --state NEW,INVALID -j DROP''))
    ([wan_text e (cfg w) '' -m state --state RELATED,ESTABLISHED -j ACCEPT''] @ [wan_text e (cfg w) '' -m state -p tcp --dport 80 --state NEW,INVALID -j DROP''])"
    using c p by (intro issues_bind run) (auto dest: issued_cfg intro: issued_ok)
  ultimately have "issues e w3 (iptablesRemoteManagementRun e w) (remote_all e (cfg w))"
    using w1(1) w2(1) w3(1) c(1) by (simp add: iptablesRemoteManagementRun_def remote_all_def atoi_of_def)
  then show ?thesis using issues_after [OF w3(2)] by fastforce
qed

lemma scan_rules_text:
  "list_all cmd_wf (scan_rules ''malicious_filter'' @ scan_rules ''malicious_input_filter'')"
  "map cmd_text (scan_rules ''malicious_filter'' @ scan_rules ''malicious_input_filter'') = scan_texts ''malicious_filter'' @ scan_texts ''malicious_input_filter''"
  by (simp_all add: cmd_wf_simps scan_texts_def lit_Cons)

lemma syncookies_ok:
  assumes "fw_ok e w"
  shows "issues e w (run1 e ''echo 1 > /proc/sys/net/ipv4/tcp_syncookies 2>&1 1>/dev/null'' [] w)
    [lit ''echo 1 > /proc/sys/net/ipv4/tcp_syncookies 2>&1 1>/dev/null'']"
  using issues_run1 [OF assms, of "''echo 1 > /proc/sys/net/ipv4/tcp_syncookies 2>&1 1>/dev/null''" "[]"]
  by (simp add: cmd_wf_simps lit_Cons)

lemma issues_unless: "fw_ok e w \<Longrightarrow> issues e w m cs \<Longrightarrow> issues e w (if P then Ret w else m) (if P then [] else cs)"
  by simp

lemma malicious_run_ok:
  assumes ok: "fw_ok e w" and mode: "known_mode (cfg w)"
  shows "issues e w (iptablesMaliciousFilterRun e w) (malicious_all e (cfg w))"
proof -
  obtain w1 where w1: "fw_get e w ''WANPingFilter'' = Ret (Some (sval w ''WANPingFilter''), w1)" "issued e w [] w1"
    using get_from [OF issued_refl [OF ok]] .
  obtain w2 where w2: "fw_get e w1 ''BlockPortScan'' = Ret (Some (sval w ''BlockPortScan''), w2)" "issued e w [] w2"
    using get_from [OF w1(2)] .
  obtain w3 where w3: "fw_get e w2 ''BlockSynFlood'' = Ret (Some (sval w ''BlockSynFlood''), w3)" "issued e w [] w3"
    using get_from [OF w2(2)] .
  have ping: "issues e w3 (run_wan e ''iptables -A %s -i %s -p icmp -j DROP'' w3) [wan_text e (cfg w) '' -p icmp -j DROP'']"
    using run_wan_ok [OF issued_ok [OF w3(2)], of "'' -p icmp -j DROP''"] mode issued_cfg [OF w3(2)] by (simp add: plain_def lit_Cons)
  have "issues e w3 (iptablesMaliciousFilterRun e w) (malicious_all e (cfg w))"
    unfolding iptablesMaliciousFilterRun_def malicious_all_def w1(1) w2(1) w3(1) obind.simps prod.case option.case
    by (intro issues_bind issues_unless issued_ok [OF w3(2)] ping issues_run_all [OF _ scan_rules_text(1), unfolded scan_rules_text(2)] syncookies_ok)
      (auto intro: issued_ok)
  then show ?thesis using issues_after [OF w3(2)] by fastforce
qed

lemma app_run_ok:
  assumes ok: "fw_ok e w"
  shows "issues e w (iptablesAppFilterRun e w) (app_all (cfg w))"
proof -
  obtain w1 where w1: "fw_get e w ''LimitMac'' = Ret (Some (sval w ''LimitMac''), w1)" "issued e w [] w1"
    using get_from [OF issued_refl [OF ok]] .
  have f: "lit ''iptables -I FORWARD -m mac --mac-source %s -j DROP'' = lit ''iptables -I FORWARD -m mac --mac-source '' @ lit ''%s'' @ lit '' -j DROP''"
    by (simp add: lit_Cons)
  have p: "plain (lit ''iptables -I FORWARD -m mac --mac-source '')" "plain (lit '' -j DROP'')" by (simp_all add: plain_def lit_Cons)
  have "issues e w' (app_entry e s w') (app_cmds s)" if "is_cstring s" "length s \<le> 255" "fw_ok e w'" for s w'
    using entry_cmd_ok [OF that(3,1,2) f p] that(3) by (simp add: app_entry_def app_cmds_def)
  then have "issues e w1 (iptablesAppFilterRun e w) (app_all (cfg w))"
    using w1(1) entries_issue [OF issued_ok [OF w1(2)] fw_cstring [OF ok], of "app_entry e" app_cmds "''LimitMac''"]
    by (simp add: iptablesAppFilterRun_def app_all_def)
  then show ?thesis using issues_after [OF w1(2)] by fastforce
qed

section \<open>Start-up\<close>

definition clear_filters :: "cstring list" where
  "clear_filters = map lit
     [''iptables -F -t filter 1>/dev/null 2>&1'',
      ''iptables -D FORWARD -j macipport_filter 1>/dev/null 2>&1'', ''iptables -F macipport_filter 1>/dev/null 2>&1'',
      ''iptables -D FORWARD -j web_filter  1>/dev/null 2>&1'', ''iptables -F web_filter  1>/dev/null 2>&1'',
      ''iptables -D FORWARD -j malicious_filter 1>/dev/null 2>&1'', ''iptables -F malicious_filter  1>/dev/null 2>&1'',
      ''iptables -D INPUT -j malicious_input_filter 1>/dev/null 2>&1'', ''iptables -F malicious_input_filter  1>/dev/null 2>&1'',
      ''iptables -P INPUT ACCEPT'', ''iptables -P OUTPUT ACCEPT'', ''iptables -P FORWARD ACCEPT'']"

definition filter_chains :: "cstring list" where
  "filter_chains = map lit
     [''iptables -t filter -N web_filter 1>/dev/null 2>&1'', ''iptables -t filter -N macipport_filter 1>/dev/null 2>&1'',
      ''iptables -t filter -N malicious_filter 1>/dev/null 2>&1'', ''iptables -t filter -N synflood_filter 1>/dev/null 2>&1'',
      ''iptables -t filter -N malicious_input_filter 1>/dev/null 2>&1'', ''iptables -t filter -N synflood_input_filter 1>/dev/null 2>&1'',
      ''iptables -t filter -A FORWARD -j web_filter 1>/dev/null 2>&1'', ''iptables -t filter -A FORWARD -j macipport_filter 1>/dev/null 2>&1'',
      ''iptables -t filter -A FORWARD -j malicious_filter 1>/dev/null 2>&1'',
      ''iptables -t filter -A malicious_filter -p tcp --syn -j synflood_filter 1>/dev/null 2>&1'',
      ''iptables -t filter -A INPUT -j malicious_input_filter 1>/dev/null 2>&1'',
      ''iptables -t filter -A malicious_input_filter -p tcp --syn -j synflood_input_filter 1>/dev/null 2>&1'',
      ''iptables -A FORWARD -p tcp --tcp-flags SYN,RST SYN -j TCPMSS --clamp-mss-to-pmtu 1>/dev/null 2>&1'']"

definition clear_nat :: "cstring list" where
  "clear_nat = map lit
     [''iptables -t nat -D PREROUTING -j port_forward 1>/dev/null 2>&1'',
      ''iptables -t nat -F port_forward  1>/dev/null 2>&1; iptables -t nat -X port_forward  1>/dev/null 2>&1'',
      ''iptables -t nat -D PREROUTING -j DMZ 1>/dev/null 2>&1'',
      ''iptables -t nat -F DMZ 1>/dev/null 2>&1; iptables -t nat -X DMZ  1>/dev/null 2>&1''] @ flush_conntrack"

definition nat_chains :: "cstring list" where
  "nat_chains = map lit
     [''iptables -t nat -N port_forward 1>/dev/null 2>&1; iptables -t nat -I PREROUTING 1 -j port_forward 1>/dev/null 2>&1'',
      ''iptables -t nat -N DMZ 1>/dev/null 2>&1; iptables -t nat -I PREROUTING 2 -j DMZ 1>/dev/null 2>&1'']"

lemma filter_setup_text: "list_all cmd_wf filter_setup" "map cmd_text filter_setup = filter_chains"
  by (simp_all add: filter_setup_def filter_chains_def cmd_wf_simps lit_Cons)

lemma nat_setup_text: "list_all cmd_wf nat_setup" "map cmd_text nat_setup = nat_chains"
  by (simp_all add: nat_setup_def nat_chains_def cmd_wf_simps lit_Cons)

text \<open>What \<open>run_all\<close> does with a list, when the texts are known.\<close>

lemma issues_fixed:
  assumes "fw_ok e w" and "list_all cmd_wf cs" and "map cmd_text cs = ts"
  shows "issues e w (run_all e cs w) ts"
  using issues_run_all [OF assms(1,2)] assms(3) by simp

lemma filter_clear_ok:
  assumes ok: "fw_ok e w"
  shows "issues e w (iptablesAllFilterClear e w) clear_filters"
proof -
  let ?c1 = "[lit ''iptables -F -t filter 1>/dev/null 2>&1'']"
  let ?c2 = "map lit [''iptables -D FORWARD -j macipport_filter 1>/dev/null 2>&1'', ''iptables -F macipport_filter 1>/dev/null 2>&1'']"
  let ?c3 = "map lit [''iptables -D FORWARD -j web_filter  1>/dev/null 2>&1'', ''iptables -F web_filter  1>/dev/null 2>&1'']"
  let ?c4 = "map lit [''iptables -D FORWARD -j malicious_filter 1>/dev/null 2>&1'', ''iptables -F malicious_filter  1>/dev/null 2>&1'',
      ''iptables -D INPUT -j malicious_input_filter 1>/dev/null 2>&1'', ''iptables -F malicious_input_filter  1>/dev/null 2>&1'']"
  let ?c5 = "map lit [''iptables -P INPUT ACCEPT'', ''iptables -P OUTPUT ACCEPT'', ''iptables -P FORWARD ACCEPT'']"
  have s: "issues e w' (iptablesForwardFilterClear e w') ?c1" "issues e w' (iptablesIPPortFilterClear e w') ?c2"
    "issues e w' (iptablesWebContentFilterClear e w') ?c3" "issues e w' (iptablesMaliciousFilterClear e w') ?c4"
    "issues e w' (run_all e [(''iptables -P INPUT ACCEPT'', []), (''iptables -P OUTPUT ACCEPT'', []), (''iptables -P FORWARD ACCEPT'', [])] w') ?c5"
    if "fw_ok e w'" for w'
    unfolding iptablesForwardFilterClear_def iptablesIPPortFilterClear_def iptablesWebContentFilterClear_def iptablesMaliciousFilterClear_def
    by (rule issues_fixed [OF that]; simp add: cmd_wf_simps lit_Cons)+
  have "issues e w (iptablesAllFilterClear e w) (?c1 @ ?c2 @ ?c3 @ ?c4 @ ?c5)"
    unfolding iptablesAllFilterClear_def by (intro issues_bind s ok) (auto intro: issued_ok)
  then show ?thesis by (simp add: clear_filters_def)
qed

lemma nat_clear_ok:
  assumes ok: "fw_ok e w"
  shows "issues e w (iptablesAllNATClear e w) clear_nat"
proof -
  let ?c1 = "map lit [''iptables -t nat -D PREROUTING -j port_forward 1>/dev/null 2>&1'',
      ''iptables -t nat -F port_forward  1>/dev/null 2>&1; iptables -t nat -X port_forward  1>/dev/null 2>&1'']"
  let ?c2 = "map lit [''iptables -t nat -D PREROUTING -j DMZ 1>/dev/null 2>&1'',
      ''iptables -t nat -F DMZ 1>/dev/null 2>&1; iptables -t nat -X DMZ  1>/dev/null 2>&1'']"
  have s: "issues e w' (iptablesPortForwardClear e w') ?c1" "issues e w' (iptablesDMZClear e w') ?c2" if "fw_ok e w'" for w'
    unfolding iptablesPortForwardClear_def iptablesDMZClear_def
    by (rule issues_fixed [OF that]; simp add: cmd_wf_simps lit_Cons)+
  have "issues e w (iptablesAllNATClear e w) (?c1 @ ?c2 @ flush_conntrack)"
    unfolding iptablesAllNATClear_def by (intro issues_bind s ok flushes_issue) (auto intro: issued_ok)
  then show ?thesis by (simp add: clear_nat_def)
qed

text \<open>The settings under which every function of the start-up is safe.\<close>

definition startup_ok :: "(cstring \<times> cstring) list \<Rightarrow> bool" where
  "startup_ok kvs = (known_mode kvs \<and> dmz_safe kvs
     \<and> plain (setting kvs (lit ''PortForwardRules'')) \<and> plain (setting kvs (lit ''SinglePortForwardRules''))
     \<and> list_all filter_known (records 256 (setting kvs (lit ''IPPortFilterRules''))))"

definition startup_filters :: "fenv \<Rightarrow> (cstring \<times> cstring) list \<Rightarrow> cstring list" where
  "startup_filters e kvs = filter_all kvs @ web_all kvs @ remote_all e kvs @ malicious_all e kvs @ app_all kvs"

definition startup_nat :: "fenv \<Rightarrow> (cstring \<times> cstring) list \<Rightarrow> cstring list" where
  "startup_nat e kvs = forward_all e kvs @ single_all e kvs @ dmz_all e kvs"

lemma all_filter_run_ok:
  assumes ok: "fw_ok e w" and s: "startup_ok (cfg w)"
  shows "issues e w (iptablesAllFilterRun e w) (startup_filters e (cfg w))"
  unfolding iptablesAllFilterRun_def startup_filters_def
proof (intro issues_bind)
  show "issues e w (iptablesIPPortFilterRun e w) (filter_all (cfg w))"
    using s by (intro filter_run_ok ok) (simp_all add: startup_ok_def list_all_iff)
  fix w1 cs assume w1: "issued e w cs w1"
  note c1 = issued_ok [OF w1] issued_cfg [OF w1]
  show "issues e w1 (iptablesWebsFilterRun e w1) (web_all (cfg w))" using webs_run_ok c1 by metis
  fix w2 cs assume w2: "issued e w1 cs w2"
  note c2 = issued_ok [OF w2] issued_cfg [OF w2, unfolded c1(2)]
  show "issues e w2 (iptablesRemoteManagementRun e w2) (remote_all e (cfg w))"
    using remote_run_ok [of e w2] c2 s by (simp add: startup_ok_def)
  fix w3 cs assume w3: "issued e w2 cs w3"
  note c3 = issued_ok [OF w3] issued_cfg [OF w3, unfolded c2(2)]
  show "issues e w3 (iptablesMaliciousFilterRun e w3) (malicious_all e (cfg w))"
    using malicious_run_ok [of e w3] c3 s by (simp add: startup_ok_def)
  fix w4 cs assume w4: "issued e w3 cs w4"
  show "issues e w4 (iptablesAppFilterRun e w4) (app_all (cfg w))"
    using app_run_ok [OF issued_ok [OF w4]] issued_cfg [OF w4, unfolded c3(2)] by simp
qed

lemma all_nat_run_ok:
  assumes ok: "fw_ok e w" and s: "startup_ok (cfg w)"
  shows "issues e w (iptablesAllNATRun e w) (startup_nat e (cfg w))"
  unfolding iptablesAllNATRun_def startup_nat_def
proof (intro issues_bind)
  show "issues e w (iptablesPortForwardRun e w) (forward_all e (cfg w))"
    using s by (intro forward_run_ok ok) (simp_all add: startup_ok_def)
  fix w1 cs assume w1: "issued e w cs w1"
  note c1 = issued_ok [OF w1] issued_cfg [OF w1]
  show "issues e w1 (iptablesSinglePortForwardRun e w1) (single_all e (cfg w))"
    using single_run_ok [of e w1] c1 s by (simp add: startup_ok_def)
  fix w2 cs assume w2: "issued e w1 cs w2"
  note c2 = issued_ok [OF w2] issued_cfg [OF w2, unfolded c1(2)]
  show "issues e w2 (iptablesDMZRun e w2) (dmz_all e (cfg w))"
    using dmz_run_ok [of e w2] c2 s by (simp add: startup_ok_def)
qed

definition startup_cmds :: "fenv \<Rightarrow> (cstring \<times> cstring) list \<Rightarrow> cstring list" where
  "startup_cmds e kvs = clear_filters @ filter_chains @ startup_filters e kvs @ clear_nat @ nat_chains
     @ startup_nat e kvs @ [lit ''vpn-passthru.sh'']"

lemma firewall_init_ok:
  assumes ok: "fw_ok e w" and s: "startup_ok (cfg w)"
  shows "issues e w (firewall_init e w) (startup_cmds e (cfg w))"
  unfolding firewall_init_def startup_cmds_def
proof (intro issues_bind filter_clear_ok ok)
  fix w1 cs assume w1: "issued e w cs w1"
  show "issues e w1 (run_all e filter_setup w1) filter_chains"
    using issues_run_all [OF issued_ok [OF w1] filter_setup_text(1)] unfolding filter_setup_text(2) .
  fix w2 cs assume w2: "issued e w1 cs w2"
  note c2 = issued_ok [OF w2] issued_cfg [OF w2, unfolded issued_cfg [OF w1]]
  show "issues e w2 (iptablesAllFilterRun e w2) (startup_filters e (cfg w))" using all_filter_run_ok [OF c2(1)] c2(2) s by simp
  fix w3 cs assume w3: "issued e w2 cs w3"
  show "issues e w3 (iptablesAllNATClear e w3) clear_nat" by (rule nat_clear_ok [OF issued_ok [OF w3]])
  fix w4 cs assume w4: "issued e w3 cs w4"
  show "issues e w4 (run_all e nat_setup w4) nat_chains"
    using issues_run_all [OF issued_ok [OF w4] nat_setup_text(1)] unfolding nat_setup_text(2) .
  fix w5 cs assume w5: "issued e w4 cs w5"
  note c5 = issued_ok [OF w5] issued_cfg [OF w5, unfolded issued_cfg [OF w4] issued_cfg [OF w3] c2(2)]
  show "issues e w5 (iptablesAllNATRun e w5) (startup_nat e (cfg w))" using all_nat_run_ok [OF c5(1)] c5(2) s by simp
  fix w6 cs assume w6: "issued e w5 cs w6"
  show "issues e w6 (run1 e ''vpn-passthru.sh'' [] w6) [lit ''vpn-passthru.sh'']"
    using issues_run1 [OF issued_ok [OF w6], of "''vpn-passthru.sh''" "[]"] by (simp add: cmd_wf_simps lit_Cons)
qed

text \<open>C14: \<open>firewall_init\<close> returns, changes no setting, and runs exactly these commands in this order: the
  filter chains are cleared, made and hooked in, then filled (packet filter, content filter,
  remote management, malicious packets, blocked devices); then the same for the NAT chains, the
  port forwarding in front of the DMZ; at last the pass-through script. The URL and host rules are run whatever the switch of their page says.
  The settings are those under which no command goes wrong: a known operation mode, no super DMZ, a DMZ address of at most 380 characters, no percent
  sign in it or in the forwarding rules, and filter rules of known protocol and action.\<close>

theorem firewall_init_commands:
  assumes "fw_ok e w" and "startup_ok (cfg w)"
  shows "\<exists>w'. firewall_init e w = Ret w' \<and> cfg w' = cfg w \<and> stored_cfg w' = stored_cfg w
    \<and> fcmds w' = fcmds w @ clear_filters @ filter_chains
        @ filter_all (cfg w) @ web_all (cfg w) @ remote_all e (cfg w) @ malicious_all e (cfg w) @ app_all (cfg w)
        @ clear_nat @ nat_chains @ forward_all e (cfg w) @ single_all e (cfg w) @ dmz_all e (cfg w)
        @ [lit ''vpn-passthru.sh'']"
proof -
  obtain w' where "firewall_init e w = Ret w'" "issued e w (startup_cmds e (cfg w)) w'"
    using firewall_init_ok [OF assms] by (auto simp: issues_def)
  then show ?thesis by (auto simp: issued_def startup_cmds_def startup_filters_def startup_nat_def)
qed

lemma demo_startup: "startup_ok demo_cfg"
  using demo_settings by (simp add: startup_ok_def demo_setting plain_def records_def filter_known_Nil)

lemma demo_ifname: "wan_ifname demo_fenv demo_cfg = lit ''eth2.2''"
  by (simp add: wan_ifname_def mode_ifname_def demo_setting demo_fenv_def Let_def) (simp add: lit_Cons)

text \<open>A router with a rule of nearly every kind, set one by one.\<close>

fun fw_sets :: "fenv \<Rightarrow> fw \<Rightarrow> (string \<times> string) list \<Rightarrow> fw outcome" where
  "fw_sets e w [] = Ret w"
| "fw_sets e w ((n, v) # vs) = obind (fw_set e w n (lit v)) (\<lambda>w. fw_sets e w vs)"

definition lits :: "(string \<times> string) list \<Rightarrow> (cstring \<times> cstring) list" where
  "lits vs = map (\<lambda>(n, v). (lit n, lit v)) vs"

lemma setting_lits: "setting (lits vs) (lit n) = (case map_of vs n of None \<Rightarrow> [] | Some v \<Rightarrow> lit v)"
proof -
  have "map_of (lits vs) (lit n) = map_option lit (map_of vs n)" by (induction vs) (auto simp: lits_def)
  then show ?thesis by (simp add: setting_def split: option.split)
qed

lemma fw_sets_ok:
  assumes "fw_ok e w" and "cfg w = lits us" and "distinct (map fst (us @ vs))" and "\<And>k. fits (lits (us @ take k vs))"
  shows "\<exists>w'. fw_sets e w vs = Ret w' \<and> fw_ok e w' \<and> cfg w' = lits (us @ vs) \<and> fcmds w' = fcmds w"
  using assms
proof (induction vs arbitrary: us w)
  case (Cons nv vs)
  obtain n v where nv: "nv = (n, v)" by fastforce
  have "lit n \<notin> set (map fst (lits us))" using Cons.prems(3) by (force simp: nv lits_def)
  then have "AList.update (lit n) (lit v) (cfg w) = lits (us @ [nv])" unfolding Cons.prems(2) by (simp add: update_new lits_def nv)
  moreover have "fits (lits (us @ [nv]))" using Cons.prems(4) [of 1] by simp
  ultimately obtain w1 where w1: "fw_set e w n (lit v) = Ret w1" "became e w (lits (us @ [nv])) w1"
    using fw_set_ok [OF Cons.prems(1), of _ n "lit v"] by fastforce
  have "fits (lits ((us @ [nv]) @ take k vs))" for k using Cons.prems(4) [of "Suc k"] by simp
  then have "\<exists>w'. fw_sets e w1 vs = Ret w' \<and> fw_ok e w' \<and> cfg w' = lits ((us @ [nv]) @ vs) \<and> fcmds w' = fcmds w1"
    using Cons.prems(3) became_ok [OF w1(2)] by (intro Cons.IH) simp_all
  then show ?case using w1 by (auto simp: nv became_def)
qed auto

definition busy :: "(string \<times> string) list" where
  "busy = [(''OperationMode'', ''1''), (''websFilterJava'', ''1''), (''websFilterProxy'', ''1''), (''websHostFilters'', ''bad''),
     (''IPPortFilterEnable'', ''1''), (''IPPortFilterRules'', ''any,0,0,0,any,0,0,0,4,0,,''), (''BlockSynFlood'', ''1''),
     (''LimitMac'', ''00:11:22:33:44:55''), (''PortForwardEnable'', ''1''), (''PortForwardRules'', ''192.168.1.2,80,90,1,''),
     (''DMZEnable'', ''1''), (''DMZAddress'', ''192.168.1.9'')]"

lemma busy_fits: "fits (lits ([] @ take k busy))"
proof -
  have kv: "\<forall>kv \<in> set (lits busy). kv_ok kv" by (simp add: busy_def lits_def kv_ok_def lit_Cons)
  have "length (env_text (lits (take k vs))) \<le> length (env_text (lits vs))" for vs
    by (induction vs arbitrary: k) (auto simp: lits_def env_text_def take_Cons' split: nat.split)
  then have "length (env_text (lits (take k busy))) \<le> length (env_text (lits busy))" .
  moreover have "length (env_text (lits busy)) < 500" by (simp add: busy_def lits_def env_text_def)
  moreover have "length busy = 12" by (simp add: busy_def)
  ultimately show ?thesis using kv set_take_subset [of k busy] by (auto simp: fits_def storable_def layout_def lits_def)
qed

lemma busy_setting: "setting (lits busy) (lit n) = (case map_of busy n of None \<Rightarrow> [] | Some v \<Rightarrow> lit v)"
  by (rule setting_lits)

lemma records_single: "SEMI \<notin> set t \<Longrightarrow> length t \<le> 255 \<Longrightarrow> records 256 t = [t]"
  by (simp add: records_def parts_simple)

lemma busy_parts:
  "records 256 (lit ''bad'') = [lit ''bad'']" "records 256 (lit ''00:11:22:33:44:55'') = [lit ''00:11:22:33:44:55'']"
  "records 256 (lit ''192.168.1.2,80,90,1,'') = [lit ''192.168.1.2,80,90,1,'']"
  "records 256 (lit ''any,0,0,0,any,0,0,0,4,0,,'') = [lit ''any,0,0,0,any,0,0,0,4,0,,'']" "records 256 [] = [[]]"
  by (auto intro!: records_single simp: lit_Cons)

lemma busy_fields:
  "parts COMMA (lit ''192.168.1.2,80,90,1,'') = [lit ''192.168.1.2'', lit ''80'', lit ''90'', lit ''1'', []]"
  "parts COMMA (lit ''any,0,0,0,any,0,0,0,4,0,,'')
    = [lit ''any'', lit ''0'', lit ''0'', lit ''0'', lit ''any'', lit ''0'', lit ''0'', lit ''0'', lit ''4'', lit ''0'', [], []]"
proof -
  have "lit ''any,0,0,0,any,0,0,0,4,0,,'' = filter_text (lit ''any'') 0 0 (lit ''any'') 0 0 4 0 [] []"
    by (simp add: filter_text_def small_number lit_Cons)
  moreover have "COMMA \<notin> set (lit ''any'')" "COMMA \<notin> set []" "fmt_d 0 = lit ''0''" "fmt_d 4 = lit ''4''" by (simp_all add: lit_Cons small_number)
  ultimately show "parts COMMA (lit ''any,0,0,0,any,0,0,0,4,0,,'')
    = [lit ''any'', lit ''0'', lit ''0'', lit ''0'', lit ''any'', lit ''0'', lit ''0'', lit ''0'', lit ''4'', lit ''0'', [], []]"
    using filter_text_fields [of "lit ''any''" "lit ''any''" "[]" "[]" 0 0 0 0 4 0] by simp
  have "lit ''192.168.1.2,80,90,1,'' = forward_text (lit ''192.168.1.2'') 80 90 1 []"
    by (simp add: forward_text_def demo_numbers lit_Cons)
  then show "parts COMMA (lit ''192.168.1.2,80,90,1,'') = [lit ''192.168.1.2'', lit ''80'', lit ''90'', lit ''1'', []]"
    using forward_text_parts [of "lit ''192.168.1.2''" "[]" 80 90 1] demo_address(3) by (simp add: demo_numbers)
qed

lemma busy_numbers: "atoi (lit ''1'') = 1" "atoi (lit ''0'') = 0" "atoi (lit ''4'') = 4"
  by (simp_all add: atoi_def lit_Cons isspace_def isdigit_def)

lemma busy_startup: "startup_ok (lits busy)"
proof -
  have "filter_known (lit ''any,0,0,0,any,0,0,0,4,0,,'')" by (simp add: filter_known_def busy_fields busy_numbers Let_def)
  moreover have "plain (lit ''192.168.1.2,80,90,1,'')" "plain (lit ''192.168.1.9'')" "plain []" by (simp_all add: plain_def lit_Cons)
  ultimately show ?thesis
    by (simp add: startup_ok_def known_mode_def dmz_safe_def busy_setting busy_parts busy_numbers) (simp add: busy_def busy_parts busy_numbers)
qed

lemma busy_ifname: "wan_ifname demo_fenv (lits busy) = lit ''eth2.2''"
  by (simp add: wan_ifname_def mode_ifname_def busy_setting demo_fenv_def Let_def) (simp add: busy_def lit_Cons)

lemma busy_values:
  "setting (lits busy) (lit ''websHostFilters'') = lit ''bad''" "setting (lits busy) (lit ''websURLFilters'') = []"
  "setting (lits busy) (lit ''IPPortFilterEnable'') = lit ''1''" "setting (lits busy) (lit ''IPPortFilterRules'') = lit ''any,0,0,0,any,0,0,0,4,0,,''"
  "setting (lits busy) (lit ''BlockSynFlood'') = lit ''1''" "setting (lits busy) (lit ''LimitMac'') = lit ''00:11:22:33:44:55''"
  "setting (lits busy) (lit ''PortForwardEnable'') = lit ''1''" "setting (lits busy) (lit ''PortForwardRules'') = lit ''192.168.1.2,80,90,1,''"
  "setting (lits busy) (lit ''DMZEnable'') = lit ''1''" "setting (lits busy) (lit ''DMZAddress'') = lit ''192.168.1.9''"
  "setting (lits busy) (lit ''OperationMode'') = lit ''1''" "setting (lits busy) (lit ''RemoteManagement'') = []"
  "setting (lits busy) (lit ''SPIFWEnabled'') = []" "setting (lits busy) (lit ''DefaultFirewallPolicy'') = []"
  "setting (lits busy) (lit ''WANPingFilter'') = []" "setting (lits busy) (lit ''BlockPortScan'') = []"
  "setting (lits busy) (lit ''SinglePortForwardEnable'') = []" "setting (lits busy) (lit ''DMZAvoidTCPPort80'') = []"
  "setting (lits busy) (lit ''websFilterJava'') = lit ''1''" "setting (lits busy) (lit ''websFilterProxy'') = lit ''1''"
  "setting (lits busy) (lit ''websFilterActivex'') = []" "setting (lits busy) (lit ''websFilterCookies'') = []"
  unfolding busy_setting by (simp_all add: busy_def)

text \<open>The Java and the proxy bit; the expected commands are written out.\<close>

definition busy_filters :: "cstring list" where
  "busy_filters = map lit
    [''iptables -A macipport_filter -s any -d any -p icmp -j DROP'', ''iptables -t filter -A macipport_filter -j ACCEPT'',
     ''iptables -A web_filter -p tcp -m tcp --dport 80   -m webstr --content 9 -j REJECT --reject-with tcp-reset'',
     ''iptables -A web_filter -p tcp -m tcp --dport 3128 -m webstr --content 9 -j REJECT --reject-with tcp-reset'',
     ''iptables -A web_filter -p tcp -m tcp --dport 8080 -m webstr --content 9 -j REJECT --reject-with tcp-reset'',
     ''iptables -A web_filter -p tcp -m tcp -m webstr --host bad -j REJECT --reject-with tcp-reset'',
     ''iptables -A malicious_input_filter -i eth2.2 -p tcp --dport 80 -j DROP'',
     ''echo 1 > /proc/sys/net/ipv4/tcp_syncookies 2>&1 1>/dev/null'',
     ''iptables -I FORWARD -m mac --mac-source 00:11:22:33:44:55 -j DROP'']"

definition busy_nat :: "cstring list" where
  "busy_nat = map lit
    [''iptables -t nat -A port_forward -j DNAT -d 10.0.0.1 -p tcp --dport 80:90 --to 192.168.1.2 '',
     ''iptables -t nat -A DMZ -j DNAT -i eth2.2 --to 192.168.1.9;iptables -t nat -A DMZ -j DNAT -i eth2.2 -p tcp --to 192.168.1.9'']"

lemma busy_filter_texts:
  "filter_all (lits busy) = take 2 busy_filters" "web_all (lits busy) = take 4 (drop 2 busy_filters)"
  "remote_all demo_fenv (lits busy) = take 1 (drop 6 busy_filters)" "malicious_all demo_fenv (lits busy) = take 1 (drop 7 busy_filters)"
  "app_all (lits busy) = drop 8 busy_filters"
proof -
  have 9: "fmt_d 9 = lit ''9''" "blocked_contents (lits busy) = 9"
    by (simp add: fmt_d_def print_base_eval digit_def lit_Cons, simp add: blocked_contents_def busy_values, simp add: lit_Cons)
  have any: "net_valid (lit ''any'')" by (simp add: net_valid_def)
  show "filter_all (lits busy) = take 2 busy_filters"
    unfolding filter_all_def busy_values busy_parts Let_def
    by (simp add: filter_cmds_def busy_fields busy_numbers Let_def any filter_pieces_def filter_head_def filter_proto_def busy_filters_def) (simp add: lit_Cons)
  show "web_all (lits busy) = take 4 (drop 2 busy_filters)"
    unfolding web_all_def busy_values busy_parts Let_def 9(2)
    by (simp add: content_text_def 9(1) url_cmds_def host_cmds_def busy_filters_def) (simp add: lit_Cons)
  show "remote_all demo_fenv (lits busy) = take 1 (drop 6 busy_filters)"
    unfolding remote_all_def busy_values by (simp add: wan_text_def busy_ifname busy_filters_def) (simp add: lit_Cons)
  show "malicious_all demo_fenv (lits busy) = take 1 (drop 7 busy_filters)"
    unfolding malicious_all_def busy_values by (simp add: busy_numbers busy_filters_def)
  show "app_all (lits busy) = drop 8 busy_filters"
    unfolding app_all_def busy_values busy_parts by (simp add: app_cmds_def busy_filters_def) (simp add: lit_Cons)
qed

lemma busy_nat_texts: "forward_all demo_fenv (lits busy) = take 1 busy_nat" "single_all demo_fenv (lits busy) = []" "dmz_all demo_fenv (lits busy) = drop 1 busy_nat"
proof -
  have a: "fe_addr demo_fenv n = Some 0x0A000001" for n by (simp add: demo_fenv_def)
  show "forward_all demo_fenv (lits busy) = take 1 busy_nat"
    unfolding forward_all_def busy_values busy_parts a
    by (simp add: forward_cmds_def busy_fields busy_numbers demo_numbers demo_address Let_def forward_protos_def forward_cmd_def port_range_def demo_wan busy_nat_def)
      (simp add: lit_Cons)
  show "single_all demo_fenv (lits busy) = []" unfolding single_all_def busy_values by simp
  show "dmz_all demo_fenv (lits busy) = drop 1 busy_nat"
    unfolding dmz_all_def busy_values by (simp add: busy_numbers dmz_cmd_def busy_ifname busy_nat_def) (simp add: lit_Cons)
qed

theorem firewall_init_commands_witness:
  "\<exists>s w w'. lib_nvram_init demo_env demo_lib 0 = Ret s \<and> fw_sets demo_fenv (demo_fw s) busy = Ret w
    \<and> firewall_init demo_fenv w = Ret w' \<and> fcmds w' = clear_filters @ filter_chains @ busy_filters @ clear_nat @ nat_chains @ busy_nat @ [lit ''vpn-passthru.sh'']"
proof -
  obtain s where s: "lib_nvram_init demo_env demo_lib 0 = Ret s" "lib_ok demo_env 0 s" "ram (lk s) 0 = []" by (rule demo_attach)
  have ok: "fw_ok demo_fenv (demo_fw s)" "cfg (demo_fw s) = lits []" "fcmds (demo_fw s) = []"
    using s by (simp_all add: fw_ok_def demo_fenv_def demo_fw_def demo_web_def lits_def)
  have "distinct (map fst ([] @ busy))" by (simp add: busy_def)
  from fw_sets_ok [OF ok(1,2) this busy_fits] obtain w where w: "fw_sets demo_fenv (demo_fw s) busy = Ret w" "fw_ok demo_fenv w" "cfg w = lits busy" "fcmds w = []"
    using ok(3) by auto
  have b: "take 2 busy_filters @ take 4 (drop 2 busy_filters) @ take 1 (drop 6 busy_filters) @ take 1 (drop 7 busy_filters) @ drop 8 busy_filters = busy_filters"
    "take 1 busy_nat @ drop 1 busy_nat = busy_nat" by (simp_all add: busy_filters_def busy_nat_def)
  have "startup_ok (cfg w)" using w(3) busy_startup by simp
  from firewall_init_commands [OF w(2) this] obtain w' where w': "firewall_init demo_fenv w = Ret w'"
    "fcmds w' = clear_filters @ filter_chains @ (take 2 busy_filters @ take 4 (drop 2 busy_filters) @ take 1 (drop 6 busy_filters) @ take 1 (drop 7 busy_filters)
      @ drop 8 busy_filters) @ clear_nat @ nat_chains @ (take 1 busy_nat @ drop 1 busy_nat) @ [lit ''vpn-passthru.sh'']"
    unfolding w(3) busy_filter_texts busy_nat_texts by (auto simp: w(4))
  then show ?thesis unfolding b using s(1) w(1) by blast
qed
section \<open>A content filter that was switched off\<close>

text \<open>The form \<open>websURLBasicSettings\<close> with the filter off empties the chain and stores the setting; at
  the next start \<open>firewall_init\<close> does not look at it and blocks every listed URL again.\<close>

theorem url_filter_returns:
  assumes ok: "fw_ok e w" and s: "startup_ok (cfg w)" and off: "atoi (form_var q ''webURLEnabled'' '''') = 0"
    and fit: "fits (AList.update (lit ''websURLFilterEnabled'') (lit ''0'') (cfg w))"
    and url: "u \<in> set (records 256 (sval w ''websURLFilters''))" "u \<noteq> []"
  shows "\<exists>w1 w2. websURLBasicSettings e q w = Ret w1 \<and> sval w1 ''websURLFilterEnabled'' = lit ''0''
    \<and> fcmds w1 = fcmds w @ [lit ''iptables -t filter -F web_filter'']
    \<and> firewall_init e w1 = Ret w2 \<and> (\<exists>cs. fcmds w2 = fcmds w1 @ cs \<and> set (url_cmds u) \<subseteq> set cs \<and> url_cmds u \<noteq> [])"
proof -
  let ?kvs = "AList.update (lit ''websURLFilterEnabled'') (lit ''0'') (cfg w)"
  obtain w1 where w1: "fw_set e w ''websURLFilterEnabled'' (lit ''0'') = Ret w1" "became e w ?kvs w1"
    using fw_set_ok [OF ok refl fit] by blast
  obtain w2 where w2: "fw_commit e w1 = Ret w2" "became e w1 ?kvs w2"
    using fw_commit_ok [of e w1] became_ok [OF w1(2)] fit by auto
  note b = became_ok [OF w2(2)]
  have "issues e w2 (run1 e ''iptables -t filter -F web_filter'' [] w2) [lit ''iptables -t filter -F web_filter'']"
    using issues_run1 [of e w2 "''iptables -t filter -F web_filter''" "[]"] b by (simp add: cmd_wf_simps lit_Cons)
  then obtain w3 where w3: "run1 e ''iptables -t filter -F web_filter'' [] w2 = Ret w3"
    "issued e w2 [lit ''iptables -t filter -F web_filter''] w3" by (auto simp: issues_def)
  let ?w = "answer (Redirect (form_var q ''submit-url'' '''')) w3"
  have form: "websURLBasicSettings e q w = Ret ?w"
    using w1(1) w2(1) w3(1) off by (simp add: websURLBasicSettings_def Let_def redirect_def)
  have c: "cfg ?w = ?kvs" "fw_ok e ?w" "fcmds ?w = fcmds w @ [lit ''iptables -t filter -F web_filter'']"
    using w3(2) w2(2) w1(2) b by (auto simp: answer_def issued_def became_def fw_ok_def)
  have "startup_ok ?kvs" using s by (simp add: startup_ok_def known_mode_def dmz_safe_def setting_update)
  then obtain w4 where w4: "firewall_init e ?w = Ret w4" "issued e ?w (startup_cmds e ?kvs) w4"
    using firewall_init_ok [OF c(2)] c(1) by (auto simp: issues_def)
  have "set (url_cmds u) \<subseteq> set (web_all ?kvs)" using url(1) by (auto simp: web_all_def Let_def setting_update)
  then have "set (url_cmds u) \<subseteq> set (startup_cmds e ?kvs)" by (auto simp: startup_cmds_def startup_filters_def)
  moreover have "url_cmds u \<noteq> []" using url(2) by (simp add: url_cmds_def)
  moreover have "fcmds w4 = fcmds ?w @ startup_cmds e ?kvs" using w4(2) by (simp add: issued_def)
  moreover have "sval ?w ''websURLFilterEnabled'' = lit ''0''" using c(1) by (simp add: setting_update)
  ultimately show ?thesis using form c(3) w4(1) by blast
qed

theorem url_filter_returns_witness:
  "\<exists>s w0 w w1 w2. lib_nvram_init demo_env demo_lib 0 = Ret s \<and> fw_set demo_fenv (demo_fw s) ''OperationMode'' (lit ''1'') = Ret w0
    \<and> fw_set demo_fenv w0 ''websURLFilters'' (lit ''http://a.b'') = Ret w
    \<and> websURLBasicSettings demo_fenv (demo_query [(''webURLEnabled'', ''0'')]) w = Ret w1 \<and> firewall_init demo_fenv w1 = Ret w2
    \<and> lit ''iptables -A web_filter -p tcp -m tcp -m webstr --url  a.b -j REJECT --reject-with tcp-reset'' \<in> set (fcmds w2)"
proof -
  let ?u = "lit ''http://a.b''"
  have kv: "kv_ok (lit ''OperationMode'', lit ''1'')" "kv_ok (lit ''websURLFilters'', ?u)" "kv_ok (lit ''websURLFilterEnabled'', lit ''0'')"
    by (simp_all add: kv_ok_def lit_Cons)
  have fit: "fits (AList.update (lit ''websURLFilters'') ?u demo_cfg)"
    "fits (AList.update (lit ''websURLFilterEnabled'') (lit ''0'') (AList.update (lit ''websURLFilters'') ?u demo_cfg))"
    using kv by (simp_all add: demo_cfg_def fits_def storable_def layout_def env_text_def)
  obtain s w0 w where w: "lib_nvram_init demo_env demo_lib 0 = Ret s"
    "fw_set demo_fenv (demo_fw s) ''OperationMode'' (lit ''1'') = Ret w0" "fw_set demo_fenv w0 ''websURLFilters'' ?u = Ret w"
    "fw_ok demo_fenv w" "cfg w = AList.update (lit ''websURLFilters'') ?u demo_cfg" "fcmds w = []" "freply w = []"
    by (rule demo_state [OF fit(1)])
  have "parts SEMI ?u = [?u]" by (rule parts_simple) (simp add: lit_Cons)
  then have u: "?u \<in> set (records 256 (sval w ''websURLFilters''))" by (simp add: w(5) setting_update records_def)
  have st: "startup_ok (cfg w)"
    using demo_startup by (simp add: w(5) startup_ok_def known_mode_def dmz_safe_def setting_update)
  have c: "url_cmds ?u = [lit ''iptables -A web_filter -p tcp -m tcp -m webstr --url  a.b -j REJECT --reject-with tcp-reset'']"
    by (simp add: url_cmds_def lit_Cons strncaseeq_def tolower_def strneq_def)
  from url_filter_returns [OF w(4) st _ _ u, of "demo_query [(''webURLEnabled'', ''0'')]"] fit(2) w
  show ?thesis unfolding c by (auto simp: w(5))
qed

end
