(* ===== verification/FwPages.thy ===== *)
theory FwPages
  imports FwInit
begin

text \<open>
  The script functions of the firewall pages (\<open>user/goahead/src_tongyong/firewall.c\<close>): the switches, the
  numbers of rules and the three tables of rules with their check boxes. The tables of the
  forwarding rules come from loops that always end; the loop of the filter table does not go on to
  the next rule when it meets an unknown protocol, and is a partial function here.
\<close>

section \<open>Switches and numbers\<close>

text \<open>\<open>ejArgs\<close> with the format \<open>%d\<close> and one argument (\<open>ejparse.c\<close>).\<close>

definition ejArgs_int :: "cstring list \<Rightarrow> int option" where
  "ejArgs_int argv = (case argv of [] \<Rightarrow> None | a # _ \<Rightarrow> Some (atoi a))"

definition switch_value :: "cstring option \<Rightarrow> int" where
  "switch_value pfe = (case pfe of None \<Rightarrow> 0 | Some pfe \<Rightarrow> atoi pfe)"

definition switch_asp :: "fenv \<Rightarrow> string \<Rightarrow> cstring list \<Rightarrow> fw \<Rightarrow> (int \<times> fw) outcome" where
  "switch_asp e name argv w =
     obind (fw_get e w name) (\<lambda>(pfe, w).
     case ejArgs_int argv of None \<Rightarrow> Ret (- 1, w) | Some type \<Rightarrow>
     obind (fw_write e w (if type = switch_value pfe then lit ''selected'' else lit '' '') []) (\<lambda>w. Ret (0, w)))"

definition getWebURLEnableASP :: "fenv \<Rightarrow> cstring list \<Rightarrow> fw \<Rightarrow> (int \<times> fw) outcome" where
  "getWebURLEnableASP e = switch_asp e ''websURLFilterEnabled''"

definition getPortForwardEnableASP :: "fenv \<Rightarrow> cstring list \<Rightarrow> fw \<Rightarrow> (int \<times> fw) outcome" where
  "getPortForwardEnableASP e = switch_asp e ''PortForwardEnable''"

definition getSinglePortForwardEnableASP :: "fenv \<Rightarrow> cstring list \<Rightarrow> fw \<Rightarrow> (int \<times> fw) outcome" where
  "getSinglePortForwardEnableASP e = switch_asp e ''SinglePortForwardEnable''"

definition getIPPortFilterEnableASP :: "fenv \<Rightarrow> cstring list \<Rightarrow> fw \<Rightarrow> (int \<times> fw) outcome" where
  "getIPPortFilterEnableASP e = switch_asp e ''IPPortFilterEnable''"

definition getDefaultFirewallPolicyASP :: "fenv \<Rightarrow> cstring list \<Rightarrow> fw \<Rightarrow> (int \<times> fw) outcome" where
  "getDefaultFirewallPolicyASP e argv w =
     obind (fw_get e w ''DefaultFirewallPolicy'') (\<lambda>(p, w).
     case ejArgs_int argv of None \<Rightarrow> Ret (- 1, w) | Some v \<Rightarrow>
     obind (if switch_value p = v then fw_write e w (lit '' selected '') [] else Ret w) (\<lambda>w. Ret (0, w)))"

definition checkIfUnderBridgeModeASP :: "fenv \<Rightarrow> fw \<Rightarrow> (int \<times> fw) outcome" where
  "checkIfUnderBridgeModeASP e w =
     obind (fw_get e w ''OperationMode'') (\<lambda>(mode, w).
     case mode of None \<Rightarrow> Ret (- 1, w) | Some mode \<Rightarrow>
     obind (if atoi mode = 0 then fw_write e w (lit ''<img src=\"/graphics/warning.gif\"><font color=#ff0000>&nbsp; &nbsp;Warning: The current operation mode is \"Bridge mode\" and these settings may not be functional.</font>'') []
            else Ret w) (\<lambda>w. Ret (0, w)))"

definition rule_nums_asp :: "fenv \<Rightarrow> string \<Rightarrow> fw \<Rightarrow> (int \<times> fw) outcome" where
  "rule_nums_asp e name w =
     obind (fw_get e w name) (\<lambda>(rules, w).
     obind (if rules = None \<or> the rules = [] then fw_write e w (lit ''0'') []
            else fw_write e w (lit ''%d'') [AInt (of_int (getRuleNums rules))]) (\<lambda>w. Ret (0, w)))"

definition getPortForwardRuleNumsASP :: "fenv \<Rightarrow> fw \<Rightarrow> (int \<times> fw) outcome" where
  "getPortForwardRuleNumsASP e = rule_nums_asp e ''PortForwardRules''"

definition getSinglePortForwardRuleNumsASP :: "fenv \<Rightarrow> fw \<Rightarrow> (int \<times> fw) outcome" where
  "getSinglePortForwardRuleNumsASP e = rule_nums_asp e ''SinglePortForwardRules''"

definition getIPPortRuleNumsASP :: "fenv \<Rightarrow> fw \<Rightarrow> (int \<times> fw) outcome" where
  "getIPPortRuleNumsASP e = rule_nums_asp e ''IPPortFilterRules''"

section \<open>Tables of rules\<close>

text \<open>The cells of a row: calls of \<open>websWrite\<close> one after the other.\<close>

primrec put_cells :: "fenv \<Rightarrow> (byte list \<times> farg list) list \<Rightarrow> fw \<Rightarrow> fw outcome" where
  "put_cells e [] w = Ret w"
| "put_cells e (c # cs) w = obind (fw_write e w (fst c) (snd c)) (put_cells e cs)"

definition number_cell :: "nat \<Rightarrow> nat \<Rightarrow> byte list \<times> farg list" where
  "number_cell shown i = (lit ''<td> %d&nbsp; <input type=\"checkbox\" name=\"delRule%d\"> </td>'', [AInt (of_nat shown), AInt (of_nat i)])"

definition text_cell :: "cstring \<Rightarrow> byte list \<times> farg list" where
  "text_cell s = (lit ''<td align=center> %s </td>'', [AStr (Some s)])"

definition port_cell :: "int \<Rightarrow> byte list \<times> farg list" where
  "port_cell p = (lit ''<td align=center> %d </td>'', [AInt (of_int p)])"

definition range_cell :: "int \<Rightarrow> int \<Rightarrow> byte list \<times> farg list" where
  "range_cell a b = (lit ''<td align=center> %d - %d </td>'', [AInt (of_int a), AInt (of_int b)])"

definition proto_cell :: "int \<Rightarrow> byte list \<times> farg list" where
  "proto_cell proto =
     ((if proto = PROTO_TCP then lit ''<td align=center> TCP </td>''
       else if proto = PROTO_UDP then lit ''<td align=center> UDP </td>''
       else lit ''<td align=center> TCP + UDP </td>''), [])"

definition comment_cell :: "cstring \<Rightarrow> byte list \<times> farg list" where
  "comment_cell c = (if c \<noteq> [] then (lit ''<td align=center> %s</td>'', [AStr (Some c)]) else (lit ''<td align=center> &nbsp; </td>'', []))"

definition row_cells :: "nat \<Rightarrow> (byte list \<times> farg list) list \<Rightarrow> (byte list \<times> farg list) list" where
  "row_cells i cells = [(lit ''<tr>'' @ [NEWLINE], []), number_cell (i + 1) i] @ cells @ [(lit ''</tr>'' @ [NEWLINE], [])]"

text \<open>The body of the loop of \<open>showPortForwardRulesASP\<close>; \<open>i\<close> is the position of the rule.\<close>

definition show_forward :: "fenv \<Rightarrow> cstring \<Rightarrow> nat \<Rightarrow> fw \<Rightarrow> fw outcome" where
  "show_forward e rec i w =
     with_field e 0 rec 32 w (\<lambda>ip_address.
     if \<not> isIpValid ip_address then Ret w else
     with_field e 1 rec 8 w (\<lambda>prf.
     if atoi prf = 0 \<or> atoi prf > 65535 then Ret w else
     with_field e 2 rec 8 w (\<lambda>prt.
     if atoi prt > 65535 then Ret w else
     with_field e 3 rec 8 w (\<lambda>protocol.
     let proto = atoi protocol in
     if proto \<notin> {PROTO_TCP, PROTO_UDP, PROTO_TCP_UDP} then Ret w else
     with_field e 4 rec 16 w (\<lambda>comment.
     put_cells e (row_cells i
       [text_cell ip_address, if atoi prt \<noteq> 0 then range_cell (atoi prf) (atoi prt) else port_cell (atoi prf),
        proto_cell proto, comment_cell comment]) w)))))"

definition show_single :: "fenv \<Rightarrow> cstring \<Rightarrow> nat \<Rightarrow> fw \<Rightarrow> fw outcome" where
  "show_single e rec i w =
     with_field e 0 rec 32 w (\<lambda>ip_address.
     if \<not> isIpValid ip_address then Ret w else
     with_field e 1 rec 8 w (\<lambda>publicPort.
     if atoi publicPort = 0 \<or> atoi publicPort > 65535 then Ret w else
     with_field e 2 rec 8 w (\<lambda>privatePort.
     if atoi privatePort = 0 \<or> atoi privatePort > 65535 then Ret w else
     with_field e 3 rec 8 w (\<lambda>protocol.
     let proto = atoi protocol in
     if proto \<notin> {PROTO_TCP, PROTO_UDP, PROTO_TCP_UDP} then Ret w else
     with_field e 4 rec 16 w (\<lambda>comment.
     put_cells e (row_cells i
       [text_cell ip_address, port_cell (atoi publicPort), port_cell (atoi privatePort), proto_cell proto, comment_cell comment]) w)))))"

text \<open>The counter of the loop is part of the state of the body.\<close>

definition counted :: "(cstring \<Rightarrow> nat \<Rightarrow> fw \<Rightarrow> fw outcome) \<Rightarrow> cstring \<Rightarrow> nat \<times> fw \<Rightarrow> (nat \<times> fw) outcome" where
  "counted body rec = (\<lambda>(i, w). obind (body rec i w) (\<lambda>w. Ret (i + 1, w)))"

definition show_table :: "fenv \<Rightarrow> string \<Rightarrow> (cstring \<Rightarrow> nat \<Rightarrow> fw \<Rightarrow> fw outcome) \<Rightarrow> fw \<Rightarrow> (int \<times> fw) outcome" where
  "show_table e name body w =
     obind (fw_get e w name) (\<lambda>(rules, w).
     if rules = None \<or> the rules = [] then Ret (0, w)
     else obind (each_value e 128 (the rules) (counted body) 0 (0, w)) (\<lambda>(_, w). Ret (0, w)))"

definition showPortForwardRulesASP :: "fenv \<Rightarrow> fw \<Rightarrow> (int \<times> fw) outcome" where
  "showPortForwardRulesASP e = show_table e ''PortForwardRules'' (show_forward e)"

definition showSinglePortForwardRulesASP :: "fenv \<Rightarrow> fw \<Rightarrow> (int \<times> fw) outcome" where
  "showSinglePortForwardRulesASP e = show_table e ''SinglePortForwardRules'' (show_single e)"

section \<open>The table of the filter rules\<close>

definition readable :: "cstring \<Rightarrow> cstring" where
  "readable ip = (if ip = lit ''any/0'' then lit ''-'' else ip)"

definition filter_proto_cell :: "int \<Rightarrow> byte list \<times> farg list" where
  "filter_proto_cell proto =
     ((if proto = PROTO_TCP then lit ''<td align=center> TCP </td>''
       else if proto = PROTO_UDP then lit ''<td align=center> UDP </td>''
       else if proto = PROTO_ICMP then lit ''<td align=center> ICMP </td>''
       else lit ''<td align=center> - </td>''), [])"

text \<open>The number behind a text without a directive is not used.\<close>

definition filter_port_cell :: "int \<Rightarrow> int \<Rightarrow> byte list \<times> farg list" where
  "filter_port_cell dprf_int dprt_int =
     (if dprt_int \<noteq> 0 then range_cell dprf_int dprt_int
      else if dprf_int = 0 then (lit ''<td align=center> - </td>'', [AInt (of_int dprf_int)])
      else port_cell dprf_int)"

definition count_cell :: "nat \<Rightarrow> byte list \<times> farg list" where
  "count_cell i = (lit ''<td align=center id=pktCnt%d>-</td>'', [AInt (of_nat i)])"

text \<open>The body of the loop: whether the counter is advanced, and the state. The counter stays where it
  is when the protocol is unknown.\<close>

definition show_filter :: "fenv \<Rightarrow> cstring \<Rightarrow> nat \<Rightarrow> fw \<Rightarrow> (bool \<times> fw) outcome" where
  "show_filter e rec i w =
     with_field e 0 rec 32 (True, w) (\<lambda>sip_1.
     obind (isIpNetmaskValid (Some sip_1)) (\<lambda>ok.
     if \<not> ok then Ret (True, w) else
     with_field e 1 rec 32 (True, w) (\<lambda>sip_2.
     with_field e 2 rec 8 (True, w) (\<lambda>sprf.
     if atoi sprf > 65535 then Ret (True, w) else
     with_field e 3 rec 8 (True, w) (\<lambda>sprt.
     if atoi sprt > 65535 then Ret (True, w) else
     with_field e 4 rec 32 (True, w) (\<lambda>dip_1.
     obind (isIpNetmaskValid (Some dip_1)) (\<lambda>ok.
     if \<not> ok then Ret (True, w) else
     with_field e 5 rec 32 (True, w) (\<lambda>dip_2.
     with_field e 8 rec 8 (True, w) (\<lambda>protocol.
     let proto = atoi protocol in
     if proto \<notin> {PROTO_TCP, PROTO_UDP, PROTO_NONE, PROTO_ICMP} then Ret (False, w) else
     with_field e 6 rec 8 (True, w) (\<lambda>dprf.
     if atoi dprf > 65535 then Ret (True, w) else
     with_field e 7 rec 8 (True, w) (\<lambda>dprt.
     if atoi dprt > 65535 then Ret (True, w) else
     with_field e 9 rec 4 (True, w) (\<lambda>action.
     with_field e 10 rec 16 (True, w) (\<lambda>comment.
     with_field e 11 rec 32 (True, w) (\<lambda>mac_address.
     obind (put_cells e (row_cells i
       [text_cell (if mac_address = [] then lit ''-'' else mac_address), text_cell (readable sip_1), filter_proto_cell proto,
        filter_port_cell (atoi dprf) (atoi dprt), comment_cell comment, count_cell i]) w) (\<lambda>w. Ret (True, w))))))))))))))))"

text \<open>\<open>None\<close>: the loop does not end.\<close>

partial_function (option) filter_rows :: "fenv \<Rightarrow> cstring \<Rightarrow> nat \<Rightarrow> fw \<Rightarrow> (nat \<times> fw) outcome option" where
  "filter_rows e rules i w =
     (case value_at e i rules SEMI 256 of
        Fault \<Rightarrow> Some Fault | Blocked \<Rightarrow> Some Blocked
      | Ret r \<Rightarrow>
          (case r of
             None \<Rightarrow> Some (Ret (i, w))
           | Some rec \<Rightarrow>
               if rec = [] then Some (Ret (i, w))
               else (case show_filter e rec i w of
                   Fault \<Rightarrow> Some Fault | Blocked \<Rightarrow> Some Blocked
                 | Ret (next, w') \<Rightarrow> filter_rows e rules (if next then i + 1 else i) w')))"

definition policy_cell :: "int \<Rightarrow> nat \<Rightarrow> (byte list \<times> farg list) list" where
  "policy_cell policy i =
     (if policy = 0 then
        [(lit ''<tr><td align=center colspan=6 id=portCurrentFilterDefaultAccept><script>dw(JS_msg47)</script></td><td align=center id=pktCnt%d>-</td></tr>'', [AInt (of_nat i)])]
      else if policy = 1 then
        [(lit ''<tr><td align=center colspan=6 id=portCurrentFilterDefaultDrop><script>dw(JS_msg47)</script></td><td align=center id=pktCnt%d>-</td></tr>'', [AInt (of_nat i)])]
      else [])"

text \<open>Reading a setting cannot run forever, so the only source of \<open>None\<close> is the loop.\<close>

definition showIPPortFilterRulesASP :: "fenv \<Rightarrow> fw \<Rightarrow> (int \<times> fw) outcome option" where
  "showIPPortFilterRulesASP e w =
     (case fw_get e w ''IPPortFilterRules'' of
        Fault \<Rightarrow> Some Fault | Blocked \<Rightarrow> Some Blocked
      | Ret (None, w) \<Rightarrow> Some (Ret (0, w))
      | Ret (Some rules, w) \<Rightarrow>
          (case fw_get e w ''DefaultFirewallPolicy'' of
             Fault \<Rightarrow> Some Fault | Blocked \<Rightarrow> Some Blocked
           | Ret (None, w) \<Rightarrow> Some (Ret (0, w))
           | Ret (Some default_policy, w) \<Rightarrow>
               if default_policy = [] then Some (Ret (0, w))
               else map_option (\<lambda>r. obind r (\<lambda>(i, w).
                  obind (put_cells e (policy_cell (atoi default_policy) i) w) (\<lambda>w. Ret (0, w)))) (filter_rows e rules 0 w)))"

section \<open>What is written\<close>

text \<open>Between two states only text was written to the page.\<close>

definition printed :: "fenv \<Rightarrow> fw \<Rightarrow> cstring \<Rightarrow> fw \<Rightarrow> bool" where
  "printed e w t w' = (fw_ok e w' \<and> cfg w' = cfg w \<and> stored_cfg w' = stored_cfg w
     \<and> page (fweb w') = page (fweb w) @ t \<and> freply w' = freply w \<and> fcmds w' = fcmds w)"

definition prints :: "fenv \<Rightarrow> fw \<Rightarrow> fw outcome \<Rightarrow> cstring \<Rightarrow> bool" where
  "prints e w m t = (\<exists>w'. m = Ret w' \<and> printed e w t w')"

lemma printed_issued: "issued e w [] w' \<Longrightarrow> printed e w [] w'"
  by (simp add: printed_def issued_def)

lemma printed_trans: "printed e w s w1 \<Longrightarrow> printed e w1 t w2 \<Longrightarrow> printed e w (s @ t) w2"
  by (simp add: printed_def)

lemma printed_ok: "printed e w t w' \<Longrightarrow> fw_ok e w' \<and> cfg w' = cfg w"
  by (simp add: printed_def)

lemma prints_Ret [simp]: "fw_ok e w \<Longrightarrow> prints e w (Ret w) []"
  by (simp add: prints_def printed_def)

lemma prints_bind:
  assumes "prints e w m s" and "\<And>w'. fw_ok e w' \<Longrightarrow> prints e w' (f w') t"
  shows "prints e w (obind m f) (s @ t)"
proof -
  obtain w1 where w1: "m = Ret w1" "printed e w s w1" using assms(1) by (auto simp: prints_def)
  then obtain w2 where "f w1 = Ret w2" "printed e w1 t w2" using assms(2) printed_ok by (fastforce simp: prints_def)
  with w1 show ?thesis using printed_trans by (auto simp: prints_def)
qed

text \<open>A cell and the text it stands for; arguments behind a text without a directive are ignored.\<close>

definition cell_is :: "byte list \<times> farg list \<Rightarrow> cstring \<Rightarrow> bool" where
  "cell_is c t = ((render (fst c) (snd c) = Some t \<or> PERCENT \<notin> set (fst c) \<and> t = fst c) \<and> is_cstring t \<and> length t \<le> 959)"

lemma fmtValloc_args:
  assumes "PERCENT \<notin> set t"
  shows "fmtValloc h n t args = fmtValloc h n t []"
proof -
  have "fmt_loop h buf (t @ []) args = fmt_loop h buf (t @ []) []" for buf
  proof -
    have "fmt_loop h b [] a = Ret b" for b a by (subst fmt_loop.simps) simp
    then show ?thesis unfolding fmt_loop_text [OF assms] by simp
  qed
  then show ?thesis by (simp add: fmtValloc_def dsnprintf_def)
qed

lemma cell_prints:
  assumes "fw_ok e w" and "cell_is c t"
  shows "prints e w (fw_write e w (fst c) (snd c)) t"
proof -
  have t: "take 959 t = t" "is_cstring t" using assms(2) by (simp_all add: cell_is_def)
  have "fw_write e w (fst c) (snd c) = Ret (w\<lparr>fweb := (fweb w)\<lparr>page := page (fweb w) @ t\<rparr>\<rparr>)"
  proof (cases "render (fst c) (snd c) = Some t")
    case True
    then show ?thesis using fw_write_ok [OF fw_ok_user [OF assms(1)] True t(2)] t(1) by simp
  next
    case False
    then have p: "PERCENT \<notin> set t" "fst c = t" using assms(2) by (auto simp: cell_is_def)
    have "fw_write e w t (snd c) = fw_write e w t []"
      by (simp add: fw_write_def web_write_def websWrite_def fmtValloc_args [OF p(1), of _ _ "snd c"])
    then show ?thesis using fw_write_ok [OF fw_ok_user [OF assms(1)] render_plain [OF p(1)] t(2), of w] t(1) p(2) by simp
  qed
  then show ?thesis using assms(1) by (simp add: prints_def printed_def fw_ok_def)
qed

lemma put_cells_prints:
  "fw_ok e w \<Longrightarrow> list_all2 cell_is cs ts \<Longrightarrow> prints e w (put_cells e cs w) (concat ts)"
proof (induction cs arbitrary: ts w)
  case (Cons c cs)
  then obtain t us where u: "ts = t # us" "cell_is c t" "list_all2 cell_is cs us" by (auto simp: list_all2_Cons1)
  show ?case unfolding u(1) using Cons u by (auto intro!: prints_bind cell_prints)
qed simp

text \<open>The cells.\<close>

definition row_text :: "nat \<Rightarrow> cstring list \<Rightarrow> cstring" where
  "row_text i cells = lit ''<tr>'' @ [NEWLINE] @ lit ''<td> '' @ fmt_d (int i + 1) @ lit ''&nbsp; <input type=\"checkbox\" name=\"delRule''
     @ fmt_d (int i) @ lit ''\"> </td>'' @ concat cells @ lit ''</tr>'' @ [NEWLINE]"

definition cell_text :: "cstring \<Rightarrow> cstring" where
  "cell_text t = lit ''<td align=center> '' @ t @ lit '' </td>''"

definition comment_text :: "cstring \<Rightarrow> cstring" where
  "comment_text c = lit ''<td align=center> '' @ (if c \<noteq> [] then c @ lit ''</td>'' else lit ''&nbsp; </td>'')"

lemma sint_int: "- (2 ^ 31) \<le> i \<Longrightarrow> i < 2 ^ 31 \<Longrightarrow> sint (of_int i :: 32 word) = i"
  by (simp add: signed_of_int signed_take_bit_int_eq_self)

lemma sint_nat: "i < 2 ^ 31 \<Longrightarrow> sint (of_nat i :: 32 word) = int i"
  using sint_int [of "int i"] by simp

lemma cells_are:
  "is_cstring t \<Longrightarrow> length t \<le> 255 \<Longrightarrow> cell_is (text_cell t) (cell_text t)"
  "cell_is (port_cell (atoi s)) (cell_text (fmt_d (atoi s)))"
  "cell_is (range_cell (atoi s) (atoi u)) (cell_text (fmt_d (atoi s) @ lit '' - '' @ fmt_d (atoi u)))"
  "is_cstring t \<Longrightarrow> length t \<le> 255 \<Longrightarrow> cell_is (comment_cell t) (comment_text t)"
proof -
  have a: "sint (of_int (atoi v) :: 32 word) = atoi v" "length (fmt_d (atoi v)) \<le> 11" for v
    using sint_int atoi_range [of v] length_atoi by auto
  show "cell_is (port_cell (atoi s)) (cell_text (fmt_d (atoi s)))"
    using a [of s] by (simp add: cell_is_def port_cell_def cell_text_def is_cstring_fmt_d) (simp add: lit_Cons)
  show "cell_is (range_cell (atoi s) (atoi u)) (cell_text (fmt_d (atoi s) @ lit '' - '' @ fmt_d (atoi u)))"
    using a [of s] a [of u] by (simp add: cell_is_def range_cell_def cell_text_def is_cstring_fmt_d) (simp add: lit_Cons)
  assume t: "is_cstring t" "length t \<le> 255"
  show "cell_is (text_cell t) (cell_text t)"
    using t by (simp add: cell_is_def text_cell_def cell_text_def) (simp add: lit_Cons)
  show "cell_is (comment_cell t) (comment_text t)"
    using t by (simp add: cell_is_def comment_cell_def comment_text_def) (simp add: lit_Cons)
qed

lemma row_prints:
  assumes ok: "fw_ok e w" and i: "i < 100000" and cells: "list_all2 cell_is cs ts"
  shows "prints e w (put_cells e (row_cells i cs) w) (row_text i ts)"
proof -
  let ?n = "lit ''<td> '' @ fmt_d (int i + 1) @ lit ''&nbsp; <input type=\"checkbox\" name=\"delRule'' @ fmt_d (int i) @ lit ''\"> </td>''"
  have s: "sint (of_nat i :: 32 word) = int i" "sint (of_nat (i + 1) :: 32 word) = int i + 1"
    using sint_nat [of i] sint_nat [of "i + 1"] i by simp_all
  have "length (fmt_d (int i)) \<le> 11" "length (fmt_d (int i + 1)) \<le> 11" using i by (auto intro!: length_fmt_d)
  then have n: "cell_is (number_cell (i + 1) i) ?n"
    using s by (simp add: cell_is_def number_cell_def is_cstring_fmt_d) (simp add: lit_Cons)
  have tr: "cell_is (lit ''<tr>'' @ [NEWLINE], []) (lit ''<tr>'' @ [NEWLINE])" "cell_is (lit ''</tr>'' @ [NEWLINE], []) (lit ''</tr>'' @ [NEWLINE])"
    by (simp_all add: cell_is_def lit_Cons)
  have "list_all2 cell_is (row_cells i cs) ([lit ''<tr>'' @ [NEWLINE], ?n] @ ts @ [lit ''</tr>'' @ [NEWLINE]])"
    unfolding row_cells_def using n tr cells by (intro list_all2_appendI) simp_all
  from put_cells_prints [OF ok this] show ?thesis by (simp add: row_text_def)
qed

text \<open>The loop over a rule list with its counter.\<close>

lemma counted_prints:
  assumes rules: "is_cstring rules" "0 < len" and ok: "fw_ok e w"
    and body: "\<And>k w'. k < length (records len rules) \<Longrightarrow> fw_ok e w' \<Longrightarrow> prints e w' (body (records len rules ! k) k w') (f k (records len rules ! k))"
    and n: "n = length (records len rules)"
  shows "i \<le> n \<Longrightarrow> \<exists>w'. each_value e len rules (counted body) i (i, w) = Ret (n, w')
    \<and> printed e w (concat (map (\<lambda>k. f k (records len rules ! k)) [i..<n])) w'"
  using ok
proof (induction "n - i" arbitrary: i w)
  case 0
  then show ?case using rules n by (subst each_value_step) (auto simp: printed_def)
next
  case (Suc m)
  let ?rs = "records len rules"
  have i: "i < length ?rs" using Suc(2) n by simp
  obtain w1 where w1: "body (?rs ! i) i w = Ret w1" "printed e w (f i (?rs ! i)) w1"
    using body [OF i Suc.prems(2)] by (auto simp: prints_def)
  have m: "m = n - (i + 1)" "i + 1 \<le> n" using Suc.hyps(2) i n by simp_all
  obtain w2 where w2: "each_value e len rules (counted body) (i + 1) (i + 1, w1) = Ret (n, w2)"
    "printed e w1 (concat (map (\<lambda>k. f k (?rs ! k)) [i + 1..<n])) w2"
    using Suc.hyps(1) [OF m] printed_ok [OF w1(2)] by blast
  have "each_value e len rules (counted body) i (i, w) = Ret (n, w2)"
    using w1(1) w2(1) i rules by (subst each_value_step) (simp_all add: counted_def)
  moreover have "[i..<n] = i # [i + 1..<n]" using i n by (simp add: upt_conv_Cons)
  ultimately show ?case using printed_trans [OF w1(2) w2(2)] by auto
qed

text \<open>A table: the rows of the rules, each with its position.\<close>

definition table_text :: "(nat \<Rightarrow> cstring \<Rightarrow> cstring) \<Rightarrow> cstring list \<Rightarrow> cstring" where
  "table_text f rs = concat (map (\<lambda>k. f k (rs ! k)) [0..<length rs])"

lemma setting_length: "fw_ok e w \<Longrightarrow> length (sval w name) < 100000"
proof -
  assume "fw_ok e w"
  then have "short_values (cfg w)" using lib_okD(9) by (simp add: fw_ok_def)
  then show ?thesis by (auto simp: setting_def short_values_def split: option.split dest!: map_of_SomeD)
qed

lemma records_number: "length (records len rules) \<le> length rules + 1"
  using length_parts [of SEMI rules] length_filter_le [of "(=) SEMI" rules] by (simp add: records_def)

lemma show_table_prints:
  assumes ok: "fw_ok e w" and rules: "rules = sval w name"
    and body: "\<And>k rec w'. k < 100000 \<Longrightarrow> is_cstring rec \<Longrightarrow> fw_ok e w' \<Longrightarrow> prints e w' (body rec k w') (f k rec)"
  shows "\<exists>w'. show_table e name body w = Ret (0, w') \<and> printed e w (if rules = [] then [] else table_text f (records 128 rules)) w'"
proof -
  obtain w1 where w1: "fw_get e w name = Ret (Some rules, w1)" "issued e w [] w1"
    using get_from [OF issued_refl [OF ok]] rules by blast
  note p1 = printed_issued [OF w1(2)]
  show ?thesis
  proof (cases "rules = []")
    case True
    then show ?thesis using w1(1) p1 by (simp add: show_table_def)
  next
    case False
    have c: "is_cstring rules" using fw_cstring [OF ok] rules by simp
    have n: "length (records 128 rules) \<le> 100000" using records_number [of 128 rules] setting_length [OF ok, of name] rules by simp
    have b: "prints e w' (body (records 128 rules ! k) k w') (f k (records 128 rules ! k))"
      if "k < length (records 128 rules)" "fw_ok e w'" for k w'
      using that n records_cstring [OF c nth_mem [OF that(1)]] by (intro body) simp_all
    obtain w2 where w2: "each_value e 128 rules (counted body) 0 (0, w1) = Ret (length (records 128 rules), w2)"
      "printed e w1 (table_text f (records 128 rules)) w2"
      using counted_prints [where body = body and f = f and len = 128 and rules = rules and i = 0, OF c _ issued_ok [OF w1(2)] b refl]
      by (auto simp: table_text_def)
    then show ?thesis using False w1(1) printed_trans [OF p1 w2(2)] by (auto simp: show_table_def)
  qed
qed

section \<open>The forwarding tables\<close>

definition proto_name :: "int \<Rightarrow> cstring" where
  "proto_name p = (if p = PROTO_TCP then lit ''TCP'' else if p = PROTO_UDP then lit ''UDP'' else lit ''TCP + UDP'')"

definition forward_row :: "nat \<Rightarrow> cstring \<Rightarrow> cstring" where
  "forward_row i rec =
     (case parts COMMA rec of
        ip # prf # prt # proto # comment # _ \<Rightarrow>
          (let ip = take 31 ip; a = atoi (take 7 prf); b = atoi (take 7 prt); p = atoi (take 7 proto) in
           if isIpValid ip \<and> a \<noteq> 0 \<and> a \<le> 65535 \<and> b \<le> 65535 \<and> p \<in> {PROTO_TCP, PROTO_UDP, PROTO_TCP_UDP}
           then row_text i [cell_text ip, cell_text (if b \<noteq> 0 then fmt_d a @ lit '' - '' @ fmt_d b else fmt_d a),
             cell_text (proto_name p), comment_text (take 15 comment)]
           else [])
      | _ \<Rightarrow> [])"

definition single_row :: "nat \<Rightarrow> cstring \<Rightarrow> cstring" where
  "single_row i rec =
     (case parts COMMA rec of
        ip # public # private # proto # comment # _ \<Rightarrow>
          (let ip = take 31 ip; a = atoi (take 7 public); b = atoi (take 7 private); p = atoi (take 7 proto) in
           if isIpValid ip \<and> a \<noteq> 0 \<and> a \<le> 65535 \<and> b \<noteq> 0 \<and> b \<le> 65535 \<and> p \<in> {PROTO_TCP, PROTO_UDP, PROTO_TCP_UDP}
           then row_text i [cell_text ip, cell_text (fmt_d a), cell_text (fmt_d b), cell_text (proto_name p), comment_text (take 15 comment)]
           else [])
      | _ \<Rightarrow> [])"

lemma proto_cell_is: "cell_is (proto_cell p) (cell_text (proto_name p))"
  by (simp add: cell_is_def proto_cell_def cell_text_def proto_name_def) (simp add: lit_Cons)

lemma is_cstring_cut: "is_cstring s \<Longrightarrow> is_cstring (take n s)"
  by (auto simp: is_cstring_def dest: in_set_takeD)

lemma five_fields:
  obtains (short) "length fs < 5" | (five) a b c d f r where "fs = a # b # c # d # f # r"
proof (cases "length fs < 5")
  case False
  then have "Suc (Suc (Suc (Suc (Suc 0)))) \<le> length fs" by simp
  then show thesis by (auto simp: Suc_le_length_iff intro: five)
qed (rule short)

lemma prints_if: "fw_ok e w \<Longrightarrow> (P \<Longrightarrow> prints e w m t) \<Longrightarrow> prints e w (if P then m else Ret w) (if P then t else [])"
  by simp

lemma show_forward_prints:
  assumes i: "i < 100000" and rec: "is_cstring rec" and ok: "fw_ok e w"
  shows "prints e w (show_forward e rec i w) (forward_row i rec)"
proof (cases "parts COMMA rec" rule: five_fields)
  case short
  then have "show_forward e rec i w = Ret w" by (simp add: show_forward_def with_field_ok [OF rec] Let_def)
  moreover have "forward_row i rec = []" using short by (auto simp: forward_row_def split: list.split)
  ultimately show ?thesis using ok by simp
next
  case (five ip pfrom pto proto comment r)
  have c: "is_cstring f" if "f \<in> set (parts COMMA rec)" for f using that set_parts [of COMMA rec] rec by (auto simp: is_cstring_def)
  let ?a = "atoi (take 7 pfrom)" and ?b = "atoi (take 7 pto)" and ?p = "atoi (take 7 proto)"
  let ?P = "isIpValid (take 31 ip) \<and> ?a \<noteq> 0 \<and> ?a \<le> 65535 \<and> ?b \<le> 65535 \<and> ?p \<in> {PROTO_TCP, PROTO_UDP, PROTO_TCP_UDP}"
  let ?cs = "[text_cell (take 31 ip), if ?b \<noteq> 0 then range_cell ?a ?b else port_cell ?a, proto_cell ?p, comment_cell (take 15 comment)]"
  let ?ts = "[cell_text (take 31 ip), cell_text (if ?b \<noteq> 0 then fmt_d ?a @ lit '' - '' @ fmt_d ?b else fmt_d ?a),
    cell_text (proto_name ?p), comment_text (take 15 comment)]"
  have run: "show_forward e rec i w = (if ?P then put_cells e (row_cells i ?cs) w else Ret w)"
    by (simp add: show_forward_def with_field_ok [OF rec] five Let_def not_le)
  have row: "forward_row i rec = (if ?P then row_text i ?ts else [])"
    by (simp add: forward_row_def five Let_def)
  have "list_all2 cell_is ?cs ?ts"
    using c [of ip] c [of comment] five by (simp add: cells_are proto_cell_is is_cstring_cut)
  then show ?thesis unfolding run row by (intro prints_if row_prints ok i)
qed

lemma show_single_prints:
  assumes i: "i < 100000" and rec: "is_cstring rec" and ok: "fw_ok e w"
  shows "prints e w (show_single e rec i w) (single_row i rec)"
proof (cases "parts COMMA rec" rule: five_fields)
  case short
  then have "show_single e rec i w = Ret w" by (simp add: show_single_def with_field_ok [OF rec] Let_def)
  moreover have "single_row i rec = []" using short by (auto simp: single_row_def split: list.split)
  ultimately show ?thesis using ok by simp
next
  case (five ip pub priv proto comment r)
  have c: "is_cstring f" if "f \<in> set (parts COMMA rec)" for f using that set_parts [of COMMA rec] rec by (auto simp: is_cstring_def)
  let ?a = "atoi (take 7 pub)" and ?b = "atoi (take 7 priv)" and ?p = "atoi (take 7 proto)"
  let ?P = "isIpValid (take 31 ip) \<and> ?a \<noteq> 0 \<and> ?a \<le> 65535 \<and> ?b \<noteq> 0 \<and> ?b \<le> 65535 \<and> ?p \<in> {PROTO_TCP, PROTO_UDP, PROTO_TCP_UDP}"
  let ?cs = "[text_cell (take 31 ip), port_cell ?a, port_cell ?b, proto_cell ?p, comment_cell (take 15 comment)]"
  let ?ts = "[cell_text (take 31 ip), cell_text (fmt_d ?a), cell_text (fmt_d ?b), cell_text (proto_name ?p), comment_text (take 15 comment)]"
  have run: "show_single e rec i w = (if ?P then put_cells e (row_cells i ?cs) w else Ret w)"
    by (simp add: show_single_def with_field_ok [OF rec] five Let_def not_le)
  have row: "single_row i rec = (if ?P then row_text i ?ts else [])"
    by (simp add: single_row_def five Let_def)
  have "list_all2 cell_is ?cs ?ts"
    using c [of ip] c [of comment] five by (simp add: cells_are proto_cell_is is_cstring_cut)
  then show ?thesis unfolding run row by (intro prints_if row_prints ok i)
qed

text \<open>The pages of the forwarding rules end and show, in the order of the list, one row for each
  well-formed rule with the fields as they are stored; the check box of a row has the position of
  its rule in the list as its number, whatever rules were skipped before. Nothing else changes.\<close>

theorem forward_pages:
  assumes "fw_ok e w"
  shows "(\<exists>w'. showPortForwardRulesASP e w = Ret (0, w') \<and> printed e w
      (if sval w ''PortForwardRules'' = [] then [] else table_text forward_row (records 128 (sval w ''PortForwardRules''))) w')
    \<and> (\<exists>w'. showSinglePortForwardRulesASP e w = Ret (0, w') \<and> printed e w
      (if sval w ''SinglePortForwardRules'' = [] then [] else table_text single_row (records 128 (sval w ''SinglePortForwardRules''))) w')"
  unfolding showPortForwardRulesASP_def showSinglePortForwardRulesASP_def
  using show_table_prints [OF assms refl, of "show_forward e" forward_row] show_table_prints [OF assms refl, of "show_single e" single_row]
    show_forward_prints show_single_prints by blast

section \<open>The filter table\<close>

text \<open>A rule at which the loop stays forever: everything before the protocol is accepted, the protocol
  is unknown.\<close>

definition stuck :: "cstring \<Rightarrow> bool" where
  "stuck rec =
     (let fs = parts COMMA rec; num = (\<lambda>i. atoi (take 7 (fs ! i))) in
      9 \<le> length fs \<and> net_valid (take 31 (fs ! 0)) \<and> num 2 \<le> 65535 \<and> num 3 \<le> 65535 \<and> net_valid (take 31 (fs ! 4))
      \<and> num 8 \<notin> {PROTO_TCP, PROTO_UDP, PROTO_NONE, PROTO_ICMP})"

definition filter_proto_name :: "int \<Rightarrow> cstring" where
  "filter_proto_name p = (if p = PROTO_TCP then lit ''TCP'' else if p = PROTO_UDP then lit ''UDP''
     else if p = PROTO_ICMP then lit ''ICMP'' else lit ''-'')"

definition filter_row :: "nat \<Rightarrow> cstring \<Rightarrow> cstring" where
  "filter_row i rec =
     (let fs = parts COMMA rec; num = (\<lambda>i. atoi (take 7 (fs ! i))); mac = take 31 (fs ! 11) in
      if 12 \<le> length fs \<and> net_valid (take 31 (fs ! 0)) \<and> num 2 \<le> 65535 \<and> num 3 \<le> 65535 \<and> net_valid (take 31 (fs ! 4))
        \<and> num 6 \<le> 65535 \<and> num 7 \<le> 65535
      then row_text i [cell_text (if mac = [] then lit ''-'' else mac), cell_text (readable (take 31 (fs ! 0))),
        cell_text (filter_proto_name (num 8)),
        cell_text (if num 7 \<noteq> 0 then fmt_d (num 6) @ lit '' - '' @ fmt_d (num 7) else if num 6 = 0 then lit ''-'' else fmt_d (num 6)),
        comment_text (take 15 (fs ! 10)), lit ''<td align=center id=pktCnt'' @ fmt_d (int i) @ lit ''>-</td>'']
      else [])"

lemma filter_cells_are:
  "cell_is (filter_proto_cell p) (cell_text (filter_proto_name p))"
  "cell_is (filter_port_cell (atoi a) (atoi b))
     (cell_text (if atoi b \<noteq> 0 then fmt_d (atoi a) @ lit '' - '' @ fmt_d (atoi b) else if atoi a = 0 then lit ''-'' else fmt_d (atoi a)))"
  "i < 100000 \<Longrightarrow> cell_is (count_cell i) (lit ''<td align=center id=pktCnt'' @ fmt_d (int i) @ lit ''>-</td>'')"
proof -
  show "cell_is (filter_proto_cell p) (cell_text (filter_proto_name p))"
    by (simp add: cell_is_def filter_proto_cell_def cell_text_def filter_proto_name_def) (simp add: lit_Cons)
  have "cell_is (lit ''<td align=center> - </td>'', args) (cell_text (lit ''-''))" for args
    by (simp add: cell_is_def cell_text_def lit_Cons)
  then show "cell_is (filter_port_cell (atoi a) (atoi b))
     (cell_text (if atoi b \<noteq> 0 then fmt_d (atoi a) @ lit '' - '' @ fmt_d (atoi b) else if atoi a = 0 then lit ''-'' else fmt_d (atoi a)))"
    by (simp add: filter_port_cell_def cells_are)
  assume i: "i < 100000"
  have "length (fmt_d (int i)) \<le> 11" "sint (of_nat i :: 32 word) = int i" using i sint_nat [of i] by (auto intro!: length_fmt_d)
  then show "cell_is (count_cell i) (lit ''<td align=center id=pktCnt'' @ fmt_d (int i) @ lit ''>-</td>'')"
    by (simp add: cell_is_def count_cell_def is_cstring_fmt_d) (simp add: lit_Cons)
qed

lemma show_filter_short:
  assumes rec: "is_cstring rec" and fs: "fs = parts COMMA rec"
    and short: "length fs < 9"
  shows "show_filter e rec i w = Ret (True, w)"
proof -
  have "isIpNetmaskValid (Some (take 31 (fs ! k))) = Ret (net_valid (take 31 (fs ! k)))" if "k < length fs" for k
  proof -
    have "is_cstring (fs ! k)" using that nth_mem [OF that] set_parts [of COMMA rec] rec fs by (auto simp: is_cstring_def)
    then show ?thesis by (intro isIpNetmaskValid_short is_cstring_cut) simp_all
  qed
  then show ?thesis using short by (simp add: show_filter_def with_field_ok [OF rec] flip: fs)
qed

lemma show_filter_cases:
  assumes rec: "is_cstring rec" and ok: "fw_ok e w" and i: "i < 100000"
  shows "(stuck rec \<longrightarrow> show_filter e rec i w = Ret (False, w))
    \<and> (\<not> stuck rec \<longrightarrow> (\<exists>w'. show_filter e rec i w = Ret (True, w') \<and> printed e w (filter_row i rec) w'))"
proof -
  define fs where "fs = parts COMMA rec"
  have c: "is_cstring (fs ! k)" if "k < length fs" for k
    using that nth_mem [OF that] set_parts [of COMMA rec] rec fs_def by (auto simp: is_cstring_def)
  have nv: "isIpNetmaskValid (Some (take 31 (fs ! k))) = Ret (net_valid (take 31 (fs ! k)))" if "k < length fs" for k
    by (rule isIpNetmaskValid_short) (simp_all add: is_cstring_cut c that)
  let ?num = "\<lambda>k. atoi (take 7 (fs ! k))"
  let ?head = "net_valid (take 31 (fs ! 0)) \<and> ?num 2 \<le> 65535 \<and> ?num 3 \<le> 65535 \<and> net_valid (take 31 (fs ! 4))"
  let ?bad = "?num 8 \<notin> {PROTO_TCP, PROTO_UDP, PROTO_NONE, PROTO_ICMP}" and ?tail = "?num 6 \<le> 65535 \<and> ?num 7 \<le> 65535"
  let ?cs = "[text_cell (if take 31 (fs ! 11) = [] then lit ''-'' else take 31 (fs ! 11)), text_cell (readable (take 31 (fs ! 0))),
    filter_proto_cell (?num 8), filter_port_cell (?num 6) (?num 7), comment_cell (take 15 (fs ! 10)), count_cell i]"
  note s = show_filter_def with_field_ok [OF rec, folded fs_def] Let_def not_le nv
  have stuck: "stuck rec = (9 \<le> length fs \<and> ?head \<and> ?bad)" by (simp add: stuck_def fs_def Let_def)
  consider (short) "length fs < 9" | (mid) "9 \<le> length fs" "length fs < 12" | (full) "12 \<le> length fs" by linarith
  then show ?thesis
  proof cases
    case short
    then have "show_filter e rec i w = Ret (True, w)" using show_filter_short [OF rec fs_def] by simp
    moreover have "filter_row i rec = []" using short by (simp add: filter_row_def Let_def flip: fs_def)
    ultimately show ?thesis using short ok by (simp add: stuck printed_def)
  next
    case mid
    then have "0 < length fs" "1 < length fs" "2 < length fs" "3 < length fs" "4 < length fs" "5 < length fs" "6 < length fs"
      "7 < length fs" "8 < length fs" "\<not> 11 < length fs" by linarith+
    then have "show_filter e rec i w = Ret (\<not> (?head \<and> ?bad), w)" by (simp add: s)
    moreover have "filter_row i rec = []" using mid by (simp add: filter_row_def Let_def flip: fs_def)
    ultimately show ?thesis using mid ok by (auto simp: stuck printed_def)
  next
    case full
    then have l: "0 < length fs" "1 < length fs" "2 < length fs" "3 < length fs" "4 < length fs" "5 < length fs" "6 < length fs"
      "7 < length fs" "8 < length fs" "9 < length fs" "10 < length fs" "11 < length fs" by linarith+
    have run: "show_filter e rec i w = (if ?head \<and> ?bad then Ret (False, w)
        else if ?head \<and> ?tail then obind (put_cells e (row_cells i ?cs) w) (\<lambda>w. Ret (True, w)) else Ret (True, w))"
      using l by (simp add: s)
    have "is_cstring (readable (take 31 (fs ! 0)))" "length (readable (take 31 (fs ! 0))) \<le> 255"
      using c [OF l(1)] by (auto simp: readable_def is_cstring_cut lit_Cons)
    then have "list_all2 cell_is ?cs [cell_text (if take 31 (fs ! 11) = [] then lit ''-'' else take 31 (fs ! 11)),
        cell_text (readable (take 31 (fs ! 0))), cell_text (filter_proto_name (?num 8)),
        cell_text (if ?num 7 \<noteq> 0 then fmt_d (?num 6) @ lit '' - '' @ fmt_d (?num 7) else if ?num 6 = 0 then lit ''-'' else fmt_d (?num 6)),
        comment_text (take 15 (fs ! 10)), lit ''<td align=center id=pktCnt'' @ fmt_d (int i) @ lit ''>-</td>'']"
      using c [OF l(11)] c [OF l(12)] i by (simp add: cells_are filter_cells_are is_cstring_cut) (simp add: lit_Cons cells_are)
    from row_prints [OF ok i this] obtain w' where w': "put_cells e (row_cells i ?cs) w = Ret w'"
      "?head \<and> ?tail \<longrightarrow> printed e w (filter_row i rec) w'"
      using full by (auto simp: prints_def filter_row_def Let_def simp flip: fs_def)
    moreover have "\<not> (?head \<and> ?tail) \<Longrightarrow> filter_row i rec = []" by (auto simp: filter_row_def Let_def simp flip: fs_def)
    ultimately show ?thesis using full run ok by (auto simp: stuck printed_def)
  qed
qed

text \<open>One step of the loop.\<close>

lemma filter_rows_step:
  assumes "is_cstring rules"
  shows "filter_rows e rules i w =
    (let rs = records 256 rules in
     if i < length rs \<and> rs ! i \<noteq> [] then
       (case show_filter e (rs ! i) i w of Fault \<Rightarrow> Some Fault | Blocked \<Rightarrow> Some Blocked
        | Ret (next, w') \<Rightarrow> filter_rows e rules (if next then i + 1 else i) w')
     else Some (Ret (i, w)))"
  using assms by (subst filter_rows.simps) (auto simp: value_at_ok records_def Let_def)

text \<open>From a rule that holds the loop there is no way out.\<close>

lemma filter_rows_stuck:
  assumes rules: "is_cstring rules" and ok: "fw_ok e w" and i: "i < length (records 256 rules)" "i < 100000"
    and stuck: "records 256 rules ! i \<noteq> []" "stuck (records 256 rules ! i)"
  shows "filter_rows e rules i w = None"
proof (rule ccontr)
  let ?rec = "records 256 rules ! i"
  have v: "value_at e i rules SEMI 256 = Ret (Some ?rec)" using i rules by (simp add: value_at_ok records_def)
  have s: "show_filter e ?rec i w = Ret (False, w)"
    using show_filter_cases [OF records_cstring [OF rules nth_mem [OF i(1)]] ok i(2)] stuck by blast
  assume "filter_rows e rules i w \<noteq> None"
  then obtain r where r: "filter_rows e rules i w = Some r" by blast
  have "\<not> (e = e \<and> rules = rules \<and> i = i \<and> w = w)"
  proof (rule filter_rows.raw_induct [where P = "\<lambda>e' rules' i' w' r'. \<not> (e' = e \<and> rules' = rules \<and> i' = i \<and> w' = w)", OF _ r], rule notI)
    fix f e' rules' i' w' r'
    assume IH: "\<And>e' rules' i' w' r'. f e' rules' i' w' = Some r' \<Longrightarrow> \<not> (e' = e \<and> rules' = rules \<and> i' = i \<and> w' = w)"
      and r': "(case value_at e' i' rules' SEMI 256 of
          Ret r \<Rightarrow> (case r of None \<Rightarrow> Some (Ret (i', w'))
            | Some rec \<Rightarrow> if rec = [] then Some (Ret (i', w')) else (case show_filter e' rec i' w' of
                Ret (next, w'') \<Rightarrow> f e' rules' (if next then i' + 1 else i') w'' | Fault \<Rightarrow> Some Fault | Blocked \<Rightarrow> Some Blocked))
        | Fault \<Rightarrow> Some Fault | Blocked \<Rightarrow> Some Blocked) = Some r'"
      and "e' = e \<and> rules' = rules \<and> i' = i \<and> w' = w"
    then have "f e rules i w = Some r'" using v s stuck(1) by simp
    with IH show False by blast
  qed
  then show False by simp
qed

lemma filter_rows_advance:
  assumes rules: "is_cstring rules" "rs = records 256 rules" "length rs \<le> 100000" and ok: "fw_ok e w"
  shows "j \<le> length rs \<Longrightarrow> \<forall>k < j. rs ! k \<noteq> [] \<and> \<not> stuck (rs ! k) \<Longrightarrow>
    \<exists>w'. filter_rows e rules 0 w = filter_rows e rules j w' \<and> printed e w (concat (map (\<lambda>k. filter_row k (rs ! k)) [0..<j])) w'"
proof (induction j)
  case 0
  then show ?case using ok by (intro exI [of _ w]) (simp add: printed_def)
next
  case (Suc j)
  then obtain w1 where w1: "filter_rows e rules 0 w = filter_rows e rules j w1"
    "printed e w (concat (map (\<lambda>k. filter_row k (rs ! k)) [0..<j])) w1" by auto
  have j: "j < length rs" using Suc.prems by simp
  have "is_cstring (rs ! j)" "j < 100000" "fw_ok e w1" "\<not> stuck (rs ! j)" "rs ! j \<noteq> []"
    using records_cstring [OF rules(1) nth_mem [OF j [unfolded rules(2)]]] rules(2,3) j printed_ok [OF w1(2)] Suc.prems(2) by auto
  then obtain w2 where w2: "show_filter e (rs ! j) j w1 = Ret (True, w2)" "printed e w1 (filter_row j (rs ! j)) w2"
    using show_filter_cases by blast
  have "filter_rows e rules j w1 = filter_rows e rules (Suc j) w2"
    using j w2(1) Suc.prems(2) rules by (subst filter_rows_step) (simp_all add: Let_def)
  then show ?case using w1(1) printed_trans [OF w1(2) w2(2)] by auto
qed

definition policy_text :: "int \<Rightarrow> nat \<Rightarrow> cstring" where
  "policy_text policy i =
     (let tail = lit ''><script>dw(JS_msg47)</script></td><td align=center id=pktCnt'' @ fmt_d (int i) @ lit ''>-</td></tr>'' in
      if policy = 0 then lit ''<tr><td align=center colspan=6 id=portCurrentFilterDefaultAccept'' @ tail
      else if policy = 1 then lit ''<tr><td align=center colspan=6 id=portCurrentFilterDefaultDrop'' @ tail else [])"

lemma policy_prints:
  assumes ok: "fw_ok e w" and i: "i \<le> 100000"
  shows "prints e w (put_cells e (policy_cell policy i) w) (policy_text policy i)"
proof -
  have n: "length (fmt_d (int i)) \<le> 11" "sint (of_nat i :: 32 word) = int i" using i sint_nat [of i] by (auto intro!: length_fmt_d)
  consider "policy = 0" | "policy = 1" | "policy \<noteq> 0" "policy \<noteq> 1" by blast
  then show ?thesis
  proof cases
    case 1
    then have "list_all2 cell_is (policy_cell policy i) [policy_text policy i]" using n
      by (simp add: policy_cell_def policy_text_def Let_def cell_is_def is_cstring_fmt_d) (simp add: lit_Cons)
    from put_cells_prints [OF ok this] show ?thesis by simp
  next
    case 2
    then have "list_all2 cell_is (policy_cell policy i) [policy_text policy i]" using n
      by (simp add: policy_cell_def policy_text_def Let_def cell_is_def is_cstring_fmt_d) (simp add: lit_Cons)
    from put_cells_prints [OF ok this] show ?thesis by simp
  qed (simp add: policy_cell_def policy_text_def ok Let_def)
qed

text \<open>The loop on a whole list: it ends behind the last rule before an empty one, or never.\<close>

lemma filter_rows_all:
  assumes rules: "is_cstring rules" "length (records 256 rules) \<le> 100000" and ok: "fw_ok e w"
    and rows: "rows = takeWhile (\<lambda>r. r \<noteq> []) (records 256 rules)"
  shows "list_ex stuck rows \<Longrightarrow> filter_rows e rules 0 w = None"
    "\<not> list_ex stuck rows \<Longrightarrow> \<exists>w'. filter_rows e rules 0 w = Some (Ret (length rows, w')) \<and> printed e w (table_text filter_row rows) w'"
proof -
  let ?rs = "records 256 rules"
  have le: "length rows \<le> length ?rs" unfolding rows by (rule length_takeWhile_le)
  have nth: "rows ! k = ?rs ! k" "?rs ! k \<noteq> []" if "k < length rows" for k
    using that nth_mem [OF that] takeWhile_nth [of k "\<lambda>r. r \<noteq> []" ?rs] by (auto simp: rows dest: set_takeWhileD)
  have step: "\<exists>w'. filter_rows e rules 0 w = filter_rows e rules j w' \<and> printed e w (concat (map (\<lambda>k. filter_row k (?rs ! k)) [0..<j])) w'"
    if "j \<le> length rows" "\<forall>k < j. \<not> stuck (rows ! k)" for j
  proof -
    have "\<forall>k < j. ?rs ! k \<noteq> [] \<and> \<not> stuck (?rs ! k)" using that nth by fastforce
    then show ?thesis using that(1) le by (intro filter_rows_advance [OF rules(1) refl rules(2) ok]) simp_all
  qed
  {
    assume "list_ex stuck rows"
    define j where "j = length (takeWhile (\<lambda>r. \<not> stuck r) rows)"
    have "\<not> (\<forall>r \<in> set rows. \<not> stuck r)" using \<open>list_ex stuck rows\<close> by (auto simp: list_ex_iff)
    then have "takeWhile (\<lambda>r. \<not> stuck r) rows \<noteq> rows" by (metis takeWhile_eq_all_conv)
    then have j: "j < length rows" unfolding j_def by (metis length_takeWhile_le le_neq_implies_less takeWhile_eq_take take_all order_refl)
    then have st: "stuck (rows ! j)" "\<forall>k < j. \<not> stuck (rows ! k)"
      using nth_length_takeWhile [of "\<lambda>r. \<not> stuck r" rows] takeWhile_nth [of _ "\<lambda>r. \<not> stuck r" rows] nth_mem [of _ "takeWhile (\<lambda>r. \<not> stuck r) rows"]
      unfolding j_def by (simp, metis set_takeWhileD)
    obtain w' where w': "filter_rows e rules 0 w = filter_rows e rules j w'"
      "printed e w (concat (map (\<lambda>k. filter_row k (?rs ! k)) [0..<j])) w'" using step [of j] st(2) j by auto
    have "filter_rows e rules j w' = None"
      using printed_ok [OF w'(2)] j le rules nth [OF j] st(1) by (intro filter_rows_stuck) simp_all
    with w'(1) show "filter_rows e rules 0 w = None" by simp
  }
  assume "\<not> list_ex stuck rows"
  then have "\<forall>k < length rows. \<not> stuck (rows ! k)" by (auto simp: list_ex_iff)
  then obtain w' where w': "filter_rows e rules 0 w = filter_rows e rules (length rows) w'"
    "printed e w (concat (map (\<lambda>k. filter_row k (?rs ! k)) [0..<length rows])) w'" using step [of "length rows"] by auto
  have "\<not> (length rows < length ?rs \<and> ?rs ! length rows \<noteq> [])"
    using nth_length_takeWhile [of "\<lambda>r. r \<noteq> []" ?rs] rows by auto
  then have "filter_rows e rules (length rows) w' = Some (Ret (length rows, w'))"
    using rules(1) by (subst filter_rows_step) (simp_all only: Let_def if_False)
  moreover have "map (\<lambda>k. filter_row k (?rs ! k)) [0..<length rows] = map (\<lambda>k. filter_row k (rows ! k)) [0..<length rows]"
    using nth by simp
  then have "printed e w (table_text filter_row rows) w'" using w'(2) unfolding table_text_def by metis
  ultimately show "\<exists>w'. filter_rows e rules 0 w = Some (Ret (length rows, w')) \<and> printed e w (table_text filter_row rows) w'"
    using w'(1) by auto
qed

text \<open>C18: when the page of the filter rules ends. It runs for ever exactly when the default policy is set (not empty) and some rule before the
  first empty one has at least nine fields, addresses and source ports that the page accepts, and an unknown protocol: such a rule keeps the server in
  the loop. Otherwise it ends: with an empty policy it shows nothing, else a row for each well-formed rule with its position as the
  number of the check box, and the default policy behind them.\<close>

theorem filter_page_ends:
  assumes ok: "fw_ok e w" and rules: "rules = sval w ''IPPortFilterRules''" and policy: "policy = sval w ''DefaultFirewallPolicy''"
    and rows: "rows = takeWhile (\<lambda>r. r \<noteq> []) (records 256 rules)"
  shows "(showIPPortFilterRulesASP e w = None \<longleftrightarrow> policy \<noteq> [] \<and> list_ex stuck rows)
    \<and> (showIPPortFilterRulesASP e w \<noteq> None \<longrightarrow> (\<exists>w'. showIPPortFilterRulesASP e w = Some (Ret (0, w'))
      \<and> printed e w (if policy = [] then [] else table_text filter_row rows @ policy_text (atoi policy) (length rows)) w'))"
proof -
  obtain w1 where w1: "fw_get e w ''IPPortFilterRules'' = Ret (Some rules, w1)" "issued e w [] w1"
    using get_from [OF issued_refl [OF ok]] rules by blast
  obtain w2 where w2: "fw_get e w1 ''DefaultFirewallPolicy'' = Ret (Some policy, w2)" "issued e w [] w2"
    using get_from [OF w1(2)] policy by blast
  note p2 = printed_issued [OF w2(2)]
  have run: "showIPPortFilterRulesASP e w = (if policy = [] then Some (Ret (0, w2))
      else map_option (\<lambda>r. obind r (\<lambda>(i, w). obind (put_cells e (policy_cell (atoi policy) i) w) (\<lambda>w. Ret (0, w)))) (filter_rows e rules 0 w2))"
    using w1(1) w2(1) by (simp add: showIPPortFilterRulesASP_def)
  have c: "is_cstring rules" using fw_cstring [OF ok] rules by simp
  have n: "length (records 256 rules) \<le> 100000"
    using records_number [of 256 rules] setting_length [OF ok, of "''IPPortFilterRules''"] rules by simp
  note all = filter_rows_all [OF c n issued_ok [OF w2(2)] rows]
  have shown: "\<exists>w'. showIPPortFilterRulesASP e w = Some (Ret (0, w'))
      \<and> printed e w (table_text filter_row rows @ policy_text (atoi policy) (length rows)) w'" if pol: "policy \<noteq> []" and nst: "\<not> list_ex stuck rows"
  proof -
    obtain w3 where w3: "filter_rows e rules 0 w2 = Some (Ret (length rows, w3))" "printed e w2 (table_text filter_row rows) w3"
      using all(2) nst by blast
    have "length rows \<le> 100000" using length_takeWhile_le [of _ "records 256 rules"] n unfolding rows by (meson le_trans)
    then obtain w4 where w4: "put_cells e (policy_cell (atoi policy) (length rows)) w3 = Ret w4"
      "printed e w3 (policy_text (atoi policy) (length rows)) w4"
      using policy_prints [of e w3 "length rows" "atoi policy"] printed_ok [OF w3(2)] by (auto simp: prints_def)
    have "showIPPortFilterRulesASP e w = Some (Ret (0, w4))" using run pol w3(1) w4(1) by simp
    then show ?thesis using printed_trans [OF p2 printed_trans [OF w3(2) w4(2)]] by auto
  qed
  have iff: "showIPPortFilterRulesASP e w = None \<longleftrightarrow> policy \<noteq> [] \<and> list_ex stuck rows"
    using run all(1) shown by (cases "policy = []"; cases "list_ex stuck rows") auto
  show ?thesis using iff run p2 shown by auto
qed

section \<open>Examples of pages\<close>

theorem forward_pages_witness:
  "\<exists>s w0 w w'. lib_nvram_init demo_env demo_lib 0 = Ret s \<and> fw_set demo_fenv (demo_fw s) ''OperationMode'' (lit ''1'') = Ret w0
    \<and> fw_set demo_fenv w0 ''PortForwardRules'' (lit ''x;10.0.0.1,80,0,1,web'') = Ret w
    \<and> showPortForwardRulesASP demo_fenv w = Ret (0, w') \<and> page (fweb w') = page (fweb w)
      @ row_text 1 [cell_text (lit ''10.0.0.1''), cell_text (lit ''80''), cell_text (lit ''TCP''), comment_text (lit ''web'')]"
proof -
  let ?v = "lit ''x;10.0.0.1,80,0,1,web''" and ?r = "lit ''10.0.0.1,80,0,1,web''"
  have fit: "fits (AList.update (lit ''PortForwardRules'') ?v demo_cfg)" using demo_rules_fit [of ?v] by (simp add: lit_Cons)
  obtain s w0 w where w: "lib_nvram_init demo_env demo_lib 0 = Ret s"
    "fw_set demo_fenv (demo_fw s) ''OperationMode'' (lit ''1'') = Ret w0" "fw_set demo_fenv w0 ''PortForwardRules'' ?v = Ret w"
    "fw_ok demo_fenv w" "cfg w = AList.update (lit ''PortForwardRules'') ?v demo_cfg" "fcmds w = []" "freply w = []"
    by (rule demo_state [OF fit])
  have v: "sval w ''PortForwardRules'' = ?v" by (simp add: w(5) setting_update)
  have cut: "?v = lit ''x'' @ SEMI # ?r" "SEMI \<notin> set (lit ''x'')" "SEMI \<notin> set ?r" by (simp_all add: lit_Cons)
  have "parts SEMI ?v = [lit ''x'', ?r]" unfolding cut(1) using cut(2,3) by (simp add: parts_append parts_simple)
  then have recs: "records 128 ?v = [lit ''x'', ?r]" by (simp add: records_def)
  have r: "?r = forward_text (lit ''10.0.0.1'') 80 0 1 (lit ''web'')" "COMMA \<notin> set (lit ''10.0.0.1'')" "COMMA \<notin> set (lit ''web'')"
    by (simp_all add: forward_text_def demo_numbers small_number lit_Cons)
  have fs: "parts COMMA (lit ''x'') = [lit ''x'']" "parts COMMA ?r = [lit ''10.0.0.1'', lit ''80'', lit ''0'', lit ''1'', lit ''web'']"
    unfolding r(1) forward_text_parts [OF r(2,3)] by (simp_all add: demo_numbers small_number lit_Cons)
  have "isIpValid (lit ''10.0.0.1'')" by (simp add: isIpValid_def inet_aton_spec dotted_def octet_def isdigit_def isspace_def lit_Cons)
  then have tab: "table_text forward_row [lit ''x'', ?r]
      = row_text 1 [cell_text (lit ''10.0.0.1''), cell_text (lit ''80''), cell_text (lit ''TCP''), comment_text (lit ''web'')]"
    by (simp add: table_text_def upt_rec forward_row_def fs demo_numbers proto_name_def)
  obtain w' where w': "showPortForwardRulesASP demo_fenv w = Ret (0, w')" "printed demo_fenv w
      (if sval w ''PortForwardRules'' = [] then [] else table_text forward_row (records 128 (sval w ''PortForwardRules''))) w'"
    using forward_pages [OF w(4)] by blast
  have "?v \<noteq> []" by simp
  then have "page (fweb w') = page (fweb w) @ table_text forward_row [lit ''x'', ?r]"
    using w'(2) unfolding v recs by (simp only: printed_def if_False)
  then show ?thesis using w(1-3) w'(1) unfolding tab by blast
qed

theorem filter_page_ends_witness:
  "\<exists>s w0 w1 w2. lib_nvram_init demo_env demo_lib 0 = Ret s \<and> fw_set demo_fenv (demo_fw s) ''OperationMode'' (lit ''1'') = Ret w0
    \<and> fw_set demo_fenv w0 ''IPPortFilterRules'' (lit ''any,0,0,0,any,0,0,0,9,0,,'') = Ret w1
    \<and> fw_set demo_fenv w1 ''DefaultFirewallPolicy'' (lit ''0'') = Ret w2
    \<and> showIPPortFilterRulesASP demo_fenv w2 = None \<and> showIPPortFilterRulesASP demo_fenv w1 \<noteq> None"
proof -
  let ?v = "lit ''any,0,0,0,any,0,0,0,9,0,,''"
  let ?kvs = "AList.update (lit ''IPPortFilterRules'') ?v demo_cfg"
  have kv: "kv_ok (lit ''OperationMode'', lit ''1'')" "kv_ok (lit ''IPPortFilterRules'', ?v)" "kv_ok (lit ''DefaultFirewallPolicy'', lit ''0'')"
    by (simp_all add: kv_ok_def lit_Cons)
  have fit: "fits ?kvs" "fits (AList.update (lit ''DefaultFirewallPolicy'') (lit ''0'') ?kvs)"
    using kv by (simp_all add: demo_cfg_def fits_def storable_def layout_def env_text_def)
  obtain s w0 w1 where w: "lib_nvram_init demo_env demo_lib 0 = Ret s"
    "fw_set demo_fenv (demo_fw s) ''OperationMode'' (lit ''1'') = Ret w0" "fw_set demo_fenv w0 ''IPPortFilterRules'' ?v = Ret w1"
    "fw_ok demo_fenv w1" "cfg w1 = ?kvs" "fcmds w1 = []" "freply w1 = []" by (rule demo_state [OF fit(1)])
  obtain w2 where w2: "fw_set demo_fenv w1 ''DefaultFirewallPolicy'' (lit ''0'') = Ret w2"
    "became demo_fenv w1 (AList.update (lit ''DefaultFirewallPolicy'') (lit ''0'') ?kvs) w2"
    using fw_set_ok [OF w(4), of _ "''DefaultFirewallPolicy''" "lit ''0''"] w(5) fit(2) by auto
  note b = became_ok [OF w2(2)]
  have n: "fmt_d 0 = lit ''0''" "fmt_d 9 = lit ''9''" by (simp_all add: fmt_d_def print_base_eval digit_def lit_Cons)
  have r: "?v = filter_text (lit ''any'') 0 0 (lit ''any'') 0 0 9 0 [] []" "COMMA \<notin> set (lit ''any'')"
    by (simp_all add: filter_text_def n) (simp_all add: lit_Cons)
  have fs: "parts COMMA ?v = [lit ''any'', lit ''0'', lit ''0'', lit ''0'', lit ''any'', lit ''0'', lit ''0'', lit ''0'', lit ''9'', lit ''0'', [], []]"
    unfolding r(1) using r(2) by (subst filter_text_fields) (simp_all add: n)
  have "atoi (lit ''9'') = 9" by (simp add: atoi_def lit_Cons isspace_def isdigit_def)
  then have st: "stuck ?v" by (simp add: stuck_def fs net_valid_def)
  have "parts SEMI ?v = [?v]" by (rule parts_simple) (simp add: lit_Cons)
  then have recs: "takeWhile (\<lambda>r. r \<noteq> []) (records 256 ?v) = [?v]" by (simp add: records_def)
  have v: "sval w2 ''IPPortFilterRules'' = ?v" "sval w2 ''DefaultFirewallPolicy'' = lit ''0''" "sval w1 ''DefaultFirewallPolicy'' = []"
    using b by (simp_all add: w(5) setting_update demo_setting)
  have "showIPPortFilterRulesASP demo_fenv w2 = None"
    using filter_page_ends [OF conjunct1 [OF b] v(1) [symmetric] v(2) [symmetric] refl] st unfolding recs by simp
  moreover have "showIPPortFilterRulesASP demo_fenv w1 \<noteq> None"
    using filter_page_ends [OF w(4) refl v(3) [symmetric] refl] by simp
  ultimately show ?thesis using w w2(1) by blast
qed

end
