(* ===== verification/UserDb.thy ===== *)
theory UserDb
  imports FwBase
begin

text \<open>
  The tables behind the user management of the web server (\<open>user/goahead/src_tongyong\<close>): handle lists
  (\<open>h.c\<close>) and the small database built on them (\<open>emfdb.c\<close>), whose tables have named columns of numbers
  and strings and rows that are allocated and freed by number.

  A cell of a row is a machine word in the code: a number, or the address of a string. Here it is
  \<open>Num\<close> or \<open>Str\<close>, with the NULL pointer as \<open>Num 0\<close>; following any other number as an address is a
  \<open>Fault\<close>. Assertions are not compiled into the server and trace messages are not modelled.

  The lemmas give each operation its meaning on the rows by number (\<open>row_of\<close>), under the invariant
  \<open>table_ok\<close>.
\<close>

section \<open>Handle lists (h.c)\<close>

text \<open>The array with its length and the number of used handles; the NULL pointer is \<open>None\<close>.\<close>

record 'a hlist =
  h_slots :: "'a option list"
  h_used :: int

abbreviation H_INCR :: nat where "H_INCR \<equiv> 16"

primrec first_null :: "'a option list \<Rightarrow> nat \<Rightarrow> nat option" where
  "first_null [] i = None"
| "first_null (x # xs) i = (case x of None \<Rightarrow> Some i | Some _ \<Rightarrow> first_null xs (i + 1))"

definition hAlloc :: "kheap \<Rightarrow> 'a hlist option \<Rightarrow> int \<times> 'a hlist option" where
  "hAlloc h list =
     (case (case list of
              None \<Rightarrow> if kmalloc_ok h ((H_INCR + 2) * 4) then Some \<lparr>h_slots = replicate H_INCR None, h_used = 0\<rparr> else None
            | Some mp \<Rightarrow> Some mp) of
        None \<Rightarrow> (- 1, None)
      | Some mp \<Rightarrow>
          let len = length (h_slots mp) in
          case (if h_used mp < int len then first_null (h_slots mp) 0 else None) of
            Some handle \<Rightarrow> (int handle, Some (mp\<lparr>h_used := h_used mp + 1\<rparr>))
          | None \<Rightarrow>
              if kmalloc_ok h ((len + H_INCR + 2) * 4)
              then (int len, Some \<lparr>h_slots = h_slots mp @ replicate H_INCR None, h_used = h_used mp + 1\<rparr>)
              else (- 1, Some mp))"

text \<open>One past the greatest handle in use; the list is searched from its end.\<close>

definition greatest_used :: "'a option list \<Rightarrow> nat" where
  "greatest_used slots = length (dropWhile Option.is_none (rev slots))"

definition hFree :: "'a hlist option \<Rightarrow> int \<Rightarrow> (int \<times> 'a hlist option) outcome" where
  "hFree list handle =
     (case list of
        None \<Rightarrow> Fault
      | Some mp \<Rightarrow>
          if handle < 0 \<or> int (length (h_slots mp)) \<le> handle then Fault
          else let slots = (h_slots mp)[nat handle := None]; used = h_used mp - 1 in
            if used = 0 then Ret (0, None)
            else Ret (if used < int (length slots) then int (greatest_used slots) else int (length slots) + 1,
                      Some \<lparr>h_slots = slots, h_used = used\<rparr>))"

definition h_store :: "nat \<Rightarrow> 'a \<Rightarrow> 'a hlist option \<Rightarrow> 'a hlist option" where
  "h_store i v = map_option (\<lambda>mp. mp\<lparr>h_slots := (h_slots mp)[i := Some v]\<rparr>)"

text \<open>An entry of \<open>sz\<close> bytes, filled with zero bytes (\<open>zero\<close>).\<close>

definition hAllocEntry :: "kheap \<Rightarrow> nat \<Rightarrow> 'a \<Rightarrow> 'a hlist option \<Rightarrow> int \<Rightarrow> (int \<times> 'a hlist option \<times> int) outcome" where
  "hAllocEntry h sz zero list mx =
     (case hAlloc h list of (ix, list) \<Rightarrow>
        if ix < 0 then Ret (- 1, list, mx)
        else if sz > 0 \<and> \<not> kmalloc_ok h sz then obind (hFree list ix) (\<lambda>(_, list). Ret (- 1, list, mx))
        else Ret (ix, if sz > 0 then h_store (nat ix) zero list else list, if mx \<le> ix then ix + 1 else mx))"

section \<open>Tables (emfdb.c)\<close>

datatype cell = Num int | Str cstring
datatype ctype = T_INT | T_STRING

record dbTable =
  dt_name :: cstring
  columnNames :: "cstring list"
  columnTypes :: "ctype list"
  nRows :: int
  rows :: "cell list hlist option"

text \<open>The list of tables: they are registered when the server starts and never removed one by one, so
  it is the array of its first \<open>dbMaxTables\<close> entries.\<close>

type_synonym db = "dbTable option list"

definition dbOpen :: db where
  "dbOpen = []"

text \<open>The schema is copied; a failed allocation is not checked for.\<close>

definition dbRegisterDBSchema :: "kheap \<Rightarrow> dbTable \<Rightarrow> db \<Rightarrow> db outcome" where
  "dbRegisterDBSchema h t d =
     (if kmalloc_ok h ((length d + H_INCR + 2) * 4) \<and> kmalloc_ok h 24 then Ret (d @ [Some (t\<lparr>nRows := 0, rows := None\<rparr>)]) else Fault)"

primrec table_loop :: "db \<Rightarrow> cstring \<Rightarrow> int \<Rightarrow> int" where
  "table_loop [] name tid = - 1"
| "table_loop (t # ts) name tid =
     (if t \<noteq> None \<and> dt_name (the t) = name then tid else table_loop ts name (tid + 1))"

definition dbGetTableId :: "db \<Rightarrow> cstring \<Rightarrow> int" where
  "dbGetTableId d tablename = table_loop d tablename 0"

definition dbGetTableName :: "db \<Rightarrow> int \<Rightarrow> cstring option" where
  "dbGetTableName d tid = (if 0 \<le> tid \<and> tid < int (length d) then map_option dt_name (d ! nat tid) else None)"

primrec column_loop :: "cstring list \<Rightarrow> cstring \<Rightarrow> int \<Rightarrow> int" where
  "column_loop [] name column = - 1"
| "column_loop (c # cs) name column = (if c = name then column else column_loop cs name (column + 1))"

definition GetColumnIndex :: "db \<Rightarrow> int \<Rightarrow> cstring \<Rightarrow> int" where
  "GetColumnIndex d tid colName =
     (if 0 \<le> tid \<and> tid < int (length d) \<and> d ! nat tid \<noteq> None
      then column_loop (columnNames (the (d ! nat tid))) colName 0 else - 1)"

abbreviation DB_ERR_COL_NOT_FOUND :: int where "DB_ERR_COL_NOT_FOUND \<equiv> - 2"
abbreviation DB_ERR_ROW_NOT_FOUND :: int where "DB_ERR_ROW_NOT_FOUND \<equiv> - 4"
abbreviation DB_ERR_ROW_DELETED :: int where "DB_ERR_ROW_DELETED \<equiv> - 5"
abbreviation DB_ERR_TABLE_NOT_FOUND :: int where "DB_ERR_TABLE_NOT_FOUND \<equiv> - 6"
abbreviation DB_ERR_TABLE_DELETED :: int where "DB_ERR_TABLE_DELETED \<equiv> - 7"
abbreviation DB_ERR_BAD_FORMAT :: int where "DB_ERR_BAD_FORMAT \<equiv> - 8"

text \<open>The array of the rows, and the row at a number below \<open>nRows\<close>.\<close>

definition slots_of :: "'a hlist option \<Rightarrow> 'a option list" where
  "slots_of list = (case list of None \<Rightarrow> [] | Some mp \<Rightarrow> h_slots mp)"

definition row_at :: "dbTable \<Rightarrow> nat \<Rightarrow> cell list option outcome" where
  "row_at t rowid = (if rowid < length (slots_of (rows t)) then Ret (slots_of (rows t) ! rowid) else Fault)"

text \<open>\<open>strcmpci\<close> ignores the case; only whether it returns zero matters.\<close>

definition strcmpci_eq :: "cstring \<Rightarrow> cstring \<Rightarrow> bool" where
  "strcmpci_eq s1 s2 = (map tolower s1 = map tolower s2)"

function search_loop :: "dbTable \<Rightarrow> nat \<Rightarrow> (cstring \<Rightarrow> bool) \<Rightarrow> nat \<Rightarrow> int outcome" where
  "search_loop t column match rowid =
     (if int rowid < nRows t then
        (case row_at t rowid of
           Ret (Some pRow) \<Rightarrow>
             (case pRow ! column of
                Num n \<Rightarrow> if n = 0 then search_loop t column match (rowid + 1) else Fault
              | Str s \<Rightarrow> if match s then Ret (int rowid) else search_loop t column match (rowid + 1))
         | Ret None \<Rightarrow> search_loop t column match (rowid + 1)
         | Fault \<Rightarrow> Fault | Blocked \<Rightarrow> Blocked)
      else Ret (- 1))"
  by pat_completeness auto
termination
  by (relation "measure (\<lambda>(t, column, match, rowid). nat (nRows t) - rowid)") auto

declare search_loop.simps [simp del]

definition dbSearchStr :: "db \<Rightarrow> cstring \<Rightarrow> cstring \<Rightarrow> cstring \<Rightarrow> int \<Rightarrow> int outcome" where
  "dbSearchStr d tablename colName val flags =
     (let tid = dbGetTableId d tablename in
      if tid < 0 then Ret DB_ERR_TABLE_NOT_FOUND
      else let column = GetColumnIndex d tid colName in
        if column \<ge> 0 then
          search_loop (the (d ! nat tid)) (nat column) (\<lambda>s. if flags = 1 then strcmpci_eq s val else s = val) 0
        else Ret DB_ERR_COL_NOT_FOUND)"

text \<open>A row of \<open>nColumns\<close> words.\<close>

definition dbAddRow :: "kheap \<Rightarrow> db \<Rightarrow> cstring \<Rightarrow> (int \<times> db) outcome" where
  "dbAddRow h d tablename =
     (let tid = dbGetTableId d tablename in
      if tid < 0 then Ret (DB_ERR_TABLE_NOT_FOUND, d)
      else let t = the (d ! nat tid); n = length (columnNames t) in
        obind (hAllocEntry h (n * 4) (replicate n (Num 0)) (rows t) (nRows t)) (\<lambda>(rowid, rs, mx).
        Ret (rowid, d[nat tid := Some (t\<lparr>rows := rs, nRows := mx\<rparr>)])))"

definition dbDeleteRow :: "db \<Rightarrow> cstring \<Rightarrow> int \<Rightarrow> (int \<times> db) outcome" where
  "dbDeleteRow d tablename rowid =
     (let tid = dbGetTableId d tablename in
      if tid < 0 then Ret (DB_ERR_TABLE_NOT_FOUND, d)
      else let t = the (d ! nat tid) in
        if 0 \<le> rowid \<and> rowid < nRows t then
          obind (row_at t (nat rowid)) (\<lambda>pRow.
          if pRow = None then Ret (0, d)
          else obind (hFree (rows t) rowid) (\<lambda>(mx, rs). Ret (0, d[nat tid := Some (t\<lparr>rows := rs, nRows := mx\<rparr>)])))
        else Ret (- 1, d))"

definition dbGetTableNrow :: "db \<Rightarrow> cstring \<Rightarrow> int" where
  "dbGetTableNrow d tablename = (let tid = dbGetTableId d tablename in if tid \<ge> 0 then nRows (the (d ! nat tid)) else - 1)"

text \<open>Reading: the error code, and the cell when there is one (the variable of the caller is left as it is
  otherwise). \<open>dbReadStr\<close> is the same function.\<close>

definition dbReadInt :: "db \<Rightarrow> cstring \<Rightarrow> cstring \<Rightarrow> int \<Rightarrow> (int \<times> cell option) outcome" where
  "dbReadInt d table column rowid =
     (let tid = dbGetTableId d table in
      if tid < 0 then Ret (DB_ERR_TABLE_NOT_FOUND, None)
      else let t = the (d ! nat tid) in
        if 0 \<le> rowid \<and> rowid < nRows t then
          let colIndex = GetColumnIndex d tid column in
          if colIndex \<ge> 0 then
            obind (row_at t (nat rowid)) (\<lambda>pRow.
            case pRow of Some r \<Rightarrow> Ret (0, Some (r ! nat colIndex)) | None \<Rightarrow> Ret (DB_ERR_ROW_DELETED, None))
          else Ret (DB_ERR_COL_NOT_FOUND, None)
        else Ret (DB_ERR_ROW_NOT_FOUND, None))"

definition put_cell :: "db \<Rightarrow> nat \<Rightarrow> nat \<Rightarrow> nat \<Rightarrow> cell \<Rightarrow> db" where
  "put_cell d tid rowid col c =
     (let t = the (d ! tid); r = the (slots_of (rows t) ! rowid) in
      d[tid := Some (t\<lparr>rows := h_store rowid (r[col := c]) (rows t)\<rparr>)])"

definition dbWriteInt :: "db \<Rightarrow> cstring \<Rightarrow> cstring \<Rightarrow> int \<Rightarrow> int \<Rightarrow> (int \<times> db) outcome" where
  "dbWriteInt d table column rowid iData =
     (let tid = dbGetTableId d table in
      if tid < 0 then Ret (DB_ERR_TABLE_NOT_FOUND, d)
      else let t = the (d ! nat tid); colIndex = GetColumnIndex d tid column in
        if colIndex \<ge> 0 then
          if 0 \<le> rowid \<and> rowid < nRows t then
            obind (row_at t (nat rowid)) (\<lambda>pRow.
            if pRow \<noteq> None then Ret (0, put_cell d (nat tid) (nat rowid) (nat colIndex) (Num iData))
            else Ret (DB_ERR_ROW_DELETED, d))
          else Ret (DB_ERR_ROW_NOT_FOUND, d)
        else Ret (DB_ERR_COL_NOT_FOUND, d))"

text \<open>\<open>bstrdup\<close> (\<open>balloc.c\<close>): a NULL pointer is copied as the empty string.\<close>

definition bstrdup :: "kheap \<Rightarrow> cstring option \<Rightarrow> cstring option" where
  "bstrdup h s = (let s = (case s of None \<Rightarrow> [] | Some s \<Rightarrow> s) in if kmalloc_ok h (length s + 1) then Some s else None)"

definition cell_of :: "cstring option \<Rightarrow> cell" where
  "cell_of p = (case p of None \<Rightarrow> Num 0 | Some s \<Rightarrow> Str s)"

definition dbWriteStr :: "kheap \<Rightarrow> db \<Rightarrow> cstring \<Rightarrow> cstring \<Rightarrow> int \<Rightarrow> cstring option \<Rightarrow> (int \<times> db) outcome" where
  "dbWriteStr h d table column rowid s =
     (let tid = dbGetTableId d table in
      if tid < 0 then Ret (DB_ERR_TABLE_NOT_FOUND, d)
      else let t = the (d ! nat tid); colIndex = GetColumnIndex d tid column in
        if colIndex < 0 then Ret (DB_ERR_COL_NOT_FOUND, d)
        else if columnTypes t ! nat colIndex \<noteq> T_STRING then Ret (DB_ERR_BAD_FORMAT, d)
        else if 0 \<le> rowid \<and> rowid < nRows t then
          obind (row_at t (nat rowid)) (\<lambda>pRow.
          if pRow = None then Ret (DB_ERR_ROW_DELETED, d)
          else Ret (0, put_cell d (nat tid) (nat rowid) (nat colIndex) (cell_of (bstrdup h s))))
        else Ret (DB_ERR_ROW_NOT_FOUND, d))"

section \<open>Handle lists by number\<close>

definition hrow :: "'a hlist option \<Rightarrow> nat \<Rightarrow> 'a option" where
  "hrow list i = (if i < length (slots_of list) then slots_of list ! i else None)"

text \<open>The counter is the number of handles in use, and a list without one is freed.\<close>

definition hlist_ok :: "'a hlist option \<Rightarrow> bool" where
  "hlist_ok list = (case list of None \<Rightarrow> True | Some mp \<Rightarrow> h_used mp = int (card (dom (hrow list))) \<and> 0 < h_used mp)"

lemma hrow_None [simp]: "hrow None i = None"
  by (simp add: hrow_def slots_of_def)

lemma hrow_bound: "hrow list i = Some v \<Longrightarrow> i < length (slots_of list)"
  by (simp add: hrow_def split: if_splits)

lemma finite_hrow [simp]: "finite (dom (hrow list))"
  by (rule finite_subset [of _ "{..<length (slots_of list)}"]) (auto dest: hrow_bound)

lemma first_null_Some: "first_null xs i = Some j \<Longrightarrow> i \<le> j \<and> j - i < length xs \<and> xs ! (j - i) = None"
proof (induction xs arbitrary: i)
  case (Cons x xs)
  show ?case
  proof (cases x)
    case (Some v)
    then have "i + 1 \<le> j \<and> j - (i + 1) < length xs \<and> xs ! (j - (i + 1)) = None" using Cons by simp
    then show ?thesis by (auto simp: nth_Cons' le_diff_conv2)
  qed (use Cons.prems in simp)
qed simp

lemma hAlloc_ok:
  assumes "\<And>n. kmalloc_ok h n" and "hlist_ok list"
  obtains i mp where "hAlloc h list = (int i, Some mp)" "hrow (Some mp) = hrow list" "hrow list i = None"
    "i < length (h_slots mp)" "length (slots_of list) \<le> length (h_slots mp)" "h_used mp = int (card (dom (hrow list))) + 1"
proof -
  define mp0 where "mp0 = (case list of None \<Rightarrow> \<lparr>h_slots = replicate H_INCR None, h_used = 0\<rparr> | Some mp \<Rightarrow> mp)"
  have mp0: "hrow (Some mp0) = hrow list" "h_used mp0 = int (card (dom (hrow list)))" "length (slots_of list) \<le> length (h_slots mp0)"
    using assms(2) by (auto simp: mp0_def hlist_ok_def hrow_def slots_of_def fun_eq_iff split: option.splits)
  have unfold: "hAlloc h list = (let len = length (h_slots mp0) in
          case (if h_used mp0 < int len then first_null (h_slots mp0) 0 else None) of
            Some handle \<Rightarrow> (int handle, Some (mp0\<lparr>h_used := h_used mp0 + 1\<rparr>))
          | None \<Rightarrow> (int len, Some \<lparr>h_slots = h_slots mp0 @ replicate H_INCR None, h_used = h_used mp0 + 1\<rparr>))"
    using assms(1) by (simp add: hAlloc_def mp0_def Let_def split: option.splits)
  show ?thesis
  proof (cases "if h_used mp0 < int (length (h_slots mp0)) then first_null (h_slots mp0) 0 else None")
    case None
    let ?mp = "\<lparr>h_slots = h_slots mp0 @ replicate H_INCR None, h_used = h_used mp0 + 1\<rparr>"
    have "hrow (Some ?mp) = hrow (Some mp0)" by (auto simp: hrow_def slots_of_def fun_eq_iff nth_append)
    moreover have "hrow (Some mp0) (length (h_slots mp0)) = None" by (simp add: hrow_def slots_of_def)
    ultimately show ?thesis using None mp0 by (intro that [of "length (h_slots mp0)" ?mp]) (simp_all add: unfold Let_def)
  next
    case (Some i)
    then have "i < length (h_slots mp0)" "h_slots mp0 ! i = None"
      using first_null_Some [of "h_slots mp0" 0 i] by (auto split: if_splits)
    moreover have "hrow (Some (mp0\<lparr>h_used := h_used mp0 + 1\<rparr>)) = hrow (Some mp0)" by (simp add: hrow_def slots_of_def fun_eq_iff)
    moreover have "hrow (Some mp0) i = None" using calculation by (simp add: hrow_def slots_of_def)
    ultimately show ?thesis using Some mp0
      by (intro that [of i "mp0\<lparr>h_used := h_used mp0 + 1\<rparr>"]) (simp_all add: unfold Let_def)
  qed
qed

lemma hAllocEntry_ok:
  assumes "\<And>n. kmalloc_ok h n" and "hlist_ok list" and "0 < sz"
  obtains i list' where "hAllocEntry h sz z list mx = Ret (int i, list', max mx (int i + 1))"
    "hrow list i = None" "hrow list' = (hrow list)(i \<mapsto> z)" "hlist_ok list'" "i < length (slots_of list')"
    "length (slots_of list) \<le> length (slots_of list')"
proof -
  obtain i mp where mp: "hAlloc h list = (int i, Some mp)" "hrow (Some mp) = hrow list" "hrow list i = None"
    "i < length (h_slots mp)" "length (slots_of list) \<le> length (h_slots mp)" "h_used mp = int (card (dom (hrow list))) + 1"
    by (rule hAlloc_ok [OF assms(1,2)])
  let ?list = "h_store i z (Some mp)"
  have row: "hrow ?list = (hrow list)(i \<mapsto> z)"
    using mp(4) unfolding mp(2) [symmetric] by (auto simp: h_store_def hrow_def slots_of_def fun_eq_iff)
  have "int (card (dom (hrow ?list))) = h_used mp" using mp(3,6) by (simp add: row domIff)
  then have ok: "hlist_ok ?list" using mp(6) by (simp add: hlist_ok_def h_store_def)
  show ?thesis
    by (rule that [OF _ mp(3) row ok])
      (use assms(1,3) mp in \<open>simp_all add: hAllocEntry_def h_store_def slots_of_def max_def\<close>)
qed

lemma greatest_used_bound: "i < length xs \<Longrightarrow> xs ! i \<noteq> None \<Longrightarrow> i < greatest_used xs"
proof (induction xs rule: rev_induct)
  case (snoc x xs)
  show ?case
  proof (cases x)
    case None
    then have "i < length xs" using snoc.prems by (auto simp: nth_append less_Suc_eq)
    then show ?thesis using snoc None by (simp add: greatest_used_def nth_append)
  qed (use snoc.prems in \<open>simp add: greatest_used_def\<close>)
qed simp

lemma greatest_used_le: "greatest_used xs \<le> length xs"
  using length_dropWhile_le [of Option.is_none "rev xs"] by (simp add: greatest_used_def)

lemma hFree_ok:
  assumes ok: "hlist_ok list" and i: "hrow list i = Some v"
  obtains mx list' where "hFree list (int i) = Ret (mx, list')" "hrow list' = (hrow list)(i := None)" "hlist_ok list'"
    "\<forall>j. hrow list' j \<noteq> None \<longrightarrow> int j < mx" "0 \<le> mx" "mx \<le> int (length (slots_of list'))"
proof -
  obtain mp where mp: "list = Some mp" using i by (cases list) auto
  have len: "i < length (h_slots mp)" using hrow_bound [OF i] by (simp add: mp slots_of_def)
  let ?mp = "\<lparr>h_slots = (h_slots mp)[i := None], h_used = h_used mp - 1\<rparr>"
  have row: "hrow (Some ?mp) = (hrow list)(i := None)" using len by (auto simp: mp hrow_def slots_of_def fun_eq_iff)
  have used: "h_used mp - 1 = int (card (dom (hrow (Some ?mp))))"
  proof -
    have "card (dom (hrow list)) = Suc (card (dom (hrow list) - {i}))" by (rule card.remove) (use i in auto)
    then show ?thesis using ok by (simp only: row) (simp add: hlist_ok_def mp)
  qed
  show ?thesis
  proof (cases "h_used mp - 1 = 0")
    case True
    then have "hrow (Some ?mp) = Map.empty" using used by simp
    then have none: "hrow None = (hrow list)(i := None)" unfolding row [symmetric] by (simp add: fun_eq_iff)
    show ?thesis by (rule that [of 0 None, OF _ none]) (use True len in \<open>simp_all add: hFree_def mp hlist_ok_def slots_of_def\<close>)
  next
    case False
    have "card (dom (hrow (Some ?mp))) \<le> card ({..<length (h_slots mp)} - {i})"
      by (rule card_mono) (auto simp: row dest: hrow_bound simp: mp slots_of_def)
    then have less: "h_used mp - 1 < int (length (h_slots mp))" using used len by simp
    have "hlist_ok (Some ?mp)" using False used by (simp add: hlist_ok_def)
    then show ?thesis using False len less greatest_used_bound [of _ "h_slots ?mp"] greatest_used_le [of "h_slots ?mp"]
      by (intro that [of "int (greatest_used (h_slots ?mp))" "Some ?mp"]) (auto simp: hFree_def mp Let_def row slots_of_def hrow_def split: if_splits)
  qed
qed

section \<open>Tables by row number\<close>

abbreviation row_of :: "dbTable \<Rightarrow> nat \<Rightarrow> cell list option" where
  "row_of t \<equiv> hrow (rows t)"

fun cell_ok :: "ctype \<Rightarrow> cell \<Rightarrow> bool" where
  "cell_ok T_INT (Num n) = True"
| "cell_ok T_INT (Str s) = False"
| "cell_ok T_STRING (Num n) = (n = 0)"
| "cell_ok T_STRING (Str s) = True"

definition table_ok :: "dbTable \<Rightarrow> bool" where
  "table_ok t = (columnNames t \<noteq> [] \<and> length (columnTypes t) = length (columnNames t) \<and> hlist_ok (rows t)
     \<and> 0 \<le> nRows t \<and> nRows t \<le> int (length (slots_of (rows t)))
     \<and> (\<forall>i r. row_of t i = Some r \<longrightarrow> int i < nRows t \<and> list_all2 cell_ok (columnTypes t) r))"

definition same_schema :: "dbTable \<Rightarrow> dbTable \<Rightarrow> bool" where
  "same_schema s t = (dt_name t = dt_name s \<and> columnNames t = columnNames s \<and> columnTypes t = columnTypes s)"

lemma table_okD:
  assumes "table_ok t"
  shows "columnNames t \<noteq> []" "length (columnTypes t) = length (columnNames t)" "hlist_ok (rows t)" "0 \<le> nRows t"
    "nRows t \<le> int (length (slots_of (rows t)))" "row_of t i = Some r \<Longrightarrow> int i < nRows t"
    "row_of t i = Some r \<Longrightarrow> list_all2 cell_ok (columnTypes t) r"
  using assms by (auto simp: table_ok_def)

lemma row_at_row_of: "i < length (slots_of (rows t)) \<Longrightarrow> row_at t i = Ret (row_of t i)"
  by (simp add: row_at_def hrow_def)

lemma row_at_ok: "table_ok t \<Longrightarrow> int i < nRows t \<Longrightarrow> row_at t i = Ret (row_of t i)"
  using table_okD(5) by (intro row_at_row_of) fastforce

lemma cell_string:
  assumes "table_ok t" "row_of t i = Some r" "c < length (columnNames t)" "columnTypes t ! c = T_STRING"
  shows "r ! c = Num 0 \<or> (\<exists>s. r ! c = Str s)"
proof -
  have "cell_ok T_STRING (r ! c)"
    using list_all2_nthD [OF table_okD(7) [OF assms(1,2)], of c] assms(3,4) table_okD(2) [OF assms(1)] by simp
  then show ?thesis by (cases "r ! c") auto
qed

subsection \<open>Searching\<close>

definition hit :: "dbTable \<Rightarrow> nat \<Rightarrow> (cstring \<Rightarrow> bool) \<Rightarrow> nat \<Rightarrow> bool" where
  "hit t c match i = (\<exists>r s. row_of t i = Some r \<and> r ! c = Str s \<and> match s)"

lemma search_loop_cases:
  assumes "table_ok t" "c < length (columnNames t)" "columnTypes t ! c = T_STRING"
  shows "(search_loop t c match i = Ret (- 1) \<and> (\<forall>j \<ge> i. \<not> hit t c match j))
    \<or> (\<exists>j. search_loop t c match i = Ret (int j) \<and> hit t c match j)"
  using assms
proof (induction t c match i rule: search_loop.induct)
  case (1 t c match i)
  have next_row: ?case if same: "search_loop t c match i = search_loop t c match (i + 1)" and no: "\<not> hit t c match i"
    and ih: "(search_loop t c match (i + 1) = Ret (- 1) \<and> (\<forall>j \<ge> i + 1. \<not> hit t c match j))
      \<or> (\<exists>j. search_loop t c match (i + 1) = Ret (int j) \<and> hit t c match j)"
    using ih no unfolding same by (metis Suc_eq_plus1 le_antisym not_less_eq_eq)
  show ?case
  proof (cases "int i < nRows t")
    case False
    have "\<forall>j \<ge> i. \<not> hit t c match j" using False table_okD(6) [OF 1(4)] by (fastforce simp: hit_def)
    then show ?thesis using False by (simp add: search_loop.simps [of t c match i])
  next
    case True
    note at = row_at_ok [OF 1(4) True]
    show ?thesis
    proof (cases "row_of t i")
      case None
      show ?thesis
        by (rule next_row) (use True at None 1 in \<open>simp_all add: search_loop.simps [of t c match i] hit_def\<close>)
    next
      case (Some r)
      have "r ! c = Num 0 \<or> (\<exists>s. r ! c = Str s)" by (rule cell_string [OF 1(4) Some 1(5,6)])
      then show ?thesis
      proof (elim disjE exE)
        assume n: "r ! c = Num 0"
        show ?thesis
          by (rule next_row) (use True at Some n 1 in \<open>simp_all add: search_loop.simps [of t c match i] hit_def\<close>)
      next
        fix s assume s: "r ! c = Str s"
        show ?thesis
        proof (cases "match s")
          case m: True
          then have "search_loop t c match i = Ret (int i)" using True at Some s by (simp add: search_loop.simps [of t c match i])
          moreover have "hit t c match i" using Some s m by (simp add: hit_def)
          ultimately show ?thesis by blast
        next
          case False
          show ?thesis
            by (rule next_row) (use True at Some s False 1 in \<open>simp_all add: search_loop.simps [of t c match i] hit_def\<close>)
        qed
      qed
    qed
  qed
qed

definition has_table :: "db \<Rightarrow> cstring \<Rightarrow> nat \<Rightarrow> dbTable \<Rightarrow> bool" where
  "has_table d name tid t = (dbGetTableId d name = int tid \<and> tid < length d \<and> d ! tid = Some t)"

definition column_at :: "dbTable \<Rightarrow> cstring \<Rightarrow> nat \<Rightarrow> bool" where
  "column_at t name c = (column_loop (columnNames t) name 0 = int c)"

lemma column_loop_bound: "column_loop cs name i = int c \<Longrightarrow> 0 \<le> i \<Longrightarrow> i \<le> int c \<and> int c < i + int (length cs)"
  by (induction cs arbitrary: i) (fastforce split: if_splits)+

lemma column_at_bound: "column_at t name c \<Longrightarrow> c < length (columnNames t)"
  using column_loop_bound [of "columnNames t" name 0 c] by (simp add: column_at_def)

lemma table_loop_update:
  "j < length d \<Longrightarrow> d ! j = Some t \<Longrightarrow> dt_name t' = dt_name t \<Longrightarrow> table_loop (d[j := Some t']) name i = table_loop d name i"
  by (induction d arbitrary: i j) (auto simp: nth_Cons' split: nat.splits)

lemma has_table_same: "has_table d name tid t \<Longrightarrow> dt_name t' = dt_name t \<Longrightarrow> has_table (d[tid := Some t']) name tid t'"
  by (simp add: has_table_def dbGetTableId_def table_loop_update)

lemma has_table_other:
  "has_table d name tid t \<Longrightarrow> has_table d name2 tid2 t2 \<Longrightarrow> tid2 \<noteq> tid \<Longrightarrow> dt_name t' = dt_name t
    \<Longrightarrow> has_table (d[tid := Some t']) name2 tid2 t2"
  by (simp add: has_table_def dbGetTableId_def table_loop_update)

lemma GetColumnIndex_ok: "has_table d name tid t \<Longrightarrow> column_at t col c \<Longrightarrow> GetColumnIndex d (int tid) col = int c"
  by (simp add: has_table_def GetColumnIndex_def column_at_def)

lemma dbSearchStr_ok:
  assumes "has_table d name tid t" "table_ok t" "column_at t col c" "columnTypes t ! c = T_STRING"
  shows "(dbSearchStr d name col v 0 = Ret (- 1) \<and> (\<forall>i r. row_of t i = Some r \<longrightarrow> r ! c \<noteq> Str v))
    \<or> (\<exists>i r. dbSearchStr d name col v 0 = Ret (int i) \<and> row_of t i = Some r \<and> r ! c = Str v)"
proof -
  have "dbSearchStr d name col v 0 = search_loop t c (\<lambda>s. s = v) 0"
    using GetColumnIndex_ok [OF assms(1,3)] assms(1) by (simp add: dbSearchStr_def has_table_def)
  then show ?thesis
    using search_loop_cases [OF assms(2) column_at_bound [OF assms(3)] assms(4), of "\<lambda>s. s = v" 0] by (auto simp: hit_def)
qed

lemma dbReadInt_ok:
  assumes "has_table d name tid t" "table_ok t" "column_at t col c" "row_of t i = Some r"
  shows "dbReadInt d name col (int i) = Ret (0, Some (r ! c))"
  using assms(1) GetColumnIndex_ok [OF assms(1,3)] row_at_ok [OF assms(2) table_okD(6) [OF assms(2,4)]] table_okD(6) [OF assms(2,4)] assms(4)
  by (simp add: dbReadInt_def has_table_def)

subsection \<open>Changing one row\<close>

definition changed :: "db \<Rightarrow> nat \<Rightarrow> dbTable \<Rightarrow> nat \<Rightarrow> cell list option \<Rightarrow> db \<Rightarrow> dbTable \<Rightarrow> bool" where
  "changed d tid t i r d' t' = (d' = d[tid := Some t'] \<and> row_of t' = (row_of t)(i := r) \<and> table_ok t' \<and> same_schema t t')"

lemma changed_table: "changed d tid t i r d' t' \<Longrightarrow> has_table d name tid t \<Longrightarrow> has_table d' name tid t'"
  using has_table_same by (auto simp: changed_def same_schema_def)

lemma changed_other:
  "changed d tid t i r d' t' \<Longrightarrow> has_table d name tid t \<Longrightarrow> has_table d name2 tid2 t2 \<Longrightarrow> tid2 \<noteq> tid \<Longrightarrow> has_table d' name2 tid2 t2"
  using has_table_other by (auto simp: changed_def same_schema_def)

lemma changed_trans: "changed d tid t i r d1 t1 \<Longrightarrow> changed d1 tid t1 i r' d2 t2 \<Longrightarrow> changed d tid t i r' d2 t2"
  by (auto simp: changed_def same_schema_def)

lemma dbAddRow_ok:
  assumes heap: "\<And>n. kmalloc_ok h n" and tab: "has_table d name tid t" and ok: "table_ok t"
  obtains i d' t' where "dbAddRow h d name = Ret (int i, d')" "row_of t i = None"
    "changed d tid t i (Some (replicate (length (columnNames t)) (Num 0))) d' t'"
proof -
  let ?n = "length (columnNames t)"
  have "0 < ?n * 4" using table_okD(1) [OF ok] by simp
  from hAllocEntry_ok [OF heap table_okD(3) [OF ok] this, of "replicate ?n (Num 0)" "nRows t"]
  obtain i rs where rs: "hAllocEntry h (?n * 4) (replicate ?n (Num 0)) (rows t) (nRows t) = Ret (int i, rs, max (nRows t) (int i + 1))"
    "row_of t i = None" "hrow rs = (row_of t)(i \<mapsto> replicate ?n (Num 0))" "hlist_ok rs" "i < length (slots_of rs)"
    "length (slots_of (rows t)) \<le> length (slots_of rs)" by blast
  let ?t = "t\<lparr>rows := rs, nRows := max (nRows t) (int i + 1)\<rparr>"
  have "list_all2 cell_ok (columnTypes t) (replicate ?n (Num 0))"
    unfolding list_all2_conv_all_nth using table_okD(2) [OF ok] by (simp, metis cell_ok.simps(1,3) ctype.exhaust)
  then have "table_ok ?t" using table_okD [OF ok] rs(3-6) by (auto simp: table_ok_def less_max_iff_disj)
  then have "changed d tid t i (Some (replicate ?n (Num 0))) (d[tid := Some ?t]) ?t"
    using rs(3) by (simp add: changed_def same_schema_def)
  moreover have "dbAddRow h d name = Ret (int i, d[tid := Some ?t])" using tab rs(1) by (simp add: dbAddRow_def has_table_def)
  ultimately show ?thesis using rs(2) that by blast
qed

lemma dbDeleteRow_ok:
  assumes tab: "has_table d name tid t" and ok: "table_ok t" and row: "row_of t i = Some r"
  obtains d' t' where "dbDeleteRow d name (int i) = Ret (0, d')" "changed d tid t i None d' t'"
proof -
  obtain mx rs where rs: "hFree (rows t) (int i) = Ret (mx, rs)" "hrow rs = (row_of t)(i := None)" "hlist_ok rs"
    "\<forall>j. hrow rs j \<noteq> None \<longrightarrow> int j < mx" "0 \<le> mx" "mx \<le> int (length (slots_of rs))"
    by (rule hFree_ok [OF table_okD(3) [OF ok] row])
  let ?t = "t\<lparr>rows := rs, nRows := mx\<rparr>"
  have "table_ok ?t" using table_okD [OF ok] rs(2-6) by (auto simp: table_ok_def split: if_splits)
  then have "changed d tid t i None (d[tid := Some ?t]) ?t" using rs(2) by (simp add: changed_def same_schema_def)
  moreover have "dbDeleteRow d name (int i) = Ret (0, d[tid := Some ?t])"
    using tab rs(1) row table_okD(6) [OF ok row] row_at_ok [OF ok table_okD(6) [OF ok row]] by (simp add: dbDeleteRow_def has_table_def)
  ultimately show ?thesis using that by blast
qed

lemma put_cell_ok:
  assumes tab: "has_table d name tid t" and ok: "table_ok t" and row: "row_of t i = Some r"
    and c: "c < length (columnNames t)" "cell_ok (columnTypes t ! c) v"
  shows "\<exists>t'. changed d tid t i (Some (r[c := v])) (put_cell d tid i c v) t'"
proof -
  have i: "i < length (slots_of (rows t))" "slots_of (rows t) ! i = Some r" using row by (auto simp: hrow_def split: if_splits)
  obtain mp where mp: "rows t = Some mp" using row by (cases "rows t") auto
  let ?t = "t\<lparr>rows := h_store i (r[c := v]) (rows t)\<rparr>"
  have new: "row_of ?t = (row_of t)(i \<mapsto> r[c := v])" using i by (auto simp: mp h_store_def hrow_def slots_of_def fun_eq_iff)
  have "dom (row_of ?t) = dom (row_of t)" unfolding new using row by (auto simp: insert_absorb)
  then have used: "hlist_ok (rows ?t)" using table_okD(3) [OF ok] by (simp add: hlist_ok_def mp h_store_def)
  have typed: "list_all2 cell_ok (columnTypes t) (r[c := v])"
    using table_okD(7) [OF ok row] c table_okD(2) [OF ok]
    by (auto simp: list_all2_conv_all_nth nth_list_update)
  have "length (slots_of (rows ?t)) = length (slots_of (rows t))" by (simp add: mp h_store_def slots_of_def)
  then have "table_ok ?t" using table_okD [OF ok] used typed new row by (auto simp: table_ok_def split: if_splits)
  then have "changed d tid t i (Some (r[c := v])) (put_cell d tid i c v) ?t"
    using tab i new by (simp add: put_cell_def has_table_def changed_def same_schema_def)
  then show ?thesis by blast
qed

lemma dbWriteInt_ok:
  assumes "has_table d name tid t" "table_ok t" "row_of t i = Some r" "column_at t col c" "columnTypes t ! c = T_INT"
  obtains d' t' where "dbWriteInt d name col (int i) n = Ret (0, d')" "changed d tid t i (Some (r[c := Num n])) d' t'"
proof -
  have "dbWriteInt d name col (int i) n = Ret (0, put_cell d tid i c (Num n))"
    using assms(1,3) GetColumnIndex_ok [OF assms(1,4)] row_at_ok [OF assms(2) table_okD(6) [OF assms(2,3)]] table_okD(6) [OF assms(2,3)]
    by (simp add: dbWriteInt_def has_table_def)
  then show ?thesis using put_cell_ok [OF assms(1-3) column_at_bound [OF assms(4)], of "Num n"] assms(5) that by auto
qed

lemma dbWriteStr_ok:
  assumes "\<And>n. kmalloc_ok h n" "has_table d name tid t" "table_ok t" "row_of t i = Some r" "column_at t col c" "columnTypes t ! c = T_STRING"
  obtains d' t' where "dbWriteStr h d name col (int i) (Some s) = Ret (0, d')" "changed d tid t i (Some (r[c := Str s])) d' t'"
proof -
  have "dbWriteStr h d name col (int i) (Some s) = Ret (0, put_cell d tid i c (Str s))"
    using assms(1,2,4,6) GetColumnIndex_ok [OF assms(2,5)] row_at_ok [OF assms(3) table_okD(6) [OF assms(3,4)]] table_okD(6) [OF assms(3,4)]
    by (simp add: dbWriteStr_def has_table_def bstrdup_def cell_of_def)
  then show ?thesis using put_cell_ok [OF assms(2-4) column_at_bound [OF assms(5)], of "Str s"] assms(6) that by auto
qed

section \<open>Tables as maps\<close>

text \<open>The rows of a table by the string in their first column.\<close>

definition keyed :: "dbTable \<Rightarrow> bool" where
  "keyed t = (\<forall>i j r r' s. row_of t i = Some r \<and> row_of t j = Some r' \<and> r ! 0 = Str s \<and> r' ! 0 = Str s \<longrightarrow> i = j)"

definition entry :: "dbTable \<Rightarrow> cstring \<Rightarrow> cell list option" where
  "entry t s = (case find (\<lambda>x. case x of None \<Rightarrow> False | Some r \<Rightarrow> r ! 0 = Str s) (slots_of (rows t)) of None \<Rightarrow> None | Some x \<Rightarrow> x)"

lemma entry_iff: "keyed t \<Longrightarrow> entry t s = Some r \<longleftrightarrow> (\<exists>i. row_of t i = Some r \<and> r ! 0 = Str s)"
proof -
  assume k: "keyed t"
  have one: "entry t s = Some r \<Longrightarrow> \<exists>i. row_of t i = Some r \<and> r ! 0 = Str s" for r
    by (auto simp: entry_def hrow_def find_Some_iff split: option.splits)
  have "entry t s \<noteq> None" if "row_of t i = Some r'" "r' ! 0 = Str s" for i r'
  proof -
    have "i < length (slots_of (rows t))" "slots_of (rows t) ! i = Some r'" using that(1) by (auto simp: hrow_def split: if_splits)
    then have "Some r' \<in> set (slots_of (rows t))" by (metis nth_mem)
    then show ?thesis using that(2) by (auto simp: entry_def find_None_iff find_Some_iff split: option.splits)
  qed
  then show ?thesis using one k unfolding keyed_def by (metis option.exhaust option.inject)
qed

lemma entry_None: "keyed t \<Longrightarrow> entry t s = None \<longleftrightarrow> (\<forall>i r. row_of t i = Some r \<longrightarrow> r ! 0 \<noteq> Str s)"
  using entry_iff by (metis not_None_eq option.inject)

lemma entry_upd:
  assumes k: "keyed t" and upd: "row_of t' = (row_of t)(i := ro)" and old: "\<forall>r. row_of t i = Some r \<longrightarrow> r ! 0 = Str s"
    "row_of t i = None \<longrightarrow> entry t s = None" and new: "\<forall>r. ro = Some r \<longrightarrow> r ! 0 = Str s"
  shows "keyed t'" "entry t' = (entry t)(s := ro)"
proof -
  have free: "j = i" if "row_of t j = Some r" "r ! 0 = Str s" for j r
    using that old k entry_None [OF k, of s] unfolding keyed_def by (metis not_None_eq)
  show k': "keyed t'"
    unfolding keyed_def upd using k free new unfolding keyed_def by (auto split: if_splits)
  have other: "row_of t' j = Some r \<and> r ! 0 = Str x \<longleftrightarrow> row_of t j = Some r \<and> r ! 0 = Str x" if "x \<noteq> s" for j r x
    using that old(1) new by (auto simp: upd)
  have "entry t' x = Some y \<longleftrightarrow> ((entry t)(s := ro)) x = Some y" for x y
  proof (cases "x = s")
    case True
    show ?thesis unfolding entry_iff [OF k'] using True free new by (auto simp: upd split: if_splits)
  next
    case False
    show ?thesis using False by (simp add: entry_iff [OF k'] entry_iff [OF k] other)
  qed
  then show "entry t' = (entry t)(s := ro)" by (intro ext) (metis option.exhaust option.inject)
qed

end
