(* ===== verification/Users.thy ===== *)
theory Users
  imports UserDb "HOL-Library.Sublist"
begin

text \<open>
  User management of the web server (\<open>user/goahead/src_tongyong/um.c\<close>): users, groups and access limits in
  three tables of the database. Passwords are stored under a fixed mask (\<open>umEncryptString\<close>); the access
  limit of a URL is that of the closest directory above it that has one.

  The abstract view of a table with distinct keys is a map from names to rows (\<open>entry\<close>); adding and
  deleting update the map at one name, and everything else reads it.
\<close>

section \<open>Model\<close>

abbreviation AM_NONE :: int where "AM_NONE \<equiv> 0"
abbreviation AM_FULL :: int where "AM_FULL \<equiv> 1"
abbreviation AM_DIGEST :: int where "AM_DIGEST \<equiv> 3"
abbreviation AM_INVALID :: int where "AM_INVALID \<equiv> 4"

abbreviation UM_ERR_GENERAL :: int where "UM_ERR_GENERAL \<equiv> - 1"
abbreviation UM_ERR_NOT_FOUND :: int where "UM_ERR_NOT_FOUND \<equiv> - 2"
abbreviation UM_ERR_PROTECTED :: int where "UM_ERR_PROTECTED \<equiv> - 3"
abbreviation UM_ERR_DUPLICATE :: int where "UM_ERR_DUPLICATE \<equiv> - 4"
abbreviation UM_ERR_IN_USE :: int where "UM_ERR_IN_USE \<equiv> - 5"
abbreviation UM_ERR_BAD_NAME :: int where "UM_ERR_BAD_NAME \<equiv> - 6"
abbreviation UM_ERR_BAD_PASSWORD :: int where "UM_ERR_BAD_PASSWORD \<equiv> - 7"

definition userTable :: dbTable where
  "userTable = \<lparr>dt_name = lit ''users'', columnNames = [lit ''name'', lit ''password'', lit ''group'', lit ''prot'', lit ''disable''],
     columnTypes = [T_STRING, T_STRING, T_STRING, T_INT, T_INT], nRows = 0, rows = None\<rparr>"

definition groupTable :: dbTable where
  "groupTable = \<lparr>dt_name = lit ''groups'', columnNames = [lit ''name'', lit ''priv'', lit ''method'', lit ''prot'', lit ''disable''],
     columnTypes = [T_STRING, T_INT, T_INT, T_INT, T_INT], nRows = 0, rows = None\<rparr>"

definition accessTable :: dbTable where
  "accessTable = \<lparr>dt_name = lit ''access'', columnNames = [lit ''name'', lit ''method'', lit ''secure'', lit ''group''],
     columnTypes = [T_STRING, T_INT, T_INT, T_STRING], nRows = 0, rows = None\<rparr>"

text \<open>\<open>umOpen\<close> when the module is opened first: the three tables, empty.\<close>

definition umOpen :: "kheap \<Rightarrow> db outcome" where
  "umOpen h = obind (dbRegisterDBSchema h userTable dbOpen) (\<lambda>d.
     obind (dbRegisterDBSchema h groupTable d) (dbRegisterDBSchema h accessTable))"

text \<open>The mask is used again from its start when it is used up.\<close>

definition UM_XOR_ENCRYPT :: cstring where
  "UM_XOR_ENCRYPT = lit ''*j7a(L#yZ98sSd5HfSgGjMj8;Ss;d)(*&^#@$a2s0i3g''"

fun encrypt_loop :: "cstring \<Rightarrow> cstring \<Rightarrow> cstring" where
  "encrypt_loop [] enMask = []"
| "encrypt_loop (c # s) enMask =
     (let enChar = c XOR hd enMask; rest = tl enMask in
      (if enChar \<noteq> 0 \<and> \<not> isspace enChar then enChar else c)
        # encrypt_loop s (if rest = [] then UM_XOR_ENCRYPT else rest))"

definition umEncryptString :: "cstring \<Rightarrow> cstring" where
  "umEncryptString textString = encrypt_loop textString UM_XOR_ENCRYPT"

text \<open>A cell read as an address and as a number.\<close>

definition as_str :: "cell \<Rightarrow> cstring option outcome" where
  "as_str c = (case c of Num n \<Rightarrow> if n = 0 then Ret None else Fault | Str s \<Rightarrow> Ret (Some s))"

definition as_int :: "cell \<Rightarrow> int outcome" where
  "as_int c = (case c of Num n \<Rightarrow> Ret n | Str s \<Rightarrow> Fault)"

text \<open>The row of a name, and what a column of it contains (\<open>dflt\<close> when there is no such row).\<close>

definition um_row :: "db \<Rightarrow> string \<Rightarrow> cstring \<Rightarrow> int outcome" where
  "um_row d table key = dbSearchStr d (lit table) (lit ''name'') key 0"

definition um_cell :: "db \<Rightarrow> string \<Rightarrow> string \<Rightarrow> cstring \<Rightarrow> cell \<Rightarrow> cell outcome" where
  "um_cell d table column key dflt =
     obind (um_row d table key) (\<lambda>r.
     if r \<ge> 0 then obind (dbReadInt d (lit table) (lit column) r) (\<lambda>(_, c). Ret (case c of None \<Rightarrow> dflt | Some c \<Rightarrow> c))
     else Ret dflt)"

definition um_get_int :: "db \<Rightarrow> string \<Rightarrow> string \<Rightarrow> cstring \<Rightarrow> int \<Rightarrow> int outcome" where
  "um_get_int d table column key dflt = obind (um_cell d table column key (Num dflt)) as_int"

definition um_get_str :: "db \<Rightarrow> string \<Rightarrow> string \<Rightarrow> cstring \<Rightarrow> cstring option outcome" where
  "um_get_str d table column key = obind (um_cell d table column key (Num 0)) as_str"

definition um_set_int :: "db \<Rightarrow> string \<Rightarrow> string \<Rightarrow> cstring \<Rightarrow> int \<Rightarrow> (int \<times> db) outcome" where
  "um_set_int d table column key v =
     obind (um_row d table key) (\<lambda>r.
     if r \<ge> 0 then dbWriteInt d (lit table) (lit column) r v else Ret (UM_ERR_NOT_FOUND, d))"

definition um_set_str :: "kheap \<Rightarrow> db \<Rightarrow> string \<Rightarrow> string \<Rightarrow> cstring \<Rightarrow> cstring option \<Rightarrow> (int \<times> db) outcome" where
  "um_set_str h d table column key v =
     obind (um_row d table key) (\<lambda>r.
     if r \<ge> 0 then dbWriteStr h d (lit table) (lit column) r v else Ret (UM_ERR_NOT_FOUND, d))"

definition um_exists :: "db \<Rightarrow> string \<Rightarrow> cstring \<Rightarrow> bool outcome" where
  "um_exists d table key = obind (um_row d table key) (\<lambda>r. Ret (r \<ge> 0))"

text \<open>\<open>bool_t\<close> and the privileges are 16-bit numbers.\<close>

definition short :: "int \<Rightarrow> int" where
  "short n = sint (word_of_int n :: 16 word)"

subsection \<open>Rows one after the other\<close>

text \<open>A deleted row leaves the variable of the caller at the value of the row before.\<close>

function first_row :: "db \<Rightarrow> cstring \<Rightarrow> cstring \<Rightarrow> nat \<Rightarrow> cstring option outcome" where
  "first_row d table column i =
     (if int i < dbGetTableNrow d table then
        (case dbReadInt d table column (int i) of
           Ret (rc, c) \<Rightarrow>
             (if rc = 0 \<or> rc = DB_ERR_ROW_DELETED then
                (case c of
                   None \<Rightarrow> first_row d table column (i + 1)
                 | Some c \<Rightarrow>
                     (case as_str c of
                        Ret s \<Rightarrow> if s \<noteq> None \<and> s \<noteq> Some [] then Ret s else first_row d table column (i + 1)
                      | Fault \<Rightarrow> Fault | Blocked \<Rightarrow> Blocked))
              else Ret None)
         | Fault \<Rightarrow> Fault | Blocked \<Rightarrow> Blocked)
      else Ret None)"
  by pat_completeness auto
termination
  by (relation "measure (\<lambda>(d, table, column, i). nat (dbGetTableNrow d table) - i)") auto

definition umGetFirstRowData :: "db \<Rightarrow> cstring \<Rightarrow> cstring \<Rightarrow> cstring option outcome" where
  "umGetFirstRowData d tableName columnName = first_row d tableName columnName 0"

definition umGetFirstUser :: "db \<Rightarrow> cstring option outcome" where
  "umGetFirstUser d = umGetFirstRowData d (lit ''users'') (lit ''name'')"

definition umGetFirstGroup :: "db \<Rightarrow> cstring option outcome" where
  "umGetFirstGroup d = umGetFirstRowData d (lit ''groups'') (lit ''name'')"

definition umGetFirstAccessLimit :: "db \<Rightarrow> cstring option outcome" where
  "umGetFirstAccessLimit d = umGetFirstRowData d (lit ''access'') (lit ''name'')"

subsection \<open>Users\<close>

definition umCheckName :: "cstring \<Rightarrow> bool" where
  "umCheckName name = (name \<noteq> [] \<and> list_all (\<lambda>c. \<not> isspace c) name)"

definition umUserExists :: "db \<Rightarrow> cstring \<Rightarrow> bool outcome" where
  "umUserExists d = um_exists d ''users''"

definition umGroupExists :: "db \<Rightarrow> cstring \<Rightarrow> bool outcome" where
  "umGroupExists d = um_exists d ''groups''"

definition umAccessLimitExists :: "db \<Rightarrow> cstring \<Rightarrow> bool outcome" where
  "umAccessLimitExists d = um_exists d ''access''"

text \<open>The copy of the password is encrypted in place, which needs the copy.\<close>

definition encrypted :: "kheap \<Rightarrow> cstring \<Rightarrow> cstring outcome" where
  "encrypted h pass = (case bstrdup h (Some pass) of None \<Rightarrow> Fault | Some p \<Rightarrow> Ret (umEncryptString p))"

definition umAddUser :: "kheap \<Rightarrow> cstring \<Rightarrow> cstring \<Rightarrow> cstring \<Rightarrow> int \<Rightarrow> int \<Rightarrow> db \<Rightarrow> (int \<times> db) outcome" where
  "umAddUser h user pass grp prot disabled d =
     obind (umUserExists d user) (\<lambda>dup.
     if dup then Ret (UM_ERR_DUPLICATE, d)
     else if \<not> umCheckName user then Ret (UM_ERR_BAD_NAME, d)
     else if \<not> umCheckName pass then Ret (UM_ERR_BAD_PASSWORD, d)
     else obind (umGroupExists d grp) (\<lambda>g.
     if \<not> g then Ret (UM_ERR_NOT_FOUND, d)
     else obind (dbAddRow h d (lit ''users'')) (\<lambda>(r, d).
     if r < 0 then Ret (UM_ERR_GENERAL, d)
     else obind (dbWriteStr h d (lit ''users'') (lit ''name'') r (Some user)) (\<lambda>(rc, d).
     if rc \<noteq> 0 then Ret (UM_ERR_GENERAL, d)
     else obind (encrypted h pass) (\<lambda>password.
     obind (dbWriteStr h d (lit ''users'') (lit ''password'') r (Some password)) (\<lambda>(_, d).
     obind (dbWriteStr h d (lit ''users'') (lit ''group'') r (Some grp)) (\<lambda>(_, d).
     obind (dbWriteInt d (lit ''users'') (lit ''prot'') r prot) (\<lambda>(_, d).
     obind (dbWriteInt d (lit ''users'') (lit ''disable'') r disabled) (\<lambda>(_, d). Ret (0, d))))))))))"

definition umGetUserProtected :: "db \<Rightarrow> cstring \<Rightarrow> bool outcome" where
  "umGetUserProtected d user = obind (um_get_int d ''users'' ''prot'' user 0) (\<lambda>p. Ret (short p \<noteq> 0))"

definition umDeleteUser :: "cstring \<Rightarrow> db \<Rightarrow> (int \<times> db) outcome" where
  "umDeleteUser user d =
     obind (umGetUserProtected d user) (\<lambda>p.
     if p then Ret (UM_ERR_PROTECTED, d)
     else obind (um_row d ''users'' user) (\<lambda>r.
     if r \<ge> 0 then dbDeleteRow d (lit ''users'') r else Ret (UM_ERR_NOT_FOUND, d)))"

definition umGetUserPassword :: "kheap \<Rightarrow> db \<Rightarrow> cstring \<Rightarrow> cstring option outcome" where
  "umGetUserPassword h d user =
     obind (um_row d ''users'' user) (\<lambda>r.
     if r \<ge> 0 then
       obind (dbReadInt d (lit ''users'') (lit ''password'') r) (\<lambda>(_, c).
       obind (as_str (case c of None \<Rightarrow> Num 0 | Some c \<Rightarrow> c)) (\<lambda>pass.
       case bstrdup h pass of None \<Rightarrow> Fault | Some p \<Rightarrow> Ret (Some (umEncryptString p))))
     else Ret None)"

definition umSetUserPassword :: "kheap \<Rightarrow> cstring \<Rightarrow> cstring \<Rightarrow> db \<Rightarrow> (int \<times> db) outcome" where
  "umSetUserPassword h user pass d =
     obind (um_row d ''users'' user) (\<lambda>r.
     if r < 0 then Ret (UM_ERR_NOT_FOUND, d)
     else obind (encrypted h pass) (\<lambda>password.
       dbWriteStr h d (lit ''users'') (lit ''password'') r (Some password)))"

definition umGetUserGroup :: "db \<Rightarrow> cstring \<Rightarrow> cstring option outcome" where
  "umGetUserGroup d = um_get_str d ''users'' ''group''"

definition umSetUserGroup :: "kheap \<Rightarrow> cstring \<Rightarrow> cstring \<Rightarrow> db \<Rightarrow> (int \<times> db) outcome" where
  "umSetUserGroup h user grp d = um_set_str h d ''users'' ''group'' user (Some grp)"

definition umGetUserEnabled :: "db \<Rightarrow> cstring \<Rightarrow> bool outcome" where
  "umGetUserEnabled d user = obind (um_get_int d ''users'' ''disable'' user 1) (\<lambda>n. Ret (n = 0))"

definition umSetUserEnabled :: "cstring \<Rightarrow> bool \<Rightarrow> db \<Rightarrow> (int \<times> db) outcome" where
  "umSetUserEnabled user enabled d = um_set_int d ''users'' ''disable'' user (if enabled then 0 else 1)"

definition umSetUserProtected :: "cstring \<Rightarrow> int \<Rightarrow> db \<Rightarrow> (int \<times> db) outcome" where
  "umSetUserProtected user protect d = um_set_int d ''users'' ''prot'' user protect"

subsection \<open>Groups\<close>

definition umAddGroup :: "kheap \<Rightarrow> cstring \<Rightarrow> int \<Rightarrow> int \<Rightarrow> int \<Rightarrow> int \<Rightarrow> db \<Rightarrow> (int \<times> db) outcome" where
  "umAddGroup h grp priv am prot disabled d =
     obind (umGroupExists d grp) (\<lambda>dup.
     if dup then Ret (UM_ERR_DUPLICATE, d)
     else if \<not> umCheckName grp then Ret (UM_ERR_BAD_NAME, d)
     else obind (dbAddRow h d (lit ''groups'')) (\<lambda>(r, d).
     if r < 0 then Ret (UM_ERR_GENERAL, d)
     else obind (dbWriteStr h d (lit ''groups'') (lit ''name'') r (Some grp)) (\<lambda>(rc, d).
     if rc \<noteq> 0 then Ret (UM_ERR_GENERAL, d)
     else obind (dbWriteInt d (lit ''groups'') (lit ''priv'') r priv) (\<lambda>(_, d).
     obind (dbWriteInt d (lit ''groups'') (lit ''method'') r am) (\<lambda>(_, d).
     obind (dbWriteInt d (lit ''groups'') (lit ''prot'') r prot) (\<lambda>(_, d).
     obind (dbWriteInt d (lit ''groups'') (lit ''disable'') r disabled) (\<lambda>(_, d). Ret (0, d))))))))"

definition umGetGroupInUse :: "db \<Rightarrow> cstring \<Rightarrow> bool outcome" where
  "umGetGroupInUse d grp =
     obind (dbSearchStr d (lit ''users'') (lit ''group'') grp 0) (\<lambda>r.
     if r \<ge> 0 then Ret True
     else obind (dbSearchStr d (lit ''access'') (lit ''group'') grp 0) (\<lambda>r. Ret (r \<ge> 0)))"

definition umGetGroupAccessMethod :: "db \<Rightarrow> cstring \<Rightarrow> int outcome" where
  "umGetGroupAccessMethod d grp = um_get_int d ''groups'' ''method'' grp AM_INVALID"

definition umSetGroupAccessMethod :: "cstring \<Rightarrow> int \<Rightarrow> db \<Rightarrow> (int \<times> db) outcome" where
  "umSetGroupAccessMethod grp am d = um_set_int d ''groups'' ''method'' grp am"

definition umGetGroupPrivilege :: "db \<Rightarrow> cstring \<Rightarrow> int outcome" where
  "umGetGroupPrivilege d grp = obind (um_get_int d ''groups'' ''priv'' grp (- 1)) (\<lambda>n. Ret (short n))"

definition umSetGroupPrivilege :: "cstring \<Rightarrow> int \<Rightarrow> db \<Rightarrow> (int \<times> db) outcome" where
  "umSetGroupPrivilege grp privilege d = um_set_int d ''groups'' ''priv'' grp privilege"

definition umGetGroupEnabled :: "db \<Rightarrow> cstring \<Rightarrow> bool outcome" where
  "umGetGroupEnabled d grp = obind (um_get_int d ''groups'' ''disable'' grp 1) (\<lambda>n. Ret (n = 0))"

definition umSetGroupEnabled :: "cstring \<Rightarrow> bool \<Rightarrow> db \<Rightarrow> (int \<times> db) outcome" where
  "umSetGroupEnabled grp enabled d = um_set_int d ''groups'' ''disable'' grp (if enabled then 0 else 1)"

definition umGetGroupProtected :: "db \<Rightarrow> cstring \<Rightarrow> bool outcome" where
  "umGetGroupProtected d grp = obind (um_get_int d ''groups'' ''prot'' grp 0) (\<lambda>p. Ret (short p \<noteq> 0))"

definition umSetGroupProtected :: "cstring \<Rightarrow> int \<Rightarrow> db \<Rightarrow> (int \<times> db) outcome" where
  "umSetGroupProtected grp protect d = um_set_int d ''groups'' ''prot'' grp protect"

definition umDeleteGroup :: "cstring \<Rightarrow> db \<Rightarrow> (int \<times> db) outcome" where
  "umDeleteGroup grp d =
     obind (umGetGroupInUse d grp) (\<lambda>u.
     if u then Ret (UM_ERR_IN_USE, d)
     else obind (umGetGroupProtected d grp) (\<lambda>p.
     if p then Ret (UM_ERR_PROTECTED, d)
     else obind (um_row d ''groups'' grp) (\<lambda>r.
     if r < 0 then Ret (UM_ERR_NOT_FOUND, d) else dbDeleteRow d (lit ''groups'') r)))"

subsection \<open>Access limits\<close>

definition umAddAccessLimit :: "kheap \<Rightarrow> cstring \<Rightarrow> int \<Rightarrow> int \<Rightarrow> cstring option \<Rightarrow> db \<Rightarrow> (int \<times> db) outcome" where
  "umAddAccessLimit h url am secure grp d =
     obind (umAccessLimitExists d url) (\<lambda>dup.
     if dup then Ret (UM_ERR_DUPLICATE, d)
     else obind (dbAddRow h d (lit ''access'')) (\<lambda>(r, d).
     if r < 0 then Ret (UM_ERR_GENERAL, d)
     else obind (dbWriteStr h d (lit ''access'') (lit ''name'') r (Some url)) (\<lambda>(rc, d).
     if rc < 0 then Ret (UM_ERR_GENERAL, d)
     else obind (dbWriteInt d (lit ''access'') (lit ''method'') r am) (\<lambda>(_, d).
     obind (dbWriteInt d (lit ''access'') (lit ''secure'') r secure) (\<lambda>(_, d).
     obind (dbWriteStr h d (lit ''access'') (lit ''group'') r grp) (\<lambda>(_, d). Ret (0, d)))))))"

definition umDeleteAccessLimit :: "cstring \<Rightarrow> db \<Rightarrow> (int \<times> db) outcome" where
  "umDeleteAccessLimit url d =
     obind (um_row d ''access'' url) (\<lambda>r.
     if r < 0 then Ret (UM_ERR_NOT_FOUND, d) else dbDeleteRow d (lit ''access'') r)"

definition umGetAccessLimitMethod :: "db \<Rightarrow> cstring \<Rightarrow> int outcome" where
  "umGetAccessLimitMethod d url = um_get_int d ''access'' ''method'' url AM_INVALID"

definition umSetAccessLimitMethod :: "cstring \<Rightarrow> int \<Rightarrow> db \<Rightarrow> (int \<times> db) outcome" where
  "umSetAccessLimitMethod url am d = um_set_int d ''access'' ''method'' url am"

definition umGetAccessLimitSecure :: "db \<Rightarrow> cstring \<Rightarrow> int outcome" where
  "umGetAccessLimitSecure d url = obind (um_get_int d ''access'' ''secure'' url (- 1)) (\<lambda>n. Ret (short n))"

definition umSetAccessLimitSecure :: "cstring \<Rightarrow> int \<Rightarrow> db \<Rightarrow> (int \<times> db) outcome" where
  "umSetAccessLimitSecure url secure d = um_set_int d ''access'' ''secure'' url secure"

definition umGetAccessLimitGroup :: "db \<Rightarrow> cstring \<Rightarrow> cstring option outcome" where
  "umGetAccessLimitGroup d = um_get_str d ''access'' ''group''"

definition umSetAccessLimitGroup :: "kheap \<Rightarrow> cstring \<Rightarrow> cstring option \<Rightarrow> db \<Rightarrow> (int \<times> db) outcome" where
  "umSetAccessLimitGroup h url grp d = um_set_str h d ''access'' ''group'' url grp"

definition is_slash :: "byte \<Rightarrow> bool" where
  "is_slash c = (c = SLASH \<or> c = 0x5C)"

text \<open>The text in front of the last directory marker, the marker included.\<close>

definition parent_dir :: "cstring \<Rightarrow> cstring" where
  "parent_dir url = rev (dropWhile (\<lambda>c. \<not> is_slash c) (dropWhile is_slash (rev url)))"

lemma parent_dir_shorter: "url \<noteq> [] \<Longrightarrow> length (parent_dir url) < length url"
proof (cases "rev url")
  case (Cons c cs)
  assume "url \<noteq> []"
  have "length (dropWhile (\<lambda>c. \<not> is_slash c) (dropWhile is_slash (rev url))) < length (rev url)"
    unfolding Cons using length_dropWhile_le [of "\<lambda>c. \<not> is_slash c" "dropWhile is_slash cs"] length_dropWhile_le [of is_slash cs]
      length_dropWhile_le [of "\<lambda>c. \<not> is_slash c" cs] by (auto simp: less_Suc_eq_le)
  then show ?thesis by (simp add: parent_dir_def)
qed simp

text \<open>When the copy of a limit that was found can not be allocated, the loop goes on for ever.\<close>

function limit_loop :: "kheap \<Rightarrow> db \<Rightarrow> cstring \<Rightarrow> cstring option outcome" where
  "limit_loop h d url =
     (if url = [] then Ret None
      else case umAccessLimitExists d url of
          Ret True \<Rightarrow> if kmalloc_ok h (length url + 1) then Ret (Some url) else Blocked
        | Ret False \<Rightarrow> limit_loop h d (parent_dir url)
        | Fault \<Rightarrow> Fault | Blocked \<Rightarrow> Blocked)"
  by pat_completeness auto
termination
  by (relation "measure (\<lambda>(h, d, url). length url)") (simp_all add: parent_dir_shorter)

declare limit_loop.simps [simp del] first_row.simps [simp del]

definition umGetAccessLimit :: "kheap \<Rightarrow> db \<Rightarrow> cstring \<Rightarrow> cstring option outcome" where
  "umGetAccessLimit h d url = (if kmalloc_ok h (length url + 1) then limit_loop h d url else Fault)"

definition umGetAccessMethodForURL :: "kheap \<Rightarrow> db \<Rightarrow> cstring \<Rightarrow> int outcome" where
  "umGetAccessMethodForURL h d url =
     obind (umGetAccessLimit h d url) (\<lambda>limit.
     case limit of None \<Rightarrow> Ret AM_FULL | Some urlHavingLimit \<Rightarrow>
     obind (umGetAccessLimitGroup d urlHavingLimit) (\<lambda>grp.
     if grp \<noteq> None \<and> grp \<noteq> Some [] then umGetGroupAccessMethod d (the grp)
     else umGetAccessLimitMethod d urlHavingLimit))"

text \<open>The group of a user is read as a string at once.\<close>

definition umUserCanAccessURL :: "kheap \<Rightarrow> db \<Rightarrow> cstring \<Rightarrow> cstring \<Rightarrow> bool outcome" where
  "umUserCanAccessURL h d user url =
     obind (umUserExists d user) (\<lambda>ex. if \<not> ex then Ret False else
     obind (umGetUserEnabled d user) (\<lambda>en. if \<not> en then Ret False else
     obind (umGetUserGroup d user) (\<lambda>usergroup.
     case usergroup of None \<Rightarrow> Fault | Some usergroup \<Rightarrow>
     obind (umGetGroupPrivilege d usergroup) (\<lambda>priv. if priv = 0 then Ret False else
     obind (umGetGroupEnabled d usergroup) (\<lambda>gen. if \<not> gen then Ret False else
     obind (umGetGroupAccessMethod d usergroup) (\<lambda>gam. if gam = AM_NONE then Ret False else
     obind (umGetAccessLimit h d url) (\<lambda>limit.
     case limit of None \<Rightarrow> Ret True | Some urlHavingLimit \<Rightarrow>
     obind (umGetAccessLimitMethod d urlHavingLimit) (\<lambda>amURL.
     obind (umGetAccessLimitGroup d urlHavingLimit) (\<lambda>grp.
     if amURL = AM_NONE then Ret False
     else if grp \<noteq> None \<and> grp \<noteq> Some [] then Ret (the grp = usergroup)
     else Ret True)))))))))"

section \<open>Passwords\<close>

lemma isspace_not_zero: "\<not> isspace 0"
  by (simp add: isspace_def)

lemma mask_bytes: "list_all (\<lambda>c. c \<noteq> 0) UM_XOR_ENCRYPT" "UM_XOR_ENCRYPT \<noteq> []"
  by (simp_all add: UM_XOR_ENCRYPT_def)

lemma length_encrypt_loop [simp]: "length (encrypt_loop s m) = length s"
  by (induction s m rule: encrypt_loop.induct) (simp_all add: Let_def)

lemma encrypt_loop_twice:
  "list_all (\<lambda>c. c \<noteq> 0 \<and> \<not> isspace c) s \<Longrightarrow> encrypt_loop (encrypt_loop s m) m = s"
  by (induction s m rule: encrypt_loop.induct) (auto simp: Let_def xor.assoc)

text \<open>The mask that protects a stored password is its own inverse on every password without white
  space, and keeps the text free of NUL bytes and white space, so that it can be stored as a C string.\<close>

theorem umEncryptString_involution:
  assumes "is_cstring s" and "list_all (\<lambda>c. \<not> isspace c) s"
  shows "umEncryptString (umEncryptString s) = s \<and> is_cstring (umEncryptString s)
    \<and> list_all (\<lambda>c. \<not> isspace c) (umEncryptString s) \<and> length (umEncryptString s) = length s"
proof -
  have s: "list_all (\<lambda>c. c \<noteq> 0 \<and> \<not> isspace c) s" using assms by (auto simp: list_all_iff is_cstring_def)
  have "list_all (\<lambda>c. c \<noteq> 0 \<and> \<not> isspace c) (encrypt_loop s m)" if "list_all (\<lambda>c. c \<noteq> 0 \<and> \<not> isspace c) s" for s m
    using that by (induction s m rule: encrypt_loop.induct) (auto simp: Let_def)
  from this [OF s] have "list_all (\<lambda>c. c \<noteq> 0 \<and> \<not> isspace c) (umEncryptString s)" by (simp add: umEncryptString_def)
  then show ?thesis using encrypt_loop_twice [OF s] by (auto simp: umEncryptString_def list_all_iff is_cstring_def)
qed

theorem umEncryptString_involution_witness:
  "umEncryptString (umEncryptString (lit ''admin'')) = lit ''admin''"
  using umEncryptString_involution [of "lit ''admin''"] by (simp add: isspace_def)

section \<open>The tables as maps\<close>

fun full_cell :: "ctype \<Rightarrow> cell \<Rightarrow> bool" where
  "full_cell T_INT c = (case c of Num _ \<Rightarrow> True | Str _ \<Rightarrow> False)"
| "full_cell T_STRING c = (case c of Num _ \<Rightarrow> False | Str _ \<Rightarrow> True)"

definition good :: "dbTable \<Rightarrow> dbTable \<Rightarrow> bool" where
  "good s t = (table_ok t \<and> keyed t \<and> same_schema s t \<and> (\<forall>i r. row_of t i = Some r \<longrightarrow> list_all2 full_cell (columnTypes s) r))"

definition um_ok :: "db \<Rightarrow> bool" where
  "um_ok d = (\<exists>tu tg ta. d = [Some tu, Some tg, Some ta] \<and> good userTable tu \<and> good groupTable tg \<and> good accessTable ta)"

definition schema :: "string \<Rightarrow> dbTable" where
  "schema table = (if table = ''users'' then userTable else if table = ''groups'' then groupTable else accessTable)"

definition table_no :: "string \<Rightarrow> nat" where
  "table_no table = (if table = ''users'' then 0 else if table = ''groups'' then 1 else 2)"

abbreviation um_tables :: "string set" where
  "um_tables \<equiv> {''users'', ''groups'', ''access''}"

definition um_map :: "db \<Rightarrow> string \<Rightarrow> cstring \<Rightarrow> cell list option" where
  "um_map d table = entry (the (d ! table_no table))"

lemma schema_names: "table \<in> um_tables \<Longrightarrow> dt_name (schema table) = lit table"
  by (auto simp: schema_def userTable_def groupTable_def accessTable_def)

lemma table_names:
  "dt_name userTable = lit ''users''" "dt_name groupTable = lit ''groups''" "dt_name accessTable = lit ''access''"
  by (simp_all add: userTable_def groupTable_def accessTable_def)

lemma names_differ:
  "lit ''users'' \<noteq> lit ''groups''" "lit ''users'' \<noteq> lit ''access''" "lit ''groups'' \<noteq> lit ''access''"
  by simp_all

lemma um_table_ids:
  assumes "dt_name tu = lit ''users''" and "dt_name tg = lit ''groups''" and "dt_name ta = lit ''access''"
  shows "dbGetTableId [Some tu, Some tg, Some ta] (lit ''users'') = 0"
    "dbGetTableId [Some tu, Some tg, Some ta] (lit ''groups'') = 1"
    "dbGetTableId [Some tu, Some tg, Some ta] (lit ''access'') = 2"
  by (simp_all only: dbGetTableId_def table_loop.simps option.sel assms names_differ names_differ [symmetric] simp_thms if_True if_False option.simps)

lemma um_has_table:
  assumes "um_ok d" and "table \<in> um_tables"
  shows "has_table d (lit table) (table_no table) (the (d ! table_no table))" "good (schema table) (the (d ! table_no table))"
proof -
  obtain tu tg ta where d: "d = [Some tu, Some tg, Some ta]" and g: "good userTable tu" "good groupTable tg" "good accessTable ta"
    using assms(1) by (auto simp: um_ok_def)
  then have n: "dt_name tu = lit ''users''" "dt_name tg = lit ''groups''" "dt_name ta = lit ''access''"
    by (simp_all only: good_def same_schema_def table_names)
  consider "table = ''users''" | "table = ''groups''" | "table = ''access''" using assms(2) by blast
  then show "has_table d (lit table) (table_no table) (the (d ! table_no table))" "good (schema table) (the (d ! table_no table))"
    using um_table_ids [OF n] g
    by (cases; simp del: lit_Cons add: d has_table_def table_no_def schema_def)+
qed

lemma good_column: "good s t \<Longrightarrow> column_loop (columnNames s) name 0 = int c \<Longrightarrow> column_at t name c"
  by (simp add: good_def same_schema_def column_at_def)

lemma um_types:
  "columnTypes (schema ''users'') = [T_STRING, T_STRING, T_STRING, T_INT, T_INT]"
  "columnTypes (schema ''groups'') = [T_STRING, T_INT, T_INT, T_INT, T_INT]"
  "columnTypes (schema ''access'') = [T_STRING, T_INT, T_INT, T_STRING]"
  by (simp_all add: schema_def userTable_def groupTable_def accessTable_def)

lemma um_key: "table \<in> um_tables \<Longrightarrow> column_loop (columnNames (schema table)) (lit ''name'') 0 = int 0 \<and> columnTypes (schema table) ! 0 = T_STRING"
  by (auto simp: schema_def userTable_def groupTable_def accessTable_def)

lemma um_row_cases:
  assumes "um_ok d" and "table \<in> um_tables"
  obtains "um_row d table key = Ret (- 1)" "um_map d table key = None"
  | i r where "um_row d table key = Ret (int i)" "row_of (the (d ! table_no table)) i = Some r" "um_map d table key = Some r" "r ! 0 = Str key"
proof -
  let ?t = "the (d ! table_no table)"
  note tab = um_has_table [OF assms]
  have t: "table_ok ?t" "keyed ?t" "column_at ?t (lit ''name'') 0" "columnTypes ?t ! 0 = T_STRING"
    using tab(2) um_key [OF assms(2)] good_column [OF tab(2), of "lit ''name''" 0] by (simp_all add: good_def same_schema_def)
  from dbSearchStr_ok [OF tab(1) t(1,3,4), of key] show ?thesis
    using that entry_None [OF t(2), of key] entry_iff [OF t(2), of key] by (auto simp: um_row_def um_map_def)
qed

lemma um_exists_ok: "um_ok d \<Longrightarrow> table \<in> um_tables \<Longrightarrow> um_exists d table key = Ret (um_map d table key \<noteq> None)"
  by (rule um_row_cases [of d table key]) (simp_all add: um_exists_def)

lemma um_cell_ok:
  assumes "um_ok d" and "table \<in> um_tables" and "column_loop (columnNames (schema table)) (lit col) 0 = int c"
  shows "um_cell d table col key dflt = Ret (case um_map d table key of None \<Rightarrow> dflt | Some r \<Rightarrow> r ! c)"
proof -
  note tab = um_has_table [OF assms(1,2)]
  have "table_ok (the (d ! table_no table))" using tab(2) by (simp add: good_def)
  from dbReadInt_ok [OF tab(1) this good_column [OF tab(2) assms(3)]] show ?thesis
    by (rule_tac um_row_cases [OF assms(1,2), of key]) (auto simp: um_cell_def)
qed


text \<open>One row of one table set, and nothing else.\<close>

definition um_upd :: "db \<Rightarrow> string \<Rightarrow> cstring \<Rightarrow> cell list option \<Rightarrow> db \<Rightarrow> bool" where
  "um_upd d table key ro d' = (um_ok d' \<and> (\<forall>x \<in> um_tables. um_map d' x = (if x = table then (um_map d table)(key := ro) else um_map d x)))"

lemma um_ok_iff:
  "um_ok d \<longleftrightarrow> length d = 3 \<and> (\<forall>table \<in> um_tables. d ! table_no table \<noteq> None \<and> good (schema table) (the (d ! table_no table)))"
proof
  assume ok: "um_ok d"
  then have "length d = 3" by (auto simp: um_ok_def)
  then show "length d = 3 \<and> (\<forall>table \<in> um_tables. d ! table_no table \<noteq> None \<and> good (schema table) (the (d ! table_no table)))"
    using um_has_table [OF ok] by (auto simp: has_table_def simp del: lit_Cons)
next
  assume r: "length d = 3 \<and> (\<forall>table \<in> um_tables. d ! table_no table \<noteq> None \<and> good (schema table) (the (d ! table_no table)))"
  then obtain a b c where d: "d = [a, b, c]" by (auto simp: numeral_3_eq_3 length_Suc_conv)
  then show "um_ok d" using r by (auto simp: um_ok_def table_no_def schema_def)
qed

lemma table_no_inj: "x \<in> um_tables \<Longrightarrow> y \<in> um_tables \<Longrightarrow> table_no x = table_no y \<longleftrightarrow> x = y"
  by (auto simp: table_no_def)

lemma table_no_bound: "table_no x < 3"
  by (simp add: table_no_def)

lemma um_changed:
  assumes ok: "um_ok d" and table: "table \<in> um_tables" and t: "t = the (d ! table_no table)"
    and ch: "changed d (table_no table) t i ro d' t'"
    and old: "\<forall>r. row_of t i = Some r \<longrightarrow> r ! 0 = Str key" "row_of t i = None \<longrightarrow> um_map d table key = None"
    and new: "\<forall>r. ro = Some r \<longrightarrow> r ! 0 = Str key \<and> list_all2 full_cell (columnTypes (schema table)) r"
  shows "um_upd d table key ro d'"
proof -
  note g = um_has_table(2) [OF ok table, folded t]
  have d': "d' = d[table_no table := Some t']" "row_of t' = (row_of t)(i := ro)" "table_ok t'" "same_schema t t'"
    using ch by (simp_all add: changed_def)
  have k: "keyed t" "same_schema (schema table) t" using g by (simp_all add: good_def)
  have e: "keyed t'" "entry t' = (entry t)(key := ro)"
    using entry_upd [OF k(1) d'(2) old(1)] old(2) new by (simp_all add: um_map_def t)
  have "good (schema table) t'"
    using g d' e(1) new by (auto simp: good_def same_schema_def split: if_splits)
  moreover have len: "length d = 3" using ok by (simp add: um_ok_iff)
  ultimately have ok': "um_ok d'"
    using ok table table_no_inj [OF table] unfolding um_ok_iff d'(1) by (auto simp: nth_list_update table_no_bound)
  have "um_map d' x = (if x = table then (um_map d table)(key := ro) else um_map d x)" if "x \<in> um_tables" for x
    using that e(2) len table_no_inj [OF table that] table_no_bound [of table]
    by (auto simp: um_map_def d'(1) t nth_list_update)
  then show ?thesis using ok' unfolding um_upd_def by blast
qed

lemma um_key_cells:
  assumes "um_ok d" and "table \<in> um_tables" and "um_map d table key = Some r"
  shows "r ! 0 = Str key" "list_all2 full_cell (columnTypes (schema table)) r"
proof -
  note g = um_has_table(2) [OF assms(1,2)]
  then have k: "keyed (the (d ! table_no table))" by (simp add: good_def)
  obtain i where i: "row_of (the (d ! table_no table)) i = Some r" "r ! 0 = Str key"
    using assms(3) unfolding um_map_def entry_iff [OF k] by blast
  then show "r ! 0 = Str key" "list_all2 full_cell (columnTypes (schema table)) r" using g by (auto simp: good_def)
qed

text \<open>A column of type \<open>ty\<close>.\<close>

definition um_column :: "string \<Rightarrow> string \<Rightarrow> nat \<Rightarrow> ctype \<Rightarrow> bool" where
  "um_column table col c ty = (column_loop (columnNames (schema table)) (lit col) 0 = int c \<and> columnTypes (schema table) ! c = ty)"

lemma um_columns:
  "um_column ''users'' ''name'' 0 T_STRING"
  "um_column ''users'' ''password'' 1 T_STRING"
  "um_column ''users'' ''group'' 2 T_STRING"
  "um_column ''users'' ''prot'' 3 T_INT"
  "um_column ''users'' ''disable'' 4 T_INT"
  "um_column ''groups'' ''name'' 0 T_STRING"
  "um_column ''groups'' ''priv'' 1 T_INT"
  "um_column ''groups'' ''method'' 2 T_INT"
  "um_column ''groups'' ''prot'' 3 T_INT"
  "um_column ''groups'' ''disable'' 4 T_INT"
  "um_column ''access'' ''name'' 0 T_STRING"
  "um_column ''access'' ''method'' 1 T_INT"
  "um_column ''access'' ''secure'' 2 T_INT"
  "um_column ''access'' ''group'' 3 T_STRING"
  by (simp_all add: um_column_def schema_def userTable_def groupTable_def accessTable_def)

lemma nth_list_update': "i < length xs \<Longrightarrow> xs[j := x] ! i = (if i = j then x else xs ! i)"
  by auto

lemma um_write:
  assumes ok: "um_ok d" and table: "table \<in> um_tables" and col: "um_column table col c ty" and row: "um_map d table key = Some r"
    and i: "row_of (the (d ! table_no table)) i = Some r" and ch: "changed d (table_no table) (the (d ! table_no table)) i (Some (r[c := v])) d' t'"
    and v: "full_cell ty v" and c: "c \<noteq> 0"
  shows "um_upd d table key (Some (r[c := v])) d'"
proof (rule um_changed [OF ok table refl ch])
  note r = um_key_cells [OF ok table row]
  show "\<forall>r. row_of (the (d ! table_no table)) i = Some r \<longrightarrow> r ! 0 = Str key" using i r(1) by simp
  show "row_of (the (d ! table_no table)) i = None \<longrightarrow> um_map d table key = None" using i by simp
  show "\<forall>x. Some (r[c := v]) = Some x \<longrightarrow> x ! 0 = Str key \<and> list_all2 full_cell (columnTypes (schema table)) x"
    using r v c col by (auto simp: um_column_def list_all2_conv_all_nth nth_list_update')
qed

lemma um_column_at:
  assumes "um_ok d" and "table \<in> um_tables" and "um_column table col c ty"
  shows "table_ok (the (d ! table_no table))" "column_at (the (d ! table_no table)) (lit col) c" "columnTypes (the (d ! table_no table)) ! c = ty"
  using um_has_table(2) [OF assms(1,2)] good_column [of "schema table" _ "lit col" c] assms(3)
  by (simp_all add: good_def same_schema_def um_column_def)

lemma um_set_int_ok:
  assumes ok: "um_ok d" and table: "table \<in> um_tables" and col: "um_column table col c T_INT" and c: "c \<noteq> 0"
  shows "case um_map d table key of None \<Rightarrow> um_set_int d table col key n = Ret (UM_ERR_NOT_FOUND, d)
    | Some r \<Rightarrow> \<exists>d'. um_set_int d table col key n = Ret (0, d') \<and> um_upd d table key (Some (r[c := Num n])) d'"
proof (rule um_row_cases [OF ok table, of key])
  fix i r
  assume i: "um_row d table key = Ret (int i)" "row_of (the (d ! table_no table)) i = Some r" "um_map d table key = Some r"
  note t = um_column_at [OF ok table col]
  obtain d' t' where "dbWriteInt d (lit table) (lit col) (int i) n = Ret (0, d')"
    "changed d (table_no table) (the (d ! table_no table)) i (Some (r[c := Num n])) d' t'"
    by (rule dbWriteInt_ok [OF um_has_table(1) [OF ok table] t(1) i(2) t(2,3)])
  then show ?thesis using um_write [OF ok table col i(3,2)] i c by (auto simp: um_set_int_def)
qed (simp add: um_set_int_def)

lemma um_write_str:
  assumes heap: "\<And>n. kmalloc_ok h n" and ok: "um_ok d" and table: "table \<in> um_tables" and col: "um_column table col c T_STRING" and c: "c \<noteq> 0"
    and i: "row_of (the (d ! table_no table)) i = Some r" and row: "um_map d table key = Some r"
  shows "\<exists>d'. dbWriteStr h d (lit table) (lit col) (int i) (Some s) = Ret (0, d') \<and> um_upd d table key (Some (r[c := Str s])) d'"
proof -
  note t = um_column_at [OF ok table col]
  obtain d' t' where "dbWriteStr h d (lit table) (lit col) (int i) (Some s) = Ret (0, d')"
    "changed d (table_no table) (the (d ! table_no table)) i (Some (r[c := Str s])) d' t'"
    by (rule dbWriteStr_ok [OF heap um_has_table(1) [OF ok table] t(1) i t(2,3)])
  then show ?thesis using um_write [OF ok table col row i] c by auto
qed

lemma dbWriteStr_NULL: "dbWriteStr h d table col i None = dbWriteStr h d table col i (Some [])"
proof -
  have "bstrdup h None = bstrdup h (Some [])" by (simp add: bstrdup_def)
  then show ?thesis by (simp only: dbWriteStr_def)
qed

lemma um_set_str_ok:
  assumes heap: "\<And>n. kmalloc_ok h n" and ok: "um_ok d" and table: "table \<in> um_tables" and col: "um_column table col c T_STRING" and c: "c \<noteq> 0"
  shows "case um_map d table key of None \<Rightarrow> um_set_str h d table col key (Some s) = Ret (UM_ERR_NOT_FOUND, d)
    | Some r \<Rightarrow> \<exists>d'. um_set_str h d table col key (Some s) = Ret (0, d') \<and> um_upd d table key (Some (r[c := Str s])) d'"
proof (rule um_row_cases [OF ok table, of key])
  fix i r
  assume i: "um_row d table key = Ret (int i)" "row_of (the (d ! table_no table)) i = Some r" "um_map d table key = Some r"
  then show ?thesis using um_write_str [OF heap ok table col c i(2,3), of s] by (auto simp: um_set_str_def)
qed (simp add: um_set_str_def)

lemma um_delete_ok:
  assumes ok: "um_ok d" and table: "table \<in> um_tables" and row: "um_row d table key = Ret (int i)" "um_map d table key = Some r"
    and i: "row_of (the (d ! table_no table)) i = Some r"
  shows "\<exists>d'. dbDeleteRow d (lit table) (int i) = Ret (0, d') \<and> um_upd d table key None d'"
proof -
  note tab = um_has_table [OF ok table]
  have t: "table_ok (the (d ! table_no table))" using tab(2) by (simp add: good_def)
  obtain d' t' where d': "dbDeleteRow d (lit table) (int i) = Ret (0, d')" "changed d (table_no table) (the (d ! table_no table)) i None d' t'"
    by (rule dbDeleteRow_ok [OF tab(1) t i])
  have "um_upd d table key None d'"
    using um_changed [OF ok table refl d'(2), of key] um_key_cells(1) [OF ok table row(2)] i by simp
  then show ?thesis using d'(1) by blast
qed


text \<open>A new row while it is filled, column by column.\<close>

definition filling :: "db \<Rightarrow> string \<Rightarrow> nat \<Rightarrow> cell list \<Rightarrow> db \<Rightarrow> bool" where
  "filling d table i r d' = (\<exists>t'. changed d (table_no table) (the (d ! table_no table)) i (Some r) d' t')"

lemma filling_start:
  assumes heap: "\<And>n. kmalloc_ok h n" and ok: "um_ok d" and table: "table \<in> um_tables"
  obtains i d' where "dbAddRow h d (lit table) = Ret (int i, d')" "row_of (the (d ! table_no table)) i = None"
    "filling d table i (replicate (length (columnNames (schema table))) (Num 0)) d'"
proof -
  note tab = um_has_table [OF ok table]
  have t: "table_ok (the (d ! table_no table))" "columnNames (the (d ! table_no table)) = columnNames (schema table)"
    using tab(2) by (simp_all add: good_def same_schema_def)
  show thesis
    by (rule dbAddRow_ok [OF heap tab(1) t(1)]) (use that t(2) in \<open>auto simp: filling_def\<close>)
qed

lemma filling_table:
  assumes ok: "um_ok d" and table: "table \<in> um_tables" and f: "filling d table i r d'" and col: "um_column table col c ty"
  obtains t where "has_table d' (lit table) (table_no table) t" "table_ok t" "row_of t i = Some r" "column_at t (lit col) c" "columnTypes t ! c = ty"
    "changed d (table_no table) (the (d ! table_no table)) i (Some r) d' t"
proof -
  obtain t where t: "changed d (table_no table) (the (d ! table_no table)) i (Some r) d' t" using f by (auto simp: filling_def)
  have "columnNames t = columnNames (schema table)" "columnTypes t = columnTypes (schema table)" "table_ok t" "row_of t i = Some r"
    using t um_has_table(2) [OF ok table] by (simp_all add: changed_def good_def same_schema_def)
  then show thesis
    using that [OF changed_table [OF t um_has_table(1) [OF ok table]] _ _ _ _ t] col by (simp add: um_column_def column_at_def)
qed

lemma filling_int:
  assumes "um_ok d" and "table \<in> um_tables" and "filling d table i r d1" and "um_column table col c T_INT"
  shows "\<exists>d2. dbWriteInt d1 (lit table) (lit col) (int i) n = Ret (0, d2) \<and> filling d table i (r[c := Num n]) d2"
proof (rule filling_table [OF assms])
  fix t
  assume t: "has_table d1 (lit table) (table_no table) t" "table_ok t" "row_of t i = Some r" "column_at t (lit col) c" "columnTypes t ! c = T_INT"
    "changed d (table_no table) (the (d ! table_no table)) i (Some r) d1 t"
  show ?thesis
    by (rule dbWriteInt_ok [OF t(1-5), of n]) (use changed_trans [OF t(6)] in \<open>auto simp: filling_def\<close>)
qed

lemma filling_str:
  assumes heap: "\<And>n. kmalloc_ok h n" and fill: "um_ok d" "table \<in> um_tables" "filling d table i r d1" "um_column table col c T_STRING"
  shows "\<exists>d2. dbWriteStr h d1 (lit table) (lit col) (int i) (Some s) = Ret (0, d2) \<and> filling d table i (r[c := Str s]) d2"
proof (rule filling_table [OF fill])
  fix t
  assume t: "has_table d1 (lit table) (table_no table) t" "table_ok t" "row_of t i = Some r" "column_at t (lit col) c" "columnTypes t ! c = T_STRING"
    "changed d (table_no table) (the (d ! table_no table)) i (Some r) d1 t"
  show ?thesis
    by (rule dbWriteStr_ok [OF heap t(1-5), of s]) (use changed_trans [OF t(6)] in \<open>auto simp: filling_def\<close>)
qed

lemma filling_end:
  assumes "um_ok d" and "table \<in> um_tables" and "filling d table i r d'" and "row_of (the (d ! table_no table)) i = None"
    and "um_map d table key = None" and "r ! 0 = Str key" and "list_all2 full_cell (columnTypes (schema table)) r"
  shows "um_upd d table key (Some r) d'"
  using assms um_changed [OF assms(1,2) refl, of i "Some r" d' _ key] by (auto simp: filling_def)

section \<open>The directory\<close>

text \<open>The abstract state: accounts, roles and limits by name.\<close>

record account =
  acc_password :: cstring
  acc_group :: cstring
  acc_prot :: int
  acc_disabled :: int

record role =
  role_priv :: int
  role_method :: int
  role_prot :: int
  role_disabled :: int

record limit =
  lim_method :: int
  lim_secure :: int
  lim_group :: cstring

record directory =
  accounts :: "cstring \<Rightarrow> account option"
  roles :: "cstring \<Rightarrow> role option"
  limits :: "cstring \<Rightarrow> limit option"

fun str_of :: "cell \<Rightarrow> cstring" where
  "str_of (Str s) = s"
| "str_of (Num n) = []"

fun int_of :: "cell \<Rightarrow> int" where
  "int_of (Num n) = n"
| "int_of (Str s) = 0"

definition account_of :: "cell list \<Rightarrow> account" where
  "account_of r = \<lparr>acc_password = umEncryptString (str_of (r ! 1)), acc_group = str_of (r ! 2), acc_prot = int_of (r ! 3), acc_disabled = int_of (r ! 4)\<rparr>"

definition role_of :: "cell list \<Rightarrow> role" where
  "role_of r = \<lparr>role_priv = int_of (r ! 1), role_method = int_of (r ! 2), role_prot = int_of (r ! 3), role_disabled = int_of (r ! 4)\<rparr>"

definition limit_of :: "cell list \<Rightarrow> limit" where
  "limit_of r = \<lparr>lim_method = int_of (r ! 1), lim_secure = int_of (r ! 2), lim_group = str_of (r ! 3)\<rparr>"

definition directory_of :: "db \<Rightarrow> directory" where
  "directory_of d = \<lparr>accounts = (\<lambda>u. map_option account_of (um_map d ''users'' u)),
     roles = (\<lambda>g. map_option role_of (um_map d ''groups'' g)), limits = (\<lambda>l. map_option limit_of (um_map d ''access'' l))\<rparr>"

text \<open>The operations of the user management that change the tables, and what each promises.\<close>

datatype um_op =
    AddUser cstring cstring cstring int int
  | DeleteUser cstring
  | SetUserPassword cstring cstring
  | SetUserGroup cstring cstring
  | SetUserEnabled cstring bool
  | SetUserProtected cstring int
  | AddGroup cstring int int int int
  | DeleteGroup cstring
  | SetGroupAccessMethod cstring int
  | SetGroupPrivilege cstring int
  | SetGroupEnabled cstring bool
  | SetGroupProtected cstring int
  | AddAccessLimit cstring int int "cstring option"
  | DeleteAccessLimit cstring
  | SetAccessLimitMethod cstring int
  | SetAccessLimitSecure cstring int
  | SetAccessLimitGroup cstring "cstring option"

fun um_run :: "kheap \<Rightarrow> um_op \<Rightarrow> db \<Rightarrow> (int \<times> db) outcome" where
  "um_run h (AddUser u p g prot dis) d = umAddUser h u p g prot dis d"
| "um_run h (DeleteUser u) d = umDeleteUser u d"
| "um_run h (SetUserPassword u p) d = umSetUserPassword h u p d"
| "um_run h (SetUserGroup u g) d = umSetUserGroup h u g d"
| "um_run h (SetUserEnabled u b) d = umSetUserEnabled u b d"
| "um_run h (SetUserProtected u n) d = umSetUserProtected u n d"
| "um_run h (AddGroup g priv am prot dis) d = umAddGroup h g priv am prot dis d"
| "um_run h (DeleteGroup g) d = umDeleteGroup g d"
| "um_run h (SetGroupAccessMethod g n) d = umSetGroupAccessMethod g n d"
| "um_run h (SetGroupPrivilege g n) d = umSetGroupPrivilege g n d"
| "um_run h (SetGroupEnabled g b) d = umSetGroupEnabled g b d"
| "um_run h (SetGroupProtected g n) d = umSetGroupProtected g n d"
| "um_run h (AddAccessLimit l am sec g) d = umAddAccessLimit h l am sec g d"
| "um_run h (DeleteAccessLimit l) d = umDeleteAccessLimit l d"
| "um_run h (SetAccessLimitMethod l n) d = umSetAccessLimitMethod l n d"
| "um_run h (SetAccessLimitSecure l n) d = umSetAccessLimitSecure l n d"
| "um_run h (SetAccessLimitGroup l g) d = umSetAccessLimitGroup h l g d"

definition with_account :: "cstring \<Rightarrow> (account \<Rightarrow> account) \<Rightarrow> directory \<Rightarrow> int \<times> directory" where
  "with_account u f D = (case accounts D u of None \<Rightarrow> (UM_ERR_NOT_FOUND, D) | Some a \<Rightarrow> (0, D\<lparr>accounts := (accounts D)(u \<mapsto> f a)\<rparr>))"

definition with_role :: "cstring \<Rightarrow> (role \<Rightarrow> role) \<Rightarrow> directory \<Rightarrow> int \<times> directory" where
  "with_role g f D = (case roles D g of None \<Rightarrow> (UM_ERR_NOT_FOUND, D) | Some a \<Rightarrow> (0, D\<lparr>roles := (roles D)(g \<mapsto> f a)\<rparr>))"

definition with_limit :: "cstring \<Rightarrow> (limit \<Rightarrow> limit) \<Rightarrow> directory \<Rightarrow> int \<times> directory" where
  "with_limit l f D = (case limits D l of None \<Rightarrow> (UM_ERR_NOT_FOUND, D) | Some a \<Rightarrow> (0, D\<lparr>limits := (limits D)(l \<mapsto> f a)\<rparr>))"

abbreviation opt_text :: "cstring option \<Rightarrow> cstring" where
  "opt_text p \<equiv> (case p of None \<Rightarrow> [] | Some s \<Rightarrow> s)"

fun spec_run :: "um_op \<Rightarrow> directory \<Rightarrow> int \<times> directory" where
  "spec_run (AddUser u p g prot dis) D =
     (if accounts D u \<noteq> None then (UM_ERR_DUPLICATE, D)
      else if \<not> umCheckName u then (UM_ERR_BAD_NAME, D)
      else if \<not> umCheckName p then (UM_ERR_BAD_PASSWORD, D)
      else if roles D g = None then (UM_ERR_NOT_FOUND, D)
      else (0, D\<lparr>accounts := (accounts D)(u \<mapsto> \<lparr>acc_password = p, acc_group = g, acc_prot = prot, acc_disabled = dis\<rparr>)\<rparr>))"
| "spec_run (DeleteUser u) D =
     (case accounts D u of
        None \<Rightarrow> (UM_ERR_NOT_FOUND, D)
      | Some a \<Rightarrow> if short (acc_prot a) \<noteq> 0 then (UM_ERR_PROTECTED, D) else (0, D\<lparr>accounts := (accounts D)(u := None)\<rparr>))"
| "spec_run (SetUserPassword u p) D = with_account u (acc_password_update (\<lambda>_. umEncryptString (umEncryptString p))) D"
| "spec_run (SetUserGroup u g) D = with_account u (acc_group_update (\<lambda>_. g)) D"
| "spec_run (SetUserEnabled u b) D = with_account u (acc_disabled_update (\<lambda>_. if b then 0 else 1)) D"
| "spec_run (SetUserProtected u n) D = with_account u (acc_prot_update (\<lambda>_. n)) D"
| "spec_run (AddGroup g priv am prot dis) D =
     (if roles D g \<noteq> None then (UM_ERR_DUPLICATE, D)
      else if \<not> umCheckName g then (UM_ERR_BAD_NAME, D)
      else (0, D\<lparr>roles := (roles D)(g \<mapsto> \<lparr>role_priv = priv, role_method = am, role_prot = prot, role_disabled = dis\<rparr>)\<rparr>))"
| "spec_run (DeleteGroup g) D =
     (if (\<exists>a \<in> ran (accounts D). acc_group a = g) \<or> (\<exists>l \<in> ran (limits D). lim_group l = g) then (UM_ERR_IN_USE, D)
      else case roles D g of
        None \<Rightarrow> (UM_ERR_NOT_FOUND, D)
      | Some r \<Rightarrow> if short (role_prot r) \<noteq> 0 then (UM_ERR_PROTECTED, D) else (0, D\<lparr>roles := (roles D)(g := None)\<rparr>))"
| "spec_run (SetGroupAccessMethod g n) D = with_role g (role_method_update (\<lambda>_. n)) D"
| "spec_run (SetGroupPrivilege g n) D = with_role g (role_priv_update (\<lambda>_. n)) D"
| "spec_run (SetGroupEnabled g b) D = with_role g (role_disabled_update (\<lambda>_. if b then 0 else 1)) D"
| "spec_run (SetGroupProtected g n) D = with_role g (role_prot_update (\<lambda>_. n)) D"
| "spec_run (AddAccessLimit l am sec g) D =
     (if limits D l \<noteq> None then (UM_ERR_DUPLICATE, D)
      else (0, D\<lparr>limits := (limits D)(l \<mapsto> \<lparr>lim_method = am, lim_secure = sec, lim_group = opt_text g\<rparr>)\<rparr>))"
| "spec_run (DeleteAccessLimit l) D =
     (if limits D l = None then (UM_ERR_NOT_FOUND, D) else (0, D\<lparr>limits := (limits D)(l := None)\<rparr>))"
| "spec_run (SetAccessLimitMethod l n) D = with_limit l (lim_method_update (\<lambda>_. n)) D"
| "spec_run (SetAccessLimitSecure l n) D = with_limit l (lim_secure_update (\<lambda>_. n)) D"
| "spec_run (SetAccessLimitGroup l g) D = with_limit l (lim_group_update (\<lambda>_. opt_text g)) D"


section \<open>Every operation implements its promise\<close>

text \<open>What \<open>um_run\<close> has to return: the promised code, and tables that show the promised directory.\<close>

definition simulates :: "(int \<times> db) outcome \<Rightarrow> int \<times> directory \<Rightarrow> bool" where
  "simulates res S = (\<exists>d'. res = Ret (fst S, d') \<and> um_ok d' \<and> directory_of d' = snd S)"

lemma simulates_same: "um_ok d \<Longrightarrow> simulates (Ret (rc, d)) (rc, directory_of d)"
  by (simp add: simulates_def)

lemma simulatesI: "res = Ret (rc, d') \<Longrightarrow> um_ok d' \<Longrightarrow> directory_of d' = D \<Longrightarrow> simulates res (rc, D)"
  by (simp add: simulates_def)

lemma upd_users:
  "um_upd d ''users'' u ro d' \<Longrightarrow> um_ok d' \<and> directory_of d' = (directory_of d)\<lparr>accounts := (accounts (directory_of d))(u := map_option account_of ro)\<rparr>"
  by (auto simp: um_upd_def directory_of_def)

lemma upd_groups:
  "um_upd d ''groups'' u ro d' \<Longrightarrow> um_ok d' \<and> directory_of d' = (directory_of d)\<lparr>roles := (roles (directory_of d))(u := map_option role_of ro)\<rparr>"
  by (auto simp: um_upd_def directory_of_def)

lemma upd_access:
  "um_upd d ''access'' u ro d' \<Longrightarrow> um_ok d' \<and> directory_of d' = (directory_of d)\<lparr>limits := (limits (directory_of d))(u := map_option limit_of ro)\<rparr>"
  by (auto simp: um_upd_def directory_of_def)

lemma directory_sel [simp]:
  "accounts (directory_of d) u = map_option account_of (um_map d ''users'' u)"
  "roles (directory_of d) g = map_option role_of (um_map d ''groups'' g)"
  "limits (directory_of d) l = map_option limit_of (um_map d ''access'' l)"
  by (simp_all add: directory_of_def)

lemma row_length:
  assumes "um_ok d" and "table \<in> um_tables" and "um_map d table key = Some r"
  shows "length r = length (columnTypes (schema table))"
  using list_all2_lengthD [OF um_key_cells(2) [OF assms]] by simp

lemma with_account_sim:
  assumes ok: "um_ok d"
    and res: "case um_map d ''users'' u of None \<Rightarrow> res = Ret (UM_ERR_NOT_FOUND, d)
      | Some r \<Rightarrow> \<exists>d'. res = Ret (0, d') \<and> um_upd d ''users'' u (Some (r[c := v])) d'"
    and f: "\<And>r. length r = 5 \<Longrightarrow> account_of (r[c := v]) = f (account_of r)"
  shows "simulates res (with_account u f (directory_of d))"
proof (cases "um_map d ''users'' u")
  case None
  then show ?thesis using res ok by (simp add: with_account_def simulates_def)
next
  case (Some r)
  have "length r = 5" using row_length [OF ok _ Some] by (simp add: um_types)
  then show ?thesis using res Some f by (auto simp: with_account_def simulates_def dest!: upd_users)
qed

lemma with_role_sim:
  assumes ok: "um_ok d"
    and res: "case um_map d ''groups'' g of None \<Rightarrow> res = Ret (UM_ERR_NOT_FOUND, d)
      | Some r \<Rightarrow> \<exists>d'. res = Ret (0, d') \<and> um_upd d ''groups'' g (Some (r[c := v])) d'"
    and f: "\<And>r. length r = 5 \<Longrightarrow> role_of (r[c := v]) = f (role_of r)"
  shows "simulates res (with_role g f (directory_of d))"
proof (cases "um_map d ''groups'' g")
  case None
  then show ?thesis using res ok by (simp add: with_role_def simulates_def)
next
  case (Some r)
  have "length r = 5" using row_length [OF ok _ Some] by (simp add: um_types)
  then show ?thesis using res Some f by (auto simp: with_role_def simulates_def dest!: upd_groups)
qed

lemma with_limit_sim:
  assumes ok: "um_ok d"
    and res: "case um_map d ''access'' l of None \<Rightarrow> res = Ret (UM_ERR_NOT_FOUND, d)
      | Some r \<Rightarrow> \<exists>d'. res = Ret (0, d') \<and> um_upd d ''access'' l (Some (r[c := v])) d'"
    and f: "\<And>r. length r = 4 \<Longrightarrow> limit_of (r[c := v]) = f (limit_of r)"
  shows "simulates res (with_limit l f (directory_of d))"
proof (cases "um_map d ''access'' l")
  case None
  then show ?thesis using res ok by (simp add: with_limit_def simulates_def)
next
  case (Some r)
  have "length r = 4" using row_length [OF ok _ Some] by (simp add: um_types)
  then show ?thesis using res Some f by (auto simp: with_limit_def simulates_def dest!: upd_access)
qed

lemma set_ops_sim:
  assumes heap: "\<And>n. kmalloc_ok h n" and ok: "um_ok d"
  shows "simulates (umSetUserGroup h u g d) (with_account u (acc_group_update (\<lambda>_. g)) (directory_of d))"
    "simulates (umSetUserEnabled u b d) (with_account u (acc_disabled_update (\<lambda>_. if b then 0 else 1)) (directory_of d))"
    "simulates (umSetUserProtected u n d) (with_account u (acc_prot_update (\<lambda>_. n)) (directory_of d))"
    "simulates (umSetGroupAccessMethod g n d) (with_role g (role_method_update (\<lambda>_. n)) (directory_of d))"
    "simulates (umSetGroupPrivilege g n d) (with_role g (role_priv_update (\<lambda>_. n)) (directory_of d))"
    "simulates (umSetGroupEnabled g b d) (with_role g (role_disabled_update (\<lambda>_. if b then 0 else 1)) (directory_of d))"
    "simulates (umSetGroupProtected g n d) (with_role g (role_prot_update (\<lambda>_. n)) (directory_of d))"
    "simulates (umSetAccessLimitMethod l n d) (with_limit l (lim_method_update (\<lambda>_. n)) (directory_of d))"
    "simulates (umSetAccessLimitSecure l n d) (with_limit l (lim_secure_update (\<lambda>_. n)) (directory_of d))"
  unfolding umSetUserGroup_def umSetUserEnabled_def umSetUserProtected_def umSetGroupAccessMethod_def umSetGroupPrivilege_def
    umSetGroupEnabled_def umSetGroupProtected_def umSetAccessLimitMethod_def umSetAccessLimitSecure_def
  by (rule with_account_sim [OF ok um_set_str_ok [OF heap ok _ um_columns(3)]], simp, simp, simp add: account_of_def)
    (rule with_account_sim [OF ok um_set_int_ok [OF ok _ um_columns(5)]], simp, simp, simp add: account_of_def,
     rule with_account_sim [OF ok um_set_int_ok [OF ok _ um_columns(4)]], simp, simp, simp add: account_of_def,
     rule with_role_sim [OF ok um_set_int_ok [OF ok _ um_columns(8)]], simp, simp, simp add: role_of_def,
     rule with_role_sim [OF ok um_set_int_ok [OF ok _ um_columns(7)]], simp, simp, simp add: role_of_def,
     rule with_role_sim [OF ok um_set_int_ok [OF ok _ um_columns(10)]], simp, simp, simp add: role_of_def,
     rule with_role_sim [OF ok um_set_int_ok [OF ok _ um_columns(9)]], simp, simp, simp add: role_of_def,
     rule with_limit_sim [OF ok um_set_int_ok [OF ok _ um_columns(12)]], simp, simp, simp add: limit_of_def,
     rule with_limit_sim [OF ok um_set_int_ok [OF ok _ um_columns(13)]], simp, simp, simp add: limit_of_def)

lemma um_set_str_NULL: "um_set_str h d table col key None = um_set_str h d table col key (Some [])"
  by (simp only: um_set_str_def dbWriteStr_NULL)

lemma set_limit_group_sim:
  assumes heap: "\<And>n. kmalloc_ok h n" and ok: "um_ok d"
  shows "simulates (umSetAccessLimitGroup h l g d) (with_limit l (lim_group_update (\<lambda>_. opt_text g)) (directory_of d))"
proof -
  have "umSetAccessLimitGroup h l g d = um_set_str h d ''access'' ''group'' l (Some (opt_text g))"
    by (cases g) (simp_all add: umSetAccessLimitGroup_def um_set_str_NULL)
  moreover have "simulates (um_set_str h d ''access'' ''group'' l (Some (opt_text g))) (with_limit l (lim_group_update (\<lambda>_. opt_text g)) (directory_of d))"
    by (rule with_limit_sim [OF ok um_set_str_ok [OF heap ok _ um_columns(14)]]) (simp_all add: limit_of_def)
  ultimately show ?thesis by simp
qed

lemma encrypted_ok: "(\<And>n. kmalloc_ok h n) \<Longrightarrow> encrypted h p = Ret (umEncryptString p)"
  by (simp add: encrypted_def bstrdup_def)

lemma set_password_sim:
  assumes heap: "\<And>n. kmalloc_ok h n" and ok: "um_ok d"
  shows "simulates (umSetUserPassword h u p d) (with_account u (acc_password_update (\<lambda>_. umEncryptString (umEncryptString p))) (directory_of d))"
proof -
  have "umSetUserPassword h u p d = um_set_str h d ''users'' ''password'' u (Some (umEncryptString p))"
    using encrypted_ok [OF heap]
    by (rule_tac um_row_cases [OF ok, of "''users''" u]) (simp_all add: umSetUserPassword_def um_set_str_def)
  moreover have "simulates (um_set_str h d ''users'' ''password'' u (Some (umEncryptString p)))
    (with_account u (acc_password_update (\<lambda>_. umEncryptString (umEncryptString p))) (directory_of d))"
    by (rule with_account_sim [OF ok um_set_str_ok [OF heap ok _ um_columns(2)]]) (simp_all add: account_of_def)
  ultimately show ?thesis by simp
qed


lemma umUserExists_ok: "um_ok d \<Longrightarrow> umUserExists d u = Ret (um_map d ''users'' u \<noteq> None)"
  by (simp add: umUserExists_def um_exists_ok)

lemma umGroupExists_ok: "um_ok d \<Longrightarrow> umGroupExists d g = Ret (um_map d ''groups'' g \<noteq> None)"
  by (simp add: umGroupExists_def um_exists_ok)

lemma umAccessLimitExists_ok: "um_ok d \<Longrightarrow> umAccessLimitExists d l = Ret (um_map d ''access'' l \<noteq> None)"
  by (simp add: umAccessLimitExists_def um_exists_ok)

lemma password_kept: "is_cstring p \<Longrightarrow> umCheckName p \<Longrightarrow> umEncryptString (umEncryptString p) = p"
  unfolding umEncryptString_def by (rule encrypt_loop_twice) (auto simp: umCheckName_def is_cstring_def list_all_iff)

lemma add_user_sim:
  assumes heap: "\<And>n. kmalloc_ok h n" and ok: "um_ok d" and p: "is_cstring p"
  shows "simulates (umAddUser h u p g prot dis d) (spec_run (AddUser u p g prot dis) (directory_of d))"
proof (cases "um_map d ''users'' u = None \<and> umCheckName u \<and> umCheckName p \<and> um_map d ''groups'' g \<noteq> None")
  case False
  then show ?thesis
    using simulates_same [OF ok] umUserExists_ok [OF ok, of u] umGroupExists_ok [OF ok, of g] by (auto simp: umAddUser_def)
next
  case True
  have n: "length (columnNames (schema ''users'')) = 5" by (simp add: schema_def userTable_def)
  obtain i d1 where 1: "dbAddRow h d (lit ''users'') = Ret (int i, d1)" "row_of (the (d ! table_no ''users'')) i = None"
    "filling d ''users'' i (replicate 5 (Num 0)) d1"
    by (rule filling_start [OF heap ok, of "''users''"]) (use n in auto)
  obtain d2 where 2: "dbWriteStr h d1 (lit ''users'') (lit ''name'') (int i) (Some u) = Ret (0, d2)" "filling d ''users'' i ((replicate 5 (Num 0))[0 := Str u]) d2"
    using filling_str [OF heap ok _ 1(3) um_columns(1)] by blast
  obtain d3 where 3: "dbWriteStr h d2 (lit ''users'') (lit ''password'') (int i) (Some (umEncryptString p)) = Ret (0, d3)"
    "filling d ''users'' i ((replicate 5 (Num 0))[0 := Str u, 1 := Str (umEncryptString p)]) d3"
    using filling_str [OF heap ok _ 2(2) um_columns(2)] by blast
  obtain d4 where 4: "dbWriteStr h d3 (lit ''users'') (lit ''group'') (int i) (Some g) = Ret (0, d4)"
    "filling d ''users'' i ((replicate 5 (Num 0))[0 := Str u, 1 := Str (umEncryptString p), 2 := Str g]) d4"
    using filling_str [OF heap ok _ 3(2) um_columns(3)] by blast
  obtain d5 where 5: "dbWriteInt d4 (lit ''users'') (lit ''prot'') (int i) prot = Ret (0, d5)"
    "filling d ''users'' i ((replicate 5 (Num 0))[0 := Str u, 1 := Str (umEncryptString p), 2 := Str g, 3 := Num prot]) d5"
    using filling_int [OF ok _ 4(2) um_columns(4)] by blast
  obtain d6 where 6: "dbWriteInt d5 (lit ''users'') (lit ''disable'') (int i) dis = Ret (0, d6)"
    "filling d ''users'' i ((replicate 5 (Num 0))[0 := Str u, 1 := Str (umEncryptString p), 2 := Str g, 3 := Num prot, 4 := Num dis]) d6"
    using filling_int [OF ok _ 5(2) um_columns(5)] by blast
  have r: "(replicate 5 (Num 0))[0 := Str u, 1 := Str (umEncryptString p), 2 := Str g, 3 := Num prot, 4 := Num dis]
    = [Str u, Str (umEncryptString p), Str g, Num prot, Num dis]" by (simp add: numeral_nat)
  have "um_upd d ''users'' u (Some [Str u, Str (umEncryptString p), Str g, Num prot, Num dis]) d6"
    using filling_end [OF ok _ 6(2) 1(2), of u] True unfolding r by (simp add: um_types)
  from upd_users [OF this]
  have D: "um_ok d6" "directory_of d6 = snd (spec_run (AddUser u p g prot dis) (directory_of d))"
    using True password_kept [OF p] by (auto simp: account_of_def)
  have "umAddUser h u p g prot dis d = Ret (0, d6)"
    unfolding umAddUser_def umUserExists_ok [OF ok] umGroupExists_ok [OF ok] encrypted_ok [OF heap]
    using True by (simp del: lit_Cons add: 1(1) 2(1) 3(1) 4(1) 5(1) 6(1))
  then show ?thesis using D True by (auto simp: simulates_def)
qed

lemma add_group_sim:
  assumes heap: "\<And>n. kmalloc_ok h n" and ok: "um_ok d"
  shows "simulates (umAddGroup h g priv am prot dis d) (spec_run (AddGroup g priv am prot dis) (directory_of d))"
proof (cases "um_map d ''groups'' g = None \<and> umCheckName g")
  case False
  then show ?thesis using simulates_same [OF ok] umGroupExists_ok [OF ok, of g] by (auto simp: umAddGroup_def)
next
  case True
  have n: "length (columnNames (schema ''groups'')) = 5" by (simp add: schema_def groupTable_def)
  obtain i d1 where 1: "dbAddRow h d (lit ''groups'') = Ret (int i, d1)" "row_of (the (d ! table_no ''groups'')) i = None"
    "filling d ''groups'' i (replicate 5 (Num 0)) d1"
    by (rule filling_start [OF heap ok, of "''groups''"]) (use n in auto)
  obtain d2 where 2: "dbWriteStr h d1 (lit ''groups'') (lit ''name'') (int i) (Some g) = Ret (0, d2)" "filling d ''groups'' i ((replicate 5 (Num 0))[0 := Str g]) d2"
    using filling_str [OF heap ok _ 1(3) um_columns(6)] by blast
  obtain d3 where 3: "dbWriteInt d2 (lit ''groups'') (lit ''priv'') (int i) priv = Ret (0, d3)"
    "filling d ''groups'' i ((replicate 5 (Num 0))[0 := Str g, 1 := Num priv]) d3"
    using filling_int [OF ok _ 2(2) um_columns(7)] by blast
  obtain d4 where 4: "dbWriteInt d3 (lit ''groups'') (lit ''method'') (int i) am = Ret (0, d4)"
    "filling d ''groups'' i ((replicate 5 (Num 0))[0 := Str g, 1 := Num priv, 2 := Num am]) d4"
    using filling_int [OF ok _ 3(2) um_columns(8)] by blast
  obtain d5 where 5: "dbWriteInt d4 (lit ''groups'') (lit ''prot'') (int i) prot = Ret (0, d5)"
    "filling d ''groups'' i ((replicate 5 (Num 0))[0 := Str g, 1 := Num priv, 2 := Num am, 3 := Num prot]) d5"
    using filling_int [OF ok _ 4(2) um_columns(9)] by blast
  obtain d6 where 6: "dbWriteInt d5 (lit ''groups'') (lit ''disable'') (int i) dis = Ret (0, d6)"
    "filling d ''groups'' i ((replicate 5 (Num 0))[0 := Str g, 1 := Num priv, 2 := Num am, 3 := Num prot, 4 := Num dis]) d6"
    using filling_int [OF ok _ 5(2) um_columns(10)] by blast
  have r: "(replicate 5 (Num 0))[0 := Str g, 1 := Num priv, 2 := Num am, 3 := Num prot, 4 := Num dis]
    = [Str g, Num priv, Num am, Num prot, Num dis]" by (simp add: numeral_nat)
  have "um_upd d ''groups'' g (Some [Str g, Num priv, Num am, Num prot, Num dis]) d6"
    using filling_end [OF ok _ 6(2) 1(2), of g] True unfolding r by (simp add: um_types)
  from upd_groups [OF this]
  have D: "um_ok d6" "directory_of d6 = snd (spec_run (AddGroup g priv am prot dis) (directory_of d))"
    using True by (simp_all add: role_of_def)
  have "umAddGroup h g priv am prot dis d = Ret (0, d6)"
    unfolding umAddGroup_def umGroupExists_ok [OF ok]
    using True by (simp del: lit_Cons add: 1(1) 2(1) 3(1) 4(1) 5(1) 6(1))
  then show ?thesis using D True by (simp add: simulates_def)
qed

lemma add_limit_sim:
  assumes heap: "\<And>n. kmalloc_ok h n" and ok: "um_ok d"
  shows "simulates (umAddAccessLimit h l am sec g d) (spec_run (AddAccessLimit l am sec g) (directory_of d))"
proof (cases "um_map d ''access'' l = None")
  case False
  then show ?thesis using simulates_same [OF ok] umAccessLimitExists_ok [OF ok, of l] by (auto simp: umAddAccessLimit_def)
next
  case True
  have n: "length (columnNames (schema ''access'')) = 4" by (simp add: schema_def accessTable_def)
  obtain i d1 where 1: "dbAddRow h d (lit ''access'') = Ret (int i, d1)" "row_of (the (d ! table_no ''access'')) i = None"
    "filling d ''access'' i (replicate 4 (Num 0)) d1"
    by (rule filling_start [OF heap ok, of "''access''"]) (use n in auto)
  obtain d2 where 2: "dbWriteStr h d1 (lit ''access'') (lit ''name'') (int i) (Some l) = Ret (0, d2)" "filling d ''access'' i ((replicate 4 (Num 0))[0 := Str l]) d2"
    using filling_str [OF heap ok _ 1(3) um_columns(11)] by blast
  obtain d3 where 3: "dbWriteInt d2 (lit ''access'') (lit ''method'') (int i) am = Ret (0, d3)"
    "filling d ''access'' i ((replicate 4 (Num 0))[0 := Str l, 1 := Num am]) d3"
    using filling_int [OF ok _ 2(2) um_columns(12)] by blast
  obtain d4 where 4: "dbWriteInt d3 (lit ''access'') (lit ''secure'') (int i) sec = Ret (0, d4)"
    "filling d ''access'' i ((replicate 4 (Num 0))[0 := Str l, 1 := Num am, 2 := Num sec]) d4"
    using filling_int [OF ok _ 3(2) um_columns(13)] by blast
  obtain d5 where 5: "dbWriteStr h d4 (lit ''access'') (lit ''group'') (int i) g = Ret (0, d5)"
    "filling d ''access'' i ((replicate 4 (Num 0))[0 := Str l, 1 := Num am, 2 := Num sec, 3 := Str (opt_text g)]) d5"
    using filling_str [OF heap ok _ 4(2) um_columns(14), of "opt_text g"] by (cases g) (auto simp: dbWriteStr_NULL)
  have r: "(replicate 4 (Num 0))[0 := Str l, 1 := Num am, 2 := Num sec, 3 := Str (opt_text g)]
    = [Str l, Num am, Num sec, Str (opt_text g)]" by (simp add: numeral_nat)
  have "um_upd d ''access'' l (Some [Str l, Num am, Num sec, Str (opt_text g)]) d5"
    using filling_end [OF ok _ 5(2) 1(2), of l] True unfolding r by (simp add: um_types)
  from upd_access [OF this]
  have D: "um_ok d5" "directory_of d5 = snd (spec_run (AddAccessLimit l am sec g) (directory_of d))"
    using True by (simp_all add: limit_of_def)
  have "umAddAccessLimit h l am sec g d = Ret (0, d5)"
    unfolding umAddAccessLimit_def umAccessLimitExists_ok [OF ok]
    using True by (simp del: lit_Cons add: 1(1) 2(1) 3(1) 4(1) 5(1))
  then show ?thesis using D True by (simp add: simulates_def)
qed


lemma um_column_cell:
  assumes ok: "um_ok d" and table: "table \<in> um_tables" and col: "um_column table col c ty" and row: "um_map d table key = Some r"
  shows "full_cell ty (r ! c)"
proof -
  note t = um_column_at [OF ok table col]
  have "c < length (columnTypes (schema table))"
    using column_at_bound [OF t(2)] table_okD(2) [OF t(1)] um_has_table(2) [OF ok table] by (simp add: good_def same_schema_def)
  from list_all2_nthD [OF um_key_cells(2) [OF ok table row] this] show ?thesis using col by (simp add: um_column_def)
qed

lemma um_get_int_ok:
  assumes "um_ok d" and "table \<in> um_tables" and "um_column table col c T_INT"
  shows "um_get_int d table col key dflt = Ret (case um_map d table key of None \<Rightarrow> dflt | Some r \<Rightarrow> int_of (r ! c))"
proof -
  have col: "column_loop (columnNames (schema table)) (lit col) 0 = int c" using assms(3) by (simp add: um_column_def)
  have "\<exists>n. r ! c = Num n" if "um_map d table key = Some r" for r
    using um_column_cell [OF assms(1,2,3) that] by (cases "r ! c") simp_all
  then show ?thesis using um_cell_ok [OF assms(1,2) col] by (auto simp: um_get_int_def as_int_def split: option.splits)
qed

lemma um_get_str_ok:
  assumes "um_ok d" and "table \<in> um_tables" and "um_column table col c T_STRING"
  shows "um_get_str d table col key = Ret (map_option (\<lambda>r. str_of (r ! c)) (um_map d table key))"
proof -
  have col: "column_loop (columnNames (schema table)) (lit col) 0 = int c" using assms(3) by (simp add: um_column_def)
  have "\<exists>n. r ! c = Str n" if "um_map d table key = Some r" for r
    using um_column_cell [OF assms(1,2,3) that] by (cases "r ! c") simp_all
  then show ?thesis using um_cell_ok [OF assms(1,2) col] by (auto simp: um_get_str_def as_str_def split: option.splits)
qed

lemma short_zero [simp]: "short 0 = 0"
  by (simp add: short_def)

lemma delete_user_sim:
  assumes ok: "um_ok d"
  shows "simulates (umDeleteUser u d) (spec_run (DeleteUser u) (directory_of d))"
proof (rule um_row_cases [OF ok, of "''users''" u])
  note prot = um_get_int_ok [OF ok _ um_columns(4), of u 0]
  fix i r
  assume i: "um_row d ''users'' u = Ret (int i)" "row_of (the (d ! table_no ''users'')) i = Some r" "um_map d ''users'' u = Some r"
  obtain d' where d': "dbDeleteRow d (lit ''users'') (int i) = Ret (0, d')" "um_upd d ''users'' u None d'"
    using um_delete_ok [OF ok _ i(1,3,2)] by blast
  show ?thesis
  proof (cases "short (int_of (r ! 3)) = 0")
    case True
    then have "umDeleteUser u d = Ret (0, d')"
      using prot by (simp del: lit_Cons add: umDeleteUser_def umGetUserProtected_def i d'(1))
    then show ?thesis using upd_users [OF d'(2)] True i(3) by (simp add: simulates_def account_of_def)
  next
    case False
    then show ?thesis using prot simulates_same [OF ok] by (simp add: umDeleteUser_def umGetUserProtected_def i account_of_def)
  qed
next
  assume "um_row d ''users'' u = Ret (- 1)" "um_map d ''users'' u = None"
  then show ?thesis
    using um_get_int_ok [OF ok _ um_columns(4), of u 0] simulates_same [OF ok] by (simp add: umDeleteUser_def umGetUserProtected_def)
qed simp

lemma delete_limit_sim:
  assumes ok: "um_ok d"
  shows "simulates (umDeleteAccessLimit l d) (spec_run (DeleteAccessLimit l) (directory_of d))"
proof (rule um_row_cases [OF ok, of "''access''" l])
  fix i r
  assume i: "um_row d ''access'' l = Ret (int i)" "row_of (the (d ! table_no ''access'')) i = Some r" "um_map d ''access'' l = Some r"
  obtain d' where d': "dbDeleteRow d (lit ''access'') (int i) = Ret (0, d')" "um_upd d ''access'' l None d'"
    using um_delete_ok [OF ok _ i(1,3,2)] by blast
  have "umDeleteAccessLimit l d = Ret (0, d')" by (simp del: lit_Cons add: umDeleteAccessLimit_def i d'(1))
  then show ?thesis using upd_access [OF d'(2)] i(3) by (simp add: simulates_def)
qed (use simulates_same [OF ok] in \<open>simp_all add: umDeleteAccessLimit_def\<close>)

text \<open>A search in another column finds a row exactly when some entry of the map has that text.\<close>

lemma um_row_entry:
  assumes ok: "um_ok d" and table: "table \<in> um_tables"
  shows "row_of (the (d ! table_no table)) i = Some r \<Longrightarrow> \<exists>key. um_map d table key = Some r"
proof -
  assume i: "row_of (the (d ! table_no table)) i = Some r"
  note g = um_has_table(2) [OF ok table]
  have c: "0 < length (columnTypes (schema table))" using table by (auto simp: um_types)
  have "list_all2 full_cell (columnTypes (schema table)) r" using g i by (simp add: good_def)
  from list_all2_nthD [OF this c] obtain key where "r ! 0 = Str key" using um_key [OF table] by (cases "r ! 0") auto
  moreover have "keyed (the (d ! table_no table))" using g by (simp add: good_def)
  ultimately show ?thesis using i unfolding um_map_def by (auto simp: entry_iff)
qed

lemma um_search:
  assumes ok: "um_ok d" and table: "table \<in> um_tables" and col: "um_column table col c T_STRING"
  obtains "dbSearchStr d (lit table) (lit col) v 0 = Ret (- 1)" "\<forall>key r. um_map d table key = Some r \<longrightarrow> r ! c \<noteq> Str v"
  | i key r where "dbSearchStr d (lit table) (lit col) v 0 = Ret (int i)" "um_map d table key = Some r" "r ! c = Str v"
proof -
  note t = um_column_at [OF ok table col]
  have k: "keyed (the (d ! table_no table))" using um_has_table(2) [OF ok table] by (simp add: good_def)
  from dbSearchStr_ok [OF um_has_table(1) [OF ok table] t, of v] show thesis
  proof
    assume no: "dbSearchStr d (lit table) (lit col) v 0 = Ret (- 1) \<and> (\<forall>i r. row_of (the (d ! table_no table)) i = Some r \<longrightarrow> r ! c \<noteq> Str v)"
    then have "\<forall>key r. um_map d table key = Some r \<longrightarrow> r ! c \<noteq> Str v" unfolding um_map_def entry_iff [OF k] by blast
    then show thesis using no that(1) by blast
  next
    assume "\<exists>i r. dbSearchStr d (lit table) (lit col) v 0 = Ret (int i) \<and> row_of (the (d ! table_no table)) i = Some r \<and> r ! c = Str v"
    then show thesis using um_row_entry [OF ok table] that(2) by blast
  qed
qed


lemma um_search_group:
  assumes ok: "um_ok d" and table: "table \<in> um_tables" and col: "um_column table col c T_STRING"
  shows "\<exists>x. dbSearchStr d (lit table) (lit col) g 0 = Ret x \<and> (x \<ge> 0 \<longleftrightarrow> (\<exists>r \<in> ran (um_map d table). str_of (r ! c) = g))"
proof (rule um_search [OF ok table col, of g])
  assume no: "dbSearchStr d (lit table) (lit col) g 0 = Ret (- 1)" "\<forall>key r. um_map d table key = Some r \<longrightarrow> r ! c \<noteq> Str g"
  have "str_of (r ! c) \<noteq> g" if "um_map d table key = Some r" for key r
    using um_column_cell [OF ok table col that] no(2) that by (cases "r ! c") auto
  then show ?thesis using no(1) by (auto simp: ran_def)
next
  fix i key r
  assume "dbSearchStr d (lit table) (lit col) g 0 = Ret (int i)" "um_map d table key = Some r" "r ! c = Str g"
  then show ?thesis by (auto simp: ran_def intro!: exI [of _ key])
qed

lemma umGetGroupInUse_ok:
  assumes ok: "um_ok d"
  shows "umGetGroupInUse d g = Ret ((\<exists>a \<in> ran (accounts (directory_of d)). acc_group a = g) \<or> (\<exists>l \<in> ran (limits (directory_of d)). lim_group l = g))"
proof -
  have r: "(\<exists>a \<in> ran (accounts (directory_of d)). acc_group a = g) \<longleftrightarrow> (\<exists>r \<in> ran (um_map d ''users''). str_of (r ! 2) = g)"
    "(\<exists>l \<in> ran (limits (directory_of d)). lim_group l = g) \<longleftrightarrow> (\<exists>r \<in> ran (um_map d ''access''). str_of (r ! 3) = g)"
    by (simp_all add: directory_of_def ran_map_option account_of_def limit_of_def)
  show ?thesis
    unfolding r using um_search_group [OF ok _ um_columns(3), of g] um_search_group [OF ok _ um_columns(14), of g]
    by (auto simp: umGetGroupInUse_def simp del: lit_Cons)
qed

lemma delete_group_sim:
  assumes ok: "um_ok d"
  shows "simulates (umDeleteGroup g d) (spec_run (DeleteGroup g) (directory_of d))"
proof (cases "(\<exists>a \<in> ran (accounts (directory_of d)). acc_group a = g) \<or> (\<exists>l \<in> ran (limits (directory_of d)). lim_group l = g)")
  case True
  then have "umDeleteGroup g d = Ret (UM_ERR_IN_USE, d)" using umGetGroupInUse_ok [OF ok, of g] by (simp only: umDeleteGroup_def obind.simps if_True)
  then show ?thesis using True simulates_same [OF ok] by simp
next
  case False
  have del: "umDeleteGroup g d = obind (umGetGroupProtected d g) (\<lambda>p.
     if p then Ret (UM_ERR_PROTECTED, d)
     else obind (um_row d ''groups'' g) (\<lambda>r.
     if r < 0 then Ret (UM_ERR_NOT_FOUND, d) else dbDeleteRow d (lit ''groups'') r))"
    using False umGetGroupInUse_ok [OF ok, of g] by (simp only: umDeleteGroup_def obind.simps if_False)
  have spec: "spec_run (DeleteGroup g) (directory_of d) = (case roles (directory_of d) g of
        None \<Rightarrow> (UM_ERR_NOT_FOUND, directory_of d)
      | Some r \<Rightarrow> if short (role_prot r) \<noteq> 0 then (UM_ERR_PROTECTED, directory_of d)
          else (0, (directory_of d)\<lparr>roles := (roles (directory_of d))(g := None)\<rparr>))"
    using False by (simp only: spec_run.simps if_False)
  note prot = um_get_int_ok [OF ok _ um_columns(9), of g 0]
  show ?thesis
  proof (rule um_row_cases [OF ok, of "''groups''" g])
    fix i r
    assume i: "um_row d ''groups'' g = Ret (int i)" "row_of (the (d ! table_no ''groups'')) i = Some r" "um_map d ''groups'' g = Some r"
    obtain d' where d': "dbDeleteRow d (lit ''groups'') (int i) = Ret (0, d')" "um_upd d ''groups'' g None d'"
      using um_delete_ok [OF ok _ i(1,3,2)] by blast
    show ?thesis
    proof (cases "short (int_of (r ! 3)) = 0")
      case True
      then have "umDeleteGroup g d = Ret (0, d')"
        using prot by (simp del: lit_Cons add: del umGetGroupProtected_def i d'(1))
      then show ?thesis using upd_groups [OF d'(2)] True i(3) unfolding spec by (simp add: simulates_def role_of_def)
    next
      case False
      then show ?thesis using prot simulates_same [OF ok] unfolding spec del by (simp add: umGetGroupProtected_def i role_of_def)
    qed
  next
    assume "um_row d ''groups'' g = Ret (- 1)" "um_map d ''groups'' g = None"
    then show ?thesis using prot simulates_same [OF ok] unfolding spec del by (simp add: umGetGroupProtected_def)
  qed simp
qed

fun op_ok :: "um_op \<Rightarrow> bool" where
  "op_ok (AddUser u p g prot dis) = is_cstring p"
| "op_ok _ = True"

lemma um_run_sim:
  assumes "\<And>n. kmalloc_ok h n" and "um_ok d" and "op_ok op"
  shows "simulates (um_run h op d) (spec_run op (directory_of d))"
proof -
  note sets = set_ops_sim [OF assms(1,2)] set_limit_group_sim [OF assms(1,2)] set_password_sim [OF assms(1,2)]
  note others = add_group_sim [OF assms(1,2)] add_limit_sim [OF assms(1,2)] delete_user_sim [OF assms(2)] delete_group_sim [OF assms(2)] delete_limit_sim [OF assms(2)]
  show ?thesis
    using assms(3) add_user_sim [OF assms(1,2)]
    by (cases op; simp only: um_run.simps op_ok.simps others) (simp_all only: spec_run.simps sets)
qed

lemma um_open_ok:
  assumes "\<And>n. kmalloc_ok h n"
  shows "umOpen h = Ret [Some userTable, Some groupTable, Some accessTable] \<and> um_ok [Some userTable, Some groupTable, Some accessTable]
    \<and> directory_of [Some userTable, Some groupTable, Some accessTable] = \<lparr>accounts = Map.empty, roles = Map.empty, limits = Map.empty\<rparr>"
proof -
  have "good userTable userTable" "good groupTable groupTable" "good accessTable accessTable"
    by (simp_all add: good_def table_ok_def keyed_def same_schema_def userTable_def groupTable_def accessTable_def hlist_ok_def slots_of_def)
  then show ?thesis
    using assms by (simp add: umOpen_def dbRegisterDBSchema_def dbOpen_def um_ok_def directory_of_def um_map_def entry_def table_no_def
      userTable_def groupTable_def accessTable_def slots_of_def)
qed


section \<open>Reading the directory\<close>

lemma umGetUserPassword_ok:
  assumes heap: "\<And>n. kmalloc_ok h n" and ok: "um_ok d"
  shows "umGetUserPassword h d u = Ret (map_option acc_password (accounts (directory_of d) u))"
proof (rule um_row_cases [OF ok, of "''users''" u])
  fix i r
  assume i: "um_row d ''users'' u = Ret (int i)" "row_of (the (d ! table_no ''users'')) i = Some r" "um_map d ''users'' u = Some r"
  note t = um_column_at [OF ok _ um_columns(2)]
  have "dbReadInt d (lit ''users'') (lit ''password'') (int i) = Ret (0, Some (r ! 1))"
    using dbReadInt_ok [OF um_has_table(1) [OF ok] t(1,2) i(2)] by simp
  moreover obtain s where "r ! 1 = Str s" using um_column_cell [OF ok _ um_columns(2) i(3)] by (cases "r ! 1") auto
  ultimately show ?thesis
    using heap by (simp del: lit_Cons add: umGetUserPassword_def i as_str_def bstrdup_def account_of_def)
qed (simp_all add: umGetUserPassword_def)

lemma um_table_in: "''users'' \<in> um_tables" "''groups'' \<in> um_tables" "''access'' \<in> um_tables"
  by simp_all

lemma getters_ok:
  assumes ok: "um_ok d"
  shows "umGetUserEnabled d u = Ret (case accounts (directory_of d) u of None \<Rightarrow> False | Some a \<Rightarrow> acc_disabled a = 0)"
    "umGetUserProtected d u = Ret (case accounts (directory_of d) u of None \<Rightarrow> False | Some a \<Rightarrow> short (acc_prot a) \<noteq> 0)"
    "umGetUserGroup d u = Ret (map_option acc_group (accounts (directory_of d) u))"
    "umGetGroupPrivilege d g = Ret (case roles (directory_of d) g of None \<Rightarrow> - 1 | Some r \<Rightarrow> short (role_priv r))"
    "umGetGroupAccessMethod d g = Ret (case roles (directory_of d) g of None \<Rightarrow> AM_INVALID | Some r \<Rightarrow> role_method r)"
    "umGetGroupEnabled d g = Ret (case roles (directory_of d) g of None \<Rightarrow> False | Some r \<Rightarrow> role_disabled r = 0)"
    "umGetGroupProtected d g = Ret (case roles (directory_of d) g of None \<Rightarrow> False | Some r \<Rightarrow> short (role_prot r) \<noteq> 0)"
    "umGetAccessLimitMethod d l = Ret (case limits (directory_of d) l of None \<Rightarrow> AM_INVALID | Some a \<Rightarrow> lim_method a)"
    "umGetAccessLimitSecure d l = Ret (case limits (directory_of d) l of None \<Rightarrow> - 1 | Some a \<Rightarrow> short (lim_secure a))"
    "umGetAccessLimitGroup d l = Ret (map_option lim_group (limits (directory_of d) l))"
  unfolding umGetUserEnabled_def umGetUserProtected_def umGetUserGroup_def umGetGroupPrivilege_def umGetGroupAccessMethod_def
    umGetGroupEnabled_def umGetGroupProtected_def umGetAccessLimitMethod_def umGetAccessLimitSecure_def umGetAccessLimitGroup_def
    um_get_int_ok [OF ok um_table_in(1) um_columns(5)] um_get_int_ok [OF ok um_table_in(1) um_columns(4)] um_get_str_ok [OF ok um_table_in(1) um_columns(3)]
    um_get_int_ok [OF ok um_table_in(2) um_columns(7)] um_get_int_ok [OF ok um_table_in(2) um_columns(8)]
    um_get_int_ok [OF ok um_table_in(2) um_columns(10)] um_get_int_ok [OF ok um_table_in(2) um_columns(9)]
    um_get_int_ok [OF ok um_table_in(3) um_columns(12)] um_get_int_ok [OF ok um_table_in(3) um_columns(13)] um_get_str_ok [OF ok um_table_in(3) um_columns(14)]
  by (simp_all add: account_of_def role_of_def limit_of_def short_def option.map_comp o_def split: option.split)

subsection \<open>The limit of a URL\<close>

text \<open>The URL itself and the directories it lies in.\<close>

definition dir_prefix :: "cstring \<Rightarrow> cstring \<Rightarrow> bool" where
  "dir_prefix p url = (p \<noteq> [] \<and> prefix p url \<and> (p = url \<or> is_slash (last p) \<and> \<not> is_slash (url ! length p)))"

text \<open>The longest of them that has a limit.\<close>

definition closest_limit :: "directory \<Rightarrow> cstring \<Rightarrow> cstring option" where
  "closest_limit D url = find (\<lambda>p. dir_prefix p url \<and> limits D p \<noteq> None) (rev (prefixes url))"

lemma parent_dir_split:
  obtains b s where "url = parent_dir url @ b @ s" "list_all (\<lambda>c. \<not> is_slash c) b" "list_all is_slash s"
    "parent_dir url \<noteq> [] \<longrightarrow> is_slash (last (parent_dir url)) \<and> b \<noteq> []"
proof -
  let ?x = "dropWhile is_slash (rev url)"
  let ?b = "rev (takeWhile (\<lambda>c. \<not> is_slash c) ?x)" and ?s = "rev (takeWhile is_slash (rev url))"
  have "rev url = takeWhile is_slash (rev url) @ takeWhile (\<lambda>c. \<not> is_slash c) ?x @ dropWhile (\<lambda>c. \<not> is_slash c) ?x" by simp
  then have url: "url = parent_dir url @ ?b @ ?s" by (metis append.assoc parent_dir_def rev_append rev_rev_ident)
  have "is_slash (last (parent_dir url)) \<and> ?b \<noteq> []" if "parent_dir url \<noteq> []"
  proof -
    have ne: "dropWhile (\<lambda>c. \<not> is_slash c) ?x \<noteq> []" using that by (simp add: parent_dir_def)
    then have x: "?x \<noteq> []" by (metis dropWhile.simps(1))
    from hd_dropWhile [OF this] have "takeWhile (\<lambda>c. \<not> is_slash c) ?x \<noteq> []" using x by (cases ?x) simp_all
    then have "?b \<noteq> []" by simp
    moreover have "is_slash (hd (dropWhile (\<lambda>c. \<not> is_slash c) ?x))" using hd_dropWhile [OF ne] by simp
    ultimately show ?thesis by (simp add: parent_dir_def last_rev)
  qed
  moreover have "list_all (\<lambda>c. \<not> is_slash c) ?b" "list_all is_slash ?s" by (auto simp: list_all_iff dest: set_takeWhileD)
  ultimately show thesis using url that by blast
qed

lemma dir_prefix_parent:
  assumes "url \<noteq> []" and "p \<noteq> url"
  shows "dir_prefix p url \<longleftrightarrow> dir_prefix p (parent_dir url)"
proof (rule parent_dir_split [of url])
  fix b s
  let ?q = "parent_dir url"
  assume s: "url = ?q @ b @ s" "list_all (\<lambda>c. \<not> is_slash c) b" "list_all is_slash s" "?q \<noteq> [] \<longrightarrow> is_slash (last ?q) \<and> b \<noteq> []"
  have at: "url ! n = (if n < length ?q then ?q ! n else if n < length ?q + length b then b ! (n - length ?q) else s ! (n - length ?q - length b))" for n
    by (subst s(1)) (auto simp: nth_append diff_diff_left add.commute)
  have len: "length url = length ?q + length b + length s" by (subst s(1)) simp
  have pre: "prefix ?q url" by (metis prefix_def s(1))
  show ?thesis
  proof (cases "length p \<le> length ?q")
    case True
    have "prefix p url \<longleftrightarrow> prefix p ?q" using True pre by (meson prefix_length_prefix prefix_order.trans)
    moreover have "p = ?q \<longleftrightarrow> length p = length ?q" if "prefix p ?q" using that by (auto simp: prefix_def)
    moreover have "\<not> is_slash (url ! length ?q)" if "?q \<noteq> []" using that s(2,4) at [of "length ?q"] by (auto simp: list_all_length)
    ultimately show ?thesis using True assms s(4) at [of "length p"] unfolding dir_prefix_def by auto
  next
    case False
    then have no: "\<not> dir_prefix p ?q" by (auto simp: dir_prefix_def dest: prefix_length_le)
    have "\<not> dir_prefix p url"
    proof
      assume d: "dir_prefix p url"
      then have p: "p \<noteq> []" "prefix p url" "is_slash (last p)" "\<not> is_slash (url ! length p)" using assms(2) by (auto simp: dir_prefix_def)
      have lt: "length p < length url" using p(2) assms(2) by (metis le_neq_implies_less prefix_def prefix_length_le append_eq_conv_conj take_all_iff order_refl)
      have "last p = url ! (length p - 1)" using p(1,2) by (auto simp: prefix_def last_conv_nth nth_append)
      then have "is_slash (url ! (length p - 1))" using p(3) by simp
      then have "length p - 1 \<ge> length ?q + length b" using at [of "length p - 1"] False s(2) by (auto simp: list_all_length split: if_splits)
      then have "length p \<ge> length ?q + length b" by simp
      moreover from this have "length p - length ?q - length b < length s" using lt len by simp
      ultimately show False using p(4) at [of "length p"] s(3) by (simp add: list_all_length)
    qed
    then show ?thesis using no by simp
  qed
qed


lemma find_cong_set: "(\<And>x. x \<in> set xs \<Longrightarrow> P x = Q x) \<Longrightarrow> find P xs = find Q xs"
  by (induction xs) auto

lemma find_app: "find P (xs @ ys) = (case find P xs of None \<Rightarrow> find P ys | Some x \<Rightarrow> Some x)"
  by (induction xs) auto

lemma closest_limit_parent:
  assumes "url \<noteq> []" and "limits D url = None"
  shows "closest_limit D url = closest_limit D (parent_dir url)"
proof -
  obtain r where r: "url = parent_dir url @ r" using parent_dir_split by metis
  let ?P = "\<lambda>p. dir_prefix p url \<and> limits D p \<noteq> None" and ?Q = "\<lambda>p. dir_prefix p (parent_dir url) \<and> limits D p \<noteq> None"
  have same: "?P p = ?Q p" if "p \<noteq> url" for p using dir_prefix_parent [OF assms(1) that] by simp
  have PQ: "?P p = ?Q p" for p
  proof (cases "p = url")
    case True
    then show ?thesis using assms(2) by simp
  qed (rule same)
  have "find ?Q (rev (prefixes url)) = find ?Q (rev (prefixes (parent_dir url)))"
  proof -
    let ?t = "map ((@) (parent_dir url)) (tl (prefixes r))"
    have "\<not> ?Q p" if mem: "p \<in> set ?t" for p
    proof
      assume "?Q p"
      then have "length p \<le> length (parent_dir url)" by (auto simp: dir_prefix_def dest: prefix_length_le)
      moreover obtain y where "p = parent_dir url @ y" "y \<in> set (tl (prefixes r))" using mem by auto
      ultimately show False by (cases r) auto
    qed
    then have "find ?Q (rev ?t) = None" by (auto simp: find_None_iff)
    moreover have "prefixes url = prefixes (parent_dir url) @ ?t" by (subst r) (rule prefixes_append)
    ultimately show ?thesis by (simp add: find_app)
  qed
  then show ?thesis unfolding closest_limit_def using find_cong_set [of _ ?P ?Q] PQ by simp
qed

lemma limit_loop_ok:
  assumes heap: "\<And>n. kmalloc_ok h n" and ok: "um_ok d"
  shows "limit_loop h d url = Ret (closest_limit (directory_of d) url)"
proof (induction "length url" arbitrary: url rule: less_induct)
  case less
  show ?case
  proof (cases "url = []")
    case True
    then show ?thesis by (simp add: limit_loop.simps closest_limit_def dir_prefix_def)
  next
    case False
    show ?thesis
    proof (cases "um_map d ''access'' url")
      case None
      then show ?thesis
        using False less [OF parent_dir_shorter [OF False]] closest_limit_parent [OF False, of "directory_of d"] umAccessLimitExists_ok [OF ok, of url]
        by (simp add: limit_loop.simps [of h d url])
    next
      case (Some r)
      obtain xs x where "url = xs @ [x]" using False by (metis rev_exhaust)
      then have "closest_limit (directory_of d) url = Some url" using Some by (simp add: closest_limit_def dir_prefix_def)
      then show ?thesis using False Some heap umAccessLimitExists_ok [OF ok, of url] by (simp add: limit_loop.simps [of h d url])
    qed
  qed
qed


lemma umGetAccessLimit_ok:
  "(\<And>n. kmalloc_ok h n) \<Longrightarrow> um_ok d \<Longrightarrow> umGetAccessLimit h d url = Ret (closest_limit (directory_of d) url)"
  by (simp add: umGetAccessLimit_def limit_loop_ok)

lemma closest_limit_has: "closest_limit D url = Some l \<Longrightarrow> limits D l \<noteq> None"
  by (auto simp: closest_limit_def find_Some_iff)

text \<open>Who may see what: the account and its group are enabled, the group has a privilege and a method of
  access, and the closest limit, when there is one, does not forbid access or reserve it to another group.\<close>

definition can_access :: "directory \<Rightarrow> cstring \<Rightarrow> cstring \<Rightarrow> bool" where
  "can_access D u url =
     (case accounts D u of None \<Rightarrow> False | Some a \<Rightarrow>
      acc_disabled a = 0 \<and>
      (case roles D (acc_group a) of None \<Rightarrow> False | Some r \<Rightarrow>
       short (role_priv r) \<noteq> 0 \<and> role_disabled r = 0 \<and> role_method r \<noteq> AM_NONE \<and>
       (case closest_limit D url of None \<Rightarrow> True | Some l \<Rightarrow>
        lim_method (the (limits D l)) \<noteq> AM_NONE \<and>
        (lim_group (the (limits D l)) = [] \<or> lim_group (the (limits D l)) = acc_group a))))"

definition access_method :: "directory \<Rightarrow> cstring \<Rightarrow> int" where
  "access_method D url =
     (case closest_limit D url of None \<Rightarrow> AM_FULL | Some l \<Rightarrow>
      let a = the (limits D l) in
      if lim_group a = [] then lim_method a
      else case roles D (lim_group a) of None \<Rightarrow> AM_INVALID | Some r \<Rightarrow> role_method r)"

lemma umGetAccessMethodForURL_ok:
  assumes heap: "\<And>n. kmalloc_ok h n" and ok: "um_ok d"
  shows "umGetAccessMethodForURL h d url = Ret (access_method (directory_of d) url)"
  unfolding umGetAccessMethodForURL_def umGetAccessLimit_ok [OF heap ok] getters_ok [OF ok] access_method_def
  using closest_limit_has [of "directory_of d" url]
  by (auto simp: Let_def simp del: directory_sel split: option.split)

lemma umUserCanAccessURL_ok:
  assumes heap: "\<And>n. kmalloc_ok h n" and ok: "um_ok d"
  shows "umUserCanAccessURL h d u url = Ret (can_access (directory_of d) u url)"
proof -
  have ex: "umUserExists d u = Ret (accounts (directory_of d) u \<noteq> None)" by (simp add: umUserExists_ok [OF ok])
  show ?thesis
    unfolding umUserCanAccessURL_def ex umGetAccessLimit_ok [OF heap ok] getters_ok [OF ok] can_access_def
    using closest_limit_has [of "directory_of d" url]
    by (auto simp del: directory_sel split: option.split)
qed

section \<open>Results\<close>

primrec um_runs :: "kheap \<Rightarrow> um_op list \<Rightarrow> db \<Rightarrow> (int list \<times> db) outcome" where
  "um_runs h [] d = Ret ([], d)"
| "um_runs h (op # ops) d = obind (um_run h op d) (\<lambda>(rc, d). obind (um_runs h ops d) (\<lambda>(rcs, d). Ret (rc # rcs, d)))"

primrec spec_runs :: "um_op list \<Rightarrow> directory \<Rightarrow> int list \<times> directory" where
  "spec_runs [] D = ([], D)"
| "spec_runs (op # ops) D = (case spec_run op D of (rc, D) \<Rightarrow> case spec_runs ops D of (rcs, D) \<Rightarrow> (rc # rcs, D))"

abbreviation no_users :: directory where
  "no_users \<equiv> \<lparr>accounts = Map.empty, roles = Map.empty, limits = Map.empty\<rparr>"

lemma um_runs_sim:
  assumes heap: "\<And>n. kmalloc_ok h n"
  shows "um_ok d \<Longrightarrow> list_all op_ok ops \<Longrightarrow> \<exists>d'. um_runs h ops d = Ret (fst (spec_runs ops (directory_of d)), d') \<and> um_ok d'
    \<and> directory_of d' = snd (spec_runs ops (directory_of d))"
proof (induction ops arbitrary: d)
  case (Cons op ops)
  obtain d1 where d1: "um_run h op d = Ret (fst (spec_run op (directory_of d)), d1)" "um_ok d1" "directory_of d1 = snd (spec_run op (directory_of d))"
    using um_run_sim [OF heap Cons.prems(1), of op] Cons.prems(2) by (auto simp: simulates_def)
  from Cons.IH [OF d1(2)] Cons.prems(2) d1(1,3) show ?case by (auto simp: case_prod_beta)
qed simp

text \<open>C6: the user management implements its abstract directory. From \<open>umOpen\<close>, any sequence of the
  operations that add, delete and change users, groups and access limits runs to its end, every one of
  them returns the promised code (duplicate, bad name, bad password, missing group, protected, in use, not
  found or success), and the tables show the promised accounts, roles and limits and keep their invariant.\<close>

theorem um_refines_directory:
  assumes "\<And>n. kmalloc_ok h n" and "list_all op_ok ops"
  shows "\<exists>d. obind (umOpen h) (um_runs h ops) = Ret (fst (spec_runs ops no_users), d) \<and> um_ok d \<and> directory_of d = snd (spec_runs ops no_users)"
  using um_runs_sim [OF assms(1) _ assms(2), of "[Some userTable, Some groupTable, Some accessTable]"] um_open_ok [OF assms(1)] by simp

theorem um_refines_directory_witness:
  "\<exists>d. obind (umOpen (u_heap board_env)) (um_runs (u_heap board_env)
      [AddGroup (lit ''adm'') 7 3 0 0, AddUser (lit ''admin'') (lit ''admin'') (lit ''adm'') 0 0, AddUser (lit ''admin'') (lit ''x'') (lit ''adm'') 0 0,
       DeleteGroup (lit ''adm''), DeleteUser (lit ''guest''), AddAccessLimit (lit ''/'') 3 0 None])
    = Ret ([0, 0, UM_ERR_DUPLICATE, UM_ERR_IN_USE, UM_ERR_NOT_FOUND, 0], d) \<and> um_ok d"
  using um_refines_directory [of "u_heap board_env" "[AddGroup (lit ''adm'') 7 3 0 0, AddUser (lit ''admin'') (lit ''admin'') (lit ''adm'') 0 0,
       AddUser (lit ''admin'') (lit ''x'') (lit ''adm'') 0 0, DeleteGroup (lit ''adm''), DeleteUser (lit ''guest''), AddAccessLimit (lit ''/'') 3 0 None]"]
  by (auto simp: board_env_def umCheckName_def isspace_def is_cstring_def)

text \<open>C7: access control decides as its specification says. On tables that satisfy the invariant, the closest
  limit is that of the longest directory above the URL that has one, and \<open>umUserCanAccessURL\<close>,
  \<open>umGetAccessMethodForURL\<close> and \<open>umGetUserPassword\<close> return what the directory says, for every user and URL.\<close>

theorem um_access_control:
  assumes "\<And>n. kmalloc_ok h n" and "um_ok d"
  shows "umGetAccessLimit h d url = Ret (closest_limit (directory_of d) url)
    \<and> umUserCanAccessURL h d u url = Ret (can_access (directory_of d) u url)
    \<and> umGetAccessMethodForURL h d url = Ret (access_method (directory_of d) url)
    \<and> umGetUserPassword h d u = Ret (map_option acc_password (accounts (directory_of d) u))"
  using umGetAccessLimit_ok umUserCanAccessURL_ok umGetAccessMethodForURL_ok umGetUserPassword_ok assms by simp

theorem um_access_control_witness:
  "umGetAccessMethodForURL (u_heap board_env) [Some userTable, Some groupTable, Some accessTable] (lit ''/index.asp'') = Ret AM_FULL
    \<and> umUserCanAccessURL (u_heap board_env) [Some userTable, Some groupTable, Some accessTable] (lit ''admin'') (lit ''/index.asp'') = Ret False"
proof -
  have h: "kmalloc_ok (u_heap board_env) n" for n by (simp add: board_env_def)
  from um_open_ok [OF h] um_access_control [OF h, of "[Some userTable, Some groupTable, Some accessTable]" "lit ''/index.asp''" "lit ''admin''"]
  show ?thesis by (simp add: can_access_def access_method_def closest_limit_def find_None_iff [THEN iffD2] del: directory_sel)
qed

end
