(* ===== verification/WebUrl.thy ===== *)
theory WebUrl
  imports FwBase
begin

text \<open>
  The text of a request as the web server (\<open>user/goahead/src_tongyong\<close>) reads it: decoding of a URL
  (\<open>websDecodeUrl\<close>, \<open>webs.c\<close>), its parts (\<open>websUrlParse\<close>, \<open>url.c\<close>), the path without repeated slashes
  (\<open>handler.c\<close>), the file a path stands for (\<open>websValidateUrl\<close>, \<open>default.c\<close>), base 64
  (\<open>base64.c\<close>) and the credentials in the \<open>Authorization\<close> header (\<open>websParseRequest\<close>, \<open>webs.c\<close>).

  A decoded text is a C string: it ends at the first NUL byte, which \<open>%00\<close> can put anywhere. The
  results: a served file lies below the root directory whatever the request, the coders are inverse to
  reference encoders, and decoding never makes a text longer.
\<close>

section \<open>Decoding\<close>

text \<open>One digit of \<open>%nn\<close>: \<open>num * 16 + 10 + c - 'a'\<close> or \<open>num * 16 + c - '0'\<close>.\<close>

definition xdigit_value :: "byte \<Rightarrow> int" where
  "xdigit_value b = (let c = uint (tolower b) in if 0x61 \<le> c \<and> c \<le> 0x66 then 10 + c - 0x61 else c - 0x30)"

abbreviation PLUS :: byte where "PLUS \<equiv> 0x2B"
abbreviation BLANK :: byte where "BLANK \<equiv> 0x20"

fun decode_loop :: "cstring \<Rightarrow> nat \<Rightarrow> byte list" where
  "decode_loop [] len = []"
| "decode_loop (c # s) 0 = []"
| "decode_loop (c # s) (Suc len) =
     (if c = PLUS then BLANK # decode_loop s len
      else if c = PERCENT \<and> 2 \<le> length s \<and> isxdigit (s ! 0) \<and> isxdigit (s ! 1)
      then word_of_int (xdigit_value (s ! 0) * 16 + xdigit_value (s ! 1)) # decode_loop (drop 2 s) len
      else c # decode_loop s len)"

definition websDecodeUrl :: "cstring \<Rightarrow> nat \<Rightarrow> cstring" where
  "websDecodeUrl token len = cstr (decode_loop token len)"

section \<open>Parts of a URL\<close>

text \<open>The text from the first occurrence of a byte on, and before and after it.\<close>

definition from_byte :: "byte \<Rightarrow> cstring \<Rightarrow> cstring option" where
  "from_byte c s = (if c \<in> set s then Some (dropWhile (\<lambda>x. x \<noteq> c) s) else None)"

definition split_at :: "byte \<Rightarrow> cstring \<Rightarrow> (cstring \<times> cstring) option" where
  "split_at c s = (if c \<in> set s then Some (takeWhile (\<lambda>x. x \<noteq> c) s, tl (dropWhile (\<lambda>x. x \<noteq> c) s)) else None)"

abbreviation QMARK :: byte where "QMARK \<equiv> 0x3F"

text \<open>The scan over the host: after each colon the rest is the port, and the byte behind the colon is
  skipped. When the colon is the last byte the scan goes on behind the end of the string, in memory that was
  never written.\<close>

fun host_scan :: "cstring \<Rightarrow> cstring \<Rightarrow> cstring outcome" where
  "host_scan tok [] = Ret tok"
| "host_scan tok (c # s) =
     (if c = SLASH then Ret tok
      else if c = COLON then (case s of [] \<Rightarrow> Fault | _ # rest \<Rightarrow> host_scan s rest)
      else host_scan tok s)"

definition is_sep :: "byte \<Rightarrow> bool" where
  "is_sep c = (c = SLASH \<or> c = 0x5C)"

text \<open>The extension: from the last dot of the path on, when only separators follow it, which are cut off.\<close>

definition last_dot :: "cstring \<Rightarrow> cstring option" where
  "last_dot s = (if DOT \<in> set s then Some (DOT # rev (takeWhile (\<lambda>c. c \<noteq> DOT) (rev s))) else None)"

definition url_ext :: "cstring \<Rightarrow> cstring \<times> cstring" where
  "url_ext path =
     (case last_dot path of
        None \<Rightarrow> (path, lit ''.htm'')
      | Some cp \<Rightarrow>
          let ext = takeWhile (\<lambda>c. \<not> is_sep c) cp; rest = dropWhile (\<lambda>c. \<not> is_sep c) cp in
          if list_all is_sep rest then (take (length path - length rest) path, ext) else (path, lit ''.htm''))"

text \<open>Path, query and extension. The text behind \<open>#\<close> is cut off; when nothing is left of the query the path is
  taken from there again.\<close>

definition websUrlParse :: "kheap \<Rightarrow> cstring \<Rightarrow> (cstring \<times> cstring \<times> cstring) option outcome" where
  "websUrlParse h url =
     (if \<not> kmalloc_ok h (length url * 2 + 13) then Ret None
      else let buf = websDecodeUrl url (length url) in
        obind (if strneq buf (lit ''http://'') 7
               then obind (host_scan (drop 7 buf) (drop 7 buf)) (\<lambda>tok.
                 case from_byte SLASH tok of Some p \<Rightarrow> Ret (p, p) | None \<Rightarrow> Ret ([SLASH], tok))
               else Ret (buf, buf)) (\<lambda>(path, tok).
        let (path, query) =
          (case split_at QMARK tok of
             Some (p, q) \<Rightarrow>
               (case split_at HASH q of
                  Some (q', _) \<Rightarrow> (if q' = [] then [] else p, q')
                | None \<Rightarrow> (p, q))
           | None \<Rightarrow>
               (case split_at HASH tok of
                  Some (p, _) \<Rightarrow> (p, [])
                | None \<Rightarrow> (path, []))) in
        let (path, ext) = url_ext path in
        Ret (Some (path, query, ext))))"

section \<open>Paths\<close>

fun websCondenseMultipleChars :: "byte \<Rightarrow> cstring \<Rightarrow> cstring" where
  "websCondenseMultipleChars c (x # y # s) =
     (if x = c \<and> y = c then websCondenseMultipleChars c (y # s) else x # websCondenseMultipleChars c (y # s))"
| "websCondenseMultipleChars c s = s"

abbreviation kMaxUrlParts :: nat where "kMaxUrlParts \<equiv> 64"

text \<open>The segments of the path; \<open>len\<close> counts the bytes for the local path, those of segments that \<open>..\<close> takes
  back included.\<close>

fun url_segments :: "cstring list \<Rightarrow> cstring list \<Rightarrow> nat \<Rightarrow> (cstring list \<times> nat) option" where
  "url_segments [] acc len = Some (acc, len)"
| "url_segments (t # ts) acc len =
     (if length acc \<ge> kMaxUrlParts then None
      else if t = lit ''..'' then url_segments ts (butlast acc) len
      else if t = lit ''.'' then url_segments ts acc len
      else url_segments ts (acc @ [t]) (len + length t + 1))"

definition tokens :: "byte \<Rightarrow> cstring \<Rightarrow> cstring list" where
  "tokens d s = filter (\<lambda>t. t \<noteq> []) (parts d s)"

definition with_slash :: "byte \<Rightarrow> byte" where
  "with_slash c = (if c = 0x5C then SLASH else c)"

text \<open>The local path, \<open>None\<close> for -1. Copying it needs the room that was allocated.\<close>

definition websValidateUrl :: "kheap \<Rightarrow> cstring \<Rightarrow> cstring \<Rightarrow> cstring option outcome" where
  "websValidateUrl h dir path =
     (if dir = [] then Ret None
      else if \<not> kmalloc_ok h (length path + 1) then Fault
      else let p = map with_slash (websDecodeUrl path (length path)) in
        case url_segments (tokens SLASH p) [] 0 of
          None \<Rightarrow> Ret None
        | Some (segs, len) \<Rightarrow>
            if segs \<noteq> [] \<or> p = [SLASH] \<or> p = [] then
              let lpath = dir @ concat (map ((#) SLASH) segs); room = length dir + 1 + len + 1 in
              if kmalloc_ok h room \<and> length lpath + 1 \<le> room then Ret (Some lpath) else Fault
            else Ret None)"

section \<open>Base 64\<close>

definition alphabet64 :: cstring where
  "alphabet64 = lit ''ABCDEFGHIJKLMNOPQRSTUVWXYZabcdefghijklmnopqrstuvwxyz0123456789+/''"

definition map64 :: "int list" where
  "map64 = replicate 43 (- 1) @ [62, - 1, - 1, - 1, 63] @ [52..61] @ replicate 7 (- 1) @ [0..25] @ replicate 6 (- 1) @ [26..51]
     @ replicate 197 (- 1)"

text \<open>Up to four letters: the shift buffer, how many there were, and the rest; \<open>None\<close> for a letter that is
  not in the alphabet.\<close>

fun group64 :: "cstring \<Rightarrow> nat \<Rightarrow> nat \<Rightarrow> 32 word \<Rightarrow> (32 word \<times> nat \<times> cstring) option" where
  "group64 [] i shift buf = Some (buf, i, [])"
| "group64 (x # s) i shift buf =
     (if i \<ge> 4 \<or> x = EQUALS then Some (buf, i, x # s)
      else let c = map64 ! unat x in
        if c = - 1 then None
        else group64 s (i + 1) (shift - 6) (buf OR push_bit shift (word_of_int c)))"

definition bytes64 :: "32 word \<Rightarrow> nat \<Rightarrow> byte list" where
  "bytes64 buf n = map (\<lambda>j. ucast (drop_bit (8 * (2 - j)) buf AND 0xFF)) [0..<n]"


lemma group64_rest: "group64 s i sh buf = Some (b, n, rest) \<Longrightarrow> length rest \<le> length s \<and> (s \<noteq> [] \<and> hd s \<noteq> EQUALS \<and> i < 4 \<longrightarrow> length rest < length s)"
  by (induction s i sh buf rule: group64.induct) (auto simp: Let_def split: if_splits)

function decode64_loop :: "cstring \<Rightarrow> byte list \<Rightarrow> nat \<Rightarrow> int \<times> byte list" where
  "decode64_loop s out outlen =
     (if s = [] \<or> hd s = EQUALS then (0, out)
      else case group64 s 0 18 0 of
          None \<Rightarrow> (- 1, out)
        | Some (buf, i, rest) \<Rightarrow>
            if length out + (i - 1) \<ge> outlen then (- 1, lit ''String too big'')
            else decode64_loop rest (out @ bytes64 buf (i - 1)) outlen)"
  by pat_completeness auto
termination
  by (relation "measure (\<lambda>(s, out, outlen). length s)") (auto dest: group64_rest)

declare decode64_loop.simps [simp del]

definition websDecode64 :: "cstring \<Rightarrow> nat \<Rightarrow> int \<times> cstring" where
  "websDecode64 string outlen = (case decode64_loop string [] outlen of (rc, out) \<Rightarrow> (rc, cstr out))"

text \<open>Encoding: the letters are bounded by the length of the array, the padding and the terminator are not.\<close>

definition pack64 :: "byte list \<Rightarrow> 32 word" where
  "pack64 bs = foldl (OR) 0 (map (\<lambda>k. push_bit (8 * (2 - k)) (ucast (bs ! k))) [0..<length bs])"

definition letters64 :: "32 word \<Rightarrow> nat \<Rightarrow> cstring" where
  "letters64 buf n = map (\<lambda>k. alphabet64 ! unat (drop_bit (18 - 6 * k) buf AND 0x3F)) [0..<n]"

function encode64_loop :: "cstring \<Rightarrow> cstring \<Rightarrow> nat \<Rightarrow> cstring outcome" where
  "encode64_loop [] out outlen = Ret out"
| "encode64_loop (c # s) out outlen =
     (let g = c # take 2 s; n = length g;
          out' = out @ take (outlen - length out) (letters64 (pack64 g) (n + 1)) @ replicate (3 - n) EQUALS in
      if length out' \<ge> outlen then Fault else encode64_loop (drop 2 s) out' outlen)"
  by pat_completeness auto
termination
  by (relation "measure (\<lambda>(s, out, outlen). length s)") auto

declare encode64_loop.simps [simp del]

definition websEncode64 :: "cstring \<Rightarrow> nat \<Rightarrow> cstring outcome" where
  "websEncode64 string outlen = (if outlen = 0 then Fault else encode64_loop string [] outlen)"

section \<open>Credentials\<close>

abbreviation FNAMESIZE :: nat where "FNAMESIZE \<equiv> 254"

definition isalpha :: "byte \<Rightarrow> bool" where
  "isalpha c = (0x61 \<le> tolower c \<and> tolower c \<le> 0x7A)"

text \<open>User name and password of the value of an \<open>Authorization\<close> header, \<open>None\<close> when its type is not
  \<open>Basic\<close>. The code of the decoder is not looked at.\<close>

definition credentials :: "cstring \<Rightarrow> (cstring \<times> cstring) option" where
  "credentials val =
     (if map tolower (takeWhile isalpha val) = lit ''basic'' then
        let userAuth = snd (websDecode64 (case split_at BLANK val of Some (_, s) \<Rightarrow> s | None \<Rightarrow> val) FNAMESIZE) in
        Some (case split_at COLON userAuth of Some (user, pass) \<Rightarrow> (user, pass) | None \<Rightarrow> ([], []))
      else None)"

section \<open>Files\<close>

declare lit_Cons [simp del]

lemma url_segments_set:
  "url_segments ts acc len = Some (segs, n) \<Longrightarrow> set segs \<subseteq> set acc \<union> (set ts - {lit ''..'', lit ''.''})"
proof (induction ts arbitrary: acc len)
  case (Cons t ts)
  have b: "set (butlast acc) \<subseteq> set acc" by (auto dest: in_set_butlastD)
  consider "t = lit ''..''" "url_segments ts (butlast acc) len = Some (segs, n)" | "t = lit ''.''" "url_segments ts acc len = Some (segs, n)"
    | "t \<noteq> lit ''..''" "t \<noteq> lit ''.''" "url_segments ts (acc @ [t]) (len + length t + 1) = Some (segs, n)"
    using Cons.prems by (metis option.distinct(1) url_segments.simps(2))
  then show ?case
  proof cases
    case 1
    from Cons.IH [OF 1(2)] b show ?thesis by auto
  next
    case 2
    from Cons.IH [OF 2(2)] show ?thesis by auto
  next
    case 3
    from Cons.IH [OF 3(3)] 3(1,2) show ?thesis by auto
  qed
qed simp

lemma url_segments_length:
  "url_segments ts acc len = Some (segs, n) \<Longrightarrow> length acc \<le> kMaxUrlParts \<Longrightarrow> length segs \<le> kMaxUrlParts"
  by (induction ts acc len rule: url_segments.induct) (simp_all del: lit_Cons split: if_splits)

lemma sum_butlast: "sum_list (map f (butlast xs)) \<le> sum_list (map f xs)" for f :: "'a \<Rightarrow> nat"
  by (induction xs) auto

lemma url_segments_room:
  "url_segments ts acc len = Some (segs, n) \<Longrightarrow> sum_list (map (\<lambda>t. length t + 1) acc) \<le> len \<Longrightarrow> sum_list (map (\<lambda>t. length t + 1) segs) \<le> n"
proof (induction ts acc len rule: url_segments.induct)
  case (2 t ts acc len)
  then show ?case using sum_butlast [of "\<lambda>t. length t + 1" acc] by (auto split: if_splits simp del: lit_Cons)
qed simp

lemma tokens_clean: "t \<in> set (tokens d s) \<Longrightarrow> t \<noteq> [] \<and> d \<notin> set t \<and> set t \<subseteq> set s"
  using parts_free [of d s] set_parts [of d s] by (auto simp: tokens_def)

text \<open>C8: no request reaches a file outside the root directory of the server. For every root directory and every path
  of a request, encoded in whatever way, the file name that \<open>websValidateUrl\<close> produces is the root directory followed by at most 64
  segments that are not empty, not \<open>.\<close> or \<open>..\<close>, and have no separator (slash or backslash) or NUL byte in
  them; it fits the memory allocated for it, and the function returns for every request.\<close>

theorem websValidateUrl_confined:
  assumes "\<And>n. kmalloc_ok h n"
  shows "\<exists>res. websValidateUrl h dir path = Ret res \<and>
    (\<forall>lpath. res = Some lpath \<longrightarrow> (\<exists>segs. lpath = dir @ concat (map ((#) SLASH) segs) \<and> length segs \<le> kMaxUrlParts
      \<and> (\<forall>s \<in> set segs. s \<noteq> [] \<and> s \<noteq> lit ''.'' \<and> s \<noteq> lit ''..'' \<and> SLASH \<notin> set s \<and> 0x5C \<notin> set s \<and> NUL \<notin> set s)))"
proof -
  let ?p = "map with_slash (websDecodeUrl path (length path))"
  show ?thesis
  proof (cases "url_segments (tokens SLASH ?p) [] 0")
    case None
    then show ?thesis using assms by (simp add: websValidateUrl_def)
  next
    case (Some r)
    obtain segs n where r: "r = (segs, n)" by (cases r)
    note clean = url_segments_set [OF Some [unfolded r]]
    have room: "sum_list (map (\<lambda>t. length t + 1) segs) \<le> n" using url_segments_room [OF Some [unfolded r]] by simp
    have bytes: "0x5C \<notin> set ?p" "NUL \<notin> set ?p"
      using is_cstring_cstr [of "decode_loop path (length path)"] by (auto simp: with_slash_def websDecodeUrl_def is_cstring_def)
    have ok: "\<forall>s \<in> set segs. s \<noteq> [] \<and> s \<noteq> lit ''.'' \<and> s \<noteq> lit ''..'' \<and> SLASH \<notin> set s \<and> 0x5C \<notin> set s \<and> NUL \<notin> set s"
    proof
      fix x
      assume "x \<in> set segs"
      then have "x \<in> set (tokens SLASH ?p)" "x \<noteq> lit ''..''" "x \<noteq> lit ''.''" using clean by auto
      then show "x \<noteq> [] \<and> x \<noteq> lit ''.'' \<and> x \<noteq> lit ''..'' \<and> SLASH \<notin> set x \<and> 0x5C \<notin> set x \<and> NUL \<notin> set x"
        using tokens_clean [of x SLASH ?p] bytes by blast
    qed
    have len: "length (dir @ concat (map ((#) SLASH) segs)) + 1 \<le> length dir + 1 + n + 1"
      using room by (simp add: length_concat comp_def)
    show ?thesis
    proof (cases "dir = [] \<or> \<not> (segs \<noteq> [] \<or> ?p = [SLASH] \<or> ?p = [])")
      case True
      then show ?thesis using assms Some r by (auto simp: websValidateUrl_def)
    next
      case False
      then have "websValidateUrl h dir path = Ret (Some (dir @ concat (map ((#) SLASH) segs)))"
        using assms Some r len by (auto simp: websValidateUrl_def Let_def)
      then show ?thesis using ok url_segments_length [OF Some [unfolded r]] by auto
    qed
  qed
qed

theorem websValidateUrl_confined_witness:
  "\<exists>res. websValidateUrl (u_heap board_env) (lit ''/etc_ro/web'') (lit ''/a/%2e%2e/..%5c../etc/passwd'') = Ret res"
  using websValidateUrl_confined [of "u_heap board_env" "lit ''/etc_ro/web''" "lit ''/a/%2e%2e/..%5c../etc/passwd''"]
  by (auto simp: board_env_def simp del: lit_Cons)


section \<open>Base 64 and back\<close>

lemma letter_table: "map (\<lambda>v. map64 ! unat (alphabet64 ! v)) [0..<64] = map int [0..<64] \<and> list_all (\<lambda>x. x \<noteq> EQUALS \<and> x \<noteq> NUL) alphabet64 \<and> length alphabet64 = 64"
  by code_simp

definition letter :: "32 word \<Rightarrow> byte" where
  "letter v = alphabet64 ! unat v"

lemma letter_code:
  assumes "unat v < 64"
  shows "map64 ! unat (letter v) = uint v" "letter v \<noteq> EQUALS" "letter v \<noteq> NUL"
proof -
  have "\<forall>x \<in> {0..<64}. map64 ! unat (alphabet64 ! x) = int x" using letter_table by simp
  then show "map64 ! unat (letter v) = uint v" using assms by (simp add: letter_def)
  show "letter v \<noteq> EQUALS" "letter v \<noteq> NUL" using letter_table assms by (auto simp: letter_def list_all_length)
qed

lemma bit_low_bits:
  "bit (0xFF :: 'a::len word) n \<longleftrightarrow> n < 8 \<and> n < LENGTH('a)" "bit (0x3F :: 'a::len word) n \<longleftrightarrow> n < 6 \<and> n < LENGTH('a)"
  using bit_mask_iff [of 8 n, where 'a = "'a word"] bit_mask_iff [of 6 n, where 'a = "'a word"] by (auto simp: mask_eq_exp_minus_1)

lemma below_8: "n < 8 \<Longrightarrow> n \<in> {0, 1, 2, 3, 4, 5, 6, 7}" for n :: nat
  by auto

lemma bit_byte: "bit (a :: byte) n \<Longrightarrow> n < 8"
  using bit_imp_le_length [of a n] by simp

definition sextet :: "nat \<Rightarrow> 32 word \<Rightarrow> 32 word" where
  "sextet k buf = drop_bit k buf AND 0x3F"

lemma sextet_bound: "unat (sextet k buf) < 64"
proof -
  have "sextet k buf = take_bit 6 (drop_bit k buf)" by (simp add: sextet_def take_bit_eq_mask mask_eq_exp_minus_1)
  then have "unat (sextet k buf) = take_bit 6 (unat (drop_bit k buf))" by (simp add: unsigned_take_bit_eq)
  then show ?thesis using take_bit_nat_less_exp [of 6 "unat (drop_bit k buf)"] by simp
qed

lemma unpack_1:
  fixes a :: byte and buf :: "32 word"
  assumes "buf = push_bit 16 (ucast a)"
  shows "ucast (drop_bit 16 (push_bit 18 (sextet 18 buf) OR push_bit 12 (sextet 12 buf)) AND 0xFF) = a"
  unfolding sextet_def assms
  by (rule bit_word_eqI; simp add: bit_simps bit_low_bits; drule below_8; auto simp: numeral_eq_Suc dest: bit_byte)

lemma unpack_2:
  fixes a b :: byte and buf :: "32 word"
  assumes "buf = push_bit 16 (ucast a) OR push_bit 8 (ucast b)"
  defines "x \<equiv> push_bit 18 (sextet 18 buf) OR push_bit 12 (sextet 12 buf) OR push_bit 6 (sextet 6 buf)"
  shows "ucast (drop_bit 16 x AND 0xFF) = a" "ucast (drop_bit 8 x AND 0xFF) = b"
  unfolding sextet_def x_def assms(1)
  by (rule bit_word_eqI; simp add: bit_simps bit_low_bits; drule below_8; auto simp: numeral_eq_Suc dest: bit_byte)+

lemma unpack_3:
  fixes a b c :: byte and buf :: "32 word"
  assumes "buf = push_bit 16 (ucast a) OR push_bit 8 (ucast b) OR ucast c"
  defines "x \<equiv> push_bit 18 (sextet 18 buf) OR push_bit 12 (sextet 12 buf) OR push_bit 6 (sextet 6 buf) OR sextet 0 buf"
  shows "ucast (drop_bit 16 x AND 0xFF) = a" "ucast (drop_bit 8 x AND 0xFF) = b" "ucast (x AND 0xFF) = c"
  unfolding sextet_def x_def assms(1)
  by (rule bit_word_eqI; simp add: bit_simps bit_low_bits; drule below_8; auto simp: numeral_eq_Suc dest: bit_byte)+

lemma letters64_eq:
  "letters64 buf 2 = [letter (sextet 18 buf), letter (sextet 12 buf)]"
  "letters64 buf 3 = [letter (sextet 18 buf), letter (sextet 12 buf), letter (sextet 6 buf)]"
  "letters64 buf 4 = [letter (sextet 18 buf), letter (sextet 12 buf), letter (sextet 6 buf), letter (sextet 0 buf)]"
  by (simp_all add: letters64_def letter_def sextet_def numeral_eq_Suc)

lemma group64_letter:
  "i < 4 \<Longrightarrow> group64 (letter (sextet k b) # s) i sh buf = group64 s (i + 1) (sh - 6) (buf OR push_bit sh (sextet k b))"
proof -
  assume i: "i < 4"
  have "uint (sextet k b) \<noteq> - 1" using uint_nonnegative [of "sextet k b"] by linarith
  then show ?thesis using i letter_code [OF sextet_bound, of k b] by (simp add: Let_def)
qed

lemma group64_stop: "s = [] \<or> hd s = EQUALS \<or> i = 4 \<Longrightarrow> group64 s i sh buf = Some (buf, i, s)"
  by (cases s) auto


text \<open>One group of at most three bytes.\<close>

definition group_text :: "byte list \<Rightarrow> cstring" where
  "group_text g = letters64 (pack64 g) (length g + 1) @ replicate (3 - length g) EQUALS"

lemma length_letters64: "length (letters64 buf n) = n"
  by (simp add: letters64_def)

lemma group_length: "0 < length g \<Longrightarrow> length g \<le> 3 \<Longrightarrow> length (group_text g) = 4"
  by (auto simp: group_text_def letters64_def)

lemma group64_2:
  "group64 (letter (sextet 18 b) # letter (sextet 12 b) # EQUALS # s) 0 18 0
    = Some (push_bit 18 (sextet 18 b) OR push_bit 12 (sextet 12 b), 2, EQUALS # s)"
  by (simp add: group64_letter group64_stop numeral_2_eq_2 [symmetric] del: group64.simps push_bit_numeral)

lemma group64_3:
  "group64 (letter (sextet 18 b) # letter (sextet 12 b) # letter (sextet 6 b) # EQUALS # s) 0 18 0
    = Some (push_bit 18 (sextet 18 b) OR push_bit 12 (sextet 12 b) OR push_bit 6 (sextet 6 b), 3, EQUALS # s)"
  by (simp add: group64_letter group64_stop or.assoc numeral_3_eq_3 [symmetric] del: group64.simps push_bit_numeral)

lemma group64_4:
  "group64 (letter (sextet 18 b) # letter (sextet 12 b) # letter (sextet 6 b) # letter (sextet 0 b) # s) 0 18 0
    = Some (push_bit 18 (sextet 18 b) OR push_bit 12 (sextet 12 b) OR push_bit 6 (sextet 6 b) OR sextet 0 b, 4, s)"
  by (simp add: group64_letter group64_stop or.assoc del: group64.simps push_bit_numeral)

lemma group_decode:
  assumes g: "0 < length g" "length g \<le> 3" and rest: "length g < 3 \<longrightarrow> rest = []"
  obtains buf tail where "group64 (group_text g @ rest) 0 18 0 = Some (buf, length g + 1, tail)" "bytes64 buf (length g) = g"
    "\<And>out n. decode64_loop tail out n = decode64_loop rest out n"
proof -
  consider a where "g = [a]" | a b where "g = [a, b]" | a b c where "g = [a, b, c]"
    using g by (cases g rule: list.exhaust) (auto simp: length_Suc_conv le_Suc_eq numeral_eq_Suc)
  then show thesis
  proof cases
    case 1
    have "pack64 g = push_bit 16 (ucast a)" by (simp add: 1 pack64_def)
    note u = unpack_1 [OF this]
    have "group_text g = letter (sextet 18 (pack64 g)) # letter (sextet 12 (pack64 g)) # EQUALS # [EQUALS]"
      using letters64_eq(1) by (simp add: 1 group_text_def numeral_2_eq_2)
    then show ?thesis
      using that [of _ "[EQUALS, EQUALS]"] group64_2 [of "pack64 g" "[EQUALS]"] u rest by (simp add: 1 bytes64_def decode64_loop.simps)
  next
    case 2
    have "pack64 g = push_bit 16 (ucast a) OR push_bit 8 (ucast b)" by (simp add: 2 pack64_def)
    note u = unpack_2 [OF this]
    have "group_text g = letter (sextet 18 (pack64 g)) # letter (sextet 12 (pack64 g)) # letter (sextet 6 (pack64 g)) # [EQUALS]"
      using letters64_eq(2) by (simp add: 2 group_text_def numeral_3_eq_3)
    then show ?thesis
      using that [of _ "[EQUALS]"] group64_3 [of "pack64 g" "[]"] u rest by (simp add: 2 bytes64_def decode64_loop.simps)
  next
    case 3
    have "pack64 g = push_bit 16 (ucast a) OR push_bit 8 (ucast b) OR ucast c" by (simp add: 3 pack64_def or.assoc)
    note u = unpack_3 [OF this]
    have "group_text g @ rest = letter (sextet 18 (pack64 g)) # letter (sextet 12 (pack64 g)) # letter (sextet 6 (pack64 g)) # letter (sextet 0 (pack64 g)) # rest"
      using letters64_eq(3) by (simp add: 3 group_text_def numeral_eq_Suc)
    then show ?thesis
      using that [of _ rest] group64_4 [of "pack64 g" rest] u by (simp add: 3 bytes64_def)
  qed
qed


fun base64 :: "byte list \<Rightarrow> cstring" where
  "base64 [] = []"
| "base64 (c # s) = group_text (c # take 2 s) @ base64 (drop 2 s)"

lemma base64_rest: "length (c # take 2 s) < 3 \<longrightarrow> base64 (drop 2 s) = []"
  by simp

lemma group_text_start: "0 < length g \<Longrightarrow> length g \<le> 3 \<Longrightarrow> \<exists>x xs. group_text g = x # xs \<and> x \<noteq> EQUALS"
  using letter_code(2) [OF sextet_bound] by (auto simp: group_text_def letters64_def letter_def sextet_def upt_rec)

lemma decode_base64:
  "length out < n \<Longrightarrow> decode64_loop (base64 s) out n = (if length out + length s < n then (0, out @ s) else (- 1, lit ''String too big''))"
proof (induction s arbitrary: out rule: base64.induct)
  case (2 c s)
  let ?g = "c # take 2 s"
  have g: "0 < length ?g" "length ?g \<le> 3" "c # s = ?g @ drop 2 s" by simp_all
  obtain buf rest where d: "group64 (group_text ?g @ base64 (drop 2 s)) 0 18 0 = Some (buf, length ?g + 1, rest)" "bytes64 buf (length ?g) = ?g"
    "\<And>out n. decode64_loop rest out n = decode64_loop (base64 (drop 2 s)) out n"
    by (rule group_decode [OF g(1,2) base64_rest]) blast
  obtain x xs where x: "group_text ?g = x # xs" "x \<noteq> EQUALS" using group_text_start [OF g(1,2)] by blast
  have step: "decode64_loop (base64 (c # s)) out n = (if length out + length ?g \<ge> n then (- 1, lit ''String too big'')
      else decode64_loop (base64 (drop 2 s)) (out @ ?g) n)"
    using d x by (subst decode64_loop.simps) simp
  have len: "length (c # s) = length ?g + length (drop 2 s)" by simp
  show ?case
  proof (cases "length out + length ?g < n")
    case True
    then have o: "length (out @ ?g) < n" by simp
    have l: "length (out @ ?g) + length (drop 2 s) = length out + length (c # s)" "(out @ ?g) @ drop 2 s = out @ c # s"
      unfolding len by (simp_all only: length_append append.assoc g(3) [symmetric] ac_simps)
    show ?thesis unfolding step using True "2.IH" [OF o] unfolding l by (simp only: not_le [symmetric] if_False not_not)
  next
    case False
    then have "\<not> length out + length (c # s) < n" unfolding len by linarith
    moreover have "n \<le> length out + length ?g" using False by linarith
    ultimately show ?thesis unfolding step by (simp only: if_True if_False)
  qed
qed (simp add: decode64_loop.simps)

lemma encode_base64:
  "length out + 4 * ((length s + 2) div 3) < n \<Longrightarrow> encode64_loop s out n = Ret (out @ base64 s)"
proof (induction s arbitrary: out rule: base64.induct)
  case (2 c s)
  let ?g = "c # take 2 s"
  have g: "0 < length ?g" "length ?g \<le> 3" by simp_all
  have len: "(length (c # s) + 2) div 3 = (length (drop 2 s) + 2) div 3 + 1" by (cases s rule: remdups_adj.cases) simp_all
  have room: "length (out @ group_text ?g) + 4 * ((length (drop 2 s) + 2) div 3) < n"
    using "2.prems" group_length [OF g] len by simp
  have fits: "take (n - length out) (letters64 (pack64 ?g) (length ?g + 1)) = letters64 (pack64 ?g) (length ?g + 1)"
  proof (rule take_all)
    have "length out + 4 < n" using room group_length [OF g] by (simp only: length_append)
    then show "length (letters64 (pack64 ?g) (length ?g + 1)) \<le> n - length out" using g(2) unfolding length_letters64 by linarith
  qed
  have step: "encode64_loop (c # s) out n = (if length (out @ group_text ?g) \<ge> n then Fault else encode64_loop (drop 2 s) (out @ group_text ?g) n)"
    unfolding encode64_loop.simps Let_def fits group_text_def ..
  have "\<not> length (out @ group_text ?g) \<ge> n" using room by linarith
  then show ?case unfolding step "2.IH" [OF room] by (simp only: if_False base64.simps append.assoc)
qed (simp add: encode64_loop.simps)

lemma cstr_whole: "is_cstring s \<Longrightarrow> cstr s = s"
  by (auto simp: cstr_def is_cstring_def takeWhile_eq_all_conv)

text \<open>Base 64 and the credentials of a request. Encoding with \<open>websEncode64\<close> into an array with room for the result and
  decoding with \<open>websDecode64\<close> gives every C string back; a text that does not fit the array of the decoder gives its error text.\<close>

theorem base64_roundtrip:
  assumes "is_cstring s" and "4 * ((length s + 2) div 3) < n" and "0 < m"
  shows "\<exists>t. websEncode64 s n = Ret t \<and> websDecode64 t m = (if length s < m then (0, s) else (- 1, lit ''String too big''))"
proof (intro exI conjI)
  show "websEncode64 s n = Ret (base64 s)" using encode_base64 [of "[]" s n] assms(2) by (simp add: websEncode64_def)
  have "is_cstring (lit ''String too big'')" by (simp add: lit_Cons)
  then show "websDecode64 (base64 s) m = (if length s < m then (0, s) else (- 1, lit ''String too big''))"
    using decode_base64 [of "[]" m s] assms(1,3) by (simp add: websDecode64_def cstr_whole)
qed

theorem base64_roundtrip_witness:
  "websEncode64 (lit ''admin:admin'') 32 = Ret (lit ''YWRtaW46YWRtaW4='') \<and> websDecode64 (lit ''YWRtaW46YWRtaW4='') 254 = (0, lit ''admin:admin'')"
proof -
  have "websEncode64 (lit ''admin:admin'') 32 = Ret (lit ''YWRtaW46YWRtaW4='')" by code_simp
  then show ?thesis using base64_roundtrip [of "lit ''admin:admin''" 32 254] by (simp add: lit_Cons)
qed


text \<open>C25: the credentials of a request. The header \<open>Authorization: Basic\<close> with the base 64 text of \<open>user:password\<close> is read
  as that user (a name without a colon) and that password when the text is shorter than the array of 254 bytes, and as no user and no password
  when it is longer, whatever the text is.\<close>

theorem credentials_roundtrip:
  assumes "is_cstring (user @ COLON # pass)" and "COLON \<notin> set user"
  shows "credentials (lit ''Basic '' @ base64 (user @ COLON # pass))
    = Some (if length (user @ COLON # pass) < FNAMESIZE then (user, pass) else ([], []))"
proof -
  let ?t = "user @ COLON # pass"
  have head: "takeWhile isalpha (lit ''Basic '' @ x) = lit ''Basic''" "split_at BLANK (lit ''Basic '' @ x) = Some (lit ''Basic'', x)"
    "map tolower (lit ''Basic'') = lit ''basic''" for x
    by (simp_all add: lit_Cons isalpha_def tolower_def split_at_def)
  have "is_cstring (lit ''String too big'')" "split_at COLON (lit ''String too big'') = None" by (simp_all add: lit_Cons split_at_def)
  moreover have "split_at COLON ?t = Some (user, pass)" using assms(2)
    by (simp add: split_at_def takeWhile_tail dropWhile_append dropWhile_eq_Nil_conv)
  ultimately show ?thesis
    using decode_base64 [of "[]" FNAMESIZE ?t] assms(1) unfolding credentials_def head by (simp add: websDecode64_def cstr_whole)
qed

theorem credentials_roundtrip_witness:
  "credentials (lit ''Basic '' @ base64 (lit ''admin:a:b'')) = Some (lit ''admin'', lit ''a:b'')"
  using credentials_roundtrip [of "lit ''admin''" "lit ''a:b''"] by (simp add: lit_Cons)

section \<open>Encoded URLs\<close>

text \<open>Reference: any byte but letters and digits as a percent sign and two digits.\<close>

definition hex_digit :: "nat \<Rightarrow> byte" where
  "hex_digit n = (if n < 10 then of_nat n + 0x30 else of_nat n + 0x37)"

definition url_byte :: "byte \<Rightarrow> cstring" where
  "url_byte c = (if isalpha c \<or> isdigit c then [c] else [PERCENT, hex_digit (unat c div 16), hex_digit (unat c mod 16)])"

lemma hex_digit_value: "n < 16 \<Longrightarrow> isxdigit (hex_digit n) \<and> xdigit_value (hex_digit n) = int n"
proof -
  have "list_all (\<lambda>n. isxdigit (hex_digit n) \<and> xdigit_value (hex_digit n) = int n) [0..<16]" by code_simp
  then show "n < 16 \<Longrightarrow> isxdigit (hex_digit n) \<and> xdigit_value (hex_digit n) = int n" by (simp add: list_all_iff)
qed

lemma decode_url_byte: "decode_loop (url_byte c @ s) (Suc n) = c # decode_loop s n"
proof (cases "isalpha c \<or> isdigit c")
  case True
  then have "c \<noteq> PLUS" "c \<noteq> PERCENT" by (auto simp: isalpha_def isdigit_def tolower_def split: if_splits)
  then show ?thesis using True by (simp add: url_byte_def)
next
  case False
  have "unat c < 2 ^ LENGTH(8)" by (rule unsigned_less)
  then have "unat c < 256" by simp
  then have d: "unat c div 16 < 16" "unat c mod 16 < 16" by (simp_all add: less_mult_imp_div_less)
  have "word_of_int (int (unat c div 16) * 16 + int (unat c mod 16)) = (word_of_int (int (unat c)) :: byte)"
    by (metis div_mult_mod_eq of_nat_add of_nat_mult of_nat_numeral)
  then show ?thesis using False hex_digit_value [OF d(1)] hex_digit_value [OF d(2)] by (simp add: url_byte_def)
qed

lemma decode_encoded: "length s \<le> n \<Longrightarrow> decode_loop (concat (map url_byte s)) n = s"
proof (induction s arbitrary: n)
  case (Cons c s)
  then obtain m where "n = Suc m" "length s \<le> m" by (cases n) auto
  then show ?case using Cons.IH [of m] by (simp add: decode_url_byte)
qed (cases n; simp)

lemma decode_loop_length: "length (decode_loop s n) \<le> length s"
proof (induction s n rule: decode_loop.induct)
  case (3 c s n)
  then show ?case by (cases s rule: remdups_adj.cases) auto
qed simp_all

lemma cstr_length: "length (cstr s) \<le> length s"
  by (simp add: cstr_def length_takeWhile_le)

text \<open>Decoding of URLs. Every C string that is encoded with percent signs is decoded to itself, and decoding
  never makes a text longer, so that it can be done in place.\<close>

theorem websDecodeUrl_roundtrip:
  assumes "is_cstring s"
  shows "websDecodeUrl (concat (map url_byte s)) (length (concat (map url_byte s))) = s \<and> length (websDecodeUrl t n) \<le> length t"
proof
  have "length s \<le> length (concat (map url_byte s))" by (induction s) (auto simp: url_byte_def)
  then show "websDecodeUrl (concat (map url_byte s)) (length (concat (map url_byte s))) = s"
    using decode_encoded [of s] assms by (simp add: websDecodeUrl_def cstr_whole)
  show "length (websDecodeUrl t n) \<le> length t" using decode_loop_length [of t n] cstr_length [of "decode_loop t n"] by (simp add: websDecodeUrl_def)
qed

theorem websDecodeUrl_roundtrip_witness:
  "websDecodeUrl (concat (map url_byte (lit ''a&b=%c''))) (length (concat (map url_byte (lit ''a&b=%c'')))) = lit ''a&b=%c''"
  using websDecodeUrl_roundtrip [of "lit ''a&b=%c''"] by (simp add: lit_Cons)

end
