(* ===== verification/WebServer.thy ===== *)
theory WebServer
  imports Users WebUrl FwUpdate
begin

text \<open>
  The way of a request through the web server (\<open>user/goahead/src_tongyong\<close>): the list of URL handlers
  and the loop over it (\<open>handler.c\<close>), the security handler (\<open>security.c\<close>), the form handler (\<open>form.c\<close>), the
  home page handler and the start of the server (\<open>goahead.c\<close>), the default handler up to the file it
  opens (\<open>default.c\<close>), and the form that changes the administrator (\<open>setSysAdm\<close>, \<open>management.c\<close>).

  The state is that of the firewall forms (settings, commands, replies) with the tables of the user
  management beside it. Sending the text of an answer, running CGI programs and evaluating the page in a
  file are not modelled: a request ends in a \<open>verdict\<close> that says which code gets it.

  The build has no digest access, no assertions and no watchdog; \<open>sv_ssl\<close> says whether it has SSL.
\<close>

section \<open>Requests\<close>

text \<open>A pointer that may be NULL is an option.\<close>

record webs =
  wp_url :: cstring
  wp_path :: cstring
  wp_query :: cstring
  wp_userName :: "cstring option"
  wp_password :: "cstring option"
  wp_local :: bool
  wp_secure :: bool

text \<open>What the operating system says of a file, the root directory of the pages, and the build.\<close>

record senv =
  se_fw :: fenv
  se_isdir :: "cstring \<Rightarrow> bool"
  se_dir :: cstring
  se_ssl :: bool

abbreviation se_heap :: "senv \<Rightarrow> kheap" where
  "se_heap e \<equiv> u_heap (fe_u (se_fw e))"

section \<open>Security (security.c)\<close>

definition given :: "cstring option \<Rightarrow> bool" where
  "given p = (p \<noteq> None \<and> p \<noteq> Some [])"

definition denied :: "string \<Rightarrow> cstring" where
  "denied msg = lit ''Access Denied'' @ NEWLINE # lit msg"

text \<open>\<open>None\<close>: the handler returns 0 and the next one gets the request; otherwise it has answered.\<close>

definition websSecurityHandler :: "senv \<Rightarrow> db \<Rightarrow> webs \<Rightarrow> reply option outcome" where
  "websSecurityHandler e d wp =
     (let h = se_heap e; path = wp_path wp in
      obind (umGetAccessLimit h d path) (\<lambda>limit.
      case limit of None \<Rightarrow> Ret None | Some accessLimit \<Rightarrow>
      if strstr path (lit ''/goform/App'') then Ret None
      else obind (if se_ssl e then umGetAccessLimitSecure d accessLimit else Ret 0) (\<lambda>secure.
      if secure \<noteq> 0 \<and> \<not> wp_secure wp then Ret (Some (Errmsg 405 (denied ''Secure access is required.'')))
      else obind (umGetAccessMethodForURL h d accessLimit) (\<lambda>am.
      if wp_local wp then Ret None
      else if am = AM_NONE then Ret (Some (Errmsg 404 (lit ''Page Not Found'')))
      else if given (wp_userName wp) then
        (let userid = the (wp_userName wp) in
         obind (umUserExists d userid) (\<lambda>known.
         if \<not> known then Ret (Some (Errmsg 401 (denied ''Unknown User'')))
         else obind (umUserCanAccessURL h d userid accessLimit) (\<lambda>allowed.
         if \<not> allowed then Ret (Some (Errmsg 403 (denied ''Prohibited User'')))
         else if given (wp_password wp) then
           obind (umGetUserPassword h d userid) (\<lambda>userpass.
           if userpass \<noteq> None \<and> userpass \<noteq> wp_password wp then Ret (Some (Errmsg 401 (denied ''Wrong Password'')))
           else Ret None)
         else Ret (Some (Errmsg 401 (lit ''Access to this document requires a password''))))))
      else if am \<noteq> AM_FULL then Ret (Some (Errmsg 401 (lit ''Access to this document requires a User ID'')))
      else Ret None))))"

section \<open>Forms (form.c)\<close>

text \<open>The name of the form: behind the second slash of the path, up to the next one. The path is copied to an array with
  \<open>strncpy\<close>, which leaves a long path without a terminator.\<close>

definition form_name :: "cstring \<Rightarrow> cstring option outcome" where
  "form_name path =
     (let formBuf = take FNAMESIZE (path @ replicate FNAMESIZE NUL) in
      case strchr SLASH (drop 1 formBuf) of
        None \<Rightarrow> Fault
      | Some None \<Rightarrow> Ret None
      | Some (Some i) \<Rightarrow>
          (let formName = drop (i + 2) formBuf in
           case strchr SLASH formName of
             None \<Rightarrow> Fault
           | Some None \<Rightarrow> Ret (Some (cstr formName))
           | Some (Some j) \<Rightarrow> Ret (Some (take j formName))))"

section \<open>Handlers (handler.c)\<close>

datatype handler = Security | FormHandler | CgiHandler | HomePage | DefaultHandler

record url_handler =
  uh_prefix :: cstring
  uh_handler :: "handler option"
  uh_first :: bool
  uh_last :: bool

fun strcmp :: "cstring \<Rightarrow> cstring \<Rightarrow> int" where
  "strcmp [] [] = 0"
| "strcmp [] (y # t) = - 1"
| "strcmp (x # s) [] = 1"
| "strcmp (x # s) (y # t) = (if x = y then strcmp s t else if x < y then - 1 else 1)"

definition websUrlHandlerSort :: "url_handler \<Rightarrow> url_handler \<Rightarrow> int" where
  "websUrlHandlerSort s1 s2 =
     (if uh_first s1 \<or> uh_last s2 then - 1
      else if uh_first s2 \<or> uh_last s1 then 1
      else let rc = strcmp (uh_prefix s1) (uh_prefix s2) in
        if rc = 0 \<and> length (uh_prefix s1) < length (uh_prefix s2) then 1
        else if rc = 0 \<and> length (uh_prefix s1) > length (uh_prefix s2) then - 1
        else - rc)"

text \<open>\<open>qsort\<close> of the C library; the result is the only sorted order when no two elements compare equal.\<close>

fun insert_handler :: "url_handler \<Rightarrow> url_handler list \<Rightarrow> url_handler list" where
  "insert_handler x [] = [x]"
| "insert_handler x (y # ys) = (if websUrlHandlerSort x y \<le> 0 then x # y # ys else y # insert_handler x ys)"

text \<open>When the array can not grow it is lost and its old length is kept.\<close>

definition websUrlHandlerDefine :: "kheap \<Rightarrow> cstring \<Rightarrow> handler \<Rightarrow> bool \<Rightarrow> bool \<Rightarrow> url_handler list \<Rightarrow> url_handler list outcome" where
  "websUrlHandlerDefine h urlPrefix hdl ffirst flast hs =
     (if \<not> kmalloc_ok h ((length hs + 1) * 24) then Fault
      else Ret (foldr insert_handler (hs @ [\<lparr>uh_prefix = urlPrefix, uh_handler = Some hdl, uh_first = ffirst, uh_last = flast\<rparr>]) []))"

primrec websUrlHandlerDelete :: "handler \<Rightarrow> url_handler list \<Rightarrow> int \<times> url_handler list" where
  "websUrlHandlerDelete h [] = (- 1, [])"
| "websUrlHandlerDelete h (s # hs) =
     (if uh_handler s = Some h then (0, s\<lparr>uh_handler := None\<rparr> # hs)
      else case websUrlHandlerDelete h hs of (rc, hs) \<Rightarrow> (rc, s # hs))"

section \<open>Files (default.c)\<close>

text \<open>Which code gets a request: an answer, a form, a CGI program, a redirection to the default page of a
  directory, a file.\<close>

datatype verdict = Answer reply | RunForm cstring | RunCgi | ToDirectory cstring | Page cstring

definition cut_slash :: "cstring \<Rightarrow> cstring" where
  "cut_slash s = (if s \<noteq> [] \<and> is_sep (last s) then butlast s else s)"

definition websDefaultHandler :: "senv \<Rightarrow> webs \<Rightarrow> verdict outcome" where
  "websDefaultHandler e wp =
     obind (websValidateUrl (se_heap e) (se_dir e) (wp_path wp)) (\<lambda>lpath.
     case lpath of
       None \<Rightarrow> Ret (Answer (Errmsg 500 (lit ''Invalid URL'')))
     | Some lpath \<Rightarrow>
         let lpath = cut_slash lpath in
         if se_isdir e lpath then
           (if wp_path wp = [] then Fault else Ret (ToDirectory (cut_slash (wp_path wp) @ lit ''/default.asp'')))
         else Ret (Page lpath))"

definition websHomePageHandler :: "webs \<Rightarrow> reply option" where
  "websHomePageHandler wp = (if wp_url wp = [] \<or> wp_url wp = [SLASH] then Some (Redirect (lit ''home.asp'')) else None)"

text \<open>One handler: \<open>None\<close> when it returns 0.\<close>

definition call_handler :: "senv \<Rightarrow> db \<Rightarrow> webs \<Rightarrow> handler \<Rightarrow> verdict option outcome" where
  "call_handler e d wp hdl =
     (case hdl of
        Security \<Rightarrow> obind (websSecurityHandler e d wp) (\<lambda>r. Ret (map_option Answer r))
      | FormHandler \<Rightarrow> obind (form_name (wp_path wp)) (\<lambda>n.
          Ret (Some (case n of None \<Rightarrow> Answer (Errmsg 200 (lit ''Missing form name'')) | Some n \<Rightarrow> RunForm n)))
      | CgiHandler \<Rightarrow> Ret (Some RunCgi)
      | HomePage \<Rightarrow> Ret (map_option Answer (websHomePageHandler wp))
      | DefaultHandler \<Rightarrow> obind (websDefaultHandler e wp) (\<lambda>v. Ret (Some v)))"

primrec handler_loop :: "senv \<Rightarrow> db \<Rightarrow> webs \<Rightarrow> url_handler list \<Rightarrow> verdict outcome" where
  "handler_loop e d wp [] = Ret (Answer (Errmsg 200 (lit ''No handler for this URL'')))"
| "handler_loop e d wp (s # hs) =
     (case uh_handler s of
        Some hdl \<Rightarrow>
          if strneq (uh_prefix s) (wp_path wp) (length (uh_prefix s)) then
            obind (call_handler e d wp hdl) (\<lambda>r. case r of Some v \<Rightarrow> Ret v | None \<Rightarrow> handler_loop e d wp hs)
          else handler_loop e d wp hs
      | None \<Rightarrow> handler_loop e d wp hs)"

definition condensed :: "webs \<Rightarrow> webs" where
  "condensed wp = wp\<lparr>wp_path := websCondenseMultipleChars SLASH (wp_path wp), wp_url := websCondenseMultipleChars SLASH (wp_url wp)\<rparr>"

definition websUrlHandlerRequest :: "senv \<Rightarrow> db \<Rightarrow> url_handler list \<Rightarrow> webs \<Rightarrow> verdict outcome" where
  "websUrlHandlerRequest e d hs wp = handler_loop e d (condensed wp) hs"

text \<open>A request from the text of its first line and its \<open>Authorization\<close> header; \<open>None\<close> for a bad URL.\<close>

definition websRequest :: "kheap \<Rightarrow> cstring \<Rightarrow> cstring option \<Rightarrow> bool \<Rightarrow> bool \<Rightarrow> webs option outcome" where
  "websRequest h url auth local secure =
     obind (websUrlParse h url) (\<lambda>parsed.
     let c = (case auth of None \<Rightarrow> None | Some v \<Rightarrow> credentials v) in
     Ret (map_option (\<lambda>(path, qs, ext). \<lparr>wp_url = url, wp_path = path, wp_query = qs, wp_userName = map_option fst c, wp_password = map_option snd c,
       wp_local = local, wp_secure = secure\<rparr>) parsed))"

section \<open>Start (goahead.c)\<close>

definition adm :: cstring where
  "adm = lit ''adm''"

definition init_users :: "kheap \<Rightarrow> cstring option \<Rightarrow> cstring option \<Rightarrow> db outcome" where
  "init_users h admu admp =
     obind (umOpen h) (\<lambda>d.
     obind (umAddGroup h adm 7 AM_DIGEST 0 0 d) (\<lambda>(_, d).
     if given admu \<and> given admp then
       obind (umAddUser h (the admu) (the admp) adm 0 0 d) (\<lambda>(_, d).
       obind (umAddAccessLimit h [SLASH] AM_DIGEST 0 (Some adm) d) (\<lambda>(_, d). Ret d))
     else Ret d))"

definition init_handlers :: "kheap \<Rightarrow> url_handler list outcome" where
  "init_handlers h =
     obind (websUrlHandlerDefine h [] Security True False []) (\<lambda>hs.
     obind (websUrlHandlerDefine h (lit ''/goform'') FormHandler False False hs) (\<lambda>hs.
     obind (websUrlHandlerDefine h (lit ''/cgi-bin'') CgiHandler False False hs) (\<lambda>hs.
     obind (websUrlHandlerDefine h [] DefaultHandler False True hs) (\<lambda>hs.
     websUrlHandlerDefine h [SLASH] HomePage False False hs))))"

text \<open>The state of the server; \<open>sv_command\<close> is the array \<open>system_command\<close> of \<open>management.c\<close>, up to its terminator.\<close>

record server =
  sv_fw :: fw
  sv_um :: db
  sv_handlers :: "url_handler list"
  sv_command :: cstring

text \<open>\<open>None\<close>: the server does not start, because there is no LAN address or it can not be read.\<close>

definition initWebs :: "fenv \<Rightarrow> fw \<Rightarrow> server option outcome" where
  "initWebs e w =
     obind (fw_get e w ''lan_ipaddr'') (\<lambda>(lan_ip, w).
     obind (fw_get e w ''Login'') (\<lambda>(admu, w).
     obind (fw_get e w ''Password'') (\<lambda>(admp, w).
     obind (init_users (u_heap (fe_u e)) admu admp) (\<lambda>d.
     case lan_ip of None \<Rightarrow> Ret None | Some ip \<Rightarrow>
     if inet_aton ip = None \<or> inet_aton ip = Some (- 1) then Ret None
     else obind (init_handlers (u_heap (fe_u e))) (\<lambda>hs.
       Ret (Some \<lparr>sv_fw = w, sv_um = d, sv_handlers = hs, sv_command = []\<rparr>))))))"

section \<open>The administrator (management.c)\<close>

definition um_drop :: "(int \<times> db) outcome \<Rightarrow> db outcome" where
  "um_drop m = obind m (\<lambda>(_, d). Ret d)"

definition delete_if_there :: "cstring option \<Rightarrow> db \<Rightarrow> db outcome" where
  "delete_if_there u d =
     (case u of None \<Rightarrow> Ret d | Some u \<Rightarrow>
      obind (umUserExists d u) (\<lambda>there. if there then um_drop (umDeleteUser u d) else Ret d))"

definition change_adm :: "kheap \<Rightarrow> cstring option \<Rightarrow> cstring \<Rightarrow> cstring \<Rightarrow> db \<Rightarrow> db outcome" where
  "change_adm h old_user admuser admpass d =
     obind (umGroupExists d adm) (\<lambda>g.
     obind (if g then Ret d else um_drop (umAddGroup h adm 7 AM_DIGEST 0 0 d)) (\<lambda>d.
     obind (delete_if_there old_user d) (\<lambda>d.
     obind (delete_if_there (Some admuser) d) (\<lambda>d.
     um_drop (umAddUser h admuser admpass adm 0 0 d)))))"

definition setSysAdm :: "fenv \<Rightarrow> query \<Rightarrow> server \<Rightarrow> server outcome" where
  "setSysAdm e q s =
     (let submitUrl = form_var q ''submit-url'' '''' in
      obind (fw_get e (sv_fw s) ''Login'') (\<lambda>(old_user, w).
      let admuser = form_var q ''admuser'' ''''; admpass = form_var q ''admpass'' '''' in
      if admuser = [] \<or> admpass = [] then Ret (s\<lparr>sv_fw := w\<rparr>)
      else
        obind (doSystem e w (lit ''sed -e 's/^%s:/%s:/' /etc/passwd > /etc/newpw'') [AStr old_user, AStr (Some admuser)]) (\<lambda>w.
        obind (doSystem e w (lit ''cp /etc/newpw /etc/passwd'') []) (\<lambda>w.
        obind (doSystem e w (lit ''rm -f /etc/newpw'') []) (\<lambda>w.
        obind (doSystem e w (lit ''chpasswd.sh %s %s'') [AStr (Some admuser), AStr (Some admpass)]) (\<lambda>w.
        obind (change_adm (u_heap (fe_u e)) old_user admuser admpass (sv_um s)) (\<lambda>d.
        obind (fw_bufset e w ''Login'' admuser) (\<lambda>w.
        obind (fw_bufset e w ''Password'' admpass) (\<lambda>w.
        obind (fw_commit e w) (\<lambda>w.
        obind (doSystem e w (lit ''storage.sh samba'') []) (\<lambda>w.
        Ret (s\<lparr>sv_fw := answer (Redirect submitUrl) w, sv_um := d\<rparr>))))))))))))"


section \<open>Forms by name\<close>

text \<open>A form gets the variables of the request and the text of the query.\<close>

type_synonym form = "fenv \<Rightarrow> query \<Rightarrow> cstring \<Rightarrow> server \<Rightarrow> server outcome"

definition websFormDefine :: "cstring \<Rightarrow> form option \<Rightarrow> (cstring \<Rightarrow> form option) \<Rightarrow> int \<times> (cstring \<Rightarrow> form option)" where
  "websFormDefine name fn tab = (case fn of None \<Rightarrow> (- 1, tab) | Some f \<Rightarrow> (0, tab(name \<mapsto> f)))"

definition fw_form :: "(fenv \<Rightarrow> query \<Rightarrow> fw \<Rightarrow> fw outcome) \<Rightarrow> form" where
  "fw_form f e q qs s = obind (f e q (sv_fw s)) (\<lambda>w. Ret (s\<lparr>sv_fw := w\<rparr>))"

definition define_all :: "(string \<times> form) list \<Rightarrow> (cstring \<Rightarrow> form option) \<Rightarrow> cstring \<Rightarrow> form option" where
  "define_all fs tab = foldl (\<lambda>tab (name, f). snd (websFormDefine (lit name) (Some f) tab)) tab fs"

text \<open>The forms of the firewall (all but \<open>getRulesPacketCount\<close>).\<close>

definition firewall_forms :: "(string \<times> form) list" where
  "firewall_forms = [(''ipportBasicSettings'', fw_form ipportBasicSettings), (''ipportFilter'', fw_form ipportFilter),
     (''ipportFilterDelete'', fw_form ipportFilterDelete), (''DMZ'', fw_form DMZ),
     (''portForwardBasicSettings'', fw_form portForwardBasicSettings), (''portForward'', fw_form portForward),
     (''portForwardDelete'', fw_form portForwardDelete), (''singlePortForwardBasicSettings'', fw_form singlePortForwardBasicSettings),
     (''singlePortForward'', fw_form singlePortForward), (''singlePortForwardDelete'', fw_form singlePortForwardDelete),
     (''websSysFirewall'', fw_form websSysFirewall), (''websSysRemote'', fw_form websSysRemote),
     (''webContentFilter'', fw_form webContentFilter), (''websURLFilterDelete'', fw_form websURLFilterDelete),
     (''websHostFilterDelete'', fw_form websHostFilterDelete), (''websHostFilter'', fw_form websHostFilter),
     (''websURLBasicSettings'', fw_form websURLBasicSettings), (''websURLFilter'', fw_form websURLFilter)]"

definition formDefineFirewall :: "(cstring \<Rightarrow> form option) \<Rightarrow> cstring \<Rightarrow> form option" where
  "formDefineFirewall = define_all firewall_forms"

text \<open>A request to its end; \<open>None\<close> when it goes on in a CGI program or a page.\<close>

definition websFormRun :: "fenv \<Rightarrow> (cstring \<Rightarrow> form option) \<Rightarrow> query \<Rightarrow> cstring \<Rightarrow> cstring \<Rightarrow> server \<Rightarrow> server outcome" where
  "websFormRun e tab q qs formName s =
     (case tab formName of
        None \<Rightarrow> Ret (s\<lparr>sv_fw := answer (Errmsg 200 (lit ''Form '' @ formName @ lit '' is not defined'')) (sv_fw s)\<rparr>)
      | Some f \<Rightarrow> f e q qs s)"

definition websServe :: "senv \<Rightarrow> (cstring \<Rightarrow> form option) \<Rightarrow> query \<Rightarrow> webs \<Rightarrow> server \<Rightarrow> server option outcome" where
  "websServe e tab q wp s =
     obind (websUrlHandlerRequest e (sv_um s) (sv_handlers s) wp) (\<lambda>v.
     case v of
       Answer r \<Rightarrow> Ret (Some (s\<lparr>sv_fw := answer r (sv_fw s)\<rparr>))
     | RunForm name \<Rightarrow> obind (websFormRun (se_fw e) tab q (wp_query wp) name s) (\<lambda>s. Ret (Some s))
     | ToDirectory url \<Rightarrow> Ret (Some (s\<lparr>sv_fw := answer (Redirect url) (sv_fw s)\<rparr>))
     | RunCgi \<Rightarrow> Ret None
     | Page lpath \<Rightarrow> Ret None)"

section \<open>The decision of the security handler\<close>

declare lit_Cons [simp del]

definition admits :: "bool \<Rightarrow> directory \<Rightarrow> webs \<Rightarrow> bool" where
  "admits ssl D wp =
     (case closest_limit D (wp_path wp) of
        None \<Rightarrow> True
      | Some l \<Rightarrow>
          strstr (wp_path wp) (lit ''/goform/App'')
          \<or> (ssl \<and> short (lim_secure (the (limits D l))) \<noteq> 0 \<longrightarrow> wp_secure wp)
            \<and> (wp_local wp
               \<or> access_method D l \<noteq> AM_NONE
                 \<and> (if given (wp_userName wp)
                    then (case accounts D (the (wp_userName wp)) of None \<Rightarrow> False | Some a \<Rightarrow>
                            can_access D (the (wp_userName wp)) l \<and> given (wp_password wp) \<and> wp_password wp = Some (acc_password a))
                    else access_method D l = AM_FULL)))"

fun is_error :: "reply \<Rightarrow> bool" where
  "is_error (Errmsg c m) = True"
| "is_error r = False"

lemma security_decides:
  assumes heap: "\<And>n. kmalloc_ok (se_heap e) n" and ok: "um_ok d"
  shows "\<exists>r. websSecurityHandler e d wp = Ret r \<and> (r = None \<longleftrightarrow> admits (se_ssl e) (directory_of d) wp) \<and> (\<forall>a. r = Some a \<longrightarrow> is_error a)"
proof (cases "closest_limit (directory_of d) (wp_path wp)")
  case None
  then show ?thesis using umGetAccessLimit_ok [OF heap ok] by (simp add: websSecurityHandler_def admits_def)
next
  case (Some l)
  have ex: "umUserExists d u = Ret (accounts (directory_of d) u \<noteq> None)" for u by (simp add: umUserExists_ok [OF ok])
  obtain a where a: "limits (directory_of d) l = Some a" using closest_limit_has [OF Some] by blast
  show ?thesis
  proof (cases "strstr (wp_path wp) (lit ''/goform/App'') \<or> (se_ssl e \<and> short (lim_secure a) \<noteq> 0 \<and> \<not> wp_secure wp) \<or> wp_local wp
      \<or> access_method (directory_of d) l = AM_NONE")
    case True
    then show ?thesis
      using Some a by (auto simp: websSecurityHandler_def admits_def Let_def umGetAccessLimit_ok [OF heap ok] getters_ok [OF ok]
          umGetAccessMethodForURL_ok [OF heap ok] simp del: directory_sel)
  next
    case False
    then have start: "websSecurityHandler e d wp =
      (if given (wp_userName wp) then
        (let userid = the (wp_userName wp) in
         obind (umUserExists d userid) (\<lambda>known.
         if \<not> known then Ret (Some (Errmsg 401 (denied ''Unknown User'')))
         else obind (umUserCanAccessURL (se_heap e) d userid l) (\<lambda>allowed.
         if \<not> allowed then Ret (Some (Errmsg 403 (denied ''Prohibited User'')))
         else if given (wp_password wp) then
           obind (umGetUserPassword (se_heap e) d userid) (\<lambda>userpass.
           if userpass \<noteq> None \<and> userpass \<noteq> wp_password wp then Ret (Some (Errmsg 401 (denied ''Wrong Password'')))
           else Ret None)
         else Ret (Some (Errmsg 401 (lit ''Access to this document requires a password''))))))
      else if access_method (directory_of d) l \<noteq> AM_FULL then Ret (Some (Errmsg 401 (lit ''Access to this document requires a User ID'')))
      else Ret None)"
      using Some a by (auto simp: websSecurityHandler_def Let_def umGetAccessLimit_ok [OF heap ok] getters_ok [OF ok]
          umGetAccessMethodForURL_ok [OF heap ok] simp del: directory_sel)
    show ?thesis
    proof (cases "accounts (directory_of d) (the (wp_userName wp))")
      case None
      then show ?thesis unfolding start ex admits_def Some using False a by (auto simp del: directory_sel)
    next
      case (Some b)
      then show ?thesis
        unfolding start ex admits_def umUserCanAccessURL_ok [OF heap ok] umGetUserPassword_ok [OF heap ok] \<open>closest_limit _ _ = Some l\<close>
        using False a by (auto simp: Let_def simp del: directory_sel)
    qed
  qed
qed

section \<open>After the start\<close>

text \<open>The one administrator, his group and the limit of the whole server.\<close>

definition adm_directory :: "(cstring \<times> cstring) option \<Rightarrow> directory" where
  "adm_directory c = \<lparr>accounts = (case c of None \<Rightarrow> Map.empty
       | Some (u, p) \<Rightarrow> [u \<mapsto> \<lparr>acc_password = p, acc_group = adm, acc_prot = 0, acc_disabled = 0\<rparr>]),
     roles = [adm \<mapsto> \<lparr>role_priv = 7, role_method = AM_DIGEST, role_prot = 0, role_disabled = 0\<rparr>],
     limits = [[SLASH] \<mapsto> \<lparr>lim_method = AM_DIGEST, lim_secure = 0, lim_group = adm\<rparr>]\<rparr>"

lemma init_users_ok:
  assumes heap: "\<And>n. kmalloc_ok h n" and u: "given admu" and p: "given admp" "is_cstring (the admp)"
  shows "\<exists>d. init_users h admu admp = Ret d \<and> um_ok d
    \<and> directory_of d = adm_directory (if umCheckName (the admu) \<and> umCheckName (the admp) then Some (the admu, the admp) else None)"
proof -
  let ?ops = "[AddGroup adm 7 AM_DIGEST 0 0, AddUser (the admu) (the admp) adm 0 0, AddAccessLimit [SLASH] AM_DIGEST 0 (Some adm)]"
  have "umCheckName adm" by (simp add: adm_def umCheckName_def lit_Cons isspace_def)
  moreover obtain d0 where d0: "umOpen h = Ret d0" "um_ok d0" "directory_of d0 = no_users" using um_open_ok [OF heap] by blast
  moreover obtain d where d: "um_runs h ?ops d0 = Ret (fst (spec_runs ?ops no_users), d)" "um_ok d" "directory_of d = snd (spec_runs ?ops no_users)"
    using um_runs_sim [OF heap d0(2), of ?ops] p(2) d0(3) by auto
  moreover have "init_users h admu admp = obind (um_runs h ?ops d0) (\<lambda>(_, d). Ret d)"
    using u p d0(1) by (simp add: init_users_def case_prod_unfold obind_assoc)
  ultimately show ?thesis by (auto simp: adm_directory_def split: option.split)
qed


lemma prefixes_slash: "dir_prefix [SLASH] url \<longleftrightarrow> url = [SLASH] \<or> (\<exists>c r. url = SLASH # c # r \<and> \<not> is_slash c)"
  by (cases url rule: remdups_adj.cases) (auto simp: dir_prefix_def is_slash_def)

lemma find_single:
  assumes "P x" and "x \<in> set xs" and "\<And>y. P y \<Longrightarrow> y = x"
  shows "find P xs = Some x"
proof (cases "find P xs")
  case None
  then show ?thesis using assms(1,2) by (simp add: find_None_iff)
next
  case (Some y)
  then have "P y" by (auto simp: find_Some_iff)
  then show ?thesis using Some assms(3) by simp
qed

lemma adm_sel:
  "limits (adm_directory c) = [[SLASH] \<mapsto> \<lparr>lim_method = AM_DIGEST, lim_secure = 0, lim_group = adm\<rparr>]"
  "roles (adm_directory c) = [adm \<mapsto> \<lparr>role_priv = 7, role_method = AM_DIGEST, role_prot = 0, role_disabled = 0\<rparr>]"
  "accounts (adm_directory (Some (u, p))) = [u \<mapsto> \<lparr>acc_password = p, acc_group = adm, acc_prot = 0, acc_disabled = 0\<rparr>]"
  "accounts (adm_directory None) = Map.empty"
  by (simp_all add: adm_directory_def)

lemma adm_limit: "closest_limit (adm_directory c) url = (if dir_prefix [SLASH] url then Some [SLASH] else None)"
proof -
  have only: "(dir_prefix p url \<and> limits (adm_directory c) p \<noteq> None) \<longleftrightarrow> dir_prefix p url \<and> p = [SLASH]" for p
    by (simp add: adm_sel)
  show ?thesis
  proof (cases "dir_prefix [SLASH] url")
    case True
    then have "[SLASH] \<in> set (rev (prefixes url))" by (simp add: dir_prefix_def)
    then have "find (\<lambda>p. dir_prefix p url \<and> p = [SLASH]) (rev (prefixes url)) = Some [SLASH]" using True by (intro find_single) simp_all
    then show ?thesis using True unfolding closest_limit_def only by simp
  next
    case False
    then have "find (\<lambda>p. dir_prefix p url \<and> p = [SLASH]) (rev (prefixes url)) = None" by (auto simp: find_None_iff)
    then show ?thesis using False unfolding closest_limit_def only by simp
  qed
qed

lemma adm_method: "access_method (adm_directory c) [SLASH] = AM_DIGEST"
proof -
  have "dir_prefix [SLASH] [SLASH]" by (simp add: dir_prefix_def)
  then show ?thesis by (simp add: access_method_def adm_limit adm_sel adm_def lit_Cons)
qed

lemma adm_can_access: "can_access (adm_directory (Some (u, p))) u [SLASH]"
proof -
  have "dir_prefix [SLASH] [SLASH]" by (simp add: dir_prefix_def)
  then show ?thesis by (simp add: can_access_def adm_limit adm_sel short_def)
qed

text \<open>Whether a path lies below the limit of the root: it is the root, or starts with a slash that no other
  slash and no backslash follows.\<close>

definition protected_path :: "cstring \<Rightarrow> bool" where
  "protected_path path = (path = [SLASH] \<or> (\<exists>c r. path = SLASH # c # r \<and> c \<noteq> SLASH \<and> c \<noteq> 0x5C))"

lemma protected_slash: "protected_path path \<longleftrightarrow> dir_prefix [SLASH] path"
  by (auto simp: protected_path_def prefixes_slash is_slash_def)

definition is_app :: "cstring \<Rightarrow> bool" where
  "is_app path = strstr path (lit ''/goform/App'')"

lemma admits_adm:
  "admits ssl (adm_directory c) wp \<longleftrightarrow> wp_local wp \<or> \<not> protected_path (wp_path wp) \<or> is_app (wp_path wp)
    \<or> (\<exists>u p. c = Some (u, p) \<and> u \<noteq> [] \<and> p \<noteq> [] \<and> wp_userName wp = Some u \<and> wp_password wp = Some p)"
proof (cases "protected_path (wp_path wp)")
  case False
  then show ?thesis by (simp add: admits_def adm_limit protected_slash)
next
  case True
  have sec: "short (lim_secure (the (limits (adm_directory c) [SLASH]))) = 0" by (simp add: adm_directory_def)
  show ?thesis
  proof (cases "c = None \<or> (\<exists>u p. c = Some (u, p) \<and> wp_userName wp \<noteq> Some u)")
    case no: True
    then have "given (wp_userName wp) \<Longrightarrow> accounts (adm_directory c) (the (wp_userName wp)) = None"
      by (auto simp: adm_directory_def given_def split: option.splits)
    then show ?thesis using True no sec by (auto simp: admits_def adm_limit protected_slash adm_method is_app_def)
  next
    case False
    then obtain u p where c: "c = Some (u, p)" "wp_userName wp = Some u" by auto
    have acc: "accounts (adm_directory c) u = Some \<lparr>acc_password = p, acc_group = adm, acc_prot = 0, acc_disabled = 0\<rparr>"
      by (simp add: c adm_directory_def)
    show ?thesis
      using True sec acc adm_can_access [of u p] by (auto simp: admits_def adm_limit protected_slash adm_method is_app_def c given_def)
  qed
qed

text \<open>Who passes the security handler. After the start with a user name and a password in the settings, a request that does
  not come from the device itself passes exactly when it carries that name and password, or its path has \<open>/goform/App\<close> in it, or its
  path is not below the root as the access limits see it: it does not start with a slash, or a slash or
  backslash follows the first one. A user name or password with white space is never accepted.\<close>

theorem websSecurityHandler_after_start:
  assumes "\<And>n. kmalloc_ok (se_heap e) n" and "given admu" and "given admp" and "is_cstring (the admp)" and "\<not> wp_local wp"
  shows "\<exists>d r. init_users (se_heap e) admu admp = Ret d \<and> websSecurityHandler e d wp = Ret r
    \<and> (r = None \<longleftrightarrow> \<not> protected_path (wp_path wp) \<or> is_app (wp_path wp)
        \<or> umCheckName (the admu) \<and> umCheckName (the admp) \<and> wp_userName wp = admu \<and> wp_password wp = admp)"
proof -
  obtain d where d: "init_users (se_heap e) admu admp = Ret d" "um_ok d"
    "directory_of d = adm_directory (if umCheckName (the admu) \<and> umCheckName (the admp) then Some (the admu, the admp) else None)"
    using init_users_ok [OF assms(1-4)] by blast
  obtain r where r: "websSecurityHandler e d wp = Ret r" "r = None \<longleftrightarrow> admits (se_ssl e) (directory_of d) wp"
    using security_decides [OF assms(1) d(2)] by blast
  obtain u p where up: "admu = Some u" "admp = Some p" "u \<noteq> []" "p \<noteq> []" using assms(2,3) by (auto simp: given_def)
  show ?thesis using d(1) r assms(5) unfolding d(3) admits_adm up by (auto simp: up)
qed


section \<open>Dispatch\<close>

definition std_handlers :: "url_handler list" where
  "std_handlers = [\<lparr>uh_prefix = [], uh_handler = Some Security, uh_first = True, uh_last = False\<rparr>,
     \<lparr>uh_prefix = lit ''/goform'', uh_handler = Some FormHandler, uh_first = False, uh_last = False\<rparr>,
     \<lparr>uh_prefix = lit ''/cgi-bin'', uh_handler = Some CgiHandler, uh_first = False, uh_last = False\<rparr>,
     \<lparr>uh_prefix = [SLASH], uh_handler = Some HomePage, uh_first = False, uh_last = False\<rparr>,
     \<lparr>uh_prefix = [], uh_handler = Some DefaultHandler, uh_first = False, uh_last = True\<rparr>]"

lemma init_handlers_ok: "(\<And>n. kmalloc_ok h n) \<Longrightarrow> init_handlers h = Ret std_handlers"
  by (simp add: init_handlers_def websUrlHandlerDefine_def websUrlHandlerSort_def std_handlers_def lit_Cons Let_def)

text \<open>Where a request that passes the security handler goes.\<close>

definition target :: "senv \<Rightarrow> webs \<Rightarrow> verdict outcome" where
  "target e wp =
     (if strneq (lit ''/goform'') (wp_path wp) 7 then
        obind (form_name (wp_path wp)) (\<lambda>n. Ret (case n of None \<Rightarrow> Answer (Errmsg 200 (lit ''Missing form name'')) | Some n \<Rightarrow> RunForm n))
      else if strneq (lit ''/cgi-bin'') (wp_path wp) 8 then Ret RunCgi
      else if strneq [SLASH] (wp_path wp) 1 \<and> wp_url wp \<in> {[], [SLASH]} then Ret (Answer (Redirect (lit ''home.asp'')))
      else websDefaultHandler e wp)"

lemma strneq_nothing [simp]: "strneq a b 0"
  by (simp add: strneq_def)

lemma obind_option: "obind (obind m (\<lambda>n. Ret (Some (f n)))) (\<lambda>r. case r of Some v \<Rightarrow> Ret v | None \<Rightarrow> x) = obind m (\<lambda>n. Ret (f n))"
  by (cases m) simp_all

lemma request_std:
  "websUrlHandlerRequest e d std_handlers wp =
     obind (websSecurityHandler e d (condensed wp)) (\<lambda>r. case r of Some a \<Rightarrow> Ret (Answer a) | None \<Rightarrow> target e (condensed wp))"
proof -
  let ?w = "condensed wp"
  have last: "handler_loop e d ?w [\<lparr>uh_prefix = [], uh_handler = Some DefaultHandler, uh_first = False, uh_last = True\<rparr>] = websDefaultHandler e ?w"
    by (cases "websDefaultHandler e ?w") (simp_all add: call_handler_def)
  have rest: "handler_loop e d ?w (tl std_handlers) = target e ?w"
    using last by (auto simp: std_handlers_def target_def call_handler_def websHomePageHandler_def numeral_eq_Suc obind_option)
  show ?thesis
    unfolding websUrlHandlerRequest_def using rest
    by (cases "websSecurityHandler e d ?w") (auto simp: std_handlers_def call_handler_def split: option.splits)
qed


section \<open>Requests after the start\<close>

lemma security_refuses:
  assumes heap: "\<And>n. kmalloc_ok (se_heap e) n" and ok: "um_ok d" and no: "\<not> admits (se_ssl e) (directory_of d) wp"
  obtains c m where "websSecurityHandler e d wp = Ret (Some (Errmsg c m))"
proof -
  obtain a where a: "websSecurityHandler e d wp = Ret (Some a)" "is_error a" using security_decides [OF heap ok, of wp] no by auto
  then show thesis using that by (cases a) auto
qed

definition refused :: "senv \<Rightarrow> (cstring \<Rightarrow> form option) \<Rightarrow> query \<Rightarrow> webs \<Rightarrow> server \<Rightarrow> bool" where
  "refused e tab q wp s = (\<exists>c m. websServe e tab q wp s = Ret (Some (s\<lparr>sv_fw := answer (Errmsg c m) (sv_fw s)\<rparr>)))"

lemma not_admitted_refused:
  assumes "\<And>n. kmalloc_ok (se_heap e) n" and "um_ok (sv_um s)" and "sv_handlers s = std_handlers"
    and "\<not> admits (se_ssl e) (directory_of (sv_um s)) (condensed wp)"
  shows "refused e tab q wp s"
proof -
  obtain c m where "websSecurityHandler e (sv_um s) (condensed wp) = Ret (Some (Errmsg c m))" by (rule security_refuses [OF assms(1,2,4)])
  then have "websServe e tab q wp s = Ret (Some (s\<lparr>sv_fw := answer (Errmsg c m) (sv_fw s)\<rparr>))" by (simp add: websServe_def assms(3) request_std)
  then show ?thesis unfolding refused_def by blast
qed

lemma admitted_target:
  assumes "\<And>n. kmalloc_ok (se_heap e) n" and "um_ok d" and "admits (se_ssl e) (directory_of d) (condensed wp)"
  shows "websUrlHandlerRequest e d std_handlers wp = target e (condensed wp)"
  using security_decides [OF assms(1,2), of "condensed wp"] assms(3) by (auto simp: request_std)

lemma no_administrator_decides:
  assumes "\<And>n. kmalloc_ok (se_heap e) n" and "um_ok (sv_um s)" and "sv_handlers s = std_handlers" and "directory_of (sv_um s) = adm_directory None"
  shows "let path = websCondenseMultipleChars SLASH (wp_path wp) in
     if wp_local wp \<or> \<not> protected_path path \<or> is_app path
     then websUrlHandlerRequest e (sv_um s) (sv_handlers s) wp = target e (condensed wp) else refused e tab q wp s"
proof -
  have "admits (se_ssl e) (directory_of (sv_um s)) (condensed wp) \<longleftrightarrow> wp_local wp \<or> \<not> protected_path (websCondenseMultipleChars SLASH (wp_path wp))
      \<or> is_app (websCondenseMultipleChars SLASH (wp_path wp))" unfolding assms(4) admits_adm by (simp add: condensed_def)
  then show ?thesis using admitted_target [OF assms(1,2)] not_admitted_refused [OF assms(1-3)] assms(3) by (auto simp: Let_def)
qed

definition readable_ip :: "cstring \<Rightarrow> bool" where
  "readable_ip ip = (inet_aton ip \<noteq> None \<and> inet_aton ip \<noteq> Some (- 1))"

definition adm_of :: "fw \<Rightarrow> (cstring \<times> cstring) option" where
  "adm_of w = (if umCheckName (sval w ''Login'') \<and> umCheckName (sval w ''Password'') then Some (sval w ''Login'', sval w ''Password'') else None)"

lemma fw_ok_values: "fw_ok e w \<Longrightarrow> is_cstring (sval w name)"
  using lib_okD(9) [of "fe_u e" 0 "wnv (fweb w)"] by (simp add: fw_ok_def setting_cstring)

lemma initWebs_ok:
  assumes ok: "fw_ok e w" and set: "sval w ''Login'' \<noteq> []" "sval w ''Password'' \<noteq> []" "readable_ip (sval w ''lan_ipaddr'')"
  shows "\<exists>s. initWebs e w = Ret (Some s) \<and> issued e w [] (sv_fw s) \<and> sv_handlers s = std_handlers \<and> um_ok (sv_um s)
    \<and> directory_of (sv_um s) = adm_directory (adm_of w)"
proof -
  have heap: "\<And>n. kmalloc_ok (u_heap (fe_u e)) n" using fw_ok_user [OF ok] by (simp add: user_ok_def)
  obtain w1 where w1: "fw_get e w ''lan_ipaddr'' = Ret (Some (sval w ''lan_ipaddr''), w1)" "issued e w [] w1" by (rule fw_get_ok [OF ok])
  obtain w2 where w2: "fw_get e w1 ''Login'' = Ret (Some (sval w ''Login''), w2)" "issued e w [] w2"
    by (rule fw_get_ok [OF issued_ok [OF w1(2)], of "''Login''"]) (use w1(2) issued_trans [OF w1(2)] in \<open>auto simp: issued_cfg\<close>)
  obtain w3 where w3: "fw_get e w2 ''Password'' = Ret (Some (sval w ''Password''), w3)" "issued e w [] w3"
    by (rule fw_get_ok [OF issued_ok [OF w2(2)], of "''Password''"]) (use w2(2) issued_trans [OF w2(2)] in \<open>auto simp: issued_cfg\<close>)
  obtain d where d: "init_users (u_heap (fe_u e)) (Some (sval w ''Login'')) (Some (sval w ''Password'')) = Ret d" "um_ok d"
    "directory_of d = adm_directory (adm_of w)"
    using init_users_ok [OF heap, of "Some (sval w ''Login'')" "Some (sval w ''Password'')"] set fw_ok_values [OF ok] by (auto simp: given_def adm_of_def)
  have "initWebs e w = Ret (Some \<lparr>sv_fw = w3, sv_um = d, sv_handlers = std_handlers, sv_command = []\<rparr>)"
    using set(3) by (auto simp: initWebs_def w1(1) w2(1) w3(1) d(1) init_handlers_ok [OF heap] readable_ip_def)
  then show ?thesis using w3(2) d by auto
qed


lemma server_guards:
  assumes "fw_ok (se_fw e) w" and "sval w ''Login'' \<noteq> []" and "sval w ''Password'' \<noteq> []" and "readable_ip (sval w ''lan_ipaddr'')"
  shows "\<exists>s. initWebs (se_fw e) w = Ret (Some s) \<and> cfg (sv_fw s) = cfg w \<and>
    (let path = websCondenseMultipleChars SLASH (wp_path wp) in
     if wp_local wp \<or> \<not> protected_path path \<or> is_app path \<or> (adm_of w \<noteq> None \<and> wp_userName wp = map_option fst (adm_of w) \<and> wp_password wp = map_option snd (adm_of w))
     then websUrlHandlerRequest e (sv_um s) (sv_handlers s) wp = target e (condensed wp)
     else refused e tab q wp s)"
proof -
  have heap: "\<And>n. kmalloc_ok (se_heap e) n" using fw_ok_user [OF assms(1)] by (simp add: user_ok_def)
  obtain s where s: "initWebs (se_fw e) w = Ret (Some s)" "issued (se_fw e) w [] (sv_fw s)" "sv_handlers s = std_handlers" "um_ok (sv_um s)"
    "directory_of (sv_um s) = adm_directory (adm_of w)" using initWebs_ok [OF assms] by blast
  let ?path = "websCondenseMultipleChars SLASH (wp_path wp)"
  have adm: "admits (se_ssl e) (directory_of (sv_um s)) (condensed wp) \<longleftrightarrow> wp_local wp \<or> \<not> protected_path ?path \<or> is_app ?path
      \<or> (adm_of w \<noteq> None \<and> wp_userName wp = map_option fst (adm_of w) \<and> wp_password wp = map_option snd (adm_of w))"
    unfolding s(5) admits_adm using assms(2,3) by (auto simp: condensed_def adm_of_def)
  show ?thesis
  proof (intro exI conjI)
    show "initWebs (se_fw e) w = Ret (Some s)" by (rule s(1))
    show "cfg (sv_fw s) = cfg w" by (rule issued_cfg [OF s(2)])
    show "let path = ?path in
     if wp_local wp \<or> \<not> protected_path path \<or> is_app path \<or> (adm_of w \<noteq> None \<and> wp_userName wp = map_option fst (adm_of w) \<and> wp_password wp = map_option snd (adm_of w))
     then websUrlHandlerRequest e (sv_um s) (sv_handlers s) wp = target e (condensed wp)
     else refused e tab q wp s"
      unfolding Let_def adm [symmetric] using admitted_target [OF heap s(4)] not_admitted_refused [OF heap s(4,3)] s(3) by auto
  qed
qed

text \<open>C4: the server guards what lies behind the security handler. It starts with the user name and the password of the settings; then
  a request gets to the form, CGI program or page its path names exactly when it comes from the device itself, or carries that name and that password,
  or has a path that the access limits do not cover or that has \<open>/goform/App\<close> in it. Every other request is answered with an error message,
  and nothing else of the server changes: no setting, no command, no user.\<close>

theorem server_guards_requests:
  assumes "fw_ok (se_fw e) w" and "sval w ''Login'' \<noteq> []" and "sval w ''Password'' \<noteq> []" and "readable_ip (sval w ''lan_ipaddr'')"
  shows "\<exists>s. initWebs (se_fw e) w = Ret (Some s) \<and> cfg (sv_fw s) = cfg w \<and>
    (let path = websCondenseMultipleChars SLASH (wp_path wp) in
     if wp_local wp \<or> \<not> protected_path path \<or> is_app path \<or> (adm_of w \<noteq> None \<and> wp_userName wp = map_option fst (adm_of w) \<and> wp_password wp = map_option snd (adm_of w))
     then websUrlHandlerRequest e (sv_um s) (sv_handlers s) wp = target e (condensed wp)
     else refused e tab q wp s)"
  by (rule server_guards [OF assms])

section \<open>Ways around the guard\<close>

lemma decode_plain: "PLUS \<notin> set s \<Longrightarrow> PERCENT \<notin> set s \<Longrightarrow> decode_loop s (length s) = s"
  by (induction s) auto

lemma from_slash_scan: "\<not> strneq (c # s) (lit ''http://'') 7" if "c \<noteq> 0x68"
  using that by (simp add: strneq_def lit_Cons numeral_eq_Suc)

text \<open>Text without any byte that has a meaning in a URL.\<close>

definition plain_url :: "cstring \<Rightarrow> bool" where
  "plain_url s = (NUL \<notin> set s \<and> PLUS \<notin> set s \<and> PERCENT \<notin> set s \<and> QMARK \<notin> set s \<and> HASH \<notin> set s)"

lemma last_dot_suffix: "last_dot s = Some cp \<Longrightarrow> \<exists>a. s = a @ cp \<and> cp \<noteq> []"
proof -
  assume cp: "last_dot s = Some cp"
  let ?t = "takeWhile (\<lambda>c. c \<noteq> DOT) (rev s)" and ?d = "dropWhile (\<lambda>c. c \<noteq> DOT) (rev s)"
  have dot: "DOT \<in> set (rev s)" "cp = DOT # rev ?t" using cp by (auto simp: last_dot_def split: if_splits)
  then obtain y r where d: "?d = y # r" by (cases ?d) (auto simp: dropWhile_eq_Nil_conv)
  then have "y = DOT" using hd_dropWhile [of "\<lambda>c. c \<noteq> DOT" "rev s"] by simp
  then have "rev s = ?t @ DOT # r" using takeWhile_dropWhile_id [of "\<lambda>c. c \<noteq> DOT" "rev s"] d by simp
  then have "s = rev r @ DOT # rev ?t" by (metis append.assoc append_Cons append_Nil rev.simps(2) rev_append rev_rev_ident)
  then show ?thesis using dot(2) by auto
qed

lemma url_ext_kept: "\<not> is_sep (last s) \<Longrightarrow> fst (url_ext s) = s"
proof (cases "last_dot s")
  case (Some cp)
  assume l: "\<not> is_sep (last s)"
  let ?rest = "dropWhile (\<lambda>c. \<not> is_sep c) cp"
  obtain a where cp: "s = a @ cp" "cp \<noteq> []" using last_dot_suffix [OF Some] by blast
  show ?thesis
  proof (cases "list_all is_sep ?rest")
    case True
    have rest: "?rest = []"
    proof (rule ccontr)
      assume ne: "?rest \<noteq> []"
      have eq: "(a @ takeWhile (\<lambda>c. \<not> is_sep c) cp) @ ?rest = s" using cp(1) by simp
      have "last ((a @ takeWhile (\<lambda>c. \<not> is_sep c) cp) @ ?rest) = last ?rest" by (rule last_appendR [OF ne])
      then have "last ?rest = last s" by (simp only: eq)
      moreover have "is_sep (last ?rest)" using True last_in_set [OF ne] unfolding list_all_iff by blast
      ultimately show False using l by simp
    qed
    show ?thesis unfolding url_ext_def Some option.case Let_def rest by simp
  next
    case False
    then show ?thesis using Some by (simp add: url_ext_def)
  qed
qed (simp add: url_ext_def)

lemma parse_plain:
  assumes "kmalloc_ok h (length url * 2 + 13)" and "plain_url url" and "\<not> strneq url (lit ''http://'') 7" and "\<not> is_sep (last url)"
  shows "websUrlParse h url = Ret (Some (url, [], snd (url_ext url)))"
proof -
  have "websDecodeUrl url (length url) = url"
    using assms(2) by (simp add: websDecodeUrl_def decode_plain plain_url_def cstr_whole is_cstring_def)
  moreover have "split_at QMARK url = None" "split_at HASH url = None" using assms(2) by (auto simp: split_at_def plain_url_def)
  ultimately show ?thesis
    using assms(1,3) url_ext_kept [OF assms(4)] by (simp add: websUrlParse_def case_prod_beta)
qed


lemma condense_single: "(\<forall>a b x y. s = a @ x # y # b \<longrightarrow> x \<noteq> c \<or> y \<noteq> c) \<Longrightarrow> websCondenseMultipleChars c s = s"
proof (induction c s rule: websCondenseMultipleChars.induct)
  case (1 c x y s)
  have "x \<noteq> c \<or> y \<noteq> c" using 1(3) by (metis append_Nil)
  moreover have "\<forall>a b x' y'. y # s = a @ x' # y' # b \<longrightarrow> x' \<noteq> c \<or> y' \<noteq> c" using 1(3) by (metis append_Cons)
  ultimately show ?case using 1(2) by auto
qed simp_all

lemma condense_free: "c \<notin> set s \<Longrightarrow> websCondenseMultipleChars c s = s"
  by (rule condense_single) auto

lemma condense_step: "x \<noteq> c \<Longrightarrow> websCondenseMultipleChars c (x # s) = x # websCondenseMultipleChars c s"
  by (cases s) simp_all

lemma condense_append: "c \<notin> set f \<Longrightarrow> websCondenseMultipleChars c (f @ s) = f @ websCondenseMultipleChars c s"
  by (induction f) (auto simp: condense_step)

lemma strchr_take_hit: "strchr d (f @ d # rest) = Some (Some (length f))" if "d \<notin> set f" "NUL \<notin> set f" "d \<noteq> NUL"
  using that by (rule_tac strchr_hit) (auto simp: is_cstring_def)

lemma form_name_nested:
  assumes "SLASH \<notin> set f" and "NUL \<notin> set f" and "length f \<le> 200"
  shows "form_name (lit ''/goform/'' @ f @ lit ''/goform/App'') = Ret (Some f)"
proof -
  let ?path = "lit ''/goform/'' @ f @ lit ''/goform/App''"
  have len: "length ?path \<le> 219" using assms(3) by (simp add: lit_Cons)
  obtain rest where buf: "take FNAMESIZE (?path @ replicate FNAMESIZE NUL) = ?path @ NUL # rest"
  proof
    have "take FNAMESIZE (?path @ replicate FNAMESIZE NUL) = ?path @ replicate (FNAMESIZE - length ?path) NUL" using len by simp
    also have "replicate (FNAMESIZE - length ?path) NUL = NUL # replicate (FNAMESIZE - length ?path - 1) NUL"
      using len by (cases "FNAMESIZE - length ?path") simp_all
    finally show "take FNAMESIZE (?path @ replicate FNAMESIZE NUL) = ?path @ NUL # replicate (FNAMESIZE - length ?path - 1) NUL" by simp
  qed
  have 1: "strchr SLASH (drop 1 (?path @ NUL # rest)) = Some (Some 6)"
    using strchr_take_hit [of SLASH "lit ''goform''"] by (simp add: lit_Cons)
  have d: "drop 8 (?path @ NUL # rest) = f @ SLASH # (lit ''goform/App'' @ NUL # rest)" by (simp add: lit_Cons)
  have 2: "strchr SLASH (drop 8 (?path @ NUL # rest)) = Some (Some (length f))"
    unfolding d by (rule strchr_take_hit) (use assms in auto)
  show ?thesis unfolding form_name_def buf Let_def 1 option.case using 2 d by simp
qed

lemma form_served:
  assumes "\<And>n. kmalloc_ok (se_heap e) n" and "um_ok (sv_um s)" and "sv_handlers s = std_handlers"
    and "SLASH \<notin> set f" and "NUL \<notin> set f" and "f \<noteq> []" and "length f \<le> 200" and path: "wp_path wp = lit ''/goform/'' @ f @ lit ''/goform/App''"
  shows "websServe e tab q wp s = obind (websFormRun (se_fw e) tab q (wp_query wp) f s) (\<lambda>s. Ret (Some s))"
proof -
  have "websCondenseMultipleChars SLASH (wp_path wp) = wp_path wp"
    using condense_append [OF assms(4), of "lit ''/goform/App''"] assms(4,6) unfolding path by (cases f) (auto simp: lit_Cons)
  then have c: "wp_path (condensed wp) = wp_path wp" by (simp add: condensed_def)
  have "admits (se_ssl e) (directory_of (sv_um s)) (condensed wp)"
    using strstr_append [of "lit ''/goform/'' @ f" "lit ''/goform/App''" "[]"] by (simp add: admits_def c path split: option.split)
  then have "websUrlHandlerRequest e (sv_um s) (sv_handlers s) wp = target e (condensed wp)"
    using admitted_target [OF assms(1,2)] assms(3) by simp
  moreover have "strneq (lit ''/goform'') (wp_path wp) 7" unfolding path by (simp add: strneq_def lit_Cons numeral_eq_Suc)
  ultimately show ?thesis
    using form_name_nested [OF assms(4,5,7)] by (simp add: websServe_def target_def c path)
qed

text \<open>Forms without a password: for every form that is defined, the request for \<open>/goform/\<close> with the name of the form and
  \<open>/goform/App\<close> behind it runs the form, with no credentials and from any address, whatever users and access limits there are.\<close>

lemma form_without_password:
  assumes "\<And>n. kmalloc_ok (se_heap e) n" and "um_ok (sv_um s)" and "sv_handlers s = std_handlers"
    and "list_all (\<lambda>c. isalpha c \<or> isdigit c) f" and "f \<noteq> []" and "length f \<le> 200"
  shows "\<exists>wp. websRequest (se_heap e) (lit ''/goform/'' @ f @ lit ''/goform/App'') None False secure = Ret (Some wp)
    \<and> websServe e tab q wp s = obind (websFormRun (se_fw e) tab q [] f s) (\<lambda>s. Ret (Some s))"
proof -
  let ?url = "lit ''/goform/'' @ f @ lit ''/goform/App''"
  have plain: "c \<notin> set f" if "\<not> isalpha c" "\<not> isdigit c" for c using assms(4) that by (auto simp: list_all_iff)
  have f: "SLASH \<notin> set f" "NUL \<notin> set f" "PLUS \<notin> set f" "PERCENT \<notin> set f" "QMARK \<notin> set f" "HASH \<notin> set f"
    by (rule plain; simp add: isalpha_def isdigit_def tolower_def)+
  have plain_url: "plain_url ?url" using f by (simp add: plain_url_def lit_Cons)
  have http: "\<not> strneq ?url (lit ''http://'') 7" using from_slash_scan [of SLASH] by (simp add: lit_Cons)
  have sep: "\<not> is_sep (last ?url)" by (simp add: is_sep_def lit_Cons)
  let ?wp = "\<lparr>wp_url = ?url, wp_path = ?url, wp_query = [], wp_userName = None, wp_password = None, wp_local = False, wp_secure = secure\<rparr>"
  have wp: "websRequest (se_heap e) ?url None False secure = Ret (Some ?wp)"
    using parse_plain [OF assms(1) plain_url http sep] by (simp add: websRequest_def)
  then show ?thesis using form_served [OF assms(1-3) f(1,2) assms(5,6), of ?wp tab q] by auto
qed


lemma tokens_one:
  assumes "SLASH \<notin> set seg" and "seg \<noteq> []"
  shows "tokens SLASH seg = [seg]" "tokens SLASH (SLASH # SLASH # seg) = [seg]"
  using parts_simple [OF assms(1)] parts_append [of SLASH "[]"] assms by (simp_all add: tokens_def)

lemma validate_segment:
  assumes "\<And>n. kmalloc_ok h n" and "dir \<noteq> []" and "plain_url seg" and "SLASH \<notin> set seg" and "0x5C \<notin> set seg"
    and "seg \<notin> {[], lit ''.'', lit ''..''}" and "path = seg \<or> path = SLASH # 0x5C # seg"
  shows "websValidateUrl h dir path = Ret (Some (dir @ SLASH # seg))"
proof -
  have "plain_url path" using assms(3,7) by (auto simp: plain_url_def)
  then have dec: "websDecodeUrl path (length path) = path"
    by (simp add: websDecodeUrl_def decode_plain plain_url_def cstr_whole is_cstring_def)
  have "map with_slash seg = seg" using assms(5) by (intro map_idI) (auto simp: with_slash_def)
  then have tok: "tokens SLASH (map with_slash path) = [seg]"
    using assms(4,6,7) tokens_one [of seg] by (auto simp: with_slash_def)
  have seg: "url_segments [seg] [] 0 = Some ([seg], length seg + 1)" using assms(6) by simp
  show ?thesis unfolding websValidateUrl_def dec tok Let_def using seg assms(1,2) by simp
qed

lemma strneq_Cons: "0 < n \<Longrightarrow> strneq (a # s) (b # t) n = (a = b \<and> strneq s t (n - 1))"
  by (cases n) (simp_all add: strneq_def)

text \<open>C27: pages without a password. After the start, the file \<open>seg\<close> in the root directory of the pages is served to a request
  without credentials when its name stands in the request without a slash in front of it, or with a slash and a backslash: the access limit of
  \<open>/\<close> does not cover such a path.\<close>

theorem page_without_password:
  assumes "\<And>n. kmalloc_ok (se_heap e) n" and "um_ok d" and "directory_of d = adm_directory c" and "plain_url seg" and "SLASH \<notin> set seg"
    and "0x5C \<notin> set seg" and "seg \<notin> {[], lit ''.'', lit ''..''}" and "url = seg \<or> url = SLASH # 0x5C # seg" and "se_dir e \<noteq> []"
    and "\<not> se_isdir e (se_dir e @ SLASH # seg)"
  shows "\<exists>wp. websRequest (se_heap e) url None False secure = Ret (Some wp) \<and> websUrlHandlerRequest e d std_handlers wp = Ret (Page (se_dir e @ SLASH # seg))"
proof -
  have plain: "plain_url url" using assms(4,8) by (auto simp: plain_url_def)
  have ne: "seg \<noteq> []" using assms(7) by simp
  have last: "last seg \<noteq> SLASH" "last seg \<noteq> 0x5C" using assms(5,6) last_in_set [OF ne] by metis+
  have sep: "\<not> is_sep (last url)" using last ne assms(8) by (auto simp: is_sep_def)
  have "SLASH \<in> set (lit ''http://'')" by (simp add: lit_Cons)
  moreover have "SLASH \<notin> set (take 7 (seg @ [NUL]))" using assms(5) by (auto dest: in_set_takeD)
  ultimately have "take 7 (seg @ [NUL]) \<noteq> lit ''http://''" by metis
  moreover have "take 7 (lit ''http://'' @ [NUL]) = lit ''http://''" by (simp add: lit_Cons)
  ultimately have "\<not> strneq seg (lit ''http://'') 7" unfolding strneq_def by simp
  then have http: "\<not> strneq url (lit ''http://'') 7" using assms(8) from_slash_scan [of SLASH "0x5C # seg"] by auto
  let ?wp = "\<lparr>wp_url = url, wp_path = url, wp_query = [], wp_userName = None, wp_password = None, wp_local = False, wp_secure = secure\<rparr>"
  have wp: "websRequest (se_heap e) url None False secure = Ret (Some ?wp)"
    using parse_plain [OF assms(1) plain http sep] by (simp add: websRequest_def)
  have cond: "websCondenseMultipleChars SLASH url = url"
    using condense_free [OF assms(5)] assms(8) by (auto simp: condense_step)
  then have c: "condensed ?wp = ?wp" by (simp add: condensed_def)
  have "\<not> protected_path url" using assms(5,8) by (auto simp: protected_path_def)
  then have "admits (se_ssl e) (directory_of d) ?wp" by (simp add: assms(3) admits_adm)
  then have "websUrlHandlerRequest e d std_handlers ?wp = target e ?wp" using admitted_target [OF assms(1,2), of ?wp] c by simp
  moreover obtain x xs where x: "seg = x # xs" "x \<noteq> SLASH" using ne assms(5) by (cases seg) auto
  have "\<not> strneq (lit ''/goform'') url 7" "\<not> strneq (lit ''/cgi-bin'') url 8" "url \<notin> {[], [SLASH]}"
    using assms(8) x by (auto simp: lit_Cons strneq_Cons)
  moreover note this
  moreover have "cut_slash (se_dir e @ SLASH # seg) = se_dir e @ SLASH # seg" using last ne by (simp add: cut_slash_def is_sep_def)
  ultimately have "websUrlHandlerRequest e d std_handlers ?wp = Ret (Page (se_dir e @ SLASH # seg))"
    using validate_segment [OF assms(1,9,4,5,6,7,8)] assms(10) by (simp add: target_def websDefaultHandler_def)
  then show ?thesis using wp by blast
qed


section \<open>Changing the administrator\<close>

lemma adm_without: "(adm_directory (Some (u, p)))\<lparr>accounts := (accounts (adm_directory (Some (u, p))))(u := None)\<rparr> = adm_directory None"
  by (simp add: adm_directory_def)

lemma delete_if_there_ok:
  assumes heap: "\<And>n. kmalloc_ok h n" and ok: "um_ok d" "directory_of d = adm_directory c"
  shows "\<exists>d'. delete_if_there (Some u) d = Ret d' \<and> um_ok d' \<and> directory_of d' = adm_directory (if map_option fst c = Some u then None else c)"
proof (cases "map_option fst c = Some u")
  case True
  then obtain p where c: "c = Some (u, p)" by auto
  have there: "umUserExists d u = Ret True"
    using umUserExists_ok [OF ok(1), of u] directory_sel(1) [of d u] unfolding ok(2) c adm_sel by (cases "um_map d ''users'' u") auto
  have "simulates (umDeleteUser u d) (spec_run (DeleteUser u) (adm_directory c))" using delete_user_sim [OF ok(1), of u] ok(2) by simp
  moreover have "spec_run (DeleteUser u) (adm_directory c) = (0, adm_directory None)" using adm_without [of u p] by (simp add: c adm_sel)
  ultimately obtain d' where "umDeleteUser u d = Ret (0, d')" "um_ok d'" "directory_of d' = adm_directory None" by (auto simp: simulates_def)
  then show ?thesis using there True by (simp add: delete_if_there_def um_drop_def)
next
  case False
  then have "accounts (adm_directory c) u = None" by (auto simp: adm_directory_def split: option.split)
  then have "umUserExists d u = Ret False" using umUserExists_ok [OF ok(1), of u] directory_sel(1) [of d u] unfolding ok(2) by simp
  then show ?thesis using False ok by (auto simp: delete_if_there_def)
qed

lemma change_adm_ok:
  assumes heap: "\<And>n. kmalloc_ok h n" and ok: "um_ok d" "directory_of d = adm_directory c" and p: "is_cstring p"
    and old: "map_option fst c \<in> {None, Some old}"
  shows "\<exists>d'. change_adm h (Some old) u p d = Ret d' \<and> um_ok d'
    \<and> directory_of d' = adm_directory (if umCheckName u \<and> umCheckName p then Some (u, p) else None)"
proof -
  have g: "umGroupExists d adm = Ret True"
    using umGroupExists_ok [OF ok(1), of adm] directory_sel(2) [of d adm] unfolding ok(2) adm_sel by (cases "um_map d ''groups'' adm") auto
  obtain d1 where d1: "delete_if_there (Some old) d = Ret d1" "um_ok d1" "directory_of d1 = adm_directory None"
    using delete_if_there_ok [OF heap ok, of old] old by (auto split: if_splits)
  obtain d2 where d2: "delete_if_there (Some u) d1 = Ret d2" "um_ok d2" "directory_of d2 = adm_directory None"
    using delete_if_there_ok [OF heap d1(2,3), of u] by auto
  have "simulates (umAddUser h u p adm 0 0 d2) (spec_run (AddUser u p adm 0 0) (adm_directory None))"
    using add_user_sim [OF heap d2(2) p, of u adm 0 0] d2(3) by simp
  moreover have "snd (spec_run (AddUser u p adm 0 0) (adm_directory None)) = adm_directory (if umCheckName u \<and> umCheckName p then Some (u, p) else None)"
    by (simp add: adm_directory_def)
  ultimately obtain rc d3 where "umAddUser h u p adm 0 0 d2 = Ret (rc, d3)" "um_ok d3"
    "directory_of d3 = adm_directory (if umCheckName u \<and> umCheckName p then Some (u, p) else None)" by (auto simp: simulates_def)
  then show ?thesis using g d1(1) d2(1) by (simp add: change_adm_def um_drop_def)
qed

text \<open>Between two states only the settings in memory were changed.\<close>

lemma fw_bufset_ok:
  assumes ok: "fw_ok e w" and kvs: "kvs = AList.update (lit name) v (cfg w)" "length kvs \<le> MAX_CACHE_ENTRY" and v: "is_cstring v" "length v < MAX_VALUE_LEN"
  shows "\<exists>w'. fw_bufset e w name v = Ret w' \<and> fw_ok e w' \<and> cfg w' = kvs \<and> other_cfg w' = other_cfg w
    \<and> page (fweb w') = page (fweb w) \<and> freply w' = freply w \<and> fcmds w' = fcmds w"
proof -
  obtain s where "lib_nvram_bufset (fe_u e) (wnv (fweb w)) 0 (lit name) v = Ret (0, s)" "lib_ok (fe_u e) 0 s" "ram (lk s) 0 = kvs"
    "kdev (lk s) = kdev (lk (wnv (fweb w)))"
    using lib_bufset_law [of "fe_u e" 0 "wnv (fweb w)" v "lit name"] ok kvs v by (auto simp: fw_ok_def)
  then show ?thesis by (auto simp: fw_bufset_def fw_ok_def)
qed

text \<open>The server in the state its start leaves: the tables hold the administrator of the settings.\<close>

definition adm_inv :: "fenv \<Rightarrow> server \<Rightarrow> bool" where
  "adm_inv e s = (fw_ok e (sv_fw s) \<and> um_ok (sv_um s) \<and> sv_handlers s = std_handlers
     \<and> directory_of (sv_um s) = adm_directory (adm_of (sv_fw s))
     \<and> sval (sv_fw s) ''Login'' \<noteq> [] \<and> sval (sv_fw s) ''Password'' \<noteq> [] \<and> readable_ip (sval (sv_fw s) ''lan_ipaddr''))"

definition adm_settings :: "fw \<Rightarrow> cstring \<Rightarrow> cstring \<Rightarrow> (cstring \<times> cstring) list" where
  "adm_settings w u p = AList.update (lit ''Password'') p (AList.update (lit ''Login'') u (cfg w))"

definition adm_cmds :: "cstring \<Rightarrow> cstring \<Rightarrow> cstring \<Rightarrow> cstring list" where
  "adm_cmds old u p = map (take 959) [lit ''sed -e 's/^'' @ old @ lit '':/'' @ u @ lit '':/' /etc/passwd > /etc/newpw'',
     lit ''cp /etc/newpw /etc/passwd'', lit ''rm -f /etc/newpw'', lit ''chpasswd.sh '' @ u @ lit '' '' @ p]"


lemma doSystem_issued:
  assumes "fw_ok e w" and "render fmt args = Some t" and "is_cstring t"
  obtains w' where "doSystem e w fmt args = Ret w'" "issued e w [take 959 t] w'"
  using issues_doSystem [OF assms] by (auto simp: issues_def)

lemma adm_renders:
  "render (lit ''sed -e 's/^%s:/%s:/' /etc/passwd > /etc/newpw'') [AStr (Some old), AStr (Some u)]
    = Some (lit ''sed -e 's/^'' @ old @ lit '':/'' @ u @ lit '':/' /etc/passwd > /etc/newpw'')"
  "render (lit ''cp /etc/newpw /etc/passwd'') [] = Some (lit ''cp /etc/newpw /etc/passwd'')"
  "render (lit ''rm -f /etc/newpw'') [] = Some (lit ''rm -f /etc/newpw'')"
  "render (lit ''chpasswd.sh %s %s'') [AStr (Some u), AStr (Some p)] = Some (lit ''chpasswd.sh '' @ u @ lit '' '' @ p)"
  "render (lit ''storage.sh samba'') [] = Some (lit ''storage.sh samba'')"
  by (simp_all add: lit_Cons)

lemma adm_commands:
  assumes ok: "fw_ok e w" and u: "is_cstring u" "is_cstring p" "is_cstring old"
  obtains w1 w2 w3 w4 where "doSystem e w (lit ''sed -e 's/^%s:/%s:/' /etc/passwd > /etc/newpw'') [AStr (Some old), AStr (Some u)] = Ret w1"
    "doSystem e w1 (lit ''cp /etc/newpw /etc/passwd'') [] = Ret w2" "doSystem e w2 (lit ''rm -f /etc/newpw'') [] = Ret w3"
    "doSystem e w3 (lit ''chpasswd.sh %s %s'') [AStr (Some u), AStr (Some p)] = Ret w4"
    "issued e w (adm_cmds old u p) w4"
proof -
  have c: "is_cstring (lit ''sed -e 's/^'' @ old @ lit '':/'' @ u @ lit '':/' /etc/passwd > /etc/newpw'')" "is_cstring (lit ''cp /etc/newpw /etc/passwd'')"
    "is_cstring (lit ''rm -f /etc/newpw'')" "is_cstring (lit ''chpasswd.sh '' @ u @ lit '' '' @ p)"
    using u by (simp_all add: lit_Cons)
  obtain w1 where w1: "doSystem e w (lit ''sed -e 's/^%s:/%s:/' /etc/passwd > /etc/newpw'') [AStr (Some old), AStr (Some u)] = Ret w1"
    "issued e w [take 959 (lit ''sed -e 's/^'' @ old @ lit '':/'' @ u @ lit '':/' /etc/passwd > /etc/newpw'')] w1"
    by (rule doSystem_issued [OF ok adm_renders(1) c(1)])
  obtain w2 where w2: "doSystem e w1 (lit ''cp /etc/newpw /etc/passwd'') [] = Ret w2" "issued e w1 [take 959 (lit ''cp /etc/newpw /etc/passwd'')] w2"
    by (rule doSystem_issued [OF issued_ok [OF w1(2)] adm_renders(2) c(2)])
  obtain w3 where w3: "doSystem e w2 (lit ''rm -f /etc/newpw'') [] = Ret w3" "issued e w2 [take 959 (lit ''rm -f /etc/newpw'')] w3"
    by (rule doSystem_issued [OF issued_ok [OF w2(2)] adm_renders(3) c(3)])
  obtain w4 where w4: "doSystem e w3 (lit ''chpasswd.sh %s %s'') [AStr (Some u), AStr (Some p)] = Ret w4"
    "issued e w3 [take 959 (lit ''chpasswd.sh '' @ u @ lit '' '' @ p)] w4"
    by (rule doSystem_issued [OF issued_ok [OF w3(2)] adm_renders(4) c(4)])
  have "issued e w (adm_cmds old u p) w4"
    using issued_trans [OF issued_trans [OF issued_trans [OF w1(2) w2(2)] w3(2)] w4(2)] by (simp add: adm_cmds_def)
  then show thesis by (rule that [OF w1(1) w2(1) w3(1) w4(1)])
qed

lemma adm_store:
  assumes ok: "fw_ok e w" and u: "is_cstring u" "is_cstring p" "length u < MAX_VALUE_LEN" "length p < MAX_VALUE_LEN"
    and fit: "length (AList.update (lit ''Login'') u (cfg w)) \<le> MAX_CACHE_ENTRY" "fits (adm_settings w u p)"
  obtains w1 w2 w3 where "fw_bufset e w ''Login'' u = Ret w1" "fw_bufset e w1 ''Password'' p = Ret w2" "fw_commit e w2 = Ret w3"
    "became e w (adm_settings w u p) w3"
proof -
  obtain w1 where w1: "fw_bufset e w ''Login'' u = Ret w1" "fw_ok e w1" "cfg w1 = AList.update (lit ''Login'') u (cfg w)" "other_cfg w1 = other_cfg w"
    "page (fweb w1) = page (fweb w)" "freply w1 = freply w" "fcmds w1 = fcmds w" using fw_bufset_ok [OF ok refl fit(1) u(1,3)] by blast
  have k: "adm_settings w u p = AList.update (lit ''Password'') p (cfg w1)" by (simp add: adm_settings_def w1(3))
  obtain w2 where w2: "fw_bufset e w1 ''Password'' p = Ret w2" "fw_ok e w2" "cfg w2 = adm_settings w u p" "other_cfg w2 = other_cfg w1"
    "page (fweb w2) = page (fweb w1)" "freply w2 = freply w1" "fcmds w2 = fcmds w1"
    using fw_bufset_ok [OF w1(2) k _ u(2,4)] fit(2) by (auto simp: fits_def)
  obtain w3 where w3: "fw_commit e w2 = Ret w3" "became e w2 (adm_settings w u p) w3" using fw_commit_ok [OF w2(2)] fit(2) w2(3) by auto
  then have "became e w (adm_settings w u p) w3" using w1 w2 by (simp add: became_def)
  then show thesis by (rule that [OF w1(1) w2(1) w3(1)])
qed


lemma cfg_answer [simp]: "cfg (answer r w) = cfg w" "stored_cfg (answer r w) = stored_cfg w" "fcmds (answer r w) = fcmds w"
  "fw_ok e (answer r w) = fw_ok e w"
  by (simp_all add: answer_def fw_ok_def)

text \<open>A request for a new administrator the settings have room for.\<close>

definition adm_request :: "query \<Rightarrow> fw \<Rightarrow> cstring \<Rightarrow> cstring \<Rightarrow> bool" where
  "adm_request q w u p = (form_var q ''admuser'' '''' = u \<and> form_var q ''admpass'' '''' = p \<and> u \<noteq> [] \<and> p \<noteq> [] \<and> is_cstring u \<and> is_cstring p
     \<and> length u < MAX_VALUE_LEN \<and> length p < MAX_VALUE_LEN \<and> length (AList.update (lit ''Login'') u (cfg w)) \<le> MAX_CACHE_ENTRY
     \<and> fits (adm_settings w u p))"

lemma setSysAdm_ok:
  assumes inv: "adm_inv e s" and req: "adm_request q (sv_fw s) u p"
  obtains s' where "setSysAdm e q s = Ret s'" "adm_inv e s'" "cfg (sv_fw s') = adm_settings (sv_fw s) u p"
    "stored_cfg (sv_fw s') = Some (adm_settings (sv_fw s) u p)"
    "fcmds (sv_fw s') = fcmds (sv_fw s) @ adm_cmds (sval (sv_fw s) ''Login'') u p @ [lit ''storage.sh samba'']" "other_cfg (sv_fw s') = other_cfg (sv_fw s)"
proof -
  let ?w = "sv_fw s" and ?old = "sval (sv_fw s) ''Login''"
  have ok: "fw_ok e ?w" "um_ok (sv_um s)" "sv_handlers s = std_handlers" "directory_of (sv_um s) = adm_directory (adm_of ?w)"
    and ip: "readable_ip (sval ?w ''lan_ipaddr'')" using inv by (simp_all add: adm_inv_def)
  have heap: "\<And>n. kmalloc_ok (u_heap (fe_u e)) n" using fw_ok_user [OF ok(1)] by (simp add: user_ok_def)
  have v: "form_var q ''admuser'' '''' = u" "form_var q ''admpass'' '''' = p" and ne: "u \<noteq> []" "p \<noteq> []" and c: "is_cstring u" "is_cstring p"
    and len: "length u < MAX_VALUE_LEN" "length p < MAX_VALUE_LEN" and fit: "length (AList.update (lit ''Login'') u (cfg ?w)) \<le> MAX_CACHE_ENTRY"
      "fits (adm_settings ?w u p)" using req by (simp_all add: adm_request_def)
  obtain w0 where w0: "fw_get e ?w ''Login'' = Ret (Some ?old, w0)" "issued e ?w [] w0" by (rule fw_get_ok [OF ok(1)])
  obtain w1 w2 w3 w4 where w4: "doSystem e w0 (lit ''sed -e 's/^%s:/%s:/' /etc/passwd > /etc/newpw'') [AStr (Some ?old), AStr (Some u)] = Ret w1"
    "doSystem e w1 (lit ''cp /etc/newpw /etc/passwd'') [] = Ret w2" "doSystem e w2 (lit ''rm -f /etc/newpw'') [] = Ret w3"
    "doSystem e w3 (lit ''chpasswd.sh %s %s'') [AStr (Some u), AStr (Some p)] = Ret w4"
    "issued e w0 (adm_cmds ?old u p) w4" by (rule adm_commands [OF issued_ok [OF w0(2)] c fw_ok_values [OF ok(1)]])
  have i4: "issued e ?w (adm_cmds ?old u p) w4" using issued_trans [OF w0(2) w4(5)] by simp
  have k4: "cfg w4 = cfg ?w" by (rule issued_cfg [OF i4])
  then have same: "adm_settings w4 u p = adm_settings ?w u p" by (simp add: adm_settings_def)
  have adm_name: "map_option fst (adm_of ?w) \<in> {None, Some ?old}" by (simp add: adm_of_def)
  obtain d where d: "change_adm (u_heap (fe_u e)) (Some ?old) u p (sv_um s) = Ret d" "um_ok d"
    "directory_of d = adm_directory (if umCheckName u \<and> umCheckName p then Some (u, p) else None)"
    using change_adm_ok [OF heap ok(2,4) c(2) adm_name, of u] by blast
  obtain w5 w6 w7 where w7: "fw_bufset e w4 ''Login'' u = Ret w5" "fw_bufset e w5 ''Password'' p = Ret w6" "fw_commit e w6 = Ret w7"
    "became e w4 (adm_settings ?w u p) w7"
    by (rule adm_store [OF issued_ok [OF i4] c len, unfolded k4 same, OF fit])
  have ok7: "fw_ok e w7" using w7(4) by (simp add: became_def)
  have samba: "is_cstring (lit ''storage.sh samba'')" "take 959 (lit ''storage.sh samba'') = lit ''storage.sh samba''" by (simp_all add: lit_Cons)
  obtain w8 where w8: "doSystem e w7 (lit ''storage.sh samba'') [] = Ret w8" "issued e w7 [lit ''storage.sh samba''] w8"
    by (rule doSystem_issued [OF ok7 adm_renders(5) samba(1), unfolded samba(2)])
  let ?s = "s\<lparr>sv_fw := answer (Redirect (form_var q ''submit-url'' '''')) w8, sv_um := d\<rparr>"
  have "setSysAdm e q s = Ret ?s"
    unfolding setSysAdm_def Let_def w0(1) v obind.simps prod.case w4(1-4) d(1) w7(1-3) w8(1) using ne by simp
  moreover have k8: "cfg w8 = adm_settings ?w u p" "stored_cfg w8 = Some (adm_settings ?w u p)" using w7(4) w8(2) by (simp_all add: became_def issued_def)
  moreover have "fcmds w8 = fcmds ?w @ adm_cmds ?old u p @ [lit ''storage.sh samba'']" using i4 w7(4) w8(2) by (simp add: became_def issued_def)
  moreover have "adm_inv e ?s"
    using d ok(3) ip ne issued_ok [OF w8(2)] k8(1) by (simp add: adm_inv_def adm_of_def adm_settings_def setting_update)
  moreover have "other_cfg w8 = other_cfg ?w" using i4 w7(4) w8(2) by (simp add: became_def issued_def)
  ultimately show thesis using that [of ?s] by (simp add: answer_def)
qed

text \<open>C21: changing the administrator. From a state in which the tables hold the administrator of the settings, \<open>setSysAdm\<close> runs its commands, stores
  the new name and password in the settings and on the flash and leaves such a state again.\<close>

theorem setSysAdm_keeps_administrator:
  assumes "adm_inv e s" and "adm_request q (sv_fw s) u p"
  shows "\<exists>s'. setSysAdm e q s = Ret s' \<and> adm_inv e s' \<and> cfg (sv_fw s') = adm_settings (sv_fw s) u p
    \<and> stored_cfg (sv_fw s') = Some (adm_settings (sv_fw s) u p)
    \<and> fcmds (sv_fw s') = fcmds (sv_fw s) @ adm_cmds (sval (sv_fw s) ''Login'') u p @ [lit ''storage.sh samba'']"
  by (rule setSysAdm_ok [OF assms]) blast

text \<open>C26: the administrator can lock himself out for good. When the new name or password has white space in it, the form succeeds and
  stores it, but the user management refuses it: from then on no credentials help. A request from outside gets to what it names only where the guard
  has its gaps (a path the access limits do not cover, or one with \<open>/goform/App\<close> in it); every other request from outside is refused,
  whatever credentials it carries, and so it is after a restart of the server with the stored settings.\<close>

theorem setSysAdm_locks_out:
  assumes "adm_inv (se_fw e) s" and "adm_request q (sv_fw s) u p" and "\<not> (umCheckName u \<and> umCheckName p)"
  shows "\<exists>s' s2. setSysAdm (se_fw e) q s = Ret s' \<and> initWebs (se_fw e) (sv_fw s') = Ret (Some s2)
    \<and> (\<forall>t \<in> {s', s2}. let path = websCondenseMultipleChars SLASH (wp_path wp) in
         if wp_local wp \<or> \<not> protected_path path \<or> is_app path
         then websUrlHandlerRequest e (sv_um t) (sv_handlers t) wp = target e (condensed wp)
         else refused e tab q' wp t)"
proof -
  obtain s' where s': "setSysAdm (se_fw e) q s = Ret s'" "adm_inv (se_fw e) s'" "cfg (sv_fw s') = adm_settings (sv_fw s) u p"
    by (rule setSysAdm_ok [OF assms(1,2)])
  have i: "fw_ok (se_fw e) (sv_fw s')" "um_ok (sv_um s')" "sv_handlers s' = std_handlers" "directory_of (sv_um s') = adm_directory (adm_of (sv_fw s'))"
    "sval (sv_fw s') ''Login'' \<noteq> []" "sval (sv_fw s') ''Password'' \<noteq> []" "readable_ip (sval (sv_fw s') ''lan_ipaddr'')"
    using s'(2) by (simp_all add: adm_inv_def)
  have none: "adm_of (sv_fw s') = None" using assms(3) s'(3) by (auto simp: adm_of_def adm_settings_def setting_update)
  have heap: "\<And>n. kmalloc_ok (se_heap e) n" using fw_ok_user [OF i(1)] by (simp add: user_ok_def)
  obtain s2 where s2: "initWebs (se_fw e) (sv_fw s') = Ret (Some s2)" "sv_handlers s2 = std_handlers" "um_ok (sv_um s2)"
    "directory_of (sv_um s2) = adm_directory None" using initWebs_ok [OF i(1,5-7)] none by auto
  have "\<forall>t \<in> {s', s2}. let path = websCondenseMultipleChars SLASH (wp_path wp) in
      if wp_local wp \<or> \<not> protected_path path \<or> is_app path
      then websUrlHandlerRequest e (sv_um t) (sv_handlers t) wp = target e (condensed wp) else refused e tab q' wp t"
  proof
    fix t assume "t \<in> {s', s2}"
    then have "um_ok (sv_um t)" "sv_handlers t = std_handlers" "directory_of (sv_um t) = adm_directory None" using i(2-4) s2(2-4) none by auto
    then show "let path = websCondenseMultipleChars SLASH (wp_path wp) in
      if wp_local wp \<or> \<not> protected_path path \<or> is_app path
      then websUrlHandlerRequest e (sv_um t) (sv_handlers t) wp = target e (condensed wp) else refused e tab q' wp t"
      by (rule no_administrator_decides [OF heap])
  qed
  then show ?thesis using s'(1) s2(1) by blast
qed


section \<open>An example\<close>

definition demo_senv :: senv where
  "demo_senv = \<lparr>se_fw = demo_fenv, se_isdir = (\<lambda>_. False), se_dir = lit ''/etc_ro/web'', se_ssl = False\<rparr>"

definition demo_request :: "string \<Rightarrow> string option \<Rightarrow> webs" where
  "demo_request path c = \<lparr>wp_url = lit path, wp_path = lit path, wp_query = [], wp_userName = map_option lit c, wp_password = map_option lit c,
     wp_local = False, wp_secure = False\<rparr>"

definition demo_adm :: "(cstring \<times> cstring) list" where
  "demo_adm = [(lit ''lan_ipaddr'', lit ''10.10.10.254''), (lit ''Login'', lit ''admin''), (lit ''Password'', lit ''admin'')]"

lemma demo_memory: "kmalloc_ok (se_heap demo_senv) n"
  by (simp add: demo_senv_def demo_fenv_def demo_env_def demo_heap_def)

lemma demo_ip: "readable_ip (lit ''10.10.10.254'')"
  by code_simp

lemma demo_adm_fits:
  "fits [(lit ''lan_ipaddr'', lit ''10.10.10.254'')]" "fits [(lit ''lan_ipaddr'', lit ''10.10.10.254''), (lit ''Login'', lit ''admin'')]" "fits demo_adm"
  by (simp add: fits_def storable_def layout_def kv_ok_def demo_adm_def; simp add: lit_Cons)+

lemma demo_adm_settings:
  "setting demo_adm (lit ''lan_ipaddr'') = lit ''10.10.10.254''" "setting demo_adm (lit ''Login'') = lit ''admin''" "setting demo_adm (lit ''Password'') = lit ''admin''"
  by (simp_all add: demo_adm_def setting_def)

lemma demo_check: "umCheckName (lit ''admin'')" "umCheckName (lit ''root'')" "\<not> umCheckName (lit ''a b'')"
  by (simp_all add: umCheckName_def lit_Cons isspace_def)

lemma demo_adm_state:
  obtains w where "fw_ok demo_fenv w" "cfg w = demo_adm" "other_cfg w = map (rom (kdev demo_knv)) [1, 2, 3]"
proof -
  obtain s where s: "lib_nvram_init demo_env demo_lib 0 = Ret s" "lib_ok demo_env 0 s" "ram (lk s) 0 = []" by (rule demo_attach)
  have dev: "kdev (lk s) = kdev demo_knv"
    using lib_init_law [of demo_env 0 demo_lib] demo_kstore [of 0] demo_user storable_small [of 0] lib_fb_init_blocks fb_init_nth [of 0] s(1)
    by (auto simp: demo_lib_def lib_fb_init_eq demo_ram)
  have ok: "fw_ok demo_fenv (demo_fw s)" "cfg (demo_fw s) = []"
    using s by (simp_all add: fw_ok_def demo_fenv_def demo_fw_def demo_web_def)
  obtain w1 where b1: "became demo_fenv (demo_fw s) [(lit ''lan_ipaddr'', lit ''10.10.10.254'')] w1"
    using fw_set_ok [OF ok(1) _ demo_adm_fits(1), of "''lan_ipaddr''" "lit ''10.10.10.254''"] ok(2) by auto
  note w1 = became_ok [OF b1]
  obtain w2 where b2: "became demo_fenv w1 [(lit ''lan_ipaddr'', lit ''10.10.10.254''), (lit ''Login'', lit ''admin'')] w2"
    using fw_set_ok [of demo_fenv w1, OF _ _ demo_adm_fits(2), of "''Login''" "lit ''admin''"] w1 by auto
  note w2 = became_ok [OF b2]
  obtain w3 where b3: "became demo_fenv w2 demo_adm w3"
    using fw_set_ok [of demo_fenv w2, OF _ _ demo_adm_fits(3), of "''Password''" "lit ''admin''"] w2 by (auto simp: demo_adm_def)
  have "other_cfg w3 = map (rom (kdev demo_knv)) [1, 2, 3]" using b1 b2 b3 dev by (simp add: became_def demo_fw_def demo_web_def)
  then show thesis using became_ok [OF b3] that by blast
qed

lemma demo_paths: "protected_path (lit ''/home.asp'')" "\<not> is_app (lit ''/home.asp'')" "websCondenseMultipleChars SLASH (lit ''/home.asp'') = lit ''/home.asp''"
  by (simp_all add: protected_path_def is_app_def lit_Cons strstr.simps)

theorem websSecurityHandler_after_start_witness:
  "\<exists>d. init_users (se_heap demo_senv) (Some (lit ''admin'')) (Some (lit ''admin'')) = Ret d
    \<and> websSecurityHandler demo_senv d (demo_request ''/home.asp'' (Some ''admin'')) = Ret None"
  using websSecurityHandler_after_start [OF demo_memory, of "Some (lit ''admin'')" "Some (lit ''admin'')" "demo_request ''/home.asp'' (Some ''admin'')"] demo_check(1)
  by (auto simp: given_def demo_request_def is_cstring_def lit_Cons)

theorem server_guards_requests_witness:
  "\<exists>w s. initWebs demo_fenv w = Ret (Some s) \<and> refused demo_senv Map.empty Map.empty (demo_request ''/home.asp'' None) s"
proof -
  obtain w where w: "fw_ok demo_fenv w" "cfg w = demo_adm" by (rule demo_adm_state)
  have fw: "se_fw demo_senv = demo_fenv" by (simp add: demo_senv_def)
  have v: "lit ''admin'' \<noteq> []" by (simp add: lit_Cons)
  have wp: "wp_path (demo_request ''/home.asp'' None) = lit ''/home.asp''" "\<not> wp_local (demo_request ''/home.asp'' None)"
    "wp_userName (demo_request ''/home.asp'' None) = None" by (simp_all add: demo_request_def)
  from server_guards_requests [of demo_senv w "demo_request ''/home.asp'' None" Map.empty Map.empty]
  have "\<exists>s. initWebs demo_fenv w = Ret (Some s) \<and> refused demo_senv Map.empty Map.empty (demo_request ''/home.asp'' None) s"
    using w demo_ip v demo_paths wp(2) unfolding fw wp(1,3) Let_def by (auto simp: demo_adm_settings split: if_splits)
  then show ?thesis by blast
qed

definition demo_server :: server where
  "demo_server = \<lparr>sv_fw = demo_fw demo_lib, sv_um = [Some userTable, Some groupTable, Some accessTable], sv_handlers = std_handlers, sv_command = []\<rparr>"

theorem page_without_password_witness:
  "\<exists>d wp. init_users (se_heap demo_senv) (Some (lit ''admin'')) (Some (lit ''admin'')) = Ret d
    \<and> websRequest (se_heap demo_senv) (SLASH # 0x5C # lit ''home.asp'') None False False = Ret (Some wp)
    \<and> websUrlHandlerRequest demo_senv d std_handlers wp = Ret (Page (lit ''/etc_ro/web/home.asp''))"
proof -
  obtain d where d: "init_users (se_heap demo_senv) (Some (lit ''admin'')) (Some (lit ''admin'')) = Ret d" "um_ok d"
    "directory_of d = adm_directory (Some (lit ''admin'', lit ''admin''))"
    using init_users_ok [OF demo_memory, of "Some (lit ''admin'')" "Some (lit ''admin'')"] demo_check(1) by (auto simp: given_def lit_Cons)
  have seg: "plain_url (lit ''home.asp'')" "SLASH \<notin> set (lit ''home.asp'')" "0x5C \<notin> set (lit ''home.asp'')"
    "lit ''home.asp'' \<notin> {[], lit ''.'', lit ''..''}" by (simp_all add: plain_url_def lit_Cons)
  have e: "se_dir demo_senv \<noteq> []" "\<not> se_isdir demo_senv (se_dir demo_senv @ SLASH # lit ''home.asp'')"
    "se_dir demo_senv @ SLASH # lit ''home.asp'' = lit ''/etc_ro/web/home.asp''" by (simp_all add: demo_senv_def lit_Cons)
  from page_without_password [OF demo_memory d(2,3) seg disjI2 [OF refl] e(1,2), of False] d(1) show ?thesis unfolding e(3) by blast
qed


definition demo_change :: query where
  "demo_change = demo_query [(''admuser'', ''root''), (''admpass'', ''a b'')]"

lemma demo_change_request:
  assumes "cfg w = demo_adm"
  shows "adm_request demo_change w (lit ''root'') (lit ''a b'')"
proof -
  have k: "adm_settings w (lit ''root'') (lit ''a b'') = [(lit ''lan_ipaddr'', lit ''10.10.10.254''), (lit ''Login'', lit ''root''), (lit ''Password'', lit ''a b'')]"
    by (simp add: adm_settings_def assms demo_adm_def)
  have "fits (adm_settings w (lit ''root'') (lit ''a b''))"
    unfolding k by (simp add: fits_def storable_def layout_def kv_ok_def) (simp add: lit_Cons)
  moreover have "length (AList.update (lit ''Login'') (lit ''root'') (cfg w)) \<le> MAX_CACHE_ENTRY" by (simp add: assms demo_adm_def)
  moreover have "form_var demo_change ''admuser'' '''' = lit ''root''" "form_var demo_change ''admpass'' '''' = lit ''a b''" by (simp_all add: demo_change_def)
  moreover have "lit ''root'' \<noteq> []" "lit ''a b'' \<noteq> []" "is_cstring (lit ''root'')" "is_cstring (lit ''a b'')" "length (lit ''root'') < MAX_VALUE_LEN"
    "length (lit ''a b'') < MAX_VALUE_LEN" by (simp_all add: lit_Cons)
  ultimately show ?thesis unfolding adm_request_def by blast
qed

lemma demo_started:
  obtains w s where "initWebs demo_fenv w = Ret (Some s)" "adm_inv demo_fenv s" "cfg (sv_fw s) = demo_adm" "other_cfg (sv_fw s) = map (rom (kdev demo_knv)) [1, 2, 3]"
proof -
  obtain w where w: "fw_ok demo_fenv w" "cfg w = demo_adm" "other_cfg w = map (rom (kdev demo_knv)) [1, 2, 3]" by (rule demo_adm_state)
  have v: "sval w ''Login'' \<noteq> []" "sval w ''Password'' \<noteq> []" "readable_ip (sval w ''lan_ipaddr'')"
    using demo_ip by (simp_all add: w(2) demo_adm_settings)
  obtain s where s: "initWebs demo_fenv w = Ret (Some s)" "issued demo_fenv w [] (sv_fw s)" "sv_handlers s = std_handlers" "um_ok (sv_um s)"
    "directory_of (sv_um s) = adm_directory (adm_of w)" using initWebs_ok [OF w(1) v] by blast
  have "adm_inv demo_fenv s" using s v issued_ok [OF s(2)] issued_cfg [OF s(2)] by (simp add: adm_inv_def adm_of_def)
  moreover have "other_cfg (sv_fw s) = map (rom (kdev demo_knv)) [1, 2, 3]" using s(2) w(3) by (simp add: issued_def)
  ultimately show thesis using that s(1) issued_cfg [OF s(2)] w(2) by simp
qed

theorem setSysAdm_keeps_administrator_witness:
  "\<exists>w s s'. initWebs demo_fenv w = Ret (Some s) \<and> setSysAdm demo_fenv demo_change s = Ret s' \<and> adm_inv demo_fenv s'"
proof -
  obtain w s where s: "initWebs demo_fenv w = Ret (Some s)" "adm_inv demo_fenv s" "cfg (sv_fw s) = demo_adm" by (rule demo_started)
  from setSysAdm_keeps_administrator [OF s(2) demo_change_request [OF s(3)]] s(1) show ?thesis by blast
qed

theorem setSysAdm_locks_out_witness:
  "\<exists>w s s' s2. initWebs demo_fenv w = Ret (Some s) \<and> setSysAdm demo_fenv demo_change s = Ret s' \<and> initWebs demo_fenv (sv_fw s') = Ret (Some s2)
    \<and> refused demo_senv Map.empty Map.empty (demo_request ''/home.asp'' (Some ''admin'')) s2"
proof -
  obtain w s where s: "initWebs demo_fenv w = Ret (Some s)" "adm_inv demo_fenv s" "cfg (sv_fw s) = demo_adm" by (rule demo_started)
  have fw: "se_fw demo_senv = demo_fenv" by (simp add: demo_senv_def)
  have wp: "wp_path (demo_request ''/home.asp'' (Some ''admin'')) = lit ''/home.asp''" "\<not> wp_local (demo_request ''/home.asp'' (Some ''admin''))"
    by (simp_all add: demo_request_def)
  from setSysAdm_locks_out [of demo_senv s demo_change "lit ''root''" "lit ''a b''" "demo_request ''/home.asp'' (Some ''admin'')" Map.empty Map.empty]
  have "\<exists>s' s2. setSysAdm demo_fenv demo_change s = Ret s' \<and> initWebs demo_fenv (sv_fw s') = Ret (Some s2)
    \<and> refused demo_senv Map.empty Map.empty (demo_request ''/home.asp'' (Some ''admin'')) s2"
    using s(2) demo_change_request [OF s(3)] demo_check(3) wp(2) demo_paths unfolding fw wp(1) Let_def by auto
  then show ?thesis using s(1) by blast
qed

end
