(* ===== verification/SymTab.thy ===== *)
theory SymTab
  imports FwBase
begin

text \<open>
  Symbol tables of the web server (\<open>user/goahead/src_tongyong/sym.c\<close>): hash tables with chains, which hold
  the variables of a request, the forms and the procedures of the pages.

  A table is the list of its chains. The interface is the locale \<open>symbols\<close>: what a lookup returns after
  entering and deleting. The functions of \<open>sym.c\<close> are an instance of it.
\<close>

section \<open>Hashing\<close>

text \<open>\<open>char\<close> is signed; each byte is shifted by 7 bits more than the one before, modulo 24.\<close>

fun hash_loop :: "cstring \<Rightarrow> nat \<Rightarrow> 32 word \<Rightarrow> 32 word" where
  "hash_loop [] i acc = acc"
| "hash_loop (c # name) i acc = hash_loop name ((i + 7) mod 24) (acc + push_bit i (scast c))"

type_synonym 'v symtab = "(cstring \<times> 'v) list list"

definition hashIndex :: "'v symtab \<Rightarrow> cstring \<Rightarrow> nat" where
  "hashIndex tp name = unat (hash_loop name 0 0) mod length tp"

definition isPrime :: "nat \<Rightarrow> bool" where
  "isPrime n = list_all (\<lambda>i. n mod i \<noteq> 0) [2..<n div 2 + 1]"

fun calcPrime :: "nat \<Rightarrow> nat" where
  "calcPrime 0 = 1"
| "calcPrime (Suc n) = (if isPrime (Suc n) then Suc n else calcPrime n)"

section \<open>Operations\<close>

text \<open>\<open>None\<close> when the table can not be allocated. Without memory for the chains the table is used all the same.\<close>

definition symOpen :: "kheap \<Rightarrow> nat \<Rightarrow> 'v symtab option outcome" where
  "symOpen h hash_size =
     (if \<not> kmalloc_ok h 12 then Ret None
      else if kmalloc_ok h (calcPrime hash_size * 4) then Ret (Some (replicate (calcPrime hash_size) [])) else Fault)"

fun find_sym :: "(cstring \<times> 'v) list \<Rightarrow> cstring \<Rightarrow> 'v option" where
  "find_sym [] name = None"
| "find_sym (sp # chain) name = (if fst sp = name then Some (snd sp) else find_sym chain name)"

definition symLookup :: "'v symtab \<Rightarrow> cstring \<Rightarrow> 'v option" where
  "symLookup tp name = (if name = [] then None else find_sym (tp ! hashIndex tp name) name)"

text \<open>The value of a name that is there is replaced; a new one goes to the end of its chain, when there is memory for
  it (\<open>room\<close>). The copy of the name is taken to fit when the entry of 48 bytes does: without it the entry has
  no name and the next scan of its chain reads through NULL.\<close>

fun enter_chain :: "bool \<Rightarrow> cstring \<Rightarrow> 'v \<Rightarrow> (cstring \<times> 'v) list \<Rightarrow> (cstring \<times> 'v) list" where
  "enter_chain room name v [] = (if room then [(name, v)] else [])"
| "enter_chain room name v (sp # chain) = (if fst sp = name then (name, v) # chain else sp # enter_chain room name v chain)"

definition symEnter :: "kheap \<Rightarrow> cstring \<Rightarrow> 'v \<Rightarrow> 'v symtab \<Rightarrow> 'v symtab" where
  "symEnter h name v tp = (let hindex = hashIndex tp name in tp[hindex := enter_chain (kmalloc_ok h 48) name v (tp ! hindex)])"

fun delete_chain :: "cstring \<Rightarrow> (cstring \<times> 'v) list \<Rightarrow> (cstring \<times> 'v) list option" where
  "delete_chain name [] = None"
| "delete_chain name (sp # chain) = (if fst sp = name then Some chain else map_option ((#) sp) (delete_chain name chain))"

definition symDelete :: "cstring \<Rightarrow> 'v symtab \<Rightarrow> int \<times> 'v symtab" where
  "symDelete name tp =
     (let hindex = hashIndex tp name in
      case delete_chain name (tp ! hindex) of None \<Rightarrow> (- 1, tp) | Some chain \<Rightarrow> (0, tp[hindex := chain]))"

text \<open>Going through a table: the index and the rest of the chain are kept between the calls. The chain behind the last one is
  read from outside the array.\<close>

definition chain_at :: "'v symtab \<Rightarrow> nat \<Rightarrow> (cstring \<times> 'v) list outcome" where
  "chain_at tp i = (if i < length tp then Ret (tp ! i) else Fault)"

type_synonym 'v cursor = "nat \<times> (cstring \<times> 'v) list"

definition sym_step :: "'v symtab \<Rightarrow> nat \<Rightarrow> cstring \<times> 'v \<Rightarrow> (cstring \<times> 'v) list \<Rightarrow> ((cstring \<times> 'v) option \<times> 'v cursor) outcome" where
  "sym_step tp i sp forw = (if forw = [] then obind (chain_at tp (i + 1)) (\<lambda>c. Ret (Some sp, i + 1, c)) else Ret (Some sp, i, forw))"

function sym_first :: "'v symtab \<Rightarrow> nat \<Rightarrow> 'v cursor \<Rightarrow> ((cstring \<times> 'v) option \<times> 'v cursor) outcome" where
  "sym_first tp i cur =
     (if i < length tp then (case tp ! i of [] \<Rightarrow> sym_first tp (i + 1) cur | sp # forw \<Rightarrow> sym_step tp i sp forw)
      else Ret (None, cur))"
  by pat_completeness auto
termination
  by (relation "measure (\<lambda>(tp, i, cur). length tp - i)") auto

definition symFirst :: "'v symtab \<Rightarrow> 'v cursor \<Rightarrow> ((cstring \<times> 'v) option \<times> 'v cursor) outcome" where
  "symFirst tp cur = sym_first tp 0 cur"

function sym_next :: "'v symtab \<Rightarrow> nat \<Rightarrow> 'v cursor \<Rightarrow> ((cstring \<times> 'v) option \<times> 'v cursor) outcome" where
  "sym_next tp i cur =
     (if i < length tp then
        (case snd cur of
           sp # forw \<Rightarrow> sym_step tp i sp forw
         | [] \<Rightarrow> (case chain_at tp (i + 1) of Ret c \<Rightarrow> sym_next tp (i + 1) (fst cur, c) | Fault \<Rightarrow> Fault | Blocked \<Rightarrow> Blocked))
      else Ret (None, cur))"
  by pat_completeness auto
termination
  by (relation "measure (\<lambda>(tp, i, cur). length tp - i)") auto

definition symNext :: "'v symtab \<Rightarrow> 'v cursor \<Rightarrow> ((cstring \<times> 'v) option \<times> 'v cursor) outcome" where
  "symNext tp cur = sym_next tp (fst cur) cur"

declare sym_first.simps [simp del] sym_next.simps [simp del]

section \<open>The interface\<close>

text \<open>A table as its clients see it: a map from names to values, which never has the empty name.\<close>

locale symbols =
  fixes ok :: "'t \<Rightarrow> bool" and look :: "'t \<Rightarrow> cstring \<Rightarrow> 'v option" and enter :: "cstring \<Rightarrow> 'v \<Rightarrow> 't \<Rightarrow> 't" and delete :: "cstring \<Rightarrow> 't \<Rightarrow> int \<times> 't"
  assumes enter_ok: "ok t \<Longrightarrow> ok (enter n v t)"
    and delete_ok: "ok t \<Longrightarrow> ok (snd (delete n t))"
    and look_enter: "ok t \<Longrightarrow> n \<noteq> [] \<Longrightarrow> look (enter n v t) = (look t)(n \<mapsto> v)"
    and look_delete: "ok t \<Longrightarrow> n \<noteq> [] \<Longrightarrow> look (snd (delete n t)) = (look t)(n := None)"
    and delete_code: "ok t \<Longrightarrow> n \<noteq> [] \<Longrightarrow> fst (delete n t) = (if look t n = None then - 1 else 0)"
begin

text \<open>Deleting a new name takes the table back, and the last value of a name is the one that stays.\<close>

lemma delete_enter: "ok t \<Longrightarrow> n \<noteq> [] \<Longrightarrow> look t n = None \<Longrightarrow> look (snd (delete n (enter n v t))) = look t"
  by (simp add: enter_ok look_enter look_delete fun_upd_idem)

lemma enter_twice: "ok t \<Longrightarrow> n \<noteq> [] \<Longrightarrow> look (enter n v (enter n u t)) = look (enter n v t)"
  by (simp add: enter_ok look_enter)

end

section \<open>Chains\<close>

lemma find_sym_map: "find_sym chain name = map_of chain name"
  by (induction chain) auto

lemma find_enter: "map_of (enter_chain True name v chain) = (map_of chain)(name \<mapsto> v)"
  by (induction chain) (auto simp: fun_eq_iff)

lemma keys_enter: "fst ` set (enter_chain room name v chain) \<subseteq> insert name (fst ` set chain)"
  by (induction chain) auto

lemma distinct_enter: "distinct (map fst chain) \<Longrightarrow> distinct (map fst (enter_chain room name v chain))"
proof (induction chain)
  case (Cons sp chain)
  then show ?case using keys_enter [of room name v chain] by auto
qed simp

lemma delete_chain_None: "delete_chain name chain = None \<longleftrightarrow> map_of chain name = None"
  by (induction chain) auto

lemma delete_chain_map:
  "distinct (map fst chain) \<Longrightarrow> delete_chain name chain = Some c \<Longrightarrow> map_of c = (map_of chain)(name := None) \<and> set c \<subseteq> set chain \<and> distinct (map fst c)"
proof (induction chain arbitrary: c)
  case (Cons sp chain)
  show ?case
  proof (cases "fst sp = name")
    case True
    then have "map_of chain name = None" using Cons.prems(1) by (auto simp: map_of_eq_None_iff)
    then show ?thesis using Cons.prems True by (auto simp: fun_eq_iff)
  next
    case False
    then obtain c' where c': "delete_chain name chain = Some c'" "c = sp # c'" using Cons.prems(2) by auto
    with Cons.IH [OF _ c'(1)] Cons.prems(1) have "map_of c' = (map_of chain)(name := None)" "set c' \<subseteq> set chain" "distinct (map fst c')" by auto
    then show ?thesis using c'(2) False Cons.prems(1) by (auto simp: fun_eq_iff)
  qed
qed simp

text \<open>Every name lies on the chain its hash gives, once.\<close>

definition symtab_ok :: "'v symtab \<Rightarrow> bool" where
  "symtab_ok tp = (tp \<noteq> [] \<and> (\<forall>i < length tp. distinct (map fst (tp ! i)) \<and> (\<forall>n \<in> fst ` set (tp ! i). hashIndex tp n = i)))"

lemma hashIndex_bound: "tp \<noteq> [] \<Longrightarrow> hashIndex tp n < length tp"
  by (simp add: hashIndex_def)

lemma hashIndex_update [simp]: "hashIndex (tp[i := c]) n = hashIndex tp n"
  by (simp add: hashIndex_def)

lemma symtab_update:
  assumes "symtab_ok tp" and "distinct (map fst c)" and "fst ` set c \<subseteq> insert name (fst ` set (tp ! hashIndex tp name))"
  shows "symtab_ok (tp[hashIndex tp name := c])"
proof -
  let ?h = "hashIndex tp name"
  have ok: "tp \<noteq> []" "\<And>i. i < length tp \<Longrightarrow> distinct (map fst (tp ! i)) \<and> (\<forall>n \<in> fst ` set (tp ! i). hashIndex tp n = i)"
    using assms(1) by (simp_all add: symtab_ok_def)
  have b: "?h < length tp" by (rule hashIndex_bound [OF ok(1)])
  have "distinct (map fst (tp[?h := c] ! i)) \<and> (\<forall>n \<in> fst ` set (tp[?h := c] ! i). hashIndex tp n = i)" if "i < length tp" for i
  proof (cases "i = ?h")
    case True
    have "hashIndex tp n = ?h" if "n \<in> fst ` set c" for n using that assms(3) ok(2) [OF b] by blast
    then show ?thesis using True assms(2) b by simp
  next
    case False
    then show ?thesis using ok(2) [OF that] by simp
  qed
  then show ?thesis using ok(1) by (simp add: symtab_ok_def)
qed

lemma chain_update:
  assumes "symtab_ok tp" and "map_of c = (map_of (tp ! hashIndex tp name))(name := w)" and "name \<noteq> []"
  shows "symLookup (tp[hashIndex tp name := c]) = (symLookup tp)(name := w)"
proof
  fix m
  have b: "hashIndex tp name < length tp" using assms(1) hashIndex_bound by (auto simp: symtab_ok_def)
  show "symLookup (tp[hashIndex tp name := c]) m = ((symLookup tp)(name := w)) m"
    using assms(2,3) b by (cases "hashIndex tp m = hashIndex tp name") (auto simp: symLookup_def find_sym_map nth_list_update)
qed


section \<open>The tables implement the interface\<close>

text \<open>With memory for new symbols.\<close>

abbreviation enter_sym :: "cstring \<Rightarrow> 'v \<Rightarrow> 'v symtab \<Rightarrow> 'v symtab" where
  "enter_sym \<equiv> symEnter \<lparr>kmalloc_ok = \<lambda>_. True, kjunk = \<lambda>_. 0\<rparr>"

lemma symEnter_room: "kmalloc_ok h 48 \<Longrightarrow> symEnter h = enter_sym"
  by (simp add: symEnter_def fun_eq_iff)

interpretation st: symbols symtab_ok symLookup enter_sym symDelete
proof
  fix t :: "'v symtab" and n :: cstring and v :: 'v
  assume ok: "symtab_ok t"
  have d: "distinct (map fst (t ! hashIndex t n))" using ok hashIndex_bound [of t n] by (auto simp: symtab_ok_def)
  show "symtab_ok (enter_sym n v t)"
    using symtab_update [OF ok distinct_enter [OF d] keys_enter, of True v] by (simp add: symEnter_def Let_def)
  show "symtab_ok (snd (symDelete n t))"
  proof (cases "delete_chain n (t ! hashIndex t n)")
    case (Some c)
    then have "distinct (map fst c)" "fst ` set c \<subseteq> insert n (fst ` set (t ! hashIndex t n))" using delete_chain_map [OF d] by auto
    from symtab_update [OF ok this] Some show ?thesis by (simp add: symDelete_def)
  qed (use ok in \<open>simp add: symDelete_def\<close>)
  show "symLookup (enter_sym n v t) = (symLookup t)(n \<mapsto> v)" if "n \<noteq> []"
    using chain_update [OF ok find_enter that] by (simp add: symEnter_def Let_def)
  show "symLookup (snd (symDelete n t)) = (symLookup t)(n := None)" if "n \<noteq> []"
  proof (cases "delete_chain n (t ! hashIndex t n)")
    case None
    then have "symDelete n t = (- 1, t)" by (simp add: symDelete_def)
    moreover have "symLookup t n = None" using None by (simp add: delete_chain_None symLookup_def find_sym_map)
    ultimately show ?thesis by (simp add: fun_upd_idem)
  next
    case (Some c)
    then show ?thesis using chain_update [OF ok _ that, of c None] delete_chain_map [OF d Some] by (simp add: symDelete_def)
  qed
  show "fst (symDelete n t) = (if symLookup t n = None then - 1 else 0)" if "n \<noteq> []"
    using that delete_chain_None [of n "t ! hashIndex t n"]
    by (cases "delete_chain n (t ! hashIndex t n)") (auto simp: symDelete_def symLookup_def find_sym_map Let_def)
qed

lemma calcPrime_pos: "0 < calcPrime n"
  by (induction n) auto

lemma symOpen_ok:
  "(\<And>n. kmalloc_ok h n) \<Longrightarrow> \<exists>t :: 'v symtab. symOpen h sz = Ret (Some t) \<and> symtab_ok t \<and> symLookup t = Map.empty"
  using calcPrime_pos [of sz]
  by (auto simp: symOpen_def symtab_ok_def symLookup_def hashIndex_def fun_eq_iff)

lemma isPrime_no_divisor: "isPrime n \<longleftrightarrow> (\<forall>i. 2 \<le> i \<and> i < n \<longrightarrow> n mod i \<noteq> 0)"
proof
  assume p: "isPrime n"
  show "\<forall>i. 2 \<le> i \<and> i < n \<longrightarrow> n mod i \<noteq> 0"
  proof (intro allI impI notI)
    fix i
    assume i: "2 \<le> i \<and> i < n" and d: "n mod i = 0"
    then obtain k where k: "n = i * k" by (auto simp: mod_eq_0_iff_dvd elim: dvdE)
    then have "2 \<le> k" using i by (cases k rule: nat.exhaust; cases "k - 1") auto
    then have "i \<le> n div 2" using k by (simp add: less_eq_div_iff_mult_less_eq)
    then have mem: "i \<in> set [2..<n div 2 + 1]" using i by auto
    have "\<forall>i \<in> set [2..<n div 2 + 1]. n mod i \<noteq> 0" using p unfolding isPrime_def list_all_iff .
    from bspec [OF this mem] d show False by simp
  qed
qed (auto simp: isPrime_def list_all_iff)

text \<open>Any sequence of operations, a name with a value to enter and without one to delete, with the codes of the deletions; the same on a map.\<close>

primrec sym_runs :: "kheap \<Rightarrow> (cstring \<times> 'v option) list \<Rightarrow> 'v symtab \<Rightarrow> int list \<times> 'v symtab" where
  "sym_runs h [] tp = ([], tp)"
| "sym_runs h (x # xs) tp =
     (case snd x of
        Some v \<Rightarrow> sym_runs h xs (symEnter h (fst x) v tp)
      | None \<Rightarrow> (case symDelete (fst x) tp of (rc, tp') \<Rightarrow> apfst ((#) rc) (sym_runs h xs tp')))"

primrec map_runs :: "(cstring \<times> 'v option) list \<Rightarrow> (cstring \<rightharpoonup> 'v) \<Rightarrow> int list \<times> (cstring \<rightharpoonup> 'v)" where
  "map_runs [] m = ([], m)"
| "map_runs (x # xs) m =
     (if snd x = None then apfst ((#) (if m (fst x) = None then - 1 else 0)) (map_runs xs (m(fst x := None)))
      else map_runs xs (m(fst x := snd x)))"

lemma sym_runs_map:
  assumes heap: "\<And>n. kmalloc_ok h n"
  shows "symtab_ok t \<Longrightarrow> \<forall>x \<in> set xs. fst x \<noteq> [] \<Longrightarrow>
    symtab_ok (snd (sym_runs h xs t)) \<and> map_runs xs (symLookup t) = apsnd symLookup (sym_runs h xs t)"
proof (induction xs arbitrary: t)
  case (Cons x xs)
  obtain n vo where x: "x = (n, vo)" by (cases x)
  have n: "n \<noteq> []" "\<forall>x \<in> set xs. fst x \<noteq> []" using Cons.prems(2) by (auto simp: x)
  show ?case
  proof (cases vo)
    case (Some v)
    note look = st.look_enter [OF Cons.prems(1) n(1), of v]
    show ?thesis using Cons.IH [OF st.enter_ok [OF Cons.prems(1), of n v] n(2), unfolded look] by (simp add: x Some symEnter_room [OF heap] del: fun_upd_apply)
  next
    case None
    obtain rc t' where d: "symDelete n t = (rc, t')" by (cases "symDelete n t")
    have "symtab_ok t'" "symLookup t' = (symLookup t)(n := None)" "rc = (if symLookup t n = None then - 1 else 0)"
      using st.delete_ok [OF Cons.prems(1), of n] st.look_delete [OF Cons.prems(1) n(1)] st.delete_code [OF Cons.prems(1) n(1)] by (simp_all add: d)
    then show ?thesis using Cons.IH [of t'] n(2) by (cases "sym_runs h xs t'") (simp add: x None d del: fun_upd_apply)
  qed
qed simp

text \<open>C23: symbol tables are maps. A table opened with any size starts empty; entering and deleting names in any order,
  however they collide, is updating one map, which \<open>symLookup\<close> reads; a name is stored once, on the chain of its hash, and the code of each deletion
  says whether the name was there.\<close>

theorem symtab_refines_map:
  assumes "\<And>n. kmalloc_ok h n" and "\<forall>x \<in> set ops. fst x \<noteq> []"
  shows "\<exists>(t :: 'v symtab) codes t'. symOpen h sz = Ret (Some t) \<and> sym_runs h ops t = (codes, t') \<and> symtab_ok t'
    \<and> map_runs ops Map.empty = (codes, symLookup t')"
proof -
  obtain t :: "'v symtab" where t: "symOpen h sz = Ret (Some t)" "symtab_ok t" "symLookup t = Map.empty" using symOpen_ok [OF assms(1)] by blast
  show ?thesis using sym_runs_map [OF assms(1) t(2) assms(2)] t(1,3) by (cases "sym_runs h ops t") auto
qed

theorem symtab_refines_map_witness:
  "\<exists>t :: int symtab. symOpen (u_heap board_env) 3 = Ret (Some t)
    \<and> fst (sym_runs (u_heap board_env) [(lit ''a'', Some 1), (lit ''d'', None), (lit ''a'', None), (lit ''a'', Some 3)] t) = [- 1, 0]
    \<and> symLookup (snd (sym_runs (u_heap board_env) [(lit ''a'', Some 1), (lit ''d'', None), (lit ''a'', None), (lit ''a'', Some 3)] t)) = [lit ''a'' \<mapsto> 3]"
proof -
  have h: "kmalloc_ok (u_heap board_env) n" for n by (simp add: board_env_def)
  have r: "map_runs [(lit ''a'', Some (1 :: int)), (lit ''d'', None), (lit ''a'', None), (lit ''a'', Some 3)] Map.empty = ([- 1, 0], [lit ''a'' \<mapsto> 3])"
    by (simp add: fun_eq_iff)
  show ?thesis
    using symtab_refines_map [OF h, of "[(lit ''a'', Some (1 :: int)), (lit ''d'', None), (lit ''a'', None), (lit ''a'', Some 3)]" 3] unfolding r by auto
qed


section \<open>Going through a table\<close>

lemma sym_step_inside:
  "sym_step tp i sp forw = Fault \<or> (\<exists>cur. sym_step tp i sp forw = Ret (Some sp, cur) \<and> (i < length tp \<longrightarrow> fst cur < length tp))"
  by (simp add: sym_step_def chain_at_def)

lemma sym_next_inside:
  "i < length tp \<Longrightarrow> sym_next tp i cur = Fault \<or> (\<exists>sp cur'. sym_next tp i cur = Ret (Some sp, cur') \<and> fst cur' < length tp)"
proof (induction tp i cur rule: sym_next.induct)
  case (1 tp i cur)
  show ?case
  proof (cases "snd cur")
    case Nil
    show ?thesis
    proof (cases "i + 1 < length tp")
      case True
      then have "chain_at tp (i + 1) = Ret (tp ! (i + 1))" by (simp add: chain_at_def)
      with 1(1) [OF 1(2) Nil this True] 1(2) Nil show ?thesis by (simp add: sym_next.simps [of tp i cur])
    next
      case False
      then show ?thesis using 1(2) Nil by (simp add: sym_next.simps [of tp i cur] chain_at_def)
    qed
  next
    case (Cons sp forw)
    then have "sym_next tp i cur = sym_step tp i sp forw" using 1(2) by (simp add: sym_next.simps [of tp i cur])
    then show ?thesis using sym_step_inside [of tp i sp forw] 1(2) by auto
  qed
qed

text \<open>C28: going through a table never ends inside it. Once \<open>symFirst\<close> has returned a symbol, every call of \<open>symNext\<close> returns another
  symbol or reads the chain behind the last one, outside the array; it never returns NULL without that. (The variables of every CGI request are
  gone through in this way.)\<close>

theorem symNext_reads_outside:
  assumes "symFirst tp cur0 = Ret (Some sp0, cur) \<or> symNext tp cur1 = Ret (Some sp0, cur) \<and> fst cur1 < length tp"
  shows "fst cur < length tp \<and> (symNext tp cur = Fault \<or> (\<exists>sp cur'. symNext tp cur = Ret (Some sp, cur')))"
proof -
  have first: "sym_first tp i cur0 = Ret (Some sp0, cur) \<Longrightarrow> fst cur < length tp" for i
  proof (induction tp i cur0 rule: sym_first.induct)
    case (1 tp i cur0)
    have i: "i < length tp" using 1(2) by (cases "i < length tp") (simp_all add: sym_first.simps [of tp i cur0])
    show ?case
    proof (cases "tp ! i")
      case Nil
      then show ?thesis using 1 i by (simp add: sym_first.simps [of tp i cur0])
    next
      case (Cons sp forw)
      then have "sym_step tp i sp forw = Ret (Some sp0, cur)" using 1(2) i by (simp add: sym_first.simps [of tp i cur0])
      then show ?thesis using sym_step_inside [of tp i sp forw] i by auto
    qed
  qed
  have "fst cur < length tp" using assms first [of 0] sym_next_inside [of "fst cur1" tp cur1] by (auto simp: symFirst_def symNext_def)
  then show ?thesis using sym_next_inside [of "fst cur" tp cur] by (auto simp: symNext_def)
qed

theorem symNext_reads_outside_witness:
  "symFirst [[], [(lit ''a'', 1 :: int)], []] (0, []) = Ret (Some (lit ''a'', 1), 2, []) \<and> symNext [[], [(lit ''a'', 1 :: int)], []] (2, []) = Fault"
proof -
  have f: "symFirst [[], [(lit ''a'', 1 :: int)], []] (0, []) = Ret (Some (lit ''a'', 1), 2, [])"
    by (simp add: symFirst_def sym_first.simps sym_step_def chain_at_def numeral_2_eq_2)
  moreover have "\<not> (\<exists>sp cur'. symNext [[], [(lit ''a'', 1 :: int)], []] (2, []) = Ret (Some sp, cur'))"
    by (simp add: symNext_def sym_next.simps chain_at_def)
  ultimately show ?thesis using symNext_reads_outside [of "[[], [(lit ''a'', 1 :: int)], []]" "(0, [])" "(lit ''a'', 1)" "(2, [])"] by blast
qed

end
