(* ===== verification/WebVars.thy ===== *)
theory WebVars
  imports SymTab WebUrl UserDb
begin

text \<open>
  The variables of a request (\<open>user/goahead/src_tongyong/webs.c\<close>): setting, testing and comparing them, and
  \<open>websSetEnv\<close>, which enters the standard variables of a CGI environment and one variable for each
  \<open>name=value\<close> pair of the query. They are kept in a symbol table; \<open>request_query\<close> is the map of them that the
  forms read.

  The result is the way of a form: what a browser encodes is what the form gets.
\<close>

section \<open>Model\<close>

type_synonym vars = "cstring symtab"

text \<open>The value is copied (a NULL pointer as the empty string); without memory it stays NULL, which \<open>websGetVar\<close> reads as the
  empty string too.\<close>

definition websSetVar :: "kheap \<Rightarrow> cstring \<Rightarrow> cstring option \<Rightarrow> vars \<Rightarrow> vars" where
  "websSetVar h var val tp = symEnter h var (case bstrdup h val of None \<Rightarrow> [] | Some v \<Rightarrow> v) tp"

definition websTestVar :: "vars \<Rightarrow> cstring option \<Rightarrow> bool" where
  "websTestVar tp var = (case var of None \<Rightarrow> False | Some v \<Rightarrow> v \<noteq> [] \<and> symLookup tp v \<noteq> None)"

definition request_query :: "vars \<Rightarrow> query" where
  "request_query tp name = map_option Some (symLookup tp name)"

definition websCompareVar :: "vars \<Rightarrow> cstring \<Rightarrow> cstring \<Rightarrow> bool" where
  "websCompareVar tp var val = (val = the (websGetVar (request_query tp) var (Some (lit '' __UNDEF__ ''))))"

text \<open>One pair of the query: the keyword and the value are decoded only when there is an equals sign. A keyword that is set already
  gets the new value behind the old one.\<close>

definition split_pair :: "cstring \<Rightarrow> cstring \<times> cstring" where
  "split_pair keyword =
     (case split_at EQUALS keyword of
        Some (k, v) \<Rightarrow> (websDecodeUrl k (length k), websDecodeUrl v (length v))
      | None \<Rightarrow> (keyword, []))"

definition set_pair :: "kheap \<Rightarrow> cstring \<Rightarrow> vars \<Rightarrow> vars outcome" where
  "set_pair h keyword tp =
     (let (k, v) = split_pair keyword in
      if k = [] then Ret tp
      else case websGetVar (request_query tp) k None of
          Some valCheck \<Rightarrow>
            obind (fmtAlloc h 256 (lit ''%s %s'') [AStr (Some valCheck), AStr (Some v)]) (\<lambda>(_, valNew).
            Ret (websSetVar h k (map_option cstr valNew) tp))
        | None \<Rightarrow> Ret (websSetVar h k (Some v) tp))"

primrec set_pairs :: "kheap \<Rightarrow> cstring list \<Rightarrow> vars \<Rightarrow> vars outcome" where
  "set_pairs h [] tp = Ret tp"
| "set_pairs h (k # ks) tp = obind (set_pair h k tp) (set_pairs h ks)"

abbreviation AMP :: byte where "AMP \<equiv> 0x26"

text \<open>\<open>stritoa\<close> (\<open>uemf.c\<close>): the digits from the last one, as many as the buffer has room for. \<open>-n\<close> is defined
  for every negative number but the least one.\<close>

fun itoa_loop :: "nat \<Rightarrow> nat \<Rightarrow> cstring" where
  "itoa_loop n 0 = []"
| "itoa_loop n (Suc room) = (if n > 9 then (of_nat (n mod 10) + 0x30) # itoa_loop (n div 10) room else [of_nat n + 0x30])"

definition stritoa :: "int \<Rightarrow> nat \<Rightarrow> cstring" where
  "stritoa n width =
     (if n < 0 then 0x2D # rev (itoa_loop (nat (- n)) (width - 2)) else rev (itoa_loop (nat n) (width - 1)))"

text \<open>The standard variables with their values, then the query. Without memory for a copy of the query \<open>strtok\<close> goes on
  in whatever string it was called with before.\<close>

record cgi_env =
  ce_host :: cstring
  ce_hostUrl :: "cstring option"
  ce_ipaddr :: cstring
  ce_ifaddr :: cstring
  ce_port :: int
  ce_protoVersion :: cstring

definition std_vars :: "cgi_env \<Rightarrow> cstring \<Rightarrow> cstring \<Rightarrow> (string \<times> cstring option) list" where
  "std_vars ce path query =
     [(''QUERY_STRING'', Some query), (''GATEWAY_INTERFACE'', Some (lit ''CGI/1.1'')), (''SERVER_HOST'', Some (ce_host ce)),
      (''SERVER_NAME'', Some (ce_host ce)), (''SERVER_URL'', ce_hostUrl ce), (''REMOTE_HOST'', Some (ce_ipaddr ce)),
      (''REMOTE_ADDR'', Some (ce_ipaddr ce)), (''PATH_INFO'', Some path), (''SERVER_PORT'', Some (stritoa (ce_port ce) 8)),
      (''SERVER_ADDR'', Some (ce_ifaddr ce)), (''SERVER_SOFTWARE'', Some (lit ''GoAhead-Webs/2.1.8'')), (''SERVER_PROTOCOL'', Some (ce_protoVersion ce))]"

definition websSetEnv :: "kheap \<Rightarrow> cgi_env \<Rightarrow> cstring \<Rightarrow> cstring \<Rightarrow> vars \<Rightarrow> vars outcome" where
  "websSetEnv h ce path query tp =
     (case bstrdup h (Some query) of
        None \<Rightarrow> Fault
      | Some decodedQuery \<Rightarrow> set_pairs h (tokens AMP decodedQuery) (fold (\<lambda>(n, v). websSetVar h (lit n) v) (std_vars ce path query) tp))"


section \<open>Queries as browsers write them\<close>

definition encode_text :: "cstring \<Rightarrow> cstring" where
  "encode_text s = concat (map url_byte s)"

definition encode_pair :: "cstring \<times> cstring \<Rightarrow> cstring" where
  "encode_pair kv = encode_text (fst kv) @ EQUALS # encode_text (snd kv)"

definition encode_query :: "(cstring \<times> cstring) list \<Rightarrow> cstring" where
  "encode_query kvs = join AMP (map encode_pair kvs)"

lemma hex_digit_plain: "n < 16 \<Longrightarrow> hex_digit n \<noteq> AMP \<and> hex_digit n \<noteq> EQUALS \<and> hex_digit n \<noteq> NUL"
proof -
  have "list_all (\<lambda>n. hex_digit n \<noteq> AMP \<and> hex_digit n \<noteq> EQUALS \<and> hex_digit n \<noteq> NUL) [0..<16]" by code_simp
  then show "n < 16 \<Longrightarrow> hex_digit n \<noteq> AMP \<and> hex_digit n \<noteq> EQUALS \<and> hex_digit n \<noteq> NUL" by (simp add: list_all_iff)
qed

lemma url_byte_plain: "AMP \<notin> set (url_byte c) \<and> EQUALS \<notin> set (url_byte c)"
proof -
  have "unat c < 2 ^ LENGTH(8)" by (rule unsigned_less)
  then have "unat c div 16 < 16" "unat c mod 16 < 16" by (simp_all add: less_mult_imp_div_less)
  then show ?thesis using hex_digit_plain [of "unat c div 16"] hex_digit_plain [of "unat c mod 16"]
    by (auto simp: url_byte_def isalpha_def isdigit_def tolower_def)
qed

lemma encode_text_plain: "AMP \<notin> set (encode_text s)" "EQUALS \<notin> set (encode_text s)"
  using url_byte_plain by (auto simp: encode_text_def)

lemma decode_text: "is_cstring s \<Longrightarrow> websDecodeUrl (encode_text s) (length (encode_text s)) = s"
proof -
  assume s: "is_cstring s"
  have "length s \<le> length (encode_text s)" unfolding encode_text_def by (induction s) (auto simp: url_byte_def)
  then show ?thesis using decode_encoded [of s] s by (simp add: websDecodeUrl_def encode_text_def cstr_whole)
qed

lemma split_pair_encoded: "is_cstring k \<Longrightarrow> is_cstring v \<Longrightarrow> split_pair (encode_pair (k, v)) = (k, v)"
proof -
  assume c: "is_cstring k" "is_cstring v"
  have "split_at EQUALS (encode_pair (k, v)) = Some (encode_text k, encode_text v)"
    using encode_text_plain(2) [of k]
    by (simp add: split_at_def encode_pair_def takeWhile_tail dropWhile_append dropWhile_eq_Nil_conv)
  then show ?thesis using decode_text [OF c(1)] decode_text [OF c(2)] by (simp add: split_pair_def)
qed

lemma tokens_encoded: "tokens AMP (encode_query kvs) = map encode_pair kvs"
proof (cases kvs)
  case Nil
  then show ?thesis by (simp add: encode_query_def tokens_def)
next
  case (Cons kv rest)
  have "AMP \<notin> set (encode_pair kv)" for kv using encode_text_plain(1) by (simp add: encode_pair_def)
  then have "parts AMP (encode_query kvs) = map encode_pair kvs" unfolding encode_query_def by (intro parts_join) (auto simp: Cons)
  moreover have "encode_pair kv \<noteq> []" for kv by (simp add: encode_pair_def)
  ultimately show ?thesis by (auto simp: tokens_def filter_id_conv)
qed

section \<open>Variables as a map\<close>

lemma websSetVar_ok:
  assumes "\<And>n. kmalloc_ok h n" and "symtab_ok tp" and "k \<noteq> []"
  shows "symtab_ok (websSetVar h k v tp)"
    and "symLookup (websSetVar h k v tp) = (symLookup tp)(k \<mapsto> (case v of None \<Rightarrow> [] | Some s \<Rightarrow> s))"
  using st.enter_ok [OF assms(2), of k] st.look_enter [OF assms(2,3)]
  by (simp_all add: websSetVar_def symEnter_room [OF assms(1)] bstrdup_def assms(1))

text \<open>What a keyword ends up with: the first value as it is, every further one behind a blank, cut to the 255 characters that
  \<open>fmtAlloc\<close> leaves.\<close>

fun joined :: "cstring option \<Rightarrow> cstring list \<Rightarrow> cstring option" where
  "joined old [] = old"
| "joined None (v # vs) = joined (Some v) vs"
| "joined (Some old) (v # vs) = joined (Some (take 255 (old @ [0x20] @ v))) vs"

definition sent :: "cstring \<Rightarrow> (cstring \<times> cstring) list \<Rightarrow> cstring list" where
  "sent k kvs = map snd (filter (\<lambda>kv. fst kv = k) kvs)"

text \<open>What is set under the names of a set are C strings.\<close>

definition vars_cstring :: "cstring set \<Rightarrow> vars \<Rightarrow> bool" where
  "vars_cstring K tp = (\<forall>k \<in> K. \<forall>v. symLookup tp k = Some v \<longrightarrow> is_cstring v)"

lemma fmtAlloc_pair:
  assumes "\<And>n. kmalloc_ok h n" and "is_cstring a" and "is_cstring b"
  shows "\<exists>n m. fmtAlloc h 256 (lit ''%s %s'') [AStr (Some a), AStr (Some b)] = Ret (n, Some m) \<and> cstr m = take 255 (a @ [0x20] @ b)"
proof -
  have "lit ''%s %s'' = concat (map fmt_of [piece.Str a, Text [0x20], piece.Str b])" by (simp add: lit_Cons)
  moreover have "[AStr (Some a), AStr (Some b)] = concat (map args_of [piece.Str a, Text [0x20], piece.Str b])" by simp
  moreover have "take (cap 256 - 1) (concat (map text_of [piece.Str a, Text [0x20], piece.Str b])) = take 255 (a @ [0x20] @ b)" by (simp add: cap_def)
  ultimately show ?thesis
    using fmtValloc_template [of h "[piece.Str a, Text [0x20], piece.Str b]" 256 "take 255 (a @ [0x20] @ b)"] assms
    by (auto simp: fmtAlloc_def fmtValloc_def is_cstring_def)
qed

lemma set_pair_ok:
  assumes heap: "\<And>n. kmalloc_ok h n" and tp: "symtab_ok tp" "vars_cstring K tp" "k \<in> K" and kv: "k \<noteq> []" "is_cstring k" "is_cstring v"
  shows "\<exists>tp'. set_pair h (encode_pair (k, v)) tp = Ret tp' \<and> symtab_ok tp' \<and> vars_cstring K tp'
    \<and> symLookup tp' = (symLookup tp)(k := joined (symLookup tp k) [v])"
proof (cases "symLookup tp k")
  case None
  have step: "set_pair h (encode_pair (k, v)) tp = Ret (websSetVar h k (Some v) tp)"
    using split_pair_encoded [OF kv(2,3)] kv(1) None by (simp add: set_pair_def websGetVar_def request_query_def)
  note new = websSetVar_ok [OF heap tp(1) kv(1), of "Some v", unfolded option.case]
  show ?thesis using step new tp(2) kv(3) None by (auto simp: vars_cstring_def)
next
  case (Some old)
  have "is_cstring old" using tp(2,3) Some by (simp add: vars_cstring_def)
  then obtain n m where m: "fmtAlloc h 256 (lit ''%s %s'') [AStr (Some old), AStr (Some v)] = Ret (n, Some m)" "cstr m = take 255 (old @ [0x20] @ v)"
    using fmtAlloc_pair [OF heap _ kv(3)] by blast
  have step: "set_pair h (encode_pair (k, v)) tp = Ret (websSetVar h k (Some (take 255 (old @ [0x20] @ v))) tp)"
    using split_pair_encoded [OF kv(2,3)] kv(1) Some m by (simp add: set_pair_def websGetVar_def request_query_def)
  note new = websSetVar_ok [OF heap tp(1) kv(1), of "Some (take 255 (old @ [0x20] @ v))", unfolded option.case]
  have "is_cstring (take 255 (old @ [0x20] @ v))" using \<open>is_cstring old\<close> kv(3) by (auto simp: is_cstring_def dest: in_set_takeD)
  then have "vars_cstring K (websSetVar h k (Some (take 255 (old @ [0x20] @ v))) tp)" using tp(2) unfolding vars_cstring_def new(2) by simp
  then show ?thesis using step new Some by auto
qed

lemma joined_Cons: "joined old (v # vs) = joined (joined old [v]) vs"
  by (cases old) simp_all

lemma set_pairs_ok:
  assumes heap: "\<And>n. kmalloc_ok h n"
  shows "symtab_ok tp \<Longrightarrow> vars_cstring K tp \<Longrightarrow> fst ` set kvs \<subseteq> K \<Longrightarrow> \<forall>kv \<in> set kvs. fst kv \<noteq> [] \<and> is_cstring (fst kv) \<and> is_cstring (snd kv)
    \<Longrightarrow> \<exists>tp'. set_pairs h (map encode_pair kvs) tp = Ret tp' \<and> (\<forall>k. symLookup tp' k = joined (symLookup tp k) (sent k kvs))"
proof (induction kvs arbitrary: tp)
  case (Cons kv kvs)
  obtain k v where kv: "kv = (k, v)" by (cases kv)
  obtain tp1 where tp1: "set_pair h (encode_pair kv) tp = Ret tp1" "symtab_ok tp1" "vars_cstring K tp1"
    "symLookup tp1 = (symLookup tp)(k := joined (symLookup tp k) [v])"
    using set_pair_ok [OF heap Cons.prems(1,2), of k v] Cons.prems(3,4) by (auto simp: kv)
  obtain tp' where tp': "set_pairs h (map encode_pair kvs) tp1 = Ret tp'" "\<forall>k. symLookup tp' k = joined (symLookup tp1 k) (sent k kvs)"
    using Cons.IH [OF tp1(2,3)] Cons.prems(3,4) by auto
  have "joined (symLookup tp1 x) (sent x kvs) = joined (symLookup tp x) (sent x (kv # kvs))" for x
    using joined_Cons [of "symLookup tp k" v "sent k kvs"] by (simp add: tp1(4) sent_def kv)
  then show ?case using tp1(1) tp' by simp
qed (simp add: sent_def)

lemma std_vars_ok:
  assumes heap: "\<And>n. kmalloc_ok h n"
  shows "symtab_ok tp \<Longrightarrow> vars_cstring K tp
    \<Longrightarrow> \<forall>nv \<in> set nvs. fst nv \<noteq> [] \<and> (lit (fst nv) \<in> K \<longrightarrow> is_cstring (case snd nv of None \<Rightarrow> [] | Some s \<Rightarrow> s)) \<Longrightarrow>
    symtab_ok (fold (\<lambda>(n, v). websSetVar h (lit n) v) nvs tp) \<and> vars_cstring K (fold (\<lambda>(n, v). websSetVar h (lit n) v) nvs tp) \<and>
    (\<forall>k. k \<notin> lit ` fst ` set nvs \<longrightarrow> symLookup (fold (\<lambda>(n, v). websSetVar h (lit n) v) nvs tp) k = symLookup tp k)"
proof (induction nvs arbitrary: tp)
  case (Cons nv nvs)
  obtain n v where nv: "nv = (n, v)" by (cases nv)
  have n: "lit n \<noteq> []" using Cons.prems(3) by (simp add: nv lit_def)
  note new = websSetVar_ok [OF heap Cons.prems(1) n, of v]
  have "vars_cstring K (websSetVar h (lit n) v tp)" using Cons.prems(2,3) unfolding vars_cstring_def new(2) by (simp add: nv)
  then show ?case using Cons.IH [OF new(1)] Cons.prems(3) by (simp add: nv new(2))
qed simp

definition std_names :: "string list" where
  "std_names = [''QUERY_STRING'', ''GATEWAY_INTERFACE'', ''SERVER_HOST'', ''SERVER_NAME'', ''SERVER_URL'', ''REMOTE_HOST'', ''REMOTE_ADDR'',
     ''PATH_INFO'', ''SERVER_PORT'', ''SERVER_ADDR'', ''SERVER_SOFTWARE'', ''SERVER_PROTOCOL'']"

lemma std_vars_names: "map fst (std_vars ce path query) = std_names"
  by (simp add: std_vars_def std_names_def)

text \<open>The strings the server puts into the standard variables are C strings.\<close>

definition cgi_ok :: "cgi_env \<Rightarrow> bool" where
  "cgi_ok ce = (is_cstring (ce_host ce) \<and> is_cstring (case ce_hostUrl ce of None \<Rightarrow> [] | Some s \<Rightarrow> s) \<and> is_cstring (ce_ipaddr ce)
     \<and> is_cstring (ce_ifaddr ce) \<and> is_cstring (ce_protoVersion ce))"

lemma digit_byte: "d < 10 \<Longrightarrow> (of_nat d + 0x30 :: byte) \<noteq> NUL"
proof -
  have "list_all (\<lambda>d. (of_nat d + 0x30 :: byte) \<noteq> NUL) [0..<10]" by code_simp
  then show "d < 10 \<Longrightarrow> (of_nat d + 0x30 :: byte) \<noteq> NUL" by (simp add: list_all_iff)
qed

lemma stritoa_cstring: "is_cstring (stritoa n w)"
proof -
  have "is_cstring (itoa_loop n r)" for n r
    using digit_byte by (induction n r rule: itoa_loop.induct) (auto simp: is_cstring_def)
  then show ?thesis by (auto simp: stritoa_def is_cstring_def)
qed

lemma encode_query_cstring: "is_cstring (encode_query kvs)"
proof -
  have "NUL \<notin> set (url_byte c)" for c
  proof -
    have "unat c < 2 ^ LENGTH(8)" by (rule unsigned_less)
    then have "unat c div 16 < 16" "unat c mod 16 < 16" by (simp_all add: less_mult_imp_div_less)
    then show ?thesis using hex_digit_plain [of "unat c div 16"] hex_digit_plain [of "unat c mod 16"]
      by (auto simp: url_byte_def isalpha_def isdigit_def tolower_def)
  qed
  then have "NUL \<notin> set (encode_pair kv)" for kv by (auto simp: encode_pair_def encode_text_def)
  then have "NUL \<notin> set (join AMP (map encode_pair kvs))" by (induction kvs rule: induct_list012) auto
  then show ?thesis by (simp add: is_cstring_def encode_query_def)
qed

lemma websSetEnv_ok:
  assumes "\<And>n. kmalloc_ok h n" and "symtab_ok tp" and "vars_cstring (fst ` set kvs) tp"
    and "cgi_ok ce \<and> is_cstring path \<or> fst ` set kvs \<inter> lit ` set std_names = {}"
    and "\<forall>kv \<in> set kvs. fst kv \<noteq> [] \<and> is_cstring (fst kv) \<and> is_cstring (snd kv)"
  shows "\<exists>tp'. websSetEnv h ce path (encode_query kvs) tp = Ret tp' \<and>
    (\<forall>k d. k \<notin> lit ` set std_names \<longrightarrow> websGetVar (request_query tp') k d
       = (case joined (websGetVar (request_query tp) k None) (sent k kvs) of None \<Rightarrow> d | Some v \<Rightarrow> Some v))"
proof -
  define tp1 where "tp1 = fold (\<lambda>(n, v). websSetVar h (lit n) v) (std_vars ce path (encode_query kvs)) tp"
  have names: "fst ` set (std_vars ce path (encode_query kvs)) = set std_names"
    by (simp add: std_vars_names [symmetric, of ce path "encode_query kvs"])
  have lits: "is_cstring (lit ''CGI/1.1'')" "is_cstring (lit ''GoAhead-Webs/2.1.8'')" by code_simp+
  have "\<forall>nv \<in> set (std_vars ce path (encode_query kvs)). fst nv \<noteq> [] \<and> (lit (fst nv) \<in> fst ` set kvs \<longrightarrow> is_cstring (case snd nv of None \<Rightarrow> [] | Some s \<Rightarrow> s))"
  proof (cases "cgi_ok ce \<and> is_cstring path")
    case True
    then show ?thesis using lits encode_query_cstring stritoa_cstring by (simp add: std_vars_def cgi_ok_def)
  next
    case False
    then have "\<forall>nv \<in> set (std_vars ce path (encode_query kvs)). lit (fst nv) \<notin> fst ` set kvs" using assms(4) names by blast
    moreover have "\<forall>nv \<in> set (std_vars ce path (encode_query kvs)). fst nv \<noteq> []" by (simp add: std_vars_def)
    ultimately show ?thesis by blast
  qed
  from std_vars_ok [OF assms(1,2,3) this] have ok1: "symtab_ok tp1" "vars_cstring (fst ` set kvs) tp1"
    and keep: "\<And>k. k \<notin> lit ` set std_names \<Longrightarrow> symLookup tp1 k = symLookup tp k" unfolding tp1_def names by auto
  from set_pairs_ok [OF assms(1) ok1 subset_refl assms(5)] obtain tp' where
    tp': "set_pairs h (map encode_pair kvs) tp1 = Ret tp'" and l: "\<forall>k. symLookup tp' k = joined (symLookup tp1 k) (sent k kvs)" by blast
  have "websSetEnv h ce path (encode_query kvs) tp = Ret tp'"
    using tp' by (simp add: websSetEnv_def bstrdup_def assms(1) tokens_encoded tp1_def)
  moreover have get: "websGetVar (request_query t) k d = (case symLookup t k of None \<Rightarrow> d | Some v \<Rightarrow> Some v)" for t k d
    by (simp add: websGetVar_def request_query_def split: option.split)
  have "websGetVar (request_query t) k None = symLookup t k" for t k by (simp add: get split: option.split)
  with l keep have "websGetVar (request_query tp') k d = (case joined (websGetVar (request_query tp) k None) (sent k kvs) of None \<Rightarrow> d | Some v \<Rightarrow> Some v)"
    if "k \<notin> lit ` set std_names" for k d using that by (simp add: get)
  ultimately show ?thesis by blast
qed

text \<open>C22: what a browser encodes is what the form gets. For every list of pairs of a non-empty name and a value (any bytes but NUL: ampersands, equals
  signs, percent signs and spaces included), the query text that encodes them once makes \<open>websSetEnv\<close> return, and every name that is not one of
  the twelve standard variables has exactly this value for \<open>websGetVar\<close>: the one value sent under it when it was not set before, else the old value
  and the ones sent, in their order, with a blank before each, cut to 255 characters at each step; a name that is not sent keeps what it had. The query text is the one
  that reaches \<open>websSetEnv\<close>, that is a posted body; the query of a URL has been decoded once before by \<open>websUrlParse\<close>.\<close>

theorem websSetEnv_roundtrip:
  assumes "\<And>n. kmalloc_ok h n" and "symtab_ok tp" and "vars_cstring (fst ` set kvs) tp" and "cgi_ok ce" and "is_cstring path"
    and "\<forall>kv \<in> set kvs. fst kv \<noteq> [] \<and> is_cstring (fst kv) \<and> is_cstring (snd kv)"
  shows "\<exists>tp'. websSetEnv h ce path (encode_query kvs) tp = Ret tp' \<and>
    (\<forall>k d. k \<notin> lit ` set std_names \<longrightarrow> websGetVar (request_query tp') k d
       = (case joined (websGetVar (request_query tp) k None) (sent k kvs) of None \<Rightarrow> d | Some v \<Rightarrow> Some v))"
  by (rule websSetEnv_ok [OF assms(1-3) disjI1 [OF conjI [OF assms(4,5)]] assms(6)])

theorem websSetEnv_roundtrip_witness:
  "\<exists>tp'. websSetEnv (u_heap board_env) \<lparr>ce_host = lit ''ap'', ce_hostUrl = None, ce_ipaddr = lit ''10.0.0.2'', ce_ifaddr = lit ''10.0.0.1'',
       ce_port = 80, ce_protoVersion = lit ''HTTP/1.1''\<rparr> (lit ''/goform/setSysAdm'') (lit ''admuser=a%26b&admpass=1%3D1%202&admuser=c'') [[], []] = Ret tp' \<and>
     websGetVar (request_query tp') (lit ''admuser'') None = Some (lit ''a&b c'') \<and>
     websGetVar (request_query tp') (lit ''admpass'') None = Some (lit ''1=1 2'')"
proof -
  define ce where "ce = \<lparr>ce_host = lit ''ap'', ce_hostUrl = None, ce_ipaddr = lit ''10.0.0.2'', ce_ifaddr = lit ''10.0.0.1'', ce_port = 80, ce_protoVersion = lit ''HTTP/1.1''\<rparr>"
  define kvs where "kvs = [(lit ''admuser'', lit ''a&b''), (lit ''admpass'', lit ''1=1 2''), (lit ''admuser'', lit ''c'')]"
  have h: "kmalloc_ok (u_heap board_env) n" for n by (simp add: board_env_def)
  have q: "encode_query kvs = lit ''admuser=a%26b&admpass=1%3D1%202&admuser=c''" unfolding kvs_def by code_simp
  have t: "symtab_ok ([[], []] :: vars)" by (auto simp: symtab_ok_def less_Suc_eq numeral_2_eq_2)
  have none: "symLookup ([[], []] :: vars) n = None" for n
    using hashIndex_bound [of "[[], []] :: vars" n] by (auto simp: symLookup_def less_Suc_eq numeral_2_eq_2)
  have c: "vars_cstring (fst ` set kvs) [[], []]" by (simp add: vars_cstring_def none)
  have e: "cgi_ok ce" "is_cstring (lit ''/goform/setSysAdm'')" unfolding ce_def by code_simp+
  have "list_all (\<lambda>kv. fst kv \<noteq> [] \<and> is_cstring (fst kv) \<and> is_cstring (snd kv)) kvs" unfolding kvs_def by code_simp
  then have k: "\<forall>kv \<in> set kvs. fst kv \<noteq> [] \<and> is_cstring (fst kv) \<and> is_cstring (snd kv)" by (simp add: list_all_iff)
  have n: "lit ''admuser'' \<notin> lit ` set std_names" "lit ''admpass'' \<notin> lit ` set std_names" by code_simp+
  have j: "joined None (sent (lit ''admuser'') kvs) = Some (lit ''a&b c'')" "joined None (sent (lit ''admpass'') kvs) = Some (lit ''1=1 2'')"
    unfolding kvs_def by code_simp+
  have g: "websGetVar (request_query [[], []]) k None = None" for k by (simp add: websGetVar_def request_query_def none)
  obtain tp' where tp': "websSetEnv (u_heap board_env) ce (lit ''/goform/setSysAdm'') (encode_query kvs) [[], []] = Ret tp'"
    "\<forall>k d. k \<notin> lit ` set std_names \<longrightarrow> websGetVar (request_query tp') k d = (case joined (websGetVar (request_query [[], []]) k None) (sent k kvs) of None \<Rightarrow> d | Some v \<Rightarrow> Some v)"
    using websSetEnv_roundtrip [OF h t c e k] by blast
  have "websGetVar (request_query tp') (lit ''admuser'') None = Some (lit ''a&b c'')" "websGetVar (request_query tp') (lit ''admpass'') None = Some (lit ''1=1 2'')"
    using tp'(2) n j unfolding g by (simp_all only: option.case not_False_eq_True simp_thms)
  with tp'(1) show ?thesis unfolding q ce_def by blast
qed

end
