(* ===== verification/Management.thy ===== *)
theory Management
  imports WebServer WebVars
begin

text \<open>
  The management forms of the web server (\<open>user/goahead/src_tongyong/management.c\<close>): language, time, commands, factory settings,
  restart and the log, with the table that gives them their names. \<open>setSysAdm\<close> is in \<open>WebServer\<close>.

  The build is that of \<open>vendors/Ralink/RT5350/config\<close>; \<open>pr_klogd\<close> says whether it has \<open>logread\<close> and \<open>klogd\<close>. No configuration of
  the router has the GreenAP and Snort forms. The DDNS form and the wizard, which some have, set up the network again and are left out with it, and so are the
  WPS forms.

  A request is followed from the text of its URL to the commands of the form: \<open>websRespond\<close> sets the variables of the request and
  calls the handlers.
\<close>

section \<open>Forms\<close>

text \<open>What other programs answer: the mounted directories, the log, the version of the kernel.\<close>

record proc =
  pr_mounts :: "cstring list"
  pr_logread :: "byte list option"
  pr_klogd :: bool

definition has_semicolon :: "cstring \<Rightarrow> bool" where
  "has_semicolon s = (checkSemicolon (s @ [NUL]) = Ret 1)"

text \<open>\<open>system\<close> of the C library, with the command as it is.\<close>

definition run_system :: "cstring \<Rightarrow> fw \<Rightarrow> fw" where
  "run_system c w = w\<lparr>fcmds := fcmds w @ [c]\<rparr>"

definition setSysLang :: "fenv \<Rightarrow> query \<Rightarrow> fw \<Rightarrow> fw outcome" where
  "setSysLang e q w =
     (let lang = form_var q ''langSelection'' '''' in
      obind (fw_bufset e w ''Language'' lang) (\<lambda>w.
      obind (fw_commit e w) (\<lambda>w.
      let w = answer Header w in
      obind (fw_write e w (lit ''<h2>Language Selection</h2><br>'' @ [NEWLINE]) []) (\<lambda>w.
      obind (fw_write e w (lit ''language: %s<br>'' @ [NEWLINE]) [AStr (Some lang)]) (\<lambda>w.
      Ret (answer (Done 200) (answer Footer w)))))))"

definition NTP :: "fenv \<Rightarrow> query \<Rightarrow> fw \<Rightarrow> fw outcome" where
  "NTP e q w =
     (let submitUrl = form_var q ''submit-url'' ''''; tz = form_var q ''time_zone'' '''';
          ntpServer = form_var q ''NTPServerIP'' ''''; ntpSync = form_var q ''NTPSync'' '''' in
      if tz = [] then Ret w
      else if has_semicolon tz then Ret w
      else
        obind (if ntpServer = [] then
                 obind (fw_bufset e w ''NTPServerIP'' []) (\<lambda>w.
                 obind (fw_bufset e w ''NTPSync'' []) (\<lambda>w. Ret (Some w)))
               else if has_semicolon ntpServer then Ret None
               else if ntpSync = [] then Ret None
               else if atoi ntpSync > 300 then Ret None
               else
                 obind (fw_bufset e w ''NTPServerIP'' ntpServer) (\<lambda>w.
                 obind (fw_bufset e w ''NTPSync'' ntpSync) (\<lambda>w. Ret (Some w)))) (\<lambda>r.
        case r of None \<Rightarrow> Ret w | Some w \<Rightarrow>
        obind (fw_bufset e w ''TZ'' tz) (\<lambda>w.
        obind (fw_commit e w) (\<lambda>w.
        obind (doSystem e w (lit ''ntp.sh'') []) (\<lambda>w.
        Ret (answer (Redirect submitUrl) w))))))"

definition plain_header :: cstring where
  "plain_header = lit ''HTTP/1.1 200 OK'' @ NEWLINE # lit ''Content-type: text/plain'' @ NEWLINE # lit ''Pragma: no-cache'' @ NEWLINE
     # lit ''Cache-Control: no-cache'' @ [NEWLINE, NEWLINE]"

definition NTPSyncWithHost :: "fenv \<Rightarrow> cstring \<Rightarrow> fw \<Rightarrow> fw outcome" where
  "NTPSyncWithHost e qs w =
     (if qs = [] then Ret w
      else if SEMI \<in> set qs then Ret w
      else
        obind (doSystem e w (lit ''date -s %s'') [AStr (Some qs)]) (\<lambda>w.
        obind (fw_write e w plain_header []) (\<lambda>w.
        obind (fw_write e w (lit ''n/a'') []) (\<lambda>w.
        Ret (answer (Done 200) w)))))"

abbreviation COMMAND_MAX :: nat where "COMMAND_MAX \<equiv> 1024"

definition SYSTEM_COMMAND_LOG :: cstring where
  "SYSTEM_COMMAND_LOG = lit ''/var/system_command.log''"

text \<open>The complete command is the format of \<open>doSystem\<close>.\<close>

definition SystemCommand :: form where
  "SystemCommand e q qs s =
     (let submitUrl = form_var q ''submit-url'' ''''; command = form_var q ''command'' '''';
          system_command = take (COMMAND_MAX - 1)
            (if command = [] then lit ''cat /dev/null > '' @ SYSTEM_COMMAND_LOG else command @ lit '' 1>'' @ SYSTEM_COMMAND_LOG @ lit '' 2>&1'') in
      obind (if system_command \<noteq> [] then doSystem e (sv_fw s) system_command [] else Ret (sv_fw s)) (\<lambda>w.
      Ret (s\<lparr>sv_fw := answer (Redirect submitUrl) w, sv_command := system_command\<rparr>)))"

definition repeatLastSystemCommand :: form where
  "repeatLastSystemCommand e q qs s =
     obind (if sv_command s \<noteq> [] then doSystem e (sv_fw s) (sv_command s) [] else Ret (sv_fw s)) (\<lambda>w.
     Ret (s\<lparr>sv_fw := answer (Redirect (form_var q ''submit-url'' '''')) w\<rparr>))"

text \<open>The page that loads the start page again after 40 seconds.\<close>

definition CR :: byte where "CR = 0x0D"
definition TAB2 :: cstring where "TAB2 = [0x09, 0x09]"

definition refresh_script :: cstring where
  "refresh_script = lit ''<script language=\"javascript\">'' @ NEWLINE # TAB2 @ lit ''function refresh_all(){'' @ 0x09 # NEWLINE
     # TAB2 @ lit ''  top.location.href = \"http://%s/home.asp\"; '' @ NEWLINE # TAB2 @ lit ''} '' @ NEWLINE
     # TAB2 @ lit ''function update(){ '' @ NEWLINE # TAB2 @ lit ''  self.setTimeout(\"refresh_all()\", 40000);'' @ NEWLINE
     # TAB2 @ lit ''}'' @ NEWLINE # lit ''</script>'' @ [NEWLINE]"

primrec write_all :: "fenv \<Rightarrow> (cstring \<times> farg list) list \<Rightarrow> fw \<Rightarrow> fw outcome" where
  "write_all e [] w = Ret w"
| "write_all e (x # xs) w = obind (fw_write e w (fst x) (snd x)) (write_all e xs)"

definition refresh_page :: "cstring option \<Rightarrow> cstring option \<Rightarrow> string \<Rightarrow> (cstring \<times> farg list) list" where
  "refresh_page langType lan_ip msg =
     [(lit ''HTTP/1.0 200 OK'' @ [NEWLINE], []), (lit ''Server: %s'' @ [CR, NEWLINE], [AStr (Some (lit ''GoAhead-Webs''))]),
      (lit ''Pragma: no-cache'' @ [NEWLINE], []), (lit ''Cache-control: no-cache'' @ [NEWLINE], []),
      (lit ''Content-Type: text/html'' @ [NEWLINE], []), ([NEWLINE], []), (lit ''<html>'' @ NEWLINE # lit ''<head>'' @ [NEWLINE], []),
      (lit ''<title>My Title</title>'' @ [NEWLINE], []),
      (lit ''<link rel=\"stylesheet\" href=\"/style/normal_ws.css\" type=\"text/css\">'' @ [NEWLINE], []),
      (lit ''<meta http-equiv=\"content-type\" content=\"text/html;charset=utf-8\">'' @ [NEWLINE], []),
      (lit ''<script language=\"javascript\" src=\"../js/language_%s.js\"></script>'' @ [NEWLINE], [AStr langType]),
      (refresh_script, [AStr lan_ip]), (lit ''</head>'' @ NEWLINE # lit ''<body onload=\"update()\">'' @ [NEWLINE], []),
      (lit ''<blockquote>'' @ [NEWLINE], []), (lit ''<br><b><script>dw('' @ lit msg @ lit '')</script></b>'' @ [NEWLINE], []),
      (lit ''</blockquote>'' @ [NEWLINE], []), (lit ''</body>'' @ NEWLINE # lit ''</html>'' @ [NEWLINE], [])]"

definition RebootSystem :: "fenv \<Rightarrow> fw \<Rightarrow> fw outcome" where
  "RebootSystem e w =
     obind (fw_get e w ''lan_ipaddr'') (\<lambda>(lan_ip, w).
     obind (fw_get e w ''LanguageType'') (\<lambda>(langType, w).
     obind (write_all e (refresh_page langType lan_ip ''MM_reboot_system'') w) (\<lambda>w.
     Ret (run_system (lit ''reboot'') w))))"

text \<open>The directory of each mount is read into an array of 13 bytes; the loop ends at the first USB disk, and otherwise leaves the last
  directory, or what was in the array.\<close>

fun mount_loop :: "cstring list \<Rightarrow> byte list \<Rightarrow> byte list outcome" where
  "mount_loop [] dir = Ret dir"
| "mount_loop (m # ms) dir =
     (if length dir \<le> length m then Fault
      else let dir = patch dir 0 (m @ [NUL]) in
        if take 10 dir = lit ''/media/sda'' then Ret dir else mount_loop ms dir)"

definition LoadDefaultSettings :: "fenv \<Rightarrow> proc \<Rightarrow> fw \<Rightarrow> fw outcome" where
  "LoadDefaultSettings e pr w =
     obind (fw_get e w ''LanguageType'') (\<lambda>(langType, w).
     obind (mount_loop (pr_mounts pr) (fresh (u_heap (fe_u e)) 13)) (\<lambda>dir.
     if NUL \<notin> set dir then Fault
     else
     obind (doSystem e w (lit ''rm -rf %s/.smb_config'') [AStr (Some (cstr dir))]) (\<lambda>w.
     let w = run_system (lit ''rm -f /tmp/apcliStatus'')
         (run_system (lit ''ralink_init renew 2860 /etc_ro/Wireless/RT2860AP/RT2860_default_vlan'')
         (run_system (lit ''ralink_init clear 2860'') w)) in
     obind (fw_get e w ''lan_ipaddr'') (\<lambda>(lan_ip, w).
     obind (write_all e (refresh_page langType lan_ip ''MM_load_factory'') w) (\<lambda>w.
     Ret (run_system (lit ''reboot'') w))))))"

definition clearlog :: "fenv \<Rightarrow> query \<Rightarrow> fw \<Rightarrow> fw outcome" where
  "clearlog e q w =
     obind (run_all e [(''killall -q klogd'', []), (''killall -q syslogd'', []), (''syslogd -C8 1>/dev/null 2>&1'', []), (''klogd 1>/dev/null 2>&1'', [])] w) (\<lambda>w.
     Ret (answer (Redirect (form_var q ''submit-url'' '''')) w))"

abbreviation LOG_MAX :: nat where "LOG_MAX \<equiv> 16384"

text \<open>Up to \<open>LOG_MAX\<close> bytes are read into an array of that length, which has a terminator only when there were fewer.\<close>

definition syslog :: "fenv \<Rightarrow> proc \<Rightarrow> fw \<Rightarrow> fw outcome" where
  "syslog e pr w =
     obind (fw_write e w plain_header []) (\<lambda>w.
     obind (case pr_logread pr of
         None \<Rightarrow> fw_write e w (lit ''-1'') []
       | Some out \<Rightarrow>
           if \<not> kmalloc_ok (u_heap (fe_u e)) LOG_MAX then fw_write e w (lit ''-1'') []
           else let log = take LOG_MAX (out @ replicate LOG_MAX NUL) in
             if NUL \<notin> set log then Fault
             else obind (websLongWrite (fe_u e) (fweb w) (cstr log)) (\<lambda>x. Ret (w\<lparr>fweb := x\<rparr>))) (\<lambda>w.
     Ret (answer (Done 200) w)))"

definition management_fini :: "fenv \<Rightarrow> fw \<Rightarrow> fw outcome" where
  "management_fini e = run_all e [(''killall -q klogd'', []), (''killall -q syslogd'', [])]"

text \<open>Whether the firmware has changed since an upload (\<open>FirmwareUpgradePostASP\<close>): \<open>version\<close> is the text of \<open>/proc/version\<close>.\<close>

definition FirmwareUpgradePostASP :: "fenv \<Rightarrow> byte list option \<Rightarrow> fw \<Rightarrow> fw outcome" where
  "FirmwareUpgradePostASP e version w =
     obind (fw_get e w ''old_firmware'') (\<lambda>(old_firmware, w).
     if \<not> given old_firmware then Ret w
     else case version of
       None \<Rightarrow> Ret w
     | Some file \<Rightarrow>
         (case fgets 512 file of
            None \<Rightarrow> Fault
          | Some (buf, _) \<Rightarrow>
              obind (fw_write e w (if cstr buf = the old_firmware then lit ''alert(\"Warning!The firmware didn't change.\");''
                                   else lit ''alert(\"Firmware Upgrade success\");'') []) (\<lambda>w.
              obind (fw_bufset e w ''old_firmware'' []) (\<lambda>w.
              fw_commit e w))))"

definition management_forms :: "proc \<Rightarrow> (string \<times> form) list" where
  "management_forms pr =
     [(''setSysAdm'', \<lambda>e q qs. setSysAdm e q), (''setSysLang'', fw_form setSysLang), (''NTP'', fw_form NTP),
      (''NTPSyncWithHost'', \<lambda>e q qs. fw_form (\<lambda>e q. NTPSyncWithHost e qs) e q qs),
      (''SystemCommand'', SystemCommand), (''repeatLastSystemCommand'', repeatLastSystemCommand),
      (''LoadDefaultSettings'', fw_form (\<lambda>e q. LoadDefaultSettings e pr)), (''RebootSystem'', fw_form (\<lambda>e q. RebootSystem e)),
      (''syslog'', fw_form (\<lambda>e q. syslog e pr))] @ (if pr_klogd pr then [(''clearlog'', fw_form clearlog)] else [])"

definition formDefineManagement :: "proc \<Rightarrow> (cstring \<Rightarrow> form option) \<Rightarrow> cstring \<Rightarrow> form option" where
  "formDefineManagement pr = define_all (management_forms pr)"

section \<open>A request from its URL to its form\<close>

text \<open>\<open>websUrlHandlerRequest\<close> sets the variables of the request when the first handler matches; the security handler, which is first in the list and has
  no prefix, always does.\<close>

definition websRespond :: "senv \<Rightarrow> cgi_env \<Rightarrow> (cstring \<Rightarrow> form option) \<Rightarrow> vars \<Rightarrow> webs \<Rightarrow> server \<Rightarrow> server option outcome" where
  "websRespond e ce tab tp wp s =
     obind (websSetEnv (se_heap e) ce (wp_path (condensed wp)) (wp_query wp) tp) (\<lambda>tp.
     websServe e tab (request_query tp) wp s)"

section \<open>URLs with a query\<close>

declare lit_Cons [simp del]

lemma decode_plain_append:
  "PLUS \<notin> set a \<Longrightarrow> PERCENT \<notin> set a \<Longrightarrow> length a \<le> n \<Longrightarrow> decode_loop (a @ b) n = a @ decode_loop b (n - length a)"
proof (induction a arbitrary: n)
  case (Cons c a)
  then obtain m where "n = Suc m" by (cases n) auto
  then show ?case using Cons by auto
qed simp

lemma length_encode_text: "length s \<le> length (encode_text s)"
  unfolding encode_text_def by (induction s) (auto simp: url_byte_def)

lemma decode_after_plain:
  assumes "PLUS \<notin> set a" and "PERCENT \<notin> set a" and "NUL \<notin> set a" and "is_cstring b"
  shows "websDecodeUrl (a @ encode_text b) (length (a @ encode_text b)) = a @ b"
proof -
  have "decode_loop (encode_text b) (length (encode_text b)) = b"
    unfolding encode_text_def by (rule decode_encoded) (rule length_encode_text [unfolded encode_text_def])
  moreover have "cstr (a @ b) = a @ b" using assms(3,4) by (intro cstr_whole) (auto simp: is_cstring_def)
  ultimately show ?thesis using decode_plain_append [OF assms(1,2), of "length (a @ encode_text b)"] by (simp add: websDecodeUrl_def)
qed

lemma parse_query:
  assumes "\<And>n. kmalloc_ok h n" and "plain_url path" and "\<not> strneq (path @ QMARK # key @ b) (lit ''http://'') 7" and "\<not> is_sep (last path)"
    and "plain_url key" and "is_cstring b" and "HASH \<notin> set b" and "key \<noteq> []"
  shows "websUrlParse h (path @ QMARK # key @ encode_text b) = Ret (Some (path, key @ b, snd (url_ext path)))"
proof -
  let ?url = "path @ QMARK # key @ encode_text b"
  have d: "websDecodeUrl ?url (length ?url) = path @ QMARK # key @ b"
    using decode_after_plain [of "path @ QMARK # key" b] assms(2,5,6) by (simp add: plain_url_def)
  have q: "split_at QMARK (path @ QMARK # key @ b) = Some (path, key @ b)"
    using assms(2) by (simp add: split_at_def plain_url_def takeWhile_tail dropWhile_append dropWhile_eq_Nil_conv)
  have "split_at HASH (key @ b) = None" using assms(5,7) by (auto simp: split_at_def plain_url_def)
  then show ?thesis
    unfolding websUrlParse_def Let_def d using assms(1,3,8) q url_ext_kept [OF assms(4)] by (simp add: case_prod_beta)
qed

section \<open>Commands\<close>

lemma formDefineManagement_SystemCommand: "formDefineManagement pr tab (lit ''SystemCommand'') = Some SystemCommand"
  by (simp add: formDefineManagement_def define_all_def websFormDefine_def management_forms_def)

definition logged :: "cstring \<Rightarrow> cstring" where
  "logged c = c @ lit '' 1>/var/system_command.log 2>&1''"

lemma SystemCommand_runs:
  assumes ok: "fw_ok e (sv_fw s)" and c: "form_var q ''command'' '''' = c" "c \<noteq> []" "is_cstring c" "PERCENT \<notin> set c" "length c \<le> 900"
  shows "\<exists>s'. SystemCommand e q qs s = Ret s' \<and> fcmds (sv_fw s') = fcmds (sv_fw s) @ [logged c] \<and> sv_command s' = logged c
    \<and> sv_um s' = sv_um s \<and> sv_handlers s' = sv_handlers s \<and> fw_ok e (sv_fw s') \<and> cfg (sv_fw s') = cfg (sv_fw s)"
proof -
  have l: "length (logged c) \<le> 940" "is_cstring (logged c)" "PERCENT \<notin> set (logged c)" "logged c \<noteq> []"
    using c by (simp_all add: logged_def lit_Cons)
  have cmd: "take (COMMAND_MAX - 1) (c @ lit '' 1>'' @ SYSTEM_COMMAND_LOG @ lit '' 2>&1'') = logged c"
    using l(1) by (simp add: logged_def SYSTEM_COMMAND_LOG_def lit_Cons)
  obtain w where w: "doSystem e (sv_fw s) (logged c) [] = Ret w" "issued e (sv_fw s) [take 959 (logged c)] w"
    by (rule doSystem_issued [OF ok render_plain [OF l(3)] l(2)])
  have "take 959 (logged c) = logged c" using l(1) by simp
  then show ?thesis using w cmd c l(4) by (auto simp: SystemCommand_def Let_def issued_def)
qed

lemma encode_command: "encode_query [(lit ''command'', c)] = lit ''command='' @ encode_text c"
proof -
  have "encode_text (lit ''command'') = lit ''command''" by code_simp
  then show ?thesis by (simp add: encode_query_def encode_pair_def lit_Cons)
qed

lemma encode_text_chars: "x \<in> set (encode_text s) \<Longrightarrow> isalpha x \<or> isdigit x \<or> x = PERCENT"
proof -
  have h: "list_all (\<lambda>n. isalpha (hex_digit n) \<or> isdigit (hex_digit n)) [0..<16]" by code_simp
  have "unat c < 256" for c :: byte using unsigned_less [of c] by simp
  then have "unat c div 16 < 16" "unat c mod 16 < 16" for c :: byte by (simp_all add: less_mult_imp_div_less)
  then show "x \<in> set (encode_text s) \<Longrightarrow> isalpha x \<or> isdigit x \<or> x = PERCENT"
    using h by (auto simp: encode_text_def url_byte_def list_all_iff split: if_splits)
qed

lemma encode_text_safe: "NUL \<notin> set (encode_text s)" "HASH \<notin> set (encode_text s)"
  using encode_text_chars [of NUL s] encode_text_chars [of HASH s] by (auto simp: isalpha_def isdigit_def tolower_def)

definition APP_PATH :: cstring where
  "APP_PATH = lit ''/goform/SystemCommand/goform/App''"

lemma app_request:
  assumes "\<And>n. kmalloc_ok h n"
  obtains wp where "websRequest h (APP_PATH @ lit ''?command='' @ encode_text (encode_text c)) None False secure = Ret (Some wp)"
    "wp_path wp = APP_PATH" "wp_query wp = encode_query [(lit ''command'', c)]"
proof -
  have path: "plain_url APP_PATH" "\<not> is_sep (last APP_PATH)" "plain_url (lit ''command='')" "lit ''command='' \<noteq> []"
    by (simp_all add: APP_PATH_def plain_url_def is_sep_def lit_Cons)
  have http: "\<not> strneq (APP_PATH @ x) (lit ''http://'') 7" for x using from_slash_scan [of SLASH] by (simp add: APP_PATH_def lit_Cons)
  have url: "APP_PATH @ lit ''?command='' @ encode_text (encode_text c) = APP_PATH @ QMARK # lit ''command='' @ encode_text (encode_text c)"
    by (simp add: lit_Cons)
  have "is_cstring (encode_text c)" using encode_text_safe(1) [of c] by (simp add: is_cstring_def)
  note p = parse_query [OF assms path(1) http path(2,3) this encode_text_safe(2) path(4)]
  let ?wp = "\<lparr>wp_url = APP_PATH @ QMARK # lit ''command='' @ encode_text (encode_text c), wp_path = APP_PATH,
    wp_query = lit ''command='' @ encode_text c, wp_userName = None, wp_password = None, wp_local = False, wp_secure = secure\<rparr>"
  have "websRequest h (APP_PATH @ lit ''?command='' @ encode_text (encode_text c)) None False secure = Ret (Some ?wp)"
    unfolding url websRequest_def p by simp
  then show thesis by (rule that) (simp_all add: encode_command)
qed

text \<open>C5: a command for everyone. The URL \<open>/goform/SystemCommand/goform/App?command=\<close> followed by an encoded command makes the server run the command with
  its rights, as it stands, for a request without credentials and from any address, whatever users and access limits there are. The command may
  have any bytes but percent signs and NUL.\<close>

theorem command_without_password:
  assumes "fw_ok (se_fw e) (sv_fw s)" and "um_ok (sv_um s)" and "sv_handlers s = std_handlers" and "symtab_ok tp" and "\<not> websTestVar tp (Some (lit ''command''))"
    and "c \<noteq> []" and "is_cstring c" and "PERCENT \<notin> set c" and "length c \<le> 900"
  shows "\<exists>wp s'. websRequest (se_heap e) (APP_PATH @ lit ''?command='' @ encode_text (encode_text c)) None False secure = Ret (Some wp)
    \<and> websRespond e ce (formDefineManagement pr tab) tp wp s = Ret (Some s') \<and> fcmds (sv_fw s') = fcmds (sv_fw s) @ [logged c]"
proof -
  have heap: "\<And>n. kmalloc_ok (se_heap e) n" using fw_ok_user [OF assms(1)] by (simp add: user_ok_def)
  obtain wp where wp: "websRequest (se_heap e) (APP_PATH @ lit ''?command='' @ encode_text (encode_text c)) None False secure = Ret (Some wp)"
    "wp_path wp = APP_PATH" "wp_query wp = encode_query [(lit ''command'', c)]" by (rule app_request [OF heap])
  have v: "\<forall>kv \<in> set [(lit ''command'', c)]. fst kv \<noteq> [] \<and> is_cstring (fst kv) \<and> is_cstring (snd kv)" "lit ''command'' \<notin> lit ` set std_names"
    using assms(7) by (auto simp: std_names_def) (simp_all add: lit_Cons)
  have fresh: "symLookup tp (lit ''command'') = None" using assms(5) by (simp add: websTestVar_def)
  then have old: "vars_cstring (fst ` set [(lit ''command'', c)]) tp" "websGetVar (request_query tp) (lit ''command'') None = None"
    by (simp_all add: vars_cstring_def websGetVar_def request_query_def)
  obtain tp' where tp': "websSetEnv (se_heap e) ce (wp_path (condensed wp)) (wp_query wp) tp = Ret tp'"
    "\<And>d. websGetVar (request_query tp') (lit ''command'') d = Some c"
    using websSetEnv_ok [OF heap assms(4) old(1) _ v(1), of ce "wp_path (condensed wp)"] v(2) old(2) unfolding wp(3) by (auto simp: sent_def)
  have f: "SLASH \<notin> set (lit ''SystemCommand'')" "NUL \<notin> set (lit ''SystemCommand'')" "lit ''SystemCommand'' \<noteq> []" "length (lit ''SystemCommand'') \<le> 200"
    by (simp_all add: lit_Cons)
  have path: "wp_path wp = lit ''/goform/'' @ lit ''SystemCommand'' @ lit ''/goform/App''" by (simp add: wp(2) APP_PATH_def lit_Cons)
  have "form_var (request_query tp') ''command'' '''' = c" by (simp add: form_var_def tp'(2))
  from SystemCommand_runs [OF assms(1) this assms(6-9)] obtain s' where
    s': "SystemCommand (se_fw e) (request_query tp') (wp_query wp) s = Ret s'" "fcmds (sv_fw s') = fcmds (sv_fw s) @ [logged c]" by blast
  have "websRespond e ce (formDefineManagement pr tab) tp wp s = Ret (Some s')"
    using form_served [OF heap assms(2,3) f path] s'(1) tp'(1) by (simp add: websRespond_def websFormRun_def formDefineManagement_SystemCommand)
  then show ?thesis using wp(1) s'(2) by blast
qed

theorem command_without_password_witness:
  "\<exists>s wp s'. adm_inv demo_fenv s
    \<and> websRequest (se_heap demo_senv) (lit ''/goform/SystemCommand/goform/App?command=telnetd%2520%252Dl%2520%252Fbin%252Fsh'') None False False = Ret (Some wp)
    \<and> websRespond demo_senv \<lparr>ce_host = [], ce_hostUrl = None, ce_ipaddr = [], ce_ifaddr = [], ce_port = 80, ce_protoVersion = []\<rparr>
        (formDefineManagement \<lparr>pr_mounts = [], pr_logread = None, pr_klogd = False\<rparr> Map.empty) [[]] wp s = Ret (Some s')
    \<and> fcmds (sv_fw s') = fcmds (sv_fw s) @ [lit ''telnetd -l /bin/sh 1>/var/system_command.log 2>&1'']"
proof -
  let ?c = "lit ''telnetd -l /bin/sh''"
  obtain w s where s: "adm_inv demo_fenv s" by (rule demo_started)
  then have i: "fw_ok (se_fw demo_senv) (sv_fw s)" "um_ok (sv_um s)" "sv_handlers s = std_handlers" by (simp_all add: adm_inv_def demo_senv_def)
  have t: "symtab_ok ([[]] :: vars)" "\<not> websTestVar [[]] (Some (lit ''command''))"
    by (simp_all add: symtab_ok_def websTestVar_def symLookup_def hashIndex_def)
  have c: "?c \<noteq> []" "is_cstring ?c" "PERCENT \<notin> set ?c" "length ?c \<le> 900" by (simp_all add: lit_Cons)
  have u: "APP_PATH @ lit ''?command='' @ encode_text (encode_text ?c) = lit ''/goform/SystemCommand/goform/App?command=telnetd%2520%252Dl%2520%252Fbin%252Fsh''"
    by code_simp
  have l: "logged ?c = lit ''telnetd -l /bin/sh 1>/var/system_command.log 2>&1''" by code_simp
  from command_without_password [OF i t c] s show ?thesis unfolding u l by blast
qed

section \<open>Time settings\<close>

text \<open>Several settings one after the other.\<close>

primrec bufset_all :: "fenv \<Rightarrow> (string \<times> cstring) list \<Rightarrow> fw \<Rightarrow> fw outcome" where
  "bufset_all e [] w = Ret w"
| "bufset_all e (nv # nvs) w = obind (fw_bufset e w (fst nv) (snd nv)) (bufset_all e nvs)"

definition with_settings :: "(string \<times> cstring) list \<Rightarrow> (cstring \<times> cstring) list \<Rightarrow> (cstring \<times> cstring) list" where
  "with_settings nvs kvs = fold (\<lambda>(n, v). AList.update (lit n) v) nvs kvs"

lemma length_with_settings: "length kvs \<le> length (with_settings nvs kvs)"
proof (induction nvs arbitrary: kvs)
  case (Cons nv nvs)
  have "length kvs \<le> length (AList.update (lit (fst nv)) (snd nv) kvs)" by (simp add: length_update)
  also have "\<dots> \<le> length (with_settings (nv # nvs) kvs)" using Cons.IH by (simp add: with_settings_def case_prod_beta)
  finally show ?case .
qed (simp add: with_settings_def)

lemma bufset_all_ok:
  "fw_ok e w \<Longrightarrow> length (with_settings nvs (cfg w)) \<le> MAX_CACHE_ENTRY \<Longrightarrow> \<forall>nv \<in> set nvs. is_cstring (snd nv) \<and> length (snd nv) < MAX_VALUE_LEN \<Longrightarrow>
    \<exists>w'. bufset_all e nvs w = Ret w' \<and> fw_ok e w' \<and> cfg w' = with_settings nvs (cfg w) \<and> other_cfg w' = other_cfg w
      \<and> page (fweb w') = page (fweb w) \<and> freply w' = freply w \<and> fcmds w' = fcmds w"
proof (induction nvs arbitrary: w)
  case (Cons nv nvs)
  obtain n v where nv: "nv = (n, v)" by (cases nv)
  let ?kvs = "AList.update (lit n) v (cfg w)"
  have step: "with_settings (nv # nvs) (cfg w) = with_settings nvs ?kvs" by (simp add: with_settings_def nv)
  have "length ?kvs \<le> MAX_CACHE_ENTRY" using length_with_settings [of ?kvs nvs] Cons.prems(2) by (simp add: step)
  then obtain w1 where w1: "fw_bufset e w n v = Ret w1" "fw_ok e w1" "cfg w1 = ?kvs" "other_cfg w1 = other_cfg w"
    "page (fweb w1) = page (fweb w)" "freply w1 = freply w" "fcmds w1 = fcmds w"
    using fw_bufset_ok [OF Cons.prems(1) refl, of n v] Cons.prems(3) by (auto simp: nv)
  have "\<exists>w'. bufset_all e nvs w1 = Ret w' \<and> fw_ok e w' \<and> cfg w' = with_settings nvs (cfg w1) \<and> other_cfg w' = other_cfg w1
      \<and> page (fweb w') = page (fweb w1) \<and> freply w' = freply w1 \<and> fcmds w' = fcmds w1"
    by (rule Cons.IH) (use w1(2,3) Cons.prems(2,3) in \<open>auto simp: step\<close>)
  then show ?case unfolding step using w1 by (auto simp: nv)
qed (simp add: with_settings_def)

definition ntp_ok :: "cstring \<Rightarrow> cstring \<Rightarrow> cstring \<Rightarrow> bool" where
  "ntp_ok tz ntpServer ntpSync = (tz \<noteq> [] \<and> SEMI \<notin> set tz \<and> (ntpServer = [] \<or> SEMI \<notin> set ntpServer \<and> ntpSync \<noteq> [] \<and> atoi ntpSync \<le> 300))"

definition ntp_values :: "cstring \<Rightarrow> cstring \<Rightarrow> cstring \<Rightarrow> (string \<times> cstring) list" where
  "ntp_values tz ntpServer ntpSync = [(''NTPServerIP'', ntpServer), (''NTPSync'', if ntpServer = [] then [] else ntpSync), (''TZ'', tz)]"

lemma has_semicolon_iff: "is_cstring s \<Longrightarrow> has_semicolon s \<longleftrightarrow> SEMI \<in> set s"
proof (cases "SEMI \<in> set s")
  case True
  assume c: "is_cstring s"
  then obtain a b where "s = a @ SEMI # b" "SEMI \<notin> set a" using True by (meson split_list_first)
  then show ?thesis using strchr_take_hit [of SEMI a "b @ [NUL]"] c by (auto simp: has_semicolon_def checkSemicolon_def is_cstring_def)
next
  case False
  assume c: "is_cstring s"
  then show ?thesis using False strchr_miss [of s SEMI "[]"] by (simp add: has_semicolon_def checkSemicolon_def)
qed

lemma NTP_steps:
  assumes v: "form_var q ''time_zone'' '''' = tz" "form_var q ''NTPServerIP'' '''' = ns" "form_var q ''NTPSync'' '''' = sy" and ok: "ntp_ok tz ns sy"
    and c: "is_cstring tz" "is_cstring ns"
  shows "NTP e q w = obind (bufset_all e (ntp_values tz ns sy) w) (\<lambda>w. obind (fw_commit e w) (\<lambda>w.
    obind (doSystem e w (lit ''ntp.sh'') []) (\<lambda>w. Ret (answer (Redirect (form_var q ''submit-url'' '''')) w))))"
proof -
  have o: "obind (obind m (\<lambda>w. Ret (Some w))) (\<lambda>r. case r of None \<Rightarrow> x | Some w \<Rightarrow> f w) = obind m f" for m x :: "fw outcome" and f :: "fw \<Rightarrow> fw outcome"
    by (cases m) simp_all
  have a: "obind (obind m f) g = obind m (\<lambda>x. obind (f x) g)" for m :: "fw outcome" and f g :: "fw \<Rightarrow> fw outcome" by (cases m) simp_all
  have s: "obind (obind m (\<lambda>w. obind (f w) (\<lambda>w. Ret (Some w)))) (\<lambda>r. case r of None \<Rightarrow> x | Some w \<Rightarrow> g w) = obind m (\<lambda>w. obind (f w) g)"
    for m x :: "fw outcome" and f g :: "fw \<Rightarrow> fw outcome" by (cases m) (simp_all add: o)
  show ?thesis
    using ok unfolding NTP_def Let_def v by (auto simp: ntp_ok_def ntp_values_def has_semicolon_iff [OF c(1)] has_semicolon_iff [OF c(2)] s a)
qed

text \<open>C24: the time form. A request with a time zone, and with a server and an interval up to 300 when there is a server, stores the three settings in
  memory and on the flash, an empty server with an empty interval, runs \<open>ntp.sh\<close> and answers with the redirection. A value with a
  semicolon, no time zone, or a server without a good interval is refused: nothing changes and there is no answer.\<close>

theorem NTP_stores:
  assumes "fw_ok e w" and "form_var q ''time_zone'' '''' = tz" and "form_var q ''NTPServerIP'' '''' = ns" and "form_var q ''NTPSync'' '''' = sy"
    and "list_all (\<lambda>v. is_cstring v \<and> length v < MAX_VALUE_LEN) [tz, ns, sy]" and "fits (with_settings (ntp_values tz ns sy) (cfg w))"
  shows "if ntp_ok tz ns sy
    then \<exists>w'. NTP e q w = Ret w' \<and> fw_ok e w' \<and> cfg w' = with_settings (ntp_values tz ns sy) (cfg w)
      \<and> stored_cfg w' = Some (with_settings (ntp_values tz ns sy) (cfg w)) \<and> other_cfg w' = other_cfg w
      \<and> fcmds w' = fcmds w @ [lit ''ntp.sh''] \<and> freply w' = freply w @ [Redirect (form_var q ''submit-url'' '''')]
    else NTP e q w = Ret w"
proof (cases "ntp_ok tz ns sy")
  case True
  have c: "is_cstring tz" "is_cstring ns" using assms(5) by simp_all
  have "\<forall>nv \<in> set (ntp_values tz ns sy). is_cstring (snd nv) \<and> length (snd nv) < MAX_VALUE_LEN" using assms(5) by (auto simp: ntp_values_def)
  with bufset_all_ok [OF assms(1)] assms(6) obtain w1 where w1: "bufset_all e (ntp_values tz ns sy) w = Ret w1" "fw_ok e w1"
    "cfg w1 = with_settings (ntp_values tz ns sy) (cfg w)" "other_cfg w1 = other_cfg w" "freply w1 = freply w" "fcmds w1 = fcmds w"
    unfolding fits_def by blast
  obtain w2 where w2: "fw_commit e w1 = Ret w2" "became e w1 (cfg w1) w2" using fw_commit_ok [OF w1(2)] assms(6) w1(3) by auto
  have n: "render (lit ''ntp.sh'') [] = Some (lit ''ntp.sh'')" "is_cstring (lit ''ntp.sh'')" "take 959 (lit ''ntp.sh'') = lit ''ntp.sh''" by (simp_all add: lit_Cons)
  have "fw_ok e w2" using w2(2) by (simp add: became_def)
  from doSystem_issued [OF this n(1,2), unfolded n(3)] obtain w3 where w3: "doSystem e w2 (lit ''ntp.sh'') [] = Ret w3" "issued e w2 [lit ''ntp.sh''] w3" by blast
  have "NTP e q w = Ret (answer (Redirect (form_var q ''submit-url'' '''')) w3)"
    unfolding NTP_steps [OF assms(2-4) True c] w1(1) obind.simps w2(1) w3(1) ..
  then show ?thesis using True w1 w2(2) w3(2) by (simp add: became_def issued_def) (simp add: answer_def)
next
  case False
  have c: "is_cstring tz" "is_cstring ns" using assms(5) by simp_all
  have "NTP e q w = Ret w" using False unfolding NTP_def Let_def assms(2-4) has_semicolon_iff [OF c(1)] has_semicolon_iff [OF c(2)] by (auto simp: ntp_ok_def)
  then show ?thesis using False by simp
qed

definition ntp_query :: query where
  "ntp_query = [lit ''time_zone'' \<mapsto> Some (lit ''UTC_000''), lit ''NTPServerIP'' \<mapsto> Some (lit ''ntp.org''), lit ''NTPSync'' \<mapsto> Some (lit ''8'')]"

theorem NTP_stores_witness:
  "\<exists>w w'. cfg w = demo_adm \<and> NTP demo_fenv ntp_query w = Ret w' \<and> fcmds w' = fcmds w @ [lit ''ntp.sh'']
    \<and> stored_cfg w' = Some (demo_adm @ [(lit ''NTPServerIP'', lit ''ntp.org''), (lit ''NTPSync'', lit ''8''), (lit ''TZ'', lit ''UTC_000'')])"
proof -
  obtain w where w: "fw_ok demo_fenv w" "cfg w = demo_adm" by (rule demo_adm_state)
  have q: "form_var ntp_query ''time_zone'' '''' = lit ''UTC_000''" "form_var ntp_query ''NTPServerIP'' '''' = lit ''ntp.org''"
    "form_var ntp_query ''NTPSync'' '''' = lit ''8''" by (simp_all add: form_var_def websGetVar_def ntp_query_def)
  have ok: "ntp_ok (lit ''UTC_000'') (lit ''ntp.org'') (lit ''8'')" by code_simp
  have ne: "lit ''ntp.org'' \<noteq> []" by (simp add: lit_Cons)
  have kvs: "with_settings (ntp_values (lit ''UTC_000'') (lit ''ntp.org'') (lit ''8'')) (cfg w)
      = demo_adm @ [(lit ''NTPServerIP'', lit ''ntp.org''), (lit ''NTPSync'', lit ''8''), (lit ''TZ'', lit ''UTC_000'')]"
    using ne by (simp add: w(2) with_settings_def ntp_values_def demo_adm_def)
  have f: "fits (demo_adm @ [(lit ''NTPServerIP'', lit ''ntp.org''), (lit ''NTPSync'', lit ''8''), (lit ''TZ'', lit ''UTC_000'')])"
    by (simp add: fits_def storable_def layout_def kv_ok_def demo_adm_def; simp add: lit_Cons)
  have l: "list_all (\<lambda>v. is_cstring v \<and> length v < MAX_VALUE_LEN) [lit ''UTC_000'', lit ''ntp.org'', lit ''8'']" by (simp add: lit_Cons)
  show ?thesis using NTP_stores [OF w(1) q l, unfolded kvs, OF f] ok w(2) by auto
qed

end
