(* ===== verification/Spec2Isabelle.thy ===== *)
theory Spec2Isabelle
  imports LibFlash ToolMain FwPages Management
begin

text \<open>
  Verification of the configuration store of a Ralink RT5350 router (\<open>src/lktos_sdk/source\<close>) and
  of the programs that read and write it. Paths below are relative to that directory.

  \<^bold>\<open>The system.\<close> All settings of the router are name/value pairs in four environment blocks in the
  flash partition \<open>Config\<close>, each a CRC-32 followed by NUL-terminated \<open>name=value\<close> strings. The kernel
  module (\<open>linux-2.6.21.x/arch/mips/rt2880/nvram.c\<close>) mirrors the blocks in memory, answers ioctl
  requests on \<open>/dev/nvram\<close>, and writes a block back through \<open>ra_mtd_write_nm\<close>
  (\<open>drivers/mtd/maps/ralink-flash.c\<close>) and the SPI flash driver (\<open>drivers/mtd/ralink/ralink_spi.c\<close>). The
  user library (\<open>lib/libnvram/nvram_env.c\<close>) keeps a second cache per process in front of the
  module or, built without it, reads and writes the flash itself through \<open>flash_api.c\<close> and the MTD
  character device. The command-line tool (\<open>user/rt2880_app/nvram/ralink_init.c\<close>) gets, sets and
  lists settings, loads a default configuration, generates the wireless driver's configuration
  and checks a device key. The web server (\<open>user/goahead/src_tongyong\<close>) shows and edits the
  settings in pages, several values of one setting in one string with separators. Its firewall
  (\<open>firewall.c\<close>) keeps the rules in such settings, turns them into \<open>iptables\<close> commands at the start of
  the router and after each form, and shows them as tables. A request comes in as the text of a URL; the server
  splits and decodes it, reads the name and password of its header, asks the security handler, which
  looks them up in the tables of the user management, and hands the request to a form, a
  CGI program or a file. One administrator is entered from the settings when the server starts.

  \<^bold>\<open>The theories\<close>, from the bottom up, with the code they translate:

  \<^item> \<open>Prelude\<close>: bytes, C strings, the type \<open>outcome\<close> of a C call (a value, a memory fault, or a call
    that waits for ever), buffers, \<open>strchr\<close>. \<open>CText\<close>: \<open>fgets\<close>, \<open>atoi\<close>, number formats.
  \<^item> \<open>CrcCore\<close>, \<open>Crc32\<close>, \<open>Crc16\<close>: the reflected CRC as a locale \<open>reflected_crc\<close> over any width,
    interpreted on the CRC-32 of \<open>lib/libnvram/crc32.c\<close> and of the kernel module and on the CRC-16
    of the tool. The table-driven, unrolled code equals the shift register, both literal tables are
    what \<open>make_crc_table\<close> generates, and damage within four bytes is detected.
  \<^item> \<open>SpiFlash\<close>: the chip and \<open>ramtd_erase\<close>, \<open>ramtd_read\<close>, \<open>ramtd_write\<close> with the partition wrappers
    of \<open>mtdpart.c\<close>. \<open>RaMtd\<close>: access by partition name. \<open>FlashApi\<close>: \<open>mtdchar.c\<close> and \<open>flash_api.c\<close>.
    Each write is shown to change exactly the bytes it is given: the contract is the locale
    \<open>block_store\<close>, interpreted on the kernel's and on the library's functions.
  \<^item> \<open>EnvBlock\<close>: the cache array and the block text; building and parsing are inverse to each other.
    \<open>KernelNvram\<close>: the module, every operation with its semaphore, allocation failures and range
    checks. \<open>KernelSpec\<close>: the abstract store (a volatile and a persistent list per block), the
    refinement of every operation, the reachable states (\<open>nv_run\<close>) with their invariant, that no
    request waits for ever while memory lasts, and the cases in which the module fails: a list too long for its block, a cleared
    block at the next start, and a load during a shortage of memory, after which every request can wait for ever.
  \<^item> \<open>NvramApi\<close>: the contract of a store as the locale \<open>nvram_api\<close>, with the client lemmas.
    \<open>LibNvram\<close> and \<open>LibFlash\<close>: the two builds of the library. The kernel module and both builds are
    interpretations of the contract.
  \<^item> \<open>NvramTool\<close>, \<open>GenConfig\<close>, \<open>RenewNvram\<close>, \<open>ToolMain\<close>: \<open>ralink_init.c\<close>: the get, set, show and key
    commands, \<open>gen_config\<close> (against the list of the names in the driver's file), \<open>renew_nvram\<close>, and \<open>main\<close> with its dispatch on the command name.
  \<^item> \<open>WebValues\<close>: the value lists of \<open>utils.c\<close>. \<open>WebFmt\<close>: the formatter \<open>dsnprintf\<close> of \<open>misc.c\<close> and
    \<open>websWrite\<close>. \<open>WebConfig\<close>: the script functions that show settings, \<open>STFs\<close> of \<open>wireless.c\<close> that
    updates one value of a list, long output, and escaping for display.
  \<^item> \<open>InetAddr\<close>: \<open>inet_aton\<close> and \<open>inet_ntoa\<close> (\<open>lib/libc/inet/addr.c\<close>) and the input checks of the firewall,
    against the usual notation of addresses.
  \<^item> \<open>FwBase\<close>: what the firewall rests on: request variables, shell commands, the WAN interface
    (\<open>internet.c\<close>), the loop over a rule list, commands put together in an array. \<open>FwRules\<close> and \<open>FwFilter\<close>:
    the functions that run the rules, each against a function from a rule to its commands.
    \<open>FwForms\<close>: the forms. \<open>FwUpdate\<close>: what adding and deleting rules does to the settings, the flash and
    the commands. \<open>FwSafety\<close>: the invariant of the filter rules, and the input that gets past the
    checks. \<open>FwInit\<close>: the commands of the start, all of them and in their order. \<open>FwPages\<close>: the tables
    of rules.
  \<^item> \<open>UserDb\<close>: the handle lists of \<open>h.c\<close> and the tables of \<open>emfdb.c\<close>. \<open>Users\<close>: the user management
    \<open>um.c\<close> with its masked passwords; every sequence of its operations refines an abstract directory of accounts, roles
    and limits, and its decisions are those of the directory.
  \<^item> \<open>WebUrl\<close>: decoding and splitting a URL (\<open>webs.c\<close>, \<open>url.c\<close>), the local file of a path (\<open>default.c\<close>), base 64
    (\<open>base64.c\<close>) and the credentials of a request. \<open>SymTab\<close>: the hash tables of \<open>sym.c\<close>, an interpretation of the
    locale \<open>symbols\<close>. \<open>WebVars\<close>: the variables of a request (\<open>webs.c\<close>); what a browser encodes once is what
    the form gets, values sent under one name joined.
  \<^item> \<open>WebServer\<close>: handlers and their order (\<open>handler.c\<close>), the security handler (\<open>security.c\<close>), forms by name (\<open>form.c\<close>), the
    start (\<open>goahead.c\<close>) and the form for the administrator. Who gets through is described exactly, with the two ways
    around the guard and the way to lock oneself out. \<open>Management\<close>: the other forms of \<open>management.c\<close>, and a request from the text of its URL to
    the command it runs.
  \<^item> This theory: what a command or a form stores survives a restart of the router, up to the
    \<open>iptables\<close> commands of the next start and to the requests that the next server lets through, and what
    the build with the kernel module stores the build without it reads back.

  \<^bold>\<open>State and operations.\<close> A struct is a record (\<open>block_t\<close>, \<open>cache_t\<close>, \<open>nvram_ioctl_t\<close>, \<open>mtd_part\<close>,
  \<open>strbuf\<close>, \<open>spi_chip\<close>) and the static variables of a program are the record it threads through its
  functions: \<open>knv\<close> of the module (with the flash device below it), \<open>lnv\<close> of a process using the
  library (with the kernel's state), \<open>world\<close> of a command (with its output and the file system),
  \<open>web\<close> of the web server, \<open>fw\<close> of its firewall (with the commands it has run and the replies it has
  sent), \<open>db\<close> of the user management, \<open>server\<close> of the whole server. One definition stands for one C function and keeps its name, with a
  prefix (\<open>lib_\<close>, \<open>fl_\<close>) where several builds of one function exist; a loop is a recursive function
  of its own. Error codes are the C values; undefined accesses are \<open>Fault\<close>, so every theorem with a
  \<open>Ret\<close> result also states that no buffer is overrun, and the theorems about \<open>Fault\<close> state the inputs
  on which one is.

  \<^bold>\<open>Bounds and fuel.\<close> No definition uses fuel: each loop has a measure (the rest of the string, the
  rest of the file, the distance to the end of the buffer), except the one of the filter page
  (\<open>filter_rows\<close>), which can run for ever: it is a partial function, and the theorem about it says when
  it ends. The polls of the chip's
  status register end with the counter of the code. The sizes are those of the sources: 4096-byte
  environment units, 500 cache entries, 20480-byte values, 64 KiB erase blocks, 256-byte pages.
  Machine words are \<open>word\<close> where bits or wrap-around matter (bytes, CRC registers, formatter
  arguments); offsets and lengths are \<open>nat\<close>, where the code's values stay far below the limits.

  \<^bold>\<open>Parameters.\<close> Not under \<open>src/\<close> or not software: which allocations succeed and what fresh memory
  contains (\<open>kheap\<close>), the answers of the SPI controller and of the status register (fields of \<open>spi_chip\<close>), the device nodes
  (\<open>uenv\<close>), the hardware address an interface reports and the files present (\<open>tenv\<close>, \<open>world\<close>), the
  address of an interface and the port of the server (\<open>fenv\<close>), the variables of a request (\<open>query\<close>, which \<open>WebVars\<close> computes from the
  query), which names are directories and the root of the pages (\<open>senv\<close>), mount points and log
  (\<open>proc\<close>). The
  hypotheses on them are named predicates (\<open>config_ok\<close>, \<open>user_ok\<close>, \<open>chip_ok\<close>, \<open>attachable\<close>, \<open>fw_ok\<close>), and the
  witnesses instantiate them with a concrete board.

  \<^bold>\<open>Not modelled.\<close> The rest of the Linux kernel, the C library and busybox, and the other programs of
  the tree are vendored code, of which the interfaces used here are translated. The wireless driver
  only reads the generated file. Of the web server the sockets with the reading of header lines, the
  script interpreter, its allocator (which allocations succeed is a parameter), CGI programs and the
  sending of files are left out; of \<open>firewall.c\<close> the descriptions of the layer 7 protocols, which come
  from files, and the packet counts, which come from the output of a program, are left out. The
  forms in \<open>internet.c\<close>, \<open>wireless.c\<close> and their siblings mostly run scripts and driver requests and are left
  out; of them \<open>STFs\<close> is modelled. Of \<open>management.c\<close> the wizard and DDNS, which set up the network again, and the interface
  statistics are left out. Memory that the server loses track of, and the copies of names in its tables when memory runs out, are
  not modelled. Two processes that change the same block at the same time
  are considered only where one of them has attached before (theorem \<open>lib_new_name_invisible\<close>):
  requests to the module are serialised by its semaphore. Branches that the router's
  configuration does not compile are left out, apart from the library without the kernel module.
\<close>

section \<open>The whole stack\<close>

text \<open>A restart of the router: the module is loaded from the flash the last command left behind,
  and the next command starts with fresh tables and an empty output.\<close>

definition restarted :: "knv \<Rightarrow> world \<Rightarrow> world" where
  "restarted k w = w\<lparr>nv := \<lparr>lfb = lib_fb_init, lk = k\<rparr>, stdout := []\<rparr>"

lemma restart_attachable:
  assumes "knv_ok (u_kheap e) k" and "i < 4" and "rom (kdev k) i = Some (ram k i)"
    and "storable i (ram k i)" and "user_ok e" and "u_nvdev e"
  shows "attachable e i \<lparr>lfb = lib_fb_init, lk = k\<rparr>"
  using assms fb_init_nth [OF assms(2)] lib_fb_init_blocks
  by (simp add: attachable_def kstore_ok_def synced_def lib_fb_init_eq)

lemma cmd_name:
  assumes "basename a0 = lit ''nvram_set''"
  shows "main t [a0, fz, key, v] w = ra_nv_set t [a0, fz, key, v] w"
  using assms by (simp add: main_def Let_def strneq_def)

lemma cmd_name_get:
  assumes "basename a0 = lit ''nvram_get''"
  shows "main t [a0, fz, key] w = ra_nv_get t [a0, fz, key] w"
  using assms by (simp add: main_def Let_def strneq_def)

text \<open>C1: a setting made with the \<open>nvram_set\<close> command survives a restart of the router: the module
  loads from the flash that the command left, and the \<open>nvram_get\<close> command then prints the new
  value for that name and the old value for every other, an empty line for an unknown name.\<close>

theorem command_survives_restart:
  assumes at: "attachable (te t) i (nv w)" and z: "getNvramIndex lib_fb_init fz = int i"
    "getNvramIndex (lfb (nv w)) fz = int i"
    and v: "is_cstring v" "length v < MAX_VALUE_LEN"
    and room: "length (AList.update key v (ram (lk (nv w)) i)) \<le> MAX_CACHE_ENTRY"
    and st: "storable i (AList.update key v (ram (lk (nv w)) i))"
    and others: "\<forall>j < 4. j \<noteq> i \<longrightarrow> rom (flash_of w) j \<noteq> None" and r: "0 \<le> r"
    and names: "basename a0 = lit ''nvram_set''" "basename a1 = lit ''nvram_get''"
    and m: "m \<noteq> lit ''cryptcheck''" "m \<noteq> lit ''comcryptcheck''"
  shows "\<exists>w1 k w2. main t [a0, fz, key, v] w = Ret (0, w1)
    \<and> ra_nvram_init (u_kheap (te t)) r (knv_start (flash_of w1)) = Ret (0, k)
    \<and> main t [a1, fz, m] (restarted k w1) = Ret (0, w2)
    \<and> stdout w2 = (if m = key then v else fmt_s (lookup (Some []) (ram (lk (nv w)) i) m)) @ [NEWLINE]"
proof -
  let ?kvs = "AList.update key v (ram (lk (nv w)) i)" and ?h = "u_kheap (te t)"
  obtain s where s: "set_in_zone t a0 fz key v w = Ret (0, w\<lparr>nv := s\<rparr>)" "attachable (te t) i s"
    "part_bytes RALINK_NVRAM_MTDNAME (kdev (lk s)) = patch (part_bytes RALINK_NVRAM_MTDNAME (flash_of w))
        (fst (layout ! i)) (encode_block (snd (layout ! i)) ?kvs)"
    using set_in_zone_ok [OF at z(2) v room st] by blast
  have i: "i < 4" using attachableD(2) [OF at] .
  have cfg: "config_ok ?h (flash_of w)" "config_ok ?h (kdev (lk s))"
    using attachableD(1) [OF at] attachableD(1) [OF s(2)] by (simp_all add: kstore_ok_def knv_ok_def)
  have rom: "rom (kdev (lk s)) j = (if j = i then Some ?kvs else rom (flash_of w) j)" if "j < 4" for j
    using rom_commit [OF config_bytes [OF cfg(1)] i st room s(3) that] .
  then have "\<forall>j < 4. rom (kdev (lk s)) j \<noteq> None" using others by simp
  from boot_run(2) [OF cfg(2) r this] obtain k where k:
    "ra_nvram_init ?h r (knv_start (kdev (lk s))) = Ret (0, k)" "knv_ok ?h k" "kdev k = kdev (lk s)"
    "\<forall>j < 4. rom (kdev (lk s)) j = Some (ram k j)" by blast
  have ram: "ram k i = ?kvs" using k(4) rom [OF i] i by auto
  have "u_nvdev (te t)" using at by (simp add: attachable_def)
  then have ak: "attachable (te t) i \<lparr>lfb = lib_fb_init, lk = k\<rparr>"
    using restart_attachable [OF k(2) i] k(3,4) ram st attachableD(5) [OF at] i by simp
  let ?w = "restarted k (w\<lparr>nv := s\<rparr>)"
  have w: "nv ?w = \<lparr>lfb = lib_fb_init, lk = k\<rparr>" "stdout ?w = []" by (simp_all add: restarted_def)
  have "attachable (te t) i (nv ?w)" "getNvramIndex (lfb (nv ?w)) fz = int i" using ak z(1) by (simp_all add: w)
  from get_in_zone_ok [OF this, of a1 m] obtain s' where
    "get_in_zone t a1 fz m ?w = Ret (0, printf (fmt_s (lookup (Some []) ?kvs m) @ [NEWLINE]) (?w\<lparr>nv := s'\<rparr>))"
    by (auto simp: w ram)
  then show ?thesis
    using s(1) k(1) m names
    by (auto simp: cmd_name cmd_name_get printf_def w fmt_s_def lookup_def update_conv' simp del: lit_Cons)
qed

theorem command_survives_restart_witness:
  "\<exists>w1 k w2. main board_tenv [lit ''nvram_set'', DEFAULT_FLASH_ZONE_NAME, [0x61], [0x31]] board_world = Ret (0, w1)
    \<and> ra_nvram_init (u_kheap board_env) 0 (knv_start (flash_of w1)) = Ret (0, k)
    \<and> main board_tenv [lit ''nvram_get'', DEFAULT_FLASH_ZONE_NAME, [0x61]] (restarted k w1) = Ret (0, w2)
    \<and> stdout w2 = [0x31, NEWLINE]"
proof -
  have at: "attachable (te board_tenv) 0 (nv board_world)" by (rule board_attachable) simp
  have z: "getNvramIndex lib_fb_init DEFAULT_FLASH_ZONE_NAME = int 0"
    "getNvramIndex (lfb (nv board_world)) DEFAULT_FLASH_ZONE_NAME = int 0"
    using board_zone by (simp_all add: board_world_def)
  have ram: "ram (lk (nv board_world)) 0 = []" by (simp add: board_world_def board_knv_props)
  have rom: "\<forall>j < 4. j \<noteq> 0 \<longrightarrow> rom (flash_of board_world) j \<noteq> None" by (simp add: board_flash board_rom)
  have n: "basename (lit ''nvram_set'') = lit ''nvram_set''" "basename (lit ''nvram_get'') = lit ''nvram_get''"
    by (simp_all add: basename_def)
  show ?thesis
    using command_survives_restart [OF at z, of "[0x31]" "[0x61]" 0 "lit ''nvram_set''" "lit ''nvram_get''" "[0x61]"]
      storable_small [of 0] rom n by (simp add: ram board_flash)
qed

text \<open>C30: the two builds of the library agree on the flash format: what the \<open>nvram_set\<close> command of the
  build with the kernel module stores, a process of the build without it reads back, for
  every name.\<close>

theorem builds_share_flash:
  assumes "attachable (te t) i (nv w)" and "getNvramIndex (lfb (nv w)) fz = int i" and "flash_ok (te t) (flash_of w)"
    and "is_cstring v" "length v < MAX_VALUE_LEN"
    and "length (AList.update key v (ram (lk (nv w)) i)) \<le> MAX_CACHE_ENTRY"
    and "storable i (AList.update key v (ram (lk (nv w)) i))"
  shows "\<exists>w1 s. ra_nv_set t [a0, fz, key, v] w = Ret (0, w1)
    \<and> fl_nvram_bufget (te t) \<lparr>ffb = lib_fb_init, fdev = flash_of w1\<rparr> (int i) m
      = Ret (if m = key then Some v else lookup (Some []) (ram (lk (nv w)) i) m, s)"
proof -
  let ?kvs = "AList.update key v (ram (lk (nv w)) i)"
  obtain s where s: "set_in_zone t a0 fz key v w = Ret (0, w\<lparr>nv := s\<rparr>)" "attachable (te t) i s"
    "same_board (flash_of w) (kdev (lk s))"
    "part_bytes RALINK_NVRAM_MTDNAME (kdev (lk s)) = patch (part_bytes RALINK_NVRAM_MTDNAME (flash_of w))
        (fst (layout ! i)) (encode_block (snd (layout ! i)) ?kvs)"
    using set_in_zone_ok [OF assms(1,2,4-7)] by blast
  have i: "i < 4" using attachableD(2) [OF assms(1)] .
  have cfg: "config_ok (u_kheap (te t)) (flash_of w)"
    using attachableD(1) [OF assms(1)] by (simp add: kstore_ok_def knv_ok_def)
  have "rom (kdev (lk s)) i = Some ?kvs"
    using rom_commit [OF config_bytes [OF cfg] i assms(7,6) s(4) i] by simp
  moreover have "flash_ok (te t) (kdev (lk s))" using flash_ok_board [OF s(3) assms(3)] .
  moreover have "0xf000 \<le> mtd_limit (kdev (lk s))"
    using config_okD(4) [OF cfg] same_board_simps(2) [OF s(3)] by simp
  ultimately obtain s' where "fl_nvram_bufget (te t) \<lparr>ffb = lib_fb_init, fdev = kdev (lk s)\<rparr> (int i) m
      = Ret (lookup (Some []) ?kvs m, s')"
    using fl_new_process [of "te t" "kdev (lk s)" i ?kvs m] i by blast
  then show ?thesis using s(1) by (auto simp: lookup_def update_conv')
qed

theorem builds_share_flash_witness:
  "\<exists>w1 s. ra_nv_set board_tenv [[], DEFAULT_FLASH_ZONE_NAME, [0x61], [0x31]] board_world = Ret (0, w1)
    \<and> fl_nvram_bufget board_env \<lparr>ffb = lib_fb_init, fdev = flash_of w1\<rparr> 0 [0x61] = Ret (Some [0x31], s)"
proof -
  have at: "attachable (te board_tenv) 0 (nv board_world)" by (rule board_attachable) simp
  have ram: "ram (lk (nv board_world)) 0 = []" by (simp add: board_world_def board_knv_props)
  show ?thesis
    using builds_share_flash [OF at, of DEFAULT_FLASH_ZONE_NAME "[0x31]" "[0x61]" "[]" "[0x61]"]
      board_zone storable_small [of 0] board_flash_ok by (simp add: ram board_flash)
qed

section \<open>From a form of the web server to the next start\<close>

lemma other_cfg_all:
  assumes "stored_cfg w = Some kvs" and "None \<notin> set (other_cfg w)"
  shows "\<forall>j < 4. rom (kdev (lk (wnv (fweb w)))) j \<noteq> None"
proof (intro allI impI notI)
  fix j :: nat assume j: "j < 4" "rom (kdev (lk (wnv (fweb w)))) j = None"
  then have "j \<noteq> 0" using assms(1) by (metis option.distinct(1))
  then have "j \<in> set [1, 2, 3]" using j(1) by auto
  then have "rom (kdev (lk (wnv (fweb w)))) j \<in> set (other_cfg w)" unfolding set_map by (rule imageI)
  with j(2) assms(2) show False by simp
qed

text \<open>The router restarts and the web server attaches to the module again: the settings are those the
  flash holds.\<close>

lemma restart_server:
  assumes ok: "fw_ok e w" and st: "stored_cfg w = Some kvs" "fits kvs" and others: "None \<notin> set (other_cfg w)" and r: "0 \<le> r"
  shows "\<exists>k s. ra_nvram_init (u_kheap (fe_u e)) r (knv_start (kdev (lk (wnv (fweb w))))) = Ret (0, k)
    \<and> lib_nvram_init (fe_u e) \<lparr>lfb = lib_fb_init, lk = k\<rparr> 0 = Ret s \<and> lib_ok (fe_u e) 0 s \<and> ram (lk s) 0 = kvs"
proof -
  let ?u = "fe_u e" and ?d = "kdev (lk (wnv (fweb w)))"
  have lib: "lib_ok ?u 0 (wnv (fweb w))" using ok by (simp add: fw_ok_def)
  note D = lib_okD [OF lib]
  have u: "user_ok ?u" using lib by (simp add: lib_ok_def)
  obtain k where k: "ra_nvram_init (u_kheap ?u) r (knv_start ?d) = Ret (0, k)" "knv_ok (u_kheap ?u) k" "kdev k = ?d"
    "\<forall>j < 4. rom ?d j = Some (ram k j)"
    using boot_run(2) [OF knv_okD(4) [OF D(3)] r other_cfg_all [OF st(1) others]] by blast
  have ram: "ram k 0 = kvs" using k(4) st(1) by auto
  have "attachable ?u 0 \<lparr>lfb = lib_fb_init, lk = k\<rparr>"
    using restart_attachable [OF k(2), of 0] k(3,4) ram st(2) u D(5) by (simp add: fits_def)
  then obtain s where "lib_nvram_init ?u \<lparr>lfb = lib_fb_init, lk = k\<rparr> (int 0) = Ret s" "lib_ok ?u 0 s" "ram (lk s) 0 = ram k 0"
    using lib_init_law [of ?u 0 "\<lparr>lfb = lib_fb_init, lk = k\<rparr>"] by (auto simp: attachable_def)
  then show ?thesis using k(1) ram by auto
qed

lemma forward_added_startup:
  assumes "startup_ok (cfg w)" and "known_mode kvs" "dmz_safe kvs" "plain (setting kvs (lit ''PortForwardRules''))"
    and "kvs = forward_added (cfg w) rule"
  shows "startup_ok kvs"
  using assms by (simp add: startup_ok_def forward_added_def setting_update)

text \<open>C2: a port forwarding rule entered on a page of the web server is in force after the router was
  restarted: the form stores it through the library and the module in the flash, the module and
  a new server process load it from there, and the firewall start-up runs the commands of all
  old rules and of the new one.\<close>

theorem forward_survives_restart:
  assumes ok: "fw_ok e w" and start: "startup_ok (cfg w)" and old: "old = sval w ''PortForwardRules''" "length old < 8000"
    and form: "forward_form q ip a b p c" and kvs: "kvs = forward_added (cfg w) (forward_text ip a b p c)"
    and fit: "fits (AList.update (lit ''PortForwardEnable'') (lit ''1'') (cfg w))" "fits kvs"
    and others: "None \<notin> set (other_cfg w)" and r: "0 \<le> r" and wan: "fe_addr e (wan_ifname e (cfg w)) = Some addr"
  shows "\<exists>w1 k s. portForward e q w = Ret w1
    \<and> ra_nvram_init (u_kheap (fe_u e)) r (knv_start (kdev (lk (wnv (fweb w1))))) = Ret (0, k)
    \<and> lib_nvram_init (fe_u e) \<lparr>lfb = lib_fb_init, lk = k\<rparr> 0 = Ret s
    \<and> (\<forall>w2. wnv (fweb w2) = s \<longrightarrow> (\<exists>w3 before after. firewall_init e w2 = Ret w3
        \<and> fcmds w3 = fcmds w2 @ before
            @ concat (map (forward_cmds (inet_ntoa addr)) (if old = [] then [] else records 256 old))
            @ map (\<lambda>p. forward_cmd (inet_ntoa addr) ip p a b) (forward_protos p) @ after))"
proof -
  have s: "known_mode (cfg w)" "dmz_safe (cfg w)" "plain old" using start old(1) by (simp_all add: startup_ok_def)
  note f = portForward_ok [OF ok s old form kvs fit]
  then obtain w1 where w1: "portForward e q w = Ret w1" "fw_ok e w1" "stored_cfg w1 = Some kvs" "other_cfg w1 = other_cfg w"
    by (elim conjE exE) (rule that)
  from f have g: "known_mode kvs" "dmz_safe kvs" "plain (setting kvs (lit ''PortForwardRules''))"
    "forward_all e kvs = forward_more e (cfg w) ip a b p" by simp_all
  obtain k s where k: "ra_nvram_init (u_kheap (fe_u e)) r (knv_start (kdev (lk (wnv (fweb w1))))) = Ret (0, k)"
    "lib_nvram_init (fe_u e) \<lparr>lfb = lib_fb_init, lk = k\<rparr> 0 = Ret s" "lib_ok (fe_u e) 0 s" "ram (lk s) 0 = kvs"
    using restart_server [OF w1(2,3) fit(2) _ r] others w1(4) by metis
  have st: "startup_ok kvs" by (rule forward_added_startup [OF start g(1-3) kvs])
  have more: "forward_more e (cfg w) ip a b p = concat (map (forward_cmds (inet_ntoa addr)) (if old = [] then [] else records 256 old))
      @ map (\<lambda>p. forward_cmd (inet_ntoa addr) ip p a b) (forward_protos p)"
    unfolding forward_more_def old(1) using wan by (simp add: Let_def)
  have "\<exists>w3 before after. firewall_init e w2 = Ret w3
      \<and> fcmds w3 = fcmds w2 @ before @ forward_more e (cfg w) ip a b p @ after" if "wnv (fweb w2) = s" for w2
  proof -
    have "fw_ok e w2" "cfg w2 = kvs" using that k(3,4) by (simp_all add: fw_ok_def)
    then obtain w3 where "firewall_init e w2 = Ret w3" "issued e w2 (startup_cmds e kvs) w3"
      using firewall_init_ok [of e w2] st by (auto simp: issues_def)
    then show ?thesis using g(4) by (auto simp: issued_def startup_cmds_def startup_nat_def)
        (metis append.assoc)
  qed
  with w1(1) k(1,2) more show ?thesis by (auto simp: append_assoc)
qed

lemma demo_others:
  assumes "lib_nvram_init demo_env demo_lib 0 = Ret s" and "fw_set demo_fenv (demo_fw s) ''OperationMode'' (lit ''1'') = Ret w"
  shows "None \<notin> set (other_cfg w)"
proof -
  have s: "lib_ok demo_env 0 s" "ram (lk s) 0 = []" "kdev (lk s) = kdev demo_knv"
    using lib_init_law [of demo_env 0 demo_lib] demo_kstore [of 0] demo_user storable_small [of 0] lib_fb_init_blocks fb_init_nth [of 0] assms(1)
    by (auto simp: demo_lib_def lib_fb_init_eq demo_ram)
  have ok: "fw_ok demo_fenv (demo_fw s)" "cfg (demo_fw s) = []"
    using s by (simp_all add: fw_ok_def demo_fenv_def demo_fw_def demo_web_def)
  have "became demo_fenv (demo_fw s) demo_cfg w"
    using fw_set_ok [OF ok(1), of demo_cfg "''OperationMode''" "lit ''1''"] demo_fits ok(2) assms(2) by (auto simp: demo_cfg_def)
  then have "other_cfg w = map (rom (kdev demo_knv)) [1, 2, 3]"
    using s(3) by (simp add: became_def demo_fw_def demo_web_def)
  then show ?thesis using demo_rom by (simp add: demo_kdev)
qed

theorem forward_survives_restart_witness:
  "\<exists>s w w1 k s' w3. lib_nvram_init demo_env demo_lib 0 = Ret s \<and> fw_set demo_fenv (demo_fw s) ''OperationMode'' (lit ''1'') = Ret w
    \<and> portForward demo_fenv demo_forward w = Ret w1
    \<and> ra_nvram_init demo_heap 0 (knv_start (kdev (lk (wnv (fweb w1))))) = Ret (0, k)
    \<and> lib_nvram_init demo_env \<lparr>lfb = lib_fb_init, lk = k\<rparr> 0 = Ret s' \<and> firewall_init demo_fenv (demo_fw s') = Ret w3
    \<and> lit ''iptables -t nat -A port_forward -j DNAT -d 10.0.0.1 -p tcp --dport 80:90 --to 192.168.1.2 '' \<in> set (fcmds w3)"
proof -
  obtain s w where w: "lib_nvram_init demo_env demo_lib 0 = Ret s" "fw_set demo_fenv (demo_fw s) ''OperationMode'' (lit ''1'') = Ret w"
    "fw_ok demo_fenv w" "cfg w = demo_cfg" "fcmds w = []" "freply w = []" by (rule demo_router)
  have fit: "fits (AList.update (lit ''PortForwardEnable'') (lit ''1'') demo_cfg)"
    "fits (forward_added demo_cfg (forward_text (lit ''192.168.1.2'') 80 90 1 []))"
    using demo_forward_fits by simp_all
  have form: "forward_form demo_forward (lit ''192.168.1.2'') 80 90 1 []"
    using demo_address demo_numbers by (simp add: forward_form_def demo_forward_def forward_protocol_def comment_ok_def plain_def)
  have addr: "fe_addr demo_fenv n = Some 0x0A000001" for n by (simp add: demo_fenv_def)
  have cmd: "forward_cmd (inet_ntoa 0x0A000001) (lit ''192.168.1.2'') 1 80 90
      = lit ''iptables -t nat -A port_forward -j DNAT -d 10.0.0.1 -p tcp --dport 80:90 --to 192.168.1.2 ''"
    unfolding demo_wan by (simp add: forward_cmd_def port_range_def demo_numbers lit_Cons)
  have u: "fe_u demo_fenv = demo_env" "u_kheap demo_env = demo_heap" using demo_user by (simp_all add: demo_fenv_def)
  have start: "startup_ok (cfg w)" "length (sval w ''PortForwardRules'') < 8000" using w(4) demo_startup by (simp_all del: lit_Cons add: demo_setting)
  from forward_survives_restart [OF w(3) start(1) refl start(2) form refl _ _ demo_others [OF w(1,2)] order_refl addr] fit w(4)
  obtain w1 k s' where r: "portForward demo_fenv demo_forward w = Ret w1"
    "ra_nvram_init demo_heap 0 (knv_start (kdev (lk (wnv (fweb w1))))) = Ret (0, k)"
    "lib_nvram_init demo_env \<lparr>lfb = lib_fb_init, lk = k\<rparr> 0 = Ret s'"
    "\<forall>w2. wnv (fweb w2) = s' \<longrightarrow> (\<exists>w3 before after. firewall_init demo_fenv w2 = Ret w3
        \<and> fcmds w3 = fcmds w2 @ before
            @ concat (map (forward_cmds (inet_ntoa 0x0A000001)) (if sval w ''PortForwardRules'' = [] then [] else records 256 (sval w ''PortForwardRules'')))
            @ map (\<lambda>p. forward_cmd (inet_ntoa 0x0A000001) (lit ''192.168.1.2'') p 80 90) (forward_protos 1) @ after)"
    unfolding u by auto
  have "wnv (fweb (demo_fw s')) = s'" by (simp add: demo_fw_def demo_web_def)
  with r(4) obtain w3 before after where "firewall_init demo_fenv (demo_fw s') = Ret w3"
    "fcmds w3 = fcmds (demo_fw s') @ before
            @ concat (map (forward_cmds (inet_ntoa 0x0A000001)) (if sval w ''PortForwardRules'' = [] then [] else records 256 (sval w ''PortForwardRules'')))
            @ map (\<lambda>p. forward_cmd (inet_ntoa 0x0A000001) (lit ''192.168.1.2'') p 80 90) (forward_protos 1) @ after" by blast
  moreover from this(2) have "lit ''iptables -t nat -A port_forward -j DNAT -d 10.0.0.1 -p tcp --dport 80:90 --to 192.168.1.2 '' \<in> set (fcmds w3)"
    unfolding cmd [symmetric] by (simp add: forward_protos_def)
  ultimately show ?thesis using w(1,2) r(1-3) by blast
qed

declare lit_Cons [simp del]

text \<open>C3: a new administrator, in every layer. After \<open>setSysAdm\<close> has stored a new name and password, the router restarts: the module
  and a new server process load the settings from the flash, and the server starts. From then on a request gets to the form, CGI program or page it names
  exactly when it carries the new name and password and neither has white space in it, or when it comes from the device itself, or when its path is one
  that the access limits do not cover or has \<open>/goform/App\<close> in it; every other one is answered with an error message and changes nothing.\<close>

theorem administrator_survives_restart:
  assumes "adm_inv (se_fw e) s" and "adm_request q (sv_fw s) u p" 
    and "None \<notin> set (other_cfg (sv_fw s))" and "0 \<le> r"
  shows "\<exists>s1 k n. setSysAdm (se_fw e) q s = Ret s1
    \<and> ra_nvram_init (u_kheap (fe_u (se_fw e))) r (knv_start (kdev (lk (wnv (fweb (sv_fw s1)))))) = Ret (0, k)
    \<and> lib_nvram_init (fe_u (se_fw e)) \<lparr>lfb = lib_fb_init, lk = k\<rparr> 0 = Ret n
    \<and> (\<forall>w2. wnv (fweb w2) = n \<longrightarrow> (\<exists>s2. initWebs (se_fw e) w2 = Ret (Some s2) \<and>
        (let path = websCondenseMultipleChars SLASH (wp_path wp) in
         if wp_local wp \<or> \<not> protected_path path \<or> is_app path
           \<or> umCheckName u \<and> umCheckName p \<and> wp_userName wp = Some u \<and> wp_password wp = Some p
         then websUrlHandlerRequest e (sv_um s2) (sv_handlers s2) wp = target e (condensed wp)
         else refused e tab q' wp s2)))"
proof -
  let ?kvs = "adm_settings (sv_fw s) u p"
  obtain s1 where s1: "setSysAdm (se_fw e) q s = Ret s1" "adm_inv (se_fw e) s1" "cfg (sv_fw s1) = ?kvs" "stored_cfg (sv_fw s1) = Some ?kvs"
    "other_cfg (sv_fw s1) = other_cfg (sv_fw s)" by (rule setSysAdm_ok [OF assms(1,2)])
  have ok: "fw_ok (se_fw e) (sv_fw s1)" "readable_ip (sval (sv_fw s1) ''lan_ipaddr'')" using s1(2) by (simp_all add: adm_inv_def)
  have req: "u \<noteq> []" "p \<noteq> []" "fits ?kvs" using assms(2) by (simp_all add: adm_request_def)
  have oth: "None \<notin> set (other_cfg (sv_fw s1))" using assms(3) unfolding s1(5) .
  obtain k n where k: "ra_nvram_init (u_kheap (fe_u (se_fw e))) r (knv_start (kdev (lk (wnv (fweb (sv_fw s1)))))) = Ret (0, k)"
    "lib_nvram_init (fe_u (se_fw e)) \<lparr>lfb = lib_fb_init, lk = k\<rparr> 0 = Ret n" "lib_ok (fe_u (se_fw e)) 0 n" "ram (lk n) 0 = ?kvs"
    using restart_server [OF ok(1) s1(4) req(3) oth assms(4)] by blast
  have "\<exists>s2. initWebs (se_fw e) w2 = Ret (Some s2) \<and> (let path = websCondenseMultipleChars SLASH (wp_path wp) in
      if wp_local wp \<or> \<not> protected_path path \<or> is_app path \<or> umCheckName u \<and> umCheckName p \<and> wp_userName wp = Some u \<and> wp_password wp = Some p
      then websUrlHandlerRequest e (sv_um s2) (sv_handlers s2) wp = target e (condensed wp) else refused e tab q' wp s2)" if w2: "wnv (fweb w2) = n" for w2
  proof -
    have c: "fw_ok (se_fw e) w2" "cfg w2 = ?kvs" using w2 k(3,4) by (simp_all add: fw_ok_def)
    have v: "setting ?kvs (lit ''Login'') = u" "setting ?kvs (lit ''Password'') = p" by (simp_all add: adm_settings_def setting_update)
    have "adm_of w2 = (if umCheckName u \<and> umCheckName p then Some (u, p) else None)" by (simp add: adm_of_def c(2) v)
    moreover have "readable_ip (sval w2 ''lan_ipaddr'')" using ok(2) by (simp add: s1(3) c(2))
    ultimately show ?thesis
      using server_guards [OF c(1), of wp tab q'] req(1,2) unfolding c(2) v Let_def by (auto split: if_splits)
  qed
  with s1(1) k(1,2) show ?thesis by blast
qed

definition demo_new_adm :: query where
  "demo_new_adm = demo_query [(''admuser'', ''root''), (''admpass'', ''s3cret'')]"

lemma demo_new_adm_request:
  assumes "cfg w = demo_adm"
  shows "adm_request demo_new_adm w (lit ''root'') (lit ''s3cret'')"
proof -
  have k: "adm_settings w (lit ''root'') (lit ''s3cret'') = [(lit ''lan_ipaddr'', lit ''10.10.10.254''), (lit ''Login'', lit ''root''), (lit ''Password'', lit ''s3cret'')]"
    by (simp add: adm_settings_def assms demo_adm_def)
  have "fits (adm_settings w (lit ''root'') (lit ''s3cret''))"
    unfolding k by (simp add: fits_def storable_def layout_def kv_ok_def) (simp add: lit_Cons)
  moreover have "length (AList.update (lit ''Login'') (lit ''root'') (cfg w)) \<le> MAX_CACHE_ENTRY" by (simp add: assms demo_adm_def)
  moreover have "form_var demo_new_adm ''admuser'' '''' = lit ''root''" "form_var demo_new_adm ''admpass'' '''' = lit ''s3cret''" by (simp_all add: demo_new_adm_def)
  moreover have "lit ''root'' \<noteq> []" "lit ''s3cret'' \<noteq> []" "is_cstring (lit ''root'')" "is_cstring (lit ''s3cret'')" "length (lit ''root'') < MAX_VALUE_LEN"
    "length (lit ''s3cret'') < MAX_VALUE_LEN" by (simp_all add: lit_Cons)
  ultimately show ?thesis unfolding adm_request_def by blast
qed

theorem administrator_survives_restart_witness:
  "\<exists>s s1 k n s2. setSysAdm demo_fenv demo_new_adm s = Ret s1
    \<and> ra_nvram_init demo_heap 0 (knv_start (kdev (lk (wnv (fweb (sv_fw s1)))))) = Ret (0, k)
    \<and> lib_nvram_init demo_env \<lparr>lfb = lib_fb_init, lk = k\<rparr> 0 = Ret n \<and> initWebs demo_fenv (demo_fw n) = Ret (Some s2)
    \<and> refused demo_senv Map.empty Map.empty (demo_request ''/home.asp'' (Some ''admin'')) s2"
proof -
  obtain w s where s: "adm_inv demo_fenv s" "cfg (sv_fw s) = demo_adm" "other_cfg (sv_fw s) = map (rom (kdev demo_knv)) [1, 2, 3]" by (rule demo_started)
  have fw: "se_fw demo_senv = demo_fenv" "fe_u demo_fenv = demo_env" "u_kheap demo_env = demo_heap" using demo_user by (simp_all add: demo_senv_def demo_fenv_def)
  let ?wp = "demo_request ''/home.asp'' (Some ''admin'')"
  have wp: "wp_path ?wp = lit ''/home.asp''" "\<not> wp_local ?wp" "wp_userName ?wp = Some (lit ''admin'')" by (simp_all add: demo_request_def)
  have oth: "None \<notin> set (other_cfg (sv_fw s))" unfolding s(3) using demo_rom by (simp add: demo_kdev)
  have path: "protected_path (websCondenseMultipleChars SLASH (wp_path ?wp))" "\<not> is_app (websCondenseMultipleChars SLASH (wp_path ?wp))"
    using demo_paths unfolding wp(1) by simp_all
  from administrator_survives_restart [of demo_senv s demo_new_adm "lit ''root''" "lit ''s3cret''" 0 ?wp Map.empty Map.empty, unfolded fw,
      OF s(1) demo_new_adm_request [OF s(2)] oth order_refl]
  obtain s1 k n where r: "setSysAdm demo_fenv demo_new_adm s = Ret s1"
    "ra_nvram_init demo_heap 0 (knv_start (kdev (lk (wnv (fweb (sv_fw s1)))))) = Ret (0, k)"
    "lib_nvram_init demo_env \<lparr>lfb = lib_fb_init, lk = k\<rparr> 0 = Ret n"
    "\<forall>w2. wnv (fweb w2) = n \<longrightarrow> (\<exists>s2. initWebs demo_fenv w2 = Ret (Some s2) \<and>
        (let path = websCondenseMultipleChars SLASH (wp_path ?wp) in
         if wp_local ?wp \<or> \<not> protected_path path \<or> is_app path
           \<or> umCheckName (lit ''root'') \<and> umCheckName (lit ''s3cret'') \<and> wp_userName ?wp = Some (lit ''root'') \<and> wp_password ?wp = Some (lit ''s3cret'')
         then websUrlHandlerRequest demo_senv (sv_um s2) (sv_handlers s2) ?wp = target demo_senv (condensed ?wp)
         else refused demo_senv Map.empty Map.empty ?wp s2))" by (elim exE conjE) (rule that)
  have "wnv (fweb (demo_fw n)) = n" by (simp add: demo_fw_def demo_web_def)
  with r(4) obtain s2 where "initWebs demo_fenv (demo_fw n) = Ret (Some s2)" "refused demo_senv Map.empty Map.empty ?wp s2"
    using path wp(2) unfolding wp(3) Let_def by auto
  with r(1-3) show ?thesis by blast
qed

end
